(* ===== verification/Prelude.thy ===== *)
theory Prelude
  imports Main "HOL-Library.Word" "HOL-Library.Monad_Syntax"
begin

unbundle bit_operations_syntax

text \<open>
  Shared vocabulary of the development: the C integer types as machine words, arrays whose
  accesses fail out of bounds, counted loops, and the lemmas about them that every component
  uses.

  Conventions. A C function that can leave the defined behaviour of the program (an access past
  the end of an array, a dereference of a null pointer, the shutdown of the machine when memory
  runs out, a loop that never ends) is a function into \<open>option\<close>, and \<open>None\<close> is that outcome; a
  theorem that it returns \<open>Some\<close> is then a theorem that the code is memory safe and terminates.
  An error code the C returns is an ordinary value.
\<close>

type_synonym u8 = "8 word"
type_synonym u16 = "16 word"
type_synonym u32 = "32 word"
type_synonym u64 = "64 word"

named_theorems kdefs "the numeric constants of the kernel headers, unfolded for evaluation"
named_theorems exec_simps "unfolding rules that evaluate array accesses and counted loops"

subsection \<open>Arrays with bounds\<close>

definition rd :: "'a list \<Rightarrow> nat \<Rightarrow> 'a option" where
  "rd xs i = (if i < length xs then Some (xs ! i) else None)"

definition wr :: "'a list \<Rightarrow> nat \<Rightarrow> 'a \<Rightarrow> 'a list option" where
  "wr xs i v = (if i < length xs then Some (xs[i := v]) else None)"

lemma rd_in [simp]: "i < length xs \<Longrightarrow> rd xs i = Some (xs ! i)"
  by (simp add: rd_def)

lemma rd_out [simp]: "length xs \<le> i \<Longrightarrow> rd xs i = None"
  by (simp add: rd_def)

lemma wr_in [simp]: "i < length xs \<Longrightarrow> wr xs i v = Some (xs[i := v])"
  by (simp add: wr_def)

lemma wr_out [simp]: "length xs \<le> i \<Longrightarrow> wr xs i v = None"
  by (simp add: wr_def)

lemma rd_SomeD: "rd xs i = Some v \<Longrightarrow> i < length xs \<and> v = xs ! i"
  by (auto simp: rd_def split: if_splits)

lemma wr_SomeD: "wr xs i v = Some ys \<Longrightarrow> i < length xs \<and> ys = xs[i := v]"
  by (auto simp: wr_def split: if_splits)

lemma wr_length: "wr xs i v = Some ys \<Longrightarrow> length ys = length xs"
  by (auto dest: wr_SomeD)

lemmas [exec_simps] = rd_def wr_def

subsection \<open>Counted loops\<close>

text \<open>\<open>for_n body i n s\<close> is \<open>for (k = i; k < i + n; k++) body\<close>; a body that fails stops it.\<close>

fun for_n :: "(nat \<Rightarrow> 's \<Rightarrow> 's option) \<Rightarrow> nat \<Rightarrow> nat \<Rightarrow> 's \<Rightarrow> 's option" where
  "for_n body i 0 s = Some s"
| "for_n body i (Suc n) s = do { s' \<leftarrow> body i s; for_n body (Suc i) n s' }"

definition for_range :: "nat \<Rightarrow> nat \<Rightarrow> (nat \<Rightarrow> 's \<Rightarrow> 's option) \<Rightarrow> 's \<Rightarrow> 's option" where
  "for_range lo hi body s = for_n body lo (hi - lo) s"

lemma for_n_numeral [exec_simps]:
  "for_n body i (numeral k) s = do { s' \<leftarrow> body i s; for_n body (Suc i) (pred_numeral k) s' }"
  by (simp add: numeral_eq_Suc)

lemma for_n_rule:
  assumes "for_n body i n s = Some t" and "P i s"
    and "\<And>k u v. i \<le> k \<Longrightarrow> k < i + n \<Longrightarrow> P k u \<Longrightarrow> body k u = Some v \<Longrightarrow> P (Suc k) v"
  shows "P (i + n) t"
  using assms
proof (induction n arbitrary: i s)
  case 0
  then show ?case by simp
next
  case (Suc n)
  from Suc.prems(1) obtain u where u: "body i s = Some u" "for_n body (Suc i) n u = Some t"
    by (auto split: Option.bind_splits)
  have "P (Suc i) u" using Suc.prems(2,3) u(1) by auto
  moreover have "\<And>k u v. Suc i \<le> k \<Longrightarrow> k < Suc i + n \<Longrightarrow> P k u \<Longrightarrow> body k u = Some v
      \<Longrightarrow> P (Suc k) v" using Suc.prems(3) by auto
  ultimately have "P (Suc i + n) t" using Suc.IH [OF u(2)] by blast
  then show ?case by simp
qed

lemma for_n_total:
  assumes "P i s"
    and "\<And>k u. i \<le> k \<Longrightarrow> k < i + n \<Longrightarrow> P k u \<Longrightarrow> \<exists>v. body k u = Some v \<and> P (Suc k) v"
  shows "\<exists>t. for_n body i n s = Some t \<and> P (i + n) t"
  using assms
proof (induction n arbitrary: i s)
  case 0
  then show ?case by simp
next
  case (Suc n)
  obtain v where v: "body i s = Some v" "P (Suc i) v" using Suc.prems(1) Suc.prems(2) [of i s] by auto
  have "\<exists>t. for_n body (Suc i) n v = Some t \<and> P (Suc i + n) t"
    by (rule Suc.IH [OF v(2)]) (use Suc.prems(2) in auto)
  then show ?case using v(1) by simp
qed

lemma for_range_rule:
  assumes "for_range lo hi body s = Some t" and "P lo s" and "lo \<le> hi"
    and "\<And>k u v. lo \<le> k \<Longrightarrow> k < hi \<Longrightarrow> P k u \<Longrightarrow> body k u = Some v \<Longrightarrow> P (Suc k) v"
  shows "P hi t"
proof -
  have "P (lo + (hi - lo)) t"
    by (rule for_n_rule [OF assms(1) [unfolded for_range_def]]) (use assms in auto)
  then show ?thesis using assms(3) by simp
qed

lemma for_range_total:
  assumes "P lo s" and "lo \<le> hi"
    and "\<And>k u. lo \<le> k \<Longrightarrow> k < hi \<Longrightarrow> P k u \<Longrightarrow> \<exists>v. body k u = Some v \<and> P (Suc k) v"
  shows "\<exists>t. for_range lo hi body s = Some t \<and> P hi t"
proof -
  have "\<exists>t. for_n body lo (hi - lo) s = Some t \<and> P (lo + (hi - lo)) t"
    by (rule for_n_total) (use assms in auto)
  then show ?thesis using assms(2) by (simp add: for_range_def)
qed

lemma for_n_append:
  "for_n body i (m + n) s = do { t \<leftarrow> for_n body i m s; for_n body (i + m) n t }"
  by (induction m arbitrary: i s) (auto split: Option.bind_splits)

subsection \<open>Words\<close>

lemma unat_u64_less: "unat (x :: u64) < 18446744073709551616"
proof -
  have "unat x < 2 ^ LENGTH(64)" by (rule unsigned_less)
  then show ?thesis by simp
qed

lemma unat_u32_less: "unat (x :: u32) < 4294967296"
proof -
  have "unat x < 2 ^ LENGTH(32)" by (rule unsigned_less)
  then show ?thesis by simp
qed

lemma unat_u8_less: "unat (x :: u8) < 256"
proof -
  have "unat x < 2 ^ LENGTH(8)" by (rule unsigned_less)
  then show ?thesis by simp
qed

lemma unat_Suc_u64: "unat (x :: u64) < unat (y :: u64) \<Longrightarrow> unat (x + 1) = Suc (unat x)"
  using unat_u64_less [of y] by (simp add: unat_word_ariths)

lemma unat_add_small:
  fixes a b :: "'a::len word"
  assumes "unat a + unat b < 2 ^ LENGTH('a)"
  shows "unat (a + b) = unat a + unat b"
  using assms by (simp add: unat_word_ariths)

lemma word_add_of_nat_inj:
  fixes p :: "'a::len word"
  assumes "p + of_nat i = p + of_nat j" and "i < 2 ^ LENGTH('a)" and "j < 2 ^ LENGTH('a)"
  shows "i = j"
proof -
  have "(of_nat i :: 'a word) = of_nat j" using assms(1) by simp
  then have "unat (of_nat i :: 'a word) = unat (of_nat j :: 'a word)" by simp
  then show ?thesis using assms(2,3) by (simp add: unsigned_of_nat take_bit_nat_eq_self)
qed

lemma unat_and_mask: "unat ((x :: 'a::len word) AND mask n) = unat x mod 2 ^ n"
  by (simp only: take_bit_eq_mask [symmetric] unsigned_take_bit_eq) (simp add: take_bit_eq_mod)

subsection \<open>Linked lists on a heap of next pointers\<close>

text \<open>
  \<open>chain nxt p xs\<close>: following \<open>nxt\<close> from the address \<open>p\<close> visits exactly the addresses \<open>xs\<close> and
  ends at the null pointer 0.
\<close>

fun chain :: "(u64 \<Rightarrow> u64) \<Rightarrow> u64 \<Rightarrow> u64 list \<Rightarrow> bool" where
  "chain nxt p [] \<longleftrightarrow> p = 0"
| "chain nxt p (a # as) \<longleftrightarrow> p = a \<and> a \<noteq> 0 \<and> chain nxt (nxt a) as"

lemma chain_cong: "(\<And>a. a \<in> set as \<Longrightarrow> f a = g a) \<Longrightarrow> chain f p as = chain g p as"
  by (induction as arbitrary: p) auto

lemma chain_unique: "chain f p as \<Longrightarrow> chain f p bs \<Longrightarrow> as = bs"
proof (induction as arbitrary: p bs)
  case Nil
  then show ?case by (cases bs) auto
next
  case (Cons a as)
  then show ?case by (cases bs) auto
qed

lemma chain_nonzero: "chain f p as \<Longrightarrow> 0 \<notin> set as"
  by (induction as arbitrary: p) auto

lemma chain_null [simp]: "chain f 0 as \<longleftrightarrow> as = []"
  by (cases as) auto

lemma chain_append_mid: "chain f p (as @ b # bs) \<Longrightarrow> chain f b (b # bs)"
  by (induction as arbitrary: p) auto

lemma chain_distinct: "chain f p as \<Longrightarrow> distinct as"
proof (induction as arbitrary: p)
  case Nil
  then show ?case by simp
next
  case (Cons a as)
  have "a \<notin> set as"
  proof
    assume "a \<in> set as"
    then obtain ys zs where as: "as = ys @ a # zs" by (meson split_list)
    from Cons.prems have full: "chain f a (a # as)" by auto
    from Cons.prems as have "chain f (f a) (ys @ a # zs)" by simp
    then have "chain f a (a # zs)" by (rule chain_append_mid)
    with full have "a # as = a # zs" by (rule chain_unique)
    with as show False by (metis append_Cons length_append length_Cons list.inject
          not_add_less2 lessI less_add_Suc2 add.commute)
  qed
  with Cons show ?case by auto
qed

lemma chain_upd: "a \<notin> set as \<Longrightarrow> chain (f(a := q)) p as = chain f p as"
  by (rule chain_cong) auto

end
