(* ===== verification/Kdefs.thy ===== *)
theory Kdefs
  imports Prelude
begin

unbundle bit_operations_syntax

text \<open>
  The address-space constants and address macros of \<open>arch/riscv/include/private_kdefs.h\<close> and
  \<open>arch/riscv/include/mm.h\<close>: where physical memory starts, the linear map between physical and
  kernel virtual addresses, page frame numbers and page rounding, all on 64-bit words with the
  wrap-around of C's \<open>uint64_t\<close>.
\<close>

definition PHY_START :: u64 where [kdefs]: "PHY_START = 0x80000000"
definition PHY_SIZE :: u64 where [kdefs]: "PHY_SIZE = 0x8000000"
definition VM_START :: u64 where [kdefs]: "VM_START = 0xffffffe000000000"
definition VM_END :: u64 where [kdefs]: "VM_END = 0xffffffff00000000"
definition PA2VA_OFFSET :: u64 where [kdefs]: "PA2VA_OFFSET = VM_START - PHY_START"
definition USER_START :: u64 where [kdefs]: "USER_START = 0"
definition USER_END :: u64 where [kdefs]: "USER_END = 0x4000000000"
definition PGSIZE :: u64 where [kdefs]: "PGSIZE = 0x1000"
definition PAGE_SHIFT :: nat where [kdefs]: "PAGE_SHIFT = 12"
definition INVALID_PA :: u64 where [kdefs]: "INVALID_PA = 0xdeadbeef"

definition PGROUNDDOWN :: "u64 \<Rightarrow> u64" where
  "PGROUNDDOWN addr = addr AND NOT (PGSIZE - 1)"

definition PGROUNDUP :: "u64 \<Rightarrow> u64" where
  "PGROUNDUP addr = PGROUNDDOWN (addr + PGSIZE - 1)"

definition VA2PA :: "u64 \<Rightarrow> u64" where "VA2PA x = x - PA2VA_OFFSET"
definition PA2VA :: "u64 \<Rightarrow> u64" where "PA2VA x = x + PA2VA_OFFSET"
definition PFN2PHYS :: "u64 \<Rightarrow> u64" where "PFN2PHYS x = push_bit 12 x + PHY_START"
definition PHYS2PFN :: "u64 \<Rightarrow> u64" where "PHYS2PFN x = drop_bit 12 (x - PHY_START)"

subsection \<open>Rounding and the linear map\<close>

lemma VA2PA_PA2VA [simp]: "VA2PA (PA2VA x) = x"
  by (simp add: VA2PA_def PA2VA_def)

lemma PA2VA_VA2PA [simp]: "PA2VA (VA2PA x) = x"
  by (simp add: VA2PA_def PA2VA_def)

lemma PHYS2PFN_PFN2PHYS:
  assumes "unat pfn < 2 ^ 52"
  shows "PHYS2PFN (PFN2PHYS pfn) = pfn"
proof -
  have "drop_bit 12 (push_bit 12 pfn) = take_bit 52 pfn"
    by (rule bit_word_eqI) (auto simp: bit_simps)
  also have "\<dots> = pfn"
    using assms by (simp only: word_unat_eq_iff unsigned_take_bit_eq take_bit_nat_eq_self)
  finally show ?thesis by (simp add: PHYS2PFN_def PFN2PHYS_def)
qed

lemma PGROUNDDOWN_eq: "PGROUNDDOWN x = push_bit 12 (drop_bit 12 x)"
proof -
  have "PGROUNDDOWN x = x AND NOT (mask 12)"
    by (simp add: PGROUNDDOWN_def PGSIZE_def mask_eq_exp_minus_1)
  also have "\<dots> = push_bit 12 (drop_bit 12 x)"
    by (rule bit_word_eqI) (auto simp: bit_simps)
  finally show ?thesis .
qed

lemma PGROUNDDOWN_idem [simp]: "PGROUNDDOWN (PGROUNDDOWN x) = PGROUNDDOWN x"
  by (simp add: PGROUNDDOWN_def and.assoc)

lemma unat_PGROUNDDOWN: "unat (PGROUNDDOWN x) = unat x div 4096 * 4096"
proof -
  have "unat (PGROUNDDOWN x) = take_bit 64 (unat x div 4096 * 4096)"
    by (simp only: PGROUNDDOWN_eq unsigned_push_bit_eq unat_drop_bit_eq)
      (simp add: push_bit_eq_mult drop_bit_eq_div)
  also have "\<dots> = unat x div 4096 * 4096"
  proof (rule take_bit_nat_eq_self)
    have "unat x div 4096 * 4096 \<le> unat x" by (rule div_times_less_eq_dividend)
    also have "\<dots> < 2 ^ 64" using unat_u64_less [of x] by simp
    finally show "unat x div 4096 * 4096 < 2 ^ 64" .
  qed
  finally show ?thesis .
qed

subsection \<open>Page-aligned addresses\<close>

definition page_aligned :: "u64 \<Rightarrow> bool" where
  "page_aligned p \<longleftrightarrow> take_bit 12 p = 0"

text \<open>The kernel virtual address of a page frame.\<close>

definition va_of :: "nat \<Rightarrow> u64" where
  "va_of pfn = PA2VA (PFN2PHYS (of_nat pfn))"

lemma va_of_aligned: "page_aligned (va_of pfn)"
proof -
  have 1: "take_bit 12 (push_bit 12 x) = (0 :: u64)" for x
    by (rule bit_word_eqI) (auto simp: bit_simps)
  have "va_of pfn = push_bit 12 (of_nat pfn) + 0xffffffe000000000"
    by (simp add: va_of_def PA2VA_def PFN2PHYS_def kdefs)
  also have "(0xffffffe000000000 :: u64) = push_bit 12 0xffffffe000000" by simp
  finally have "va_of pfn = push_bit 12 (of_nat pfn + 0xffffffe000000)"
    by (simp only: push_bit_add)
  then show ?thesis using 1 by (simp only: page_aligned_def)
qed

lemma unat_of_nat_small: "n < 2 ^ 52 \<Longrightarrow> unat (of_nat n :: u64) = n"
proof -
  assume n: "n < 2 ^ 52"
  have "unat (of_nat n :: u64) = take_bit 64 n" by (simp only: unsigned_of_nat) simp
  also have "\<dots> = n" using n by (intro take_bit_nat_eq_self) simp
  finally show ?thesis .
qed

lemma pfn_va_of: "pfn < 2 ^ 52 \<Longrightarrow> unat (PHYS2PFN (VA2PA (va_of pfn))) = pfn"
  using unat_of_nat_small [of pfn] PHYS2PFN_PFN2PHYS [of "of_nat pfn"]
  by (simp only: va_of_def VA2PA_PA2VA)

lemma va_of_inj: "va_of p = va_of q \<Longrightarrow> p < 2 ^ 52 \<Longrightarrow> q < 2 ^ 52 \<Longrightarrow> p = q"
  using pfn_va_of by metis

lemma page_offset:
  assumes "page_aligned p" "k < 4096"
  shows "PGROUNDDOWN (p + of_nat k) = p" "take_bit 12 (p + of_nat k) = of_nat k"
proof -
  have kk: "unat (of_nat k :: u64) = k" using assms(2) by (intro unat_of_nat_small) simp
  have lo: "\<not> bit p i" if "i < 12" for i
  proof -
    have "bit (take_bit 12 p) i = bit p i" using that by (simp add: bit_take_bit_iff)
    then show ?thesis using assms(1) by (simp add: page_aligned_def)
  qed
  have hi: "\<not> bit (of_nat k :: u64) i" if "12 \<le> i" for i
  proof -
    have "k < 2 ^ 12" using assms(2) by simp
    also have "(2::nat) ^ 12 \<le> 2 ^ i" using that by (rule power_increasing) simp
    finally have "\<not> bit k i" by (simp add: bit_iff_odd)
    then show ?thesis by (simp add: bit_of_nat_iff)
  qed
  have or: "p + of_nat k = p OR of_nat k"
    by (rule disjunctive_add) (metis lo hi not_le)
  have t: "take_bit 12 (p OR of_nat k) = of_nat k"
  proof (rule bit_eqI)
    fix i
    show "bit (take_bit 12 (p OR of_nat k)) i \<longleftrightarrow> bit (of_nat k :: u64) i"
      unfolding bit_take_bit_iff bit_or_iff using lo [of i] hi [of i] by (cases "i < 12") auto
  qed
  show "take_bit 12 (p + of_nat k) = of_nat k" unfolding or by (rule t)
  have s: "x = push_bit 12 (drop_bit 12 x) + take_bit 12 x" for x :: u64
    using bits_ident [of 12 x] by simp
  have "PGROUNDDOWN (p + of_nat k) + take_bit 12 (p + of_nat k) = p + of_nat k"
    unfolding PGROUNDDOWN_eq using bits_ident [of 12 "p + of_nat k"] by simp
  then have "PGROUNDDOWN (p + of_nat k) + of_nat k = p + of_nat k"
    unfolding or t .
  then show "PGROUNDDOWN (p + of_nat k) = p" by (simp only: add_right_cancel)
qed

lemma aligned_offset_inj:
  assumes "page_aligned p" "page_aligned q" "i < 512" "j < 512"
    and "p + 8 * of_nat i = q + 8 * of_nat j"
  shows "p = q \<and> i = j"
proof -
  have e: "p + of_nat (8 * i) = q + of_nat (8 * j)" using assms(5) by simp
  have pq: "p = q"
    using page_offset(1) [OF assms(1), of "8 * i"] page_offset(1) [OF assms(2), of "8 * j"] assms(3,4) e
    by simp
  have "(of_nat (8 * i) :: u64) = of_nat (8 * j)" using e unfolding pq by (simp only: add_left_cancel)
  then have "unat (of_nat (8 * i) :: u64) = unat (of_nat (8 * j) :: u64)" by (simp only:)
  then have "8 * i = 8 * j"
    using unat_of_nat_small [of "8 * i"] unat_of_nat_small [of "8 * j"] assms(3,4) by simp
  then show ?thesis using pq by linarith
qed

end
