(* ===== verification/Buddy.thy ===== *)
theory Buddy
  imports Kdefs
begin

unbundle bit_operations_syntax

text \<open>
  The physical page allocator of \<open>arch/riscv/kernel/mm.c\<close>: a buddy system kept as an implicit
  binary tree. Node \<open>i\<close> of the tree has the children \<open>2 i + 1\<close> and \<open>2 i + 2\<close>;
  \<open>bitmap[i]\<close> is the length of the longest run of pages that can be allocated below node \<open>i\<close>,
  0 when there is none, and \<open>ref_cnt[pfn]\<close> is the reference count of the block that starts at the
  page frame \<open>pfn\<close>. The array contents and indices are natural numbers: they are bounded by
  twice the number of page frames (\<open>PHY_SIZE / PGSIZE\<close> is \<open>2 ^ 15\<close>), so no 64-bit operation of
  the code on them wraps. The request \<open>nrpages\<close> comes from the caller and stays a 64-bit word.

  \<open>None\<close> stands for the two ways in which a call does not return to its caller: an access outside
  \<open>bitmap\<close> or \<open>ref_cnt\<close>, and the shutdown of the machine through the SBI when the kernel is out of
  memory. The invariant of \<open>Buddy_Inv\<close> rules the first out.
\<close>

record buddy =
  bitmap :: "nat list"
  ref_cnt :: "nat list"
  bsize :: nat

definition LEFT_LEAF :: "nat \<Rightarrow> nat" where "LEFT_LEAF index = index * 2 + 1"
definition RIGHT_LEAF :: "nat \<Rightarrow> nat" where "RIGHT_LEAF index = index * 2 + 2"
definition PARENT :: "nat \<Rightarrow> nat" where "PARENT index = (index + 1) div 2 - 1"

definition IS_POWER_OF_2 :: "u64 \<Rightarrow> bool" where
  "IS_POWER_OF_2 x \<longleftrightarrow> x AND (x - 1) = 0"

definition fixsize :: "u64 \<Rightarrow> u64" where
  "fixsize size0 =
     (let size = size0 - 1;
          size = size OR drop_bit 1 size;
          size = size OR drop_bit 2 size;
          size = size OR drop_bit 4 size;
          size = size OR drop_bit 8 size;
          size = size OR drop_bit 16 size;
          size = size OR drop_bit 32 size
      in size + 1)"

subsection \<open>buddy_free\<close>

text \<open>
  The first loop climbs from the leaf of \<open>pfn\<close> to the first node whose entry is 0; it doubles
  \<open>node_size\<close> before it looks whether it stands at the root.
\<close>

function free_climb :: "nat list \<Rightarrow> nat \<Rightarrow> nat \<Rightarrow> (nat \<times> nat) option" where
  "free_climb bm index node_size =
     do { v \<leftarrow> rd bm index;
          if v \<noteq> 0 then
            (if index = 0 then Some (index, node_size * 2)
             else free_climb bm (PARENT index) (node_size * 2))
          else Some (index, node_size) }"
  by pat_completeness auto
termination
  by (relation "measure (\<lambda>(bm, index, node_size). index)") (auto simp: PARENT_def)

declare free_climb.simps [simp del]

text \<open>The second loop recomputes the entries of the ancestors, merging two free buddies.\<close>

function free_merge :: "nat list \<Rightarrow> nat \<Rightarrow> nat \<Rightarrow> nat list option" where
  "free_merge bm index0 node_size0 =
     (if index0 = 0 then Some bm
      else let index = PARENT index0; node_size = node_size0 * 2 in
        do { left_longest \<leftarrow> rd bm (LEFT_LEAF index);
             right_longest \<leftarrow> rd bm (RIGHT_LEAF index);
             bm' \<leftarrow> wr bm index (if left_longest + right_longest = node_size then node_size
                                  else max left_longest right_longest);
             free_merge bm' index node_size })"
  by pat_completeness auto
termination
  by (relation "measure (\<lambda>(bm, index, node_size). index)") (auto simp: PARENT_def)

declare free_merge.simps [simp del]

definition buddy_free :: "nat \<Rightarrow> buddy \<Rightarrow> buddy option" where
  "buddy_free pfn b =
     do { c \<leftarrow> rd (ref_cnt b) pfn;
          if c \<noteq> 0 then Some b
          else do {
            (index, node_size) \<leftarrow> free_climb (bitmap b) (pfn + bsize b - 1) 1;
            bm \<leftarrow> wr (bitmap b) index node_size;
            bm' \<leftarrow> free_merge bm index node_size;
            Some (b\<lparr>bitmap := bm'\<rparr>) } }"

subsection \<open>Reference counts\<close>

definition buddy_pfn_incref :: "nat \<Rightarrow> buddy \<Rightarrow> buddy option" where
  "buddy_pfn_incref pfn b =
     do { c \<leftarrow> rd (ref_cnt b) pfn;
          rc \<leftarrow> wr (ref_cnt b) pfn (c + 1);
          Some (b\<lparr>ref_cnt := rc\<rparr>) }"

definition buddy_pfn_decref :: "nat \<Rightarrow> buddy \<Rightarrow> buddy option" where
  "buddy_pfn_decref pfn b =
     do { c \<leftarrow> rd (ref_cnt b) pfn;
          if c \<noteq> 0 then
            do { rc \<leftarrow> wr (ref_cnt b) pfn (c - 1);
                 if c - 1 = 0 then buddy_free pfn (b\<lparr>ref_cnt := rc\<rparr>)
                 else Some (b\<lparr>ref_cnt := rc\<rparr>) }
          else Some b }"

subsection \<open>buddy_alloc\<close>

text \<open>
  The difference that gives \<open>pfn\<close> is one of 64-bit words: were the minuend the smaller one it would
  wrap around to a number past the end of \<open>ref_cnt\<close>, so that case fails.
\<close>

function alloc_descend :: "nat list \<Rightarrow> nat \<Rightarrow> nat \<Rightarrow> nat \<Rightarrow> (nat \<times> nat) option" where
  "alloc_descend bm nrpages index node_size =
     (if node_size \<noteq> nrpages then
        do { l \<leftarrow> rd bm (LEFT_LEAF index);
             if l \<ge> nrpages then alloc_descend bm nrpages (LEFT_LEAF index) (node_size div 2)
             else alloc_descend bm nrpages (RIGHT_LEAF index) (node_size div 2) }
      else Some (index, node_size))"
  by pat_completeness auto
termination
  by (relation "measure (\<lambda>(bm, nrpages, index, node_size). length bm - index)")
    (auto simp: LEFT_LEAF_def RIGHT_LEAF_def dest: rd_SomeD)

declare alloc_descend.simps [simp del]

function alloc_update :: "nat list \<Rightarrow> nat \<Rightarrow> nat list option" where
  "alloc_update bm index0 =
     (if index0 = 0 then Some bm
      else let index = PARENT index0 in
        do { l \<leftarrow> rd bm (LEFT_LEAF index);
             r \<leftarrow> rd bm (RIGHT_LEAF index);
             bm' \<leftarrow> wr bm index (max l r);
             alloc_update bm' index })"
  by pat_completeness auto
termination
  by (relation "measure (\<lambda>(bm, index). index)") (auto simp: PARENT_def)

declare alloc_update.simps [simp del]

definition request_pages :: "u64 \<Rightarrow> u64" where
  "request_pages nrpages =
     (if nrpages = 0 then 1 else if \<not> IS_POWER_OF_2 nrpages then fixsize nrpages else nrpages)"

definition buddy_alloc :: "u64 \<Rightarrow> buddy \<Rightarrow> (nat \<times> buddy) option" where
  "buddy_alloc nrpages b =
     (let n = unat (request_pages nrpages) in
      do { root \<leftarrow> rd (bitmap b) 0;
           if root < n then None
           else do {
             (index, node_size) \<leftarrow> alloc_descend (bitmap b) n 0 (bsize b);
             bm \<leftarrow> wr (bitmap b) index 0;
             pfn \<leftarrow> (if (index + 1) * node_size < bsize b then None
                    else Some ((index + 1) * node_size - bsize b));
             rc \<leftarrow> wr (ref_cnt b) pfn 1;
             bm' \<leftarrow> alloc_update bm index;
             Some (pfn, b\<lparr>bitmap := bm', ref_cnt := rc\<rparr>) } })"

subsection \<open>buddy_init\<close>

definition init_node :: "nat \<Rightarrow> nat \<times> nat list \<Rightarrow> (nat \<times> nat list) option" where
  "init_node i st =
     (let (node_size, bm) = st;
          node_size' = (if IS_POWER_OF_2 (of_nat (i + 1)) then node_size div 2 else node_size)
      in do { bm' \<leftarrow> wr bm i node_size'; Some (node_size', bm') })"

fun buddy_reserve :: "nat \<Rightarrow> buddy \<Rightarrow> buddy option" where
  "buddy_reserve 0 b = Some b"
| "buddy_reserve (Suc pfn) b = do { (p, b') \<leftarrow> buddy_alloc 1 b; buddy_reserve pfn b' }"

text \<open>
  \<open>buddy_init_at phy_size start\<close> is \<open>buddy_init\<close> for a machine with \<open>phy_size\<close> bytes of memory and
  the linker symbol \<open>_ekernel\<close> at \<open>start\<close>; it also returns the new \<open>free_page_start\<close>.
\<close>

definition buddy_init_at :: "u64 \<Rightarrow> u64 \<Rightarrow> (buddy \<times> u64) option" where
  "buddy_init_at phy_size start =
     (let buddy_size = phy_size div PGSIZE;
          buddy_size' = (if \<not> IS_POWER_OF_2 buddy_size then fixsize buddy_size else buddy_size);
          sz = unat buddy_size';
          start1 = start + 2 * buddy_size' * 8;
          start2 = start1 + buddy_size' * 8
      in do {
        (ns, bm) \<leftarrow> for_range 0 (2 * sz - 1) init_node (2 * sz, replicate (2 * sz) 0);
        b \<leftarrow> buddy_reserve (unat (PHYS2PFN (VA2PA start2)))
               \<lparr>bitmap = bm, ref_cnt = replicate sz 0, bsize = sz\<rparr>;
        Some (b, start2) })"

definition buddy_init :: "u64 \<Rightarrow> (buddy \<times> u64) option" where
  "buddy_init ekernel = buddy_init_at PHY_SIZE ekernel"

subsection \<open>The interface of mm.h\<close>

definition pfn_of_va :: "u64 \<Rightarrow> nat" where
  "pfn_of_va va = unat (PHYS2PFN (VA2PA va))"

definition alloc_pages :: "u64 \<Rightarrow> buddy \<Rightarrow> (u64 \<times> buddy) option" where
  "alloc_pages nrpages b =
     do { (pfn, b') \<leftarrow> buddy_alloc nrpages b; Some (PA2VA (PFN2PHYS (of_nat pfn)), b') }"

definition alloc_page :: "buddy \<Rightarrow> (u64 \<times> buddy) option" where
  "alloc_page b = alloc_pages 1 b"

definition free_pages :: "u64 \<Rightarrow> buddy \<Rightarrow> buddy option" where
  "free_pages va b = buddy_free (pfn_of_va va) b"

definition ref_page :: "u64 \<Rightarrow> buddy \<Rightarrow> (int \<times> buddy) option" where
  "ref_page va b =
     do { c \<leftarrow> rd (ref_cnt b) (pfn_of_va va);
          if c = 0 then Some (-1, b)
          else do { b' \<leftarrow> buddy_pfn_incref (pfn_of_va va) b; Some (0, b') } }"

definition deref_page :: "u64 \<Rightarrow> buddy \<Rightarrow> (int \<times> buddy) option" where
  "deref_page va b =
     do { c \<leftarrow> rd (ref_cnt b) (pfn_of_va va);
          if c = 0 then Some (-1, b)
          else do { b' \<leftarrow> buddy_pfn_decref (pfn_of_va va) b; Some (0, b') } }"

definition get_ref_cnt :: "u64 \<Rightarrow> buddy \<Rightarrow> nat option" where
  "get_ref_cnt pa b = rd (ref_cnt b) (unat (PHYS2PFN pa))"

end
