(* ===== verification/Buddy_Inv.thy ===== *)
theory Buddy_Inv
  imports Buddy
begin

text \<open>
  The invariant of the buddy allocator and the effect of each operation on the set of allocated
  blocks. A node of the implicit tree stands for the aligned run of pages \<open>node_pages\<close>. A node is
  an allocated block when its entry is 0 while its left child (if any) is not: allocation stores 0
  at the chosen node and leaves the entries below it as they were. \<open>buddy_inv\<close> says that every
  entry is the one its children determine, or 0 above two free children, and that the pages with a
  reference count are the first pages of the allocated blocks.
\<close>

subsection \<open>Node arithmetic\<close>

lemma PARENT_LEFT [simp]: "PARENT (LEFT_LEAF i) = i"
  by (simp add: PARENT_def LEFT_LEAF_def)

lemma PARENT_RIGHT [simp]: "PARENT (RIGHT_LEAF i) = i"
  by (simp add: PARENT_def RIGHT_LEAF_def)

lemma PARENT_less: "0 < i \<Longrightarrow> PARENT i < i"
  by (simp add: PARENT_def)

lemma LEFT_RIGHT_neq [simp]:
  "LEFT_LEAF i \<noteq> 0" "RIGHT_LEAF i \<noteq> 0" "LEFT_LEAF i \<noteq> RIGHT_LEAF j" "RIGHT_LEAF i \<noteq> LEFT_LEAF j"
  "i < LEFT_LEAF i" "i < RIGHT_LEAF i" "LEFT_LEAF i \<noteq> i" "RIGHT_LEAF i \<noteq> i"
  "i \<noteq> LEFT_LEAF i" "i \<noteq> RIGHT_LEAF i"
  by (auto simp: LEFT_LEAF_def RIGHT_LEAF_def) presburger+

lemma LEFT_inj [simp]: "LEFT_LEAF i = LEFT_LEAF j \<longleftrightarrow> i = j"
  by (simp add: LEFT_LEAF_def)

lemma RIGHT_inj [simp]: "RIGHT_LEAF i = RIGHT_LEAF j \<longleftrightarrow> i = j"
  by (simp add: RIGHT_LEAF_def)

lemma child_cases:
  assumes "0 < i"
  obtains (left) "i = LEFT_LEAF (PARENT i)" | (right) "i = RIGHT_LEAF (PARENT i)"
proof (cases "even i")
  case True
  then have "i = RIGHT_LEAF (PARENT i)" using assms unfolding RIGHT_LEAF_def PARENT_def by presburger
  then show thesis by (rule right)
next
  case False
  then have "i = LEFT_LEAF (PARENT i)" unfolding LEFT_LEAF_def PARENT_def by presburger
  then show thesis by (rule left)
qed

lemma PARENT_eq_iff: "0 < i \<Longrightarrow> PARENT i = j \<longleftrightarrow> i = LEFT_LEAF j \<or> i = RIGHT_LEAF j"
  by (metis PARENT_LEFT PARENT_RIGHT child_cases)

text \<open>The number of pages of node \<open>i\<close> of a tree over \<open>S\<close> pages.\<close>

function nsz :: "nat \<Rightarrow> nat \<Rightarrow> nat" where
  "nsz S i = (if i = 0 then S else nsz S (PARENT i) div 2)"
  by pat_completeness auto
termination
  by (relation "measure snd") (auto simp: PARENT_less)

declare nsz.simps [simp del]

lemma nsz_0 [simp]: "nsz S 0 = S"
  by (simp add: nsz.simps)

lemma nsz_LEFT [simp]: "nsz S (LEFT_LEAF i) = nsz S i div 2"
  by (subst nsz.simps) simp

lemma nsz_RIGHT [simp]: "nsz S (RIGHT_LEAF i) = nsz S i div 2"
  by (subst nsz.simps) simp

lemma PARENT_bounds:
  assumes "0 < i" "2 ^ Suc d \<le> i + 1" "i + 1 < 2 ^ Suc (Suc d)"
  shows "2 ^ d \<le> PARENT i + 1" "PARENT i + 1 < 2 ^ Suc d"
  using assms by (auto simp: PARENT_def)

lemma nsz_level:
  "2 ^ d \<le> i + 1 \<Longrightarrow> i + 1 < 2 ^ Suc d \<Longrightarrow> d \<le> K \<Longrightarrow> nsz (2 ^ K) i = 2 ^ (K - d)"
proof (induction d arbitrary: i)
  case 0
  then show ?case by simp
next
  case (Suc d)
  have "(2::nat) \<le> 2 ^ Suc d" by simp
  then have i: "0 < i" using Suc.prems(1) by linarith
  have "nsz (2 ^ K) (PARENT i) = 2 ^ (K - d)"
    by (rule Suc.IH [OF PARENT_bounds [OF i Suc.prems(1,2)]]) (use Suc.prems in simp)
  moreover have "K - d = Suc (K - Suc d)" using Suc.prems(3) by simp
  ultimately show ?case using i by (subst nsz.simps) simp
qed

lemma level_exists: "\<exists>d. 2 ^ d \<le> i + 1 \<and> i + 1 < (2::nat) ^ Suc d"
proof (induction i rule: less_induct)
  case (less i)
  show ?case
  proof (cases "i = 0")
    case True
    then show ?thesis by (intro exI [of _ 0]) simp
  next
    case False
    then obtain d where "2 ^ d \<le> PARENT i + 1" "PARENT i + 1 < (2::nat) ^ Suc d"
      using less.IH [OF PARENT_less] by auto
    then show ?thesis using False by (intro exI [of _ "Suc d"]) (auto simp: PARENT_def)
  qed
qed

text \<open>The nodes of a tree over \<open>S = 2 ^ K\<close> pages are those below \<open>2 * S - 1\<close>.\<close>

lemma node_level:
  assumes "i < 2 * 2 ^ K - 1"
  obtains d where "d \<le> K" "2 ^ d \<le> i + 1" "i + 1 < 2 ^ Suc d" "nsz (2 ^ K) i = 2 ^ (K - d)"
proof -
  obtain d where d: "2 ^ d \<le> i + 1" "i + 1 < (2::nat) ^ Suc d" using level_exists by blast
  have "(2::nat) ^ d < 2 ^ Suc K" using d(1) assms by simp
  then have "d < Suc K" by (rule power_less_imp_less_exp [rotated]) simp
  then have "d \<le> K" by simp
  with d nsz_level [OF d] that show thesis by blast
qed

lemma nsz_pos: "i < 2 * 2 ^ K - 1 \<Longrightarrow> 0 < nsz (2 ^ K) i"
  by (rule node_level) auto

lemma nsz_even: "i < 2 * 2 ^ K - 1 \<Longrightarrow> nsz (2 ^ K) i \<noteq> 1 \<Longrightarrow> 2 * (nsz (2 ^ K) i div 2) = nsz (2 ^ K) i"
proof (rule node_level, assumption)
  fix d assume "nsz (2 ^ K) i \<noteq> 1" "nsz (2 ^ K) i = 2 ^ (K - d)"
  then show ?thesis by (cases "K - d") auto
qed

lemma nsz_le: "i < 2 * 2 ^ K - 1 \<Longrightarrow> nsz (2 ^ K) i \<le> 2 ^ K"
  by (rule node_level) auto

lemma span_bounds:
  assumes "i < 2 * 2 ^ K - 1"
  shows "2 ^ K \<le> (i + 1) * nsz (2 ^ K) i" "(i + 2) * nsz (2 ^ K) i \<le> 2 * 2 ^ K"
proof -
  obtain d where d: "d \<le> K" "2 ^ d \<le> i + 1" "i + 1 < 2 ^ Suc d" "nsz (2 ^ K) i = 2 ^ (K - d)"
    using assms by (rule node_level)
  have K: "(2::nat) ^ K = 2 ^ d * 2 ^ (K - d)" using d(1) by (simp flip: power_add)
  have "2 ^ d * 2 ^ (K - d) \<le> (i + 1) * 2 ^ (K - d)" by (rule mult_le_mono1 [OF d(2)])
  then show "2 ^ K \<le> (i + 1) * nsz (2 ^ K) i" by (simp only: K [symmetric] d(4))
  have "i + 2 \<le> 2 * 2 ^ d" using d(3) by simp
  then have "(i + 2) * 2 ^ (K - d) \<le> 2 * 2 ^ d * 2 ^ (K - d)" by (rule mult_le_mono1)
  then show "(i + 2) * nsz (2 ^ K) i \<le> 2 * 2 ^ K" by (simp only: K [symmetric] d(4) mult.assoc)
qed

lemma children_in:
  assumes "i < 2 * 2 ^ K - 1" "nsz (2 ^ K) i \<noteq> 1"
  shows "LEFT_LEAF i < 2 * 2 ^ K - 1" "RIGHT_LEAF i < 2 * 2 ^ K - 1"
proof -
  have "2 \<le> nsz (2 ^ K) i" using nsz_pos [OF assms(1)] assms(2) by linarith
  then have "(i + 2) * 2 \<le> (i + 2) * nsz (2 ^ K) i" by (rule mult_le_mono2)
  also have "\<dots> \<le> 2 * 2 ^ K" by (rule span_bounds(2) [OF assms(1)])
  finally show "LEFT_LEAF i < 2 * 2 ^ K - 1" "RIGHT_LEAF i < 2 * 2 ^ K - 1"
    by (auto simp: LEFT_LEAF_def RIGHT_LEAF_def)
qed

lemma PARENT_in:
  assumes "i < 2 * 2 ^ K - 1" "0 < i"
  shows "PARENT i < 2 * 2 ^ K - 1" "nsz (2 ^ K) (PARENT i) \<noteq> 1"
    "2 * nsz (2 ^ K) i = nsz (2 ^ K) (PARENT i)"
proof -
  show *: "PARENT i < 2 * 2 ^ K - 1" using PARENT_less [OF assms(2)] assms(1) by linarith
  have i: "nsz (2 ^ K) i = nsz (2 ^ K) (PARENT i) div 2"
    using assms(2) by (subst nsz.simps) simp
  with nsz_pos [OF assms(1)] show **: "nsz (2 ^ K) (PARENT i) \<noteq> 1" by auto
  show "2 * nsz (2 ^ K) i = nsz (2 ^ K) (PARENT i)" using nsz_even [OF * **] i by simp
qed

subsection \<open>Paths to the root\<close>

function path :: "nat \<Rightarrow> nat list" where
  "path i = i # (if i = 0 then [] else path (PARENT i))"
  by pat_completeness auto
termination
  by (relation "measure id") (auto simp: PARENT_less)

declare path.simps [simp del]

text \<open>The strict ancestors of a node.\<close>

definition ancestors :: "nat \<Rightarrow> nat set" where
  "ancestors i = (if i = 0 then {} else set (path (PARENT i)))"

lemma set_path: "set (path i) = insert i (ancestors i)"
  by (subst path.simps) (simp add: ancestors_def)

lemma ancestors_0 [simp]: "ancestors 0 = {}"
  by (simp add: ancestors_def)

lemma ancestors_step: "0 < i \<Longrightarrow> ancestors i = insert (PARENT i) (ancestors (PARENT i))"
  by (simp add: ancestors_def set_path)

lemma ancestors_LEFT [simp]: "ancestors (LEFT_LEAF i) = insert i (ancestors i)"
  using ancestors_step [of "LEFT_LEAF i"] by (simp add: LEFT_LEAF_def PARENT_def)

lemma ancestors_RIGHT [simp]: "ancestors (RIGHT_LEAF i) = insert i (ancestors i)"
  using ancestors_step [of "RIGHT_LEAF i"] by (simp add: RIGHT_LEAF_def PARENT_def)

lemma ancestors_less: "a \<in> ancestors i \<Longrightarrow> a < i"
proof (induction i rule: less_induct)
  case (less i)
  then have "0 < i" by (cases i) auto
  with less show ?case using PARENT_less [of i] by (fastforce simp: ancestors_step)
qed

lemma ancestors_irrefl [simp]:
  "i \<notin> ancestors i" "LEFT_LEAF i \<notin> ancestors i" "RIGHT_LEAF i \<notin> ancestors i"
  using ancestors_less [of i i] ancestors_less [of "LEFT_LEAF i" i]
    ancestors_less [of "RIGHT_LEAF i" i]
  by (auto simp: LEFT_LEAF_def RIGHT_LEAF_def)

lemma ancestors_trans: "a \<in> ancestors b \<Longrightarrow> b \<in> ancestors i \<Longrightarrow> a \<in> ancestors i"
proof (induction i rule: less_induct)
  case (less i)
  then have "0 < i" by (cases i) auto
  with less show ?case using PARENT_less [of i] by (fastforce simp: ancestors_step)
qed

lemma ancestors_child:
  "LEFT_LEAF a \<in> ancestors i \<Longrightarrow> a \<in> ancestors i" "RIGHT_LEAF a \<in> ancestors i \<Longrightarrow> a \<in> ancestors i"
  using ancestors_trans [of a "LEFT_LEAF a" i] ancestors_trans [of a "RIGHT_LEAF a" i] by simp_all

lemma path_child:
  "LEFT_LEAF a \<in> set (path i) \<Longrightarrow> a \<in> set (path i)"
  "RIGHT_LEAF a \<in> set (path i) \<Longrightarrow> a \<in> set (path i)"
  using ancestors_child [of a i] ancestors_LEFT [of a] ancestors_RIGHT [of a]
  by (auto simp: set_path)

lemma ancestor_child:
  "a \<in> ancestors i \<Longrightarrow> LEFT_LEAF a \<in> set (path i) \<or> RIGHT_LEAF a \<in> set (path i)"
proof (induction i rule: less_induct)
  case (less i)
  then have i: "0 < i" by (cases i) auto
  show ?case
  proof (cases "a = PARENT i")
    case True
    then show ?thesis using i by (metis child_cases insertI1 set_path)
  next
    case False
    then have "a \<in> ancestors (PARENT i)" using less.prems ancestors_step [OF i] by simp
    from less.IH [OF PARENT_less [OF i] this] show ?thesis
      using ancestors_step [OF i] by (auto simp: set_path)
  qed
qed

lemma ancestors_linear:
  "a \<in> set (path i) \<Longrightarrow> b \<in> set (path i) \<Longrightarrow> a \<in> set (path b) \<or> b \<in> set (path a)"
proof (induction i rule: less_induct)
  case (less i)
  show ?case
  proof (cases "a = i \<or> b = i")
    case True
    with less show ?thesis by auto
  next
    case False
    with less have anc: "a \<in> ancestors i" "b \<in> ancestors i" by (auto simp: set_path)
    then have "0 < i" by (cases i) auto
    with anc have "a \<in> set (path (PARENT i))" "b \<in> set (path (PARENT i))"
      by (auto simp: ancestors_def)
    with less.IH [OF PARENT_less [OF \<open>0 < i\<close>]] show ?thesis by blast
  qed
qed

lemma root_in_path: "0 \<in> set (path i)"
proof (induction i rule: less_induct)
  case (less i)
  then show ?case
    by (cases "i = 0") (use PARENT_less [of i] in \<open>auto simp: set_path ancestors_step\<close>)
qed

subsection \<open>The pages of a node\<close>

definition node_first :: "nat \<Rightarrow> nat \<Rightarrow> nat" where
  "node_first S i = (i + 1) * nsz S i - S"

definition node_pages :: "nat \<Rightarrow> nat \<Rightarrow> nat set" where
  "node_pages S i = {node_first S i ..< node_first S i + nsz S i}"

lemma node_first_children:
  assumes "i < 2 * 2 ^ K - 1" "nsz (2 ^ K) i \<noteq> 1"
  shows "node_first (2 ^ K) (LEFT_LEAF i) = node_first (2 ^ K) i"
    "node_first (2 ^ K) (RIGHT_LEAF i) = node_first (2 ^ K) i + nsz (2 ^ K) i div 2"
proof -
  define h where "h = nsz (2 ^ K) i div 2"
  have n: "nsz (2 ^ K) i = 2 * h" using nsz_even [OF assms] by (simp add: h_def)
  have ge: "2 ^ K \<le> (i + 1) * (2 * h)" using span_bounds(1) [OF assms(1)] by (simp only: n)
  have L: "(LEFT_LEAF i + 1) * nsz (2 ^ K) (LEFT_LEAF i) = (i + 1) * (2 * h)"
    by (simp only: nsz_LEFT h_def [symmetric]) (simp add: LEFT_LEAF_def algebra_simps)
  have R: "(RIGHT_LEAF i + 1) * nsz (2 ^ K) (RIGHT_LEAF i) = (i + 1) * (2 * h) + h"
    by (simp only: nsz_RIGHT h_def [symmetric]) (simp add: RIGHT_LEAF_def algebra_simps)
  show "node_first (2 ^ K) (LEFT_LEAF i) = node_first (2 ^ K) i"
    unfolding node_first_def L n ..
  show "node_first (2 ^ K) (RIGHT_LEAF i) = node_first (2 ^ K) i + nsz (2 ^ K) i div 2"
    using ge unfolding node_first_def R n by simp
qed

lemma node_pages_children:
  assumes "i < 2 * 2 ^ K - 1" "nsz (2 ^ K) i \<noteq> 1"
  shows "node_pages (2 ^ K) i = node_pages (2 ^ K) (LEFT_LEAF i) \<union> node_pages (2 ^ K) (RIGHT_LEAF i)"
  using nsz_even [OF assms] by (auto simp: node_pages_def node_first_children [OF assms])

lemma node_pages_bound:
  assumes "i < 2 * 2 ^ K - 1"
  shows "node_pages (2 ^ K) i \<subseteq> {..<2 ^ K}" "node_first (2 ^ K) i + nsz (2 ^ K) i \<le> 2 ^ K"
proof -
  have "(i + 1) * nsz (2 ^ K) i + nsz (2 ^ K) i \<le> 2 * 2 ^ K"
    using span_bounds(2) [OF assms] by (simp add: algebra_simps)
  then show *: "node_first (2 ^ K) i + nsz (2 ^ K) i \<le> 2 ^ K"
    using span_bounds(1) [OF assms] unfolding node_first_def by linarith
  then show "node_pages (2 ^ K) i \<subseteq> {..<2 ^ K}" by (auto simp: node_pages_def)
qed

lemma node_first_in: "i < 2 * 2 ^ K - 1 \<Longrightarrow> node_first (2 ^ K) i \<in> node_pages (2 ^ K) i"
  using nsz_pos by (simp add: node_pages_def)

lemma node_first_less: "i < 2 * 2 ^ K - 1 \<Longrightarrow> node_first (2 ^ K) i < 2 ^ K"
  using node_first_in node_pages_bound(1) by fastforce

lemma node_first_aligned: "i < 2 * 2 ^ K - 1 \<Longrightarrow> nsz (2 ^ K) i dvd node_first (2 ^ K) i"
proof (rule node_level, assumption)
  fix d assume "d \<le> K" and n: "nsz (2 ^ K) i = 2 ^ (K - d)"
  then have "nsz (2 ^ K) i dvd 2 ^ K" by (simp add: le_imp_power_dvd)
  then show ?thesis by (simp add: node_first_def dvd_diff_nat)
qed

lemma path_in:
  assumes "j < 2 * 2 ^ K - 1" "i \<in> set (path j)"
  shows "i < 2 * 2 ^ K - 1"
  using assms ancestors_less by (fastforce simp: set_path)

lemma node_pages_path:
  "j < 2 * 2 ^ K - 1 \<Longrightarrow> i \<in> set (path j) \<Longrightarrow> node_pages (2 ^ K) j \<subseteq> node_pages (2 ^ K) i"
proof (induction j rule: less_induct)
  case (less j)
  show ?case
  proof (cases "i = j")
    case False
    with less.prems have anc: "i \<in> ancestors j" by (simp add: set_path)
    then have j: "0 < j" by (cases j) auto
    have "i \<in> set (path (PARENT j))" using anc j by (simp add: ancestors_def)
    then have "node_pages (2 ^ K) (PARENT j) \<subseteq> node_pages (2 ^ K) i"
      using less.IH [OF PARENT_less [OF j]] PARENT_in(1) [OF less.prems(1) j] by blast
    moreover have "node_pages (2 ^ K) j \<subseteq> node_pages (2 ^ K) (PARENT j)"
      using node_pages_children [OF PARENT_in(1,2) [OF less.prems(1) j]] j
      by (metis Un_upper1 Un_upper2 child_cases)
    ultimately show ?thesis by blast
  qed simp
qed

lemma path_of_page:
  assumes "i < 2 * 2 ^ K - 1" "p \<in> node_pages (2 ^ K) i"
  shows "i \<in> set (path (p + 2 ^ K - 1))"
  using assms
proof (induction "2 * 2 ^ K - i" arbitrary: i rule: less_induct)
  case less
  show ?case
  proof (cases "nsz (2 ^ K) i = 1")
    case True
    then have "i = p + 2 ^ K - 1"
      using less.prems span_bounds(1) [OF less.prems(1)]
      by (simp add: node_pages_def node_first_def)
    then show ?thesis by (simp add: set_path)
  next
    case False
    note ch = children_in [OF less.prems(1) False]
    have l: "2 * 2 ^ K - LEFT_LEAF i < 2 * 2 ^ K - i" "2 * 2 ^ K - RIGHT_LEAF i < 2 * 2 ^ K - i"
      using less.prems(1) by (auto simp: LEFT_LEAF_def RIGHT_LEAF_def)
    from less.prems(2) node_pages_children [OF less.prems(1) False]
    consider "p \<in> node_pages (2 ^ K) (LEFT_LEAF i)" | "p \<in> node_pages (2 ^ K) (RIGHT_LEAF i)"
      by blast
    then show ?thesis
    proof cases
      case 1
      from less.hyps [OF l(1) ch(1) this] show ?thesis by (rule path_child)
    next
      case 2
      from less.hyps [OF l(2) ch(2) this] show ?thesis by (rule path_child)
    qed
  qed
qed

lemma pages_overlap:
  assumes "i < 2 * 2 ^ K - 1" "j < 2 * 2 ^ K - 1"
    and "node_pages (2 ^ K) i \<inter> node_pages (2 ^ K) j \<noteq> {}"
  shows "i \<in> set (path j) \<or> j \<in> set (path i)"
  using assms path_of_page ancestors_linear by blast

subsection \<open>The invariant\<close>

definition comb :: "nat \<Rightarrow> nat \<Rightarrow> nat \<Rightarrow> nat" where
  "comb s l r = (if l + r = s then s else max l r)"

definition node_ok :: "nat \<Rightarrow> nat list \<Rightarrow> nat \<Rightarrow> bool" where
  "node_ok S bm i \<longleftrightarrow>
     (if nsz S i = 1 then bm ! i \<le> 1
      else bm ! i = comb (nsz S i) (bm ! LEFT_LEAF i) (bm ! RIGHT_LEAF i) \<or>
           (bm ! i = 0 \<and> bm ! LEFT_LEAF i = nsz S i div 2 \<and> bm ! RIGHT_LEAF i = nsz S i div 2))"

definition is_block :: "nat \<Rightarrow> nat list \<Rightarrow> nat \<Rightarrow> bool" where
  "is_block S bm i \<longleftrightarrow> bm ! i = 0 \<and> (nsz S i = 1 \<or> bm ! LEFT_LEAF i \<noteq> 0)"

definition blocks :: "nat \<Rightarrow> nat list \<Rightarrow> nat set" where
  "blocks S bm = {i. i < 2 * S - 1 \<and> is_block S bm i}"

lemma blocks_code [code]: "blocks S bm = set (filter (is_block S bm) [0 ..< 2 * S - 1])"
  by (auto simp: blocks_def)

definition tree_ok :: "nat \<Rightarrow> nat list \<Rightarrow> bool" where
  "tree_ok S bm \<longleftrightarrow> length bm = 2 * S \<and> (\<forall>i < 2 * S - 1. node_ok S bm i)"

definition used_pages :: "buddy \<Rightarrow> nat set" where
  "used_pages b = (\<Union>i \<in> blocks (bsize b) (bitmap b). node_pages (bsize b) i)"

definition buddy_inv :: "buddy \<Rightarrow> bool" where
  "buddy_inv b \<longleftrightarrow>
     (\<exists>K. bsize b = 2 ^ K \<and> K \<le> 24) \<and> tree_ok (bsize b) (bitmap b) \<and>
     length (ref_cnt b) = bsize b \<and>
     (\<forall>p < bsize b. ref_cnt b ! p \<noteq> 0 \<longleftrightarrow>
        p \<in> node_first (bsize b) ` blocks (bsize b) (bitmap b))"

lemma comb_le: "l \<le> s div 2 \<Longrightarrow> r \<le> s div 2 \<Longrightarrow> comb s l r \<le> s"
  by (auto simp: comb_def)

lemma entry_le:
  assumes "tree_ok (2 ^ K) bm" "i < 2 * 2 ^ K - 1"
  shows "bm ! i \<le> nsz (2 ^ K) i"
  using assms(2)
proof (induction "2 * 2 ^ K - i" arbitrary: i rule: less_induct)
  case less
  have ok: "node_ok (2 ^ K) bm i" using assms(1) less.prems by (simp add: tree_ok_def)
  show ?case
  proof (cases "nsz (2 ^ K) i = 1")
    case True
    with ok show ?thesis by (simp add: node_ok_def)
  next
    case False
    note ch = children_in [OF less.prems False]
    have "2 * 2 ^ K - LEFT_LEAF i < 2 * 2 ^ K - i" "2 * 2 ^ K - RIGHT_LEAF i < 2 * 2 ^ K - i"
      using less.prems by (auto simp: LEFT_LEAF_def RIGHT_LEAF_def)
    then have "bm ! LEFT_LEAF i \<le> nsz (2 ^ K) i div 2" "bm ! RIGHT_LEAF i \<le> nsz (2 ^ K) i div 2"
      using less.hyps [of "LEFT_LEAF i"] less.hyps [of "RIGHT_LEAF i"] ch by simp_all
    with ok False show ?thesis using comb_le by (auto simp: node_ok_def)
  qed
qed

lemma child_le:
  assumes "tree_ok (2 ^ K) bm" "i < 2 * 2 ^ K - 1" "nsz (2 ^ K) i \<noteq> 1"
  shows "bm ! LEFT_LEAF i \<le> nsz (2 ^ K) i div 2" "bm ! RIGHT_LEAF i \<le> nsz (2 ^ K) i div 2"
  using entry_le [OF assms(1)] children_in [OF assms(2,3)] by fastforce+

text \<open>A full node has full children; so does an allocated block.\<close>

lemma full_children:
  assumes "tree_ok (2 ^ K) bm" "i < 2 * 2 ^ K - 1" "nsz (2 ^ K) i \<noteq> 1"
    and "bm ! i = nsz (2 ^ K) i \<or> is_block (2 ^ K) bm i"
  shows "bm ! LEFT_LEAF i = nsz (2 ^ K) i div 2" "bm ! RIGHT_LEAF i = nsz (2 ^ K) i div 2"
proof -
  have ok: "node_ok (2 ^ K) bm i" using assms(1,2) by (simp add: tree_ok_def)
  note le = child_le [OF assms(1-3)] and ev = nsz_even [OF assms(2,3)] and pos = nsz_pos [OF assms(2)]
  have "bm ! LEFT_LEAF i = nsz (2 ^ K) i div 2 \<and> bm ! RIGHT_LEAF i = nsz (2 ^ K) i div 2"
    using assms(4)
  proof
    assume "bm ! i = nsz (2 ^ K) i"
    with ok assms(3) pos have "comb (nsz (2 ^ K) i) (bm ! LEFT_LEAF i) (bm ! RIGHT_LEAF i) = nsz (2 ^ K) i"
      by (auto simp: node_ok_def)
    then show ?thesis using le ev pos unfolding comb_def by (auto split: if_splits)
  next
    assume "is_block (2 ^ K) bm i"
    with ok assms(3) pos show ?thesis
      by (auto simp: node_ok_def is_block_def comb_def max_def split: if_splits)
  qed
  then show "bm ! LEFT_LEAF i = nsz (2 ^ K) i div 2" "bm ! RIGHT_LEAF i = nsz (2 ^ K) i div 2"
    by simp_all
qed

lemma below_full:
  assumes "tree_ok (2 ^ K) bm" "j < 2 * 2 ^ K - 1" "i \<in> ancestors j"
    and "bm ! i = nsz (2 ^ K) i \<or> is_block (2 ^ K) bm i"
  shows "bm ! j = nsz (2 ^ K) j"
  using assms(2,3)
proof (induction j rule: less_induct)
  case (less j)
  then have j: "0 < j" by (cases j) auto
  note P = PARENT_in [OF less.prems(1) j]
  have "bm ! PARENT j = nsz (2 ^ K) (PARENT j) \<or> is_block (2 ^ K) bm (PARENT j)"
  proof (cases "PARENT j = i")
    case True
    then show ?thesis using assms(4) by simp
  next
    case False
    then have "i \<in> ancestors (PARENT j)" using less.prems(2) ancestors_step [OF j] by simp
    then show ?thesis using less.IH [OF PARENT_less [OF j] P(1)] by simp
  qed
  note full_children [OF assms(1) P(1,2) this]
  moreover have "nsz (2 ^ K) j = nsz (2 ^ K) (PARENT j) div 2" using P(3) by simp
  ultimately show ?case using j by (metis child_cases)
qed

lemma block_no_ancestor:
  assumes "tree_ok (2 ^ K) bm" "i \<in> blocks (2 ^ K) bm" "j \<in> blocks (2 ^ K) bm"
  shows "i \<notin> ancestors j"
proof
  assume "i \<in> ancestors j"
  then have "bm ! j = nsz (2 ^ K) j"
    using below_full [OF assms(1)] assms(2,3) by (auto simp: blocks_def)
  then show False using assms(3) nsz_pos by (fastforce simp: blocks_def is_block_def)
qed

text \<open>Allocated blocks never overlap.\<close>

lemma blocks_disjoint:
  assumes "tree_ok (2 ^ K) bm" "i \<in> blocks (2 ^ K) bm" "j \<in> blocks (2 ^ K) bm" "i \<noteq> j"
  shows "node_pages (2 ^ K) i \<inter> node_pages (2 ^ K) j = {}"
proof (rule ccontr)
  assume "\<not> ?thesis"
  then have "i \<in> set (path j) \<or> j \<in> set (path i)"
    using pages_overlap assms(2,3) by (auto simp: blocks_def)
  then show False
    using assms(4) block_no_ancestor [OF assms(1)] assms(2,3) by (auto simp: set_path)
qed

subsection \<open>The upward loops\<close>

text \<open>
  \<open>ok_but S bm idx\<close>: every node but the parent of \<open>idx\<close> satisfies \<open>node_ok\<close>. The loops carry
  this up the path: writing the parent repairs it and leaves only its own parent in doubt.
\<close>

definition ok_but :: "nat \<Rightarrow> nat list \<Rightarrow> nat \<Rightarrow> bool" where
  "ok_but S bm idx \<longleftrightarrow> length bm = 2 * S \<and>
     (\<forall>i < 2 * S - 1. (idx = 0 \<or> i \<noteq> PARENT idx) \<longrightarrow> node_ok S bm i)"

lemma node_ok_update:
  assumes "node_ok S bm i" "j \<noteq> i" "nsz S i = 1 \<or> j \<noteq> LEFT_LEAF i \<and> j \<noteq> RIGHT_LEAF i"
  shows "node_ok S (bm[j := v]) i"
  using assms by (auto simp: node_ok_def)

lemma ok_but_step:
  assumes "ok_but (2 ^ K) bm idx" "idx < 2 * 2 ^ K - 1" "0 < idx"
  shows "ok_but (2 ^ K) (bm[PARENT idx := comb (nsz (2 ^ K) (PARENT idx))
           (bm ! LEFT_LEAF (PARENT idx)) (bm ! RIGHT_LEAF (PARENT idx))]) (PARENT idx)"
proof -
  define q where "q = PARENT idx"
  define v where "v = comb (nsz (2 ^ K) q) (bm ! LEFT_LEAF q) (bm ! RIGHT_LEAF q)"
  have q: "q < 2 * 2 ^ K - 1" "nsz (2 ^ K) q \<noteq> 1"
    using PARENT_in [OF assms(2,3)] by (simp_all add: q_def)
  have len: "length bm = 2 * 2 ^ K" using assms(1) by (simp add: ok_but_def)
  have "node_ok (2 ^ K) (bm[q := v]) i"
    if i: "i < 2 * 2 ^ K - 1" "q = 0 \<or> i \<noteq> PARENT q" for i
  proof (cases "i = q")
    case True
    then show ?thesis using q len by (simp add: node_ok_def v_def)
  next
    case False
    then have "node_ok (2 ^ K) bm i"
      using assms(1) i(1) by (simp add: ok_but_def q_def)
    moreover have "q \<noteq> LEFT_LEAF i \<and> q \<noteq> RIGHT_LEAF i" using i(2) by auto
    ultimately show ?thesis using False by (intro node_ok_update) auto
  qed
  then show ?thesis using len by (simp add: ok_but_def flip: q_def v_def)
qed

lemma free_merge_step:
  assumes "length bm = 2 * 2 ^ K" "idx < 2 * 2 ^ K - 1" "0 < idx" and q: "q = PARENT idx"
  shows "free_merge bm idx (nsz (2 ^ K) idx) =
    free_merge (bm[q := comb (nsz (2 ^ K) q) (bm ! LEFT_LEAF q) (bm ! RIGHT_LEAF q)]) q (nsz (2 ^ K) q)"
proof -
  note P = PARENT_in [OF assms(2,3), folded q]
  have "LEFT_LEAF q < length bm" "RIGHT_LEAF q < length bm" "q < length bm"
    using children_in [OF P(1,2)] P(1) assms(1) by simp_all
  moreover have "nsz (2 ^ K) idx * 2 = nsz (2 ^ K) q" using P(3) by simp
  ultimately show ?thesis
    using assms(3) by (subst free_merge.simps) (simp add: Let_def comb_def flip: q)
qed

lemma free_merge_ok:
  assumes "ok_but (2 ^ K) bm idx" "idx < 2 * 2 ^ K - 1"
  shows "\<exists>bm'. free_merge bm idx (nsz (2 ^ K) idx) = Some bm' \<and> tree_ok (2 ^ K) bm' \<and>
           (\<forall>i. i \<notin> ancestors idx \<longrightarrow> bm' ! i = bm ! i) \<and>
           (\<forall>a \<in> ancestors idx. bm' ! a =
              comb (nsz (2 ^ K) a) (bm' ! LEFT_LEAF a) (bm' ! RIGHT_LEAF a))"
  using assms
proof (induction idx arbitrary: bm rule: less_induct)
  case (less idx)
  show ?case
  proof (cases "idx = 0")
    case True
    then show ?thesis
      using less.prems by (simp add: free_merge.simps ok_but_def tree_ok_def)
  next
    case False
    then have idx: "0 < idx" by simp
    define q where "q = PARENT idx"
    define v where "v = comb (nsz (2 ^ K) q) (bm ! LEFT_LEAF q) (bm ! RIGHT_LEAF q)"
    note P = PARENT_in [OF less.prems(2) idx, folded q_def]
    have len: "length bm = 2 * 2 ^ K" using less.prems(1) by (simp add: ok_but_def)
    have ch: "LEFT_LEAF q < length bm" "RIGHT_LEAF q < length bm" "q < length bm"
      using children_in [OF P(1,2)] P(1) len by simp_all
    have unfold: "free_merge bm idx (nsz (2 ^ K) idx) = free_merge (bm[q := v]) q (nsz (2 ^ K) q)"
      using free_merge_step [OF len less.prems(2) idx q_def] by (simp add: v_def)
    have ok: "ok_but (2 ^ K) (bm[q := v]) q"
      using ok_but_step [OF less.prems idx] by (simp add: q_def v_def)
    from less.IH [OF _ ok P(1)] PARENT_less [OF idx] obtain bm' where
      bm': "free_merge (bm[q := v]) q (nsz (2 ^ K) q) = Some bm'" "tree_ok (2 ^ K) bm'"
        "\<And>i. i \<notin> ancestors q \<Longrightarrow> bm' ! i = bm[q := v] ! i"
        "\<And>a. a \<in> ancestors q \<Longrightarrow> bm' ! a = comb (nsz (2 ^ K) a) (bm' ! LEFT_LEAF a) (bm' ! RIGHT_LEAF a)"
      by (auto simp: q_def)
    have qn: "q \<notin> ancestors q" "LEFT_LEAF q \<notin> ancestors q" "RIGHT_LEAF q \<notin> ancestors q"
      by simp_all
    have "bm' ! q = comb (nsz (2 ^ K) q) (bm' ! LEFT_LEAF q) (bm' ! RIGHT_LEAF q)"
      using bm'(3) [OF qn(1)] bm'(3) [OF qn(2)] bm'(3) [OF qn(3)] ch by (simp add: v_def)
    then show ?thesis
      using bm' unfold by (auto simp: ancestors_step [OF idx] simp flip: q_def)
  qed
qed

text \<open>
  After an allocation the child on the path is not full, so no pair of buddies is: the loop of
  \<open>buddy_alloc\<close>, which never merges, computes what the loop of \<open>buddy_free\<close> does.
\<close>

lemma alloc_update_eq:
  assumes "ok_but (2 ^ K) bm idx" "idx < 2 * 2 ^ K - 1" "bm ! idx < nsz (2 ^ K) idx"
    and "\<And>i. i < 2 * 2 ^ K - 1 \<Longrightarrow> i \<notin> ancestors idx \<Longrightarrow> bm ! i \<le> nsz (2 ^ K) i"
  shows "alloc_update bm idx = free_merge bm idx (nsz (2 ^ K) idx)"
  using assms
proof (induction idx arbitrary: bm rule: less_induct)
  case (less idx)
  show ?case
  proof (cases "idx = 0")
    case True
    then show ?thesis by (simp add: free_merge.simps alloc_update.simps)
  next
    case False
    then have idx: "0 < idx" by simp
    define q where "q = PARENT idx"
    define v where "v = comb (nsz (2 ^ K) q) (bm ! LEFT_LEAF q) (bm ! RIGHT_LEAF q)"
    note P = PARENT_in [OF less.prems(2) idx, folded q_def]
    have len: "length bm = 2 * 2 ^ K" using less.prems(1) by (simp add: ok_but_def)
    note ci = children_in [OF P(1,2)]
    have ch: "LEFT_LEAF q < length bm" "RIGHT_LEAF q < length bm" "q < length bm"
      using ci P(1) len by simp_all
    have anc: "ancestors idx = insert q (ancestors q)" using ancestors_step [OF idx] by (simp add: q_def)
    have nin: "LEFT_LEAF q \<notin> ancestors idx" "RIGHT_LEAF q \<notin> ancestors idx"
      by (simp_all add: anc)
    have le: "bm ! LEFT_LEAF q \<le> nsz (2 ^ K) q div 2" "bm ! RIGHT_LEAF q \<le> nsz (2 ^ K) q div 2"
      using less.prems(4) [OF ci(1) nin(1)] less.prems(4) [OF ci(2) nin(2)] by simp_all
    have lt: "bm ! LEFT_LEAF q < nsz (2 ^ K) q div 2 \<or> bm ! RIGHT_LEAF q < nsz (2 ^ K) q div 2"
      using less.prems(3) P(3) idx
      by (metis child_cases nsz_LEFT nsz_RIGHT q_def)
    have pos: "0 < nsz (2 ^ K) q" by (rule nsz_pos [OF P(1)])
    have "bm ! LEFT_LEAF q + bm ! RIGHT_LEAF q \<noteq> nsz (2 ^ K) q"
      using le lt nsz_even [OF P(1,2)] by linarith
    then have v: "v = max (bm ! LEFT_LEAF q) (bm ! RIGHT_LEAF q)" by (simp add: v_def comb_def)
    have "2 \<le> nsz (2 ^ K) q" using pos P(2) by linarith
    then have vlt: "v < nsz (2 ^ K) q" using le unfolding v by linarith
    have ok: "ok_but (2 ^ K) (bm[q := v]) q"
      using ok_but_step [OF less.prems(1,2) idx] by (simp add: q_def v_def)
    have "alloc_update bm idx = alloc_update (bm[q := v]) q"
      using False ch by (subst alloc_update.simps) (simp add: Let_def v flip: q_def)
    also have "\<dots> = free_merge (bm[q := v]) q (nsz (2 ^ K) q)"
    proof (rule less.IH [OF _ ok P(1)])
      show "q < idx" using PARENT_less [OF idx] by (simp add: q_def)
      show "bm[q := v] ! q < nsz (2 ^ K) q" using vlt ch by simp
      show "bm[q := v] ! i \<le> nsz (2 ^ K) i" if "i < 2 * 2 ^ K - 1" "i \<notin> ancestors q" for i
        using that less.prems(4) [of i] vlt ch by (cases "i = q") (auto simp: anc)
    qed
    also have "\<dots> = free_merge bm idx (nsz (2 ^ K) idx)"
      using free_merge_step [OF len less.prems(2) idx q_def] by (simp add: v_def)
    finally show ?thesis .
  qed
qed

text \<open>The allocated blocks after an upward loop: the ancestors it rewrote are not blocks.\<close>

lemma blocks_after_merge:
  assumes "free_merge bm idx (nsz (2 ^ K) idx) = Some bm'"
    and "ok_but (2 ^ K) bm idx" "idx < 2 * 2 ^ K - 1"
  shows "blocks (2 ^ K) bm' = blocks (2 ^ K) bm - ancestors idx"
proof -
  have bm': "tree_ok (2 ^ K) bm'" "\<And>i. i \<notin> ancestors idx \<Longrightarrow> bm' ! i = bm ! i"
    "\<And>a. a \<in> ancestors idx \<Longrightarrow> bm' ! a = comb (nsz (2 ^ K) a) (bm' ! LEFT_LEAF a) (bm' ! RIGHT_LEAF a)"
    using free_merge_ok [OF assms(2,3)] assms(1) by auto
  have "is_block (2 ^ K) bm' i \<longleftrightarrow> is_block (2 ^ K) bm i \<and> i \<notin> ancestors idx"
    if i: "i < 2 * 2 ^ K - 1" for i
  proof (cases "i \<in> ancestors idx")
    case True
    have "nsz (2 ^ K) i \<noteq> 1"
    proof
      assume one: "nsz (2 ^ K) i = 1"
      have "LEFT_LEAF i \<in> set (path idx) \<or> RIGHT_LEAF i \<in> set (path idx)"
        using ancestor_child [OF True] .
      then have "LEFT_LEAF i < 2 * 2 ^ K - 1 \<or> RIGHT_LEAF i < 2 * 2 ^ K - 1"
        using path_in [OF assms(3)] by blast
      then show False using one nsz_pos [of "LEFT_LEAF i" K] nsz_pos [of "RIGHT_LEAF i" K] by auto
    qed
    then have "\<not> is_block (2 ^ K) bm' i"
      using bm'(3) [OF True] by (auto simp: is_block_def comb_def split: if_splits)
    then show ?thesis using True by simp
  next
    case False
    then have "LEFT_LEAF i \<notin> ancestors idx" using ancestors_child(1) by blast
    then show ?thesis using False by (simp add: is_block_def bm'(2))
  qed
  then show ?thesis by (auto simp: blocks_def)
qed

subsection \<open>The downward loops\<close>

text \<open>From the first page of a node with a free subtree the climb of \<open>buddy_free\<close> reaches the node.\<close>

lemma climb_full:
  assumes "tree_ok (2 ^ K) bm" "w < 2 * 2 ^ K - 1" "bm ! w = nsz (2 ^ K) w"
  shows "free_climb bm (node_first (2 ^ K) w + 2 ^ K - 1) 1 = free_climb bm w (nsz (2 ^ K) w)"
  using assms(2,3)
proof (induction "2 * 2 ^ K - w" arbitrary: w rule: less_induct)
  case less
  show ?case
  proof (cases "nsz (2 ^ K) w = 1")
    case True
    then have "node_first (2 ^ K) w + 2 ^ K - 1 = w"
      using span_bounds(1) [OF less.prems(1)] by (simp add: node_first_def)
    then show ?thesis by (simp add: True)
  next
    case False
    note c = full_children [OF assms(1) less.prems(1) False] and ci = children_in [OF less.prems(1) False]
    have L: "bm ! LEFT_LEAF w = nsz (2 ^ K) (LEFT_LEAF w)" using c less.prems(2) by simp
    have "2 * 2 ^ K - LEFT_LEAF w < 2 * 2 ^ K - w" using less.prems(1) by (auto simp: LEFT_LEAF_def)
    from less.hyps [OF this ci(1) L]
    have "free_climb bm (node_first (2 ^ K) w + 2 ^ K - 1) 1
        = free_climb bm (LEFT_LEAF w) (nsz (2 ^ K) w div 2)"
      by (simp add: node_first_children [OF less.prems(1) False])
    also have "\<dots> = free_climb bm w (nsz (2 ^ K) w div 2 * 2)"
      using nsz_pos [OF ci(1)] assms(1) ci(1) L
      by (subst free_climb.simps) (simp add: tree_ok_def)
    also have "nsz (2 ^ K) w div 2 * 2 = nsz (2 ^ K) w"
      using nsz_even [OF less.prems(1) False] by simp
    finally show ?thesis .
  qed
qed

lemma climb_block:
  assumes "tree_ok (2 ^ K) bm" "v \<in> blocks (2 ^ K) bm"
  shows "free_climb bm (node_first (2 ^ K) v + 2 ^ K - 1) 1 = Some (v, nsz (2 ^ K) v)"
proof -
  have v: "v < 2 * 2 ^ K - 1" "is_block (2 ^ K) bm v" "bm ! v = 0"
    using assms(2) by (auto simp: blocks_def is_block_def)
  have len: "length bm = 2 * 2 ^ K" using assms(1) by (simp add: tree_ok_def)
  have stop: "free_climb bm v n = Some (v, n)" for n
    using v len by (subst free_climb.simps) simp
  show ?thesis
  proof (cases "nsz (2 ^ K) v = 1")
    case True
    then have "node_first (2 ^ K) v + 2 ^ K - 1 = v"
      using span_bounds(1) [OF v(1)] by (simp add: node_first_def)
    then show ?thesis by (simp add: True stop)
  next
    case False
    note c = full_children [OF assms(1) v(1) False] and ci = children_in [OF v(1) False]
    have L: "bm ! LEFT_LEAF v = nsz (2 ^ K) (LEFT_LEAF v)" using c v(2) by simp
    have "free_climb bm (node_first (2 ^ K) v + 2 ^ K - 1) 1
        = free_climb bm (LEFT_LEAF v) (nsz (2 ^ K) v div 2)"
      using climb_full [OF assms(1) ci(1) L] by (simp add: node_first_children [OF v(1) False])
    also have "\<dots> = free_climb bm v (nsz (2 ^ K) v div 2 * 2)"
      using nsz_pos [OF ci(1)] len ci(1) L by (subst free_climb.simps) simp
    also have "\<dots> = Some (v, nsz (2 ^ K) v)"
      using nsz_even [OF v(1) False] by (simp add: stop mult.commute)
    finally show ?thesis .
  qed
qed

text \<open>The descent of \<open>buddy_alloc\<close> finds a free node of the requested size.\<close>

lemma inner_entry:
  assumes "tree_ok (2 ^ K) bm" "i < 2 * 2 ^ K - 1" "nsz (2 ^ K) i \<noteq> 1" "n \<le> bm ! i" "0 < n"
    and "n \<le> nsz (2 ^ K) i div 2" "bm ! LEFT_LEAF i < n"
  shows "n \<le> bm ! RIGHT_LEAF i"
proof -
  have "node_ok (2 ^ K) bm i" using assms(1,2) by (simp add: tree_ok_def)
  then have "bm ! i = comb (nsz (2 ^ K) i) (bm ! LEFT_LEAF i) (bm ! RIGHT_LEAF i)"
    using assms(3,4,5) by (simp add: node_ok_def)
  then show ?thesis
    using assms(4,6,7) child_le [OF assms(1-3)] nsz_even [OF assms(2,3)]
    by (auto simp: comb_def max_def split: if_splits)
qed

lemma descend_ok:
  assumes "tree_ok (2 ^ K) bm" "i < 2 * 2 ^ K - 1" "n = 2 ^ k" "n \<le> bm ! i"
  shows "\<exists>j. alloc_descend bm n i (nsz (2 ^ K) i) = Some (j, n) \<and> j < 2 * 2 ^ K - 1 \<and>
           nsz (2 ^ K) j = n \<and> bm ! j = n \<and> i \<in> set (path j) \<and>
           (\<forall>a \<in> ancestors j. i \<in> set (path a) \<longrightarrow> n \<le> bm ! a)"
  using assms(2,4)
proof (induction "2 * 2 ^ K - i" arbitrary: i rule: less_induct)
  case less
  have le: "bm ! i \<le> nsz (2 ^ K) i" by (rule entry_le [OF assms(1) less.prems(1)])
  have n: "0 < n" using assms(3) by simp
  show ?case
  proof (cases "nsz (2 ^ K) i = n")
    case True
    have "i \<notin> set (path a)" if "a \<in> ancestors i" for a
      using that ancestors_trans [of i a i] by (auto simp: set_path)
    then show ?thesis
      using True less.prems le by (subst alloc_descend.simps) (auto simp: set_path)
  next
    case False
    then have lt: "n < nsz (2 ^ K) i" using less.prems(2) le by linarith
    then have ne1: "nsz (2 ^ K) i \<noteq> 1" using n by linarith
    have half: "n \<le> nsz (2 ^ K) i div 2"
    proof -
      obtain d where "nsz (2 ^ K) i = 2 ^ d" using node_level [OF less.prems(1)] by metis
      with lt assms(3) have "k < d" by simp
      then have "2 ^ k * 2 \<le> (2::nat) ^ d" using power_increasing [of "Suc k" d "2::nat"] by simp
      then show ?thesis using \<open>nsz (2 ^ K) i = 2 ^ d\<close> assms(3) by simp
    qed
    note ci = children_in [OF less.prems(1) ne1]
    have len: "length bm = 2 * 2 ^ K" using assms(1) by (simp add: tree_ok_def)
    define c where "c = (if n \<le> bm ! LEFT_LEAF i then LEFT_LEAF i else RIGHT_LEAF i)"
    have c: "c < 2 * 2 ^ K - 1" "nsz (2 ^ K) c = nsz (2 ^ K) i div 2" "n \<le> bm ! c"
      "ancestors c = insert i (ancestors i)" "i < c"
      using ci inner_entry [OF assms(1) less.prems(1) ne1 less.prems(2) n half]
      by (auto simp: c_def)
    have unfold: "alloc_descend bm n i (nsz (2 ^ K) i) = alloc_descend bm n c (nsz (2 ^ K) c)"
      using False ci len c(2) by (subst alloc_descend.simps) (simp add: c_def)
    have "2 * 2 ^ K - c < 2 * 2 ^ K - i" using c(5) less.prems(1) by linarith
    from less.hyps [OF this c(1,3)] obtain j where
      j: "alloc_descend bm n c (nsz (2 ^ K) c) = Some (j, n)" "j < 2 * 2 ^ K - 1"
        "nsz (2 ^ K) j = n" "bm ! j = n" "c \<in> set (path j)"
        "\<forall>a \<in> ancestors j. c \<in> set (path a) \<longrightarrow> n \<le> bm ! a"
      by blast
    have "i \<in> ancestors j"
      using j(5) c(4) ancestors_trans [of i c j] by (auto simp: set_path)
    moreover have "n \<le> bm ! a" if a: "a \<in> ancestors j" "i \<in> set (path a)" for a
    proof -
      have "a \<in> set (path j)" using a(1) by (simp add: set_path)
      then have "a \<in> set (path c) \<or> c \<in> set (path a)" by (rule ancestors_linear [OF _ j(5)])
      moreover have "set (path c) = {c, i} \<union> ancestors i" by (simp only: set_path c(4)) simp
      moreover have "c \<in> set (path c)" by (simp add: set_path)
      ultimately consider "a = i" | "a \<in> ancestors i" | "c \<in> set (path a)" by auto
      then show ?thesis
      proof cases
        case 1
        then show ?thesis using less.prems(2) by simp
      next
        case 2
        then have "i \<notin> set (path a)"
          using ancestors_trans [of i a i] by (auto simp: set_path)
        then show ?thesis using a(2) by contradiction
      next
        case 3
        then show ?thesis using j(6) a(1) by blast
      qed
    qed
    ultimately show ?thesis using j unfold by (auto simp: set_path)
  qed
qed

end
