(* ===== verification/Buddy_Ops.thy ===== *)
theory Buddy_Ops
  imports Buddy_Inv
begin

unbundle bit_operations_syntax

text \<open>
  What the operations of the buddy allocator do, on top of the invariant of \<open>Buddy_Inv\<close>: the
  rounding of a request to a power of two, the block an allocation takes, the exact failure
  condition, the release of a block by the last reference, and initialisation.
\<close>

subsection \<open>Rounding a request\<close>

text \<open>\<open>smeared n w s\<close>: bit \<open>i\<close> of \<open>w\<close> is set when one of the bits \<open>i, ..., i + n - 1\<close> of \<open>s\<close> is.\<close>

definition smeared :: "nat \<Rightarrow> u64 \<Rightarrow> u64 \<Rightarrow> bool" where
  "smeared n w s \<longleftrightarrow> (\<forall>i. bit w i \<longleftrightarrow> (\<exists>j. i \<le> j \<and> j < i + n \<and> bit s j))"

lemma smeared_1: "smeared 1 s s"
  by (auto simp: smeared_def less_Suc_eq_le)

lemma smeared_double:
  assumes "smeared n w s"
  shows "smeared (2 * n) (w OR drop_bit n w) s"
proof -
  have "bit (w OR drop_bit n w) i \<longleftrightarrow> bit w i \<or> bit w (n + i)" for i
    by (simp add: bit_or_iff bit_drop_bit_eq)
  moreover have "(\<exists>j. i \<le> j \<and> j < i + 2 * n \<and> bit s j) \<longleftrightarrow>
      (\<exists>j. i \<le> j \<and> j < i + n \<and> bit s j) \<or> (\<exists>j. n + i \<le> j \<and> j < n + i + n \<and> bit s j)" for i
  proof -
    have "i \<le> j \<and> j < i + 2 * n \<longleftrightarrow> i \<le> j \<and> j < i + n \<or> n + i \<le> j \<and> j < n + i + n" for j
      by linarith
    then show ?thesis by blast
  qed
  ultimately show ?thesis using assms by (simp only: smeared_def) blast
qed

lemma fixsize_smeared: "\<exists>w. smeared 64 w (x - 1) \<and> fixsize x = w + 1"
  using smeared_double [OF smeared_double [OF smeared_double [OF smeared_double
    [OF smeared_double [OF smeared_double [OF smeared_1 [of "x - 1"]]]]]]]
  by (auto simp: fixsize_def Let_def)

lemma nat_bits:
  fixes s :: nat
  obtains m where "s < 2 ^ m" "m = 0 \<or> 2 ^ (m - 1) \<le> s"
proof -
  define m where "m = (LEAST m. s < 2 ^ m)"
  have "s < 2 ^ m" unfolding m_def by (rule LeastI [of _ s]) (rule less_exp)
  moreover have "m = 0 \<or> 2 ^ (m - 1) \<le> s"
  proof (cases m)
    case (Suc k)
    then have "\<not> s < 2 ^ k" using not_less_Least [of k "\<lambda>m. s < 2 ^ m"] by (simp add: m_def)
    then show ?thesis using Suc by simp
  qed simp
  ultimately show thesis by (rule that)
qed

lemma bit_unat: "bit (w :: u64) i \<longleftrightarrow> bit (unat w) i"
  by (auto simp: bit_unsigned_iff dest: bit_imp_le_length)

lemma fixsize_pow2:
  assumes "unat (x - 1) < 2 ^ m" "m = 0 \<or> 2 ^ (m - 1) \<le> unat (x - 1)"
  shows "fixsize x = 2 ^ m"
proof -
  obtain w where w: "smeared 64 w (x - 1)" "fixsize x = w + 1" using fixsize_smeared by blast
  have hi: "\<not> bit (x - 1) j" if "m \<le> j" for j
  proof -
    have "(2::nat) ^ m \<le> 2 ^ j" using that by (rule power_increasing) simp
    then have "unat (x - 1) < 2 ^ j" by (rule less_le_trans [OF assms(1)])
    then show ?thesis by (simp add: bit_unat bit_iff_odd)
  qed
  have top: "bit (x - 1) (m - 1)" if "0 < m"
  proof -
    have "2 ^ (m - 1) \<le> unat (x - 1)" "unat (x - 1) < 2 * 2 ^ (m - 1)"
      using assms that by (cases m; simp)+
    then have "unat (x - 1) div 2 ^ (m - 1) = 1" by (intro div_nat_eqI) simp_all
    then show ?thesis by (simp add: bit_unat bit_iff_odd)
  qed
  have "bit w i \<longleftrightarrow> i < m" if "i < 64" for i
  proof
    assume "bit w i"
    then show "i < m" using w(1) hi by (fastforce simp: smeared_def not_le)
  next
    assume "i < m"
    moreover from this have "bit (x - 1) (m - 1)" using top by simp
    moreover from this have "m - 1 < 64" using bit_imp_le_length by fastforce
    ultimately have "i \<le> m - 1 \<and> m - 1 < i + 64 \<and> bit (x - 1) (m - 1)" by simp
    then show "bit w i" using w(1) unfolding smeared_def by blast
  qed
  then have "w = mask m" by (intro bit_word_eqI) (auto simp: bit_mask_iff)
  then show ?thesis using w(2) by (simp add: mask_eq_exp_minus_1)
qed

lemma unat_exp_u64: "m < 64 \<Longrightarrow> unat (2 ^ m :: u64) = 2 ^ m"
proof -
  assume m: "m < 64"
  have "unat (of_nat (2 ^ m) :: u64) = take_bit 64 (2 ^ m)" by (simp only: unsigned_of_nat) simp
  also have "\<dots> = 2 ^ m"
    by (rule take_bit_nat_eq_self, rule power_strict_increasing) (use m in simp_all)
  finally show ?thesis by simp
qed

lemma is_power_of_2_exp: "IS_POWER_OF_2 (2 ^ m)"
proof -
  have "(2 ^ m :: u64) AND mask m = 0"
    by (rule bit_word_eqI) (auto simp: bit_and_iff bit_mask_iff bit_exp_iff)
  then show ?thesis by (simp add: IS_POWER_OF_2_def mask_eq_exp_minus_1)
qed

lemma is_power_of_2D:
  assumes "IS_POWER_OF_2 x" "x \<noteq> 0"
  shows "\<exists>m < 64. x = 2 ^ m"
proof -
  obtain m where m: "unat x < 2 ^ m" "m = 0 \<or> 2 ^ (m - 1) \<le> unat x" using nat_bits by blast
  have "0 < unat x" using assms(2) by (simp add: unat_gt_0)
  then obtain k where k: "m = Suc k" using m by (cases m) auto
  then have lo: "2 ^ k \<le> unat x" "unat x < 2 * 2 ^ k" using m by auto
  have "(2::nat) ^ k < 2 ^ 64" using lo(1) unat_u64_less [of x] by simp
  then have k64: "k < 64" by (rule power_less_imp_less_exp [rotated]) simp
  have one: "unat (x - 1) = unat x - 1" using assms(2) by (rule unat_minus_one)
  have "unat x div 2 ^ k = 1" using lo by (intro div_nat_eqI) simp_all
  then have bx: "bit x k" by (simp add: bit_unat bit_iff_odd)
  have "\<not> 2 ^ k \<le> unat (x - 1)"
  proof
    assume "2 ^ k \<le> unat (x - 1)"
    then have "unat (x - 1) div 2 ^ k = 1" using lo one by (intro div_nat_eqI) auto
    then have "bit (x - 1) k" by (simp add: bit_unat bit_iff_odd)
    with bx have "bit (x AND (x - 1)) k" by (simp add: bit_and_iff)
    with assms(1) show False by (simp add: IS_POWER_OF_2_def)
  qed
  then have "unat x = 2 ^ k" using lo one by linarith
  then have "x = 2 ^ k" using k64 by (simp add: word_unat_eq_iff unat_exp_u64)
  with k64 show ?thesis by blast
qed

lemma fixsize_ok:
  assumes "0 < unat x" "unat x \<le> 2 ^ 63"
  obtains m where "m < 64" "unat (fixsize x) = 2 ^ m" "unat x \<le> 2 ^ m" "2 ^ m < 2 * unat x"
proof -
  obtain m where m: "unat (x - 1) < 2 ^ m" "m = 0 \<or> 2 ^ (m - 1) \<le> unat (x - 1)"
    using nat_bits by blast
  have one: "unat (x - 1) = unat x - 1"
    using assms(1) by (intro unat_minus_one) auto
  have m64: "m < 64"
  proof (rule ccontr)
    assume "\<not> m < 64"
    then have "(2::nat) ^ 63 \<le> 2 ^ (m - 1)" by (intro power_increasing) simp_all
    moreover have "2 ^ (m - 1) \<le> unat (x - 1)" using m(2) \<open>\<not> m < 64\<close> by auto
    ultimately show False using one assms by linarith
  qed
  show thesis
  proof (rule that [OF m64])
    show "unat (fixsize x) = 2 ^ m" using fixsize_pow2 [OF m] m64 by (simp add: unat_exp_u64)
    show "unat x \<le> 2 ^ m" using m(1) one assms(1) by linarith
    show "2 ^ m < 2 * unat x"
      using m(2) one assms(1) by (cases m) auto
  qed
qed

lemma request_pages_ok:
  assumes "unat r \<le> 2 ^ 63"
  obtains m where "m < 64" "unat (request_pages r) = 2 ^ m" "unat r \<le> 2 ^ m" "2 ^ m \<le> max 1 (2 * unat r)"
proof (cases "r = 0 \<or> IS_POWER_OF_2 r")
  case True
  then show thesis
  proof (cases "r = 0")
    case True
    then show thesis by (intro that [of 0]) (auto simp: request_pages_def)
  next
    case False
    with True obtain m where "m < 64" "r = 2 ^ m" using is_power_of_2D by blast
    then show thesis using False True
      by (intro that [of m]) (auto simp: request_pages_def unat_exp_u64)
  qed
next
  case False
  then have pos: "0 < unat r" by (simp add: unat_gt_0)
  obtain m where m: "m < 64" "unat (fixsize r) = 2 ^ m" "unat r \<le> 2 ^ m" "2 ^ m < 2 * unat r"
    using fixsize_ok [OF pos assms] .
  show thesis
    by (rule that [OF m(1)]) (use m False in \<open>simp_all add: request_pages_def\<close>)
qed

subsection \<open>The entry of a node bounds every free run below it\<close>

lemma aligned_run_node:
  assumes "n = 2 ^ k" "n dvd q" "q + n \<le> 2 ^ K"
  obtains j where "j < 2 * 2 ^ K - 1" "nsz (2 ^ K) j = n" "node_first (2 ^ K) j = q"
    "node_pages (2 ^ K) j = {q ..< q + n}"
proof -
  obtain c where c: "q = n * c" using assms(2) by blast
  have "(2::nat) ^ k \<le> 2 ^ K" using assms(1,3) by linarith
  then have kK: "k \<le> K" by (rule power_le_imp_le_exp [rotated]) simp
  define j where "j = 2 ^ (K - k) + c - 1"
  have S: "(2::nat) ^ K = n * 2 ^ (K - k)" using assms(1) kK by (simp flip: power_add)
  have "0 < n" using assms(1) by simp
  have "n * (c + 1) \<le> n * 2 ^ (K - k)" using assms(3) by (simp add: c S algebra_simps)
  then have cb: "c + 1 \<le> 2 ^ (K - k)" using \<open>0 < n\<close> mult_le_cancel1 by blast
  have j1: "j + 1 = 2 ^ (K - k) + c" by (simp add: j_def)
  have sz: "nsz (2 ^ K) j = n"
    using nsz_level [of "K - k" j K] j1 cb assms(1) kK by simp
  have "(j + 1) * n = 2 ^ K + q" unfolding j1 S c by (simp add: algebra_simps)
  then have first: "node_first (2 ^ K) j = q" by (simp add: node_first_def sz)
  have "(2::nat) ^ (K - k) \<le> 2 ^ K" by simp
  then have "j < 2 * 2 ^ K - 1" using j1 cb by linarith
  then show thesis by (rule that) (use sz first in \<open>simp_all add: node_pages_def\<close>)
qed

lemma free_node_full:
  assumes "tree_ok (2 ^ K) bm" "i < 2 * 2 ^ K - 1"
    and "\<And>v. v \<in> blocks (2 ^ K) bm \<Longrightarrow> node_pages (2 ^ K) v \<inter> node_pages (2 ^ K) i = {}"
  shows "bm ! i = nsz (2 ^ K) i"
  using assms(2,3)
proof (induction "2 * 2 ^ K - i" arbitrary: i rule: less_induct)
  case less
  have ok: "node_ok (2 ^ K) bm i" using assms(1) less.prems(1) by (simp add: tree_ok_def)
  have nb: "\<not> is_block (2 ^ K) bm i"
  proof
    assume "is_block (2 ^ K) bm i"
    then have "i \<in> blocks (2 ^ K) bm" using less.prems(1) by (simp add: blocks_def)
    from less.prems(2) [OF this] show False using node_first_in [OF less.prems(1)] by blast
  qed
  show ?case
  proof (cases "nsz (2 ^ K) i = 1")
    case True
    with ok nb show ?thesis by (auto simp: node_ok_def is_block_def)
  next
    case False
    note ci = children_in [OF less.prems(1) False]
    note pg = node_pages_children [OF less.prems(1) False]
    have lt: "2 * 2 ^ K - LEFT_LEAF i < 2 * 2 ^ K - i" "2 * 2 ^ K - RIGHT_LEAF i < 2 * 2 ^ K - i"
      using less.prems(1) by (auto simp: LEFT_LEAF_def RIGHT_LEAF_def)
    have "bm ! LEFT_LEAF i = nsz (2 ^ K) i div 2"
      using less.hyps [OF lt(1) ci(1)] less.prems(2) pg by (simp add: Int_Un_distrib)
    moreover have "bm ! RIGHT_LEAF i = nsz (2 ^ K) i div 2"
      using less.hyps [OF lt(2) ci(2)] less.prems(2) pg by (simp add: Int_Un_distrib)
    ultimately show ?thesis
      using ok nb False nsz_even [OF less.prems(1) False] nsz_pos [OF ci(1)]
      by (auto simp: node_ok_def is_block_def comb_def split: if_splits)
  qed
qed

lemma entry_mono:
  assumes "tree_ok (2 ^ K) bm" "j < 2 * 2 ^ K - 1" "ancestors j \<inter> blocks (2 ^ K) bm = {}"
    and "a \<in> set (path j)"
  shows "bm ! j \<le> bm ! a"
  using assms(2-4)
proof (induction j rule: less_induct)
  case (less j)
  show ?case
  proof (cases "a = j")
    case False
    with less.prems have anc: "a \<in> ancestors j" by (simp add: set_path)
    then have j: "0 < j" by (cases j) auto
    note P = PARENT_in [OF less.prems(1) j] and st = ancestors_step [OF j]
    have "a \<in> set (path (PARENT j))" using anc j by (simp add: ancestors_def)
    then have "bm ! PARENT j \<le> bm ! a"
      using less.IH [OF PARENT_less [OF j] P(1)] less.prems(2) st by blast
    moreover have "bm ! j \<le> bm ! PARENT j"
    proof -
      note le = child_le [OF assms(1) P(1,2)]
      have "node_ok (2 ^ K) bm (PARENT j)" using assms(1) P(1) by (simp add: tree_ok_def)
      moreover have "\<not> is_block (2 ^ K) bm (PARENT j)"
        using less.prems(2) st P(1) by (auto simp: blocks_def)
      ultimately have "bm ! PARENT j = comb (nsz (2 ^ K) (PARENT j))
          (bm ! LEFT_LEAF (PARENT j)) (bm ! RIGHT_LEAF (PARENT j))"
        using P(2) nsz_pos [OF P(1)] nsz_even [OF P(1,2)] by (auto simp: node_ok_def is_block_def)
      moreover have "j = LEFT_LEAF (PARENT j) \<or> j = RIGHT_LEAF (PARENT j)"
        using j child_cases by blast
      ultimately show ?thesis
        using le unfolding comb_def by (metis le_add1 le_add2 max.cobounded1 max.cobounded2)
    qed
    ultimately show ?thesis by linarith
  qed simp
qed

text \<open>A run outside the allocated blocks has no block above it.\<close>

lemma free_node_ancestors:
  assumes "j < 2 * 2 ^ K - 1"
    and "\<And>v. v \<in> blocks (2 ^ K) bm \<Longrightarrow> node_pages (2 ^ K) v \<inter> node_pages (2 ^ K) j = {}"
  shows "ancestors j \<inter> blocks (2 ^ K) bm = {}"
proof (rule ccontr)
  assume "\<not> ?thesis"
  then obtain v where v: "v \<in> ancestors j" "v \<in> blocks (2 ^ K) bm" by blast
  then have "node_pages (2 ^ K) j \<subseteq> node_pages (2 ^ K) v"
    using node_pages_path [OF assms(1)] by (simp add: set_path)
  with assms(2) [OF v(2)] node_first_in [OF assms(1)] show False by blast
qed

text \<open>The descent takes the leftmost free node of the requested size.\<close>

lemma descend_first:
  assumes "tree_ok (2 ^ K) bm" "i < 2 * 2 ^ K - 1" "n = 2 ^ k" "n \<le> bm ! i"
    and "alloc_descend bm n i (nsz (2 ^ K) i) = Some (j, n)"
    and "j' < 2 * 2 ^ K - 1" "nsz (2 ^ K) j' = n" "bm ! j' = n" "i \<in> set (path j')"
    and "ancestors j' \<inter> blocks (2 ^ K) bm = {}"
  shows "node_first (2 ^ K) j \<le> node_first (2 ^ K) j'"
  using assms(2,4,5,9)
proof (induction "2 * 2 ^ K - i" arbitrary: i rule: less_induct)
  case less
  show ?case
  proof (cases "nsz (2 ^ K) i = n")
    case True
    then have "j = i" using less.prems(3) by (simp add: alloc_descend.simps)
    then have "i \<le> j'" using less.prems(4) ancestors_less by (fastforce simp: set_path)
    then have "(i + 1) * n \<le> (j' + 1) * n" by (intro mult_le_mono1) simp
    then show ?thesis
      unfolding node_first_def \<open>j = i\<close> True assms(7) by linarith
  next
    case False
    have "0 < n" using assms(3) by simp
    then have ne1: "nsz (2 ^ K) i \<noteq> 1"
      using False less.prems(2) entry_le [OF assms(1) less.prems(1)] by linarith
    note ci = children_in [OF less.prems(1) ne1] and pf = node_first_children [OF less.prems(1) ne1]
    have len: "length bm = 2 * 2 ^ K" using assms(1) by (simp add: tree_ok_def)
    have anc: "i \<in> ancestors j'" using less.prems(4) False assms(7) by (auto simp: set_path)
    have lt: "2 * 2 ^ K - LEFT_LEAF i < 2 * 2 ^ K - i" "2 * 2 ^ K - RIGHT_LEAF i < 2 * 2 ^ K - i"
      using less.prems(1) by (auto simp: LEFT_LEAF_def RIGHT_LEAF_def)
    show ?thesis
    proof (cases "n \<le> bm ! LEFT_LEAF i")
      case True
      then have step: "alloc_descend bm n (LEFT_LEAF i) (nsz (2 ^ K) (LEFT_LEAF i)) = Some (j, n)"
        using less.prems(3) False ci len by (subst (asm) alloc_descend.simps) simp
      show ?thesis
      proof (cases "LEFT_LEAF i \<in> set (path j')")
        case True
        then show ?thesis using less.hyps [OF lt(1) ci(1) \<open>n \<le> bm ! LEFT_LEAF i\<close> step] by simp
      next
        case False
        then have R: "RIGHT_LEAF i \<in> set (path j')" using ancestor_child [OF anc] by simp
        obtain j2 where "alloc_descend bm n (LEFT_LEAF i) (nsz (2 ^ K) (LEFT_LEAF i)) = Some (j2, n)"
          "j2 < 2 * 2 ^ K - 1" "LEFT_LEAF i \<in> set (path j2)"
          using descend_ok [OF assms(1) ci(1) assms(3) True] by blast
        then have j: "j < 2 * 2 ^ K - 1" "LEFT_LEAF i \<in> set (path j)" using step by simp_all
        have "node_first (2 ^ K) j \<in> node_pages (2 ^ K) (LEFT_LEAF i)"
          using node_pages_path [OF j] node_first_in [OF j(1)] by blast
        moreover have "node_first (2 ^ K) j' \<in> node_pages (2 ^ K) (RIGHT_LEAF i)"
          using node_pages_path [OF assms(6) R] node_first_in [OF assms(6)] by blast
        ultimately show ?thesis by (simp add: node_pages_def pf)
      qed
    next
      case gt: False
      then have step: "alloc_descend bm n (RIGHT_LEAF i) (nsz (2 ^ K) (RIGHT_LEAF i)) = Some (j, n)"
        using less.prems(3) False ci len by (subst (asm) alloc_descend.simps) simp
      have "LEFT_LEAF i \<notin> set (path j')"
        using entry_mono [OF assms(1,6,10)] gt assms(8) by fastforce
      then have R: "RIGHT_LEAF i \<in> set (path j')" using ancestor_child [OF anc] by simp
      have "n \<le> bm ! RIGHT_LEAF i"
        using entry_mono [OF assms(1,6,10) R] assms(8) by simp
      then show ?thesis using less.hyps [OF lt(2) ci(2) _ step R] by simp
    qed
  qed
qed

subsection \<open>Allocation\<close>

lemma ok_but_write:
  assumes "tree_ok (2 ^ K) bm" "j < 2 * 2 ^ K - 1" "bm ! j = nsz (2 ^ K) j \<or> is_block (2 ^ K) bm j"
    and "v = 0 \<or> v = nsz (2 ^ K) j"
  shows "ok_but (2 ^ K) (bm[j := v]) j"
proof -
  have len: "length bm = 2 * 2 ^ K" using assms(1) by (simp add: tree_ok_def)
  have "node_ok (2 ^ K) (bm[j := v]) i" if i: "i < 2 * 2 ^ K - 1" "j = 0 \<or> i \<noteq> PARENT j" for i
  proof (cases "i = j")
    case True
    show ?thesis
    proof (cases "nsz (2 ^ K) j = 1")
      case True
      then show ?thesis using \<open>i = j\<close> assms(2,4) len by (auto simp: node_ok_def)
    next
      case False
      note fc = full_children [OF assms(1,2) False assms(3)] and ev = nsz_even [OF assms(2) False]
      show ?thesis using \<open>i = j\<close> assms(2,4) len False fc ev by (auto simp: node_ok_def comb_def)
    qed
  next
    case False
    have "node_ok (2 ^ K) bm i" using assms(1) i(1) by (simp add: tree_ok_def)
    moreover have "j \<noteq> LEFT_LEAF i \<and> j \<noteq> RIGHT_LEAF i" using i(2) by auto
    ultimately show ?thesis using False by (intro node_ok_update) auto
  qed
  then show ?thesis using len by (simp add: ok_but_def)
qed

lemma blocks_write:
  assumes "length bm = 2 * 2 ^ K" "j < 2 * 2 ^ K - 1"
  shows "blocks (2 ^ K) (bm[j := v]) - ancestors j - {j} = blocks (2 ^ K) bm - ancestors j - {j}"
proof -
  have "is_block (2 ^ K) (bm[j := v]) i = is_block (2 ^ K) bm i" if "i \<notin> ancestors j" "i \<noteq> j" for i
  proof -
    have "LEFT_LEAF i \<noteq> j" using that(1) by auto
    then show ?thesis using that(2) by (simp add: is_block_def)
  qed
  then show ?thesis by (auto simp: blocks_def)
qed

lemma alloc_tree:
  assumes "tree_ok (2 ^ K) bm" "j < 2 * 2 ^ K - 1" "bm ! j = nsz (2 ^ K) j"
    and "\<forall>a \<in> ancestors j. bm ! a \<noteq> 0"
  shows "\<exists>bm'. alloc_update (bm[j := 0]) j = Some bm' \<and> tree_ok (2 ^ K) bm' \<and>
           blocks (2 ^ K) bm' = insert j (blocks (2 ^ K) bm)"
proof -
  have len: "length bm = 2 * 2 ^ K" using assms(1) by (simp add: tree_ok_def)
  have ok: "ok_but (2 ^ K) (bm[j := 0]) j" by (rule ok_but_write) (use assms in auto)
  have pos: "0 < nsz (2 ^ K) j" by (rule nsz_pos [OF assms(2)])
  have "bm[j := 0] ! i \<le> nsz (2 ^ K) i" if "i < 2 * 2 ^ K - 1" for i
    using entry_le [OF assms(1) that] assms(2) len by (cases "i = j") auto
  then have eq: "alloc_update (bm[j := 0]) j = free_merge (bm[j := 0]) j (nsz (2 ^ K) j)"
    by (intro alloc_update_eq [OF ok assms(2)]) (use pos assms(2) len in auto)
  obtain bm' where bm': "free_merge (bm[j := 0]) j (nsz (2 ^ K) j) = Some bm'" "tree_ok (2 ^ K) bm'"
    using free_merge_ok [OF ok assms(2)] by blast
  note B = blocks_after_merge [OF bm'(1) ok assms(2)]
  have "is_block (2 ^ K) (bm[j := 0]) j"
  proof (cases "nsz (2 ^ K) j = 1")
    case True
    then show ?thesis using assms(2) len by (simp add: is_block_def)
  next
    case False
    have "bm ! LEFT_LEAF j = nsz (2 ^ K) (LEFT_LEAF j)"
      using full_children [OF assms(1,2) False] assms(3) by simp
    then show ?thesis
      using nsz_pos [OF children_in(1) [OF assms(2) False]] assms(2) len by (simp add: is_block_def)
  qed
  then have "j \<in> blocks (2 ^ K) (bm[j := 0])" using assms(2) by (simp add: blocks_def)
  moreover have "blocks (2 ^ K) bm \<inter> ancestors j = {}"
    using assms(4) by (auto simp: blocks_def is_block_def)
  ultimately have "blocks (2 ^ K) bm' = insert j (blocks (2 ^ K) bm)"
    using B blocks_write [OF len assms(2), of 0] by auto
  then show ?thesis using eq bm' by simp
qed

text \<open>\<open>free_run b n q\<close>: the \<open>n\<close> pages from \<open>q\<close> on are an aligned run of unallocated pages.\<close>

definition free_run :: "buddy \<Rightarrow> nat \<Rightarrow> nat \<Rightarrow> bool" where
  "free_run b n q \<longleftrightarrow> n dvd q \<and> q + n \<le> bsize b \<and> {q ..< q + n} \<inter> used_pages b = {}"

lemma buddy_invD:
  assumes "buddy_inv b"
  obtains K where "bsize b = 2 ^ K" "K \<le> 24" "tree_ok (2 ^ K) (bitmap b)" "length (ref_cnt b) = 2 ^ K"
    "\<And>p. p < 2 ^ K \<Longrightarrow> ref_cnt b ! p \<noteq> 0 \<longleftrightarrow> p \<in> node_first (2 ^ K) ` blocks (2 ^ K) (bitmap b)"
  using assms by (auto simp: buddy_inv_def)

lemma free_run_entry:
  assumes "tree_ok (2 ^ K) (bitmap b)" "bsize b = 2 ^ K" "free_run b n q" "n = 2 ^ k"
  obtains j where "j < 2 * 2 ^ K - 1" "nsz (2 ^ K) j = n" "node_first (2 ^ K) j = q"
    "bitmap b ! j = n" "ancestors j \<inter> blocks (2 ^ K) (bitmap b) = {}" "n \<le> bitmap b ! 0"
proof -
  obtain j where j: "j < 2 * 2 ^ K - 1" "nsz (2 ^ K) j = n" "node_first (2 ^ K) j = q"
    "node_pages (2 ^ K) j = {q ..< q + n}"
    using aligned_run_node [of n k q K] assms(2-4) by (auto simp: free_run_def)
  have dis: "node_pages (2 ^ K) v \<inter> node_pages (2 ^ K) j = {}" if "v \<in> blocks (2 ^ K) (bitmap b)" for v
    using assms(2,3) that by (auto simp: free_run_def used_pages_def j(4))
  have full: "bitmap b ! j = n" using free_node_full [OF assms(1) j(1) dis] j(2) by simp
  have anc: "ancestors j \<inter> blocks (2 ^ K) (bitmap b) = {}" by (rule free_node_ancestors [OF j(1) dis])
  have "n \<le> bitmap b ! 0" using entry_mono [OF assms(1) j(1) anc root_in_path] full by simp
  with j full anc that show thesis by blast
qed

lemma buddy_alloc_effect:
  assumes "buddy_inv b" "unat (request_pages r) = 2 ^ k" "2 ^ k \<le> bitmap b ! 0"
  shows "\<exists>j b'. buddy_alloc r b = Some (node_first (bsize b) j, b') \<and> buddy_inv b' \<and>
           j < 2 * bsize b - 1 \<and> nsz (bsize b) j = 2 ^ k \<and> bsize b' = bsize b \<and>
           ref_cnt b' = (ref_cnt b)[node_first (bsize b) j := 1] \<and>
           blocks (bsize b) (bitmap b') = insert j (blocks (bsize b) (bitmap b)) \<and>
           j \<notin> blocks (bsize b) (bitmap b) \<and>
           (\<forall>q. free_run b (2 ^ k) q \<longrightarrow> node_first (bsize b) j \<le> q)"
proof -
  obtain K where K: "bsize b = 2 ^ K" "K \<le> 24" "tree_ok (2 ^ K) (bitmap b)" "length (ref_cnt b) = 2 ^ K"
    "\<And>p. p < 2 ^ K \<Longrightarrow> ref_cnt b ! p \<noteq> 0 \<longleftrightarrow> p \<in> node_first (2 ^ K) ` blocks (2 ^ K) (bitmap b)"
    using assms(1) by (rule buddy_invD) blast
  define bm where "bm = bitmap b"
  have len: "length bm = 2 * 2 ^ K" using K(3) by (simp add: tree_ok_def bm_def)
  have "(1::nat) \<le> 2 ^ K" by simp
  then have root: "(0::nat) < 2 * 2 ^ K - 1" by linarith
  obtain j where j: "alloc_descend bm (2 ^ k) 0 (2 ^ K) = Some (j, 2 ^ k)" "j < 2 * 2 ^ K - 1"
    "nsz (2 ^ K) j = 2 ^ k" "bm ! j = 2 ^ k" "\<forall>a \<in> ancestors j. 2 ^ k \<le> bm ! a"
    using descend_ok [OF K(3) root refl assms(3)] root_in_path by (auto simp: bm_def)
  have "\<forall>a \<in> ancestors j. bm ! a \<noteq> 0" using j(5) by (metis not_one_le_zero one_le_numeral one_le_power le_trans)
  then obtain bm' where bm': "alloc_update (bm[j := 0]) j = Some bm'" "tree_ok (2 ^ K) bm'"
    "blocks (2 ^ K) bm' = insert j (blocks (2 ^ K) bm)"
    using alloc_tree [OF K(3) [folded bm_def] j(2)] j(3,4) by auto
  define p where "p = node_first (2 ^ K) j"
  have p: "p < 2 ^ K" using node_first_less [OF j(2)] by (simp add: p_def)
  define b' where "b' = b\<lparr>bitmap := bm', ref_cnt := (ref_cnt b)[p := 1]\<rparr>"
  have run: "buddy_alloc r b = Some (p, b')"
    using span_bounds(1) [OF j(2)] assms(2,3) j(1-3) bm'(1) p len K(1,4) root
    by (simp add: buddy_alloc_def Let_def b'_def p_def node_first_def flip: bm_def)
  have "ref_cnt b' ! q \<noteq> 0 \<longleftrightarrow> q \<in> node_first (2 ^ K) ` blocks (2 ^ K) bm'" if "q < 2 ^ K" for q
    using K(4) K(5) [OF that] that by (cases "q = p") (auto simp: b'_def bm'(3) bm_def p_def)
  then have inv: "buddy_inv b'" using K bm'(2) by (auto simp: buddy_inv_def b'_def)
  have "j \<notin> blocks (2 ^ K) bm" using j(4) by (simp add: blocks_def is_block_def)
  moreover have "p \<le> q" if q: "free_run b (2 ^ k) q" for q
  proof -
    obtain j' where j': "j' < 2 * 2 ^ K - 1" "nsz (2 ^ K) j' = 2 ^ k" "node_first (2 ^ K) j' = q"
      "bm ! j' = 2 ^ k" "ancestors j' \<inter> blocks (2 ^ K) bm = {}"
      using free_run_entry [OF K(3,1) q refl] by (auto simp: bm_def)
    have "node_first (2 ^ K) j \<le> node_first (2 ^ K) j'"
      by (rule descend_first [of K bm 0 "2 ^ k" k]) (use K(3) root j(1) j' assms(3) root_in_path in \<open>auto simp: bm_def\<close>)
    then show ?thesis by (simp add: p_def j'(3))
  qed
  ultimately show ?thesis
    using run inv j bm'(3) K(1) by (intro exI [of _ j] exI [of _ b']) (auto simp: p_def b'_def bm_def)
qed

subsection \<open>Release\<close>

lemma free_tree:
  assumes "tree_ok (2 ^ K) bm" "v \<in> blocks (2 ^ K) bm"
  shows "\<exists>bm'. free_merge (bm[v := nsz (2 ^ K) v]) v (nsz (2 ^ K) v) = Some bm' \<and> tree_ok (2 ^ K) bm' \<and>
           blocks (2 ^ K) bm' = blocks (2 ^ K) bm - {v}"
proof -
  have v: "v < 2 * 2 ^ K - 1" "is_block (2 ^ K) bm v" using assms(2) by (auto simp: blocks_def)
  have len: "length bm = 2 * 2 ^ K" using assms(1) by (simp add: tree_ok_def)
  have ok: "ok_but (2 ^ K) (bm[v := nsz (2 ^ K) v]) v" by (rule ok_but_write) (use assms(1) v in auto)
  obtain bm' where bm': "free_merge (bm[v := nsz (2 ^ K) v]) v (nsz (2 ^ K) v) = Some bm'"
    "tree_ok (2 ^ K) bm'"
    using free_merge_ok [OF ok v(1)] by blast
  note B = blocks_after_merge [OF bm'(1) ok v(1)]
  have "v \<notin> blocks (2 ^ K) (bm[v := nsz (2 ^ K) v])"
    using nsz_pos [OF v(1)] v(1) len by (simp add: blocks_def is_block_def)
  moreover have "blocks (2 ^ K) bm \<inter> ancestors v = {}"
    using block_no_ancestor [OF assms(1) _ assms(2)] by blast
  ultimately have "blocks (2 ^ K) bm' = blocks (2 ^ K) bm - {v}"
    using B blocks_write [OF len v(1), of "nsz (2 ^ K) v"] by auto
  then show ?thesis using bm' by blast
qed

lemma node_first_inj:
  assumes "tree_ok (2 ^ K) bm" "v \<in> blocks (2 ^ K) bm" "w \<in> blocks (2 ^ K) bm"
    and "node_first (2 ^ K) v = node_first (2 ^ K) w"
  shows "v = w"
proof (rule ccontr)
  assume "v \<noteq> w"
  from blocks_disjoint [OF assms(1-3) this] show False
    using node_first_in [of v K] node_first_in [of w K] assms(2-4) by (auto simp: blocks_def)
qed

lemma buddy_decref_last:
  assumes "buddy_inv b" "v \<in> blocks (bsize b) (bitmap b)" "p = node_first (bsize b) v"
    and "ref_cnt b ! p = 1"
  shows "\<exists>b'. buddy_pfn_decref p b = Some b' \<and> buddy_inv b' \<and> bsize b' = bsize b \<and>
           blocks (bsize b) (bitmap b') = blocks (bsize b) (bitmap b) - {v} \<and>
           ref_cnt b' = (ref_cnt b)[p := 0]"
proof -
  obtain K where K: "bsize b = 2 ^ K" "K \<le> 24" "tree_ok (2 ^ K) (bitmap b)" "length (ref_cnt b) = 2 ^ K"
    "\<And>p. p < 2 ^ K \<Longrightarrow> ref_cnt b ! p \<noteq> 0 \<longleftrightarrow> p \<in> node_first (2 ^ K) ` blocks (2 ^ K) (bitmap b)"
    using assms(1) by (rule buddy_invD) blast
  have v: "v < 2 * 2 ^ K - 1" "v \<in> blocks (2 ^ K) (bitmap b)" using assms(2) K(1) by (auto simp: blocks_def)
  have len: "length (bitmap b) = 2 * 2 ^ K" using K(3) by (simp add: tree_ok_def)
  have p: "p < 2 ^ K" using node_first_less [OF v(1)] assms(3) K(1) by simp
  obtain bm' where bm': "free_merge ((bitmap b)[v := nsz (2 ^ K) v]) v (nsz (2 ^ K) v) = Some bm'"
    "tree_ok (2 ^ K) bm'" "blocks (2 ^ K) bm' = blocks (2 ^ K) (bitmap b) - {v}"
    using free_tree [OF K(3) v(2)] by blast
  define b' where "b' = b\<lparr>bitmap := bm', ref_cnt := (ref_cnt b)[p := 0]\<rparr>"
  have "free_climb (bitmap b) (p + 2 ^ K - 1) (Suc 0) = Some (v, nsz (2 ^ K) v)"
    using climb_block [OF K(3) v(2)] assms(3) K(1) by simp
  then have run: "buddy_pfn_decref p b = Some b'"
    using p K(1,4) v(1) len bm'(1) assms(4)
    by (simp add: buddy_pfn_decref_def buddy_free_def b'_def)
  have "ref_cnt b' ! q \<noteq> 0 \<longleftrightarrow> q \<in> node_first (2 ^ K) ` blocks (2 ^ K) bm'" if q: "q < 2 ^ K" for q
  proof (cases "q = p")
    case True
    have "p \<notin> node_first (2 ^ K) ` blocks (2 ^ K) bm'"
      using node_first_inj [OF K(3) v(2)] assms(3) K(1) by (auto simp: bm'(3))
    then show ?thesis using True p K(4) by (simp add: b'_def)
  next
    case False
    then show ?thesis using K(5) [OF q] assms(3) K(1) by (auto simp: b'_def bm'(3))
  qed
  then have "buddy_inv b'" using K bm'(2) by (auto simp: buddy_inv_def b'_def)
  then show ?thesis using run bm'(3) K(1) by (auto simp: b'_def)
qed

lemma ref_update_inv:
  assumes "buddy_inv b" "p < bsize b" "ref_cnt b ! p \<noteq> 0" "c \<noteq> 0"
  shows "buddy_inv (b\<lparr>ref_cnt := (ref_cnt b)[p := c]\<rparr>)"
proof -
  have "(ref_cnt b)[p := c] ! q \<noteq> 0 \<longleftrightarrow> ref_cnt b ! q \<noteq> 0" if "q < bsize b" for q
    using assms that by (cases "q = p") (auto simp: buddy_inv_def)
  then show ?thesis using assms(1) by (auto simp: buddy_inv_def)
qed

lemma live_block:
  assumes "buddy_inv b" "p < bsize b" "ref_cnt b ! p \<noteq> 0"
  obtains v where "v \<in> blocks (bsize b) (bitmap b)" "p = node_first (bsize b) v"
  using assms by (auto simp: buddy_inv_def)

lemma buddy_decref_inv:
  assumes "buddy_inv b" "buddy_pfn_decref p b = Some b'"
  shows "buddy_inv b' \<and> bsize b' = bsize b"
proof -
  have len: "length (ref_cnt b) = bsize b" using assms(1) by (auto simp: buddy_inv_def)
  have p: "p < bsize b" using assms(2) len by (auto simp: buddy_pfn_decref_def dest!: rd_SomeD split: Option.bind_splits)
  consider "ref_cnt b ! p = 0" | "ref_cnt b ! p = 1" | "ref_cnt b ! p > 1" by linarith
  then show ?thesis
  proof cases
    case 1
    then show ?thesis using assms p len by (simp add: buddy_pfn_decref_def)
  next
    case 2
    then have "ref_cnt b ! p \<noteq> 0" by simp
    from live_block [OF assms(1) p this] obtain v
      where "v \<in> blocks (bsize b) (bitmap b)" "p = node_first (bsize b) v" .
    from buddy_decref_last [OF assms(1) this 2] assms(2) show ?thesis by auto
  next
    case 3
    then have "b' = b\<lparr>ref_cnt := (ref_cnt b)[p := ref_cnt b ! p - 1]\<rparr>"
      using assms(2) p len by (simp add: buddy_pfn_decref_def)
    then show ?thesis using ref_update_inv [OF assms(1) p] 3 by simp
  qed
qed

lemma buddy_incref_inv:
  assumes "buddy_inv b" "buddy_pfn_incref p b = Some b'" "ref_cnt b ! p \<noteq> 0"
  shows "buddy_inv b' \<and> bsize b' = bsize b"
proof -
  have len: "length (ref_cnt b) = bsize b" using assms(1) by (auto simp: buddy_inv_def)
  have p: "p < bsize b" using assms(2) len by (auto simp: buddy_pfn_incref_def dest!: rd_SomeD split: Option.bind_splits)
  have "b' = b\<lparr>ref_cnt := (ref_cnt b)[p := ref_cnt b ! p + 1]\<rparr>"
    using assms(2) p len by (simp add: buddy_pfn_incref_def)
  then show ?thesis using ref_update_inv [OF assms(1) p assms(3)] by simp
qed

subsection \<open>The bitmap is determined by the allocated blocks\<close>

lemma node_ok_no_block:
  assumes "tree_ok (2 ^ K) bm" "i < 2 * 2 ^ K - 1" "nsz (2 ^ K) i \<noteq> 1" "i \<notin> blocks (2 ^ K) bm"
  shows "bm ! i = comb (nsz (2 ^ K) i) (bm ! LEFT_LEAF i) (bm ! RIGHT_LEAF i)"
proof -
  have "node_ok (2 ^ K) bm i" using assms(1,2) by (simp add: tree_ok_def)
  moreover have "\<not> is_block (2 ^ K) bm i" using assms(2,4) by (simp add: blocks_def)
  ultimately show ?thesis
    using assms(3) nsz_pos [OF assms(2)] nsz_even [OF assms(2,3)]
    by (auto simp: node_ok_def is_block_def)
qed

lemma tree_unique:
  assumes "tree_ok (2 ^ K) bm" "tree_ok (2 ^ K) bm'" "blocks (2 ^ K) bm = blocks (2 ^ K) bm'"
    and "i < 2 * 2 ^ K - 1"
  shows "bm ! i = bm' ! i"
  using assms(4)
proof (induction "2 * 2 ^ K - i" arbitrary: i rule: less_induct)
  case less
  show ?case
  proof (cases "i \<in> blocks (2 ^ K) bm")
    case True
    then show ?thesis using assms(3) by (auto simp: blocks_def is_block_def)
  next
    case nb: False
    then have nb': "i \<notin> blocks (2 ^ K) bm'" using assms(3) by simp
    show ?thesis
    proof (cases "nsz (2 ^ K) i = 1")
      case True
      have "node_ok (2 ^ K) bm i" "node_ok (2 ^ K) bm' i" using assms(1,2) less.prems by (auto simp: tree_ok_def)
      moreover have "bm ! i \<noteq> 0" "bm' ! i \<noteq> 0"
        using nb nb' True less.prems by (simp_all add: blocks_def is_block_def)
      ultimately show ?thesis using True by (simp add: node_ok_def)
    next
      case False
      note ci = children_in [OF less.prems False]
      have "bm ! LEFT_LEAF i = bm' ! LEFT_LEAF i" "bm ! RIGHT_LEAF i = bm' ! RIGHT_LEAF i"
        using less.hyps [OF _ ci(1)] less.hyps [OF _ ci(2)] less.prems
        by (simp_all add: LEFT_LEAF_def RIGHT_LEAF_def)
      then show ?thesis
        using node_ok_no_block [OF assms(1) less.prems False nb]
          node_ok_no_block [OF assms(2) less.prems False nb'] by simp
    qed
  qed
qed

end
