(* ===== verification/Buddy_Props.thy ===== *)
theory Buddy_Props
  imports Buddy_Ops
begin

text \<open>
  What the page allocator promises: allocation, release, the invariant over every run of the
  interface, the state after \<open>buddy_init\<close>, and the interface \<open>page_allocator\<close> through which the
  page tables and the memory of processes use it.
\<close>

subsection \<open>Allocation\<close>

lemma free_runI: "j < 2 * bsize b - 1 \<Longrightarrow> buddy_inv b \<Longrightarrow>
   (\<And>v. v \<in> blocks (bsize b) (bitmap b) \<Longrightarrow> node_pages (bsize b) v \<inter> node_pages (bsize b) j = {}) \<Longrightarrow>
   free_run b (nsz (bsize b) j) (node_first (bsize b) j)"
  by (erule buddy_invD) (auto simp: free_run_def used_pages_def node_first_aligned node_pages_bound
      simp flip: node_pages_def)

lemma buddy_alloc_run:
  assumes inv: "buddy_inv b" and n: "unat (request_pages r) = 2 ^ k" and le: "2 ^ k \<le> bitmap b ! 0"
  shows "\<exists>p b'. buddy_alloc r b = Some (p, b') \<and> free_run b (2 ^ k) p \<and>
     (\<forall>q. free_run b (2 ^ k) q \<longrightarrow> p \<le> q) \<and> buddy_inv b' \<and> bsize b' = bsize b \<and>
     used_pages b' = used_pages b \<union> {p ..< p + 2 ^ k} \<and> ref_cnt b' = (ref_cnt b)[p := 1]"
proof -
  obtain j b' where j: "buddy_alloc r b = Some (node_first (bsize b) j, b')" "buddy_inv b'"
    "j < 2 * bsize b - 1" "nsz (bsize b) j = 2 ^ k" "bsize b' = bsize b"
    "ref_cnt b' = (ref_cnt b)[node_first (bsize b) j := 1]"
    "blocks (bsize b) (bitmap b') = insert j (blocks (bsize b) (bitmap b))"
    "j \<notin> blocks (bsize b) (bitmap b)" "\<forall>q. free_run b (2 ^ k) q \<longrightarrow> node_first (bsize b) j \<le> q"
    using buddy_alloc_effect [OF inv n le] by blast
  obtain K where K: "bsize b = 2 ^ K" "tree_ok (2 ^ K) (bitmap b')"
    using buddy_invD [OF j(2)] j(5) by metis
  have dis: "node_pages (bsize b) v \<inter> node_pages (bsize b) j = {}"
    if "v \<in> blocks (bsize b) (bitmap b)" for v
    using blocks_disjoint [OF K(2), of v j] that j(7,8) K(1) by auto
  have "free_run b (2 ^ k) (node_first (bsize b) j)"
    using free_runI [OF j(3) inv dis] j(4) by simp
  moreover have "used_pages b' = used_pages b \<union> {node_first (bsize b) j ..< node_first (bsize b) j + 2 ^ k}"
    by (simp add: used_pages_def j(5,7) node_pages_def [of _ j] j(4) Un_commute)
  ultimately show ?thesis using j by blast
qed

lemma no_free_run:
  assumes "buddy_inv b" "bitmap b ! 0 < 2 ^ k"
  shows "\<not> free_run b (2 ^ k) q"
proof
  assume q: "free_run b (2 ^ k) q"
  obtain K where K: "bsize b = 2 ^ K" "tree_ok (2 ^ K) (bitmap b)" using buddy_invD [OF assms(1)] by metis
  show False by (rule free_run_entry [OF K(2,1) q refl]) (use assms(2) in linarith)
qed

lemma bitmap_nonempty: "buddy_inv b \<Longrightarrow> 0 < length (bitmap b)"
  by (erule buddy_invD) (simp add: tree_ok_def)

lemma buddy_alloc_none:
  "buddy_inv b \<Longrightarrow> bitmap b ! 0 < unat (request_pages r) \<Longrightarrow> buddy_alloc r b = None"
  using bitmap_nonempty [of b] by (simp add: buddy_alloc_def Let_def)

definition alloc_contract :: "nat \<Rightarrow> buddy \<Rightarrow> (nat \<times> buddy) option \<Rightarrow> bool" where
  "alloc_contract n b res \<longleftrightarrow>
     (case res of
        None \<Rightarrow> \<forall>q. \<not> free_run b n q
      | Some (p, b') \<Rightarrow> free_run b n p \<and> (\<forall>q. free_run b n q \<longrightarrow> p \<le> q) \<and> buddy_inv b' \<and>
          bsize b' = bsize b \<and> used_pages b' = used_pages b \<union> {p ..< p + n} \<and>
          ref_cnt b' = (ref_cnt b)[p := 1])"

lemma alloc_contract_ok:
  assumes "buddy_inv b" "unat (request_pages r) = 2 ^ k"
  shows "alloc_contract (2 ^ k) b (buddy_alloc r b)"
proof (cases "2 ^ k \<le> bitmap b ! 0")
  case True
  from buddy_alloc_run [OF assms True] show ?thesis by (auto simp: alloc_contract_def)
next
  case False
  then have lt: "bitmap b ! 0 < 2 ^ k" by simp
  have "buddy_alloc r b = None" by (rule buddy_alloc_none) (use assms lt in simp_all)
  then show ?thesis using no_free_run [OF assms(1) lt] by (simp add: alloc_contract_def)
qed

lemma alloc_contractD:
  assumes "buddy_inv b" "unat (request_pages r) = n" "n = 2 ^ k" "buddy_alloc r b = Some (p, b')"
  shows "free_run b n p" "\<And>q. free_run b n q \<Longrightarrow> p \<le> q" "buddy_inv b'" "bsize b' = bsize b"
    "used_pages b' = used_pages b \<union> {p ..< p + n}" "ref_cnt b' = (ref_cnt b)[p := 1]"
  using alloc_contract_ok [OF assms(1), of r k] assms(2-4) by (auto simp: alloc_contract_def)

text \<open>
  A request above \<open>2 ^ 63\<close> overflows to 0 in \<open>fixsize\<close>; its call never returns. So a request that
  succeeds is for a power of two of pages.
\<close>

lemma fixsize_overflow:
  assumes "2 ^ 63 < unat x"
  shows "fixsize x = 0"
proof -
  have one: "unat (x - 1) = unat x - 1" by (rule unat_minus_one) (use assms in auto)
  have "unat (x - 1) < 2 ^ 64" using unat_u64_less [of "x - 1"] by simp
  moreover have "2 ^ (64 - 1) \<le> unat (x - 1)" using assms unfolding one by simp
  ultimately have "fixsize x = 2 ^ 64" by (intro fixsize_pow2) auto
  then show ?thesis by simp
qed

lemma request_overflow:
  assumes "2 ^ 63 < unat r"
  shows "request_pages r = 0"
proof -
  have "\<not> IS_POWER_OF_2 r"
  proof
    assume p: "IS_POWER_OF_2 r"
    have "r \<noteq> 0" using assms by auto
    then obtain m where m: "m < 64" "r = 2 ^ m" using is_power_of_2D [OF p] by blast
    have "(2::nat) ^ m \<le> 2 ^ 63" by (rule power_increasing) (use m(1) in simp_all)
    then show False using assms unat_exp_u64 [OF m(1)] m(2) by simp
  qed
  then show ?thesis using fixsize_overflow [OF assms] assms by (auto simp: request_pages_def)
qed

lemma alloc_descend_size: "alloc_descend bm n i s = Some (j, s') \<Longrightarrow> s' = n"
  by (induction bm n i s rule: alloc_descend.induct)
    (subst (asm) (3) alloc_descend.simps, auto split: if_splits Option.bind_splits)

lemma request_pow2:
  assumes "buddy_alloc r b = Some (p, b')" "buddy_inv b"
  obtains k where "unat (request_pages r) = 2 ^ k"
proof (cases "unat r \<le> 2 ^ 63")
  case True
  then show thesis using request_pages_ok that by metis
next
  case False
  then have "request_pages r = 0" by (intro request_overflow) simp
  moreover have "0 < bsize b" using buddy_invD [OF assms(2)] by (metis zero_less_numeral zero_less_power)
  ultimately show thesis using assms(1)
    by (auto simp: buddy_alloc_def split: Option.bind_splits if_splits dest: alloc_descend_size)
qed

subsection \<open>Release\<close>

text \<open>The pages of the block that starts at the page frame \<open>p\<close>.\<close>

definition block_pages :: "buddy \<Rightarrow> nat \<Rightarrow> nat set" where
  "block_pages b p =
     (\<Union>v \<in> {v \<in> blocks (bsize b) (bitmap b). node_first (bsize b) v = p}. node_pages (bsize b) v)"

definition live :: "buddy \<Rightarrow> nat \<Rightarrow> bool" where
  "live b p \<longleftrightarrow> p < bsize b \<and> ref_cnt b ! p \<noteq> 0"

lemma block_pages_block:
  assumes "buddy_inv b" "v \<in> blocks (bsize b) (bitmap b)"
  shows "block_pages b (node_first (bsize b) v) = node_pages (bsize b) v"
proof -
  obtain K where K: "bsize b = 2 ^ K" "tree_ok (2 ^ K) (bitmap b)" using buddy_invD [OF assms(1)] by metis
  have "{w \<in> blocks (bsize b) (bitmap b). node_first (bsize b) w = node_first (bsize b) v} = {v}"
    using node_first_inj [OF K(2)] assms(2) K(1) by auto
  then show ?thesis by (simp add: block_pages_def)
qed

lemma live_pages_disjoint:
  assumes "buddy_inv b" "live b p" "live b q" "p \<noteq> q"
  shows "block_pages b p \<inter> block_pages b q = {}"
proof -
  obtain K where K: "bsize b = 2 ^ K" "tree_ok (2 ^ K) (bitmap b)" using buddy_invD [OF assms(1)] by metis
  obtain v where v: "v \<in> blocks (bsize b) (bitmap b)" "p = node_first (bsize b) v"
    using live_block [OF assms(1)] assms(2) by (auto simp: live_def)
  obtain w where w: "w \<in> blocks (bsize b) (bitmap b)" "q = node_first (bsize b) w"
    using live_block [OF assms(1)] assms(3) by (auto simp: live_def)
  have "v \<noteq> w" using assms(4) v(2) w(2) by auto
  from blocks_disjoint [OF K(2) v(1)[unfolded K(1)] w(1)[unfolded K(1)] this]
  show ?thesis using block_pages_block [OF assms(1) v(1)] block_pages_block [OF assms(1) w(1)] v(2) w(2) K(1)
    by simp
qed

lemma live_head_in_block:
  assumes "buddy_inv b" "live b p"
  shows "p \<in> block_pages b p" "block_pages b p \<subseteq> used_pages b"
proof -
  obtain v where v: "v \<in> blocks (bsize b) (bitmap b)" "p = node_first (bsize b) v"
    using live_block [OF assms(1)] assms(2) by (auto simp: live_def)
  obtain K where K: "bsize b = 2 ^ K" using buddy_invD [OF assms(1)] by metis
  show "p \<in> block_pages b p"
    using block_pages_block [OF assms(1) v(1)] v node_first_in [of v K] K by (simp add: blocks_def)
  show "block_pages b p \<subseteq> used_pages b"
    using block_pages_block [OF assms(1) v(1)] v by (auto simp: used_pages_def)
qed

lemma decref_last_frees:
  assumes "buddy_inv b" "p < bsize b" "ref_cnt b ! p = 1"
  shows "\<exists>b'. buddy_pfn_decref p b = Some b' \<and> buddy_inv b' \<and> bsize b' = bsize b \<and>
     used_pages b' = used_pages b - block_pages b p \<and> ref_cnt b' = (ref_cnt b)[p := 0] \<and>
     blocks (bsize b) (bitmap b') = {w \<in> blocks (bsize b) (bitmap b). node_first (bsize b) w \<noteq> p}"
proof -
  obtain K where K: "bsize b = 2 ^ K" "tree_ok (2 ^ K) (bitmap b)" using buddy_invD [OF assms(1)] by metis
  obtain v where v: "v \<in> blocks (bsize b) (bitmap b)" "p = node_first (bsize b) v"
    using live_block [OF assms(1,2)] assms(3) by auto
  obtain b' where b': "buddy_pfn_decref p b = Some b'" "buddy_inv b'" "bsize b' = bsize b"
    "blocks (bsize b) (bitmap b') = blocks (bsize b) (bitmap b) - {v}" "ref_cnt b' = (ref_cnt b)[p := 0]"
    using buddy_decref_last [OF assms(1) v assms(3)] by blast
  have "node_pages (bsize b) w \<inter> node_pages (bsize b) v = {}"
    if "w \<in> blocks (bsize b) (bitmap b)" "w \<noteq> v" for w
    using blocks_disjoint [OF K(2), of w v] that v(1) K(1) by auto
  then have "used_pages b' = used_pages b - node_pages (bsize b) v"
    using v(1) by (fastforce simp: used_pages_def b'(3,4))
  moreover have "blocks (bsize b) (bitmap b) - {v} = {w \<in> blocks (bsize b) (bitmap b). node_first (bsize b) w \<noteq> p}"
    using node_first_inj [OF K(2)] v K(1) by auto
  ultimately show ?thesis using b' block_pages_block [OF assms(1) v(1)] v(2) by auto
qed

lemma decref_shared:
  assumes "buddy_inv b" "p < bsize b" "1 < ref_cnt b ! p"
  shows "buddy_pfn_decref p b = Some (b\<lparr>ref_cnt := (ref_cnt b)[p := ref_cnt b ! p - 1]\<rparr>)"
  using assms by (auto simp: buddy_pfn_decref_def elim!: buddy_invD)

lemma free_live_noop:
  assumes "buddy_inv b" "live b p"
  shows "buddy_free p b = Some b"
  using assms by (auto simp: buddy_free_def live_def elim!: buddy_invD)

lemma free_run_not_live:
  assumes "buddy_inv b" "free_run b n p" "0 < n"
  shows "ref_cnt b ! p = 0"
proof (rule ccontr)
  assume "ref_cnt b ! p \<noteq> 0"
  then have "live b p" using assms(2,3) by (auto simp: free_run_def live_def)
  then have "p \<in> used_pages b" using live_head_in_block [OF assms(1)] by blast
  then show False using assms(2,3) by (auto simp: free_run_def disjoint_iff)
qed

lemma alloc_then_release:
  assumes inv: "buddy_inv b" and r: "unat (request_pages r) = 2 ^ k"
    and alloc: "buddy_alloc r b = Some (p, b')"
  shows "\<exists>b''. buddy_pfn_decref p b' = Some b'' \<and> ref_cnt b'' = ref_cnt b \<and>
           (\<forall>i < 2 * bsize b - 1. bitmap b'' ! i = bitmap b ! i) \<and> used_pages b'' = used_pages b \<and>
           bsize b'' = bsize b"
proof -
  obtain K where K: "bsize b = 2 ^ K" "tree_ok (2 ^ K) (bitmap b)" "length (ref_cnt b) = 2 ^ K"
    using buddy_invD [OF inv] by metis
  have "2 ^ k \<le> bitmap b ! 0" using buddy_alloc_none [OF inv, of r] alloc r by fastforce
  from buddy_alloc_effect [OF inv r this] obtain j where
    j: "p = node_first (bsize b) j" "buddy_inv b'" "j < 2 * bsize b - 1" "nsz (bsize b) j = 2 ^ k"
    "bsize b' = bsize b" "ref_cnt b' = (ref_cnt b)[p := 1]"
    "blocks (bsize b) (bitmap b') = insert j (blocks (bsize b) (bitmap b))"
    "j \<notin> blocks (bsize b) (bitmap b)"
    using alloc by auto
  have p: "p < bsize b" using node_first_less [of j K] j(1,3) K(1) by simp
  have jb: "j \<in> blocks (bsize b') (bitmap b')" by (simp add: j(5,7))
  have "ref_cnt b' ! p = 1" using p K(1,3) by (simp add: j(6))
  from buddy_decref_last [OF j(2) jb _ this] obtain b'' where
    b'': "buddy_pfn_decref p b' = Some b''" "buddy_inv b''" "bsize b'' = bsize b"
    "blocks (bsize b) (bitmap b'') = blocks (bsize b) (bitmap b)" "ref_cnt b'' = (ref_cnt b)[p := 0]"
    using j(1,5-8) by auto
  have "ref_cnt b ! p = 0"
    by (rule free_run_not_live [OF inv alloc_contractD(1) [OF inv r refl alloc]]) simp
  then have rc: "ref_cnt b'' = ref_cnt b" by (metis b''(5) list_update_id)
  have "tree_ok (2 ^ K) (bitmap b'')" using b''(2,3) K(1) by (simp add: buddy_inv_def)
  then have "\<forall>i < 2 * bsize b - 1. bitmap b'' ! i = bitmap b ! i"
    using tree_unique [OF _ K(2)] b''(4) K(1) by simp
  moreover have "used_pages b'' = used_pages b" by (simp add: used_pages_def b''(3,4))
  ultimately show ?thesis using b'' rc by blast
qed

subsection \<open>Every run of the interface\<close>

text \<open>
  The calls the kernel makes on the allocator: a request, taking and dropping a reference to a
  frame, and freeing a live frame. A call that does not return (\<open>None\<close>) has no step.
\<close>

inductive buddy_step :: "buddy \<Rightarrow> buddy \<Rightarrow> bool" where
  step_alloc: "alloc_pages r b = Some (va, b') \<Longrightarrow> buddy_step b b'"
| step_ref: "ref_page va b = Some (c, b') \<Longrightarrow> buddy_step b b'"
| step_deref: "deref_page va b = Some (c, b') \<Longrightarrow> buddy_step b b'"
| step_free: "live b (pfn_of_va va) \<Longrightarrow> free_pages va b = Some b' \<Longrightarrow> buddy_step b b'"

inductive_cases buddy_stepE: "buddy_step b b'"

inductive buddy_run :: "buddy \<Rightarrow> buddy \<Rightarrow> bool" where
  run_refl: "buddy_run b b"
| run_step: "buddy_run b b' \<Longrightarrow> buddy_step b' b'' \<Longrightarrow> buddy_run b b''"

lemma alloc_pages_SomeE:
  assumes "alloc_pages r b = Some (va, b')"
  obtains p where "buddy_alloc r b = Some (p, b')" "va = va_of p"
  using assms by (auto simp: alloc_pages_def va_of_def split: Option.bind_splits)

lemma buddy_alloc_inv:
  assumes "buddy_inv b" "buddy_alloc r b = Some (p, b')"
  shows "buddy_inv b' \<and> bsize b' = bsize b"
proof -
  obtain k where k: "unat (request_pages r) = 2 ^ k" using request_pow2 [OF assms(2,1)] .
  show ?thesis using alloc_contractD(3,4) [OF assms(1) k refl assms(2)] by blast
qed

lemma buddy_step_inv: "buddy_step b b' \<Longrightarrow> buddy_inv b \<Longrightarrow> buddy_inv b' \<and> bsize b' = bsize b"
proof (erule buddy_stepE)
  fix r va assume "buddy_inv b" "alloc_pages r b = Some (va, b')"
  then show ?thesis by (auto elim!: alloc_pages_SomeE dest: buddy_alloc_inv)
next
  fix va c assume "buddy_inv b" "ref_page va b = Some (c, b')"
  then show ?thesis
    by (auto simp: ref_page_def split: Option.bind_splits if_splits dest!: rd_SomeD dest: buddy_incref_inv)
next
  fix va c assume "buddy_inv b" "deref_page va b = Some (c, b')"
  then show ?thesis
    by (auto simp: deref_page_def split: Option.bind_splits if_splits dest: buddy_decref_inv)
next
  fix va assume "buddy_inv b" "live b (pfn_of_va va)" "free_pages va b = Some b'"
  then show ?thesis by (simp add: free_pages_def free_live_noop)
qed

lemma buddy_run_inv: "buddy_run b b' \<Longrightarrow> buddy_inv b \<Longrightarrow> buddy_inv b' \<and> bsize b' = bsize b"
  by (induction rule: buddy_run.induct) (auto dest: buddy_step_inv)

subsection \<open>What a call does to the other blocks\<close>

lemma alloc_keeps_live:
  assumes inv: "buddy_inv b" and run: "buddy_alloc r b = Some (p, b')" and q: "live b q"
  shows "live b' q" "block_pages b' q = block_pages b q" "ref_cnt b' ! q = ref_cnt b ! q"
proof -
  obtain k where r: "unat (request_pages r) = 2 ^ k" using request_pow2 [OF run inv] .
  have "2 ^ k \<le> bitmap b ! 0" using buddy_alloc_none [OF inv, of r] run r by fastforce
  from buddy_alloc_effect [OF inv r this] obtain j where
    j: "p = node_first (bsize b) j" "bsize b' = bsize b" "ref_cnt b' = (ref_cnt b)[p := 1]"
    "blocks (bsize b) (bitmap b') = insert j (blocks (bsize b) (bitmap b))"
    using run by auto
  have "ref_cnt b ! p = 0"
    by (rule free_run_not_live [OF inv alloc_contractD(1) [OF inv r refl run]]) simp
  then have pq: "p \<noteq> q" using q by (auto simp: live_def)
  then show "ref_cnt b' ! q = ref_cnt b ! q" by (simp add: j(3))
  then show "live b' q" using q by (simp add: live_def j(2))
  show "block_pages b' q = block_pages b q" using pq j(1) by (auto simp: block_pages_def j(2,4))
qed

lemma decref_keeps_live:
  assumes inv: "buddy_inv b" and run: "buddy_pfn_decref p b = Some b'" and p: "live b p"
  shows "buddy_inv b'" "bsize b' = bsize b" "ref_cnt b' ! p = ref_cnt b ! p - 1"
    "\<And>q. live b q \<Longrightarrow> q \<noteq> p \<Longrightarrow> live b' q \<and> block_pages b' q = block_pages b q \<and> ref_cnt b' ! q = ref_cnt b ! q"
    "used_pages b - block_pages b p \<subseteq> used_pages b'"
proof -
  have len: "p < length (ref_cnt b)" and pb: "p < bsize b"
    using buddy_invD [OF inv] p unfolding live_def by metis+
  have "buddy_inv b' \<and> bsize b' = bsize b" by (rule buddy_decref_inv [OF inv run])
  then show "buddy_inv b'" "bsize b' = bsize b" by simp_all
  have *: "ref_cnt b' ! p = ref_cnt b ! p - 1 \<and>
    (\<forall>q. live b q \<longrightarrow> q \<noteq> p \<longrightarrow> live b' q \<and> block_pages b' q = block_pages b q \<and> ref_cnt b' ! q = ref_cnt b ! q) \<and>
    used_pages b - block_pages b p \<subseteq> used_pages b'"
  proof (cases "ref_cnt b ! p = 1")
    case True
    obtain b1 where b1: "buddy_pfn_decref p b = Some b1" "bsize b1 = bsize b"
      "used_pages b1 = used_pages b - block_pages b p" "ref_cnt b1 = (ref_cnt b)[p := 0]"
      "blocks (bsize b) (bitmap b1) = {w \<in> blocks (bsize b) (bitmap b). node_first (bsize b) w \<noteq> p}"
      using decref_last_frees [OF inv pb True] by blast
    have b': "b' = b1" using b1(1) run by simp
    have "block_pages b' q = block_pages b q" if "q \<noteq> p" for q
      using that by (auto simp: block_pages_def b' b1(2,5))
    then show ?thesis using True len by (auto simp: b' b1(2-4) live_def)
  next
    case False
    then have "1 < ref_cnt b ! p" using p by (auto simp: live_def)
    then have b': "b' = b\<lparr>ref_cnt := (ref_cnt b)[p := ref_cnt b ! p - 1]\<rparr>"
      using decref_shared [OF inv pb] run by simp
    show ?thesis using len by (auto simp: b' live_def block_pages_def used_pages_def)
  qed
  show "ref_cnt b' ! p = ref_cnt b ! p - 1" "used_pages b - block_pages b p \<subseteq> used_pages b'"
    using * by simp_all
  show "live b' q \<and> block_pages b' q = block_pages b q \<and> ref_cnt b' ! q = ref_cnt b ! q"
    if "live b q" "q \<noteq> p" for q using * that by blast
qed

end
