(* ===== verification/Buddy_Boot.thy ===== *)
theory Buddy_Boot
  imports Buddy_Props
begin

text \<open>
  The allocator after \<open>buddy_init\<close>: the loop that fills the bitmap gives every node its own size,
  and the reservation loop takes exactly the frames below the first free page.
\<close>

definition fresh_buddy :: "nat \<Rightarrow> buddy" where
  "fresh_buddy K = \<lparr>bitmap = map (nsz (2 ^ K)) [0 ..< 2 * 2 ^ K - 1] @ [0],
                    ref_cnt = replicate (2 ^ K) 0, bsize = 2 ^ K\<rparr>"

lemma full_tree:
  assumes "length bm = 2 * 2 ^ K" "\<And>i. i < 2 * 2 ^ K - 1 \<Longrightarrow> bm ! i = nsz (2 ^ K) i"
  shows "tree_ok (2 ^ K) bm" "blocks (2 ^ K) bm = {}"
proof -
  have "node_ok (2 ^ K) bm i" if i: "i < 2 * 2 ^ K - 1" for i
  proof (cases "nsz (2 ^ K) i = 1")
    case True
    then show ?thesis using assms(2) [OF i] by (simp add: node_ok_def)
  next
    case False
    note ci = children_in [OF i False]
    show ?thesis
      using False assms(2) [OF i] assms(2) [OF ci(1)] assms(2) [OF ci(2)] nsz_even [OF i False]
      by (simp add: node_ok_def comb_def)
  qed
  then show "tree_ok (2 ^ K) bm" using assms(1) by (simp add: tree_ok_def)
  show "blocks (2 ^ K) bm = {}" using assms(2) nsz_pos by (fastforce simp: blocks_def is_block_def)
qed

lemma full_inv:
  assumes "length bm = 2 * 2 ^ K" "\<And>i. i < 2 * 2 ^ K - 1 \<Longrightarrow> bm ! i = nsz (2 ^ K) i" "K \<le> 24"
  shows "buddy_inv \<lparr>bitmap = bm, ref_cnt = replicate (2 ^ K) 0, bsize = 2 ^ K\<rparr>"
    "used_pages \<lparr>bitmap = bm, ref_cnt = replicate (2 ^ K) 0, bsize = 2 ^ K\<rparr> = {}"
  using full_tree [OF assms(1,2)] assms(3) by (auto simp: buddy_inv_def used_pages_def)

lemma fresh_nth:
  "i < 2 * 2 ^ K - 1 \<Longrightarrow> (map (nsz (2 ^ K)) [0 ..< 2 * 2 ^ K - 1] @ [0]) ! i = nsz (2 ^ K) i"
  by (simp add: nth_append)

lemma fresh_inv: "K \<le> 24 \<Longrightarrow> buddy_inv (fresh_buddy K)" "used_pages (fresh_buddy K) = {}"
proof -
  have len: "length (map (nsz (2 ^ K)) [0 ..< 2 * 2 ^ K - 1] @ [0]) = 2 * 2 ^ K" by simp
  show "K \<le> 24 \<Longrightarrow> buddy_inv (fresh_buddy K)"
    unfolding fresh_buddy_def by (rule full_inv(1) [OF len fresh_nth])
  show "used_pages (fresh_buddy K) = {}"
    using full_tree(2) [OF len fresh_nth] by (simp add: used_pages_def fresh_buddy_def)
qed

subsection \<open>The loop over the nodes\<close>

lemma power_of_2_index:
  assumes "k + 1 < 2 ^ 64"
  shows "IS_POWER_OF_2 (of_nat (k + 1)) \<longleftrightarrow> (\<exists>d. k + 1 = 2 ^ d)"
proof
  have u: "unat (of_nat (k + 1) :: u64) = k + 1"
    using assms by (simp only: unsigned_of_nat) (simp add: take_bit_nat_eq_self)
  assume "IS_POWER_OF_2 (of_nat (k + 1))"
  moreover have "(of_nat (k + 1) :: u64) \<noteq> 0" using u by (metis add_is_0 one_neq_zero unsigned_0)
  ultimately obtain m where "m < 64" "(of_nat (k + 1) :: u64) = 2 ^ m" using is_power_of_2D by blast
  then show "\<exists>d. k + 1 = 2 ^ d" using u unat_exp_u64 by metis
next
  assume "\<exists>d. k + 1 = 2 ^ d"
  then obtain d where "k + 1 = 2 ^ d" by blast
  then have "(of_nat (k + 1) :: u64) = 2 ^ d" by simp
  then show "IS_POWER_OF_2 (of_nat (k + 1))" by (simp only: is_power_of_2_exp)
qed

lemma nsz_next:
  assumes "k < 2 * 2 ^ K - 1" "K \<le> 24"
  shows "(if IS_POWER_OF_2 (of_nat (k + 1)) then (if k = 0 then 2 * 2 ^ K else nsz (2 ^ K) (k - 1)) div 2
          else if k = 0 then 2 * 2 ^ K else nsz (2 ^ K) (k - 1)) = nsz (2 ^ K) k"
proof -
  have "(2::nat) ^ K \<le> 2 ^ 24" using assms(2) by (intro power_increasing) simp_all
  then have "k + 1 < 2 ^ 64" using assms(1) by simp
  note pow = power_of_2_index [OF this]
  obtain d where d: "d \<le> K" "2 ^ d \<le> k + 1" "k + 1 < 2 ^ Suc d" "nsz (2 ^ K) k = 2 ^ (K - d)"
    using assms(1) by (rule node_level)
  show ?thesis
  proof (cases "k + 1 = 2 ^ d")
    case first: True
    then have p: "IS_POWER_OF_2 (of_nat (k + 1))" using pow by blast
    show ?thesis
    proof (cases d)
      case 0
      then show ?thesis using first p by simp
    next
      case (Suc e)
      have "(2::nat) ^ d = 2 * 2 ^ e" using Suc by simp
      then have "even (k + 1)" using first by simp
      then have k: "k \<noteq> 0" by (cases k) auto
      have "nsz (2 ^ K) (k - 1) = 2 ^ (K - e)"
        by (rule nsz_level) (use first Suc d(1) k in auto)
      moreover have "K - e = Suc (K - d)" using Suc d(1) by simp
      ultimately show ?thesis using p k d(4) by simp
    qed
  next
    case False
    have np: "\<not> IS_POWER_OF_2 (of_nat (k + 1))"
    proof
      assume "IS_POWER_OF_2 (of_nat (k + 1))"
      then obtain e where e: "k + 1 = 2 ^ e" using pow by blast
      have "d \<le> e" using d(2) e by (metis one_less_numeral_iff power_le_imp_le_exp semiring_norm(76))
      moreover have "e < Suc d" using d(3) e by (metis one_less_numeral_iff power_less_imp_less_exp semiring_norm(76))
      ultimately show False using False e by simp
    qed
    have k: "k \<noteq> 0" using False d by (cases d) auto
    have "nsz (2 ^ K) (k - 1) = 2 ^ (K - d)"
      by (rule nsz_level) (use False d k in auto)
    then show ?thesis using np k d(4) by simp
  qed
qed

lemma init_loop:
  assumes "K \<le> 24"
  shows "\<exists>ns bm. for_range 0 (2 * 2 ^ K - 1) init_node (2 * 2 ^ K, replicate (2 * 2 ^ K) 0) = Some (ns, bm) \<and>
           length bm = 2 * 2 ^ K \<and> (\<forall>i < 2 * 2 ^ K - 1. bm ! i = nsz (2 ^ K) i)"
proof -
  define P where "P = (\<lambda>k (st :: nat \<times> nat list).
     fst st = (if k = 0 then 2 * 2 ^ K else nsz (2 ^ K) (k - 1)) \<and> length (snd st) = 2 * 2 ^ K \<and>
     (\<forall>i < k. snd st ! i = nsz (2 ^ K) i))"
  have "\<exists>t. for_range 0 (2 * 2 ^ K - 1) init_node (2 * 2 ^ K, replicate (2 * 2 ^ K) 0) = Some t \<and>
          P (2 * 2 ^ K - 1) t"
  proof (rule for_range_total)
    show "P 0 (2 * 2 ^ K, replicate (2 * 2 ^ K) 0)" by (simp add: P_def)
    fix k u assume k: "k < 2 * 2 ^ K - 1" and P: "P k u"
    obtain ns bm where u: "u = (ns, bm)" by (cases u)
    have "(if IS_POWER_OF_2 (of_nat (k + 1)) then ns div 2 else ns) = nsz (2 ^ K) k"
      using nsz_next [OF k assms] P by (simp only: P_def u fst_conv snd_conv)
    then have "init_node k u = Some (nsz (2 ^ K) k, bm[k := nsz (2 ^ K) k])"
      using k P by (simp only: init_node_def u Let_def case_prod_conv wr_in P_def snd_conv bind.bind_lunit)
    then show "\<exists>v. init_node k u = Some v \<and> P (Suc k) v"
      using k P by (simp add: u P_def nth_list_update less_Suc_eq)
  qed simp
  then show ?thesis by (auto simp: P_def)
qed

subsection \<open>The reservation of the kernel's own pages\<close>

lemma request_one [simp]: "unat (request_pages 1) = 2 ^ 0"
  by (simp add: request_pages_def IS_POWER_OF_2_def)

lemma reserve_ok:
  assumes "buddy_inv b" "used_pages b = {..<i}" "i + m \<le> bsize b"
  shows "\<exists>b'. buddy_reserve m b = Some b' \<and> buddy_inv b' \<and> bsize b' = bsize b \<and> used_pages b' = {..<i + m}"
  using assms
proof (induction m arbitrary: b i)
  case 0
  then show ?case by simp
next
  case (Suc m)
  have free: "free_run b (2 ^ 0) i" using Suc.prems by (simp add: free_run_def)
  then obtain p b1 where a: "buddy_alloc 1 b = Some (p, b1)"
    using alloc_contract_ok [OF Suc.prems(1) request_one] unfolding alloc_contract_def
    by (cases "buddy_alloc 1 b") fastforce+
  note A = alloc_contractD [OF Suc.prems(1) request_one refl a]
  have "p \<le> i" by (rule A(2) [OF free])
  moreover have "\<not> p < i" using A(1) Suc.prems(2) by (auto simp: free_run_def)
  ultimately have p: "p = i" by simp
  have "used_pages b1 = insert i {..<i}" using A(5) Suc.prems(2) by (simp add: p)
  then have u: "used_pages b1 = {..<Suc i}" by (simp add: lessThan_Suc)
  have "Suc i + m \<le> bsize b1" using Suc.prems(3) A(4) by simp
  from Suc.IH [OF A(3) u this] obtain b' where "buddy_reserve m b1 = Some b'" "buddy_inv b'"
    "bsize b' = bsize b1" "used_pages b' = {..<Suc i + m}" by blast
  then show ?case using a A(4) by simp
qed

lemma buddy_init_ok:
  assumes "K \<le> 24" "unat (phy_size div PGSIZE) = 2 ^ K"
    and "start2 = start + 2 * (phy_size div PGSIZE) * 8 + (phy_size div PGSIZE) * 8"
    and "pfn_of_va start2 \<le> 2 ^ K"
  shows "\<exists>b. buddy_init_at phy_size start = Some (b, start2) \<and> buddy_inv b \<and> bsize b = 2 ^ K \<and>
           used_pages b = {..<pfn_of_va start2}"
proof -
  have "K < 64" using assms(1) by simp
  then have "phy_size div PGSIZE = 2 ^ K"
    using assms(2) unat_exp_u64 [of K] by (simp only: word_unat_eq_iff)
  then have p2: "IS_POWER_OF_2 (phy_size div PGSIZE)" by (simp only: is_power_of_2_exp)
  obtain ns bm where bm: "for_range 0 (2 * 2 ^ K - 1) init_node (2 * 2 ^ K, replicate (2 * 2 ^ K) 0) = Some (ns, bm)"
    "length bm = 2 * 2 ^ K" "\<And>i. i < 2 * 2 ^ K - 1 \<Longrightarrow> bm ! i = nsz (2 ^ K) i"
    using init_loop [OF assms(1)] by blast
  note F = full_inv [OF bm(2,3) assms(1)]
  obtain b where b: "buddy_reserve (pfn_of_va start2) \<lparr>bitmap = bm, ref_cnt = replicate (2 ^ K) 0, bsize = 2 ^ K\<rparr> = Some b"
    "buddy_inv b" "bsize b = 2 ^ K" "used_pages b = {..<pfn_of_va start2}"
    using reserve_ok [OF F(1), of 0 "pfn_of_va start2"] F(2) assms(4) by auto
  have "buddy_init_at phy_size start = Some (b, start2)"
    using bm(1) b(1) p2 by (simp add: buddy_init_at_def Let_def assms(2) assms(3) pfn_of_va_def)
  then show ?thesis using b by blast
qed

end
