(* ===== verification/Buddy_Claims.thy ===== *)
theory Buddy_Claims
  imports Buddy_Boot
begin

text \<open>
  The properties of the page allocator, and the interface \<open>page_source\<close> it provides to the page
  tables: every page it hands out is page aligned and not owned by anyone else.
\<close>

subsection \<open>The interface of the page allocator\<close>

locale page_source =
  fixes get_page :: "'s \<Rightarrow> (u64 \<times> 's) option"
    and src_inv :: "'s \<Rightarrow> bool"
    and owned :: "'s \<Rightarrow> u64 set"
  assumes get_inv: "src_inv s \<Longrightarrow> get_page s = Some (p, s') \<Longrightarrow> src_inv s'"
    and get_fresh: "src_inv s \<Longrightarrow> get_page s = Some (p, s') \<Longrightarrow> p \<notin> owned s"
    and get_owned: "src_inv s \<Longrightarrow> get_page s = Some (p, s') \<Longrightarrow> owned s' = insert p (owned s)"
    and owned_aligned: "src_inv s \<Longrightarrow> p \<in> owned s \<Longrightarrow> page_aligned p"

text \<open>\<open>get_pages n\<close> calls the allocator \<open>n\<close> times, as the kernel does when it builds page tables.\<close>

fun get_pages :: "('s \<Rightarrow> (u64 \<times> 's) option) \<Rightarrow> nat \<Rightarrow> 's \<Rightarrow> (u64 list \<times> 's) option" where
  "get_pages get 0 s = Some ([], s)"
| "get_pages get (Suc n) s =
     do { (p, s1) \<leftarrow> get s; (ps, s2) \<leftarrow> get_pages get n s1; Some (p # ps, s2) }"

context page_source begin

lemma get_pages_fresh:
  "src_inv s \<Longrightarrow> get_pages get_page n s = Some (ps, s') \<Longrightarrow>
     src_inv s' \<and> distinct ps \<and> set ps \<inter> owned s = {} \<and> owned s' = set ps \<union> owned s"
proof (induction n arbitrary: s ps)
  case 0
  then show ?case by simp
next
  case (Suc n)
  obtain p s1 qs where p: "get_page s = Some (p, s1)" "get_pages get_page n s1 = Some (qs, s')" "ps = p # qs"
    using Suc.prems(2) by (auto split: Option.bind_splits)
  note P = get_inv [OF Suc.prems(1) p(1)] get_fresh [OF Suc.prems(1) p(1)] get_owned [OF Suc.prems(1) p(1)]
  from Suc.IH [OF P(1) p(2)] show ?case using P(2,3) p(3) by auto
qed

lemma new_page_words_apart:
  assumes "src_inv s" "get_page s = Some (p, s')" "q \<in> owned s" "i < 512" "j < 512"
  shows "p + 8 * of_nat i \<noteq> q + 8 * of_nat j"
proof
  have "p \<in> owned s'" using get_owned [OF assms(1,2)] by simp
  then have "page_aligned p" by (rule owned_aligned [OF get_inv [OF assms(1,2)]])
  moreover have "page_aligned q" by (rule owned_aligned [OF assms(1,3)])
  moreover assume "p + 8 * of_nat i = q + 8 * of_nat j"
  ultimately have "p = q" using aligned_offset_inj assms(4,5) by blast
  then show False using get_fresh [OF assms(1,2)] assms(3) by blast
qed

lemma get_pages_words_apart:
  assumes "src_inv s" "get_pages get_page n s = Some (ps, s')" "a < length ps" "b < length ps"
    and "i < 512" "j < 512" "ps ! a + 8 * of_nat i = ps ! b + 8 * of_nat j"
  shows "a = b \<and> i = j"
proof -
  note F = get_pages_fresh [OF assms(1,2)]
  then have "ps ! a \<in> owned s'" "ps ! b \<in> owned s'" using assms(3,4) by simp_all
  then have "page_aligned (ps ! a)" "page_aligned (ps ! b)" using owned_aligned F by blast+
  then have "ps ! a = ps ! b \<and> i = j" using aligned_offset_inj assms(5-7) by blast
  then show ?thesis using F assms(3,4) nth_eq_iff_index_eq by blast
qed

end

definition owned_pages :: "buddy \<Rightarrow> u64 set" where
  "owned_pages b = va_of ` used_pages b"

lemma used_pages_bound: "buddy_inv b \<Longrightarrow> p \<in> used_pages b \<Longrightarrow> p < bsize b"
  by (erule buddy_invD) (use node_pages_bound in \<open>fastforce simp: used_pages_def blocks_def\<close>)

lemma bsize_le: "buddy_inv b \<Longrightarrow> bsize b \<le> 2 ^ 24"
  by (erule buddy_invD) (metis one_le_numeral power_increasing)

lemma alloc_page_SomeE:
  assumes "buddy_inv b" "alloc_page b = Some (va, b')"
  obtains p where "va = va_of p" "p < bsize b" "p \<notin> used_pages b" "buddy_inv b'" "bsize b' = bsize b"
    "used_pages b' = insert p (used_pages b)" "ref_cnt b' = (ref_cnt b)[p := 1]"
proof -
  obtain p where p: "buddy_alloc 1 b = Some (p, b')" "va = va_of p"
    using assms(2) by (auto simp: alloc_page_def elim: alloc_pages_SomeE)
  note A = alloc_contractD [OF assms(1) request_one refl p(1)]
  show thesis by (rule that [OF p(2)]) (use A in \<open>auto simp: free_run_def\<close>)
qed

interpretation frames: page_source alloc_page buddy_inv owned_pages
proof
  fix b p b' assume b: "buddy_inv b" "alloc_page b = Some (p, b')"
  from alloc_page_SomeE [OF b] obtain f where f: "p = va_of f" "f < bsize b" "f \<notin> used_pages b"
    "buddy_inv b'" "used_pages b' = insert f (used_pages b)" by metis
  show "buddy_inv b'" by (rule f(4))
  show "owned_pages b' = insert p (owned_pages b)" by (simp add: owned_pages_def f(1,5))
  show "p \<notin> owned_pages b"
  proof
    assume "p \<in> owned_pages b"
    then obtain g where g: "g \<in> used_pages b" "va_of f = va_of g" by (auto simp: owned_pages_def f(1))
    have "g < bsize b" by (rule used_pages_bound [OF b(1) g(1)])
    with f(2) bsize_le [OF b(1)] have "f < 2 ^ 52" "g < 2 ^ 52" by simp_all
    from va_of_inj [OF g(2) this] show False using g(1) f(3) by simp
  qed
next
  fix b p assume "buddy_inv b" "p \<in> owned_pages b"
  then show "page_aligned p" by (auto simp: owned_pages_def va_of_aligned)
qed

subsection \<open>Properties\<close>

text \<open>The states of the witnesses: eight page frames, and the same after one request for 3 pages.\<close>

definition demo_buddy :: buddy where
  "demo_buddy = \<lparr>bitmap = [8, 4, 4, 2, 2, 2, 2, 1, 1, 1, 1, 1, 1, 1, 1, 0], ref_cnt = [0, 0, 0, 0, 0, 0, 0, 0], bsize = 8\<rparr>"

definition demo_buddy' :: buddy where
  "demo_buddy' = \<lparr>bitmap = [4, 0, 4, 2, 2, 2, 2, 1, 1, 1, 1, 1, 1, 1, 1, 0],
                  ref_cnt = [1, 0, 0, 0, 0, 0, 0, 0], bsize = 8\<rparr>"

lemma demo_fresh: "demo_buddy = fresh_buddy 3"
  by code_simp

lemma demo_inv: "buddy_inv demo_buddy"
  unfolding demo_fresh by (rule fresh_inv) simp

lemma demo_alloc: "buddy_alloc 3 demo_buddy = Some (0, demo_buddy')"
  by (simp add: buddy_alloc_def request_pages_def IS_POWER_OF_2_def fixsize_def demo_buddy_def
      demo_buddy'_def alloc_descend.simps alloc_update.simps rd_def wr_def LEFT_LEAF_def RIGHT_LEAF_def
      PARENT_def Let_def)

lemma demo_inv': "buddy_inv demo_buddy'"
  using buddy_alloc_inv [OF demo_inv demo_alloc] by simp

text \<open>
  C1. What a request to the buddy allocator returns. A request for at most \<open>2 ^ 63\<close> pages is rounded
  up to \<open>n = request_pages r\<close> pages. When no aligned run of \<open>n\<close> unallocated pages exists the call does
  not return (the kernel shuts the machine down). Otherwise it returns the leftmost such run, marks exactly
  its pages as used, sets the reference count of its first frame to 1, changes no other count, and
  keeps the invariant of the tree.
\<close>

theorem buddy_alloc_correct:
  assumes "buddy_inv b" and "unat r \<le> 2 ^ 63" and "n = unat (request_pages r)"
  shows "case buddy_alloc r b of
           None \<Rightarrow> \<forall>q. \<not> free_run b n q
         | Some (p, b') \<Rightarrow> free_run b n p \<and> (\<forall>q. free_run b n q \<longrightarrow> p \<le> q) \<and> buddy_inv b' \<and>
             bsize b' = bsize b \<and> used_pages b' = used_pages b \<union> {p ..< p + n} \<and>
             ref_cnt b' = (ref_cnt b)[p := 1]"
proof -
  obtain k where k: "unat (request_pages r) = 2 ^ k" using request_pages_ok [OF assms(2)] by metis
  have n: "n = 2 ^ k" using k assms(3) by simp
  from alloc_contract_ok [OF assms(1) k] show ?thesis unfolding alloc_contract_def n .
qed

theorem buddy_alloc_correct_witness:
  "buddy_alloc 3 demo_buddy = Some (0, demo_buddy') \<and> buddy_inv demo_buddy' \<and>
   used_pages demo_buddy' = used_pages demo_buddy \<union> {0 ..< 4}"
proof -
  have r: "4 = unat (request_pages 3)" by code_simp
  have "unat (3 :: u64) \<le> 2 ^ 63" by simp
  from buddy_alloc_correct [OF demo_inv this r] show ?thesis by (simp only: demo_alloc option.case prod.case) auto
qed

text \<open>
  The request size: \<open>fixsize\<close> gives the least power of two that is not below its argument, for
  every argument from 1 to \<open>2 ^ 63\<close>; above that the last addition overflows and it gives 0.
\<close>

theorem fixsize_least_power:
  "if unat x > 2 ^ 63 then fixsize x = 0
   else x = 0 \<or> (\<exists>m < 64. unat (fixsize x) = 2 ^ m \<and> unat x \<le> 2 ^ m \<and> 2 ^ m < 2 * unat x)"
proof (cases "unat x > 2 ^ 63")
  case True
  then show ?thesis by (simp add: fixsize_overflow)
next
  case False
  show ?thesis
  proof (cases "x = 0")
    case nz: False
    have pos: "0 < unat x" using nz by (simp add: unat_gt_0)
    have le: "unat x \<le> 2 ^ 63" using False by simp
    obtain m where "m < 64" "unat (fixsize x) = 2 ^ m" "unat x \<le> 2 ^ m" "2 ^ m < 2 * unat x"
      by (rule fixsize_ok [OF pos le])
    then have "\<exists>m < 64. unat (fixsize x) = 2 ^ m \<and> unat x \<le> 2 ^ m \<and> 2 ^ m < 2 * unat x" by blast
    then show ?thesis using False by (simp only: if_False simp_thms)
  qed (use False in simp)
qed

text \<open>
  C4. Dropping the last reference to a block through \<open>deref_page\<close> returns 0 and frees exactly the
  pages of that block; dropping one of several references changes only the count; an address that is
  not the start of a live block is refused with -1 and changes nothing.
\<close>

theorem deref_page_correct:
  assumes "buddy_inv b" and "p < bsize b" and "p = pfn_of_va va"
  shows "if ref_cnt b ! p = 0 then deref_page va b = Some (-1, b)
         else if ref_cnt b ! p > 1 then deref_page va b = Some (0, b\<lparr>ref_cnt := (ref_cnt b)[p := ref_cnt b ! p - 1]\<rparr>)
         else \<exists>b'. deref_page va b = Some (0, b') \<and> buddy_inv b' \<and>
                used_pages b' = used_pages b - block_pages b p \<and> ref_cnt b' = (ref_cnt b)[p := 0]"
proof -
  have len: "p < length (ref_cnt b)" using buddy_invD [OF assms(1)] assms(2) by metis
  have "\<exists>b'. buddy_pfn_decref p b = Some b' \<and> buddy_inv b' \<and> used_pages b' = used_pages b - block_pages b p \<and>
          ref_cnt b' = (ref_cnt b)[p := 0]" if "ref_cnt b ! p = 1"
    using decref_last_frees [OF assms(1,2) that] by blast
  then show ?thesis
    using len decref_shared [OF assms(1,2)] by (auto simp: deref_page_def simp flip: assms(3))
qed

theorem deref_page_correct_witness:
  "\<exists>b'. deref_page (va_of 0) demo_buddy' = Some (0, b') \<and> buddy_inv b' \<and>
     used_pages b' = used_pages demo_buddy' - block_pages demo_buddy' 0"
proof -
  have "0 < bsize demo_buddy'" "0 = pfn_of_va (va_of 0)" "ref_cnt demo_buddy' ! 0 = 1"
    by (simp_all add: demo_buddy'_def pfn_of_va_def va_of_def kdefs PA2VA_def PFN2PHYS_def VA2PA_def PHYS2PFN_def)
  with deref_page_correct [OF demo_inv' this(1,2)] show ?thesis by auto
qed

text \<open>
  C3. Releasing a block right after it was allocated restores the allocator: the reference counts,
  the set of used pages and the entry of every tree node are what they were before the request, so
  splitting and merging of buddies are inverse to each other.
\<close>

theorem buddy_alloc_release_restores:
  assumes "buddy_inv b" and "buddy_alloc r b = Some (p, b')"
  shows "\<exists>b''. buddy_pfn_decref p b' = Some b'' \<and> ref_cnt b'' = ref_cnt b \<and> used_pages b'' = used_pages b \<and>
           (\<forall>i < 2 * bsize b - 1. bitmap b'' ! i = bitmap b ! i)"
proof -
  obtain k where k: "unat (request_pages r) = 2 ^ k" using request_pow2 [OF assms(2,1)] .
  from alloc_then_release [OF assms(1) k assms(2)] show ?thesis by blast
qed

theorem buddy_alloc_release_restores_witness:
  "\<exists>b''. buddy_pfn_decref 0 demo_buddy' = Some b'' \<and> ref_cnt b'' = ref_cnt demo_buddy \<and>
     (\<forall>i < 15. bitmap b'' ! i = bitmap demo_buddy ! i)"
  using buddy_alloc_release_restores [OF demo_inv demo_alloc] by (auto simp: demo_buddy_def)



text \<open>
  C5. After \<open>buddy_init\<close>, on a machine with a power of two of page frames, the invariant holds and
  the used pages are exactly those below the end of the kernel image and the allocator's own arrays
  (\<open>free_page_start\<close>): the kernel never hands out its own memory.
\<close>

theorem buddy_init_reserves_kernel:
  assumes "K \<le> 24" and "unat (phy_size div PGSIZE) = 2 ^ K"
    and "start2 = start + 2 * (phy_size div PGSIZE) * 8 + (phy_size div PGSIZE) * 8"
    and "pfn_of_va start2 \<le> 2 ^ K"
  shows "\<exists>b. buddy_init_at phy_size start = Some (b, start2) \<and> buddy_inv b \<and> bsize b = 2 ^ K \<and>
           used_pages b = {..<pfn_of_va start2}"
  by (rule buddy_init_ok [OF assms])

text \<open>The witness is the kernel's configuration: 128 MiB, with the image ending 1 MiB above the load address.\<close>

theorem buddy_init_reserves_kernel_witness:
  "\<exists>b. buddy_init 0xffffffe000300000 = Some (b, 0xffffffe0003c0000) \<and> buddy_inv b \<and> bsize b = 32768 \<and>
     used_pages b = {..<960}"
proof -
  have "pfn_of_va 0xffffffe0003c0000 = 960"
    by (simp add: pfn_of_va_def VA2PA_def PHYS2PFN_def kdefs)
  then show ?thesis
    using buddy_init_reserves_kernel [of 15 PHY_SIZE "0xffffffe0003c0000" "0xffffffe000300000"]
    by (simp add: buddy_init_def kdefs)
qed

text \<open>
  C7. \<open>free_pages\<close> never releases a page that is in use: allocation leaves the reference count of the
  block at 1, and \<open>free_pages\<close> returns without effect while the count is not 0. Memory handed out by
  \<open>alloc_pages\<close> is only released through \<open>deref_page\<close>.
\<close>

theorem free_pages_of_live_block_is_noop:
  assumes "buddy_inv b" and "alloc_pages r b = Some (va, b')"
  shows "free_pages va b' = Some b' \<and> live b' (pfn_of_va va)"
proof -
  obtain p where p: "buddy_alloc r b = Some (p, b')" "va = va_of p" using assms(2) by (rule alloc_pages_SomeE)
  obtain k where k: "unat (request_pages r) = 2 ^ k" using request_pow2 [OF p(1) assms(1)] .
  note A = alloc_contractD [OF assms(1) k refl p(1)]
  have "(1::nat) \<le> 2 ^ k" by simp
  then have lt: "p < bsize b" using A(1) unfolding free_run_def by linarith
  then have "p < 2 ^ 52" using bsize_le [OF assms(1)] by simp
  then have pfn: "pfn_of_va va = p" using pfn_va_of by (simp add: pfn_of_va_def p(2))
  have "p < length (ref_cnt b)" using buddy_invD [OF assms(1)] lt by metis
  then have "live b' p" using A(4,6) lt by (simp add: live_def)
  then show ?thesis using free_live_noop [OF A(3)] pfn by (simp add: free_pages_def)
qed

theorem free_pages_of_live_block_is_noop_witness:
  "free_pages (va_of 0) demo_buddy' = Some demo_buddy'"
proof -
  have "alloc_pages 3 demo_buddy = Some (va_of 0, demo_buddy')"
    by (simp add: alloc_pages_def demo_alloc va_of_def)
  from free_pages_of_live_block_is_noop [OF demo_inv this] show ?thesis by simp
qed

text \<open>
  C6. The pages the kernel obtains by any number of calls of \<open>alloc_page\<close> are pairwise different and
  were not owned before, and no two of their 64-bit words have the same address: a table or a stack
  written in one of them never changes another.
\<close>

theorem alloc_page_words_apart:
  assumes "buddy_inv b" and "get_pages alloc_page n b = Some (ps, b')"
    and "a < length ps" and "c < length ps" and "i < 512" and "j < 512"
    and "ps ! a + 8 * of_nat i = ps ! c + 8 * of_nat j"
  shows "a = c \<and> i = j \<and> set ps \<inter> owned_pages b = {}"
  using frames.get_pages_words_apart [OF assms] frames.get_pages_fresh [OF assms(1,2)] by blast

theorem alloc_page_words_apart_witness:
  "\<exists>ps b'. get_pages alloc_page 2 demo_buddy = Some (ps, b') \<and> length ps = 2 \<and>
     set ps \<inter> owned_pages demo_buddy = {}"
proof -
  define res where "res = get_pages alloc_page 2 demo_buddy"
  have r: "map_option (length \<circ> fst) (get_pages alloc_page 2 demo_buddy) = Some 2" by code_simp
  then obtain ps b' where ps: "get_pages alloc_page 2 demo_buddy = Some (ps, b')" "length ps = 2" by auto
  from alloc_page_words_apart [OF demo_inv ps(1), of 0 0 0 0] ps show ?thesis by auto
qed

end
