(* ===== verification/PageTable.thy ===== *)
theory PageTable
  imports Buddy_Claims
begin

unbundle bit_operations_syntax

text \<open>
  The Sv39 page tables of \<open>arch/riscv/kernel/vm.c\<close> and \<open>vm.h\<close>. The state is the memory, read and
  written in 64-bit words at their byte address, and the page allocator. Tables are pages of 512
  entries, so \<open>pgtbl[i]\<close> is the word at \<open>pgtbl + 8 i\<close>; the three-level trees alias each other
  through that memory exactly as in the kernel. The progress messages printed by the functions are
  not part of the state.
\<close>

definition SV39_PTE_V :: u64 where [kdefs]: "SV39_PTE_V = 0x1"
definition SV39_PTE_R :: u64 where [kdefs]: "SV39_PTE_R = 0x2"
definition SV39_PTE_W :: u64 where [kdefs]: "SV39_PTE_W = 0x4"
definition SV39_PTE_X :: u64 where [kdefs]: "SV39_PTE_X = 0x8"
definition SV39_PTE_U :: u64 where [kdefs]: "SV39_PTE_U = 0x10"
definition SV39_PTE_A :: u64 where [kdefs]: "SV39_PTE_A = 0x40"
definition SV39_PTE_D :: u64 where [kdefs]: "SV39_PTE_D = 0x80"
definition SV39_PTE_S :: u64 where [kdefs]: "SV39_PTE_S = 0x100"
definition SV39_PTE_PPN_BEGIN :: nat where [kdefs]: "SV39_PTE_PPN_BEGIN = 10"
definition SV39_PTE_PPN_END :: nat where [kdefs]: "SV39_PTE_PPN_END = 53"
definition SV39_VPN_LEN :: nat where [kdefs]: "SV39_VPN_LEN = 9"
definition VIRTIO_START :: u64 where [kdefs]: "VIRTIO_START = 0x10001000"
definition VIRTIO_SIZE :: u64 where [kdefs]: "VIRTIO_SIZE = 0x1000"
definition VIRTIO_COUNT :: u64 where [kdefs]: "VIRTIO_COUNT = 8"
definition IOMAP_OFFSET :: u64 where [kdefs]: "IOMAP_OFFSET = 0xffffffc800000000"
definition SATP_MODE :: u64 where [kdefs]: "SATP_MODE = 0x8000000000000000"

definition GET_SUBBITMAP :: "u64 \<Rightarrow> nat \<Rightarrow> nat \<Rightarrow> u64" where
  "GET_SUBBITMAP bits low high = drop_bit low bits AND (push_bit (high - low + 1) 1 - 1)"

definition TRUNCATE :: "u64 \<Rightarrow> nat \<Rightarrow> u64" where
  "TRUNCATE bits num_bits = bits AND (push_bit num_bits 1 - 1)"

definition SV39_PTE :: "u64 \<Rightarrow> u64 \<Rightarrow> u64" where
  "SV39_PTE ppn perm = TRUNCATE (push_bit SV39_PTE_PPN_BEGIN ppn OR perm) (SV39_PTE_PPN_END + 1)"

definition SV39_GET_PERM :: "u64 \<Rightarrow> u64" where
  "SV39_GET_PERM pte = TRUNCATE pte SV39_PTE_PPN_BEGIN"

definition SV39_GET_PPN :: "u64 \<Rightarrow> u64" where
  "SV39_GET_PPN pte = GET_SUBBITMAP pte SV39_PTE_PPN_BEGIN SV39_PTE_PPN_END"

definition PPN2PHYS :: "u64 \<Rightarrow> u64" where "PPN2PHYS x = push_bit 12 x"
definition PHYS2PPN :: "u64 \<Rightarrow> u64" where "PHYS2PPN x = drop_bit 12 x"

definition io_to_virt :: "u64 \<Rightarrow> u64" where "io_to_virt pa = pa + IOMAP_OFFSET"

definition PTE_HAS_V :: "u64 \<Rightarrow> bool" where "PTE_HAS_V pte \<longleftrightarrow> pte AND SV39_PTE_V \<noteq> 0"

text \<open>\<open>extract_bits\<close> returns the low bits and stores the rest through its pointer argument.\<close>

definition extract_bits :: "u64 \<Rightarrow> nat \<Rightarrow> u64 \<times> u64" where
  "extract_bits val num_bits = (val AND (push_bit num_bits 1 - 1), drop_bit num_bits val)"

text \<open>The array of the three 9-bit indices of a virtual page number, read in initializer order.\<close>

definition vpn_split :: "u64 \<Rightarrow> nat \<times> nat \<times> nat" where
  "vpn_split v =
     (let (v0, r1) = extract_bits v SV39_VPN_LEN;
          (v1, r2) = extract_bits r1 SV39_VPN_LEN;
          (v2, r3) = extract_bits r2 SV39_VPN_LEN
      in (unat v2, unat v1, unat v0))"

subsection \<open>Memory\<close>

record vm =
  vmem :: "u64 \<Rightarrow> u64"
  vbuddy :: buddy

abbreviation pte_addr :: "u64 \<Rightarrow> nat \<Rightarrow> u64" where
  "pte_addr tbl i \<equiv> tbl + 8 * of_nat i"

text \<open>\<open>memset(p, 0, PGSIZE)\<close> and \<open>memcpy(dst, src, PGSIZE)\<close> on the words of a page.\<close>

definition zero_page :: "u64 \<Rightarrow> (u64 \<Rightarrow> u64) \<Rightarrow> u64 \<Rightarrow> u64" where
  "zero_page p m = (\<lambda>a. if a - p < PGSIZE then 0 else m a)"

definition copy_page :: "u64 \<Rightarrow> u64 \<Rightarrow> (u64 \<Rightarrow> u64) \<Rightarrow> u64 \<Rightarrow> u64" where
  "copy_page dst src m = (\<lambda>a. if a - dst < PGSIZE then m (src + (a - dst)) else m a)"

text \<open>The table an entry points to.\<close>

definition pte_table :: "u64 \<Rightarrow> u64" where
  "pte_table pte = PA2VA (PPN2PHYS (GET_SUBBITMAP pte SV39_PTE_PPN_BEGIN SV39_PTE_PPN_END))"

definition PTES :: nat where "PTES = unat (PGSIZE div 8)"

subsection \<open>Mapping and unmapping a range\<close>

text \<open>
  The table below entry \<open>i\<close> of \<open>tbl\<close>; when the entry is not valid a zeroed page is linked in.
\<close>

definition next_table :: "u64 \<Rightarrow> nat \<Rightarrow> vm \<Rightarrow> (u64 \<times> vm) option" where
  "next_table tbl i s =
     (let pte = vmem s (pte_addr tbl i) in
      if \<not> PTE_HAS_V pte then
        do { (page, b) \<leftarrow> alloc_page (vbuddy s);
             let m = zero_page page (vmem s);
             let new_ppn = PHYS2PPN (VA2PA page);
             Some (page, s\<lparr>vmem := m(pte_addr tbl i := SV39_PTE new_ppn SV39_PTE_V), vbuddy := b\<rparr>) }
      else Some (pte_table pte, s))"

text \<open>
  The loop nest shared, word for word, by \<open>create_mapping\<close> and \<open>remove_mapping\<close>: it visits the
  entries of the last level from \<open>low\<close> to \<open>high\<close> in order, making the intermediate tables, and runs
  \<open>leaf tbl i\<close> on each.
\<close>

type_synonym 'x leaf_action = "u64 \<Rightarrow> nat \<Rightarrow> vm \<times> 'x \<Rightarrow> (vm \<times> 'x) option"

definition vpn_second_loop ::
  "'x leaf_action \<Rightarrow> nat \<times> nat \<times> nat \<Rightarrow> nat \<times> nat \<times> nat \<Rightarrow> nat \<Rightarrow> nat \<Rightarrow> u64 \<Rightarrow> vm \<times> 'x \<Rightarrow> (vm \<times> 'x) option" where
  "vpn_second_loop leaf low high vpn_root vpn_first page_table_second st =
     (case (low, high) of ((l2, l1, l0), (h2, h1, h0)) \<Rightarrow>
      let vpn_second_low = (if vpn_root = l2 \<and> vpn_first = l1 then l0 else 0);
          vpn_second_high = (if vpn_root = h2 \<and> vpn_first = h1 then h0 else 2 ^ SV39_VPN_LEN - 1)
      in for_range vpn_second_low (Suc vpn_second_high) (leaf page_table_second) st)"

definition vpn_first_loop ::
  "'x leaf_action \<Rightarrow> nat \<times> nat \<times> nat \<Rightarrow> nat \<times> nat \<times> nat \<Rightarrow> nat \<Rightarrow> u64 \<Rightarrow> vm \<times> 'x \<Rightarrow> (vm \<times> 'x) option" where
  "vpn_first_loop leaf low high vpn_root page_table_first st =
     (case (low, high) of ((l2, l1, l0), (h2, h1, h0)) \<Rightarrow>
      let vpn_first_low = (if vpn_root = l2 then l1 else 0);
          vpn_first_high = (if vpn_root = h2 then h1 else 2 ^ SV39_VPN_LEN - 1)
      in for_range vpn_first_low (Suc vpn_first_high) (\<lambda>vpn_first (s, x). do {
           (page_table_second, s') \<leftarrow> next_table page_table_first vpn_first s;
           vpn_second_loop leaf low high vpn_root vpn_first page_table_second (s', x) }) st)"

definition vpn_loop ::
  "'x leaf_action \<Rightarrow> u64 \<Rightarrow> nat \<times> nat \<times> nat \<Rightarrow> nat \<times> nat \<times> nat \<Rightarrow> vm \<times> 'x \<Rightarrow> (vm \<times> 'x) option" where
  "vpn_loop leaf pgtbl low high st =
     for_range (fst low) (Suc (fst high)) (\<lambda>vpn_root (s, x). do {
       (page_table_first, s') \<leftarrow> next_table pgtbl vpn_root s;
       vpn_first_loop leaf low high vpn_root page_table_first (s', x) }) st"

text \<open>The permission bits \<open>create_mapping\<close> stores for the ones it is given.\<close>

definition mapping_perm :: "u64 \<Rightarrow> u64" where
  "mapping_perm perm =
     (let perm' = perm OR SV39_PTE_V OR SV39_PTE_A in
      if perm' AND SV39_PTE_W \<noteq> 0 then perm' OR SV39_PTE_D else perm')"

definition map_leaf :: "u64 \<Rightarrow> u64 \<Rightarrow> nat \<Rightarrow> vm \<times> u64 \<Rightarrow> (vm \<times> u64) option" where
  "map_leaf perm tbl i = (\<lambda>(s, ppn).
     Some (s\<lparr>vmem := (vmem s)(pte_addr tbl i := SV39_PTE ppn perm)\<rparr>, ppn + 1))"

definition create_mapping :: "u64 \<Rightarrow> u64 \<Rightarrow> u64 \<Rightarrow> u64 \<Rightarrow> u64 \<Rightarrow> vm \<Rightarrow> vm option" where
  "create_mapping pgtbl va pa sz perm s =
     (let low = vpn_split (drop_bit PAGE_SHIFT va);
          high = vpn_split (drop_bit PAGE_SHIFT (va + sz - 1));
          ppn = drop_bit PAGE_SHIFT pa
      in do { (s', ppn') \<leftarrow> vpn_loop (map_leaf (mapping_perm perm)) pgtbl low high (s, ppn); Some s' })"

definition unmap_leaf :: "u64 \<Rightarrow> nat \<Rightarrow> vm \<times> unit \<Rightarrow> (vm \<times> unit) option" where
  "unmap_leaf tbl i = (\<lambda>(s, x).
     let pte = vmem s (pte_addr tbl i) in
     do { s' \<leftarrow> (if PTE_HAS_V pte then
                 do { (r, b) \<leftarrow> deref_page (pte_table pte) (vbuddy s); Some (s\<lparr>vbuddy := b\<rparr>) }
               else Some s);
          Some (s'\<lparr>vmem := (vmem s')(pte_addr tbl i := SV39_PTE 0 0)\<rparr>, x) })"

definition remove_mapping :: "u64 \<Rightarrow> u64 \<Rightarrow> u64 \<Rightarrow> vm \<Rightarrow> vm option" where
  "remove_mapping pgtbl va sz s =
     (let low = vpn_split (drop_bit PAGE_SHIFT va);
          high = vpn_split (drop_bit PAGE_SHIFT (va + sz - 1))
      in do { (s', x) \<leftarrow> vpn_loop unmap_leaf pgtbl low high (s, ()); Some s' })"

subsection \<open>Copying and deleting a whole table\<close>

definition copy_entry :: "u64 \<Rightarrow> u64 \<Rightarrow> nat \<Rightarrow> vm \<Rightarrow> (u64 \<times> u64 \<times> vm) option" where
  "copy_entry dst src i s =
     (let pte = vmem s (pte_addr src i) in
      do { (page, b) \<leftarrow> alloc_page (vbuddy s);
           let ppn = PHYS2PPN (VA2PA page);
           Some (page, PA2VA (PPN2PHYS (SV39_GET_PPN pte)),
                 s\<lparr>vmem := (vmem s)(pte_addr dst i := SV39_PTE ppn (SV39_GET_PERM pte)), vbuddy := b\<rparr>) })"

definition copy_mapping :: "u64 \<Rightarrow> u64 \<Rightarrow> vm \<Rightarrow> vm option" where
  "copy_mapping dst_pgtbl src_pgtbl s =
     for_range 0 PTES (\<lambda>i s.
       if PTE_HAS_V (vmem s (pte_addr src_pgtbl i)) then
         do { (dst_lv2, src_lv2, s1) \<leftarrow> copy_entry dst_pgtbl src_pgtbl i s;
              for_range 0 PTES (\<lambda>j s.
                if PTE_HAS_V (vmem s (pte_addr src_lv2 j)) then
                  do { (dst_lv3, src_lv3, s2) \<leftarrow> copy_entry dst_lv2 src_lv2 j s;
                       Some (s2\<lparr>vmem := copy_page dst_lv3 src_lv3 (vmem s2)\<rparr>) }
                else Some s) s1 }
       else Some s) s"

definition free_table :: "u64 \<Rightarrow> vm \<Rightarrow> vm option" where
  "free_table p s = do { b \<leftarrow> free_pages p (vbuddy s); Some (s\<lparr>vbuddy := b\<rparr>) }"

definition delete_mapping :: "u64 \<Rightarrow> vm \<Rightarrow> vm option" where
  "delete_mapping pgtbl s =
     do { s' \<leftarrow> for_range 0 PTES (\<lambda>i s.
            let pte = vmem s (pte_addr pgtbl i) in
            if PTE_HAS_V pte then
              let lv2 = PA2VA (PPN2PHYS (SV39_GET_PPN pte)) in
              if lv2 < VM_START \<or> lv2 \<ge> VM_END then Some s
              else do {
                s1 \<leftarrow> for_range 0 PTES (\<lambda>j s.
                       let pte2 = vmem s (pte_addr lv2 j) in
                       if PTE_HAS_V pte2 then
                         let lv3 = PA2VA (PPN2PHYS (SV39_GET_PPN pte2)) in
                         if lv3 < VM_START \<or> lv3 \<ge> VM_END then Some s else free_table lv3 s
                       else Some s) s;
                free_table lv2 s1 }
            else Some s) s;
          Some (s'\<lparr>vmem := zero_page pgtbl (vmem s')\<rparr>) }"

subsection \<open>Walking a table\<close>

definition is_valid_pte :: "u64 \<Rightarrow> vm \<Rightarrow> bool" where
  "is_valid_pte pte_ptr s \<longleftrightarrow>
     (if pte_ptr = INVALID_PA then False
      else if \<not> PTE_HAS_V (vmem s pte_ptr) then False else True)"

definition walk_page_table_pte :: "u64 \<Rightarrow> u64 \<Rightarrow> vm \<Rightarrow> u64" where
  "walk_page_table_pte pgtbl vpn s =
     (let (v2, v1, v0) = vpn_split vpn;
          pte2 = vmem s (pte_addr pgtbl v2)
      in if \<not> PTE_HAS_V pte2 then INVALID_PA
         else let t1 = pte_table pte2; pte1 = vmem s (pte_addr t1 v1)
         in if \<not> PTE_HAS_V pte1 then INVALID_PA
         else pte_addr (pte_table pte1) v0)"

definition walk_page_table :: "u64 \<Rightarrow> u64 \<Rightarrow> vm \<Rightarrow> u64" where
  "walk_page_table pgtbl va s =
     (let (offset, vpn) = extract_bits va PAGE_SHIFT;
          pte_ptr = walk_page_table_pte pgtbl vpn s
      in if \<not> is_valid_pte pte_ptr s then INVALID_PA
         else push_bit PAGE_SHIFT (SV39_GET_PPN (vmem s pte_ptr)) + offset)"

subsection \<open>The kernel's own tables\<close>

definition GIGAPAGE_PPN :: u64 where "GIGAPAGE_PPN = GET_SUBBITMAP PHY_START 30 38"
definition GIGAPAGE_VPN :: u64 where "GIGAPAGE_VPN = GET_SUBBITMAP VM_START 30 38"

definition setup_vm :: "u64 \<Rightarrow> vm \<Rightarrow> vm" where
  "setup_vm early_pgtbl s =
     (let m = zero_page early_pgtbl (vmem s);
          ppn = push_bit 18 GIGAPAGE_PPN;
          pte = SV39_PTE ppn (SV39_PTE_V OR SV39_PTE_R OR SV39_PTE_W OR SV39_PTE_X OR SV39_PTE_A OR SV39_PTE_D)
      in s\<lparr>vmem := m(pte_addr early_pgtbl (unat GIGAPAGE_PPN) := pte,
                      pte_addr early_pgtbl (unat GIGAPAGE_VPN) := pte)\<rparr>)"

text \<open>The symbols of the linker script, and the root table, a static array of the kernel.\<close>

record layout =
  l_stext :: u64
  l_etext :: u64
  l_srodata :: u64
  l_erodata :: u64
  l_sdata :: u64
  l_skernel :: u64
  l_swapper :: u64

definition setup_vm_final :: "layout \<Rightarrow> vm \<Rightarrow> (u64 \<times> vm) option" where
  "setup_vm_final l s =
     (let root = l_swapper l in
      do { s1 \<leftarrow> create_mapping root (l_stext l) (VA2PA (l_stext l)) (l_etext l - l_stext l)
                   (SV39_PTE_X OR SV39_PTE_R OR SV39_PTE_A) (s\<lparr>vmem := zero_page root (vmem s)\<rparr>);
           s2 \<leftarrow> create_mapping root (l_srodata l) (VA2PA (l_srodata l)) (l_erodata l - l_srodata l)
                   (SV39_PTE_R OR SV39_PTE_A) s1;
           s3 \<leftarrow> create_mapping root (l_sdata l) (VA2PA (l_sdata l)) (l_skernel l + PHY_SIZE - l_sdata l)
                   (SV39_PTE_W OR SV39_PTE_R OR SV39_PTE_A OR SV39_PTE_D) s2;
           s4 \<leftarrow> create_mapping root (io_to_virt VIRTIO_START) VIRTIO_START (VIRTIO_SIZE * VIRTIO_COUNT)
                   (SV39_PTE_W OR SV39_PTE_R OR SV39_PTE_V) s3;
           Some (PHYS2PPN (VA2PA root) OR SATP_MODE, s4) })"

end
