(* ===== verification/PageTable_Inv.thy ===== *)
theory PageTable_Inv
  imports PageTable "HOL-Library.Sublist"
begin

unbundle bit_operations_syntax

text \<open>
  The abstraction of a three-level table: \<open>tbl_at m root is\<close> is the table reached from \<open>root\<close> along
  the indices \<open>is\<close>, and \<open>leaf_pte m root x\<close> the last-level entry of the virtual page number \<open>x\<close> (0 when
  an intermediate table is missing). \<open>pt_wf\<close> says that the tables form a tree in owned pages: no
  table is reached along two paths. The lemmas give the effect of writing a leaf, of linking in
  a new table, and of the loop nest over a range.
\<close>

subsection \<open>Entries\<close>

lemma mask_push: "push_bit n 1 - 1 = (mask n :: u64)"
  by (simp add: mask_eq_exp_minus_1)

lemma TRUNCATE_eq: "TRUNCATE x n = take_bit n x"
  unfolding TRUNCATE_def mask_push take_bit_eq_mask ..

lemma GET_SUBBITMAP_eq: "GET_SUBBITMAP x l h = take_bit (h - l + 1) (drop_bit l x)"
  unfolding GET_SUBBITMAP_def mask_push take_bit_eq_mask ..

lemma PTE_HAS_V_bit: "PTE_HAS_V x \<longleftrightarrow> bit x 0"
  by (auto simp: PTE_HAS_V_def SV39_PTE_V_def bit_0 and_one_eq odd_iff_mod_2_eq_one)

lemma SV39_PTE_eq: "SV39_PTE ppn perm = take_bit 54 (push_bit 10 ppn OR perm)"
  by (simp add: SV39_PTE_def TRUNCATE_eq kdefs)

lemma SV39_GET_PPN_eq: "SV39_GET_PPN x = take_bit 44 (drop_bit 10 x)"
  by (simp add: SV39_GET_PPN_def GET_SUBBITMAP_eq kdefs)

lemma SV39_GET_PERM_eq: "SV39_GET_PERM x = take_bit 10 x"
  by (simp add: SV39_GET_PERM_def TRUNCATE_eq kdefs)

lemma SV39_PTE_HAS_V: "PTE_HAS_V (SV39_PTE ppn perm) \<longleftrightarrow> bit perm 0"
  by (simp add: PTE_HAS_V_bit SV39_PTE_eq bit_take_bit_iff bit_or_iff bit_push_bit_iff)

lemma take_bit_small: "take_bit n (x :: u64) = x \<longleftrightarrow> (\<forall>i \<ge> n. \<not> bit x i)"
proof
  assume "take_bit n x = x"
  then show "\<forall>i \<ge> n. \<not> bit x i" by (metis bit_take_bit_iff not_le)
next
  assume "\<forall>i \<ge> n. \<not> bit x i"
  then show "take_bit n x = x" by (intro bit_eqI) (auto simp: bit_take_bit_iff not_le)
qed

lemma bit_lt_64: "bit (x :: u64) i \<Longrightarrow> i < 64"
  using bit_imp_le_length [of x i] by simp

lemma pte_roundtrip:
  assumes "take_bit 44 ppn = ppn" "take_bit 10 perm = perm"
  shows "SV39_GET_PPN (SV39_PTE ppn perm) = ppn" "SV39_GET_PERM (SV39_PTE ppn perm) = perm"
proof -
  have hi: "\<not> bit perm i" if "10 \<le> i" for i using assms(2) that by (simp add: take_bit_small)
  have hp: "\<not> bit ppn i" if "44 \<le> i" for i using assms(1) that by (simp add: take_bit_small)
  show "SV39_GET_PPN (SV39_PTE ppn perm) = ppn"
  proof (rule bit_eqI)
    fix i show "bit (SV39_GET_PPN (SV39_PTE ppn perm)) i \<longleftrightarrow> bit ppn i"
      unfolding SV39_GET_PPN_eq SV39_PTE_eq bit_take_bit_iff bit_drop_bit_eq comp_apply bit_or_iff
        bit_push_bit_iff
      using hi [of "10 + i"] hp [of i] by (cases "i < 44") auto
  qed
  show "SV39_GET_PERM (SV39_PTE ppn perm) = perm"
  proof (rule bit_eqI)
    fix i show "bit (SV39_GET_PERM (SV39_PTE ppn perm)) i \<longleftrightarrow> bit perm i"
      unfolding SV39_GET_PERM_eq SV39_PTE_eq bit_take_bit_iff bit_or_iff bit_push_bit_iff
      using hi [of i] by (cases "i < 10") auto
  qed
qed

lemma ppn_phys:
  assumes "page_aligned p"
  shows "PPN2PHYS (PHYS2PPN p) = p"
proof -
  have lo: "\<not> bit p i" if "i < 12" for i
  proof -
    have "bit (take_bit 12 p) i = bit p i" using that by (simp add: bit_take_bit_iff)
    then show ?thesis using assms by (simp add: page_aligned_def)
  qed
  show ?thesis
  proof (rule bit_eqI)
    fix i show "bit (PPN2PHYS (PHYS2PPN p)) i \<longleftrightarrow> bit p i"
      unfolding PPN2PHYS_def PHYS2PPN_def bit_push_bit_iff bit_drop_bit_eq comp_apply
      using lo [of i] bit_lt_64 [of p i] by (cases "i < 12") auto
  qed
qed

text \<open>The physical page number of a page frame of the memory fits an entry.\<close>

lemma frame_ppn:
  assumes "f < 2 ^ 24"
  shows "PHYS2PPN (VA2PA (va_of f)) = of_nat f + 0x80000" "take_bit 44 (PHYS2PPN (VA2PA (va_of f))) = PHYS2PPN (VA2PA (va_of f))"
    "PA2VA (PPN2PHYS (PHYS2PPN (VA2PA (va_of f)))) = va_of f"
proof -
  have pa: "VA2PA (va_of f) = push_bit 12 (of_nat f + 0x80000)"
    by (simp add: va_of_def PFN2PHYS_def kdefs push_bit_add)
  have "unat (of_nat f + 0x80000 :: u64) = f + 0x80000"
    using unat_of_nat_small [of "f + 0x80000"] assms by simp
  then have le: "unat (of_nat f + 0x80000 :: u64) < 2 ^ 44" using assms by simp
  have small: "take_bit 44 (of_nat f + 0x80000) = (of_nat f + 0x80000 :: u64)"
    by (simp only: word_unat_eq_iff unsigned_take_bit_eq take_bit_nat_eq_self [OF le])
  have sh: "drop_bit 12 (push_bit 12 x) = x" if "take_bit 44 x = x" for x :: u64
  proof (rule bit_eqI)
    fix i show "bit (drop_bit 12 (push_bit 12 x)) i \<longleftrightarrow> bit x i"
      using that by (cases "i < 44") (auto simp: bit_drop_bit_eq bit_push_bit_iff take_bit_small not_less)
  qed
  show 1: "PHYS2PPN (VA2PA (va_of f)) = of_nat f + 0x80000"
    by (simp only: pa PHYS2PPN_def sh [OF small])
  show "take_bit 44 (PHYS2PPN (VA2PA (va_of f))) = PHYS2PPN (VA2PA (va_of f))"
    by (simp only: 1 small)
  have "PPN2PHYS (PHYS2PPN (VA2PA (va_of f))) = VA2PA (va_of f)"
    unfolding 1 unfolding PPN2PHYS_def pa ..
  then show "PA2VA (PPN2PHYS (PHYS2PPN (VA2PA (va_of f)))) = va_of f" by simp
qed

lemma pte_table_new:
  assumes "f < 2 ^ 24" "take_bit 10 perm = perm"
  shows "pte_table (SV39_PTE (PHYS2PPN (VA2PA (va_of f))) perm) = va_of f"
  using pte_roundtrip(1) [OF frame_ppn(2) [OF assms(1)] assms(2)] frame_ppn(3) [OF assms(1)]
  by (simp only: pte_table_def SV39_GET_PPN_def)

subsection \<open>Page numbers\<close>

definition lin :: "nat \<Rightarrow> nat \<Rightarrow> nat \<Rightarrow> nat" where
  "lin a b c = a * 2 ^ 18 + b * 2 ^ 9 + c"

lemma extract_bits_eq: "extract_bits x n = (take_bit n x, drop_bit n x)"
  unfolding extract_bits_def mask_push take_bit_eq_mask ..

lemma unat_take_bit_mod: "unat (take_bit n (x :: u64)) = unat x mod 2 ^ n"
  unfolding unsigned_take_bit_eq by (rule take_bit_eq_mod)

lemma unat_drop_bit_div: "unat (drop_bit n (x :: u64)) = unat x div 2 ^ n"
  unfolding unat_drop_bit_eq by (rule drop_bit_eq_div)

lemma vpn_split_eq: "vpn_split v = (unat v div 2 ^ 18 mod 512, unat v div 2 ^ 9 mod 512, unat v mod 512)"
proof -
  have "unat v div 2 ^ 9 div 2 ^ 9 = unat v div 2 ^ 18" by (simp add: div_mult2_eq [symmetric])
  then show ?thesis
    by (simp only: vpn_split_def extract_bits_eq Let_def prod.case SV39_VPN_LEN_def unat_take_bit_mod
        unat_drop_bit_div) simp
qed

lemma lin_split:
  assumes "vpn_split v = (a, b, c)"
  shows "lin a b c = unat v mod 2 ^ 27" "a < 512" "b < 512" "c < 512"
proof -
  have s: "a = unat v div 2 ^ 18 mod 512" "b = unat v div 2 ^ 9 mod 512" "c = unat v mod 512"
    using assms by (simp_all only: vpn_split_eq prod.inject)
  have "n div 2 ^ 18 mod 512 * 2 ^ 18 + n div 2 ^ 9 mod 512 * 2 ^ 9 + n mod 512 = n mod 2 ^ 27" for n :: nat
  proof -
    have 1: "n mod 2 ^ 27 = n div 2 ^ 18 mod 512 * 2 ^ 18 + n mod 2 ^ 18"
      using mod_mult2_eq [of n "2 ^ 18" 512] by simp
    have 2: "n mod 2 ^ 18 = n div 2 ^ 9 mod 512 * 2 ^ 9 + n mod 512"
      using mod_mult2_eq [of n "2 ^ 9" 512] by simp
    show ?thesis using 1 2 by linarith
  qed
  then show "lin a b c = unat v mod 2 ^ 27" by (simp only: lin_def s)
  show "a < 512" "b < 512" "c < 512" by (simp_all only: s mod_less_divisor zero_less_numeral)
qed

definition vidx :: "nat \<Rightarrow> nat \<times> nat \<times> nat" where
  "vidx x = (x div 2 ^ 18, x div 2 ^ 9 mod 512, x mod 512)"

lemma vidx_lin: "b < 512 \<Longrightarrow> c < 512 \<Longrightarrow> vidx (lin a b c) = (a, b, c)"
proof -
  assume bc: "b < 512" "c < 512"
  have e: "lin a b c = (a * 512 + b) * 512 + c" by (simp add: lin_def)
  have "(y * 512 + c) mod 512 = c" "(y * 512 + c) div 512 = y" for y using bc(2) by simp_all
  then have 1: "lin a b c mod 512 = c" "lin a b c div 512 = a * 512 + b" by (simp_all only: e)
  have "lin a b c div 2 ^ 18 = lin a b c div 512 div 512" by (simp add: div_mult2_eq [symmetric])
  then show ?thesis using bc(1) 1 by (simp add: vidx_def)
qed

lemma lin_vidx: "vidx x = (a, b, c) \<Longrightarrow> lin a b c = x"
proof -
  assume "vidx x = (a, b, c)"
  then have s: "a = x div 2 ^ 18" "b = x div 2 ^ 9 mod 512" "c = x mod 512" by (simp_all add: vidx_def)
  have "x mod 2 ^ 18 = x div 2 ^ 9 mod 512 * 2 ^ 9 + x mod 512"
    using mod_mult2_eq [of x "2 ^ 9" 512] by simp
  then show ?thesis using div_mult_mod_eq [of x "2 ^ 18"] unfolding lin_def s by linarith
qed

lemma lin_inj: "lin a b c = lin a' b' c' \<Longrightarrow> b < 512 \<Longrightarrow> c < 512 \<Longrightarrow> b' < 512 \<Longrightarrow> c' < 512 \<Longrightarrow>
   a = a' \<and> b = b' \<and> c = c'"
  using vidx_lin by (metis prod.inject)

subsection \<open>The tree of tables\<close>

fun tbl_at :: "(u64 \<Rightarrow> u64) \<Rightarrow> u64 \<Rightarrow> nat list \<Rightarrow> u64 option" where
  "tbl_at m t [] = Some t"
| "tbl_at m t (i # is) =
     (if PTE_HAS_V (m (pte_addr t i)) then tbl_at m (pte_table (m (pte_addr t i))) is else None)"

lemma tbl_at_append:
  "tbl_at m t (p @ q) = (case tbl_at m t p of None \<Rightarrow> None | Some t' \<Rightarrow> tbl_at m t' q)"
  by (induction p arbitrary: t) auto

definition ok_path :: "nat list \<Rightarrow> bool" where
  "ok_path p \<longleftrightarrow> length p \<le> 2 \<and> (\<forall>i \<in> set p. i < 512)"

definition tables :: "(u64 \<Rightarrow> u64) \<Rightarrow> u64 \<Rightarrow> u64 set" where
  "tables m root = {t. \<exists>p. ok_path p \<and> tbl_at m root p = Some t}"

definition leaf_pte :: "(u64 \<Rightarrow> u64) \<Rightarrow> u64 \<Rightarrow> nat \<Rightarrow> u64" where
  "leaf_pte m root x =
     (case vidx x of (a, b, c) \<Rightarrow>
        (case tbl_at m root [a, b] of None \<Rightarrow> 0 | Some t \<Rightarrow> m (pte_addr t c)))"

definition pt_wf :: "(u64 \<Rightarrow> u64) \<Rightarrow> u64 set \<Rightarrow> u64 \<Rightarrow> bool" where
  "pt_wf m own root \<longleftrightarrow>
     (\<forall>p t. ok_path p \<longrightarrow> tbl_at m root p = Some t \<longrightarrow>
        t \<in> own \<and> page_aligned t \<and> (\<forall>q. ok_path q \<longrightarrow> tbl_at m root q = Some t \<longrightarrow> q = p))"

lemma pt_wfD:
  assumes "pt_wf m own root" "ok_path p" "tbl_at m root p = Some t"
  shows "t \<in> own" "page_aligned t" "\<And>q. ok_path q \<Longrightarrow> tbl_at m root q = Some t \<Longrightarrow> q = p"
  using assms by (auto simp: pt_wf_def)

lemma ok_path_prefix: "ok_path (p @ q) \<Longrightarrow> ok_path p"
  by (auto simp: ok_path_def)

lemma tbl_at_cong:
  "(\<And>q i r t. p = q @ i # r \<Longrightarrow> tbl_at m root q = Some t \<Longrightarrow> m' (pte_addr t i) = m (pte_addr t i)) \<Longrightarrow>
   tbl_at m' root p = tbl_at m root p"
proof (induction p arbitrary: root)
  case Nil
  then show ?case by simp
next
  case (Cons j p)
  have e: "m' (pte_addr root j) = m (pte_addr root j)" using Cons.prems [of "[]" j p root] by simp
  show ?case
  proof (cases "PTE_HAS_V (m (pte_addr root j))")
    case True
    have "tbl_at m' (pte_table (m (pte_addr root j))) p = tbl_at m (pte_table (m (pte_addr root j))) p"
    proof (rule Cons.IH)
      fix q i r t assume "p = q @ i # r" "tbl_at m (pte_table (m (pte_addr root j))) q = Some t"
      then show "m' (pte_addr t i) = m (pte_addr t i)" using Cons.prems [of "j # q" i r t] True by simp
    qed
    then show ?thesis using True e by simp
  next
    case False
    then show ?thesis using e by simp
  qed
qed

lemma tbl_at_write:
  assumes wf: "pt_wf m own root" and q: "ok_path q" "tbl_at m root q = Some t" "i < 512"
    and p: "ok_path p" "\<not> prefix (q @ [i]) p"
  shows "tbl_at (m(pte_addr t i := v)) root p = tbl_at m root p"
proof (rule tbl_at_cong)
  fix q' i' r t' assume a: "p = q' @ i' # r" "tbl_at m root q' = Some t'"
  have q': "ok_path q'" "i' < 512" using p(1) a(1) by (auto simp: ok_path_def)
  have "pte_addr t' i' \<noteq> pte_addr t i"
  proof
    assume "pte_addr t' i' = pte_addr t i"
    then have "t' = t \<and> i' = i"
      using aligned_offset_inj [OF pt_wfD(2) [OF wf q'(1) a(2)] pt_wfD(2) [OF wf q(1,2)] q'(2) q(3)] by blast
    then have "q' = q" "i' = i" using pt_wfD(3) [OF wf q(1,2) q'(1)] a(2) by auto
    then show False using p(2) a(1) by (simp add: prefix_def)
  qed
  then show "(m(pte_addr t i := v)) (pte_addr t' i') = m (pte_addr t' i')" by simp
qed

subsection \<open>Pages\<close>

lemma page_words:
  assumes "page_aligned t" "i < 512"
  shows "PGROUNDDOWN (pte_addr t i) = t"
  using page_offset(1) [OF assms(1), of "8 * i"] assms(2) by simp

lemma in_page_iff:
  assumes "page_aligned n"
  shows "a - n < PGSIZE \<longleftrightarrow> PGROUNDDOWN a = n"
proof
  assume lt: "a - n < PGSIZE"
  define k where "k = unat (a - n)"
  have "k < 4096" using lt by (simp add: k_def PGSIZE_def word_less_nat_alt)
  moreover have "a = n + of_nat k" by (simp add: k_def)
  ultimately show "PGROUNDDOWN a = n" using page_offset(1) [OF assms] by blast
next
  assume e: "PGROUNDDOWN a = n"
  have "a - n = take_bit 12 a" using bits_ident [of 12 a] e by (simp add: PGROUNDDOWN_eq algebra_simps)
  also have "unat (take_bit 12 a) < 4096" by (simp only: unat_take_bit_mod) simp
  then have "take_bit 12 a < PGSIZE" by (simp only: PGSIZE_def word_less_nat_alt) simp
  finally show "a - n < PGSIZE" .
qed

lemma zero_page_eq: "page_aligned n \<Longrightarrow> zero_page n m a = (if PGROUNDDOWN a = n then 0 else m a)"
  by (simp add: zero_page_def in_page_iff)

lemma tbl_at_zero_page:
  assumes "pt_wf m own root" "n \<notin> own" "page_aligned n" "ok_path p"
  shows "tbl_at (zero_page n m) root p = tbl_at m root p"
proof (rule tbl_at_cong)
  fix q i r t assume a: "p = q @ i # r" "tbl_at m root q = Some t"
  have q: "ok_path q" "i < 512" using assms(4) a(1) by (auto simp: ok_path_def)
  note t = pt_wfD(1,2) [OF assms(1) q(1) a(2)]
  have "t \<noteq> n" using t(1) assms(2) by blast
  then show "zero_page n m (pte_addr t i) = m (pte_addr t i)"
    by (simp add: zero_page_eq [OF assms(3)] page_words [OF t(2) q(2)])
qed

subsection \<open>Writing a leaf\<close>

lemma vidx_bounds: "vidx x = (a, b, c) \<Longrightarrow> b < 512 \<and> c < 512"
  by (auto simp: vidx_def)

lemma ok_path2: "ok_path [a, b] \<longleftrightarrow> a < 512 \<and> b < 512"
  by (simp add: ok_path_def)

lemma vidx_first: "x < 2 ^ 27 \<Longrightarrow> vidx x = (a, b, c) \<Longrightarrow> a < 512"
  by (auto simp: vidx_def)

lemma leaf_write:
  fixes v :: u64
  assumes wf: "pt_wf m own root" and t: "tbl_at m root [a, b] = Some t" "a < 512" "b < 512" "c < 512"
  defines "m' \<equiv> m(pte_addr t c := v)"
  shows "pt_wf m' own root" "\<And>p. ok_path p \<Longrightarrow> tbl_at m' root p = tbl_at m root p"
    "\<And>x. x < 2 ^ 27 \<Longrightarrow> leaf_pte m' root x = (if x = lin a b c then v else leaf_pte m root x)"
proof -
  have ab: "ok_path [a, b]" using t by (simp add: ok_path2)
  show same: "tbl_at m' root p = tbl_at m root p" if p: "ok_path p" for p
    unfolding m'_def
  proof (rule tbl_at_write [OF wf ab t(1) t(4) p])
    show "\<not> prefix ([a, b] @ [c]) p" using p by (auto simp: ok_path_def prefix_def)
  qed
  then show "pt_wf m' own root" using wf unfolding pt_wf_def by metis
  fix x :: nat assume x: "x < 2 ^ 27"
  obtain a' b' c' where v: "vidx x = (a', b', c')" by (cases "vidx x") auto
  have ok': "ok_path [a', b']" "c' < 512" using vidx_bounds [OF v] vidx_first [OF x v] by (auto simp: ok_path2)
  show "leaf_pte m' root x = (if x = lin a b c then v else leaf_pte m root x)"
  proof (cases "tbl_at m root [a', b']")
    case None
    then have "x \<noteq> lin a b c" using v t vidx_lin by auto
    then show ?thesis using None by (simp only: leaf_pte_def v prod.case same [OF ok'(1)] option.case if_False)
  next
    case (Some t')
    have "pte_addr t' c' = pte_addr t c \<longleftrightarrow> x = lin a b c"
    proof
      assume "pte_addr t' c' = pte_addr t c"
      then have "t' = t \<and> c' = c"
        using aligned_offset_inj pt_wfD(2) [OF wf ok'(1) Some] pt_wfD(2) [OF wf ab t(1)] ok'(2) t(4) by blast
      then have "[a', b'] = [a, b]" "c' = c" using pt_wfD(3) [OF wf ab t(1) ok'(1)] Some by auto
      then show "x = lin a b c" using lin_vidx [OF v] by simp
    next
      assume "x = lin a b c"
      then have "a' = a" "b' = b" "c' = c" using v vidx_lin t by auto
      then show "pte_addr t' c' = pte_addr t c" using Some t(1) by simp
    qed
    then have "m' (pte_addr t' c') = (if x = lin a b c then v else m (pte_addr t' c'))"
      by (simp only: m'_def fun_upd_apply)
    moreover have "tbl_at m' root [a', b'] = Some t'" using same [OF ok'(1)] Some by simp
    ultimately show ?thesis using Some by (simp only: leaf_pte_def v prod.case option.case)
  qed
qed

subsection \<open>Linking in a new table\<close>

lemma new_table:
  assumes wf: "pt_wf m own root" and q: "ok_path q" "length q \<le> 1" "tbl_at m root q = Some t" "i < 512"
    and inv: "\<not> PTE_HAS_V (m (pte_addr t i))"
    and n: "n \<notin> own" "page_aligned n" "PTE_HAS_V v" "pte_table v = n"
  defines "m' \<equiv> (zero_page n m)(pte_addr t i := v)"
  shows "\<And>p. ok_path p \<Longrightarrow> tbl_at m' root p =
           (if p = q @ [i] then Some n else if prefix (q @ [i]) p then None else tbl_at m root p)"
proof -
  define m1 where "m1 = zero_page n m"
  have z: "tbl_at m1 root p = tbl_at m root p" if "ok_path p" for p
    using tbl_at_zero_page [OF wf n(1,2) that] by (simp add: m1_def)
  then have wf1: "pt_wf m1 own root" using wf unfolding pt_wf_def by metis
  note t = pt_wfD(1,2) [OF wf q(1,3)]
  have tn: "t \<noteq> n" using t(1) n(1) by blast
  have q1: "tbl_at m1 root q = Some t" using q(3) z [OF q(1)] by simp
  fix p assume p: "ok_path p"
  show "tbl_at m' root p = (if p = q @ [i] then Some n else if prefix (q @ [i]) p then None else tbl_at m root p)"
  proof (cases "prefix (q @ [i]) p")
    case False
    then show ?thesis
      using tbl_at_write [OF wf1 q(1) q1 q(4) p False] z [OF p] by (auto simp: m'_def m1_def)
  next
    case True
    then obtain r where r: "p = q @ i # r" by (auto simp: prefix_def)
    have "\<not> prefix (q @ [i]) q" by (auto simp: prefix_def)
    then have tq: "tbl_at m' root q = Some t"
      using tbl_at_write [OF wf1 q(1) q1 q(4) q(1)] q1 by (simp add: m'_def m1_def)
    have m'i: "m' (pte_addr t i) = v" by (simp add: m'_def)
    have tp: "tbl_at m' root p = tbl_at m' n r"
      using n(3,4) by (simp add: r tbl_at_append tq m'i)
    show ?thesis
    proof (cases r)
      case Nil
      then show ?thesis using tp r by simp
    next
      case (Cons j r')
      have j: "j < 512" using p r Cons by (simp add: ok_path_def)
      have "pte_addr n j \<noteq> pte_addr t i" using aligned_offset_inj [OF n(2) t(2) j q(4)] tn by blast
      then have "m' (pte_addr n j) = 0"
        by (simp add: m'_def zero_page_eq [OF n(2)] page_words [OF n(2) j])
      then have "tbl_at m' n r = None" by (simp add: Cons PTE_HAS_V_bit)
      then show ?thesis using tp r True Cons by simp
    qed
  qed
qed

lemma new_table_ok:
  assumes wf: "pt_wf m own root" and q: "ok_path q" "length q \<le> 1" "tbl_at m root q = Some t" "i < 512"
    and inv: "\<not> PTE_HAS_V (m (pte_addr t i))"
    and n: "n \<notin> own" "page_aligned n" "PTE_HAS_V v" "pte_table v = n"
  defines "m' \<equiv> (zero_page n m)(pte_addr t i := v)"
  shows "pt_wf m' (insert n own) root" "tbl_at m' root (q @ [i]) = Some n"
    "\<And>p u. ok_path p \<Longrightarrow> tbl_at m root p = Some u \<Longrightarrow> tbl_at m' root p = Some u"
    "\<And>x. x < 2 ^ 27 \<Longrightarrow> leaf_pte m' root x = leaf_pte m root x"
    "tables m' root \<subseteq> insert n (tables m root)"
proof -
  note T = new_table [OF wf q inv n, folded m'_def]
  have qi: "ok_path (q @ [i])" using q by (simp add: ok_path_def)
  have old: "tbl_at m root p = None" if p: "prefix (q @ [i]) p" for p
    using p q(3) inv by (auto simp: prefix_def tbl_at_append)
  show "tbl_at m' root (q @ [i]) = Some n" using T [OF qi] by simp
  show mono: "tbl_at m' root p = Some u" if "ok_path p" "tbl_at m root p = Some u" for p u
  proof -
    have np: "\<not> prefix (q @ [i]) p" using old [of p] that(2) by auto
    then have "p \<noteq> q @ [i]" by auto
    then show ?thesis using T [OF that(1)] np that(2) by simp
  qed
  have new: "u = n \<and> p = q @ [i] \<or> tbl_at m root p = Some u" if "ok_path p" "tbl_at m' root p = Some u" for p u
    using T [OF that(1)] that(2) by (auto split: if_splits)
  show "tables m' root \<subseteq> insert n (tables m root)" using new by (fastforce simp: tables_def)
  show "pt_wf m' (insert n own) root"
    unfolding pt_wf_def
  proof (intro allI impI conjI)
    fix p u assume p: "ok_path p" "tbl_at m' root p = Some u"
    show "u \<in> insert n own" "page_aligned u"
      using new [OF p] pt_wfD(1,2) [OF wf p(1)] n(2) by auto
    fix p' assume p': "ok_path p'" "tbl_at m' root p' = Some u"
    show "p' = p" using new [OF p] new [OF p'] pt_wfD(1) [OF wf] pt_wfD(3) [OF wf] p(1) p'(1) n(1) by metis
  qed
  fix x :: nat assume x: "x < 2 ^ 27"
  obtain a b c where v: "vidx x = (a, b, c)" by (cases "vidx x") auto
  have ok: "ok_path [a, b]" "c < 512" using vidx_bounds [OF v] vidx_first [OF x v] by (auto simp: ok_path2)
  note t = pt_wfD(1,2) [OF wf q(1,3)]
  have tn: "t \<noteq> n" using t(1) n(1) by blast
  show "leaf_pte m' root x = leaf_pte m root x"
  proof (cases "tbl_at m root [a, b]")
    case None
    have "m' (pte_addr n c) = 0"
    proof -
      have "pte_addr n c \<noteq> pte_addr t i" using aligned_offset_inj [OF n(2) t(2) ok(2) q(4)] tn by blast
      then show ?thesis by (simp add: m'_def zero_page_eq [OF n(2)] page_words [OF n(2) ok(2)])
    qed
    moreover have "tbl_at m' root [a, b] = Some n \<or> tbl_at m' root [a, b] = None"
      using T [OF ok(1)] None by (auto split: if_splits)
    ultimately show ?thesis by (auto simp only: leaf_pte_def v prod.case None option.case)
  next
    case (Some t')
    note t' = pt_wfD(1,2) [OF wf ok(1) Some]
    have "t' \<noteq> n" using t'(1) n(1) by blast
    moreover have "pte_addr t' c \<noteq> pte_addr t i"
    proof
      assume "pte_addr t' c = pte_addr t i"
      then have "t' = t" using aligned_offset_inj [OF t'(2) t(2) ok(2) q(4)] by blast
      then have "q = [a, b]" using pt_wfD(3) [OF wf ok(1) Some q(1)] q(3) by simp
      then show False using q(2) by simp
    qed
    ultimately have "m' (pte_addr t' c) = m (pte_addr t' c)"
      by (simp add: m'_def zero_page_eq [OF n(2)] page_words [OF t'(2) ok(2)])
    then show ?thesis using Some mono [OF ok(1) Some] by (simp only: leaf_pte_def v prod.case option.case)
  qed
qed

end
