(* ===== verification/PageTable_Map.thy ===== *)
theory PageTable_Map
  imports PageTable_Inv
begin

unbundle bit_operations_syntax

text \<open>
  The effect of \<open>create_mapping\<close> and \<open>remove_mapping\<close> on the abstract table: a rule for the shared
  loop nest, whose invariant is indexed by the next virtual page number to be visited.
\<close>

definition pt_ok :: "u64 \<Rightarrow> vm \<Rightarrow> bool" where
  "pt_ok root s \<longleftrightarrow> buddy_inv (vbuddy s) \<and> pt_wf (vmem s) (owned_pages (vbuddy s)) root"

text \<open>
  \<open>grows root s s'\<close>: from \<open>s\<close> to \<open>s'\<close> pages were only added to the owned ones, the tree below \<open>root\<close> took no
  page that was owned by someone else, and no word outside its tables and the new pages changed.
\<close>

definition grows :: "u64 \<Rightarrow> vm \<Rightarrow> vm \<Rightarrow> bool" where
  "grows root s s' \<longleftrightarrow>
     owned_pages (vbuddy s) \<subseteq> owned_pages (vbuddy s') \<and>
     tables (vmem s') root \<inter> owned_pages (vbuddy s) \<subseteq> tables (vmem s) root \<and>
     (\<forall>a. PGROUNDDOWN a \<in> owned_pages (vbuddy s) - tables (vmem s) root \<longrightarrow> vmem s' a = vmem s a)"

lemma grows_refl [simp]: "grows root s s"
  by (simp add: grows_def)

lemma grows_trans: "grows root s s' \<Longrightarrow> grows root s' s'' \<Longrightarrow> grows root s s''"
proof -
  assume 1: "grows root s s'" and 2: "grows root s' s''"
  have "vmem s'' a = vmem s a" if a: "PGROUNDDOWN a \<in> owned_pages (vbuddy s) - tables (vmem s) root" for a
  proof -
    have "PGROUNDDOWN a \<in> owned_pages (vbuddy s') - tables (vmem s') root"
      using 1 a by (auto simp: grows_def)
    then have "vmem s'' a = vmem s' a" using 2 by (simp add: grows_def)
    then show ?thesis using 1 a by (simp add: grows_def)
  qed
  moreover have "tables (vmem s'') root \<inter> owned_pages (vbuddy s) \<subseteq> tables (vmem s) root"
    using 1 2 unfolding grows_def by blast
  ultimately show ?thesis using 1 2 by (auto simp: grows_def)
qed

definition keeps_tables :: "u64 \<Rightarrow> vm \<Rightarrow> vm \<Rightarrow> bool" where
  "keeps_tables root s s' \<longleftrightarrow>
     (\<forall>p t. ok_path p \<longrightarrow> tbl_at (vmem s) root p = Some t \<longrightarrow> tbl_at (vmem s') root p = Some t)"

lemma keeps_tables_refl [simp]: "keeps_tables root s s"
  by (simp add: keeps_tables_def)

lemma keeps_tables_trans: "keeps_tables root s s' \<Longrightarrow> keeps_tables root s' s'' \<Longrightarrow> keeps_tables root s s''"
  by (auto simp: keeps_tables_def)

definition same_leaves :: "u64 \<Rightarrow> vm \<Rightarrow> vm \<Rightarrow> bool" where
  "same_leaves root s s' \<longleftrightarrow> (\<forall>x < 2 ^ 27. leaf_pte (vmem s') root x = leaf_pte (vmem s) root x)"

lemma tables_owned: "pt_ok root s \<Longrightarrow> tables (vmem s) root \<subseteq> owned_pages (vbuddy s)"
  by (auto simp: pt_ok_def tables_def dest: pt_wfD)

lemma next_table_ok:
  assumes ok: "pt_ok root s" and q: "ok_path q" "length q \<le> 1" "tbl_at (vmem s) root q = Some t" "i < 512"
    and run: "next_table t i s = Some (t', s')"
  shows "pt_ok root s'" "tbl_at (vmem s') root (q @ [i]) = Some t'" "keeps_tables root s s'"
    "same_leaves root s s'" "grows root s s'"
proof -
  have inv: "buddy_inv (vbuddy s)" and wf: "pt_wf (vmem s) (owned_pages (vbuddy s)) root"
    using ok by (simp_all add: pt_ok_def)
  have qi: "ok_path (q @ [i])" using q by (simp add: ok_path_def)
  have "pt_ok root s' \<and> tbl_at (vmem s') root (q @ [i]) = Some t' \<and> keeps_tables root s s' \<and>
     same_leaves root s s' \<and> grows root s s'"
  proof (cases "PTE_HAS_V (vmem s (pte_addr t i))")
    case True
    then have s: "s' = s" "t' = pte_table (vmem s (pte_addr t i))" using run by (auto simp: next_table_def)
    have "tbl_at (vmem s) root (q @ [i]) = Some t'" using True q(3) by (simp add: tbl_at_append s(2))
    then show ?thesis using ok s(1) by (simp add: same_leaves_def)
  next
    case False
    then obtain n b where n: "alloc_page (vbuddy s) = Some (n, b)" "t' = n"
      "s' = s\<lparr>vmem := (zero_page n (vmem s))(pte_addr t i := SV39_PTE (PHYS2PPN (VA2PA n)) SV39_PTE_V), vbuddy := b\<rparr>"
      using run by (auto simp: next_table_def Let_def split: Option.bind_splits)
    obtain f where f: "n = va_of f" "f < bsize (vbuddy s)" using alloc_page_SomeE [OF inv n(1)] by metis
    have f24: "f < 2 ^ 24" using f(2) bsize_le [OF inv] by simp
    have fresh: "n \<notin> owned_pages (vbuddy s)" by (rule frames.get_fresh [OF inv n(1)])
    have own: "owned_pages b = insert n (owned_pages (vbuddy s))" by (rule frames.get_owned [OF inv n(1)])
    have inv': "buddy_inv b" by (rule frames.get_inv [OF inv n(1)])
    have al: "page_aligned n" by (simp add: f(1) va_of_aligned)
    define v where "v = SV39_PTE (PHYS2PPN (VA2PA n)) SV39_PTE_V"
    have v: "PTE_HAS_V v" "pte_table v = n"
      using pte_table_new [OF f24, of SV39_PTE_V] by (simp_all add: v_def f(1) SV39_PTE_HAS_V SV39_PTE_V_def)
    have m': "vmem s' = (zero_page n (vmem s))(pte_addr t i := v)" "vbuddy s' = b"
      by (simp_all add: n(3) v_def)
    note N = new_table_ok [OF wf q False fresh al v, folded m'(1)]
    have frame: "vmem s' a = vmem s a" if "PGROUNDDOWN a \<in> owned_pages (vbuddy s) - tables (vmem s) root" for a
    proof -
      have "t \<in> tables (vmem s) root" using q by (auto simp: tables_def)
      then have "PGROUNDDOWN a \<noteq> t" "PGROUNDDOWN a \<noteq> n" using that fresh by auto
      then show ?thesis using page_words [OF pt_wfD(2) [OF wf q(1,3)] q(4)]
        by (auto simp: m' zero_page_eq [OF al])
    qed
    have "grows root s s'"
      unfolding grows_def m'(2) own using N(5) fresh frame by blast
    then show ?thesis
      using N inv' by (simp add: pt_ok_def m'(2) own n(2) keeps_tables_def same_leaves_def)
  qed
  then show "pt_ok root s'" "tbl_at (vmem s') root (q @ [i]) = Some t'" "keeps_tables root s s'"
    "same_leaves root s s'" "grows root s s'" by blast+
qed

subsection \<open>The loop nest\<close>

definition clamp :: "nat \<Rightarrow> nat \<Rightarrow> nat \<Rightarrow> nat" where
  "clamp l h x = max l (min (h + 1) x)"

lemma clamp_in: "l \<le> x \<Longrightarrow> x \<le> h \<Longrightarrow> clamp l h x = x" "l \<le> x \<Longrightarrow> x \<le> h \<Longrightarrow> clamp l h (Suc x) = Suc x"
  by (simp_all add: clamp_def)
lemma clamp_low: "x \<le> l \<Longrightarrow> l \<le> h \<Longrightarrow> clamp l h x = l"
  by (simp add: clamp_def)
lemma clamp_high: "h < x \<Longrightarrow> l \<le> h \<Longrightarrow> clamp l h x = h + 1"
  by (simp add: clamp_def)

lemma lin_Suc: "lin a b (Suc c) = Suc (lin a b c)" "lin a (Suc b) 0 = Suc (lin a b 511)" "lin (Suc a) 0 0 = Suc (lin a 511 511)"
  by (simp_all add: lin_def)

lemma lin_le_iff:
  assumes "b < 512" "c < 512" "b' < 512" "c' < 512"
  shows "lin a b c \<le> lin a' b' c' \<longleftrightarrow> a < a' \<or> a = a' \<and> (b < b' \<or> b = b' \<and> c \<le> c')"
proof -
  have X: "x * N + r \<le> y * N + r' \<longleftrightarrow> x < y \<or> x = y \<and> r \<le> r'" if "r < N" "r' < N" for x y r r' N :: nat
  proof (cases "x < y")
    case True
    then have "Suc x * N \<le> y * N" by (intro mult_le_mono1) simp
    then show ?thesis using True that by simp
  next
    case False
    show ?thesis
    proof (cases "x = y")
      case ne: False
      then have "Suc y * N \<le> x * N" using False by (intro mult_le_mono1) simp
      then show ?thesis using False ne that by simp
    qed simp
  qed
  have "lin a b c \<le> lin a' b' c' \<longleftrightarrow> a < a' \<or> a = a' \<and> b * 2 ^ 9 + c \<le> b' * 2 ^ 9 + c'"
    unfolding lin_def add.assoc by (rule X) (use assms in simp_all)
  also have "b * 2 ^ 9 + c \<le> b' * 2 ^ 9 + c' \<longleftrightarrow> b < b' \<or> b = b' \<and> c \<le> c'"
    by (rule X) (use assms in simp_all)
  finally show ?thesis .
qed

text \<open>
  \<open>loop_inv I leaf root l h\<close>: \<open>I n\<close> is an invariant of the steps of the loop nest, where \<open>n\<close> is the page
  number to be visited next.
\<close>

definition loop_inv ::
  "(nat \<Rightarrow> vm \<Rightarrow> 'x \<Rightarrow> bool) \<Rightarrow> 'x leaf_action \<Rightarrow> u64 \<Rightarrow> nat \<Rightarrow> nat \<Rightarrow> bool" where
  "loop_inv I leaf root l h \<longleftrightarrow>
     (\<forall>n s x. I n s x \<longrightarrow> pt_ok root s) \<and>
     (\<forall>n s x q t i t' s'. I n s x \<longrightarrow> ok_path q \<longrightarrow> length q \<le> 1 \<longrightarrow> tbl_at (vmem s) root q = Some t \<longrightarrow>
        i < 512 \<longrightarrow> next_table t i s = Some (t', s') \<longrightarrow> I n s' x) \<and>
     (\<forall>s x a b c t s' x'. I (lin a b c) s x \<longrightarrow> l \<le> lin a b c \<longrightarrow> lin a b c \<le> h \<longrightarrow>
        a < 512 \<longrightarrow> b < 512 \<longrightarrow> c < 512 \<longrightarrow> tbl_at (vmem s) root [a, b] = Some t \<longrightarrow>
        leaf t c (s, x) = Some (s', x') \<longrightarrow> I (Suc (lin a b c)) s' x' \<and> keeps_tables root s s')"

lemma loop_invI:
  assumes "\<And>n s x. I n s x \<Longrightarrow> pt_ok root s"
    and "\<And>n s x q t i t' s'. I n s x \<Longrightarrow> ok_path q \<Longrightarrow> length q \<le> 1 \<Longrightarrow> tbl_at (vmem s) root q = Some t \<Longrightarrow>
       i < 512 \<Longrightarrow> next_table t i s = Some (t', s') \<Longrightarrow> I n s' x"
    and "\<And>n s x a b c t s' x'. I n s x \<Longrightarrow> n = lin a b c \<Longrightarrow> l \<le> n \<Longrightarrow> n \<le> h \<Longrightarrow>
       a < 512 \<Longrightarrow> b < 512 \<Longrightarrow> c < 512 \<Longrightarrow> tbl_at (vmem s) root [a, b] = Some t \<Longrightarrow>
       leaf t c (s, x) = Some (s', x') \<Longrightarrow> I (n + 1) s' x' \<and> keeps_tables root s s'"
  shows "loop_inv I leaf root l h"
  unfolding loop_inv_def Suc_eq_plus1 using assms by blast

lemma loop_inv_link:
  assumes "loop_inv I leaf root l h" "I n s x" "ok_path q" "length q \<le> 1" "tbl_at (vmem s) root q = Some t"
    "i < 512" "next_table t i s = Some (t', s')"
  shows "I n s' x" "tbl_at (vmem s') root (q @ [i]) = Some t'" "tbl_at (vmem s') root q = Some t"
proof -
  show "I n s' x" using assms unfolding loop_inv_def by blast
  have "pt_ok root s" using assms(1,2) by (auto simp: loop_inv_def)
  note N = next_table_ok [OF this assms(3-7)]
  show "tbl_at (vmem s') root (q @ [i]) = Some t'" by (rule N(2))
  show "tbl_at (vmem s') root q = Some t" using N(3) assms(3,5) unfolding keeps_tables_def by blast
qed

lemma ok_path_short: "ok_path []" "length ([] :: nat list) \<le> 1" "length [a] \<le> 1" "a < 512 \<Longrightarrow> ok_path [a]"
  by (simp_all add: ok_path_def)

definition vpn_bounds :: "nat \<times> nat \<times> nat \<Rightarrow> nat \<times> nat \<times> nat \<Rightarrow> bool" where
  "vpn_bounds low high \<longleftrightarrow> (case (low, high) of ((l2, l1, l0), (h2, h1, h0)) \<Rightarrow>
     l2 < 512 \<and> l1 < 512 \<and> l0 < 512 \<and> h2 < 512 \<and> h1 < 512 \<and> h0 < 512 \<and> lin l2 l1 l0 \<le> lin h2 h1 h0)"

lemma second_loop_rule:
  assumes run: "vpn_second_loop leaf (l2, l1, l0) (h2, h1, h0) a b t2 st = Some (s', x')"
    and B: "vpn_bounds (l2, l1, l0) (h2, h1, h0)" and l: "l = lin l2 l1 l0" and h: "h = lin h2 h1 h0"
    and I: "loop_inv I leaf root l h"
    and a: "l2 \<le> a" "a \<le> h2" and b: "a = l2 \<longrightarrow> l1 \<le> b" "b < 512" "a = h2 \<longrightarrow> b \<le> h1"
    and pre: "case st of (s, x) \<Rightarrow> I (clamp l h (lin a b 0)) s x \<and> tbl_at (vmem s) root [a] = Some t1 \<and>
               tbl_at (vmem s) root [a, b] = Some t2"
  shows "I (clamp l h (lin a (Suc b) 0)) s' x' \<and> tbl_at (vmem s') root [a] = Some t1"
proof -
  define c0 where "c0 = (if a = l2 \<and> b = l1 then l0 else 0)"
  define c1 where "c1 = (if a = h2 \<and> b = h1 then h0 else 511)"
  have bd: "l2 < 512" "l1 < 512" "l0 < 512" "h2 < 512" "h1 < 512" "h0 < 512" and lh: "l \<le> h"
    using B by (simp_all add: vpn_bounds_def l h)
  have c1_less: "c1 < 512" using bd by (simp add: c1_def)
  have c1': "(if a = h2 \<and> b = h1 then h0 else 2 ^ SV39_VPN_LEN - 1) = c1" by (simp add: c1_def SV39_VPN_LEN_def)
  have c0_le: "c0 \<le> Suc c1"
    using lh bd a b by (auto simp: c0_def c1_def l h lin_le_iff)
  have run': "for_range c0 (Suc c1) (leaf t2) st = Some (s', x')"
    using run unfolding vpn_second_loop_def prod.case Let_def c1' c0_def [symmetric] .
  have a512: "a < 512" using a bd by simp
  have "(\<lambda>c (s, x). I (clamp l h (lin a b c)) s x \<and> tbl_at (vmem s) root [a] = Some t1 \<and>
               tbl_at (vmem s) root [a, b] = Some t2) (Suc c1) (s', x')"
  proof (rule for_range_rule [OF run'])
    have "clamp l h (lin a b c0) = clamp l h (lin a b 0)"
    proof (cases "a = l2 \<and> b = l1")
      case True
      then have "lin a b 0 \<le> l" "lin a b c0 = l" by (simp_all add: l lin_def c0_def)
      then show ?thesis using lh by (simp add: clamp_low)
    qed (auto simp: c0_def)
    then show "case st of (s, x) \<Rightarrow> I (clamp l h (lin a b c0)) s x \<and> tbl_at (vmem s) root [a] = Some t1 \<and>
               tbl_at (vmem s) root [a, b] = Some t2"
      using pre by simp
    show "c0 \<le> Suc c1" by (rule c0_le)
  next
    fix c u v
    assume c: "c0 \<le> c" "c < Suc c1" and Iu: "case u of (s, x) \<Rightarrow> I (clamp l h (lin a b c)) s x \<and>
        tbl_at (vmem s) root [a] = Some t1 \<and> tbl_at (vmem s) root [a, b] = Some t2"
      and lf: "leaf t2 c u = Some v"
    obtain s4 x4 where u: "u = (s4, x4)" by (cases u)
    obtain s5 x5 where v: "v = (s5, x5)" by (cases v)
    have c512: "c < 512" using c(2) c1_less by simp
    have in_range: "l \<le> lin a b c" "lin a b c \<le> h"
      using c a b bd c512 by (auto simp: l h lin_le_iff c0_def c1_def)
    have cl: "clamp l h (lin a b c) = lin a b c" "clamp l h (lin a b (Suc c)) = Suc (lin a b c)"
      using clamp_in [OF in_range] by (simp_all add: lin_Suc)
    have pre4: "I (lin a b c) s4 x4" "tbl_at (vmem s4) root [a] = Some t1" "tbl_at (vmem s4) root [a, b] = Some t2"
      using Iu unfolding u prod.case cl(1) by blast+
    have "I (Suc (lin a b c)) s5 x5 \<and> keeps_tables root s4 s5"
      using I pre4(1,3) in_range a512 b(2) c512 lf unfolding loop_inv_def u v by blast
    moreover have "ok_path [a]" "ok_path [a, b]" using a512 b(2) by (simp_all add: ok_path_def)
    ultimately show "case v of (s, x) \<Rightarrow> I (clamp l h (lin a b (Suc c))) s x \<and>
        tbl_at (vmem s) root [a] = Some t1 \<and> tbl_at (vmem s) root [a, b] = Some t2"
      using pre4 unfolding u v prod.case cl(2) keeps_tables_def by blast
  qed
  moreover have "clamp l h (lin a b (Suc c1)) = clamp l h (lin a (Suc b) 0)"
  proof (cases "a = h2 \<and> b = h1")
    case True
    then have "h < lin a b (Suc c1)" "h < lin a (Suc b) 0" using bd by (simp_all add: h lin_def c1_def)
    then show ?thesis using lh by (simp add: clamp_high)
  qed (auto simp: c1_def lin_def add_ac)
  ultimately show ?thesis by simp
qed

lemma first_loop_rule:
  assumes run: "vpn_first_loop leaf (l2, l1, l0) (h2, h1, h0) a t1 st = Some (s', x')"
    and B: "vpn_bounds (l2, l1, l0) (h2, h1, h0)" and l: "l = lin l2 l1 l0" and h: "h = lin h2 h1 h0"
    and I: "loop_inv I leaf root l h" and a: "l2 \<le> a" "a \<le> h2"
    and pre: "case st of (s, x) \<Rightarrow> I (clamp l h (lin a 0 0)) s x \<and> tbl_at (vmem s) root [a] = Some t1"
  shows "I (clamp l h (lin (Suc a) 0 0)) s' x'"
proof -
  define b0 where "b0 = (if a = l2 then l1 else 0)"
  define b1 where "b1 = (if a = h2 then h1 else 511)"
  have bd: "l2 < 512" "l1 < 512" "l0 < 512" "h2 < 512" "h1 < 512" "h0 < 512" and lh: "l \<le> h"
    using B by (simp_all add: vpn_bounds_def l h)
  have b1_less: "b1 < 512" using bd by (simp add: b1_def)
  have b1': "(if a = h2 then h1 else 2 ^ SV39_VPN_LEN - 1) = b1" by (simp add: b1_def SV39_VPN_LEN_def)
  have b0_le: "b0 \<le> Suc b1" using lh bd a by (auto simp: b0_def b1_def l h lin_le_iff)
  have a512: "a < 512" using a bd by simp
  have run': "for_range b0 (Suc b1) (\<lambda>vpn_first (s, x). do {
           (page_table_second, s') \<leftarrow> next_table t1 vpn_first s;
           vpn_second_loop leaf (l2, l1, l0) (h2, h1, h0) a vpn_first page_table_second (s', x) }) st = Some (s', x')"
    using run unfolding vpn_first_loop_def prod.case Let_def b1' b0_def [symmetric] .
  have "(\<lambda>b (s, x). I (clamp l h (lin a b 0)) s x \<and> tbl_at (vmem s) root [a] = Some t1) (Suc b1) (s', x')"
  proof (rule for_range_rule [OF run'])
    have "clamp l h (lin a b0 0) = clamp l h (lin a 0 0)"
    proof (cases "a = l2")
      case True
      then have "lin a 0 0 \<le> l" "lin a b0 0 \<le> l" by (simp_all add: l lin_def b0_def)
      then show ?thesis using lh by (simp add: clamp_low)
    qed (simp add: b0_def)
    then show "case st of (s, x) \<Rightarrow> I (clamp l h (lin a b0 0)) s x \<and> tbl_at (vmem s) root [a] = Some t1"
      using pre by simp
    show "b0 \<le> Suc b1" by (rule b0_le)
  next
    fix b u v
    assume b: "b0 \<le> b" "b < Suc b1" and Iu: "case u of (s, x) \<Rightarrow> I (clamp l h (lin a b 0)) s x \<and> tbl_at (vmem s) root [a] = Some t1"
      and step: "(case u of (s, x) \<Rightarrow> do {
           (page_table_second, s') \<leftarrow> next_table t1 b s;
           vpn_second_loop leaf (l2, l1, l0) (h2, h1, h0) a b page_table_second (s', x) }) = Some v"
    obtain s2 x2 where u: "u = (s2, x2)" by (cases u)
    obtain s5 x5 where v: "v = (s5, x5)" by (cases v)
    obtain t2 s3 where n2: "next_table t1 b s2 = Some (t2, s3)"
      and run2: "vpn_second_loop leaf (l2, l1, l0) (h2, h1, h0) a b t2 (s3, x2) = Some (s5, x5)"
      using step by (auto simp: u v split: Option.bind_splits)
    have pre2: "I (clamp l h (lin a b 0)) s2 x2" "tbl_at (vmem s2) root [a] = Some t1"
      using Iu unfolding u prod.case by blast+
    have b512: "b < 512" using b(2) b1_less by simp
    note L = loop_inv_link [OF I pre2(1) ok_path_short(4) [OF a512] ok_path_short(3) pre2(2) b512 n2]
    have "I (clamp l h (lin a (Suc b) 0)) s5 x5 \<and> tbl_at (vmem s5) root [a] = Some t1"
    proof (rule second_loop_rule [OF run2 B l h I a _ b512])
      show "a = l2 \<longrightarrow> l1 \<le> b" "a = h2 \<longrightarrow> b \<le> h1" using b by (auto simp: b0_def b1_def)
      show "case (s3, x2) of (s, x) \<Rightarrow> I (clamp l h (lin a b 0)) s x \<and> tbl_at (vmem s) root [a] = Some t1 \<and>
          tbl_at (vmem s) root [a, b] = Some t2"
        using L unfolding prod.case append.simps by blast
    qed
    then show "case v of (s, x) \<Rightarrow> I (clamp l h (lin a (Suc b) 0)) s x \<and> tbl_at (vmem s) root [a] = Some t1"
      unfolding v prod.case .
  qed
  moreover have "clamp l h (lin a (Suc b1) 0) = clamp l h (lin (Suc a) 0 0)"
  proof (cases "a = h2")
    case True
    then have "h < lin a (Suc b1) 0" "h < lin (Suc a) 0 0" using bd by (simp_all add: h lin_def b1_def)
    then show ?thesis using lh by (simp add: clamp_high)
  qed (simp add: b1_def lin_def add.commute)
  ultimately show ?thesis by simp
qed

lemma vpn_loop_rule:
  assumes run: "vpn_loop leaf root (l2, l1, l0) (h2, h1, h0) (s, x) = Some (s', x')"
    and B: "vpn_bounds (l2, l1, l0) (h2, h1, h0)" and l: "l = lin l2 l1 l0" and h: "h = lin h2 h1 h0"
    and I: "loop_inv I leaf root l h" and start: "I l s x"
  shows "I (h + 1) s' x'"
proof -
  have bd: "l2 < 512" "l1 < 512" "l0 < 512" "h2 < 512" "h1 < 512" "h0 < 512" and lh: "l \<le> h"
    using B by (simp_all add: vpn_bounds_def l h)
  have "(\<lambda>a (s, x). I (clamp l h (lin a 0 0)) s x) (Suc h2) (s', x')"
  proof (rule for_range_rule [OF run [unfolded vpn_loop_def fst_conv]])
    have "lin l2 0 0 \<le> l" by (simp add: l lin_def)
    then show "case (s, x) of (s, x) \<Rightarrow> I (clamp l h (lin l2 0 0)) s x"
      using start lh by (simp add: clamp_low)
    show "l2 \<le> Suc h2" using lh bd by (auto simp: l h lin_le_iff)
  next
    fix a u v
    assume a: "l2 \<le> a" "a < Suc h2" and Iu: "case u of (s, x) \<Rightarrow> I (clamp l h (lin a 0 0)) s x"
      and step: "(case u of (s, x) \<Rightarrow> do {
          (page_table_first, s') \<leftarrow> next_table root a s;
          vpn_first_loop leaf (l2, l1, l0) (h2, h1, h0) a page_table_first (s', x) }) = Some v"
    obtain s2 x2 where u: "u = (s2, x2)" by (cases u)
    obtain s5 x5 where v: "v = (s5, x5)" by (cases v)
    obtain t1 s3 where n1: "next_table root a s2 = Some (t1, s3)"
      and run1: "vpn_first_loop leaf (l2, l1, l0) (h2, h1, h0) a t1 (s3, x2) = Some (s5, x5)"
      using step by (auto simp: u v split: Option.bind_splits)
    have pre: "I (clamp l h (lin a 0 0)) s2 x2" using Iu by (simp add: u)
    have a': "a < 512" "a \<le> h2" using a bd by simp_all
    note L = loop_inv_link [OF I pre ok_path_short(1,2) tbl_at.simps(1) a'(1) n1]
    have "I (clamp l h (lin (Suc a) 0 0)) s5 x5"
    proof (rule first_loop_rule [OF run1 B l h I a(1) a'(2)])
      show "case (s3, x2) of (s, x) \<Rightarrow> I (clamp l h (lin a 0 0)) s x \<and> tbl_at (vmem s) root [a] = Some t1"
        using L unfolding prod.case append.simps by blast
    qed
    then show "case v of (s, x) \<Rightarrow> I (clamp l h (lin (Suc a) 0 0)) s x" unfolding v prod.case .
  qed
  moreover have "h < lin (Suc h2) 0 0" using bd by (simp add: h lin_def)
  ultimately show ?thesis using lh by (simp add: clamp_high)
qed

subsection \<open>create_mapping\<close>

lemma grows_leaf_write:
  assumes "pt_ok root s" "tbl_at (vmem s) root [a, b] = Some t" "a < 512" "b < 512" "c < 512"
  shows "grows root s (s\<lparr>vmem := (vmem s)(pte_addr t c := v)\<rparr>)"
    "keeps_tables root s (s\<lparr>vmem := (vmem s)(pte_addr t c := v)\<rparr>)"
    "pt_ok root (s\<lparr>vmem := (vmem s)(pte_addr t c := v)\<rparr>)"
proof -
  have wf: "pt_wf (vmem s) (owned_pages (vbuddy s)) root" using assms(1) by (simp add: pt_ok_def)
  have ab: "ok_path [a, b]" using assms(3,4) by (simp add: ok_path2)
  note L = leaf_write [OF wf assms(2-5), where v = v]
  show "keeps_tables root s (s\<lparr>vmem := (vmem s)(pte_addr t c := v)\<rparr>)"
    using L(2) by (simp add: keeps_tables_def)
  show "pt_ok root (s\<lparr>vmem := (vmem s)(pte_addr t c := v)\<rparr>)"
    using L(1) assms(1) by (simp add: pt_ok_def)
  have "t \<in> tables (vmem s) root" using ab assms(2) by (auto simp: tables_def)
  moreover have "PGROUNDDOWN (pte_addr t c) = t" by (rule page_words [OF pt_wfD(2) [OF wf ab assms(2)] assms(5)])
  moreover have "tables ((vmem s)(pte_addr t c := v)) root = tables (vmem s) root"
    unfolding tables_def by (rule Collect_cong) (auto simp: L(2))
  ultimately show "grows root s (s\<lparr>vmem := (vmem s)(pte_addr t c := v)\<rparr>)"
    by (auto simp: grows_def)
qed

definition vpn_of :: "u64 \<Rightarrow> nat" where
  "vpn_of va = unat va div 2 ^ 12 mod 2 ^ 27"

lemma vpn_split_va:
  assumes "vpn_split (drop_bit PAGE_SHIFT va) = (a, b, c)"
  shows "lin a b c = vpn_of va" "a < 512" "b < 512" "c < 512"
  using lin_split [OF assms] by (simp_all only: vpn_of_def PAGE_SHIFT_def unat_drop_bit_div)

lemma lin_27: "a < 512 \<Longrightarrow> b < 512 \<Longrightarrow> c < 512 \<Longrightarrow> lin a b c < 2 ^ 27"
  by (simp add: lin_def)

lemma vpn_bounds_split:
  assumes "vpn_split (drop_bit PAGE_SHIFT va) = (l2, l1, l0)"
    "vpn_split (drop_bit PAGE_SHIFT va') = (h2, h1, h0)" "vpn_of va \<le> vpn_of va'"
  shows "vpn_bounds (l2, l1, l0) (h2, h1, h0)"
  using vpn_split_va [OF assms(1)] vpn_split_va [OF assms(2)] assms(3) by (simp add: vpn_bounds_def)

lemma create_mapping_ok:
  assumes ok: "pt_ok root s" and lh: "vpn_of va \<le> vpn_of (va + sz - 1)"
    and run: "create_mapping root va pa sz perm s = Some s'"
  shows "pt_ok root s'" "grows root s s'"
    "\<And>x. x < 2 ^ 27 \<Longrightarrow> leaf_pte (vmem s') root x =
       (if vpn_of va \<le> x \<and> x \<le> vpn_of (va + sz - 1)
        then SV39_PTE (drop_bit 12 pa + of_nat (x - vpn_of va)) (mapping_perm perm)
        else leaf_pte (vmem s) root x)"
proof -
  define l where "l = vpn_of va"
  define h where "h = vpn_of (va + sz - 1)"
  define ppn where "ppn = drop_bit 12 pa"
  define pm where "pm = mapping_perm perm"
  obtain l2 l1 l0 where L: "vpn_split (drop_bit PAGE_SHIFT va) = (l2, l1, l0)" by (metis prod.exhaust)
  obtain h2 h1 h0 where H: "vpn_split (drop_bit PAGE_SHIFT (va + sz - 1)) = (h2, h1, h0)" by (metis prod.exhaust)
  obtain ppn' where loop: "vpn_loop (map_leaf pm) root (l2, l1, l0) (h2, h1, h0) (s, ppn) = Some (s', ppn')"
    using run by (auto simp: create_mapping_def Let_def L [unfolded PAGE_SHIFT_def] H [unfolded PAGE_SHIFT_def] pm_def
        ppn_def PAGE_SHIFT_def split: Option.bind_splits)
  define I where "I = (\<lambda>n t (x :: u64). pt_ok root t \<and> grows root s t \<and> x = ppn + of_nat (n - l) \<and>
     (\<forall>y < 2 ^ 27. leaf_pte (vmem t) root y =
        (if l \<le> y \<and> y < n then SV39_PTE (ppn + of_nat (y - l)) pm else leaf_pte (vmem s) root y)))"
  have "I (h + 1) s' ppn'"
  proof (rule vpn_loop_rule [OF loop vpn_bounds_split [OF L H lh] _ _ loop_invI])
    show "l = lin l2 l1 l0" using vpn_split_va [OF L] by (simp add: l_def)
    show "h = lin h2 h1 h0" using vpn_split_va [OF H] by (simp add: h_def)
    show "I l s ppn" using ok by (auto simp: I_def)
    show "pt_ok root t" if "I n t x" for n t x using that by (simp add: I_def)
    show "I n t' x" if "I n t x" "ok_path q" "length q \<le> 1" "tbl_at (vmem t) root q = Some u" "i < 512"
      "next_table u i t = Some (u', t')" for n t x q u i u' t'
    proof -
      have "pt_ok root t" using that(1) by (simp add: I_def)
      note N = next_table_ok [OF this that(2-6)]
      then show ?thesis using that(1) grows_trans by (auto simp: I_def same_leaves_def)
    qed
    show "I (n + 1) t' x' \<and> keeps_tables root t t'"
      if I: "I n t x" and n: "n = lin a b c" "l \<le> n" and abc: "a < 512" "b < 512" "c < 512"
        and u: "tbl_at (vmem t) root [a, b] = Some u" and lf: "map_leaf pm u c (t, x) = Some (t', x')"
      for n t x a b c u t' x'
    proof -
      have okt: "pt_ok root t" and x: "x = ppn + of_nat (n - l)" and gt: "grows root s t"
        using I by (simp_all add: I_def)
      have t': "t' = t\<lparr>vmem := (vmem t)(pte_addr u c := SV39_PTE x pm)\<rparr>" "x' = x + 1"
        using lf by (simp_all add: map_leaf_def)
      have wf: "pt_wf (vmem t) (owned_pages (vbuddy t)) root" using okt by (simp add: pt_ok_def)
      have "leaf_pte (vmem t') root y = (if l \<le> y \<and> y < n + 1 then SV39_PTE (ppn + of_nat (y - l)) pm
          else leaf_pte (vmem s) root y)" if y: "y < 2 ^ 27" for y
      proof -
        have "leaf_pte (vmem t') root y = (if y = n then SV39_PTE x pm else leaf_pte (vmem t) root y)"
          using leaf_write(3) [OF wf u abc y] by (simp add: t' n(1))
        then show ?thesis using I y n(2) by (auto simp: I_def)
      qed
      moreover have "x' = ppn + of_nat (n + 1 - l)" using x n(2) t'(2) by (simp add: Suc_diff_le)
      ultimately show ?thesis
        using grows_leaf_write [OF okt u abc, of "SV39_PTE x pm"] grows_trans [OF gt] by (simp add: I_def t')
    qed
  qed
  then have I: "I (h + 1) s' ppn'" .
  show "pt_ok root s'" "grows root s s'" using I by (simp_all add: I_def)
  fix x :: nat assume "x < 2 ^ 27"
  then show "leaf_pte (vmem s') root x =
       (if vpn_of va \<le> x \<and> x \<le> vpn_of (va + sz - 1)
        then SV39_PTE (drop_bit 12 pa + of_nat (x - vpn_of va)) (mapping_perm perm)
        else leaf_pte (vmem s) root x)"
    using I by (simp add: I_def l_def h_def ppn_def pm_def less_Suc_eq_le)
qed

end
