(* ===== verification/PageTable_Unmap.thy ===== *)
theory PageTable_Unmap
  imports PageTable_Map
begin

text \<open>
  The effect of \<open>remove_mapping\<close>. Each valid entry of the range drops one reference to its frame, so the
  range has to map frames that are in use, each once, and none that holds a table.
\<close>

definition frame_of :: "u64 \<Rightarrow> nat" where
  "frame_of pte = pfn_of_va (pte_table pte)"

definition unmap_pre :: "u64 \<Rightarrow> nat \<Rightarrow> nat \<Rightarrow> vm \<Rightarrow> bool" where
  "unmap_pre root l h s \<longleftrightarrow>
     (\<forall>x. l \<le> x \<longrightarrow> x \<le> h \<longrightarrow> PTE_HAS_V (leaf_pte (vmem s) root x) \<longrightarrow>
        live (vbuddy s) (frame_of (leaf_pte (vmem s) root x)) \<and>
        va_of ` block_pages (vbuddy s) (frame_of (leaf_pte (vmem s) root x)) \<inter> tables (vmem s) root = {} \<and>
        (\<forall>y. l \<le> y \<longrightarrow> y \<le> h \<longrightarrow> y \<noteq> x \<longrightarrow> PTE_HAS_V (leaf_pte (vmem s) root y) \<longrightarrow>
           frame_of (leaf_pte (vmem s) root y) \<noteq> frame_of (leaf_pte (vmem s) root x)))"

lemma leaf_at: "tbl_at m root [a, b] = Some t \<Longrightarrow> b < 512 \<Longrightarrow> c < 512 \<Longrightarrow> leaf_pte m root (lin a b c) = m (pte_addr t c)"
  unfolding leaf_pte_def vidx_lin prod.case by simp

lemma owned_pages_diff:
  assumes "buddy_inv b" "used_pages b - B \<subseteq> used_pages b'" "t \<in> owned_pages b" "t \<notin> va_of ` B"
  shows "t \<in> owned_pages b'"
  using assms by (auto simp: owned_pages_def)

lemma alloc_page_live:
  assumes "buddy_inv b" "alloc_page b = Some (n, b')" "live b q"
  shows "live b' q" "block_pages b' q = block_pages b q" "ref_cnt b' ! q = ref_cnt b ! q"
proof -
  obtain p where "buddy_alloc 1 b = Some (p, b')"
    using assms(2) by (auto simp: alloc_page_def elim: alloc_pages_SomeE)
  from alloc_keeps_live [OF assms(1) this assms(3)]
  show "live b' q" "block_pages b' q = block_pages b q" "ref_cnt b' ! q = ref_cnt b ! q" by simp_all
qed

lemma next_table_live:
  assumes "buddy_inv (vbuddy s)" "next_table t i s = Some (t', s')" "live (vbuddy s) q"
  shows "live (vbuddy s') q" "block_pages (vbuddy s') q = block_pages (vbuddy s) q"
    "ref_cnt (vbuddy s') ! q = ref_cnt (vbuddy s) ! q"
proof -
  have "vbuddy s' = vbuddy s \<or> (\<exists>n. alloc_page (vbuddy s) = Some (n, vbuddy s'))"
    using assms(2) by (auto simp: next_table_def Let_def split: Option.bind_splits if_splits)
  then show "live (vbuddy s') q" "block_pages (vbuddy s') q = block_pages (vbuddy s) q"
    "ref_cnt (vbuddy s') ! q = ref_cnt (vbuddy s) ! q"
    using alloc_page_live [OF assms(1) _ assms(3)] assms(3) by auto
qed

lemma live_block_owned: "buddy_inv b \<Longrightarrow> live b q \<Longrightarrow> va_of ` block_pages b q \<subseteq> owned_pages b"
  using live_head_in_block(2) unfolding owned_pages_def by (rule image_mono)

lemma unmap_pre_link:
  assumes pre: "unmap_pre root l h s" and ok: "pt_ok root s" and l: "h < 2 ^ 27"
    and q: "ok_path q" "length q \<le> 1" "tbl_at (vmem s) root q = Some t" "i < 512"
    and run: "next_table t i s = Some (t', s')"
  shows "unmap_pre root l h s'"
proof -
  note N = next_table_ok [OF ok q run]
  have inv: "buddy_inv (vbuddy s)" using ok by (simp add: pt_ok_def)
  have same: "leaf_pte (vmem s') root x = leaf_pte (vmem s) root x" if "x \<le> h" for x
    using N(4) that l by (simp add: same_leaves_def)
  have "va_of ` block_pages (vbuddy s') f \<inter> tables (vmem s') root = {}"
    if "live (vbuddy s) f" "va_of ` block_pages (vbuddy s) f \<inter> tables (vmem s) root = {}" for f
  proof -
    have "block_pages (vbuddy s') f = block_pages (vbuddy s) f" by (rule next_table_live(2) [OF inv run that(1)])
    moreover have "va_of ` block_pages (vbuddy s) f \<subseteq> owned_pages (vbuddy s)" by (rule live_block_owned [OF inv that(1)])
    moreover have "tables (vmem s') root \<inter> owned_pages (vbuddy s) \<subseteq> tables (vmem s) root"
      using N(5) by (simp add: grows_def)
    ultimately show ?thesis using that(2) by blast
  qed
  then show ?thesis
    using pre next_table_live(1) [OF inv run] unfolding unmap_pre_def by (simp add: same)
qed

text \<open>One step of the innermost loop.\<close>

lemma unmap_leaf_ok:
  assumes ok: "pt_ok root s" and pre: "unmap_pre root n h s" and h: "h < 2 ^ 27"
    and n: "n = lin a b c" "n \<le> h" and t: "tbl_at (vmem s) root [a, b] = Some t" "a < 512" "b < 512" "c < 512"
    and run: "unmap_leaf t c (s, x) = Some (s', x')"
  defines "pte \<equiv> leaf_pte (vmem s) root n"
  shows "pt_ok root s'" "keeps_tables root s s'" "unmap_pre root (Suc n) h s'"
    "\<And>y. y < 2 ^ 27 \<Longrightarrow> leaf_pte (vmem s') root y = (if y = n then 0 else leaf_pte (vmem s) root y)"
    "\<And>q. live (vbuddy s) q \<Longrightarrow> ref_cnt (vbuddy s') ! q =
       (if PTE_HAS_V pte \<and> q = frame_of pte then ref_cnt (vbuddy s) ! q - 1 else ref_cnt (vbuddy s) ! q)"
    "\<And>q. live (vbuddy s) q \<Longrightarrow> \<not> (PTE_HAS_V pte \<and> q = frame_of pte) \<Longrightarrow> live (vbuddy s') q"
    "bsize (vbuddy s') = bsize (vbuddy s)"
proof -
  have inv: "buddy_inv (vbuddy s)" and wf: "pt_wf (vmem s) (owned_pages (vbuddy s)) root"
    using ok by (simp_all add: pt_ok_def)
  have pte: "pte = vmem s (pte_addr t c)" using leaf_at [OF t(1,3,4)] by (simp add: pte_def n(1))
  define m' where "m' = (vmem s)(pte_addr t c := 0)"
  have z: "SV39_PTE 0 0 = 0" by (simp add: SV39_PTE_eq)
  note L = leaf_write [OF wf t, where v = 0, folded m'_def n(1)]
  have tbls: "tables m' root = tables (vmem s) root"
    unfolding tables_def by (rule Collect_cong) (auto simp: L(2))
  have *: "\<exists>b'. s' = s\<lparr>vmem := m', vbuddy := b'\<rparr> \<and> buddy_inv b' \<and> bsize b' = bsize (vbuddy s) \<and>
     tables (vmem s) root \<subseteq> owned_pages b' \<and>
     (\<forall>q. live (vbuddy s) q \<longrightarrow> \<not> (PTE_HAS_V pte \<and> q = frame_of pte) \<longrightarrow>
        live b' q \<and> block_pages b' q = block_pages (vbuddy s) q \<and> ref_cnt b' ! q = ref_cnt (vbuddy s) ! q) \<and>
     (PTE_HAS_V pte \<longrightarrow> ref_cnt b' ! frame_of pte = ref_cnt (vbuddy s) ! frame_of pte - 1)"
  proof (cases "PTE_HAS_V pte")
    case False
    then have "s' = s\<lparr>vmem := m', vbuddy := vbuddy s\<rparr>"
      using run by (auto simp: unmap_leaf_def pte m'_def z)
    then show ?thesis using False inv tables_owned [OF ok] by blast
  next
    case True
    have D: "live (vbuddy s) (frame_of pte)" "va_of ` block_pages (vbuddy s) (frame_of pte) \<inter> tables (vmem s) root = {}"
      using pre True n(2) unfolding unmap_pre_def pte_def by blast+
    obtain b' where b': "buddy_pfn_decref (frame_of pte) (vbuddy s) = Some b'" "s' = s\<lparr>vmem := m', vbuddy := b'\<rparr>"
      using run True D(1)
      by (auto simp: unmap_leaf_def Let_def pte m'_def z deref_page_def frame_of_def live_def split: Option.bind_splits if_splits
          dest!: rd_SomeD)
    note K = decref_keeps_live [OF inv b'(1) D(1)]
    have "tables (vmem s) root \<subseteq> owned_pages b'"
      using tables_owned [OF ok] owned_pages_diff [OF inv K(5)] D(2) by blast
    then show ?thesis using b'(2) K True by blast
  qed
  then obtain b' where s': "s' = s\<lparr>vmem := m', vbuddy := b'\<rparr>" and inv': "buddy_inv b'" "bsize b' = bsize (vbuddy s)"
    and own': "tables (vmem s) root \<subseteq> owned_pages b'"
    and keep: "\<And>q. live (vbuddy s) q \<Longrightarrow> \<not> (PTE_HAS_V pte \<and> q = frame_of pte) \<Longrightarrow>
        live b' q \<and> block_pages b' q = block_pages (vbuddy s) q \<and> ref_cnt b' ! q = ref_cnt (vbuddy s) ! q"
    and dec: "PTE_HAS_V pte \<Longrightarrow> ref_cnt b' ! frame_of pte = ref_cnt (vbuddy s) ! frame_of pte - 1"
    by blast
  have "pt_wf m' (owned_pages b') root"
    using L(1,2) own' unfolding pt_wf_def tables_def by (auto simp: subset_iff)
  then show "pt_ok root s'" using inv' by (simp add: pt_ok_def s')
  show "keeps_tables root s s'" using L(2) by (simp add: keeps_tables_def s')
  show "bsize (vbuddy s') = bsize (vbuddy s)" using inv'(2) by (simp add: s')
  show lf: "leaf_pte (vmem s') root y = (if y = n then 0 else leaf_pte (vmem s) root y)" if "y < 2 ^ 27" for y
    using L(3) [OF that] by (simp add: s')
  show "ref_cnt (vbuddy s') ! q =
       (if PTE_HAS_V pte \<and> q = frame_of pte then ref_cnt (vbuddy s) ! q - 1 else ref_cnt (vbuddy s) ! q)"
    if "live (vbuddy s) q" for q using keep [OF that] dec by (auto simp: s')
  show "live (vbuddy s') q" if "live (vbuddy s) q" "\<not> (PTE_HAS_V pte \<and> q = frame_of pte)" for q
    using keep that by (simp add: s')
  show "unmap_pre root (Suc n) h s'"
    unfolding unmap_pre_def
  proof (intro allI impI)
    fix y assume y: "Suc n \<le> y" "y \<le> h" and v: "PTE_HAS_V (leaf_pte (vmem s') root y)"
    have yn: "y \<noteq> n" "n \<le> y" and y27: "y < 2 ^ 27" using y h by simp_all
    have same: "leaf_pte (vmem s') root y' = leaf_pte (vmem s) root y'" if "Suc n \<le> y'" "y' \<le> h" for y'
      using lf [of y'] that h by simp
    have V: "PTE_HAS_V (leaf_pte (vmem s) root y)" using v same [OF y] by simp
    note P = pre [unfolded unmap_pre_def, rule_format, OF yn(2) y(2) V]
    have ne: "\<not> (PTE_HAS_V pte \<and> frame_of (leaf_pte (vmem s) root y) = frame_of pte)"
      using P n(2) yn(1) unfolding pte_def by (metis order_refl)
    note k = keep [OF conjunct1 [OF P] ne]
    show "live (vbuddy s') (frame_of (leaf_pte (vmem s') root y)) \<and>
        va_of ` block_pages (vbuddy s') (frame_of (leaf_pte (vmem s') root y)) \<inter> tables (vmem s') root = {} \<and>
        (\<forall>y'. Suc n \<le> y' \<longrightarrow> y' \<le> h \<longrightarrow> y' \<noteq> y \<longrightarrow> PTE_HAS_V (leaf_pte (vmem s') root y') \<longrightarrow>
           frame_of (leaf_pte (vmem s') root y') \<noteq> frame_of (leaf_pte (vmem s') root y))"
      using k P tbls same y by (simp add: s')
  qed
qed

definition hit :: "u64 \<Rightarrow> vm \<Rightarrow> nat \<Rightarrow> nat \<Rightarrow> nat \<Rightarrow> bool" where
  "hit root s l n q \<longleftrightarrow>
     (\<exists>y. l \<le> y \<and> y < n \<and> PTE_HAS_V (leaf_pte (vmem s) root y) \<and> frame_of (leaf_pte (vmem s) root y) = q)"

lemma hit_Suc: "l \<le> n \<Longrightarrow> hit root s l (Suc n) q \<longleftrightarrow> hit root s l n q \<or>
     (PTE_HAS_V (leaf_pte (vmem s) root n) \<and> q = frame_of (leaf_pte (vmem s) root n))"
  by (auto simp: hit_def less_Suc_eq)

text \<open>What has happened to the frames that were in use when the range up to \<open>n\<close> has been removed.\<close>

definition refs_dropped :: "u64 \<Rightarrow> vm \<Rightarrow> nat \<Rightarrow> nat \<Rightarrow> vm \<Rightarrow> bool" where
  "refs_dropped root s l n t \<longleftrightarrow>
     (\<forall>q. live (vbuddy s) q \<longrightarrow>
        (\<not> hit root s l n q \<longrightarrow> live (vbuddy t) q \<and> ref_cnt (vbuddy t) ! q = ref_cnt (vbuddy s) ! q) \<and>
        (hit root s l n q \<longrightarrow> 2 \<le> ref_cnt (vbuddy s) ! q \<longrightarrow>
           live (vbuddy t) q \<and> ref_cnt (vbuddy t) ! q = ref_cnt (vbuddy s) ! q - 1))"

lemma refs_dropped_step:
  assumes r: "refs_dropped root s l n t" and n: "l \<le> n" "n \<le> h" and pre: "unmap_pre root l h s"
    and pte: "pte = leaf_pte (vmem s) root n"
    and ref: "\<And>q. live (vbuddy t) q \<Longrightarrow> ref_cnt (vbuddy t') ! q =
       (if PTE_HAS_V pte \<and> q = frame_of pte then ref_cnt (vbuddy t) ! q - 1 else ref_cnt (vbuddy t) ! q)"
    and lv: "\<And>q. live (vbuddy t) q \<Longrightarrow> \<not> (PTE_HAS_V pte \<and> q = frame_of pte) \<Longrightarrow> live (vbuddy t') q"
    and sz: "bsize (vbuddy t') = bsize (vbuddy t)"
  shows "refs_dropped root s l (Suc n) t'"
  unfolding refs_dropped_def
proof (intro allI impI)
  fix q assume q: "live (vbuddy s) q"
  note R = r [unfolded refs_dropped_def, rule_format, OF q]
  show "(\<not> hit root s l (Suc n) q \<longrightarrow> live (vbuddy t') q \<and> ref_cnt (vbuddy t') ! q = ref_cnt (vbuddy s) ! q) \<and>
        (hit root s l (Suc n) q \<longrightarrow> 2 \<le> ref_cnt (vbuddy s) ! q \<longrightarrow>
           live (vbuddy t') q \<and> ref_cnt (vbuddy t') ! q = ref_cnt (vbuddy s) ! q - 1)"
  proof (cases "PTE_HAS_V pte \<and> q = frame_of pte")
    case True
    have "\<not> hit root s l n q"
    proof
      assume "hit root s l n q"
      then obtain y where y: "l \<le> y" "y < n" "PTE_HAS_V (leaf_pte (vmem s) root y)" "frame_of (leaf_pte (vmem s) root y) = q"
        by (auto simp: hit_def)
      then show False using pre n True unfolding unmap_pre_def pte by (metis less_le_trans nat_less_le order.trans)
    qed
    then have "live (vbuddy t) q" "ref_cnt (vbuddy t) ! q = ref_cnt (vbuddy s) ! q" using R by blast+
    then show ?thesis using ref [of q] True hit_Suc [OF n(1), of root s q] sz pte by (simp add: live_def)
  next
    case False
    then have "hit root s l (Suc n) q = hit root s l n q" using hit_Suc [OF n(1), of root s q] pte False by blast
    then show ?thesis using R ref [of q] lv [of q] False by auto
  qed
qed

lemma remove_mapping_ok:
  assumes ok: "pt_ok root s" and lh: "vpn_of va \<le> vpn_of (va + sz - 1)"
    and pre: "unmap_pre root (vpn_of va) (vpn_of (va + sz - 1)) s"
    and run: "remove_mapping root va sz s = Some s'"
  shows "pt_ok root s'"
    "\<And>x. x < 2 ^ 27 \<Longrightarrow> leaf_pte (vmem s') root x =
       (if vpn_of va \<le> x \<and> x \<le> vpn_of (va + sz - 1) then 0 else leaf_pte (vmem s) root x)"
    "refs_dropped root s (vpn_of va) (vpn_of (va + sz - 1) + 1) s'"
proof -
  define l where "l = vpn_of va"
  define h where "h = vpn_of (va + sz - 1)"
  obtain l2 l1 l0 where L: "vpn_split (drop_bit PAGE_SHIFT va) = (l2, l1, l0)" by (metis prod.exhaust)
  obtain h2 h1 h0 where H: "vpn_split (drop_bit PAGE_SHIFT (va + sz - 1)) = (h2, h1, h0)" by (metis prod.exhaust)
  obtain x' where loop: "vpn_loop unmap_leaf root (l2, l1, l0) (h2, h1, h0) (s, ()) = Some (s', x')"
    using run by (auto simp: remove_mapping_def Let_def L [unfolded PAGE_SHIFT_def] H [unfolded PAGE_SHIFT_def]
        PAGE_SHIFT_def split: Option.bind_splits)
  have h27: "h < 2 ^ 27" by (simp add: h_def vpn_of_def)
  define I where "I = (\<lambda>n t (x :: unit). pt_ok root t \<and> unmap_pre root n h t \<and> refs_dropped root s l n t \<and>
     (\<forall>y < 2 ^ 27. leaf_pte (vmem t) root y = (if l \<le> y \<and> y < n then 0 else leaf_pte (vmem s) root y)))"
  have "I (h + 1) s' x'"
  proof (rule vpn_loop_rule [OF loop vpn_bounds_split [OF L H lh] _ _ loop_invI])
    show "l = lin l2 l1 l0" using vpn_split_va [OF L] by (simp add: l_def)
    show "h = lin h2 h1 h0" using vpn_split_va [OF H] by (simp add: h_def)
    show "I l s ()" using ok pre by (auto simp: I_def refs_dropped_def hit_def l_def h_def)
    show "pt_ok root t" if "I n t x" for n t x using that by (simp add: I_def)
    show "I n t' x" if "I n t x" "ok_path q" "length q \<le> 1" "tbl_at (vmem t) root q = Some u" "i < 512"
      "next_table u i t = Some (u', t')" for n t x q u i u' t'
    proof -
      have okt: "pt_ok root t" and pt: "unmap_pre root n h t" using that(1) by (simp_all add: I_def)
      then have inv: "buddy_inv (vbuddy t)" by (simp add: pt_ok_def)
      have "refs_dropped root s l n t'"
        using that(1) next_table_live [OF inv that(6)] by (simp add: I_def refs_dropped_def)
      then show ?thesis
        using that(1) next_table_ok [OF okt that(2-6)] unmap_pre_link [OF pt okt h27 that(2-6)]
        by (auto simp: I_def same_leaves_def)
    qed
    show "I (n + 1) t' x' \<and> keeps_tables root t t'"
      if I: "I n t x" and n: "n = lin a b c" "l \<le> n" "n \<le> h" and abc: "a < 512" "b < 512" "c < 512"
        and u: "tbl_at (vmem t) root [a, b] = Some u" and lf: "unmap_leaf u c (t, x) = Some (t', x')"
      for n t x a b c u t' x'
    proof -
      have okt: "pt_ok root t" and pt: "unmap_pre root n h t" and r: "refs_dropped root s l n t"
        and lv: "\<And>y. y < 2 ^ 27 \<Longrightarrow> leaf_pte (vmem t) root y = (if l \<le> y \<and> y < n then 0 else leaf_pte (vmem s) root y)"
        using I by (simp_all add: I_def)
      have e: "leaf_pte (vmem t) root n = leaf_pte (vmem s) root n" using lv [of n] n(3) h27 by simp
      note U = unmap_leaf_ok [OF okt pt h27 n(1,3) u abc lf]
      have "refs_dropped root s l (Suc n) t'"
        by (rule refs_dropped_step [OF r n(2,3) pre [folded l_def h_def] refl]) (use U(5-7) e in simp_all)
      then show ?thesis using U(1-4) lv n(2) by (auto simp: I_def)
    qed
  qed
  then have I: "I (h + 1) s' x'" .
  show "pt_ok root s'" using I by (simp add: I_def)
  show "refs_dropped root s (vpn_of va) (vpn_of (va + sz - 1) + 1) s'" using I by (simp add: I_def l_def h_def)
  show "leaf_pte (vmem s') root x =
       (if vpn_of va \<le> x \<and> x \<le> vpn_of (va + sz - 1) then 0 else leaf_pte (vmem s) root x)" if "x < 2 ^ 27" for x
    using I that by (simp add: I_def l_def h_def less_Suc_eq_le)
qed

end
