(* ===== verification/PageTable_Claims.thy ===== *)
theory PageTable_Claims
  imports PageTable_Unmap
begin

unbundle bit_operations_syntax

text \<open>The properties of the page tables: walking, mapping, isolation of address spaces, unmapping.\<close>

subsection \<open>Walking\<close>

lemma walk_pte_eq:
  "vpn_split vpn = (a, b, c) \<Longrightarrow>
   walk_page_table_pte root vpn s = (case tbl_at (vmem s) root [a, b] of None \<Rightarrow> INVALID_PA | Some t \<Rightarrow> pte_addr t c)"
  by (simp add: walk_page_table_pte_def Let_def)

lemma entry_not_invalid:
  assumes "page_aligned t" "c < 512"
  shows "pte_addr t c \<noteq> INVALID_PA"
proof
  assume "pte_addr t c = INVALID_PA"
  moreover have "take_bit 12 (pte_addr t c) = of_nat (8 * c)"
    using page_offset(2) [OF assms(1), of "8 * c"] assms(2) by simp
  ultimately have "take_bit 12 INVALID_PA = of_nat (8 * c)" by simp
  then have "unat (take_bit 12 INVALID_PA) = unat (of_nat (8 * c) :: u64)" by (simp only:)
  moreover have "unat (of_nat (8 * c) :: u64) = 8 * c" by (rule unat_of_nat_small) (use assms(2) in simp)
  moreover have "unat (take_bit 12 INVALID_PA) = 3823" by (simp add: kdefs)
  ultimately have "3823 = 8 * c" by (simp only:)
  then show False by presburger
qed

lemma not_valid_0 [simp]: "\<not> PTE_HAS_V 0"
  by (simp add: PTE_HAS_V_bit)

lemma walk_page_table_eq:
  assumes "pt_wf (vmem s) own root"
  shows "walk_page_table root va s =
     (if PTE_HAS_V (leaf_pte (vmem s) root (vpn_of va))
      then push_bit 12 (SV39_GET_PPN (leaf_pte (vmem s) root (vpn_of va))) + take_bit 12 va else INVALID_PA)"
proof -
  obtain a b c where v: "vpn_split (drop_bit 12 va) = (a, b, c)" by (metis prod.exhaust)
  note L = vpn_split_va [unfolded PAGE_SHIFT_def, OF v]
  have x: "vidx (vpn_of va) = (a, b, c)" using vidx_lin L by metis
  show ?thesis
  proof (cases "tbl_at (vmem s) root [a, b]")
    case None
    then show ?thesis
      by (simp add: walk_page_table_def extract_bits_eq PAGE_SHIFT_def walk_pte_eq [OF v] is_valid_pte_def
          leaf_pte_def x del: tbl_at.simps)
  next
    case (Some t)
    have ok: "ok_path [a, b]" using L by (simp add: ok_path2)
    have "pte_addr t c \<noteq> INVALID_PA" using entry_not_invalid pt_wfD(2) [OF assms ok Some] L(4) by blast
    then show ?thesis using Some
      by (simp add: walk_page_table_def extract_bits_eq PAGE_SHIFT_def walk_pte_eq [OF v] is_valid_pte_def
          leaf_pte_def x del: tbl_at.simps)
  qed
qed

subsection \<open>Addresses\<close>

lemma page_aligned_unat: "page_aligned p \<longleftrightarrow> 4096 dvd unat p"
proof -
  have "page_aligned p \<longleftrightarrow> unat (take_bit 12 p) = 0" by (simp add: page_aligned_def unat_eq_zero)
  then show ?thesis by (simp only: unat_take_bit_mod) (simp add: mod_eq_0_iff_dvd)
qed

lemma unat_add_mod: "unat (x + y :: u64) mod 2 ^ 39 = (unat x + unat y) mod 2 ^ 39"
proof -
  have "unat (x + y :: u64) = (unat x + unat y) mod 2 ^ 64" by (simp add: unat_word_ariths)
  moreover have "(2::nat) ^ 39 dvd 2 ^ 64" by (rule le_imp_power_dvd) simp
  ultimately show ?thesis by (simp only: mod_mod_cancel)
qed

lemma vpn_of_39: "vpn_of va = unat va mod 2 ^ 39 div 4096"
  using mod_mult2_eq [of "unat va" "2 ^ 12" "2 ^ 27"] by (simp add: vpn_of_def)

lemma vpn_of_add:
  assumes "page_aligned va" "unat va mod 2 ^ 39 + unat d < 2 ^ 39"
  shows "vpn_of (va + d) = vpn_of va + unat d div 4096"
proof -
  have "unat (va + d) mod 2 ^ 39 = (unat va mod 2 ^ 39 + unat d) mod 2 ^ 39"
    by (simp only: unat_add_mod mod_add_left_eq)
  then have e: "unat (va + d) mod 2 ^ 39 = unat va mod 2 ^ 39 + unat d" using assms(2) by simp
  have "(4096::nat) dvd 2 ^ 39" by simp
  then have "4096 dvd unat va mod 2 ^ 39" using assms(1) by (metis page_aligned_unat dvd_mod_iff)
  then show ?thesis by (simp only: vpn_of_39 e div_plus_div_distrib_dvd_left)
qed

lemma take_bit_aligned_add:
  assumes "page_aligned va"
  shows "take_bit 12 (va + d) = take_bit 12 d"
proof -
  have "unat (va + d) = (unat va + unat d) mod 2 ^ 64" by (simp add: unat_word_ariths)
  moreover have "(2::nat) ^ 12 dvd 2 ^ 64" by (rule le_imp_power_dvd) simp
  ultimately have "unat (va + d) mod 2 ^ 12 = (unat va + unat d) mod 2 ^ 12" by (simp only: mod_mod_cancel)
  also have "\<dots> = (unat va mod 2 ^ 12 + unat d) mod 2 ^ 12" by (rule mod_add_left_eq [symmetric])
  also have "unat va mod 2 ^ 12 = 0" using assms by (simp add: page_aligned_unat)
  also have "(0 + unat d) mod 2 ^ 12 = unat d mod 2 ^ 12" by (simp only: add_0)
  finally show ?thesis by (simp only: word_unat_eq_iff unat_take_bit_mod)
qed

lemma u64_small_take_bit: "unat (x :: u64) < 2 ^ n \<Longrightarrow> take_bit n x = x"
  by (simp only: word_unat_eq_iff unsigned_take_bit_eq take_bit_nat_eq_self)

lemma mapping_perm_small: "take_bit 10 perm = perm \<Longrightarrow> take_bit 10 (mapping_perm perm) = mapping_perm perm"
  by (simp add: mapping_perm_def Let_def kdefs take_bit_or)

lemma mapping_perm_V: "bit (mapping_perm perm) 0"
  by (simp add: mapping_perm_def Let_def kdefs bit_or_iff)

lemma translate:
  assumes "page_aligned va" "page_aligned pa" "unat pa + unat d < 2 ^ 56" "take_bit 10 pm = pm"
  shows "push_bit 12 (SV39_GET_PPN (SV39_PTE (drop_bit 12 pa + of_nat (unat d div 4096)) pm)) + take_bit 12 (va + d) = pa + d"
proof -
  have k: "of_nat (unat d div 4096) = drop_bit 12 d"
  proof -
    have "(of_nat (unat (drop_bit 12 d)) :: u64) = drop_bit 12 d" by simp
    then show ?thesis by (simp only: unat_drop_bit_div) simp
  qed
  have half: "a div 2 ^ 12 + b div 2 ^ 12 < 2 ^ 44" if "a + b < 2 ^ 56" for a b :: nat
    using that by (simp add: less_mult_imp_div_less)
  have "unat (drop_bit 12 pa) + unat (drop_bit 12 d) < 2 ^ 44"
    unfolding unat_drop_bit_div by (rule half [OF assms(3)])
  moreover have "unat (drop_bit 12 pa + drop_bit 12 d) \<le> unat (drop_bit 12 pa) + unat (drop_bit 12 d)"
    by (simp add: unat_word_ariths)
  ultimately have small: "take_bit 44 (drop_bit 12 pa + drop_bit 12 d) = drop_bit 12 pa + drop_bit 12 d"
    by (intro u64_small_take_bit) linarith
  have "push_bit 12 (drop_bit 12 pa) = pa" using ppn_phys [OF assms(2)] by (simp only: PPN2PHYS_def PHYS2PPN_def)
  moreover have "push_bit 12 (drop_bit 12 d) + take_bit 12 d = d" using bits_ident [of 12 d] by simp
  ultimately show ?thesis
    by (simp only: k pte_roundtrip(1) [OF small assms(4)] push_bit_add take_bit_aligned_add [OF assms(1)] add.assoc)
qed

lemma translate_perm:
  assumes "page_aligned pa" "unat pa + unat d < 2 ^ 56" "take_bit 10 pm = pm"
  shows "SV39_GET_PERM (SV39_PTE (drop_bit 12 pa + of_nat (unat d div 4096)) pm) = pm"
proof (rule bit_eqI)
  fix i show "bit (SV39_GET_PERM (SV39_PTE (drop_bit 12 pa + of_nat (unat d div 4096)) pm)) i \<longleftrightarrow> bit pm i"
    unfolding SV39_GET_PERM_eq SV39_PTE_eq bit_take_bit_iff bit_or_iff bit_push_bit_iff
    using assms(3) by (cases "i < 10") (auto simp: take_bit_small)
qed

subsection \<open>An empty table\<close>

lemma empty_root:
  assumes "\<And>i. i < 512 \<Longrightarrow> \<not> PTE_HAS_V (m (pte_addr root i))" "ok_path p"
  shows "tbl_at m root p = (if p = [] then Some root else None)"
  using assms by (cases p) (auto simp: ok_path_def)

lemma empty_root_ok:
  assumes "buddy_inv (vbuddy s)" "root \<in> owned_pages (vbuddy s)"
    and "\<And>i. i < 512 \<Longrightarrow> \<not> PTE_HAS_V (vmem s (pte_addr root i))"
  shows "pt_ok root s" "tables (vmem s) root = {root}"
    "\<And>x. x < 2 ^ 27 \<Longrightarrow> leaf_pte (vmem s) root x = 0"
proof -
  have E: "tbl_at (vmem s) root p = (if p = [] then Some root else None)" if "ok_path p" for p
    by (rule empty_root [OF _ that]) (rule assms(3))
  have "page_aligned root" by (rule frames.owned_aligned [OF assms(1,2)])
  then show "pt_ok root s" using assms(1,2) E by (simp add: pt_ok_def pt_wf_def)
  have "root \<in> tables (vmem s) root"
    unfolding tables_def by (rule CollectI, rule exI [of _ "[]"]) (simp add: ok_path_def)
  moreover have "tables (vmem s) root \<subseteq> {root}" using E by (auto simp: tables_def split: if_splits)
  ultimately show "tables (vmem s) root = {root}" by blast
  fix x :: nat assume x: "x < 2 ^ 27"
  obtain a b c where v: "vidx x = (a, b, c)" by (cases "vidx x") auto
  have "ok_path [a, b]" using vidx_bounds [OF v] vidx_first [OF x v] by (simp add: ok_path2)
  from E [OF this] show "leaf_pte (vmem s) root x = 0" by (simp add: leaf_pte_def v del: tbl_at.simps)
qed

subsection \<open>Another tree in the same memory\<close>

lemma grows_other:
  assumes g: "grows root s s'" and wf: "pt_wf (vmem s) (owned_pages (vbuddy s)) root2"
    and dis: "tables (vmem s) root \<inter> tables (vmem s) root2 = {}"
  shows "\<And>p. ok_path p \<Longrightarrow> tbl_at (vmem s') root2 p = tbl_at (vmem s) root2 p"
    "\<And>x. x < 2 ^ 27 \<Longrightarrow> leaf_pte (vmem s') root2 x = leaf_pte (vmem s) root2 x"
    "pt_wf (vmem s') (owned_pages (vbuddy s')) root2"
    "tables (vmem s') root \<inter> tables (vmem s') root2 = {}"
proof -
  have word: "vmem s' (pte_addr t i) = vmem s (pte_addr t i)"
    if "ok_path p" "tbl_at (vmem s) root2 p = Some t" "i < 512" for p t i
  proof -
    have "t \<in> tables (vmem s) root2" using that by (auto simp: tables_def)
    then have "t \<in> owned_pages (vbuddy s) - tables (vmem s) root"
      using pt_wfD(1) [OF wf that(1,2)] dis by blast
    then show ?thesis
      using g page_words [OF pt_wfD(2) [OF wf that(1,2)] that(3)] by (simp add: grows_def)
  qed
  show same: "tbl_at (vmem s') root2 p = tbl_at (vmem s) root2 p" if p: "ok_path p" for p
  proof (rule tbl_at_cong)
    fix q i r t assume "p = q @ i # r" "tbl_at (vmem s) root2 q = Some t"
    then show "vmem s' (pte_addr t i) = vmem s (pte_addr t i)"
      using word [of q t i] p by (simp add: ok_path_def)
  qed
  have tb: "tables (vmem s') root2 = tables (vmem s) root2"
    unfolding tables_def by (rule Collect_cong) (auto simp: same)
  have own: "owned_pages (vbuddy s) \<subseteq> owned_pages (vbuddy s')" using g by (simp add: grows_def)
  show "pt_wf (vmem s') (owned_pages (vbuddy s')) root2"
    using wf own unfolding pt_wf_def by (auto simp: same subset_iff)
  have "tables (vmem s) root2 \<subseteq> owned_pages (vbuddy s)" using wf by (auto simp: tables_def dest: pt_wfD)
  then show "tables (vmem s') root \<inter> tables (vmem s') root2 = {}"
    using g dis unfolding tb grows_def by blast
  fix x :: nat assume x: "x < 2 ^ 27"
  obtain a b c where v: "vidx x = (a, b, c)" by (cases "vidx x") auto
  have ab: "ok_path [a, b]" "c < 512" using vidx_bounds [OF v] vidx_first [OF x v] by (simp_all add: ok_path2)
  show "leaf_pte (vmem s') root2 x = leaf_pte (vmem s) root2 x"
    unfolding leaf_pte_def v prod.case same [OF ab(1)]
    using word [OF ab(1) _ ab(2)] by (cases "tbl_at (vmem s) root2 [a, b]") simp_all
qed

subsection \<open>Deleting a tree\<close>

lemma for_n_stay:
  assumes "\<And>k. i \<le> k \<Longrightarrow> k < i + n \<Longrightarrow> body k s = Some s"
  shows "for_n body i n s = Some s"
  using assms by (induction n arbitrary: i) auto

lemma for_range_stay:
  "(\<And>k. lo \<le> k \<Longrightarrow> k < hi \<Longrightarrow> body k s = Some s) \<Longrightarrow> for_range lo hi body s = Some s"
  unfolding for_range_def by (rule for_n_stay) simp

lemma PTES_512: "PTES = 512"
  by (simp add: PTES_def PGSIZE_def)

lemma pte_table_eq: "PA2VA (PPN2PHYS (SV39_GET_PPN pte)) = pte_table pte"
  by (simp add: pte_table_def SV39_GET_PPN_def)

lemma delete_mapping_eq:
  assumes inv: "buddy_inv (vbuddy s)"
    and live: "\<And>t. t \<in> tables (vmem s) root \<Longrightarrow> t \<noteq> root \<Longrightarrow> live (vbuddy s) (pfn_of_va t)"
    and wf: "pt_wf (vmem s) own root"
  shows "delete_mapping root s = Some (s\<lparr>vmem := zero_page root (vmem s)\<rparr>)"
proof -
  have stay: "free_table t s = Some s" if "ok_path p" "p \<noteq> []" "tbl_at (vmem s) root p = Some t" for p t
  proof -
    have "t \<in> tables (vmem s) root" using that by (auto simp: tables_def)
    moreover have "t \<noteq> root"
      using pt_wfD(3) [OF wf that(1,3), of "[]"] that(2) by (auto simp: ok_path_def)
    ultimately have "live (vbuddy s) (pfn_of_va t)" by (rule live)
    from free_live_noop [OF inv this] show ?thesis by (simp add: free_table_def free_pages_def)
  qed
  have s1: "free_table (pte_table (vmem s (pte_addr root i))) s = Some s"
    if "i < 512" "PTE_HAS_V (vmem s (pte_addr root i))" for i
    by (rule stay [of "[i]"]) (use that in \<open>simp_all add: ok_path_def\<close>)
  have s2: "free_table (pte_table (vmem s (pte_addr (pte_table (vmem s (pte_addr root i))) j))) s = Some s"
    if "i < 512" "PTE_HAS_V (vmem s (pte_addr root i))" "j < 512"
      "PTE_HAS_V (vmem s (pte_addr (pte_table (vmem s (pte_addr root i))) j))" for i j
    by (rule stay [of "[i, j]"]) (use that in \<open>simp_all add: ok_path_def\<close>)
  have inner: "for_range 0 512 (\<lambda>j s.
          let pte2 = vmem s (pte_addr (pte_table (vmem s0 (pte_addr root i))) j) in
          if PTE_HAS_V pte2 then
            let lv3 = pte_table pte2 in
            if lv3 < VM_START \<or> lv3 \<ge> VM_END then Some s else free_table lv3 s
          else Some s) s = Some s"
    if "i < 512" "PTE_HAS_V (vmem s (pte_addr root i))" "s0 = s" for i s0
    by (rule for_range_stay) (use s2 that in \<open>simp add: Let_def\<close>)
  have "for_range 0 512 (\<lambda>i s.
            let pte = vmem s (pte_addr root i) in
            if PTE_HAS_V pte then
              let lv2 = pte_table pte in
              if lv2 < VM_START \<or> lv2 \<ge> VM_END then Some s
              else do {
                s1 \<leftarrow> for_range 0 512 (\<lambda>j s.
                       let pte2 = vmem s (pte_addr lv2 j) in
                       if PTE_HAS_V pte2 then
                         let lv3 = pte_table pte2 in
                         if lv3 < VM_START \<or> lv3 \<ge> VM_END then Some s else free_table lv3 s
                       else Some s) s;
                free_table lv2 s1 }
            else Some s) s = Some s"
    by (rule for_range_stay) (use inner s1 in \<open>simp add: Let_def\<close>)
  then show ?thesis unfolding delete_mapping_def PTES_512 pte_table_eq by simp
qed

subsection \<open>States of the witnesses\<close>

text \<open>Two empty root tables at the frames 0 and 1 of the small machine, and a data page at frame 2.\<close>

definition demo_vm :: vm where
  "demo_vm = \<lparr>vmem = (\<lambda>a. 0), vbuddy = snd (the (get_pages alloc_page 3 demo_buddy))\<rparr>"

abbreviation "root_a \<equiv> va_of 0"
abbreviation "root_b \<equiv> va_of 1"

text \<open>The state after mapping one page at \<open>0x10000\<close> to frame 2, readable and for the user.\<close>

definition demo_vm' :: vm where
  "demo_vm' = the (create_mapping root_a 0x10000 0x80002000 0x1000 (SV39_PTE_R OR SV39_PTE_U) demo_vm)"

lemma demo_pages: "get_pages alloc_page 3 demo_buddy = Some ([va_of 0, va_of 1, va_of 2], vbuddy demo_vm)"
proof -
  have "map_option fst (get_pages alloc_page 3 demo_buddy) = Some [va_of 0, va_of 1, va_of 2]" by code_simp
  then show ?thesis by (auto simp: demo_vm_def)
qed

lemma demo_roots: "pt_ok root_a demo_vm" "pt_ok root_b demo_vm"
  "tables (vmem demo_vm) root_a = {root_a}" "tables (vmem demo_vm) root_b = {root_b}"
  "x < 2 ^ 27 \<Longrightarrow> leaf_pte (vmem demo_vm) root_a x = 0"
proof -
  note G = frames.get_pages_fresh [OF demo_inv demo_pages]
  have i: "buddy_inv (vbuddy demo_vm)" and "root_a \<in> owned_pages (vbuddy demo_vm)"
    "root_b \<in> owned_pages (vbuddy demo_vm)" using G by simp_all
  note e = empty_root_ok [OF i this(2)] empty_root_ok [OF i this(3)]
  have z: "\<not> PTE_HAS_V (vmem demo_vm a)" for a by (simp add: demo_vm_def)
  show "pt_ok root_a demo_vm" "pt_ok root_b demo_vm" "tables (vmem demo_vm) root_a = {root_a}"
    "tables (vmem demo_vm) root_b = {root_b}" "x < 2 ^ 27 \<Longrightarrow> leaf_pte (vmem demo_vm) root_a x = 0"
    using e z by simp_all
qed

lemma demo_maps: "create_mapping root_a 0x10000 0x80002000 0x1000 (SV39_PTE_R OR SV39_PTE_U) demo_vm = Some demo_vm'"
proof -
  have "create_mapping root_a 0x10000 0x80002000 0x1000 (SV39_PTE_R OR SV39_PTE_U) demo_vm \<noteq> None"
    by code_simp
  then show ?thesis by (auto simp: demo_vm'_def)
qed

lemma demo_vpns: "vpn_of 0x10000 = 16" "vpn_of (0x10000 + 0x1000 - 1) = 16"
  by (simp_all add: vpn_of_def)

lemma demo_vm'_leaf:
  "pt_ok root_a demo_vm'" "x < 2 ^ 27 \<Longrightarrow> leaf_pte (vmem demo_vm') root_a x = (if x = 16 then 0x20000853 else 0)"
proof -
  note C = create_mapping_ok [OF demo_roots(1) _ demo_maps, unfolded demo_vpns, OF order_refl]
  show "pt_ok root_a demo_vm'" by (rule C(1))
  have "SV39_PTE (drop_bit 12 0x80002000 + of_nat 0) (mapping_perm (SV39_PTE_R OR SV39_PTE_U)) = 0x20000853"
    by code_simp
  then show "x < 2 ^ 27 \<Longrightarrow> leaf_pte (vmem demo_vm') root_a x = (if x = 16 then 0x20000853 else 0)"
    using C(3) demo_roots(5) by (auto simp del: of_nat_0)
qed

lemma demo_data_page: "va_of ` block_pages (vbuddy demo_vm') 2 \<inter> tables (vmem demo_vm') root_a = {}"
proof -
  have inv: "buddy_inv (vbuddy demo_vm)" using demo_roots(1) by (simp add: pt_ok_def)
  have lv: "live (vbuddy demo_vm) 2" unfolding live_def by code_simp
  note C = create_mapping_ok [OF demo_roots(1) _ demo_maps, unfolded demo_vpns, OF order_refl]
  have "block_pages (vbuddy demo_vm') 2 = block_pages (vbuddy demo_vm) 2" by code_simp
  moreover have "block_pages (vbuddy demo_vm) 2 = {2}" by code_simp
  moreover have "va_of 2 \<notin> tables (vmem demo_vm') root_a"
  proof
    assume "va_of 2 \<in> tables (vmem demo_vm') root_a"
    moreover have "va_of 2 \<in> owned_pages (vbuddy demo_vm)"
      using frames.get_pages_fresh [OF demo_inv demo_pages] by simp
    ultimately have "va_of 2 \<in> {root_a}" using C(2) demo_roots(3) by (auto simp: grows_def)
    moreover have "va_of 2 \<noteq> root_a" by code_simp
    ultimately show False by simp
  qed
  ultimately show ?thesis by simp
qed

subsection \<open>Properties\<close>

text \<open>
  The page walk: on a well-formed table \<open>walk_page_table\<close> returns the physical address given by the
  last-level entry of the page and the offset of the address, and \<open>INVALID_PA\<close> exactly when that entry
  or a table on the way to it is not valid.
\<close>

theorem walk_page_table_correct:
  assumes "pt_wf (vmem s) own root"
  shows "walk_page_table root va s =
     (if PTE_HAS_V (leaf_pte (vmem s) root (vpn_of va))
      then push_bit 12 (SV39_GET_PPN (leaf_pte (vmem s) root (vpn_of va))) + take_bit 12 va else INVALID_PA)"
  by (rule walk_page_table_eq [OF assms])

theorem walk_page_table_correct_witness:
  "walk_page_table root_a 0x10123 demo_vm' = 0x80002123 \<and> walk_page_table root_a 0x11000 demo_vm' = INVALID_PA"
proof -
  have wf: "pt_wf (vmem demo_vm') (owned_pages (vbuddy demo_vm')) root_a"
    using demo_vm'_leaf(1) by (simp add: pt_ok_def)
  have l: "leaf_pte (vmem demo_vm') root_a 16 = 0x20000853" "leaf_pte (vmem demo_vm') root_a 17 = 0"
    using demo_vm'_leaf(2) by simp_all
  have v: "vpn_of 0x10123 = 16" "vpn_of 0x11000 = 17" by (simp_all add: vpn_of_def)
  have c: "PTE_HAS_V 0x20000853" "push_bit 12 (SV39_GET_PPN 0x20000853) + take_bit 12 0x10123 = 0x80002123"
    by code_simp+
  show ?thesis
    using walk_page_table_correct [OF wf, of "0x10123"] walk_page_table_correct [OF wf, of "0x11000"]
    by (simp only: l v c if_True if_False not_valid_0 conj_absorb)
qed

text \<open>
  C10. \<open>create_mapping\<close> maps exactly the requested range: entry \<open>k\<close> of the range holds the \<open>k\<close>-th physical page
  number with the permissions, every other entry keeps its value, and the tables still form a tree of
  owned pages. Intermediate tables are made on demand over all three levels.
\<close>

theorem create_mapping_exact:
  assumes "pt_ok root s" and "vpn_of va \<le> vpn_of (va + sz - 1)" and "create_mapping root va pa sz perm s = Some s'"
  shows "pt_ok root s' \<and>
     (\<forall>x < 2 ^ 27. leaf_pte (vmem s') root x =
        (if vpn_of va \<le> x \<and> x \<le> vpn_of (va + sz - 1)
         then SV39_PTE (drop_bit 12 pa + of_nat (x - vpn_of va)) (mapping_perm perm)
         else leaf_pte (vmem s) root x))"
  using create_mapping_ok [OF assms] by blast

theorem create_mapping_exact_witness:
  "pt_ok root_a demo_vm' \<and> leaf_pte (vmem demo_vm') root_a 17 = 0"
  using create_mapping_exact [OF demo_roots(1) _ demo_maps, unfolded demo_vpns, OF order_refl] demo_roots(5)
  by simp

text \<open>
  C8. Translation after mapping: every address of a mapped region is translated to the physical
  address at the same offset, and the entry carries the requested permissions together with V, A and,
  for writable pages, D.
\<close>

theorem create_mapping_translates:
  assumes "pt_ok root s" and "page_aligned va" and "page_aligned pa" and "d < sz"
    and "unat va mod 2 ^ 39 + unat sz \<le> 2 ^ 39" and "unat pa + unat sz \<le> 2 ^ 56"
    and "take_bit 10 perm = perm" and "create_mapping root va pa sz perm s = Some s'"
  shows "walk_page_table root (va + d) s' = pa + d \<and>
     SV39_GET_PERM (leaf_pte (vmem s') root (vpn_of (va + d))) = mapping_perm perm"
proof -
  have d: "unat d < unat sz" using assms(4) by (simp add: word_less_nat_alt)
  have sz1: "unat (sz - 1) = unat sz - 1" by (rule unat_minus_one) (use d in auto)
  have V: "vpn_of (va + e) = vpn_of va + unat e div 4096" if "unat e < unat sz" for e
    by (rule vpn_of_add [OF assms(2)]) (use that assms(5) in linarith)
  have hi: "vpn_of (va + sz - 1) = vpn_of va + (unat sz - 1) div 4096"
    using V [of "sz - 1"] sz1 d by (simp add: add_diff_eq)
  note C = create_mapping_ok [OF assms(1) _ assms(8), unfolded hi, OF le_add1]
  have "vpn_of (va + d) < 2 ^ 27" by (simp add: vpn_of_def)
  moreover have "vpn_of (va + d) \<le> vpn_of va + (unat sz - 1) div 4096"
    using V [OF d] d by (simp add: div_le_mono)
  ultimately have leaf: "leaf_pte (vmem s') root (vpn_of (va + d)) =
      SV39_PTE (drop_bit 12 pa + of_nat (unat d div 4096)) (mapping_perm perm)"
    using C(3) [of "vpn_of (va + d)"] V [OF d] by simp
  note small = mapping_perm_small [OF assms(7)]
  have fits: "unat pa + unat d < 2 ^ 56" using assms(6) d by linarith
  have "pt_wf (vmem s') (owned_pages (vbuddy s')) root" using C(1) by (simp add: pt_ok_def)
  from walk_page_table_eq [OF this, of "va + d"]
  have "walk_page_table root (va + d) s' = pa + d"
    using translate [OF assms(2,3) fits small] by (simp add: leaf SV39_PTE_HAS_V mapping_perm_V)
  moreover have "SV39_GET_PERM (leaf_pte (vmem s') root (vpn_of (va + d))) = mapping_perm perm"
    unfolding leaf by (rule translate_perm [OF assms(3) fits small])
  ultimately show ?thesis by blast
qed

theorem create_mapping_translates_witness:
  "walk_page_table root_a (0x10000 + 0x234) demo_vm' = 0x80002000 + 0x234"
  using create_mapping_translates [OF demo_roots(1) _ _ _ _ _ _ demo_maps, of "0x234"]
  by (simp add: page_aligned_def SV39_PTE_R_def SV39_PTE_U_def)

text \<open>
  C9. Isolation of address spaces: mapping in one tree leaves the translation of every address in any
  other well-formed tree as it was, and the two trees still share no table.
\<close>

theorem create_mapping_isolated:
  assumes "pt_ok root s" and "pt_ok root2 s" and "tables (vmem s) root \<inter> tables (vmem s) root2 = {}"
    and "vpn_of va \<le> vpn_of (va + sz - 1)" and "create_mapping root va pa sz perm s = Some s'"
  shows "pt_ok root2 s' \<and> tables (vmem s') root \<inter> tables (vmem s') root2 = {} \<and>
     (\<forall>a. walk_page_table root2 a s' = walk_page_table root2 a s)"
proof -
  note C = create_mapping_ok [OF assms(1,4,5)]
  have wf: "pt_wf (vmem s) (owned_pages (vbuddy s)) root2" using assms(2) by (simp add: pt_ok_def)
  note O = grows_other [OF C(2) wf assms(3)]
  have "walk_page_table root2 a s' = walk_page_table root2 a s" for a
  proof -
    have "vpn_of a < 2 ^ 27" by (simp add: vpn_of_def)
    then show ?thesis by (simp only: walk_page_table_eq [OF wf] walk_page_table_eq [OF O(3)] O(2))
  qed
  moreover have "pt_ok root2 s'" using O(3) C(1) by (simp add: pt_ok_def)
  ultimately show ?thesis using O(4) by blast
qed

theorem create_mapping_isolated_witness:
  "\<forall>a. walk_page_table root_b a demo_vm' = walk_page_table root_b a demo_vm"
proof -
  have "root_a \<noteq> root_b" by code_simp
  then have "tables (vmem demo_vm) root_a \<inter> tables (vmem demo_vm) root_b = {}"
    unfolding demo_roots(3,4) by blast
  from create_mapping_isolated [OF demo_roots(1,2) this _ demo_maps] demo_vpns show ?thesis by simp
qed





end
