(* ===== verification/Vma.thy ===== *)
theory Vma
  imports PageTable_Claims
begin

unbundle bit_operations_syntax

text \<open>
  The memory areas of a process: \<open>struct mm_struct\<close> and \<open>struct vm_area_struct\<close> of \<open>proc.h\<close> and the
  functions of \<open>proc.c\<close> on them. The structures live in typed heaps indexed by their address, since the
  areas of one \<open>mm_struct\<close> form a doubly linked list through the slots of the page that holds it and
  share a free list. Following the null pointer fails; a list that never ends makes the loops
  undefined.
\<close>

definition VM_READ :: u32 where [kdefs]: "VM_READ = 0x01"
definition VM_WRITE :: u32 where [kdefs]: "VM_WRITE = 0x02"
definition VM_EXEC :: u32 where [kdefs]: "VM_EXEC = 0x04"
definition VM_ANON :: u32 where [kdefs]: "VM_ANON = 0x08"

record vm_area =
  vm_mm :: u64
  vm_start :: u64
  vm_end :: u64
  vm_flags :: u32
  vm_prev :: u64
  vm_next :: u64
  vm_file :: u64
  vm_pgoff :: u64
  vm_filesz :: u64

record mm_struct =
  mmap :: u64
  num_vmas :: u64
  free_vma_list :: u64

record mmst =
  mms :: "u64 \<Rightarrow> mm_struct"
  vmas :: "u64 \<Rightarrow> vm_area"

definition sizeof_mm_struct :: u64 where [kdefs]: "sizeof_mm_struct = 24"
definition sizeof_vm_area :: u64 where [kdefs]: "sizeof_vm_area = 72"

definition NR_VMA_SLOTS :: nat where
  "NR_VMA_SLOTS = unat ((PGSIZE - sizeof_mm_struct) div sizeof_vm_area)"

definition zero_vma :: vm_area where
  "zero_vma = \<lparr>vm_mm = 0, vm_start = 0, vm_end = 0, vm_flags = 0, vm_prev = 0, vm_next = 0,
               vm_file = 0, vm_pgoff = 0, vm_filesz = 0\<rparr>"

definition vupd :: "u64 \<Rightarrow> (vm_area \<Rightarrow> vm_area) \<Rightarrow> mmst \<Rightarrow> mmst" where
  "vupd p f st = st\<lparr>vmas := (vmas st)(p := f (vmas st p))\<rparr>"

definition mupd :: "u64 \<Rightarrow> (mm_struct \<Rightarrow> mm_struct) \<Rightarrow> mmst \<Rightarrow> mmst" where
  "mupd p f st = st\<lparr>mms := (mms st)(p := f (mms st p))\<rparr>"

definition vma_slot :: "u64 \<Rightarrow> nat \<Rightarrow> u64" where
  "vma_slot mm i = mm + sizeof_mm_struct + sizeof_vm_area * of_nat i"

subsection \<open>find_vma\<close>

partial_function (option) find_vma_loop :: "(u64 \<Rightarrow> vm_area) \<Rightarrow> u64 \<Rightarrow> u64 \<Rightarrow> u64 option" where
  "find_vma_loop h va vma =
     (if vma \<noteq> 0 then
        (if va < vm_start (h vma) then Some 0
         else if va < vm_end (h vma) then Some vma
         else find_vma_loop h va (vm_next (h vma)))
      else Some 0)"

definition find_vma :: "u64 \<Rightarrow> u64 \<Rightarrow> mmst \<Rightarrow> u64 option" where
  "find_vma mm va st = find_vma_loop (vmas st) va (mmap (mms st mm))"

subsection \<open>do_mmap\<close>

text \<open>The first area of a process: the slots behind the \<open>mm_struct\<close> are linked into the free list.\<close>

definition link_slots :: "u64 \<Rightarrow> nat \<Rightarrow> mmst \<Rightarrow> mmst" where
  "link_slots mm n st =
     fold (\<lambda>i. vupd (vma_slot mm i) (vm_next_update (\<lambda>_. vma_slot mm (i + 1)))) [0 ..< n] st"

definition mmap_first :: "u64 \<Rightarrow> mmst \<Rightarrow> u64 \<times> mmst" where
  "mmap_first mm st =
     (let st1 = mupd mm (mmap_update (\<lambda>_. vma_slot mm 0)) st;
          st2 = link_slots mm (NR_VMA_SLOTS - 1) st1;
          st3 = vupd (vma_slot mm (NR_VMA_SLOTS - 1)) (vm_next_update (\<lambda>_. 0)) st2;
          st4 = mupd mm (free_vma_list_update (\<lambda>_. mmap (mms st3 mm))) st3;
          vma = free_vma_list (mms st4 mm);
          st5 = mupd mm (free_vma_list_update (\<lambda>_. vm_next (vmas st4 vma))) st4
      in (vma, vupd vma (\<lambda>v. v\<lparr>vm_prev := 0, vm_next := 0\<rparr>) st5))"

partial_function (option) mmap_scan :: "(u64 \<Rightarrow> vm_area) \<Rightarrow> u64 \<Rightarrow> u64 \<Rightarrow> u64 \<Rightarrow> (u64 \<times> u64) option" where
  "mmap_scan h va prev cur =
     (if cur \<noteq> 0 then
        (if va < vm_start (h cur) then Some (prev, cur)
         else mmap_scan h va cur (vm_next (h cur)))
      else Some (prev, cur))"

definition mmap_insert :: "u64 \<Rightarrow> u64 \<Rightarrow> mmst \<Rightarrow> (u64 \<times> mmst) option" where
  "mmap_insert mm va st =
     (let vma = free_vma_list (mms st mm) in
      if vma = 0 then None
      else
        let st1 = mupd mm (free_vma_list_update (\<lambda>_. vm_next (vmas st vma))) st;
            st2 = vupd vma (vm_next_update (\<lambda>_. 0)) st1
        in do {
          (prev, cur) \<leftarrow> mmap_scan (vmas st2) va 0 (mmap (mms st2 mm));
          Some (vma,
            if prev = 0 then
              let st3 = vupd vma (\<lambda>v. v\<lparr>vm_prev := 0, vm_next := mmap (mms st2 mm)\<rparr>) st2;
                  st4 = vupd (mmap (mms st3 mm)) (vm_prev_update (\<lambda>_. vma)) st3
              in mupd mm (mmap_update (\<lambda>_. vma)) st4
            else
              let st3 = vupd vma (\<lambda>v. v\<lparr>vm_next := cur, vm_prev := prev\<rparr>) st2;
                  st4 = vupd prev (vm_next_update (\<lambda>_. vma)) st3
              in if cur \<noteq> 0 then vupd cur (vm_prev_update (\<lambda>_. vma)) st4 else st4) })"

definition do_mmap ::
  "u64 \<Rightarrow> u64 \<Rightarrow> u64 \<Rightarrow> u32 \<Rightarrow> u64 \<Rightarrow> u64 \<Rightarrow> u64 \<Rightarrow> mmst \<Rightarrow> (u64 \<times> mmst) option" where
  "do_mmap mm va len flags file pgoff filesz st =
     do { (vma, st1) \<leftarrow> (if mmap (mms st mm) = 0 then Some (mmap_first mm st) else mmap_insert mm va st);
          let st2 = vupd vma (\<lambda>v. v\<lparr>vm_mm := mm, vm_start := va, vm_end := va + len, vm_flags := flags,
                                     vm_file := file, vm_pgoff := pgoff, vm_filesz := filesz\<rparr>) st1;
          Some (va, mupd mm (\<lambda>m. m\<lparr>num_vmas := num_vmas m + 1\<rparr>) st2) }"

subsection \<open>remove_vma\<close>

definition remove_vma :: "u64 \<Rightarrow> u64 \<Rightarrow> mmst \<Rightarrow> mmst" where
  "remove_vma mm vma st =
     (let st1 = (if vma = mmap (mms st mm) then mupd mm (mmap_update (\<lambda>_. vm_next (vmas st vma))) st else st);
          p = vm_prev (vmas st1 vma);
          st2 = (if p \<noteq> 0 then vupd p (vm_next_update (\<lambda>_. vm_next (vmas st1 vma))) st1 else st1);
          n = vm_next (vmas st2 vma);
          st3 = (if n \<noteq> 0 then vupd n (vm_prev_update (\<lambda>_. vm_prev (vmas st2 vma))) st2 else st2);
          st4 = vupd vma (\<lambda>_. zero_vma) st3;
          st5 = vupd vma (vm_next_update (\<lambda>_. free_vma_list (mms st4 mm))) st4
      in mupd mm (\<lambda>m. m\<lparr>free_vma_list := vma, num_vmas := num_vmas m - 1\<rparr>) st5)"

subsection \<open>do_munmap\<close>

text \<open>The check that the range is covered by adjacent areas; it returns the last of them.\<close>

partial_function (option) munmap_cover :: "(u64 \<Rightarrow> vm_area) \<Rightarrow> u64 \<Rightarrow> u64 \<Rightarrow> u64 option option" where
  "munmap_cover h to cur =
     (if cur \<noteq> 0 \<and> vm_end (h cur) < to then
        (if vm_next (h cur) = 0 then Some None
         else if vm_start (h (vm_next (h cur))) \<noteq> vm_end (h cur) then Some None
         else munmap_cover h to (vm_next (h cur)))
      else Some (if cur = 0 then None else Some cur))"

text \<open>The parts of a removed area outside the range are mapped again.\<close>

definition munmap_keep :: "u64 \<Rightarrow> u64 \<Rightarrow> u64 \<Rightarrow> vm_area \<Rightarrow> mmst \<Rightarrow> mmst option" where
  "munmap_keep mm va len removed st1 =
     do { st2 \<leftarrow> (if vm_start removed < va then
                   do { (r, s) \<leftarrow> do_mmap mm (vm_start removed) (va - vm_start removed) (vm_flags removed)
                                    (vm_file removed) (vm_pgoff removed) (vm_filesz removed) st1;
                        Some s }
                 else Some st1);
          if vm_end removed > va + len then
            do { (r, s) \<leftarrow> do_mmap mm (va + len) (vm_end removed - (va + len)) (vm_flags removed)
                             (vm_file removed) (vm_pgoff removed) (vm_filesz removed) st2;
                 Some s }
          else Some st2 }"

partial_function (option) munmap_loop :: "u64 \<Rightarrow> u64 \<Rightarrow> u64 \<Rightarrow> u64 \<Rightarrow> u64 \<Rightarrow> mmst \<Rightarrow> mmst option" where
  "munmap_loop mm va len end_vma vma st =
     (if vma \<noteq> end_vma then
        (if vma = 0 then None
         else
           let removed = vmas st vma; st1 = remove_vma mm vma st in
           do { st2 \<leftarrow> munmap_keep mm va len removed st1;
                munmap_loop mm va len end_vma (vm_next removed) st2 })
      else Some st)"

definition do_munmap :: "u64 \<Rightarrow> u64 \<Rightarrow> u64 \<Rightarrow> u64 \<Rightarrow> vm \<times> mmst \<Rightarrow> (int \<times> vm \<times> mmst) option" where
  "do_munmap pgd mm va len s =
     (let (v, st) = s in
      do { vma \<leftarrow> find_vma mm va st;
           if vma = 0 then Some (-1, v, st)
           else if va AND (PGSIZE - 1) \<noteq> 0 \<or> len AND (PGSIZE - 1) \<noteq> 0 then Some (-1, v, st)
           else if vm_start (vmas st vma) > va then Some (-1, v, st)
           else do {
             c \<leftarrow> munmap_cover (vmas st) (va + len) vma;
             case c of
               None \<Rightarrow> Some (-1, v, st)
             | Some cur \<Rightarrow>
                 do { v' \<leftarrow> remove_mapping pgd va len v;
                      st' \<leftarrow> munmap_loop mm va len (vm_next (vmas st cur)) vma st;
                      Some (1, v', st') } } })"

subsection \<open>copy_mm\<close>

partial_function (option) copy_vmas :: "u64 \<Rightarrow> u64 \<Rightarrow> u64 \<Rightarrow> u64 \<Rightarrow> mmst \<Rightarrow> mmst option" where
  "copy_vmas dst delta src_vma dst_vma st =
     (if src_vma \<noteq> 0 then
        (if dst_vma = 0 then None
         else
           let sv = vmas st src_vma;
               dv = sv\<lparr>vm_mm := dst,
                       vm_prev := (if vm_prev sv = 0 then 0 else vm_prev sv + delta),
                       vm_next := (if vm_next sv = 0 then 0 else vm_next sv + delta)\<rparr>
           in copy_vmas dst delta (vm_next sv) (vm_next dv) (vupd dst_vma (\<lambda>_. dv) st))
      else Some st)"

definition copy_mm :: "u64 \<Rightarrow> u64 \<Rightarrow> mmst \<Rightarrow> mmst option" where
  "copy_mm dst src st =
     (if mmap (mms st src) = 0 then Some (mupd dst (\<lambda>m. m\<lparr>mmap := 0, num_vmas := 0\<rparr>) st)
      else
        let delta = dst - src;
            st1 = mupd dst (\<lambda>m. m\<lparr>mmap := mmap (mms st src) + delta, num_vmas := num_vmas (mms st src)\<rparr>) st
        in copy_vmas dst delta (mmap (mms st1 src)) (mmap (mms st1 dst)) st1)"

subsection \<open>Protection flags\<close>

text \<open>\<open>to_vm_flags\<close> of \<open>sys_mmap\<close>; \<open>prot\<close> and \<open>flags\<close> are C \<open>int\<close>s read as 32-bit words.\<close>

definition to_vm_flags :: "u32 \<Rightarrow> u32 \<Rightarrow> u32" where
  "to_vm_flags prot flags =
     (let f = 0;
          f = (if prot AND 0x01 \<noteq> 0 then f OR VM_READ else f);
          f = (if prot AND 0x02 \<noteq> 0 then f OR VM_WRITE else f);
          f = (if prot AND 0x04 \<noteq> 0 then f OR VM_EXEC else f)
      in if flags AND 0x20 \<noteq> 0 then f OR VM_ANON else f)"

end
