(* ===== verification/Vma_Inv.thy ===== *)
theory Vma_Inv
  imports Vma
begin

text \<open>
  The area list of an \<open>mm_struct\<close> as an abstract list. \<open>mm_wf st mm vs fs\<close>: \<open>vs\<close> are the slots in use in
  list order and \<open>fs\<close> the free slots. The operations are then functions on the list of areas.
\<close>

subsection \<open>Doubly linked segments\<close>

definition hd0 :: "u64 \<Rightarrow> u64 list \<Rightarrow> u64" where "hd0 n xs = (case xs of [] \<Rightarrow> n | a # as \<Rightarrow> a)"
definition last0 :: "u64 \<Rightarrow> u64 list \<Rightarrow> u64" where "last0 p xs = (if xs = [] then p else last xs)"

lemma hd0_simps [simp]: "hd0 n [] = n" "hd0 n (a # as) = a"
  by (simp_all add: hd0_def)

lemma last0_simps [simp]: "last0 p [] = p" "last0 p (a # as) = last0 a as" "last0 p (as @ [b]) = b"
  by (simp_all add: last0_def)

lemma hd0_append: "hd0 n (xs @ ys) = hd0 (hd0 n ys) xs"
  by (cases xs) auto

text \<open>
  \<open>dlink h p xs n\<close>: the slots \<open>xs\<close> are linked in order, the first one's \<open>vm_prev\<close> is \<open>p\<close> and the last
  one's \<open>vm_next\<close> is \<open>n\<close>.
\<close>

fun dlink :: "(u64 \<Rightarrow> vm_area) \<Rightarrow> u64 \<Rightarrow> u64 list \<Rightarrow> u64 \<Rightarrow> bool" where
  "dlink h p [] n \<longleftrightarrow> True"
| "dlink h p (a # as) n \<longleftrightarrow> vm_prev (h a) = p \<and> vm_next (h a) = hd0 n as \<and> dlink h a as n"

lemma dlink_append: "dlink h p (xs @ ys) n \<longleftrightarrow> dlink h p xs (hd0 n ys) \<and> dlink h (last0 p xs) ys n"
  by (induction xs arbitrary: p) (auto simp: hd0_append)

lemma dlink_cong:
  "(\<And>a. a \<in> set xs \<Longrightarrow> vm_prev (h' a) = vm_prev (h a) \<and> vm_next (h' a) = vm_next (h a)) \<Longrightarrow>
   dlink h' p xs n = dlink h p xs n"
  by (induction xs arbitrary: p) auto

lemma dlink_outside: "a \<notin> set xs \<Longrightarrow> dlink (h(a := v)) p xs n = dlink h p xs n"
  by (rule dlink_cong) auto

text \<open>Retargeting the outer pointers of a segment.\<close>

lemma dlink_set_next:
  assumes "dlink h p xs n" "distinct xs" "xs \<noteq> []"
  shows "dlink (h(last xs := (h (last xs))\<lparr>vm_next := n'\<rparr>)) p xs n'"
proof -
  obtain ys b where xs: "xs = ys @ [b]" using assms(3) by (metis append_butlast_last_id)
  then have "b \<notin> set ys" using assms(2) by simp
  then show ?thesis using assms(1) by (simp add: xs dlink_append dlink_outside)
qed

lemma dlink_set_prev:
  assumes "dlink h p xs n" "distinct xs" "xs \<noteq> []"
  shows "dlink (h(hd xs := (h (hd xs))\<lparr>vm_prev := p'\<rparr>)) p' xs n"
  using assms by (cases xs) (auto simp: dlink_outside)

definition list_ok :: "(u64 \<Rightarrow> vm_area) \<Rightarrow> u64 \<Rightarrow> u64 list \<Rightarrow> bool" where
  "list_ok h p xs \<longleftrightarrow> p = hd0 0 xs \<and> 0 \<notin> set xs \<and> distinct xs \<and> dlink h 0 xs 0"

definition area_of :: "vm_area \<Rightarrow> u64 \<times> u64 \<times> u32 \<times> u64 \<times> u64 \<times> u64" where
  "area_of v = (vm_start v, vm_end v, vm_flags v, vm_file v, vm_pgoff v, vm_filesz v)"

definition areas :: "(u64 \<Rightarrow> vm_area) \<Rightarrow> u64 list \<Rightarrow> (u64 \<times> u64 \<times> u32 \<times> u64 \<times> u64 \<times> u64) list" where
  "areas h xs = map (area_of \<circ> h) xs"

abbreviation "a_start a \<equiv> fst a"
abbreviation "a_end a \<equiv> fst (snd a)"

definition free_chain :: "(u64 \<Rightarrow> vm_area) \<Rightarrow> u64 \<Rightarrow> u64 list \<Rightarrow> bool" where
  "free_chain h p fs \<longleftrightarrow> chain (\<lambda>a. vm_next (h a)) p fs"

definition slots :: "u64 \<Rightarrow> u64 set" where
  "slots mm = vma_slot mm ` {..<NR_VMA_SLOTS}"

definition mm_wf :: "mmst \<Rightarrow> u64 \<Rightarrow> u64 list \<Rightarrow> u64 list \<Rightarrow> bool" where
  "mm_wf st mm vs fs \<longleftrightarrow>
     list_ok (vmas st) (mmap (mms st mm)) vs \<and> set vs \<subseteq> slots mm \<and>
     (vs \<noteq> [] \<longrightarrow> free_chain (vmas st) (free_vma_list (mms st mm)) fs \<and> set fs \<subseteq> slots mm \<and>
        set vs \<inter> set fs = {} \<and> length vs + length fs = NR_VMA_SLOTS) \<and>
     num_vmas (mms st mm) = of_nat (length vs) \<and> (\<forall>a \<in> set vs. vm_mm (vmas st a) = mm)"

subsection \<open>Looking up an address\<close>

fun find_area :: "(u64 \<Rightarrow> vm_area) \<Rightarrow> u64 \<Rightarrow> u64 list \<Rightarrow> u64" where
  "find_area h va [] = 0"
| "find_area h va (a # as) =
     (if va < vm_start (h a) then 0 else if va < vm_end (h a) then a else find_area h va as)"

lemma find_vma_loop_list:
  "dlink h p xs 0 \<Longrightarrow> 0 \<notin> set xs \<Longrightarrow> find_vma_loop h va (hd0 0 xs) = Some (find_area h va xs)"
proof (induction xs arbitrary: p)
  case Nil
  show ?case by (subst find_vma_loop.simps) simp
next
  case (Cons a xs)
  have "find_vma_loop h va (hd0 0 xs) = Some (find_area h va xs)"
    by (rule Cons.IH [of a]) (use Cons.prems in simp_all)
  then show ?case using Cons.prems by (subst find_vma_loop.simps) simp
qed

lemma find_vma_list: "list_ok (vmas st) (mmap (mms st mm)) vs \<Longrightarrow> find_vma mm va st = Some (find_area (vmas st) va vs)"
  using find_vma_loop_list [of "vmas st" 0 vs va] by (simp add: find_vma_def list_ok_def)

text \<open>The areas are ordered by address and do not overlap.\<close>

definition sorted_areas :: "(u64 \<times> u64 \<times> 'a) list \<Rightarrow> bool" where
  "sorted_areas xs \<longleftrightarrow> sorted_wrt (\<lambda>a b. a_end a \<le> a_start b) xs \<and> (\<forall>a \<in> set xs. a_start a < a_end a)"

lemma sorted_areas_Cons:
  "sorted_areas (a # xs) \<longleftrightarrow> a_start a < a_end a \<and> (\<forall>b \<in> set xs. a_end a \<le> a_start b) \<and> sorted_areas xs"
  by (auto simp: sorted_areas_def)

lemma find_area_correct:
  assumes "sorted_areas (areas h vs)" "0 \<notin> set vs"
  shows "(find_area h va vs \<noteq> 0 \<longrightarrow> find_area h va vs \<in> set vs \<and>
            vm_start (h (find_area h va vs)) \<le> va \<and> va < vm_end (h (find_area h va vs))) \<and>
         (find_area h va vs = 0 \<longrightarrow> (\<forall>a \<in> set vs. \<not> (vm_start (h a) \<le> va \<and> va < vm_end (h a))))"
  using assms
proof (induction vs)
  case Nil
  then show ?case by simp
next
  case (Cons a vs)
  have s: "vm_start (h a) < vm_end (h a)" "sorted_areas (areas h vs)"
    "\<And>b. b \<in> set vs \<Longrightarrow> vm_end (h a) \<le> vm_start (h b)"
    using Cons.prems(1) by (auto simp: areas_def sorted_areas_Cons area_of_def)
  note IH = Cons.IH [OF s(2)]
  show ?case
  proof (cases "va < vm_start (h a)")
    case True
    then have "\<not> vm_start (h b) \<le> va" if "b \<in> set vs" for b using s(1) s(3) [OF that] by auto
    then show ?thesis using True by auto
  next
    case False
    then show ?thesis using IH Cons.prems(2) by auto
  qed
qed

subsection \<open>Inserting an area\<close>

fun insert_area :: "(u64 \<times> 'a) \<Rightarrow> (u64 \<times> 'a) list \<Rightarrow> (u64 \<times> 'a) list" where
  "insert_area a [] = [a]"
| "insert_area a (b # bs) = (if fst a < fst b then a # b # bs else b # insert_area a bs)"

lemma mmap_scan_list:
  "dlink h q xs 0 \<Longrightarrow> 0 \<notin> set xs \<Longrightarrow>
   \<exists>ys zs. xs = ys @ zs \<and> mmap_scan h va p (hd0 0 xs) = Some (last0 p ys, hd0 0 zs) \<and>
     (\<forall>a. fst a = va \<longrightarrow> insert_area a (areas h xs) = areas h ys @ a # areas h zs) \<and>
     (\<forall>a \<in> set ys. vm_start (h a) \<le> va) \<and> (zs \<noteq> [] \<longrightarrow> va < vm_start (h (hd zs)))"
proof (induction xs arbitrary: p q)
  case Nil
  show ?case by (rule exI [of _ "[]"], rule exI [of _ "[]"], subst mmap_scan.simps) (simp add: areas_def)
next
  case (Cons b xs)
  show ?case
  proof (cases "va < vm_start (h b)")
    case True
    then have "mmap_scan h va p b = Some (p, b)" using Cons.prems by (subst mmap_scan.simps) simp
    then show ?thesis using True
      by (intro exI [of _ "[]"] exI [of _ "b # xs"]) (simp add: areas_def area_of_def)
  next
    case False
    obtain ys zs where I: "xs = ys @ zs" "mmap_scan h va b (hd0 0 xs) = Some (last0 b ys, hd0 0 zs)"
      "\<forall>a. fst a = va \<longrightarrow> insert_area a (areas h xs) = areas h ys @ a # areas h zs"
      "\<forall>a \<in> set ys. vm_start (h a) \<le> va" "zs \<noteq> [] \<longrightarrow> va < vm_start (h (hd zs))"
      using Cons.IH [of b b] Cons.prems by auto
    have "mmap_scan h va p b = mmap_scan h va b (hd0 0 xs)"
      using False Cons.prems by (subst mmap_scan.simps) simp
    then show ?thesis using I False
      by (intro exI [of _ "b # ys"] exI [of _ zs]) (simp add: areas_def area_of_def)
  qed
qed

lemma dlink_insert:
  assumes d: "dlink h 0 (ys @ zs) 0" "distinct (ys @ zs)"
    and f: "vm_prev (h' f) = last0 0 ys" "vm_next (h' f) = hd0 0 zs"
    and ys: "\<And>a. a \<in> set ys \<Longrightarrow> vm_prev (h' a) = vm_prev (h a) \<and> vm_next (h' a) = (if a = last ys then f else vm_next (h a))"
    and zs: "\<And>a. a \<in> set zs \<Longrightarrow> vm_next (h' a) = vm_next (h a) \<and> vm_prev (h' a) = (if a = hd zs then f else vm_prev (h a))"
  shows "dlink h' 0 (ys @ f # zs) 0"
proof -
  have d': "dlink h 0 ys (hd0 0 zs)" "dlink h (last0 0 ys) zs 0" using d(1) by (simp_all add: dlink_append)
  have "dlink h' 0 ys f"
  proof (cases "ys = []")
    case False
    have "dlink (h(last ys := (h (last ys))\<lparr>vm_next := f\<rparr>)) 0 ys f"
      by (rule dlink_set_next [OF d'(1)]) (use d(2) False in simp_all)
    then show ?thesis using ys by (subst dlink_cong) auto
  qed simp
  moreover have "dlink h' f zs 0"
  proof (cases "zs = []")
    case False
    have "dlink (h(hd zs := (h (hd zs))\<lparr>vm_prev := f\<rparr>)) f zs 0"
      by (rule dlink_set_prev [OF d'(2)]) (use d(2) False in simp_all)
    then show ?thesis using zs by (subst dlink_cong) auto
  qed simp
  ultimately show ?thesis using f by (simp add: dlink_append)
qed

lemma last0_mem: "xs \<noteq> [] \<Longrightarrow> last0 p xs = last xs" by (simp add: last0_def)
lemma hd0_mem: "xs \<noteq> [] \<Longrightarrow> hd0 p xs = hd xs" by (cases xs) simp_all

lemma vupd_simps [simp]:
  "vmas (vupd p f st) = (vmas st)(p := f (vmas st p))" "mms (vupd p f st) = mms st"
  "mms (mupd p g st) = (mms st)(p := g (mms st p))" "vmas (mupd p g st) = vmas st"
  by (simp_all add: vupd_def mupd_def)

text \<open>
  What \<open>do_mmap\<close> leaves after choosing a slot: the slot \<open>f\<close> stands between \<open>ys\<close> and \<open>zs\<close>, no area
  data changed, and the free list lost \<open>f\<close>.
\<close>

definition inserted :: "u64 \<Rightarrow> mmst \<Rightarrow> u64 \<Rightarrow> u64 list \<Rightarrow> u64 list \<Rightarrow> u64 list \<Rightarrow> mmst \<Rightarrow> bool" where
  "inserted mm st f ys zs fs st' \<longleftrightarrow>
     list_ok (vmas st') (mmap (mms st' mm)) (ys @ f # zs) \<and>
     free_chain (vmas st') (free_vma_list (mms st' mm)) fs \<and>
     (\<forall>a \<in> set (ys @ zs). area_of (vmas st' a) = area_of (vmas st a) \<and> vm_mm (vmas st' a) = vm_mm (vmas st a)) \<and>
     num_vmas (mms st' mm) = num_vmas (mms st mm) \<and>
     (\<forall>m. m \<noteq> mm \<longrightarrow> mms st' m = mms st m) \<and>
     (\<forall>a. a \<notin> slots mm \<longrightarrow> vmas st' a = vmas st a)"

lemma mmap_insert_ok:
  assumes l: "list_ok (vmas st) (mmap (mms st mm)) (ys @ zs)" and ne: "ys @ zs \<noteq> []"
    and fr: "free_chain (vmas st) (free_vma_list (mms st mm)) (f # fs)" and d: "set (ys @ zs) \<inter> set (f # fs) = {}"
    and sl: "set (ys @ zs) \<subseteq> slots mm" "set (f # fs) \<subseteq> slots mm"
    and scan: "mmap_scan ((vmas st)(f := (vmas st f)\<lparr>vm_next := 0\<rparr>)) va 0 (mmap (mms st mm)) = Some (last0 0 ys, hd0 0 zs)"
  shows "\<exists>st'. mmap_insert mm va st = Some (f, st') \<and> inserted mm st f ys zs fs st'"
proof -
  define h where "h = vmas st"
  have L: "mmap (mms st mm) = hd0 0 (ys @ zs)" "0 \<notin> set (ys @ zs)" "distinct (ys @ zs)" "dlink h 0 (ys @ zs) 0"
    using l by (simp_all add: list_ok_def h_def)
  have F: "free_vma_list (mms st mm) = f" "f \<noteq> 0" "chain (\<lambda>a. vm_next (h a)) (vm_next (h f)) fs"
    using fr by (simp_all add: free_chain_def h_def)
  have ff: "f \<notin> set fs" using chain_distinct [OF fr [unfolded free_chain_def]] by simp
  have fn: "f \<notin> set ys" "f \<notin> set zs" using d by auto
  define st2 where "st2 = vupd f (vm_next_update (\<lambda>_. 0)) (mupd mm (free_vma_list_update (\<lambda>_. vm_next (h f))) st)"
  have st2: "vmas st2 = h(f := (h f)\<lparr>vm_next := 0\<rparr>)" "mmap (mms st2 mm) = hd0 0 (ys @ zs)"
    using L(1) by (simp_all add: st2_def h_def)
  define st' where "st' = (if last0 0 ys = 0
      then mupd mm (mmap_update (\<lambda>_. f)) (vupd (hd0 0 (ys @ zs)) (vm_prev_update (\<lambda>_. f))
             (vupd f (\<lambda>v. v\<lparr>vm_prev := 0, vm_next := hd0 0 (ys @ zs)\<rparr>) st2))
      else let st4 = vupd (last0 0 ys) (vm_next_update (\<lambda>_. f)) (vupd f (\<lambda>v. v\<lparr>vm_next := hd0 0 zs, vm_prev := last0 0 ys\<rparr>) st2)
           in if hd0 0 zs \<noteq> 0 then vupd (hd0 0 zs) (vm_prev_update (\<lambda>_. f)) st4 else st4)"
  have run: "mmap_insert mm va st = Some (f, st')"
    using scan L(1) F(2)
    by (simp add: mmap_insert_def F(1) st2_def st'_def Let_def h_def)
  have ys0: "last0 0 ys = 0 \<longleftrightarrow> ys = []" using L(2) by (metis UnI1 set_append last_in_set last0_def)
  have zs0: "hd0 0 zs = 0 \<longleftrightarrow> zs = []" using L(2) hd_in_set [of zs] by (cases zs) auto
  have h': "vm_prev (vmas st' f) = last0 0 ys \<and> vm_next (vmas st' f) = hd0 0 zs"
    "\<And>a. a \<in> set ys \<Longrightarrow> vm_prev (vmas st' a) = vm_prev (h a) \<and> vm_next (vmas st' a) = (if a = last ys then f else vm_next (h a))"
    "\<And>a. a \<in> set zs \<Longrightarrow> vm_next (vmas st' a) = vm_next (h a) \<and> vm_prev (vmas st' a) = (if a = hd zs then f else vm_prev (h a))"
  proof -
    have hz: "zs \<noteq> [] \<Longrightarrow> hd zs \<in> set zs" "ys \<noteq> [] \<Longrightarrow> last ys \<in> set ys" by simp_all
    have dj: "set ys \<inter> set zs = {}" using L(3) by simp
    show "vm_prev (vmas st' f) = last0 0 ys \<and> vm_next (vmas st' f) = hd0 0 zs"
    proof (cases "ys = []")
      case True
      then have "zs \<noteq> []" "f \<noteq> hd zs" using ne fn hz(1) by auto
      then show ?thesis using True by (auto simp: st'_def st2 hd0_mem)
    next
      case False
      then have y: "last ys \<noteq> f" "last ys \<noteq> 0" using fn hz(2) L(2) by (metis, metis UnI1 set_append)
      show ?thesis
      proof (cases "zs = []")
        case True
        then show ?thesis using False y by (simp add: st'_def st2 Let_def last0_mem)
      next
        case z: False
        then have "hd zs \<noteq> f" "hd zs \<noteq> 0" "hd zs \<noteq> last ys"
          using fn hz L(2,3) False dj by (metis, metis UnI2 set_append, metis disjoint_iff)
        then show ?thesis using False z y by (simp add: st'_def st2 Let_def last0_mem hd0_mem)
      qed
    qed
    show "vm_prev (vmas st' a) = vm_prev (h a) \<and> vm_next (vmas st' a) = (if a = last ys then f else vm_next (h a))"
      if "a \<in> set ys" for a
      using that fn hz dj ys0 zs0 by (auto simp: st'_def st2 Let_def last0_mem hd0_mem)
    show "vm_next (vmas st' a) = vm_next (h a) \<and> vm_prev (vmas st' a) = (if a = hd zs then f else vm_prev (h a))"
      if a: "a \<in> set zs" for a
    proof -
      have z: "zs \<noteq> []" "hd zs \<noteq> f" "hd zs \<noteq> 0" "a \<noteq> f"
        using a fn(2) L(2) by (auto, metis list.set_sel(1) empty_iff empty_set, metis list.set_sel(1) empty_iff empty_set)
      show ?thesis
      proof (cases "ys = []")
        case True
        then show ?thesis using z by (simp add: st'_def st2 hd0_mem)
      next
        case False
        then have "a \<noteq> last ys" "hd zs \<noteq> last ys" "last ys \<noteq> 0"
          using a z(1) dj L(2) by (metis disjoint_iff last_in_set, metis disjoint_iff last_in_set list.set_sel(1),
              metis UnI1 last_in_set set_append)
        then show ?thesis using z False by (simp add: st'_def st2 Let_def last0_mem hd0_mem)
      qed
    qed
  qed
  have "dlink (vmas st') 0 (ys @ f # zs) 0"
    by (rule dlink_insert [OF L(4,3)]) (use h' in simp_all)
  moreover have "mmap (mms st' mm) = hd0 0 (ys @ f # zs)"
    using ys0 L(1) by (cases ys) (auto simp: st'_def st2_def Let_def)
  ultimately have lo: "list_ok (vmas st') (mmap (mms st' mm)) (ys @ f # zs)"
    using L(2,3) F(2) fn by (auto simp: list_ok_def)
  have same: "area_of (vmas st' a) = area_of (h a) \<and> vm_mm (vmas st' a) = vm_mm (h a)" if "a \<noteq> f" for a
    using that by (auto simp: st'_def st2 Let_def area_of_def)
  have out: "vmas st' a = h a" if "a \<noteq> f" "a \<notin> set (ys @ zs)" for a
  proof (cases "ys = []")
    case True
    then have "hd0 0 (ys @ zs) \<noteq> a" using that(2) ne by (cases zs) auto
    then show ?thesis using that(1) True by (simp add: st'_def st2)
  next
    case False
    then have "last0 0 ys \<noteq> a" "last0 0 ys \<noteq> 0" using that(2) ys0 by (auto simp: last0_mem)
    moreover have "hd0 0 zs \<noteq> 0 \<Longrightarrow> hd0 0 zs \<noteq> a" using that(2) by (cases zs) auto
    ultimately show ?thesis using that(1) by (auto simp: st'_def st2 Let_def)
  qed
  have "chain (\<lambda>a. vm_next (vmas st' a)) (vm_next (h f)) fs"
  proof (subst chain_cong)
    show "vm_next (vmas st' a) = vm_next (h a)" if "a \<in> set fs" for a
    proof -
      have "a \<noteq> f" "a \<notin> set (ys @ zs)" using that d ff by auto
      then show ?thesis by (simp add: out)
    qed
  qed (rule F(3))
  moreover have "free_vma_list (mms st' mm) = vm_next (h f)" by (simp add: st'_def st2_def Let_def)
  ultimately have fc: "free_chain (vmas st') (free_vma_list (mms st' mm)) fs" by (simp only: free_chain_def)
  have nm: "num_vmas (mms st' mm) = num_vmas (mms st mm)" by (simp add: st'_def st2_def Let_def)
  have om: "\<forall>m. m \<noteq> mm \<longrightarrow> mms st' m = mms st m" by (simp add: st'_def st2_def Let_def)
  have keep: "\<forall>a \<in> set (ys @ zs). area_of (vmas st' a) = area_of (vmas st a) \<and> vm_mm (vmas st' a) = vm_mm (vmas st a)"
    using same fn unfolding h_def by (metis UnE set_append)
  have "\<forall>a. a \<notin> slots mm \<longrightarrow> vmas st' a = vmas st a"
    using out sl unfolding h_def by (metis list.set_intros(1) subsetD)
  then have "inserted mm st f ys zs fs st'"
    unfolding inserted_def using lo fc nm om keep by blast
  then show ?thesis using run by blast
qed

subsection \<open>The first area\<close>

lemma NR_VMA_SLOTS_56: "NR_VMA_SLOTS = 56"
  by (simp add: NR_VMA_SLOTS_def kdefs)

lemma vma_slot_inj: "i < 56 \<Longrightarrow> j < 56 \<Longrightarrow> vma_slot mm i = vma_slot mm j \<longleftrightarrow> i = j"
proof
  assume "i < 56" "j < 56" "vma_slot mm i = vma_slot mm j"
  then have e: "(of_nat (72 * i) :: u64) = of_nat (72 * j)" by (simp add: vma_slot_def kdefs)
  have u: "unat (of_nat (72 * i) :: u64) = 72 * i" "unat (of_nat (72 * j) :: u64) = 72 * j"
    by (rule unat_of_nat_small, use \<open>i < 56\<close> \<open>j < 56\<close> in simp)+
  have "unat (of_nat (72 * i) :: u64) = unat (of_nat (72 * j) :: u64)" by (simp only: e)
  then have "72 * i = 72 * j" by (simp only: u)
  then show "i = j" by simp
qed simp

lemma link_slots_eq:
  "n \<le> 55 \<Longrightarrow> mms (link_slots mm n st) = mms st \<and>
     (\<forall>a. a \<notin> vma_slot mm ` {..<n} \<longrightarrow> vmas (link_slots mm n st) a = vmas st a) \<and>
     (\<forall>i < n. vmas (link_slots mm n st) (vma_slot mm i) = (vmas st (vma_slot mm i))\<lparr>vm_next := vma_slot mm (Suc i)\<rparr>)"
proof (induction n)
  case 0
  then show ?case by (simp add: link_slots_def)
next
  case (Suc n)
  have s: "link_slots mm (Suc n) st = vupd (vma_slot mm n) (vm_next_update (\<lambda>_. vma_slot mm (n + 1))) (link_slots mm n st)"
    by (simp add: link_slots_def)
  have ns: "vma_slot mm n \<notin> vma_slot mm ` {..<n}" using Suc.prems by (auto simp: vma_slot_inj)
  show ?case using Suc ns by (auto simp: s less_Suc_eq vma_slot_inj lessThan_Suc)
qed

lemma chain_slots:
  assumes "\<And>i. k \<le> i \<Longrightarrow> i < k + n \<Longrightarrow> nxt (vma_slot mm i) = vma_slot mm (Suc i)"
    and "nxt (vma_slot mm (k + n)) = 0" and "\<And>i. i \<le> k + n \<Longrightarrow> vma_slot mm i \<noteq> 0"
  shows "chain nxt (vma_slot mm k) (map (vma_slot mm) [k ..< Suc (k + n)])"
  using assms
proof (induction n arbitrary: k)
  case 0
  then show ?case by simp
next
  case (Suc n)
  have "chain nxt (vma_slot mm (Suc k)) (map (vma_slot mm) [Suc k ..< Suc (Suc k + n)])"
    by (rule Suc.IH) (use Suc.prems in auto)
  moreover have "map (vma_slot mm) [k ..< Suc (k + Suc n)] = vma_slot mm k # map (vma_slot mm) [Suc k ..< Suc (Suc k + n)]"
    by (simp add: upt_conv_Cons del: upt_Suc)
  moreover have "nxt (vma_slot mm k) = vma_slot mm (Suc k)" "vma_slot mm k \<noteq> 0"
    using Suc.prems(1) [of k] Suc.prems(3) [of k] by simp_all
  ultimately show ?case by (simp only: chain.simps) simp
qed

definition mm_page :: "u64 \<Rightarrow> bool" where
  "mm_page mm \<longleftrightarrow> 0 \<notin> slots mm"

lemma mmap_first_ok:
  assumes "mm_page mm"
  shows "\<exists>f fs st'. mmap_first mm st = (f, st') \<and> inserted mm st f [] [] fs st' \<and> f \<in> slots mm \<and>
     set fs \<subseteq> slots mm \<and> f \<notin> set fs \<and> Suc (length fs) = NR_VMA_SLOTS"
proof -
  define sl where "sl = vma_slot mm"
  have nz: "sl i \<noteq> 0" if "i < 56" for i using assms that by (auto simp: mm_page_def slots_def sl_def NR_VMA_SLOTS_56)
  define st1 where "st1 = mupd mm (mmap_update (\<lambda>_. sl 0)) st"
  define st2 where "st2 = link_slots mm 55 st1"
  define st3 where "st3 = vupd (sl 55) (vm_next_update (\<lambda>_. 0)) st2"
  have m2: "mms st2 = mms st1" "\<And>a. a \<notin> sl ` {..<55} \<Longrightarrow> vmas st2 a = vmas st a"
    "\<And>i. i < 55 \<Longrightarrow> vmas st2 (sl i) = (vmas st (sl i))\<lparr>vm_next := sl (Suc i)\<rparr>"
    using link_slots_eq [of 55 mm st1] by (simp_all add: st2_def sl_def st1_def)
  have mm3: "mmap (mms st3 mm) = sl 0" by (simp add: st3_def m2(1) st1_def)
  define st' where "st' = vupd (sl 0) (\<lambda>v. v\<lparr>vm_prev := 0, vm_next := 0\<rparr>)
     (mupd mm (free_vma_list_update (\<lambda>_. vm_next (vmas st3 (sl 0)))) (mupd mm (free_vma_list_update (\<lambda>_. sl 0)) st3))"
  have run: "mmap_first mm st = (sl 0, st')"
  proof -
    have "link_slots mm (NR_VMA_SLOTS - 1) (mupd mm (mmap_update (\<lambda>_. vma_slot mm 0)) st) = st2"
      by (simp add: st2_def st1_def sl_def NR_VMA_SLOTS_56)
    moreover have "vupd (vma_slot mm (NR_VMA_SLOTS - 1)) (vm_next_update (\<lambda>_. 0)) st2 = st3"
      by (simp add: st3_def sl_def NR_VMA_SLOTS_56)
    moreover have "free_vma_list (mms (mupd mm (free_vma_list_update (\<lambda>_. sl 0)) st3) mm) = sl 0" by simp
    ultimately show ?thesis unfolding mmap_first_def Let_def by (simp only: mm3 st'_def vupd_simps)
  qed
  have inj: "i < 56 \<Longrightarrow> j < 56 \<Longrightarrow> sl i = sl j \<longleftrightarrow> i = j" for i j by (simp add: sl_def vma_slot_inj)
  have v': "vmas st' (sl 0) = (vmas st (sl 0))\<lparr>vm_prev := 0, vm_next := 0\<rparr>"
    "\<And>i. 0 < i \<Longrightarrow> i < 55 \<Longrightarrow> vm_next (vmas st' (sl i)) = sl (Suc i)"
    "vm_next (vmas st' (sl 55)) = 0"
    using m2(3) by (auto simp: st'_def st3_def inj)
  have fr: "free_vma_list (mms st' mm) = sl 1" using m2(3) [of 0] by (simp add: st'_def st3_def inj)
  have ch: "chain (\<lambda>a. vm_next (vmas st' a)) (sl 1) (map sl [1 ..< 56])"
    using chain_slots [where k = 1 and n = 54 and nxt = "\<lambda>a. vm_next (vmas st' a)" and mm = mm] v' nz
    by (simp add: sl_def numeral_eq_Suc less_Suc_eq)
  have slot: "sl i \<in> slots mm" if "i < 56" for i using that by (auto simp: slots_def sl_def NR_VMA_SLOTS_56)
  have out: "vmas st' a = vmas st a" if "a \<notin> slots mm" for a
  proof -
    have "a \<notin> sl ` {..<55}" "a \<noteq> sl 0" "a \<noteq> sl 55" using that slot by auto
    then show ?thesis using m2(2) by (simp add: st'_def st3_def)
  qed
  have "mmap (mms st' mm) = sl 0" "num_vmas (mms st' mm) = num_vmas (mms st mm)" "\<And>m. m \<noteq> mm \<Longrightarrow> mms st' m = mms st m"
    using mm3 by (auto simp: st'_def st3_def m2(1) st1_def)
  then have "inserted mm st (sl 0) [] [] (map sl [1 ..< 56]) st'"
    using v' nz ch fr out by (simp add: inserted_def list_ok_def free_chain_def)
  moreover have "set (map sl [1 ..< 56]) \<subseteq> slots mm" using slot by auto
  moreover have "sl 0 \<notin> set (map sl [1 ..< 56])"
  proof
    assume "sl 0 \<in> set (map sl [1 ..< 56])"
    then obtain i where i: "1 \<le> i" "i < 56" "sl 0 = sl i" by auto
    have "0 = i" using inj [of 0 i] i(2,3) by simp
    then show False using i(1) by simp
  qed
  ultimately show ?thesis using run slot [of 0] by (intro exI conjI) (auto simp: NR_VMA_SLOTS_56)
qed

subsection \<open>do_mmap\<close>

lemma mm_wfD:
  assumes "mm_wf st mm vs fs"
  shows "list_ok (vmas st) (mmap (mms st mm)) vs" "set vs \<subseteq> slots mm" "0 \<notin> set vs" "distinct vs"
    "mmap (mms st mm) = hd0 0 vs" "dlink (vmas st) 0 vs 0"
  using assms by (simp_all add: mm_wf_def list_ok_def)

definition the_area :: "u64 \<Rightarrow> u64 \<Rightarrow> u32 \<Rightarrow> u64 \<Rightarrow> u64 \<Rightarrow> u64 \<Rightarrow> u64 \<times> u64 \<times> u32 \<times> u64 \<times> u64 \<times> u64" where
  "the_area va len flags fil pgoff filesz = (va, va + len, flags, fil, pgoff, filesz)"

lemma inserted_fill:
  assumes I: "inserted mm st f ys zs fs st'" and f: "f \<in> slots mm" "set (ys @ zs) \<subseteq> slots mm" "set fs \<subseteq> slots mm"
    and d: "f \<notin> set fs" "set (ys @ zs) \<inter> set fs = {}" "length (ys @ zs) + length fs + 1 = NR_VMA_SLOTS"
    and n: "num_vmas (mms st mm) = of_nat (length (ys @ zs))" and o: "\<forall>a \<in> set (ys @ zs). vm_mm (vmas st a) = mm"
    and st'': "st'' = mupd mm (\<lambda>m. m\<lparr>num_vmas := num_vmas m + 1\<rparr>)
       (vupd f (\<lambda>v. v\<lparr>vm_mm := mm, vm_start := va, vm_end := va + len, vm_flags := flags,
                      vm_file := fil, vm_pgoff := pgoff, vm_filesz := filesz\<rparr>) st')"
  shows "mm_wf st'' mm (ys @ f # zs) fs"
    "areas (vmas st'') (ys @ f # zs) = areas (vmas st) ys @ the_area va len flags fil pgoff filesz # areas (vmas st) zs"
    "\<And>m. m \<noteq> mm \<Longrightarrow> mms st'' m = mms st m" "\<And>a. a \<notin> slots mm \<Longrightarrow> vmas st'' a = vmas st a"
proof -
  define h where "h = vmas st''"
  have links: "vm_prev (h a) = vm_prev (vmas st' a) \<and> vm_next (h a) = vm_next (vmas st' a)" for a
    by (simp add: h_def st'')
  have lo: "list_ok (vmas st') (mmap (mms st' mm)) (ys @ f # zs)" using I by (simp add: inserted_def)
  have fr: "free_chain (vmas st') (free_vma_list (mms st' mm)) fs" using I by (simp add: inserted_def)
  have dist: "f \<notin> set ys" "f \<notin> set zs" using lo by (simp_all add: list_ok_def)
  have keep: "\<And>a. a \<in> set (ys @ zs) \<Longrightarrow> area_of (h a) = area_of (vmas st a) \<and> vm_mm (h a) = mm"
    using I o dist by (auto simp: inserted_def h_def st'')
  have "list_ok h (mmap (mms st'' mm)) (ys @ f # zs)"
    using lo dlink_cong [where h' = h and h = "vmas st'"] links by (simp add: list_ok_def st'')
  moreover have "free_chain h (free_vma_list (mms st'' mm)) fs"
    using fr links by (simp add: free_chain_def st'')
  moreover have "num_vmas (mms st'' mm) = of_nat (length (ys @ f # zs))"
    using I n by (simp add: inserted_def st'')
  moreover have "vm_mm (h f) = mm" by (simp add: h_def st'')
  ultimately show "mm_wf st'' mm (ys @ f # zs) fs"
    using f d keep by (auto simp: mm_wf_def h_def [symmetric])
  have "area_of (h f) = the_area va len flags fil pgoff filesz" by (simp add: h_def st'' area_of_def the_area_def)
  then show "areas (vmas st'') (ys @ f # zs) = areas (vmas st) ys @ the_area va len flags fil pgoff filesz # areas (vmas st) zs"
    using keep by (simp add: areas_def h_def [symmetric])
  show "mms st'' m = mms st m" if "m \<noteq> mm" for m using I that by (simp add: inserted_def st'')
  show "vmas st'' a = vmas st a" if "a \<notin> slots mm" for a
    using I that f(1) by (auto simp: inserted_def st'')
qed

lemma do_mmap_ok:
  assumes wf: "mm_wf st mm vs fs" and room: "vs = [] \<or> fs \<noteq> []" and mm: "mm_page mm"
  shows "\<exists>st' f ys zs fs'. do_mmap mm va len flags fil pgoff filesz st = Some (va, st') \<and> vs = ys @ zs \<and>
     mm_wf st' mm (ys @ f # zs) fs' \<and>
     areas (vmas st') (ys @ f # zs) = areas (vmas st) ys @ the_area va len flags fil pgoff filesz # areas (vmas st) zs \<and>
     insert_area (the_area va len flags fil pgoff filesz) (areas (vmas st) vs) =
       areas (vmas st) ys @ the_area va len flags fil pgoff filesz # areas (vmas st) zs \<and>
     (\<forall>a \<in> set ys. vm_start (vmas st a) \<le> va) \<and> (zs \<noteq> [] \<longrightarrow> va < vm_start (vmas st (hd zs))) \<and>
     (if vs = [] then length fs' = NR_VMA_SLOTS - 1 else fs' = tl fs) \<and>
     (\<forall>m. m \<noteq> mm \<longrightarrow> mms st' m = mms st m) \<and> (\<forall>a. a \<notin> slots mm \<longrightarrow> vmas st' a = vmas st a)"
proof (cases "vs = []")
  case True
  then have m0: "mmap (mms st mm) = 0" "num_vmas (mms st mm) = 0" using mm_wfD(5) [OF wf] wf by (simp_all add: mm_wf_def)
  obtain f fs' st1 where F: "mmap_first mm st = (f, st1)" "inserted mm st f [] [] fs' st1" "f \<in> slots mm"
    "set fs' \<subseteq> slots mm" "f \<notin> set fs'" "Suc (length fs') = NR_VMA_SLOTS"
    using mmap_first_ok [OF mm] by blast
  note R = inserted_fill [OF F(2,3) _ F(4,5) _ _ _ _ refl,
      where va = va and len = len and flags = flags and fil = fil and pgoff = pgoff and filesz = filesz]
  have "areas (vmas st) vs = []" using True by (simp add: areas_def)
  then have "do_mmap mm va len flags fil pgoff filesz st = Some (va, mupd mm (\<lambda>m. m\<lparr>num_vmas := num_vmas m + 1\<rparr>)
       (vupd f (\<lambda>v. v\<lparr>vm_mm := mm, vm_start := va, vm_end := va + len, vm_flags := flags,
                      vm_file := fil, vm_pgoff := pgoff, vm_filesz := filesz\<rparr>) st1))"
    using m0 F(1) by (simp add: do_mmap_def Let_def)
  note run = this
  show ?thesis
    by (rule exI [of _ "mupd mm (\<lambda>m. m\<lparr>num_vmas := num_vmas m + 1\<rparr>)
       (vupd f (\<lambda>v. v\<lparr>vm_mm := mm, vm_start := va, vm_end := va + len, vm_flags := flags,
                      vm_file := fil, vm_pgoff := pgoff, vm_filesz := filesz\<rparr>) st1)"],
        rule exI [of _ f], rule exI [of _ "[]"], rule exI [of _ "[]"], rule exI [of _ fs'])
      (use run R F(6) m0 True in \<open>auto simp: areas_def\<close>)
next
  case False
  then obtain f fs' where fs: "fs = f # fs'" using room by (cases fs) auto
  note W = mm_wfD [OF wf]
  have W2: "free_chain (vmas st) (free_vma_list (mms st mm)) (f # fs')" "set (f # fs') \<subseteq> slots mm"
    "set vs \<inter> set (f # fs') = {}" "length vs + length (f # fs') = NR_VMA_SLOTS"
    "num_vmas (mms st mm) = of_nat (length vs)" "\<forall>a \<in> set vs. vm_mm (vmas st a) = mm"
    using wf False by (simp_all add: mm_wf_def fs)
  have ff: "f \<notin> set fs'" using chain_distinct [OF W2(1) [unfolded free_chain_def]] by simp
  define h2 where "h2 = (vmas st)(f := (vmas st f)\<lparr>vm_next := 0\<rparr>)"
  have fv: "f \<notin> set vs" using W2(3) by auto
  have dl: "dlink h2 0 vs 0" using W(6) dlink_outside [OF fv] by (simp add: h2_def)
  have "\<exists>ys zs. vs = ys @ zs \<and> mmap_scan h2 va 0 (hd0 0 vs) = Some (last0 0 ys, hd0 0 zs) \<and>
     insert_area (the_area va len flags fil pgoff filesz) (areas h2 vs)
       = areas h2 ys @ the_area va len flags fil pgoff filesz # areas h2 zs \<and>
     (\<forall>a \<in> set ys. vm_start (h2 a) \<le> va) \<and> (zs \<noteq> [] \<longrightarrow> va < vm_start (h2 (hd zs)))"
    using mmap_scan_list [OF dl W(3), of va 0] unfolding the_area_def by (metis fst_conv)
  then obtain ys zs where yz: "vs = ys @ zs"
    "mmap_scan h2 va 0 (hd0 0 vs) = Some (last0 0 ys, hd0 0 zs)"
    "insert_area (the_area va len flags fil pgoff filesz) (areas h2 vs)
      = areas h2 ys @ the_area va len flags fil pgoff filesz # areas h2 zs"
    "\<forall>a \<in> set ys. vm_start (h2 a) \<le> va" "zs \<noteq> [] \<longrightarrow> va < vm_start (h2 (hd zs))"
    by blast
  have ah2: "areas h2 xs = areas (vmas st) xs" for xs by (simp add: areas_def h2_def area_of_def)
  obtain st1 where st1: "mmap_insert mm va st = Some (f, st1)" "inserted mm st f ys zs fs' st1"
    using mmap_insert_ok [of st mm ys zs f fs' va] W(1,2) False W2(1-3) yz(1,2) W(5) by (auto simp: h2_def)
  note R = inserted_fill [OF st1(2) _ _ _ ff _ _ _ _ refl,
      where va = va and len = len and flags = flags and fil = fil and pgoff = pgoff and filesz = filesz]
  have "mmap (mms st mm) \<noteq> 0" using W(3,5) False by (cases vs) auto
  then have run: "do_mmap mm va len flags fil pgoff filesz st = Some (va, mupd mm (\<lambda>m. m\<lparr>num_vmas := num_vmas m + 1\<rparr>)
       (vupd f (\<lambda>v. v\<lparr>vm_mm := mm, vm_start := va, vm_end := va + len, vm_flags := flags,
                      vm_file := fil, vm_pgoff := pgoff, vm_filesz := filesz\<rparr>) st1))"
    using st1(1) by (simp add: do_mmap_def Let_def)
  have "f \<in> slots mm" "set (ys @ zs) \<subseteq> slots mm" "set fs' \<subseteq> slots mm" "set (ys @ zs) \<inter> set fs' = {}"
    "length (ys @ zs) + length fs' + 1 = NR_VMA_SLOTS"
    using W(2) W2(2-4) yz(1) by auto
  note R' = R [OF this W2(5,6) [unfolded yz(1)]]
  have st2: "vm_start (h2 a) = vm_start (vmas st a)" for a by (simp add: h2_def)
  show ?thesis
    by (rule exI [of _ "mupd mm (\<lambda>m. m\<lparr>num_vmas := num_vmas m + 1\<rparr>)
       (vupd f (\<lambda>v. v\<lparr>vm_mm := mm, vm_start := va, vm_end := va + len, vm_flags := flags,
                      vm_file := fil, vm_pgoff := pgoff, vm_filesz := filesz\<rparr>) st1)"],
        rule exI [of _ f], rule exI [of _ ys], rule exI [of _ zs], rule exI [of _ fs'])
      (use run R' yz [unfolded ah2 st2] False fs in auto)
qed

end
