(* ===== verification/Vma_Ops.thy ===== *)
theory Vma_Ops
  imports Vma_Inv
begin

text \<open>Removing an area, unmapping a range, and copying the areas of a process.\<close>

subsection \<open>remove_vma\<close>

lemma dlink_remove:
  assumes d: "dlink h 0 (xs @ v # ys) 0" "distinct (xs @ v # ys)"
    and xs: "\<And>a. a \<in> set xs \<Longrightarrow> vm_prev (h' a) = vm_prev (h a) \<and> vm_next (h' a) = (if a = last xs then hd0 0 ys else vm_next (h a))"
    and ys: "\<And>a. a \<in> set ys \<Longrightarrow> vm_next (h' a) = vm_next (h a) \<and> vm_prev (h' a) = (if a = hd ys then last0 0 xs else vm_prev (h a))"
  shows "dlink h' 0 (xs @ ys) 0"
proof -
  have d': "dlink h 0 xs v" "dlink h v ys 0" using d(1) by (simp_all add: dlink_append)
  have "dlink h' 0 xs (hd0 0 ys)"
  proof (cases "xs = []")
    case False
    have "dlink (h(last xs := (h (last xs))\<lparr>vm_next := hd0 0 ys\<rparr>)) 0 xs (hd0 0 ys)"
      by (rule dlink_set_next [OF d'(1)]) (use d(2) False in simp_all)
    then show ?thesis using xs by (subst dlink_cong) auto
  qed simp
  moreover have "dlink h' (last0 0 xs) ys 0"
  proof (cases "ys = []")
    case False
    have "dlink (h(hd ys := (h (hd ys))\<lparr>vm_prev := last0 0 xs\<rparr>)) (last0 0 xs) ys 0"
      by (rule dlink_set_prev [OF d'(2)]) (use d(2) False in simp_all)
    then show ?thesis using ys by (subst dlink_cong) auto
  qed simp
  ultimately show ?thesis by (simp add: dlink_append)
qed

lemma remove_heap:
  assumes L: "mmap (mms st mm) = hd0 0 (xs @ v # ys)" "0 \<notin> set (xs @ v # ys)" "distinct (xs @ v # ys)"
    "dlink (vmas st) 0 (xs @ v # ys) 0"
  defines "st' \<equiv> remove_vma mm v st"
  shows "vmas st' v = zero_vma\<lparr>vm_next := free_vma_list (mms st mm)\<rparr>"
    "\<And>a. a \<noteq> v \<Longrightarrow> vmas st' a = (vmas st a)
       \<lparr>vm_next := (if xs \<noteq> [] \<and> a = last xs then hd0 0 ys else vm_next (vmas st a)),
        vm_prev := (if ys \<noteq> [] \<and> a = hd ys then last0 0 xs else vm_prev (vmas st a))\<rparr>"
    "mms st' = (mms st)(mm := \<lparr>mmap = hd0 0 (xs @ ys), num_vmas = num_vmas (mms st mm) - 1, free_vma_list = v\<rparr>)"
proof -
  define h where "h = vmas st"
  have v: "vm_prev (h v) = last0 0 xs" "vm_next (h v) = hd0 0 ys" using L(4) by (simp_all add: dlink_append h_def)
  have x0: "last0 0 xs = 0 \<longleftrightarrow> xs = []" using L(2) by (metis UnI1 set_append last_in_set last0_def)
  have y0: "hd0 0 ys = 0 \<longleftrightarrow> ys = []" using L(2) by (cases ys) auto
  have vx: "xs \<noteq> [] \<Longrightarrow> last xs \<noteq> v" using L(3) by (metis disjoint_iff distinct_append last_in_set list.set_intros(1))
  have vy: "ys \<noteq> [] \<Longrightarrow> hd ys \<noteq> v" using L(3) by (metis distinct.simps(2) distinct_append hd_in_set)
  have mv: "mmap (mms st mm) = v \<longleftrightarrow> xs = []" using L(1,3) by (cases xs) auto
  define st1 where "st1 = (if v = mmap (mms st mm) then mupd mm (mmap_update (\<lambda>_. vm_next (vmas st v))) st else st)"
  define st2 where "st2 = (if vm_prev (vmas st1 v) \<noteq> 0 then vupd (vm_prev (vmas st1 v)) (vm_next_update (\<lambda>_. vm_next (vmas st1 v))) st1 else st1)"
  define st3 where "st3 = (if vm_next (vmas st2 v) \<noteq> 0 then vupd (vm_next (vmas st2 v)) (vm_prev_update (\<lambda>_. vm_prev (vmas st2 v))) st2 else st2)"
  have e1: "vmas st1 = h" "mms st1 = (mms st)(mm := (mms st mm)\<lparr>mmap := hd0 0 (xs @ ys)\<rparr>)"
    using mv v L(1) by (cases xs; auto simp: st1_def h_def fun_eq_iff)+
  have e2: "vmas st2 = (if xs \<noteq> [] then h(last xs := (h (last xs))\<lparr>vm_next := hd0 0 ys\<rparr>) else h)" "mms st2 = mms st1"
    using v x0 by (simp_all add: st2_def e1 last0_mem)
  have v2: "vm_next (vmas st2 v) = hd0 0 ys" "vm_prev (vmas st2 v) = last0 0 xs"
    using v vx by (auto simp: e2)
  have e3: "vmas st3 = (if ys \<noteq> [] then (vmas st2)(hd ys := (vmas st2 (hd ys))\<lparr>vm_prev := last0 0 xs\<rparr>) else vmas st2)"
    "mms st3 = mms st1"
    using v2 y0 by (simp_all add: st3_def e2(2) hd0_mem)
  have st': "st' = mupd mm (\<lambda>m. m\<lparr>free_vma_list := v, num_vmas := num_vmas m - 1\<rparr>)
      (vupd v (vm_next_update (\<lambda>_. free_vma_list (mms (vupd v (\<lambda>_. zero_vma) st3) mm))) (vupd v (\<lambda>_. zero_vma) st3))"
    by (simp only: st'_def remove_vma_def Let_def st1_def [symmetric] st2_def [symmetric] st3_def [symmetric])
  show "vmas st' v = zero_vma\<lparr>vm_next := free_vma_list (mms st mm)\<rparr>"
    by (simp add: st' e3(2) e1(2))
  show "mms st' = (mms st)(mm := \<lparr>mmap = hd0 0 (xs @ ys), num_vmas = num_vmas (mms st mm) - 1, free_vma_list = v\<rparr>)"
    by (cases "mms st mm") (simp add: st' e3(2) e1(2))
  fix a assume a: "a \<noteq> v"
  have "vmas st' a = vmas st3 a" using a by (simp add: st')
  also have "\<dots> = (h a)
       \<lparr>vm_next := (if xs \<noteq> [] \<and> a = last xs then hd0 0 ys else vm_next (h a)),
        vm_prev := (if ys \<noteq> [] \<and> a = hd ys then last0 0 xs else vm_prev (h a))\<rparr>"
    by (cases "xs = []"; cases "ys = []") (auto simp: e3(1) e2(1))
  finally show "vmas st' a = (vmas st a)
       \<lparr>vm_next := (if xs \<noteq> [] \<and> a = last xs then hd0 0 ys else vm_next (vmas st a)),
        vm_prev := (if ys \<noteq> [] \<and> a = hd ys then last0 0 xs else vm_prev (vmas st a))\<rparr>"
    by (simp add: h_def)
qed

lemma remove_vma_ok:
  assumes wf: "mm_wf st mm (xs @ v # ys) fs"
  shows "mm_wf (remove_vma mm v st) mm (xs @ ys) (v # fs)"
    "areas (vmas (remove_vma mm v st)) (xs @ ys) = areas (vmas st) xs @ areas (vmas st) ys"
    "\<And>m. m \<noteq> mm \<Longrightarrow> mms (remove_vma mm v st) m = mms st m"
    "\<And>a. a \<notin> slots mm \<Longrightarrow> vmas (remove_vma mm v st) a = vmas st a"
proof -
  note W = mm_wfD [OF wf]
  define st' where "st' = remove_vma mm v st"
  note H = remove_heap [OF W(5,3,4,6), folded st'_def]
  have ne: "v \<notin> set xs" "v \<notin> set ys" "set xs \<inter> set ys = {}" using W(4) by auto
  have last_hd: "a \<noteq> hd ys" if "a \<in> set xs" "ys \<noteq> []" for a using that ne(3) by (metis disjoint_iff hd_in_set)
  have hd_last: "a \<noteq> last xs" if "a \<in> set ys" "xs \<noteq> []" for a using that ne(3) by (metis disjoint_iff last_in_set)
  have Hx: "vm_prev (vmas st' a) = vm_prev (vmas st a) \<and> vm_next (vmas st' a) = (if a = last xs then hd0 0 ys else vm_next (vmas st a))"
    if "a \<in> set xs" for a
  proof -
    have "a \<noteq> v" "xs \<noteq> []" using that ne(1) by auto
    then show ?thesis using H(2) [of a] last_hd [OF that] by auto
  qed
  have Hy: "vm_next (vmas st' a) = vm_next (vmas st a) \<and> vm_prev (vmas st' a) = (if a = hd ys then last0 0 xs else vm_prev (vmas st a))"
    if "a \<in> set ys" for a
  proof -
    have "a \<noteq> v" "ys \<noteq> []" using that ne(2) by auto
    then show ?thesis using H(2) [of a] hd_last [OF that] by auto
  qed
  have d: "dlink (vmas st') 0 (xs @ ys) 0" by (rule dlink_remove [OF W(6,4) Hx Hy])
  have lo: "list_ok (vmas st') (mmap (mms st' mm)) (xs @ ys)" using d W(3,4) H(3) by (simp add: list_ok_def)
  have keep: "area_of (vmas st' a) = area_of (vmas st a) \<and> vm_mm (vmas st' a) = vm_mm (vmas st a)" if "a \<in> set (xs @ ys)" for a
  proof -
    have "a \<noteq> v" using that ne by auto
    then show ?thesis using H(2) [of a] by (simp add: area_of_def)
  qed
  have F: "free_chain (vmas st) (free_vma_list (mms st mm)) fs" "set fs \<subseteq> slots mm" "set (xs @ v # ys) \<inter> set fs = {}"
    "length (xs @ v # ys) + length fs = NR_VMA_SLOTS" using wf by (simp_all add: mm_wf_def)
  have "vm_next (vmas st' a) = vm_next (vmas st a)" if "a \<in> set fs" for a
  proof -
    have "a \<noteq> v" "xs \<noteq> [] \<Longrightarrow> a \<noteq> last xs" "ys \<noteq> [] \<Longrightarrow> a \<noteq> hd ys"
      using that F(3) by (auto, (metis UnI1 UnI2 disjoint_iff last_in_set hd_in_set)+)
    then show ?thesis using H(2) [of a] by auto
  qed
  then have "chain (\<lambda>a. vm_next (vmas st' a)) (free_vma_list (mms st mm)) fs"
    using F(1) chain_cong [where f = "\<lambda>a. vm_next (vmas st' a)" and g = "\<lambda>a. vm_next (vmas st a)"] by (simp add: free_chain_def)
  then have "free_chain (vmas st') (free_vma_list (mms st' mm)) (v # fs)"
    using H(1,3) W(3) by (simp add: free_chain_def)
  moreover have "num_vmas (mms st' mm) = of_nat (length (xs @ ys))" using wf H(3) by (simp add: mm_wf_def)
  moreover have "\<forall>a \<in> set (xs @ ys). vm_mm (vmas st' a) = mm" using keep wf by (simp add: mm_wf_def)
  ultimately show "mm_wf (remove_vma mm v st) mm (xs @ ys) (v # fs)"
    using lo F ne W(2) by (auto simp: mm_wf_def st'_def [symmetric])
  show "areas (vmas (remove_vma mm v st)) (xs @ ys) = areas (vmas st) xs @ areas (vmas st) ys"
    using keep by (simp add: areas_def st'_def [symmetric])
  show "mms (remove_vma mm v st) m = mms st m" if "m \<noteq> mm" for m using H(3) that by (simp add: st'_def)
  show "vmas (remove_vma mm v st) a = vmas st a" if "a \<notin> slots mm" for a
  proof -
    have "a \<noteq> v" "xs \<noteq> [] \<Longrightarrow> a \<noteq> last xs" "ys \<noteq> [] \<Longrightarrow> a \<noteq> hd ys" 
      using that W(2) by (auto, (metis last_in_set hd_in_set subsetD)+)
    then show ?thesis using H(2) [of a] by (auto simp: st'_def)
  qed
qed

subsection \<open>Inserting at a known position\<close>

lemma split_unique:
  assumes "ys @ zs = as @ bs" "\<forall>a \<in> set ys. f a \<le> (s :: u64)" "zs \<noteq> [] \<longrightarrow> s < f (hd zs)"
    "\<forall>a \<in> set as. f a \<le> s" "\<forall>b \<in> set bs. s < f b"
  shows "ys = as \<and> zs = bs"
  using assms
proof (induction as arbitrary: ys)
  case Nil
  then show ?case by (cases ys) (auto simp: leD)
next
  case (Cons a as)
  show ?case
  proof (cases ys)
    case Nil
    then show ?thesis using Cons.prems by (auto simp: leD)
  next
    case (Cons y ys')
    then show ?thesis using Cons.IH [of ys'] Cons.prems by simp
  qed
qed

lemma areas_append: "areas h (xs @ ys) = areas h xs @ areas h ys"
  by (simp add: areas_def)

lemma areas_split:
  assumes "areas h (xs @ ys) = areas g xs @ B"
  shows "areas h xs = areas g xs" "areas h ys = B"
proof -
  have "areas h xs @ areas h ys = areas g xs @ B" "length (areas h xs) = length (areas g xs)"
    using assms by (simp_all add: areas_def)
  then show "areas h xs = areas g xs" "areas h ys = B" by simp_all
qed

lemma do_mmap_at:
  assumes wf: "mm_wf st mm (as @ bs) fs" and room: "as @ bs = [] \<or> fs \<noteq> []" and mm: "mm_page mm"
    and s: "\<forall>a \<in> set as. vm_start (vmas st a) \<le> s" "\<forall>b \<in> set bs. s < vm_start (vmas st b)"
  shows "\<exists>st' f fs'. do_mmap mm s len fl fi pg fz st = Some (s, st') \<and> mm_wf st' mm (as @ f # bs) fs' \<and>
     areas (vmas st') as = areas (vmas st) as \<and> area_of (vmas st' f) = the_area s len fl fi pg fz \<and>
     areas (vmas st') bs = areas (vmas st) bs \<and>
     (if as @ bs = [] then length fs' = NR_VMA_SLOTS - 1 else fs' = tl fs) \<and>
     (\<forall>m. m \<noteq> mm \<longrightarrow> mms st' m = mms st m) \<and> (\<forall>a. a \<notin> slots mm \<longrightarrow> vmas st' a = vmas st a)"
proof -
  obtain st' f ys zs fs' where M: "do_mmap mm s len fl fi pg fz st = Some (s, st')" "as @ bs = ys @ zs"
    "mm_wf st' mm (ys @ f # zs) fs'"
    "areas (vmas st') (ys @ f # zs) = areas (vmas st) ys @ the_area s len fl fi pg fz # areas (vmas st) zs"
    "\<forall>a \<in> set ys. vm_start (vmas st a) \<le> s" "zs \<noteq> [] \<longrightarrow> s < vm_start (vmas st (hd zs))"
    "if as @ bs = [] then length fs' = NR_VMA_SLOTS - 1 else fs' = tl fs"
    "\<forall>m. m \<noteq> mm \<longrightarrow> mms st' m = mms st m" "\<forall>a. a \<notin> slots mm \<longrightarrow> vmas st' a = vmas st a"
    using do_mmap_ok [OF wf room mm, of s len fl fi pg fz] by blast
  have e: "ys = as" "zs = bs" using split_unique [OF M(2) [symmetric] M(5,6) s] by simp_all
  note A = areas_split [OF M(4)]
  have "areas (vmas st') (f # zs) = area_of (vmas st' f) # areas (vmas st') zs" by (simp add: areas_def)
  then show ?thesis using M A e by (intro exI [of _ st'] exI [of _ f] exI [of _ fs']) simp
qed

subsection \<open>do_munmap\<close>

text \<open>What remains of an area when the addresses from \<open>lo\<close> to \<open>hi\<close> are taken away.\<close>

definition clip :: "u64 \<Rightarrow> u64 \<Rightarrow> u64 \<times> u64 \<times> 'a \<Rightarrow> (u64 \<times> u64 \<times> 'a) list" where
  "clip lo hi a = (case a of (s, e, r) \<Rightarrow>
     if e \<le> lo \<or> hi \<le> s then [a]
     else (if s < lo then [(s, lo, r)] else []) @ (if hi < e then [(hi, e, r)] else []))"

lemma clip_within: "b \<in> set (clip lo hi a) \<Longrightarrow> lo < hi \<Longrightarrow> a_start a < a_end a \<Longrightarrow>
   a_start a \<le> a_start b \<and> a_end b \<le> a_end a \<and> a_start b < a_end b"
  by (auto simp: clip_def split: prod.splits if_splits)

lemma sorted_areas_append:
  "sorted_areas (xs @ ys) \<longleftrightarrow> sorted_areas xs \<and> sorted_areas ys \<and> (\<forall>a \<in> set xs. \<forall>b \<in> set ys. a_end a \<le> a_start b)"
  by (auto simp: sorted_areas_def sorted_wrt_append)

lemma sorted_clip1: "lo < hi \<Longrightarrow> a_start a < a_end a \<Longrightarrow> sorted_areas (clip lo hi a)"
  by (auto simp: clip_def sorted_areas_def split: prod.splits)

lemma sorted_clip_mid:
  assumes "sorted_areas (A @ v # R)" "lo < hi"
  shows "sorted_areas (A @ clip lo hi v @ R)"
proof -
  have v: "a_start v < a_end v" using assms(1) by (simp add: sorted_areas_append sorted_areas_Cons)
  have "a_end a \<le> a_start b" if "a \<in> set A" "b \<in> set (clip lo hi v)" for a b
    using clip_within [OF that(2) assms(2) v] assms(1) that(1)
    by (fastforce simp: sorted_areas_append intro: order_trans)
  moreover have "a_end b \<le> a_start r" if "r \<in> set R" "b \<in> set (clip lo hi v)" for r b
    using clip_within [OF that(2) assms(2) v] assms(1) that(1)
    by (fastforce simp: sorted_areas_append sorted_areas_Cons intro: order_trans)
  ultimately show ?thesis
    using assms(1) sorted_clip1 [OF assms(2) v] by (auto simp: sorted_areas_append sorted_areas_Cons)
qed

lemma sorted_clip:
  "sorted_areas (A @ B) \<Longrightarrow> lo < hi \<Longrightarrow> sorted_areas (A @ concat (map (clip lo hi) B))"
proof (induction B arbitrary: A)
  case (Cons v B)
  have "sorted_areas ((A @ clip lo hi v) @ B)" using sorted_clip_mid [OF Cons.prems] by simp
  from Cons.IH [OF this Cons.prems(2)] show ?case by simp
qed simp

lemma clip_outside: "a_end a \<le> lo \<or> hi \<le> a_start a \<Longrightarrow> clip lo hi a = [a]"
  by (cases a) (auto simp: clip_def)

text \<open>The addresses of a list of areas.\<close>

definition covered :: "(u64 \<times> u64 \<times> 'a) list \<Rightarrow> u64 set" where
  "covered xs = {x. \<exists>a \<in> set xs. a_start a \<le> x \<and> x < a_end a}"

lemma covered_simps [simp]:
  "covered [] = {}" "covered (a # xs) = {a_start a ..< a_end a} \<union> covered xs"
  "covered (xs @ ys) = covered xs \<union> covered ys"
  by (auto simp: covered_def)

lemma covered_clip1:
  assumes "lo < hi"
  shows "covered (clip lo hi a) = covered [a] - {lo ..< hi}"
proof (cases a)
  case (fields s e r)
  show ?thesis
  proof (cases "e \<le> lo \<or> hi \<le> s")
    case True
    then have "{s ..< e} \<inter> {lo ..< hi} = {}" by auto
    then show ?thesis using True by (auto simp: fields clip_def)
  next
    case False
    then show ?thesis using assms by (auto simp: fields clip_def not_le)
  qed
qed

lemma covered_clip: "lo < hi \<Longrightarrow> covered (concat (map (clip lo hi) xs)) = covered xs - {lo ..< hi}"
proof (induction xs)
  case (Cons a xs)
  show ?case using Cons covered_clip1 [OF Cons.prems, of a] by auto
qed simp

fun adjacent :: "(u64 \<Rightarrow> vm_area) \<Rightarrow> u64 list \<Rightarrow> bool" where
  "adjacent h (a # b # xs) \<longleftrightarrow> vm_end (h a) = vm_start (h b) \<and> adjacent h (b # xs)"
| "adjacent h xs \<longleftrightarrow> True"

text \<open>The first area whose successor does not continue it below \<open>to\<close>.\<close>

definition gap :: "(u64 \<Rightarrow> vm_area) \<Rightarrow> u64 \<Rightarrow> u64 list \<Rightarrow> bool" where
  "gap h to xs \<longleftrightarrow> (\<exists>as c bs. xs = as @ c # bs \<and> vm_end (h c) < to \<and> (bs = [] \<or> vm_start (h (hd bs)) \<noteq> vm_end (h c)))"

lemma gapI: "vm_end (h c) < to \<Longrightarrow> bs = [] \<or> vm_start (h (hd bs)) \<noteq> vm_end (h c) \<Longrightarrow> gap h to (as @ c # bs)"
  unfolding gap_def by blast

lemma gap_Cons: "gap h to xs \<Longrightarrow> gap h to (c # xs)"
  unfolding gap_def by (metis append_Cons)

lemma munmap_cover_list:
  assumes "dlink h p (c # rest) 0" "0 \<notin> set (c # rest)"
  shows "(munmap_cover h to c = Some None \<and> gap h to (c # rest)) \<or>
     (\<exists>ms cur post. c # rest = ms @ cur # post \<and> munmap_cover h to c = Some (Some cur) \<and>
        (\<forall>a \<in> set ms. vm_end (h a) < to) \<and> to \<le> vm_end (h cur) \<and> adjacent h (ms @ [cur]))"
  using assms
proof (induction rest arbitrary: c p)
  case Nil
  show ?case
  proof (cases "vm_end (h c) < to")
    case True
    then show ?thesis using Nil.prems gapI [of h c to "[]" "[]"] by (subst munmap_cover.simps) simp
  next
    case False
    then have "munmap_cover h to c = Some (Some c)" using Nil.prems by (subst munmap_cover.simps) simp
    then show ?thesis using False by (intro disjI2 exI [of _ "[]"] exI [of _ c]) simp
  qed
next
  case (Cons d rest)
  show ?case
  proof (cases "vm_end (h c) < to")
    case False
    then have "munmap_cover h to c = Some (Some c)" using Cons.prems by (subst munmap_cover.simps) simp
    then show ?thesis using False by (intro disjI2 exI [of _ "[]"] exI [of _ c] exI [of _ "d # rest"]) simp
  next
    case lt: True
    have nx: "vm_next (h c) = d" "d \<noteq> 0" using Cons.prems by simp_all
    show ?thesis
    proof (cases "vm_start (h d) = vm_end (h c)")
      case False
      then show ?thesis using lt nx Cons.prems(2) gapI [of h c to "d # rest" "[]"] by (subst munmap_cover.simps) simp
    next
      case adj: True
      have step: "munmap_cover h to c = munmap_cover h to d"
        using lt nx adj Cons.prems(2) by (subst munmap_cover.simps) simp
      have "dlink h c (d # rest) 0" "0 \<notin> set (d # rest)" using Cons.prems by simp_all
      from Cons.IH [OF this] consider "munmap_cover h to d = Some None" "gap h to (d # rest)"
        | ms cur post where "d # rest = ms @ cur # post" "munmap_cover h to d = Some (Some cur)"
          "\<forall>a \<in> set ms. vm_end (h a) < to" "to \<le> vm_end (h cur)" "adjacent h (ms @ [cur])" by blast
      then show ?thesis
      proof cases
        case 1
        then show ?thesis using step gap_Cons by simp
      next
        case 2
        have "adjacent h ((c # ms) @ [cur])" using 2(1,5) adj by (cases ms) simp_all
        then show ?thesis using 2 step lt
          by (intro disjI2 exI [of _ "c # ms"] exI [of _ cur] exI [of _ post]) simp
      qed
    qed
  qed
qed

text \<open>A gap is an address the areas do not cover; adjacent areas cover everything between their ends.\<close>

lemma areas_Cons: "areas h (a # xs) = area_of (h a) # areas h xs" by (simp add: areas_def)

lemma area_ends: "a_start (area_of v) = vm_start v" "a_end (area_of v) = vm_end v"
  by (simp_all add: area_of_def)

lemma mem_covered: "x \<in> covered (areas h xs) \<longleftrightarrow> (\<exists>a \<in> set xs. vm_start (h a) \<le> x \<and> x < vm_end (h a))"
  by (simp add: covered_def areas_def area_ends)

lemma sorted_at:
  assumes "sorted_areas (areas h (as @ v # rest))"
  shows "vm_start (h v) < vm_end (h v)" "\<forall>a \<in> set as. vm_end (h a) \<le> vm_start (h v)"
    "\<forall>a \<in> set as. vm_start (h a) < vm_end (h a)" "\<forall>b \<in> set rest. vm_end (h v) \<le> vm_start (h b)"
    "\<forall>b \<in> set rest. vm_start (h b) < vm_end (h b)"
proof -
  have s: "set (areas h xs) = (area_of \<circ> h) ` set xs" for xs by (simp add: areas_def)
  have "sorted_areas (areas h as)" "sorted_areas (areas h rest)"
    using assms by (simp_all add: areas_append sorted_areas_append areas_Cons sorted_areas_Cons)
  then show "\<forall>a \<in> set as. vm_start (h a) < vm_end (h a)" "\<forall>b \<in> set rest. vm_start (h b) < vm_end (h b)"
    unfolding sorted_areas_def s by (simp_all add: area_ends)
  show "vm_start (h v) < vm_end (h v)" "\<forall>a \<in> set as. vm_end (h a) \<le> vm_start (h v)"
    "\<forall>b \<in> set rest. vm_end (h v) \<le> vm_start (h b)"
    using assms by (simp_all add: areas_append areas_Cons sorted_areas_append s sorted_areas_Cons area_ends)
qed

lemma gap_uncovered:
  assumes "sorted_areas (areas h (pre @ c # rest))" "gap h to (c # rest)"
  shows "\<exists>x. vm_end (h c) \<le> x \<and> x < to \<and> x \<notin> covered (areas h (pre @ c # rest))"
proof -
  obtain as d bs where g: "c # rest = as @ d # bs" "vm_end (h d) < to" "bs = [] \<or> vm_start (h (hd bs)) \<noteq> vm_end (h d)"
    using assms(2) by (auto simp: gap_def)
  have vs: "pre @ c # rest = (pre @ as) @ d # bs" by (simp add: g(1))
  note S = sorted_at [OF assms(1) [unfolded vs]]
  have "vm_end (h d) < vm_start (h b)" if b: "b \<in> set bs" for b
  proof (cases bs)
    case Nil then show ?thesis using b by simp
  next
    case (Cons b0 bs')
    have lt: "vm_end (h d) < vm_start (h b0)" using g(3) S(4) Cons by auto
    have s: "sorted_areas (areas h (((pre @ as) @ [d]) @ b0 # bs'))" using assms(1) vs Cons by simp
    show ?thesis
    proof (cases "b = b0")
      case False
      then have "vm_end (h b0) \<le> vm_start (h b)" using sorted_at(4) [OF s] b Cons by auto
      then show ?thesis using lt sorted_at(1) [OF s] by (meson order.strict_trans2 order.strict_trans)
    qed (simp add: lt)
  qed
  moreover have before: "vm_end (h a) < vm_end (h d)" if "a \<in> set (pre @ as)" for a
    using S(1) S(2) that order.strict_trans1 [of "vm_end (h a)"] by blast
  ultimately have "vm_end (h d) \<notin> covered (areas h (pre @ c # rest))"
  proof -
    assume bs: "\<And>b. b \<in> set bs \<Longrightarrow> vm_end (h d) < vm_start (h b)"
    have "\<not> (vm_start (h a) \<le> vm_end (h d) \<and> vm_end (h d) < vm_end (h a))" if ain: "a \<in> set ((pre @ as) @ d # bs)" for a
    proof -
      consider "a \<in> set (pre @ as)" | "a = d" | "a \<in> set bs" using ain by auto
      then show ?thesis
      proof cases
        case 1 then show ?thesis using before [of a] by auto
      next
        case 3 then show ?thesis using bs [of a] by auto
      qed simp
    qed
    then show ?thesis unfolding mem_covered vs by blast
  qed
  moreover have "vm_end (h c) \<le> vm_end (h d)"
  proof (cases as)
    case Nil then show ?thesis using g(1) by simp
  next
    case (Cons a as')
    then have "c \<in> set as" using g(1) by simp
    then show ?thesis using S(1,2) by (auto intro: order.trans order_less_imp_le)
  qed
  ultimately show ?thesis using g(2) by blast
qed

lemma adjacent_covered:
  "adjacent h (c # xs) \<Longrightarrow> \<forall>a \<in> set (c # xs). vm_start (h a) < vm_end (h a) \<Longrightarrow>
   {vm_start (h c) ..< vm_end (h (last (c # xs)))} \<subseteq> covered (areas h (c # xs))"
proof (induction xs arbitrary: c)
  case (Cons d xs)
  have "{vm_start (h d) ..< vm_end (h (last (d # xs)))} \<subseteq> covered (areas h (d # xs))"
    using Cons by simp
  then show ?case using Cons.prems(1) by (auto simp: areas_Cons area_ends not_le)
qed (simp add: areas_Cons area_ends areas_def)

lemma munmap_keep_ok:
  assumes wf: "mm_wf st mm (as @ rest) (v # fs)" and fs: "fs \<noteq> []" and mm: "mm_page mm"
    and len: "va < va + len" and r: "vm_start r < va + len" "va < vm_end r"
    and lo: "\<forall>a \<in> set as. vm_start (vmas st a) < vm_start r"
    and hi: "\<forall>b \<in> set rest. vm_end r \<le> vm_start (vmas st b)" and ne: "vm_start r < vm_end r"
  shows "\<exists>st' new fs'. munmap_keep mm va len r st = Some st' \<and> mm_wf st' mm (as @ new @ rest) fs' \<and>
     areas (vmas st') as = areas (vmas st) as \<and> areas (vmas st') new = clip va (va + len) (area_of r) \<and>
     areas (vmas st') rest = areas (vmas st) rest \<and> (vm_end r \<le> va + len \<longrightarrow> fs' \<noteq> []) \<and>
     (\<forall>m. m \<noteq> mm \<longrightarrow> mms st' m = mms st m) \<and> (\<forall>a. a \<notin> slots mm \<longrightarrow> vmas st' a = vmas st a)"
proof -
  let ?l = "vm_start r < va" and ?h = "va + len < vm_end r"
  have clip: "clip va (va + len) (area_of r) =
      (if ?l then [the_area (vm_start r) (va - vm_start r) (vm_flags r) (vm_file r) (vm_pgoff r) (vm_filesz r)] else []) @
      (if ?h then [the_area (va + len) (vm_end r - (va + len)) (vm_flags r) (vm_file r) (vm_pgoff r) (vm_filesz r)] else [])"
    using r by (auto simp: clip_def area_of_def the_area_def)
  have left: "\<exists>st2 nl fs2. (if ?l then do { (x, s) \<leftarrow> do_mmap mm (vm_start r) (va - vm_start r) (vm_flags r)
                       (vm_file r) (vm_pgoff r) (vm_filesz r) st; Some s } else Some st) = Some st2 \<and>
     mm_wf st2 mm ((as @ nl) @ rest) fs2 \<and> fs2 \<noteq> [] \<and> areas (vmas st2) as = areas (vmas st) as \<and>
     areas (vmas st2) nl = (if ?l then [the_area (vm_start r) (va - vm_start r) (vm_flags r) (vm_file r) (vm_pgoff r) (vm_filesz r)] else []) \<and>
     areas (vmas st2) rest = areas (vmas st) rest \<and>
     (\<forall>m. m \<noteq> mm \<longrightarrow> mms st2 m = mms st m) \<and> (\<forall>a. a \<notin> slots mm \<longrightarrow> vmas st2 a = vmas st a)"
  proof (cases ?l)
    case True
    have "\<forall>a \<in> set as. vm_start (vmas st a) \<le> vm_start r" "\<forall>b \<in> set rest. vm_start r < vm_start (vmas st b)"
      using lo hi ne by (auto intro: order_less_imp_le order_less_le_trans)
    from do_mmap_at [OF wf _ mm this] obtain st2 f fs2 where D:
      "do_mmap mm (vm_start r) (va - vm_start r) (vm_flags r) (vm_file r) (vm_pgoff r) (vm_filesz r) st = Some (vm_start r, st2)"
      "mm_wf st2 mm (as @ f # rest) fs2" "areas (vmas st2) as = areas (vmas st) as"
      "area_of (vmas st2 f) = the_area (vm_start r) (va - vm_start r) (vm_flags r) (vm_file r) (vm_pgoff r) (vm_filesz r)"
      "areas (vmas st2) rest = areas (vmas st) rest" "if as @ rest = [] then length fs2 = NR_VMA_SLOTS - 1 else fs2 = tl (v # fs)"
      "\<forall>m. m \<noteq> mm \<longrightarrow> mms st2 m = mms st m" "\<forall>a. a \<notin> slots mm \<longrightarrow> vmas st2 a = vmas st a" by blast
    have "fs2 \<noteq> []" using D(6) fs by (auto simp: NR_VMA_SLOTS_56 split: if_splits)
    then show ?thesis using D True
      by (intro exI [of _ st2] exI [of _ "[f]"] exI [of _ fs2]) (simp add: areas_def)
  next
    case False
    then show ?thesis using wf
      by (intro exI [of _ st] exI [of _ "[]"] exI [of _ "v # fs"]) (simp add: areas_def)
  qed
  then obtain st2 nl fs2 where L: "(if ?l then do { (x, s) \<leftarrow> do_mmap mm (vm_start r) (va - vm_start r) (vm_flags r)
                       (vm_file r) (vm_pgoff r) (vm_filesz r) st; Some s } else Some st) = Some st2"
     "mm_wf st2 mm ((as @ nl) @ rest) fs2" "fs2 \<noteq> []" "areas (vmas st2) as = areas (vmas st) as"
     "areas (vmas st2) nl = (if ?l then [the_area (vm_start r) (va - vm_start r) (vm_flags r) (vm_file r) (vm_pgoff r) (vm_filesz r)] else [])"
     "areas (vmas st2) rest = areas (vmas st) rest"
     "\<forall>m. m \<noteq> mm \<longrightarrow> mms st2 m = mms st m" "\<forall>a. a \<notin> slots mm \<longrightarrow> vmas st2 a = vmas st a" by blast
  have start2: "vm_start (vmas st2 a) = vm_start (vmas st a)" if "areas (vmas st2) xs = areas (vmas st) xs" "a \<in> set xs" for a xs
    using that by (auto simp: areas_def area_of_def)
  show ?thesis
  proof (cases ?h)
    case True
    have "vm_start (vmas st2 a) \<le> va + len" if "a \<in> set (as @ nl)" for a
    proof (cases "a \<in> set as")
      case True
      then show ?thesis using start2 [OF L(4)] lo r(1) by force
    next
      case False
      then have "a \<in> set nl" using that by simp
      then have "area_of (vmas st2 a) \<in> set (areas (vmas st2) nl)" by (simp add: areas_def)
      then have "vm_start (vmas st2 a) = vm_start r"
        unfolding L(5) by (auto simp: area_of_def the_area_def split: if_splits)
      then show ?thesis using r(1) by simp
    qed
    then have p: "\<forall>a \<in> set (as @ nl). vm_start (vmas st2 a) \<le> va + len" by blast
    have q: "\<forall>b \<in> set rest. va + len < vm_start (vmas st2 b)"
      using start2 [OF L(6)] hi True by (auto intro: order_less_le_trans)
    from do_mmap_at [OF L(2) _ mm p q] L(3) obtain st3 f fs3 where D:
      "do_mmap mm (va + len) (vm_end r - (va + len)) (vm_flags r) (vm_file r) (vm_pgoff r) (vm_filesz r) st2 = Some (va + len, st3)"
      "mm_wf st3 mm ((as @ nl) @ f # rest) fs3" "areas (vmas st3) (as @ nl) = areas (vmas st2) (as @ nl)"
      "area_of (vmas st3 f) = the_area (va + len) (vm_end r - (va + len)) (vm_flags r) (vm_file r) (vm_pgoff r) (vm_filesz r)"
      "areas (vmas st3) rest = areas (vmas st2) rest"
      "\<forall>m. m \<noteq> mm \<longrightarrow> mms st3 m = mms st2 m" "\<forall>a. a \<notin> slots mm \<longrightarrow> vmas st3 a = vmas st2 a" by blast
    have a3: "areas (vmas st3) as = areas (vmas st2) as" "areas (vmas st3) nl = areas (vmas st2) nl"
      using areas_split [OF D(3) [unfolded areas_append [of "vmas st2"]]] by simp_all
    have new: "areas (vmas st3) (nl @ [f]) = clip va (va + len) (area_of r)"
    proof -
      have "areas (vmas st3) (nl @ [f]) = areas (vmas st2) nl @ [area_of (vmas st3 f)]"
        using a3(2) by (simp add: areas_append) (simp add: areas_def)
      then show ?thesis using D(4) L(5) True by (simp add: clip)
    qed
    have run: "munmap_keep mm va len r st = Some st3" using L(1) D(1) True by (simp add: munmap_keep_def)
    show ?thesis
      by (rule exI [of _ st3], rule exI [of _ "nl @ [f]"], rule exI [of _ fs3])
        (use run D(2) a3(1) new L(4,6-8) D(5-7) True in auto)
  next
    case False
    have run: "munmap_keep mm va len r st = Some st2" using L(1) False by (simp add: munmap_keep_def)
    have new: "areas (vmas st2) nl = clip va (va + len) (area_of r)" using L(5) False by (simp add: clip)
    show ?thesis
      by (rule exI [of _ st2], rule exI [of _ nl], rule exI [of _ fs2]) (use run L new in simp)
  qed
qed

lemma munmap_loop_ok:
  assumes "mm_wf st mm (as @ ms @ post) fs" "fs \<noteq> []" "mm_page mm" "va < va + len"
    "sorted_areas (areas (vmas st) (as @ ms @ post))"
    "\<forall>m \<in> set ms. vm_start (vmas st m) < va + len \<and> va < vm_end (vmas st m)"
  shows "\<exists>st' as' fs'. munmap_loop mm va len (hd0 0 post) (hd0 0 (ms @ post)) st = Some st' \<and>
     mm_wf st' mm (as' @ post) fs' \<and> areas (vmas st') (as' @ post) =
       areas (vmas st) as @ concat (map (clip va (va + len)) (areas (vmas st) ms)) @ areas (vmas st) post \<and>
     (\<forall>m. m \<noteq> mm \<longrightarrow> mms st' m = mms st m) \<and> (\<forall>a. a \<notin> slots mm \<longrightarrow> vmas st' a = vmas st a)"
  using assms
proof (induction ms arbitrary: st as fs)
  case Nil
  then show ?case
    by (intro exI [of _ st] exI [of _ as] exI [of _ fs])
      (subst munmap_loop.simps, simp add: areas_append, simp add: areas_def)
next
  case (Cons v ms)
  let ?r = "vmas st v" and ?rest = "ms @ post" and ?st1 = "remove_vma mm v st"
  note wf = Cons.prems(1) [simplified]
  note W = mm_wfD [OF wf]
  note R = remove_vma_ok [OF wf]
  have vne: "v \<noteq> 0" "v \<noteq> hd0 0 post" "vm_next ?r = hd0 0 ?rest"
    using W(3,4,6) by (auto simp: dlink_append hd0_def split: list.splits)
  have A1: "areas (vmas ?st1) as = areas (vmas st) as" "areas (vmas ?st1) ?rest = areas (vmas st) ?rest"
    using areas_split [OF R(2)] by simp_all
  have st1: "vm_start (vmas ?st1 a) = vm_start (vmas st a)" "vm_end (vmas ?st1 a) = vm_end (vmas st a)" if "a \<in> set (as @ ?rest)" for a
    using A1 that by (auto simp: areas_def area_of_def)
  note S = sorted_at [OF Cons.prems(5) [simplified]]
  have lo: "\<forall>a \<in> set as. vm_start (vmas ?st1 a) < vm_start ?r"
    using S(2,3) st1 by (auto intro: order_less_le_trans)
  have hi: "\<forall>b \<in> set ?rest. vm_end ?r \<le> vm_start (vmas ?st1 b)" using S(4) st1 by auto
  have in1: "vm_start ?r < va + len" "va < vm_end ?r" using Cons.prems(6) by simp_all
  from munmap_keep_ok [OF R(1) Cons.prems(2-4) in1 lo hi S(1)]
  obtain st2 new fs2 where K: "munmap_keep mm va len ?r ?st1 = Some st2" "mm_wf st2 mm (as @ new @ ?rest) fs2"
    "areas (vmas st2) as = areas (vmas ?st1) as" "areas (vmas st2) new = clip va (va + len) (area_of ?r)"
    "areas (vmas st2) ?rest = areas (vmas ?st1) ?rest" "vm_end ?r \<le> va + len \<longrightarrow> fs2 \<noteq> []"
    "\<forall>m. m \<noteq> mm \<longrightarrow> mms st2 m = mms ?st1 m" "\<forall>a. a \<notin> slots mm \<longrightarrow> vmas st2 a = vmas ?st1 a" by blast
  have step: "munmap_loop mm va len (hd0 0 post) (hd0 0 ((v # ms) @ post)) st =
      munmap_loop mm va len (hd0 0 post) (hd0 0 ?rest) st2"
    using vne K(1) by (subst munmap_loop.simps) simp
  have A2: "areas (vmas st2) (as @ new) = areas (vmas st) as @ clip va (va + len) (area_of ?r)"
    using K(3,4) A1 by (simp add: areas_append)
  have A3: "areas (vmas st2) ms = areas (vmas st) ms" "areas (vmas st2) post = areas (vmas st) post"
    by (rule areas_split [OF K(5) [unfolded A1(2) areas_append [of "vmas st"]]])+
  have wf2: "mm_wf st2 mm ((as @ new) @ ?rest) fs2" using K(2) by simp
  have sorted2: "sorted_areas (areas (vmas st2) ((as @ new) @ ms @ post))"
  proof -
    have "areas (vmas st) (as @ (v # ms) @ post) = areas (vmas st) as @ area_of ?r # areas (vmas st) ?rest"
      by (simp add: areas_def)
    then have "sorted_areas (areas (vmas st) as @ clip va (va + len) (area_of ?r) @ areas (vmas st) ?rest)"
      using sorted_clip_mid [OF _ Cons.prems(4)] Cons.prems(5) by simp
    moreover have "areas (vmas st2) ((as @ new) @ ms @ post) = areas (vmas st) as @ clip va (va + len) (area_of ?r) @ areas (vmas st) ?rest"
      unfolding areas_append [of _ "as @ new"] A2 K(5) A1(2) by simp
    ultimately show ?thesis by simp
  qed
  have in2: "\<forall>m \<in> set ms. vm_start (vmas st2 m) < va + len \<and> va < vm_end (vmas st2 m)"
    using Cons.prems(6) A3(1) by (auto simp: areas_def area_of_def)
  show ?case
  proof (cases "ms = []")
    case True
    have "munmap_loop mm va len (hd0 0 post) (hd0 0 ?rest) st2 = Some st2"
      using True by (subst munmap_loop.simps) simp
    then show ?thesis using True wf2 step K(7,8) R(3,4) A2 A3
      by (intro exI [of _ st2] exI [of _ "as @ new"] exI [of _ fs2]) (auto simp: areas_append areas_def)
  next
    case False
    then obtain b where b: "b \<in> set ms" by (cases ms) auto
    have "vm_end ?r \<le> va + len" using S(4) b Cons.prems(6) by (metis UnI1 list.set_intros(2) order.trans order_less_imp_le set_append)
    then have "fs2 \<noteq> []" using K(6) by simp
    from Cons.IH [OF wf2 this Cons.prems(3,4) sorted2 in2] obtain st' as' fs' where M:
      "munmap_loop mm va len (hd0 0 post) (hd0 0 ?rest) st2 = Some st'" "mm_wf st' mm (as' @ post) fs'"
      "areas (vmas st') (as' @ post) = areas (vmas st2) (as @ new) @ concat (map (clip va (va + len)) (areas (vmas st2) ms)) @ areas (vmas st2) post"
      "\<forall>m. m \<noteq> mm \<longrightarrow> mms st' m = mms st2 m" "\<forall>a. a \<notin> slots mm \<longrightarrow> vmas st' a = vmas st2 a" by blast
    have "areas (vmas st) (v # ms) = area_of ?r # areas (vmas st) ms" by (simp add: areas_def)
    then have "areas (vmas st') (as' @ post) =
       areas (vmas st) as @ concat (map (clip va (va + len)) (areas (vmas st) (v # ms))) @ areas (vmas st) post"
      by (simp add: M(3) A2 A3)
    then show ?thesis using step K(7,8) R(3,4) M(1,2,4,5)
      by (intro exI [of "\<lambda>st'. \<exists>as' fs'. P st' as' fs'" st' for P] exI [of "\<lambda>as'. \<exists>fs'. P as' fs'" as' for P] exI [of _ fs']) simp
  qed
qed

lemma adjacent_starts:
  "adjacent h (c # xs) \<Longrightarrow> b \<in> set xs \<Longrightarrow> \<exists>a \<in> set (butlast (c # xs)). vm_start (h b) = vm_end (h a)"
proof (induction xs arbitrary: c)
  case (Cons d xs)
  then show ?case by (cases "b = d") auto
qed simp

theorem do_munmap_ok:
  assumes wf: "mm_wf st mm vs fs" and fs: "fs \<noteq> []" and mm: "mm_page mm" and len: "va < va + len"
    and sorted: "sorted_areas (areas (vmas st) vs)" and rm: "remove_mapping pgd va len v = Some v'"
  shows "if va AND (PGSIZE - 1) = 0 \<and> len AND (PGSIZE - 1) = 0 \<and> {va ..< va + len} \<subseteq> covered (areas (vmas st) vs)
     then \<exists>st' vs' fs'. do_munmap pgd mm va len (v, st) = Some (1, v', st') \<and> mm_wf st' mm vs' fs' \<and>
        areas (vmas st') vs' = concat (map (clip va (va + len)) (areas (vmas st) vs)) \<and>
        (\<forall>m. m \<noteq> mm \<longrightarrow> mms st' m = mms st m) \<and> (\<forall>a. a \<notin> slots mm \<longrightarrow> vmas st' a = vmas st a)
     else do_munmap pgd mm va len (v, st) = Some (-1, v, st)"
proof -
  let ?h = "vmas st" and ?al = "va AND (PGSIZE - 1) = 0 \<and> len AND (PGSIZE - 1) = 0"
  let ?c = "{va ..< va + len} \<subseteq> covered (areas ?h vs)"
  note W = mm_wfD [OF wf]
  have fv: "find_vma mm va st = Some (find_area ?h va vs)" by (rule find_vma_list [OF W(1)])
  note FA = find_area_correct [OF sorted W(3), of va]
  show ?thesis
  proof (cases "find_area ?h va vs = 0 \<or> \<not> ?al")
    case True
    have "\<not> ?c" if z: "find_area ?h va vs = 0"
    proof -
      have "va \<notin> covered (areas ?h vs)" using FA z by (auto simp: mem_covered)
      moreover have "va \<in> {va ..< va + len}" using len by simp
      ultimately show ?thesis by blast
    qed
    then have "\<not> (?al \<and> ?c)" using True by blast
    moreover have "do_munmap pgd mm va len (v, st) = Some (-1, v, st)" using True fv by (auto simp: do_munmap_def)
    ultimately show ?thesis by auto
  next
    case False
    define c where "c = find_area ?h va vs"
    have c: "c \<in> set vs" "vm_start (?h c) \<le> va" "va < vm_end (?h c)" "c \<noteq> 0" using FA False by (simp_all add: c_def)
    then obtain as rest where vs: "vs = as @ c # rest" by (meson split_list)
    have dl: "dlink ?h (last0 0 as) (c # rest) 0" using W(6) by (simp add: vs dlink_append)
    have run: "do_munmap pgd mm va len (v, st) = (do {
             d \<leftarrow> munmap_cover ?h (va + len) c;
             case d of
               None \<Rightarrow> Some (-1, v, st)
             | Some cur \<Rightarrow>
                 do { v' \<leftarrow> remove_mapping pgd va len v;
                      st' \<leftarrow> munmap_loop mm va len (vm_next (?h cur)) c st;
                      Some (1, v', st') } })"
      using False fv c by (simp add: do_munmap_def c_def [symmetric] not_less leD)
    from munmap_cover_list [OF dl, of "va + len"] W(3) vs consider
      "munmap_cover ?h (va + len) c = Some None" "gap ?h (va + len) (c # rest)"
      | ms cur post where "c # rest = ms @ cur # post" "munmap_cover ?h (va + len) c = Some (Some cur)"
        "\<forall>a \<in> set ms. vm_end (?h a) < va + len" "va + len \<le> vm_end (?h cur)" "adjacent ?h (ms @ [cur])" by auto
    then show ?thesis
    proof cases
      case 1
      obtain x where x: "vm_end (?h c) \<le> x" "x < va + len" "x \<notin> covered (areas ?h vs)"
        using gap_uncovered [OF sorted [unfolded vs] 1(2)] vs by blast
      moreover have "va \<le> x" using c(3) x(1) by simp
      ultimately have "\<not> ?c" by (meson atLeastLessThan_iff subsetD)
      then show ?thesis using run 1(1) by auto
    next
      case 2
      define xs where "xs = ms @ [cur]"
      obtain xs' where xs: "xs = c # xs'" using 2(1) by (cases ms) (auto simp: xs_def)
      have vs2: "vs = as @ xs @ post" using vs 2(1) by (simp add: xs_def)
      have sort2: "sorted_areas (areas ?h (as @ c # (xs' @ post)))" using sorted vs2 xs by simp
      note S = sorted_at [OF sort2]
      have lastx: "last (c # xs') = cur" unfolding xs [symmetric] by (simp add: xs_def)
      have blx: "butlast (c # xs') = ms" unfolding xs [symmetric] by (simp add: xs_def)
      have adj: "adjacent ?h (c # xs')" using 2(5) xs by (simp add: xs_def)
      have "{vm_start (?h c) ..< vm_end (?h cur)} \<subseteq> covered (areas ?h xs)"
        using adjacent_covered [OF adj] S(1,5) lastx xs by auto
      moreover have "{va ..< va + len} \<subseteq> {vm_start (?h c) ..< vm_end (?h cur)}"
        using c(2) 2(4) by (meson atLeastLessThan_subset_iff ivl_subset)
      moreover have "covered (areas ?h xs) \<subseteq> covered (areas ?h vs)" by (simp add: vs2 areas_append)  blast
      ultimately have cov: "?c" by blast
      have ms_ok: "\<forall>m \<in> set xs. vm_start (?h m) < va + len \<and> va < vm_end (?h m)"
      proof
        fix m assume m: "m \<in> set xs"
        show "vm_start (?h m) < va + len \<and> va < vm_end (?h m)"
        proof (cases "m = c")
          case True
          then show ?thesis using c len by auto
        next
          case False
          then have mx: "m \<in> set xs'" using m xs by simp
          then obtain a where "a \<in> set ms" "vm_start (?h m) = vm_end (?h a)" using adjacent_starts [OF adj] blx by auto
          moreover have "vm_end (?h c) \<le> vm_start (?h m)" "vm_start (?h m) < vm_end (?h m)" using S(4,5) mx by simp_all
          then have "va < vm_end (?h m)" using c(3) by simp
          ultimately show ?thesis using 2(3) by simp
        qed
      qed
      have nxt: "vm_next (?h cur) = hd0 0 post" using W(6) by (simp add: vs2 xs_def dlink_append)
      have hd: "hd0 0 (xs @ post) = c" by (simp add: xs)
      from munmap_loop_ok [OF wf [unfolded vs2] fs mm len sorted [unfolded vs2] ms_ok] obtain st' as' fs' where M:
        "munmap_loop mm va len (hd0 0 post) c st = Some st'" "mm_wf st' mm (as' @ post) fs'"
        "areas (vmas st') (as' @ post) = areas ?h as @ concat (map (clip va (va + len)) (areas ?h xs)) @ areas ?h post"
        "\<forall>m. m \<noteq> mm \<longrightarrow> mms st' m = mms st m" "\<forall>a. a \<notin> slots mm \<longrightarrow> vmas st' a = vmas st a" unfolding hd by blast
      have out: "concat (map (clip va (va + len)) (areas ?h ys)) = areas ?h ys"
        if "\<forall>a \<in> set ys. vm_end (?h a) \<le> va \<or> va + len \<le> vm_start (?h a)" for ys
        using that by (induction ys) (simp_all add: areas_def clip_outside area_ends)
      have "\<forall>a \<in> set as. vm_end (?h a) \<le> va" using S(2) c(2) by (meson order.trans)
      moreover have "\<forall>a \<in> set post. va + len \<le> vm_start (?h a)"
      proof -
        have "sorted_areas (areas ?h ((as @ ms) @ cur # post))" using sorted vs2 by (simp add: xs_def)
        from sorted_at(4) [OF this] show ?thesis using 2(4) by (meson order.trans)
      qed
      ultimately have "areas (vmas st') (as' @ post) = concat (map (clip va (va + len)) (areas ?h vs))"
        using out [of as] out [of post] unfolding M(3) vs2 by (simp add: areas_append)
      then show ?thesis using cov False run 2(2) nxt M rm by auto
    qed
  qed
qed

subsection \<open>copy_mm\<close>

definition moved :: "u64 \<Rightarrow> u64 \<Rightarrow> vm_area \<Rightarrow> vm_area" where
  "moved dst delta v = v\<lparr>vm_mm := dst, vm_prev := (if vm_prev v = 0 then 0 else vm_prev v + delta),
                         vm_next := (if vm_next v = 0 then 0 else vm_next v + delta)\<rparr>"

lemma copy_vmas_list:
  assumes "dlink (vmas st) p vs 0" "0 \<notin> set vs" "\<forall>a \<in> set vs. a + delta \<noteq> 0 \<and> a + delta \<notin> set vs" "distinct vs"
    "vs \<noteq> [] \<longrightarrow> d = hd vs + delta"
  shows "\<exists>st'. copy_vmas dst delta (hd0 0 vs) d st = Some st' \<and> mms st' = mms st \<and>
     (\<forall>a \<in> set vs. vmas st' (a + delta) = moved dst delta (vmas st a)) \<and>
     (\<forall>a. a \<notin> (\<lambda>a. a + delta) ` set vs \<longrightarrow> vmas st' a = vmas st a)"
  using assms
proof (induction vs arbitrary: st p d)
  case Nil
  then show ?case by (subst copy_vmas.simps) simp
next
  case (Cons a vs)
  define st1 where "st1 = vupd (a + delta) (\<lambda>_. moved dst delta (vmas st a)) st"
  have h1: "vmas st1 = (vmas st)(a + delta := moved dst delta (vmas st a))" "mms st1 = mms st" by (simp_all add: st1_def)
  have nx: "vm_next (vmas st a) = hd0 0 vs" using Cons.prems(1) by simp
  have a: "a \<noteq> 0" "a + delta \<noteq> 0" "d = a + delta" "a + delta \<notin> set (a # vs)" using Cons.prems by auto
  have step: "copy_vmas dst delta (hd0 0 (a # vs)) d st
      = copy_vmas dst delta (hd0 0 vs) (vm_next (moved dst delta (vmas st a))) st1"
    using a nx by (subst copy_vmas.simps) (simp add: st1_def moved_def Let_def)
  have "dlink (vmas st1) a vs 0" using Cons.prems(1) a(4) by (simp add: h1 dlink_outside)
  moreover have "vs \<noteq> [] \<longrightarrow> vm_next (moved dst delta (vmas st a)) = hd vs + delta"
    using nx Cons.prems(2) by (cases vs) (auto simp: moved_def)
  ultimately obtain st' where I: "copy_vmas dst delta (hd0 0 vs) (vm_next (moved dst delta (vmas st a))) st1 = Some st'"
    "mms st' = mms st1" "\<forall>b \<in> set vs. vmas st' (b + delta) = moved dst delta (vmas st1 b)"
    "\<forall>b. b \<notin> (\<lambda>a. a + delta) ` set vs \<longrightarrow> vmas st' b = vmas st1 b"
    using Cons.IH [of st1 a "vm_next (moved dst delta (vmas st a))"] Cons.prems(2-4) by auto
  have "vmas st1 b = vmas st b" if "b \<in> set vs" for b using that a(4) by (auto simp: h1)
  moreover have "vmas st' (a + delta) = moved dst delta (vmas st a)"
  proof -
    have "a + delta \<notin> (\<lambda>a. a + delta) ` set vs" using Cons.prems(4) by auto
    then show ?thesis using I(4) by (simp add: h1)
  qed
  ultimately show ?case using I step h1 by (intro exI [of _ st']) auto
qed

theorem copy_mm_ok:
  assumes wf: "mm_wf st src vs fs" and "slots dst \<inter> slots src = {}" "0 \<notin> slots dst" "dst \<noteq> src"
  shows "\<exists>st'. copy_mm dst src st = Some st' \<and>
     list_ok (vmas st') (mmap (mms st' dst)) (map (\<lambda>a. a + (dst - src)) vs) \<and>
     areas (vmas st') (map (\<lambda>a. a + (dst - src)) vs) = areas (vmas st) vs \<and>
     num_vmas (mms st' dst) = of_nat (length vs) \<and>
     (\<forall>a \<in> set vs. vm_mm (vmas st' (a + (dst - src))) = dst) \<and>
     free_vma_list (mms st' dst) = free_vma_list (mms st dst) \<and>
     (\<forall>m. m \<noteq> dst \<longrightarrow> mms st' m = mms st m) \<and> (\<forall>a. a \<notin> slots dst \<longrightarrow> vmas st' a = vmas st a)"
proof -
  let ?d = "dst - src"
  note W = mm_wfD [OF wf]
  have n: "num_vmas (mms st src) = of_nat (length vs)" using wf by (simp add: mm_wf_def)
  have into: "(\<lambda>a. a + ?d) ` set vs \<subseteq> slots dst"
    using W(2) by (auto simp: slots_def vma_slot_def algebra_simps image_iff subset_iff) fastforce
  show ?thesis
  proof (cases vs)
    case Nil
    then have "mmap (mms st src) = 0" using W(5) by simp
    then show ?thesis using Nil n by (simp add: copy_mm_def list_ok_def areas_def mupd_def)
  next
    case (Cons a as)
    then have m0: "mmap (mms st src) = a" "a \<noteq> 0" using W(3,5) by auto
    define st1 where "st1 = mupd dst (\<lambda>m. m\<lparr>mmap := a + ?d, num_vmas := of_nat (length vs)\<rparr>) st"
    have h1: "vmas st1 = vmas st" "mms st1 = (mms st)(dst := (mms st dst)\<lparr>mmap := a + ?d, num_vmas := of_nat (length vs)\<rparr>)"
      by (simp_all add: st1_def mupd_def)
    have "\<forall>b \<in> set vs. b + ?d \<noteq> 0 \<and> b + ?d \<notin> set vs"
    proof
      fix b assume "b \<in> set vs"
      then have d: "b + ?d \<in> slots dst" using into by (meson imageI subsetD)
      then have "b + ?d \<notin> slots src" using assms(2) by (meson disjoint_iff)
      moreover have "b + ?d \<noteq> 0" using d assms(3) by metis
      ultimately show "b + ?d \<noteq> 0 \<and> b + ?d \<notin> set vs" using W(2) by (meson subsetD)
    qed
    note disj = this
    have "hd0 0 vs = a" "vs \<noteq> [] \<longrightarrow> a + ?d = hd vs + ?d" using Cons by simp_all
    from copy_vmas_list [of st1, OF _ W(3) disj W(4) this(2)] this(1) W(6) obtain st' where
      C: "copy_vmas dst ?d a (a + ?d) st1 = Some st'" "mms st' = mms st1"
        "\<forall>b \<in> set vs. vmas st' (b + ?d) = moved dst ?d (vmas st b)"
        "\<forall>b. b \<notin> (\<lambda>a. a + ?d) ` set vs \<longrightarrow> vmas st' b = vmas st b"
      unfolding h1(1) by metis
    have run: "copy_mm dst src st = Some st'"
      using C(1) m0 n assms(4) by (simp add: copy_mm_def Let_def st1_def mupd_def)
    have dl: "dlink (vmas st') q (map (\<lambda>a. a + ?d) us) 0"
      if "dlink (vmas st) p us 0" "set us \<subseteq> set vs" "q = (if p = 0 then 0 else p + ?d)" for p q us
      using that
    proof (induction us arbitrary: p q)
      case (Cons u us)
      have "u \<noteq> 0" "u \<in> set vs" using Cons.prems(2) W(3) by auto
      moreover have "hd0 0 (map (\<lambda>a. a + ?d) us) = (if hd0 0 us = 0 then 0 else hd0 0 us + ?d)"
        using Cons.prems(2) W(3) by (cases us) auto
      ultimately show ?case using Cons.IH [of u "u + ?d"] Cons.prems C(3) by (simp add: moved_def)
    qed simp
    have "list_ok (vmas st') (mmap (mms st' dst)) (map (\<lambda>a. a + ?d) vs)"
      using dl [OF W(6) subset_refl refl] into assms(3) W(4) Cons C(2) h1
      by (auto simp: list_ok_def distinct_map inj_on_def)
    moreover have "areas (vmas st') (map (\<lambda>a. a + ?d) vs) = areas (vmas st) vs"
      using C(3) by (simp add: areas_def area_of_def moved_def)
    ultimately show ?thesis using run C h1 into by (intro exI [of _ st']) (auto simp: moved_def)
  qed
qed

end
