(* ===== verification/Vma_Claims.thy ===== *)
theory Vma_Claims
  imports Vma_Ops
begin

unbundle bit_operations_syntax

text \<open>
  The properties of the memory areas of a process, each with a concrete instance: an \<open>mm_struct\<close>
  with the areas \<open>0x10000\<close> to \<open>0x14000\<close> and \<open>0x14000\<close> to \<open>0x18000\<close>.
\<close>

definition demo_mm :: u64 where "demo_mm = 0xffffffe000400000"

definition demo_mms :: mmst where
  "demo_mms =
    \<lparr>mms = (\<lambda>_. \<lparr>mmap = vma_slot demo_mm 0, num_vmas = 2, free_vma_list = vma_slot demo_mm 2\<rparr>),
     vmas = (\<lambda>a.
       if a = vma_slot demo_mm 0 then
         \<lparr>vm_mm = demo_mm, vm_start = 0x10000, vm_end = 0x14000, vm_flags = VM_ANON OR VM_READ, vm_prev = 0,
          vm_next = vma_slot demo_mm 1, vm_file = 0, vm_pgoff = 0, vm_filesz = 0\<rparr>
       else if a = vma_slot demo_mm 1 then
         \<lparr>vm_mm = demo_mm, vm_start = 0x14000, vm_end = 0x18000, vm_flags = VM_ANON OR VM_WRITE, vm_prev = vma_slot demo_mm 0,
          vm_next = 0, vm_file = 0, vm_pgoff = 0, vm_filesz = 0\<rparr>
       else zero_vma\<lparr>vm_next := (if a = vma_slot demo_mm 55 then 0 else a + sizeof_vm_area)\<rparr>)\<rparr>"

definition demo_used :: "u64 list" where "demo_used = [vma_slot demo_mm 0, vma_slot demo_mm 1]"
definition demo_free :: "u64 list" where "demo_free = map (vma_slot demo_mm) [2 ..< 56]"

lemma slots_code [code]: "slots mm = set (map (vma_slot mm) [0 ..< NR_VMA_SLOTS])"
  by (auto simp: slots_def lessThan_atLeast0)

lemma demo_wf: "mm_wf demo_mms demo_mm demo_used demo_free" by code_simp

lemma demo_sorted: "sorted_areas (areas (vmas demo_mms) demo_used)" by code_simp

lemma demo_mm_page: "mm_page demo_mm" by code_simp

lemma demo_free_ne: "demo_free \<noteq> []" by code_simp

text \<open>
  C15. \<open>find_vma\<close> on a well-formed, ordered list of areas always terminates, and it answers membership: the slot it
  returns is an area of the list that contains the address, and it returns the null pointer exactly
  when no area contains the address (the early exit at the first area above the address loses none).
\<close>

theorem find_vma_correct:
  assumes "mm_wf st mm vs fs" and "sorted_areas (areas (vmas st) vs)"
  shows "\<exists>p. find_vma mm va st = Some p \<and>
     (if \<exists>a \<in> set vs. vm_start (vmas st a) \<le> va \<and> va < vm_end (vmas st a)
      then p \<in> set vs \<and> vm_start (vmas st p) \<le> va \<and> va < vm_end (vmas st p) else p = 0)"
  using find_vma_list [OF mm_wfD(1) [OF assms(1)], of va]
    find_area_correct [OF assms(2) mm_wfD(3) [OF assms(1)], of va] mm_wfD(3) [OF assms(1)]
  by (cases "find_area (vmas st) va vs = 0") auto

theorem find_vma_correct_witness:
  "find_vma demo_mm 0x15000 demo_mms = Some (vma_slot demo_mm 1) \<and> find_vma demo_mm 0x18000 demo_mms = Some 0"
proof -
  note F = find_vma_correct [OF demo_wf demo_sorted]
  have in1: "\<exists>a \<in> set demo_used. vm_start (vmas demo_mms a) \<le> 0x15000 \<and> 0x15000 < vm_end (vmas demo_mms a)" by code_simp
  have out: "\<not> (\<exists>a \<in> set demo_used. vm_start (vmas demo_mms a) \<le> 0x18000 \<and> 0x18000 < vm_end (vmas demo_mms a))" by code_simp
  have u: "\<forall>a \<in> set demo_used. vm_start (vmas demo_mms a) \<le> 0x15000 \<and> 0x15000 < vm_end (vmas demo_mms a) \<longrightarrow> a = vma_slot demo_mm 1"
    by code_simp
  show ?thesis using F [of "0x15000"] F [of "0x18000"] in1 out u by auto
qed

text \<open>
  C14. \<open>do_mmap\<close>, as long as a slot is free (or the process has no area yet), takes a slot, returns the requested address,
  and turns the list of areas \<open>A\<close> into \<open>insert_area\<close> of the new area into \<open>A\<close>, ordered by start address; the
  doubly linked list, the free list, the slot and area counts and the owner fields stay
  consistent. Nothing outside this \<open>mm_struct\<close> and its slots changes.
\<close>

theorem do_mmap_inserts:
  assumes "mm_wf st mm vs fs" and "vs = [] \<or> fs \<noteq> []" and "mm_page mm"
  shows "\<exists>st' vs' fs'. do_mmap mm va len flags fil pgoff filesz st = Some (va, st') \<and> mm_wf st' mm vs' fs' \<and>
     areas (vmas st') vs' = insert_area (the_area va len flags fil pgoff filesz) (areas (vmas st) vs) \<and>
     (\<forall>m. m \<noteq> mm \<longrightarrow> mms st' m = mms st m) \<and> (\<forall>a. a \<notin> slots mm \<longrightarrow> vmas st' a = vmas st a)"
  using do_mmap_ok [OF assms, of va len flags fil pgoff filesz] by (elim exE conjE) (intro exI conjI, assumption+, simp, assumption+)

theorem do_mmap_inserts_witness:
  "\<exists>st' vs'. do_mmap demo_mm 0x20000 0x3000 VM_ANON 0 0 0 demo_mms = Some (0x20000, st') \<and>
     map a_start (areas (vmas st') vs') = [0x10000, 0x14000, 0x20000]"
proof -
  have i: "map a_start (insert_area (the_area 0x20000 0x3000 VM_ANON 0 0 0) (areas (vmas demo_mms) demo_used)) = [0x10000, 0x14000, 0x20000]"
    by code_simp
  from do_mmap_inserts [OF demo_wf disjI2 [OF demo_free_ne] demo_mm_page, of "0x20000" "0x3000" VM_ANON 0 0 0]
  obtain st' vs' where "do_mmap demo_mm 0x20000 0x3000 VM_ANON 0 0 0 demo_mms = Some (0x20000, st')"
    "areas (vmas st') vs' = insert_area (the_area 0x20000 0x3000 VM_ANON 0 0 0) (areas (vmas demo_mms) demo_used)" by blast
  then show ?thesis using i by (intro exI [of _ st'] exI [of _ vs']) simp
qed

text \<open>
  C13. \<open>do_munmap\<close> succeeds exactly when the start and the length are page aligned and every address of
  the range belongs to an area; otherwise it returns \<open>-1\<close> and leaves everything unchanged. When it succeeds, each area
  is replaced by what lies below and above the range (its flags kept), in order, so the addresses covered
  afterwards are exactly those covered before minus the range, and the list stays well formed and ordered.
  A free slot is needed because one area can split into two.
\<close>

theorem do_munmap_removes_range:
  assumes "mm_wf st mm vs fs" and "fs \<noteq> []" and "mm_page mm" and "va < va + len"
    and "sorted_areas (areas (vmas st) vs)" and "remove_mapping pgd va len v = Some v'"
  shows "if va AND (PGSIZE - 1) = 0 \<and> len AND (PGSIZE - 1) = 0 \<and> {va ..< va + len} \<subseteq> covered (areas (vmas st) vs)
     then \<exists>st' vs' fs'. do_munmap pgd mm va len (v, st) = Some (1, v', st') \<and> mm_wf st' mm vs' fs' \<and>
        areas (vmas st') vs' = concat (map (clip va (va + len)) (areas (vmas st) vs)) \<and>
        sorted_areas (areas (vmas st') vs') \<and>
        covered (areas (vmas st') vs') = covered (areas (vmas st) vs) - {va ..< va + len} \<and>
        (\<forall>m. m \<noteq> mm \<longrightarrow> mms st' m = mms st m) \<and> (\<forall>a. a \<notin> slots mm \<longrightarrow> vmas st' a = vmas st a)
     else do_munmap pgd mm va len (v, st) = Some (-1, v, st)"
proof -
  have "sorted_areas (concat (map (clip va (va + len)) (areas (vmas st) vs)))"
    using sorted_clip [of "[]"] assms(4,5) by simp
  then show ?thesis using do_munmap_ok [OF assms] covered_clip [OF assms(4), of "areas (vmas st) vs"]
    by (auto split: if_splits) (metis)
qed

theorem do_munmap_removes_range_witness:
  "\<exists>v' st' vs'. do_munmap root_a demo_mm 0x10000 0x1000 (demo_vm', demo_mms) = Some (1, v', st') \<and>
     map (\<lambda>a. (a_start a, a_end a)) (areas (vmas st') vs') = [(0x11000, 0x14000), (0x14000, 0x18000)]"
proof -
  have "remove_mapping root_a 0x10000 0x1000 demo_vm' \<noteq> None" by code_simp
  then obtain v' where rm: "remove_mapping root_a 0x10000 0x1000 demo_vm' = Some v'" by auto
  have al: "(0x10000 :: u64) AND (PGSIZE - 1) = 0 \<and> (0x1000 :: u64) AND (PGSIZE - 1) = 0" by code_simp
  have "vma_slot demo_mm 0 \<in> set demo_used" "vm_start (vmas demo_mms (vma_slot demo_mm 0)) = 0x10000"
    "vm_end (vmas demo_mms (vma_slot demo_mm 0)) = 0x14000" by code_simp+
  then have c: "{0x10000 ..< 0x10000 + 0x1000} \<subseteq> covered (areas (vmas demo_mms) demo_used)"
    unfolding mem_covered subset_iff atLeastLessThan_iff by (intro allI impI bexI [of _ "vma_slot demo_mm 0"])
      (auto elim: order.strict_trans)
  have cl: "map (\<lambda>a. (a_start a, a_end a)) (concat (map (clip 0x10000 (0x10000 + 0x1000)) (areas (vmas demo_mms) demo_used)))
      = [(0x11000, 0x14000), (0x14000, 0x18000)]" by code_simp
  have "(0x10000 :: u64) < 0x10000 + 0x1000" by simp
  from do_munmap_removes_range [OF demo_wf demo_free_ne demo_mm_page this demo_sorted rm, unfolded if_P [OF conjI [OF conjunct1 [OF al] conjI [OF conjunct2 [OF al] c]]]]
  obtain st' vs' where U: "do_munmap root_a demo_mm 0x10000 0x1000 (demo_vm', demo_mms) = Some (1, v', st')"
    "areas (vmas st') vs' = concat (map (clip 0x10000 (0x10000 + 0x1000)) (areas (vmas demo_mms) demo_used))"
    by (elim exE conjE) (rule that, assumption+)
  have "map (\<lambda>a. (a_start a, a_end a)) (areas (vmas st') vs') = [(0x11000, 0x14000), (0x14000, 0x18000)]"
    unfolding U(2) by (rule cl)
  with U(1) show ?thesis by (intro exI conjI)
qed

text \<open>
  C16. \<open>copy_mm\<close> gives the child a list of the same areas at the same positions of its own page, in order and
  properly linked, owned by the child; the parent is untouched. It does not set the child's free list, which keeps
  whatever the page held before: a later \<open>do_mmap\<close> of the child takes its slot from there.
\<close>

theorem copy_mm_copies:
  assumes "mm_wf st src vs fs" and "slots dst \<inter> slots src = {}" and "0 \<notin> slots dst" and "dst \<noteq> src"
  shows "\<exists>st' vs'. copy_mm dst src st = Some st' \<and> vs' = map (\<lambda>a. a + (dst - src)) vs \<and>
     list_ok (vmas st') (mmap (mms st' dst)) vs' \<and> areas (vmas st') vs' = areas (vmas st) vs \<and>
     num_vmas (mms st' dst) = num_vmas (mms st src) \<and> (\<forall>a \<in> set vs'. vm_mm (vmas st' a) = dst) \<and>
     free_vma_list (mms st' dst) = free_vma_list (mms st dst) \<and>
     (\<forall>m. m \<noteq> dst \<longrightarrow> mms st' m = mms st m) \<and> (\<forall>a. a \<notin> slots dst \<longrightarrow> vmas st' a = vmas st a)"
  using copy_mm_ok [OF assms] assms(1) by (auto simp: mm_wf_def)

theorem copy_mm_copies_witness:
  "\<exists>st' vs'. copy_mm (demo_mm + 0x1000) demo_mm demo_mms = Some st' \<and>
     map a_start (areas (vmas st') vs') = [0x10000, 0x14000]"
proof -
  have "\<forall>a \<in> slots demo_mm. a < demo_mm + 0x1000" "\<forall>a \<in> slots (demo_mm + 0x1000). demo_mm + 0x1000 < a" by code_simp+
  then have d: "slots (demo_mm + 0x1000) \<inter> slots demo_mm = {}" "0 \<notin> slots (demo_mm + 0x1000)" "demo_mm + 0x1000 \<noteq> demo_mm"
    by (auto dest: order_less_asym simp: demo_mm_def)
  have a: "map a_start (areas (vmas demo_mms) demo_used) = [0x10000, 0x14000]" by code_simp
  from copy_mm_copies [OF demo_wf d] obtain st' vs' where
    "copy_mm (demo_mm + 0x1000) demo_mm demo_mms = Some st'" "areas (vmas st') vs' = areas (vmas demo_mms) demo_used" by blast
  then show ?thesis using a by (intro exI [of _ st'] exI [of _ vs']) simp
qed

end
