(* ===== verification/Clib.thy ===== *)
theory Clib
  imports Prelude "HOL-Library.Signed_Division"
begin

unbundle bit_operations_syntax

text \<open>
  The freestanding C library of the kernel (\<open>lib/string.c\<close>, \<open>lib/rand.c\<close>, \<open>include/ctype.h\<close>,
  \<open>include/math.h\<close>) and \<open>randint\<close> of \<open>proc.c\<close>. Memory is a map from 64-bit addresses to bytes;
  pointer increments wrap as 64-bit words do. A scan for a terminating NUL is a
  \<open>partial_function\<close>: it returns \<open>None\<close> when it would never stop.
\<close>

type_synonym bmem = "u64 \<Rightarrow> u8"

subsection \<open>lib/string.c\<close>

fun memset_loop :: "nat \<Rightarrow> u64 \<Rightarrow> u8 \<Rightarrow> bmem \<Rightarrow> bmem" where
  "memset_loop 0 p v m = m"
| "memset_loop (Suc n) p v m = memset_loop n (p + 1) v (m(p := v))"

definition memset :: "u64 \<Rightarrow> u32 \<Rightarrow> u64 \<Rightarrow> bmem \<Rightarrow> u64 \<times> bmem" where
  "memset dst c n m = (dst, memset_loop (unat n) dst (ucast c) m)"

fun memcpy_loop :: "nat \<Rightarrow> u64 \<Rightarrow> u64 \<Rightarrow> bmem \<Rightarrow> bmem" where
  "memcpy_loop 0 d s m = m"
| "memcpy_loop (Suc n) d s m = memcpy_loop n (d + 1) (s + 1) (m(d := m s))"

definition memcpy :: "u64 \<Rightarrow> u64 \<Rightarrow> u64 \<Rightarrow> bmem \<Rightarrow> u64 \<times> bmem" where
  "memcpy dst src n m = (dst, memcpy_loop (unat n) dst src m)"

fun memcmp_loop :: "nat \<Rightarrow> u64 \<Rightarrow> u64 \<Rightarrow> bmem \<Rightarrow> int" where
  "memcmp_loop 0 p q m = 0"
| "memcmp_loop (Suc n) p q m =
     (if m p \<noteq> m q then (if m p < m q then -1 else 1) else memcmp_loop n (p + 1) (q + 1) m)"

definition memcmp :: "u64 \<Rightarrow> u64 \<Rightarrow> u64 \<Rightarrow> bmem \<Rightarrow> int" where
  "memcmp s1 s2 n m = memcmp_loop (unat n) s1 s2 m"

partial_function (option) strcpy :: "u64 \<Rightarrow> u64 \<Rightarrow> bmem \<Rightarrow> bmem option" where
  "strcpy dst src m =
     (let m' = m(dst := m src) in
      if m' dst \<noteq> 0 then strcpy (dst + 1) (src + 1) m' else Some m')"

partial_function (option) strncpy_loop :: "u64 \<Rightarrow> u64 \<Rightarrow> u64 \<Rightarrow> u64 \<Rightarrow> bmem \<Rightarrow> bmem option" where
  "strncpy_loop i dst src n m =
     (let m' = m(dst := m src) in
      if m' dst \<noteq> 0 \<and> i < n then strncpy_loop (i + 1) (dst + 1) (src + 1) n m' else Some m')"

definition strncpy :: "u64 \<Rightarrow> u64 \<Rightarrow> u64 \<Rightarrow> bmem \<Rightarrow> bmem option" where
  "strncpy dst src n m = strncpy_loop 0 dst src n m"

partial_function (option) strlen_loop :: "u64 \<Rightarrow> u64 \<Rightarrow> bmem \<Rightarrow> u64 option" where
  "strlen_loop s len m = (if m s \<noteq> 0 then strlen_loop (s + 1) (len + 1) m else Some len)"

definition strlen :: "u64 \<Rightarrow> bmem \<Rightarrow> u64 option" where
  "strlen s m = strlen_loop s 0 m"

function strnlen_loop :: "u64 \<Rightarrow> u64 \<Rightarrow> u64 \<Rightarrow> bmem \<Rightarrow> u64" where
  "strnlen_loop len s maxlen m =
     (if len < maxlen \<and> m (s + len) \<noteq> 0 then strnlen_loop (len + 1) s maxlen m else len)"
  by pat_completeness auto
termination
proof (relation "measure (\<lambda>(len, s, maxlen, m). unat maxlen - unat len)", goal_cases)
  case 1
  then show ?case by simp
next
  case (2 len s maxlen m)
  then have "unat len < unat maxlen" by (simp add: word_less_nat_alt)
  moreover from this have "unat (len + 1) = Suc (unat len)"
    by (rule unat_Suc_u64)
  ultimately show ?case by simp
qed

declare strnlen_loop.simps [simp del]

definition strnlen :: "u64 \<Rightarrow> u64 \<Rightarrow> bmem \<Rightarrow> u64" where
  "strnlen s maxlen m = strnlen_loop 0 s maxlen m"

subsection \<open>include/ctype.h and include/math.h\<close>

text \<open>The character classes take an \<open>int\<close>; the model takes its value.\<close>

definition iscntrl :: "int \<Rightarrow> bool" where "iscntrl c \<longleftrightarrow> (c \<ge> 0 \<and> c \<le> 0x1f) \<or> c = 0x7f"
definition isdigit :: "int \<Rightarrow> bool" where "isdigit c \<longleftrightarrow> c \<ge> 48 \<and> c \<le> 57"
definition isgraph :: "int \<Rightarrow> bool" where "isgraph c \<longleftrightarrow> c \<ge> 0x21 \<and> c \<le> 0x7e"
definition isupper :: "int \<Rightarrow> bool" where "isupper c \<longleftrightarrow> c \<ge> 65 \<and> c \<le> 90"
definition islower :: "int \<Rightarrow> bool" where "islower c \<longleftrightarrow> c \<ge> 97 \<and> c \<le> 122"
definition isprint :: "int \<Rightarrow> bool" where "isprint c \<longleftrightarrow> c \<ge> 0x20 \<and> c \<le> 0x7e"
definition isspace :: "int \<Rightarrow> bool" where "isspace c \<longleftrightarrow> c = 32 \<or> (c \<ge> 9 \<and> c \<le> 13)"
definition isalpha :: "int \<Rightarrow> bool" where "isalpha c \<longleftrightarrow> islower c \<or> isupper c"
definition isalnum :: "int \<Rightarrow> bool" where "isalnum c \<longleftrightarrow> isalpha c \<or> isdigit c"
definition ispunct :: "int \<Rightarrow> bool" where
  "ispunct c \<longleftrightarrow> isprint c \<and> \<not> isalnum c \<and> \<not> isspace c"
definition isxdigit :: "int \<Rightarrow> bool" where
  "isxdigit c \<longleftrightarrow> isdigit c \<or> (c \<ge> 97 \<and> c \<le> 102) \<or> (c \<ge> 65 \<and> c \<le> 70)"
definition isascii :: "int \<Rightarrow> bool" where "isascii c \<longleftrightarrow> c \<ge> 0 \<and> c \<le> 0x7f"
definition isblank :: "int \<Rightarrow> bool" where "isblank c \<longleftrightarrow> c = 32 \<or> c = 9"
definition tolower :: "int \<Rightarrow> int" where "tolower c = (if isupper c then c + (97 - 65) else c)"
definition toupper :: "int \<Rightarrow> int" where "toupper c = (if islower c then c - (97 - 65) else c)"

lemmas ctype_defs = iscntrl_def isdigit_def isgraph_def isupper_def islower_def isprint_def
  isspace_def isalpha_def isalnum_def ispunct_def isxdigit_def isascii_def isblank_def
  tolower_def toupper_def

definition uint64_t_min :: "u64 \<Rightarrow> u64 \<Rightarrow> u64" where "uint64_t_min a b = (if a < b then a else b)"
definition uint64_t_max :: "u64 \<Rightarrow> u64 \<Rightarrow> u64" where "uint64_t_max a b = (if a > b then a else b)"

subsection \<open>lib/rand.c and randint\<close>

text \<open>\<open>s - 1\<close> is computed on \<open>unsigned\<close>, 32 bits, before it is widened to the 64-bit seed.\<close>

definition srand :: "u32 \<Rightarrow> u64" where
  "srand s = ucast (s - 1)"

definition rand :: "u64 \<Rightarrow> int \<times> u64" where
  "rand seed = (let seed' = 6364136223846793005 * seed + 1
                in (sint (ucast (drop_bit 33 seed') :: u32), seed'))"

definition randint :: "int \<Rightarrow> int \<Rightarrow> u64 \<Rightarrow> int \<times> u64" where
  "randint low high seed =
     (if low = high then (low, seed)
      else let (r, seed') = rand seed in (r smod (high - low + 1) + low, seed'))"

subsection \<open>Block copies and fills\<close>

text \<open>\<open>in_block p n a\<close>: the address \<open>a\<close> is one of the \<open>n\<close> bytes that start at \<open>p\<close>.\<close>

definition in_block :: "u64 \<Rightarrow> nat \<Rightarrow> u64 \<Rightarrow> bool" where
  "in_block p n a \<longleftrightarrow> (\<exists>i<n. a = p + of_nat i)"

lemma in_block_0 [simp]: "\<not> in_block p 0 a"
  by (simp add: in_block_def)

lemma in_block_Suc: "in_block p (Suc n) a \<longleftrightarrow> a = p \<or> in_block (p + 1) n a"
proof
  assume "in_block p (Suc n) a"
  then obtain i where i: "i < Suc n" "a = p + of_nat i" by (auto simp: in_block_def)
  then show "a = p \<or> in_block (p + 1) n a"
    by (cases i) (auto simp: in_block_def algebra_simps)
next
  assume "a = p \<or> in_block (p + 1) n a"
  then show "in_block p (Suc n) a"
  proof
    assume "a = p"
    then show ?thesis by (auto simp: in_block_def intro: exI [of _ 0])
  next
    assume "in_block (p + 1) n a"
    then obtain i where "i < n" "a = p + 1 + of_nat i" by (auto simp: in_block_def)
    then show ?thesis by (auto simp: in_block_def algebra_simps intro!: exI [of _ "Suc i"])
  qed
qed

lemma not_in_block_succ: "n < 2 ^ 64 \<Longrightarrow> \<not> in_block (p + 1) n p" if "n < 2 ^ 64 - 1"
proof
  assume "in_block (p + 1) n p"
  then obtain i where i: "i < n" "p = p + (1 + of_nat i)" by (auto simp: in_block_def algebra_simps)
  then have "p + of_nat (Suc i) = p + of_nat 0" by simp
  then have "Suc i = 0" by (rule word_add_of_nat_inj) (use i that in auto)
  then show False by simp
qed

lemma memset_loop_apply:
  "n < 2 ^ 64 \<Longrightarrow> memset_loop n p v m a = (if in_block p n a then v else m a)"
proof (induction n arbitrary: p m)
  case 0
  then show ?case by simp
next
  case (Suc n)
  then show ?case by (auto simp: in_block_Suc)
qed

lemma memcpy_loop_outside: "\<not> in_block d n a \<Longrightarrow> memcpy_loop n d s m a = m a"
  by (induction n arbitrary: d s m) (auto simp: in_block_Suc)

lemma memcpy_loop_inside:
  "n < 2 ^ 64 \<Longrightarrow> \<forall>j<n. \<not> in_block d n (s + of_nat j) \<Longrightarrow> i < n \<Longrightarrow>
   memcpy_loop n d s m (d + of_nat i) = m (s + of_nat i)"
proof (induction n arbitrary: d s m i)
  case 0
  then show ?case by simp
next
  case (Suc n)
  have sep: "\<not> in_block (d + 1) n (s + 1 + of_nat j)" "d \<noteq> s + 1 + of_nat j" if "j < n" for j
    using Suc.prems(2) [rule_format, of "Suc j"] that by (auto simp: in_block_Suc algebra_simps)
  show ?case
  proof (cases i)
    case 0
    have "\<not> in_block (d + 1) n d" by (rule not_in_block_succ) (use Suc.prems(1) in auto)
    with 0 show ?thesis by (simp add: memcpy_loop_outside)
  next
    case (Suc k)
    then have k: "k < n" using Suc.prems(3) by simp
    have "memcpy_loop n (d + 1) (s + 1) (m(d := m s)) (d + 1 + of_nat k)
        = (m(d := m s)) (s + 1 + of_nat k)"
      by (rule Suc.IH) (use Suc.prems(1) sep k in auto)
    also have "\<dots> = m (s + 1 + of_nat k)" using sep(2) [OF k] by auto
    finally show ?thesis using Suc by (simp add: algebra_simps)
  qed
qed

lemma memcmp_loop_0_iff:
  "memcmp_loop n p q m = 0 \<longleftrightarrow> (\<forall>i<n. m (p + of_nat i) = m (q + of_nat i))"
proof (induction n arbitrary: p q)
  case 0
  then show ?case by simp
next
  case (Suc n)
  show ?case
    by (auto simp: Suc.IH less_Suc_eq_0_disj algebra_simps)
qed

subsection \<open>NUL-terminated strings\<close>

text \<open>\<open>is_cstr m s n\<close>: the string at \<open>s\<close> has length \<open>n\<close>.\<close>

definition is_cstr :: "bmem \<Rightarrow> u64 \<Rightarrow> nat \<Rightarrow> bool" where
  "is_cstr m s n \<longleftrightarrow> m (s + of_nat n) = 0 \<and> (\<forall>i<n. m (s + of_nat i) \<noteq> 0)"

lemma is_cstr_Suc: "is_cstr m s (Suc n) \<longleftrightarrow> m s \<noteq> 0 \<and> is_cstr m (s + 1) n"
  by (auto simp: is_cstr_def algebra_simps less_Suc_eq_0_disj)

lemma is_cstr_0: "is_cstr m s 0 \<longleftrightarrow> m s = 0"
  by (simp add: is_cstr_def)

lemma strlen_loop_cstr: "is_cstr m s n \<Longrightarrow> strlen_loop s len m = Some (len + of_nat n)"
proof (induction n arbitrary: s len)
  case 0
  then show ?case by (simp add: is_cstr_0 strlen_loop.simps)
next
  case (Suc n)
  then have "m s \<noteq> 0" and "is_cstr m (s + 1) n" by (auto simp: is_cstr_Suc)
  then show ?case using Suc.IH [of "s + 1" "len + 1"]
    by (subst strlen_loop.simps) (simp add: algebra_simps)
qed

lemma strlen_loop_Some:
  "strlen_loop s len m = Some r \<Longrightarrow> \<exists>n. is_cstr m s n \<and> r = len + of_nat n"
proof (rule strlen_loop.raw_induct
    [where P = "\<lambda>s len m r. \<exists>n. is_cstr m s n \<and> r = len + of_nat n"])
  fix f s len m r
  assume IH: "\<And>s len m r. f s len m = Some r \<Longrightarrow> \<exists>n. is_cstr m s n \<and> r = len + of_nat n"
    and eq: "(if m s \<noteq> 0 then f (s + 1) (len + 1) m else Some len) = Some r"
  show "\<exists>n. is_cstr m s n \<and> r = len + of_nat n"
  proof (cases "m s = 0")
    case True
    then show ?thesis using eq by (auto simp: is_cstr_0 intro!: exI [of _ 0])
  next
    case False
    with eq have "f (s + 1) (len + 1) m = Some r" by simp
    from IH [OF this] obtain n where "is_cstr m (s + 1) n" "r = len + 1 + of_nat n" by blast
    then show ?thesis using False by (auto simp: is_cstr_Suc algebra_simps intro!: exI [of _ "Suc n"])
  qed
qed

lemma strncpy_loop_stops:
  assumes "k \<le> unat n" and "i = n - of_nat k"
  shows "\<exists>m'. strncpy_loop i d s n m = Some m'"
  using assms
proof (induction k arbitrary: i d s m)
  case 0
  then show ?case by (subst strncpy_loop.simps) (simp add: Let_def)
next
  case (Suc k)
  have "n - of_nat (Suc k) + 1 = n - of_nat k" by simp
  then have "\<exists>m'. strncpy_loop (i + 1) (d + 1) (s + 1) n (m(d := m s)) = Some m'"
    using Suc.IH [of "i + 1"] Suc.prems by simp
  then show ?case by (subst strncpy_loop.simps) (auto simp: Let_def)
qed

text \<open>
  The copy loop of \<open>strncpy\<close> on a source with no NUL in its first \<open>n + 1\<close> bytes is a
  \<open>memcpy\<close> of \<open>n + 1\<close> bytes.
\<close>

lemma strncpy_loop_long:
  assumes "\<forall>j<k. m (s + of_nat j) \<noteq> 0" "\<forall>j\<le>k. \<not> in_block d (Suc k) (s + of_nat j)"
    and "unat i + k = unat n"
  shows "strncpy_loop i d s n m = Some (memcpy_loop (Suc k) d s m)"
  using assms
proof (induction k arbitrary: i d s m)
  case 0
  then have "i = n" by (simp add: word_unat_eq_iff)
  then show ?case by (subst strncpy_loop.simps) (simp add: Let_def)
next
  case (Suc k)
  have lt: "unat i < unat n" using Suc.prems(3) by simp
  have ne: "m s \<noteq> 0" using Suc.prems(1) [rule_format, of 0] by simp
  have sep: "\<not> in_block (d + 1) (Suc k) (s + 1 + of_nat j)" "d \<noteq> s + 1 + of_nat j" if "j \<le> k" for j
    using Suc.prems(2) [rule_format, of "Suc j"] that
    by (auto simp: in_block_Suc [of d "Suc k"] algebra_simps)
  have nz: "(m(d := m s)) (s + 1 + of_nat j) \<noteq> 0" if "j < k" for j
    using Suc.prems(1) [rule_format, of "Suc j"] sep(2) [of j] that by (auto simp: algebra_simps)
  have "unat (i + 1) + k = unat n" using Suc.prems(3) unat_Suc_u64 [OF lt] by simp
  then have "strncpy_loop (i + 1) (d + 1) (s + 1) n (m(d := m s))
      = Some (memcpy_loop (Suc k) (d + 1) (s + 1) (m(d := m s)))"
    by (intro Suc.IH allI impI) (rule nz sep(1), assumption)+
  moreover have "i < n" using lt by (simp only: word_less_nat_alt)
  ultimately show ?case
    using ne by (subst strncpy_loop.simps) (simp only: Let_def fun_upd_same simp_thms if_True
        memcpy_loop.simps(2) [of "Suc k" d s m])
qed

lemma strnlen_loop_le:
  "len \<le> maxlen \<Longrightarrow> (\<forall>j<unat len. m (s + of_nat j) \<noteq> 0) \<Longrightarrow>
   (let r = strnlen_loop len s maxlen m in
      r \<le> maxlen \<and> (\<forall>j<unat r. m (s + of_nat j) \<noteq> 0) \<and> (r < maxlen \<longrightarrow> m (s + r) = 0))"
proof (induction len s maxlen m rule: strnlen_loop.induct)
  case (1 len s maxlen m)
  show ?case
  proof (cases "len < maxlen \<and> m (s + len) \<noteq> 0")
    case True
    then have lt: "unat len < unat maxlen" by (simp add: word_less_nat_alt)
    have S: "unat (len + 1) = Suc (unat len)" by (rule unat_Suc_u64 [OF lt])
    have "len + 1 \<le> maxlen" using lt S by (simp add: word_le_nat_alt)
    moreover have "\<forall>j<unat (len + 1). m (s + of_nat j) \<noteq> 0"
      using 1(3) True S by (auto simp: less_Suc_eq)
    ultimately show ?thesis
      using 1(1) [OF True] True by (subst strnlen_loop.simps) (auto simp: Let_def)
  next
    case False
    then show ?thesis using 1(2,3) by (subst strnlen_loop.simps) (auto simp: Let_def)
  qed
qed

subsection \<open>Pseudo-random numbers\<close>

lemma sint_ucast_u32_small:
  assumes "unat (r :: u64) < 2 ^ 31"
  shows "sint (ucast r :: u32) = int (unat r)"
proof -
  have "unat (ucast r :: u32) = take_bit 32 (unat r)"
    by (simp add: unsigned_ucast_eq)
  also have "\<dots> = unat r" using assms by (simp add: take_bit_nat_eq_self)
  finally have u: "uint (ucast r :: u32) = int (unat r)" by (simp only: uint_nat)
  have "signed_take_bit (LENGTH(32) - Suc 0) (int (unat r)) = int (unat r)"
  proof (rule signed_take_bit_int_eq_self)
    show "int (unat r) < 2 ^ (LENGTH(32) - Suc 0)"
      using assms by (simp only: of_nat_less_iff [symmetric, where 'a = int]) simp
    show "- (2 ^ (LENGTH(32) - Suc 0)) \<le> int (unat r)"
      by (rule order.trans [of _ 0]) (simp, simp only: of_nat_0_le_iff)
  qed
  then show ?thesis by (simp only: sint_uint u)
qed

lemma unat_drop_33: "unat (drop_bit 33 (x :: u64)) < 2 ^ 31"
proof -
  have "unat (drop_bit 33 x) = unat x div 2 ^ 33"
    unfolding unat_drop_bit_eq by (rule drop_bit_eq_div)
  also have "\<dots> < 2 ^ 31"
    by (rule less_mult_imp_div_less) (use unat_u64_less [of x] in simp)
  finally show ?thesis .
qed

lemma rand_range: "0 \<le> fst (rand seed) \<and> fst (rand seed) \<le> 0x7fffffff"
proof -
  define x where "x = (6364136223846793005 * seed + 1 :: u64)"
  have "fst (rand seed) = int (unat (drop_bit 33 x))"
    by (simp only: rand_def Let_def fst_conv x_def [symmetric] sint_ucast_u32_small unat_drop_33)
  moreover have "int (unat (drop_bit 33 x)) < 0x80000000"
    using unat_drop_33 [of x] by (simp only: of_nat_less_iff [symmetric, where 'a = int]) simp
  ultimately show ?thesis by linarith
qed

lemma smod_nonneg: "0 \<le> (a::int) \<Longrightarrow> 0 < b \<Longrightarrow> a smod b = a mod b"
  by (simp add: signed_modulo_int_def signed_divide_int_def sgn_if minus_div_mult_eq_mod)

end
