(* ===== verification/Printf.thy ===== *)
theory Printf
  imports Clib
begin

unbundle bit_operations_syntax

text \<open>
  \<open>lib/vfprintf.c\<close>: the formatter behind \<open>printk\<close> and the user \<open>printf\<close>. The format is the list of its bytes from
  the current position to the terminating NUL, so that reading past the end fails; the argument list is the
  list of the 64-bit slots still to be popped; the written bytes are collected in \<open>pout\<close>. \<open>plain
  char\<close> is unsigned on RISC-V. An \<open>int\<close> is its value, and a signed overflow fails. \<open>None\<close> is
  undefined behaviour or a missing argument; the \<open>-1\<close> of the C code is the value \<open>-1\<close>.
\<close>

abbreviation ch :: "char \<Rightarrow> u8" where "ch c \<equiv> of_char c"
abbreviation bytes :: "string \<Rightarrow> u8 list" where "bytes s \<equiv> map of_char s"

definition INT_MAX :: int where "INT_MAX = 2147483647"
definition INT_MIN :: int where "INT_MIN = - 2147483648"

definition int_of :: "u64 \<Rightarrow> int" where "int_of x = sint (ucast x :: u32)"

subsection \<open>Flags\<close>

definition flag_bit :: "char \<Rightarrow> u32" where "flag_bit c = push_bit (unat (ch c - ch (CHR '' ''))) 1"

definition ALT_FORM :: u32 where "ALT_FORM = flag_bit (CHR ''#'')"
definition ZERO_PAD :: u32 where "ZERO_PAD = flag_bit (CHR ''0'')"
definition LEFT_ADJ :: u32 where "LEFT_ADJ = flag_bit (CHR ''-'')"
definition PAD_POS :: u32 where "PAD_POS = flag_bit (CHR '' '')"
definition MARK_POS :: u32 where "MARK_POS = flag_bit (CHR ''+'')"
definition FLAGMASK :: u32 where "FLAGMASK = ALT_FORM OR ZERO_PAD OR LEFT_ADJ OR PAD_POS OR MARK_POS"

subsection \<open>The length modifiers\<close>

datatype fstate = BARE | LPRE | LLPRE | HPRE | HHPRE | ZTPRE | JPRE | STOP | PTR | INT' | UINT | ULLONG
  | LONG | ULONG | SHORT | USHORT | CHAR' | UCHAR | LLONG | SIZET | IMAX | UMAX | PDIFF | UIPTR | NOARG

text \<open>The rows of the table; a letter that is not listed leads to \<open>BARE\<close>, which is 0.\<close>

fun state_row :: "fstate \<Rightarrow> (char \<times> fstate) list" where
  "state_row BARE = [(CHR ''d'', INT'), (CHR ''i'', INT'), (CHR ''o'', UINT), (CHR ''u'', UINT), (CHR ''x'', UINT),
     (CHR ''X'', UINT), (CHR ''c'', INT'), (CHR ''s'', PTR), (CHR ''p'', UIPTR), (CHR ''n'', PTR), (CHR ''l'', LPRE),
     (CHR ''h'', HPRE), (CHR ''z'', ZTPRE), (CHR ''j'', JPRE), (CHR ''t'', ZTPRE)]"
| "state_row LPRE = [(CHR ''d'', LONG), (CHR ''i'', LONG), (CHR ''o'', ULONG), (CHR ''u'', ULONG), (CHR ''x'', ULONG),
     (CHR ''X'', ULONG), (CHR ''c'', UINT), (CHR ''s'', PTR), (CHR ''n'', PTR), (CHR ''l'', LLPRE)]"
| "state_row LLPRE = [(CHR ''d'', LLONG), (CHR ''i'', LLONG), (CHR ''o'', ULLONG), (CHR ''u'', ULLONG),
     (CHR ''x'', ULLONG), (CHR ''X'', ULLONG), (CHR ''n'', PTR)]"
| "state_row HPRE = [(CHR ''d'', SHORT), (CHR ''i'', SHORT), (CHR ''o'', USHORT), (CHR ''u'', USHORT),
     (CHR ''x'', USHORT), (CHR ''X'', USHORT), (CHR ''n'', PTR), (CHR ''h'', HHPRE)]"
| "state_row HHPRE = [(CHR ''d'', CHAR'), (CHR ''i'', CHAR'), (CHR ''o'', UCHAR), (CHR ''u'', UCHAR),
     (CHR ''x'', UCHAR), (CHR ''X'', UCHAR), (CHR ''n'', PTR)]"
| "state_row ZTPRE = [(CHR ''d'', PDIFF), (CHR ''i'', PDIFF), (CHR ''o'', SIZET), (CHR ''u'', SIZET),
     (CHR ''x'', SIZET), (CHR ''X'', SIZET), (CHR ''n'', PTR)]"
| "state_row JPRE = [(CHR ''d'', IMAX), (CHR ''i'', IMAX), (CHR ''o'', UMAX), (CHR ''u'', UMAX),
     (CHR ''x'', UMAX), (CHR ''X'', UMAX), (CHR ''n'', PTR)]"
| "state_row _ = []"

definition states :: "fstate \<Rightarrow> u8 \<Rightarrow> fstate" where
  "states st c = (case map_of (map (\<lambda>(l, s). (ch l, s)) (state_row st)) c of None \<Rightarrow> BARE | Some s \<Rightarrow> s)"

definition OOB :: "u8 \<Rightarrow> bool" where
  "OOB c \<longleftrightarrow> (ucast c :: u32) - 65 > 57"

text \<open>\<open>st - 1 < STOP\<close> as unsigned numbers: the states that wait for another letter.\<close>

fun is_prefix :: "fstate \<Rightarrow> bool" where
  "is_prefix LPRE = True" | "is_prefix LLPRE = True" | "is_prefix HPRE = True" | "is_prefix HHPRE = True"
| "is_prefix ZTPRE = True" | "is_prefix JPRE = True" | "is_prefix STOP = True" | "is_prefix _ = False"

subsection \<open>Arguments\<close>

text \<open>The value of an argument of each type, from the 64-bit slot it was passed in.\<close>

fun arg_of :: "fstate \<Rightarrow> u64 \<Rightarrow> u64" where
  "arg_of INT' x = scast (ucast x :: u32)"
| "arg_of UINT x = ucast (ucast x :: u32)"
| "arg_of SHORT x = scast (ucast x :: u16)"
| "arg_of USHORT x = ucast (ucast x :: u16)"
| "arg_of CHAR' x = scast (ucast x :: u8)"
| "arg_of UCHAR x = ucast (ucast x :: u8)"
| "arg_of _ x = x"

fun pops :: "fstate \<Rightarrow> bool" where
  "pops BARE = False" | "pops LPRE = False" | "pops LLPRE = False" | "pops HPRE = False" | "pops HHPRE = False"
| "pops ZTPRE = False" | "pops JPRE = False" | "pops STOP = False" | "pops NOARG = False" | "pops _ = True"

definition pop_arg :: "u64 \<Rightarrow> fstate \<Rightarrow> u64 list \<Rightarrow> (u64 \<times> u64 list) option" where
  "pop_arg arg type ap =
     (if pops type then (case ap of [] \<Rightarrow> None | x # ap' \<Rightarrow> Some (arg_of type x, ap')) else Some (arg, ap))"

subsection \<open>Output\<close>

record pst =
  pmem :: bmem
  pap :: "u64 list"
  pout :: "u8 list"
  nl_arg :: "u64 list"
  nl_type :: "fstate list"

definition out :: "u8 list \<Rightarrow> pst \<Rightarrow> pst" where
  "out bs st = st\<lparr>pout := pout st @ bs\<rparr>"

function pad_loop :: "u8 \<Rightarrow> nat \<Rightarrow> pst \<Rightarrow> pst" where
  "pad_loop c l st =
     (if l \<ge> 256 then pad_loop c (l - 256) (out (replicate 256 c) st) else out (replicate l c) st)"
  by pat_completeness auto
termination by (relation "measure (\<lambda>(c, l, st). l)") auto

declare pad_loop.simps [simp del]

definition pad :: "char \<Rightarrow> nat \<Rightarrow> nat \<Rightarrow> u32 \<Rightarrow> pst \<Rightarrow> pst" where
  "pad c w l fl st =
     (if fl AND (LEFT_ADJ OR ZERO_PAD) \<noteq> 0 \<or> l \<ge> w then st else pad_loop (ch c) (w - l) st)"

subsection \<open>Digits\<close>

text \<open>The digits are written from the end of the buffer backwards; \<open>acc\<close> is what is already there.\<close>

definition xdigits :: "u8 list" where "xdigits = bytes ''0123456789ABCDEF''"

function fmt_x :: "u64 \<Rightarrow> u8 list \<Rightarrow> u8 \<Rightarrow> u8 list" where
  "fmt_x x acc lower =
     (if x \<noteq> 0 then fmt_x (drop_bit 4 x) ((xdigits ! unat (x AND 15) OR lower) # acc) lower else acc)"
  by pat_completeness auto
termination
  by (relation "measure (\<lambda>(x, acc, lower). unat x)")
    (auto simp: drop_bit_eq_div unat_div unat_gt_0 intro!: div_less_dividend)

function fmt_o :: "u64 \<Rightarrow> u8 list \<Rightarrow> u8 list" where
  "fmt_o x acc = (if x \<noteq> 0 then fmt_o (drop_bit 3 x) ((ch (CHR ''0'') + ucast (x AND 7)) # acc) else acc)"
  by pat_completeness auto
termination
  by (relation "measure (\<lambda>(x, acc). unat x)")
    (auto simp: drop_bit_eq_div unat_div unat_gt_0 intro!: div_less_dividend)

text \<open>\<open>ULONG_MAX\<close> is \<open>UINTMAX_MAX\<close>, so only the second loop of \<open>fmt_u\<close> runs.\<close>

function fmt_u :: "u64 \<Rightarrow> u8 list \<Rightarrow> u8 list" where
  "fmt_u y acc = (if y \<noteq> 0 then fmt_u (y div 10) ((ch (CHR ''0'') + ucast (y mod 10)) # acc) else acc)"
  by pat_completeness auto
termination
  by (relation "measure (\<lambda>(x, acc). unat x)") (auto simp: unat_div unat_gt_0 intro!: div_less_dividend)

declare fmt_x.simps [simp del] fmt_o.simps [simp del] fmt_u.simps [simp del]

text \<open>
  \<open>getint\<close> on the digits at the head of the format. Once \<open>i\<close> is \<open>-1\<close>, a further digit computes
  \<open>INT_MAX - 10 * i\<close>, which overflows.
\<close>

fun getint_loop :: "int \<Rightarrow> u8 list \<Rightarrow> (int \<times> u8 list) option" where
  "getint_loop i [] = None"
| "getint_loop i (c # s) =
     (if isdigit (uint c) then
        (if i > INT_MAX div 10 then getint_loop (-1) s
         else if INT_MAX - 10 * i > INT_MAX then None
         else if uint c - 48 > INT_MAX - 10 * i then getint_loop (-1) s
         else getint_loop (10 * i + (uint c - 48)) s)
      else Some (i, c # s))"

definition getint :: "u8 list \<Rightarrow> (int \<times> u8 list) option" where
  "getint s = getint_loop 0 s"

subsection \<open>One conversion\<close>

text \<open>A step of the formatter returns from it with \<open>Ret\<close> or goes on with \<open>Go\<close>.\<close>

datatype 'a flow = Ret int pst | Go 'a

definition bindf :: "'a flow option \<Rightarrow> ('a \<Rightarrow> 'b flow option) \<Rightarrow> 'b flow option" where
  "bindf m k = (case m of None \<Rightarrow> None | Some (Ret r st) \<Rightarrow> Some (Ret r st) | Some (Go a) \<Rightarrow> k a)"

text \<open>\<open>s[i]\<close> is a digit followed by a dollar sign.\<close>

definition dollar_at :: "u8 list \<Rightarrow> nat \<Rightarrow> bool option" where
  "dollar_at s i =
     do { c \<leftarrow> rd s i;
          if isdigit (uint c) then do { d \<leftarrow> rd s (i + 1); Some (d = ch (CHR ''$'')) } else Some False }"

definition digit_at :: "u8 list \<Rightarrow> nat \<Rightarrow> nat option" where
  "digit_at s i = do { c \<leftarrow> rd s i; Some (unat (c - ch (CHR ''0''))) }"

definition read_argpos :: "u8 list \<Rightarrow> bool \<Rightarrow> (bool \<times> nat option \<times> u8 list) option" where
  "read_argpos s l10n =
     do { pos \<leftarrow> dollar_at s 1;
          if pos then do { n \<leftarrow> digit_at s 1; Some (True, Some n, drop 3 s) }
          else Some (l10n, None, drop 1 s) }"

fun read_flags :: "u32 \<Rightarrow> u8 list \<Rightarrow> (u32 \<times> u8 list) option" where
  "read_flags fl [] = None"
| "read_flags fl (c # s) =
     (let k = (ucast c :: u32) - 32 in
      if k < 32 \<and> FLAGMASK AND push_bit (unat k) 1 \<noteq> 0 then read_flags (fl OR push_bit (unat k) 1) s
      else Some (fl, c # s))"

text \<open>An \<open>int\<close> taken from the argument list for \<open>*\<close>.\<close>

definition pop_int :: "pst \<Rightarrow> (int \<times> pst) option" where
  "pop_int st = do { (x, ap) \<leftarrow> pop_arg 0 INT' (pap st); Some (int_of x, st\<lparr>pap := ap\<rparr>) }"

definition star_arg :: "bool \<Rightarrow> u8 list \<Rightarrow> nat \<Rightarrow> pst \<Rightarrow> (int \<times> pst) option" where
  "star_arg f s i st =
     do { n \<leftarrow> digit_at s i;
          if \<not> f then do { ts \<leftarrow> wr (nl_type st) n INT'; Some (0, st\<lparr>nl_type := ts\<rparr>) }
          else do { x \<leftarrow> rd (nl_arg st) n; Some (int_of x, st) } }"

definition read_width :: "bool \<Rightarrow> bool \<Rightarrow> u32 \<Rightarrow> u8 list \<Rightarrow> pst \<Rightarrow> (int \<times> u32 \<times> bool \<times> u8 list \<times> pst) flow option" where
  "read_width f l10n fl s st =
     do { c \<leftarrow> rd s 0;
          if c = ch (CHR ''*'') then
            do { pos \<leftarrow> dollar_at s 1;
                 bindf (if pos then do { (w, st) \<leftarrow> star_arg f s 1 st; Some (Go (w, True, drop 3 s, st)) }
                        else if \<not> l10n then
                          do { (w, st) \<leftarrow> (if f then pop_int st else Some (0, st)); Some (Go (w, l10n, drop 1 s, st)) }
                        else Some (Ret (-1) st))
                   (\<lambda>(w, l10n, s, st).
                      if w < 0 then (if w = INT_MIN then None else Some (Go (- w, fl OR LEFT_ADJ, l10n, s, st)))
                      else Some (Go (w, fl, l10n, s, st))) }
          else do { (w, s) \<leftarrow> getint s; if w < 0 then Some (Ret (-1) st) else Some (Go (w, fl, l10n, s, st)) } }"

definition read_precision :: "bool \<Rightarrow> bool \<Rightarrow> u8 list \<Rightarrow> pst \<Rightarrow> (int \<times> bool \<times> u8 list \<times> pst) flow option" where
  "read_precision f l10n s st =
     do { c \<leftarrow> rd s 0;
          if c \<noteq> ch (CHR ''.'') then Some (Go (-1, False, s, st))
          else do {
            d \<leftarrow> rd s 1;
            if d = ch (CHR ''*'') then
              do { pos \<leftarrow> dollar_at s 2;
                   if pos then do { (p, st) \<leftarrow> star_arg f s 2 st; Some (Go (p, p \<ge> 0, drop 4 s, st)) }
                   else if \<not> l10n then
                     do { (p, st) \<leftarrow> (if f then pop_int st else Some (0, st)); Some (Go (p, p \<ge> 0, drop 2 s, st)) }
                   else Some (Ret (-1) st) }
            else do { (p, s) \<leftarrow> getint (drop 1 s); Some (Go (p, True, s, st)) } } }"

text \<open>The letters of the conversion: the state before the last one, the argument type, the last letter.\<close>

fun read_spec :: "fstate \<Rightarrow> u8 list \<Rightarrow> (fstate \<times> fstate \<times> u8 \<times> u8 list) option option" where
  "read_spec st [] = None"
| "read_spec st (c # s) =
     (if OOB c then Some None
      else let st' = states st c in
        if is_prefix st' then read_spec st' s
        else if st' = BARE then Some None
        else Some (Some (st, st', c, s)))"

text \<open>\<open>%n\<close> stores the count with the width of the length modifier, little endian.\<close>

definition le_bytes :: "nat \<Rightarrow> u64 \<Rightarrow> u8 list" where
  "le_bytes n v = map (\<lambda>i. ucast (drop_bit (8 * i) v)) [0 ..< n]"

fun store_bytes :: "u64 \<Rightarrow> u8 list \<Rightarrow> bmem \<Rightarrow> bmem" where
  "store_bytes p [] m = m"
| "store_bytes p (b # bs) m = store_bytes (p + 1) bs (m(p := b))"

fun n_size :: "fstate \<Rightarrow> nat" where
  "n_size BARE = 4" | "n_size LPRE = 8" | "n_size LLPRE = 8" | "n_size HPRE = 2" | "n_size HHPRE = 1"
| "n_size ZTPRE = 8" | "n_size JPRE = 8" | "n_size _ = 0"

definition store_n :: "fstate \<Rightarrow> u64 \<Rightarrow> int \<Rightarrow> pst \<Rightarrow> pst" where
  "store_n ps a cnt st = st\<lparr>pmem := store_bytes a (le_bytes (n_size ps) (word_of_int cnt)) (pmem st)\<rparr>"

text \<open>The part shared by the integer conversions, after the digits are made.\<close>

definition int_tail :: "u8 list \<Rightarrow> u64 \<Rightarrow> u8 list \<Rightarrow> int \<Rightarrow> bool \<Rightarrow> u32 \<Rightarrow> (u8 list \<times> u8 list \<times> int \<times> u32) option" where
  "int_tail prefix i a p xp fl =
     (if xp \<and> p < 0 then None
      else let fl = (if xp then fl AND NOT ZERO_PAD else fl) in
        if i = 0 \<and> p = 0 then Some (prefix, [], p, fl)
        else Some (prefix, a, max p (int (length a) + (if i = 0 then 1 else 0)), fl))"

definition fmt_hex :: "u8 \<Rightarrow> u64 \<Rightarrow> int \<Rightarrow> bool \<Rightarrow> u32 \<Rightarrow> (u8 list \<times> u8 list \<times> int \<times> u32) option" where
  "fmt_hex t i p xp fl =
     (let prefix = (if i \<noteq> 0 \<and> fl AND ALT_FORM \<noteq> 0 then take 2 (drop (unat (drop_bit 4 t)) (bytes ''-+   0X0x'')) else [])
      in int_tail prefix i (fmt_x i [] (t AND 32)) p xp fl)"

definition fmt_oct :: "u64 \<Rightarrow> int \<Rightarrow> bool \<Rightarrow> u32 \<Rightarrow> (u8 list \<times> u8 list \<times> int \<times> u32) option" where
  "fmt_oct i p xp fl =
     (let a = fmt_o i [];
          p = (if fl AND ALT_FORM \<noteq> 0 \<and> p < int (length a) + 1 then int (length a) + 1 else p)
      in int_tail [] i a p xp fl)"

definition fmt_dec :: "u64 \<Rightarrow> int \<Rightarrow> bool \<Rightarrow> u32 \<Rightarrow> (u8 list \<times> u8 list \<times> int \<times> u32) option" where
  "fmt_dec i p xp fl =
     (let (pre, i) = (if i > 0x7fffffffffffffff then (bytes ''-'', - i)
                      else if fl AND MARK_POS \<noteq> 0 then (bytes ''+'', i)
                      else if fl AND PAD_POS \<noteq> 0 then (bytes '' '', i)
                      else ([], i))
      in int_tail pre i (fmt_u i []) p xp fl)"

definition load_bytes :: "u64 \<Rightarrow> nat \<Rightarrow> bmem \<Rightarrow> u8 list" where
  "load_bytes p n m = map (\<lambda>i. m (p + of_nat i)) [0 ..< n]"

text \<open>\<open>a\<close> of the string conversion, in memory or the literal \<open>(null)\<close>; \<open>None\<close> is the overflow exit.\<close>

definition fmt_str :: "u64 \<Rightarrow> int \<Rightarrow> u32 \<Rightarrow> bmem \<Rightarrow> (u8 list \<times> u8 list \<times> int \<times> u32) option" where
  "fmt_str a p fl m =
     (let lim = (if p < 0 then 2147483647 else word_of_int p);
          n = (if a = 0 then unat (min lim 6) else unat (strnlen a lim m));
          rest = (if a = 0 then 0 else m (a + of_nat n))
      in if p < 0 \<and> rest \<noteq> 0 then None
         else Some ([], (if a = 0 then take n (bytes ''(null)'') else load_bytes a n m), int n, fl AND NOT ZERO_PAD))"

definition convert :: "u8 \<Rightarrow> u64 \<Rightarrow> int \<Rightarrow> bool \<Rightarrow> u32 \<Rightarrow> bmem \<Rightarrow> (u8 list \<times> u8 list \<times> int \<times> u32) option" where
  "convert t i p xp fl m =
     (if t = ch (CHR ''p'') then
        fmt_hex (ch (CHR ''x'')) i (int_of (max (word_of_int p) 16)) xp (fl OR ALT_FORM)
      else if t = ch (CHR ''x'') \<or> t = ch (CHR ''X'') then fmt_hex t i p xp fl
      else if t = ch (CHR ''o'') then fmt_oct i p xp fl
      else if t = ch (CHR ''d'') \<or> t = ch (CHR ''i'') then fmt_dec i p xp fl
      else if t = ch (CHR ''u'') then int_tail [] i (fmt_u i []) p xp fl
      else if t = ch (CHR ''c'') then Some ([], [ucast i], 1, fl AND NOT ZERO_PAD)
      else fmt_str i p fl m)"

text \<open>Padding, prefix, digits: what one conversion writes, and its width.\<close>

definition emit_field :: "u8 list \<Rightarrow> u8 list \<Rightarrow> int \<Rightarrow> int \<Rightarrow> u32 \<Rightarrow> int \<Rightarrow> pst \<Rightarrow> (int \<times> pst) flow" where
  "emit_field prefix a w p fl cnt st =
     (let n = int (length a); pl = int (length prefix);
          p = (if p < n then n else p)
      in if p > INT_MAX - pl then Ret (-1) st
         else let w = (if w < pl + p then pl + p else w) in
           if w > INT_MAX - cnt then Ret (-1) st
           else
             let st = pad (CHR '' '') (nat w) (nat (pl + p)) fl st;
                 st = out prefix st;
                 st = pad (CHR ''0'') (nat w) (nat (pl + p)) (fl XOR ZERO_PAD) st;
                 st = pad (CHR ''0'') (nat p) (length a) 0 st;
                 st = out a st;
                 st = pad (CHR '' '') (nat w) (nat (pl + p)) (fl XOR LEFT_ADJ) st
             in Go (w, st))"

text \<open>A whole directive; the result is the rest of the format and the new \<open>l\<close>.\<close>

definition get_arg :: "bool \<Rightarrow> nat option \<Rightarrow> fstate \<Rightarrow> pst \<Rightarrow> (u64 \<times> pst) flow option" where
  "get_arg f argpos t st =
     (case argpos of
        Some n \<Rightarrow>
          if \<not> f then do { ts \<leftarrow> wr (nl_type st) n t; Some (Go (0, st\<lparr>nl_type := ts\<rparr>)) }
          else do { x \<leftarrow> rd (nl_arg st) n; Some (Go (x, st)) }
      | None \<Rightarrow>
          if f then do { (x, ap) \<leftarrow> pop_arg 0 t (pap st); Some (Go (x, st\<lparr>pap := ap\<rparr>)) }
          else Some (Ret 0 st))"

definition directive :: "bool \<Rightarrow> u8 list \<Rightarrow> bool \<Rightarrow> int \<Rightarrow> pst \<Rightarrow> (u8 list \<times> bool \<times> int \<times> pst) flow option" where
  "directive f s l10n cnt st =
     do { (l10n, argpos, s) \<leftarrow> read_argpos s l10n;
          (fl, s) \<leftarrow> read_flags 0 s;
          bindf (read_width f l10n fl s st) (\<lambda>(w, fl, l10n, s, st).
          bindf (read_precision f l10n s st) (\<lambda>(p, xp, s, st).
          do { spec \<leftarrow> read_spec BARE s;
               case spec of
                 None \<Rightarrow> Some (Ret (-1) st)
               | Some (ps, ty, t, s) \<Rightarrow>
                   bindf (get_arg f argpos ty st) (\<lambda>(arg, st).
                     if \<not> f then Some (Go (s, l10n, 0, st))
                     else
                       let fl = (if fl AND LEFT_ADJ \<noteq> 0 then fl AND NOT ZERO_PAD else fl) in
                       if t = ch (CHR ''n'') then Some (Go (s, l10n, 0, store_n ps arg cnt st))
                       else
                         (case convert t arg p xp fl (pmem st) of
                            None \<Rightarrow> Some (Ret (-1) st)
                          | Some (prefix, a, p, fl) \<Rightarrow>
                              bindf (Some (emit_field prefix a w p fl cnt st)) (\<lambda>(l, st). Some (Go (s, l10n, l, st))))) })) }"

subsection \<open>printf_core and vfprintf\<close>

fun count_pairs :: "u8 list \<Rightarrow> nat" where
  "count_pairs (a # b # s) = (if a = ch (CHR ''%'') \<and> b = ch (CHR ''%'') then Suc (count_pairs s) else 0)"
| "count_pairs _ = 0"

definition literal :: "u8 list \<Rightarrow> nat \<times> nat" where
  "literal s = (let a = length (takeWhile (\<lambda>c. c \<noteq> 0 \<and> c \<noteq> ch (CHR ''%'')) s); n = count_pairs (drop a s)
                in (a + n, a + 2 * n))"

text \<open>The last part of the first pass: the positional arguments are popped in order.\<close>

fun pop_positional :: "nat \<Rightarrow> nat \<Rightarrow> pst \<Rightarrow> (nat \<times> pst) option" where
  "pop_positional 0 i st = Some (i, st)"
| "pop_positional (Suc k) i st =
     do { t \<leftarrow> rd (nl_type st) i;
          if t = BARE then Some (i, st)
          else do {
            old \<leftarrow> rd (nl_arg st) i;
            (x, ap) \<leftarrow> pop_arg old t (pap st);
            args \<leftarrow> wr (nl_arg st) i x;
            pop_positional k (Suc i) (st\<lparr>pap := ap, nl_arg := args\<rparr>) } }"

definition printf_end :: "bool \<Rightarrow> bool \<Rightarrow> int \<Rightarrow> pst \<Rightarrow> (int \<times> pst) option" where
  "printf_end f l10n cnt st =
     (if f then Some (cnt, st)
      else if \<not> l10n then Some (0, st)
      else do { (i, st) \<leftarrow> pop_positional 9 1 st;
                Some (if \<forall>t \<in> set (drop i (nl_type st)). t = BARE then (1, st) else (-1, st)) })"

partial_function (option) printf_loop :: "bool \<Rightarrow> u8 list \<Rightarrow> bool \<Rightarrow> int \<Rightarrow> int \<Rightarrow> pst \<Rightarrow> (int \<times> pst) option" where
  "printf_loop f s l10n cnt l st =
     (if l > INT_MAX - cnt then Some (-1, st)
      else let cnt = cnt + l in
        (case rd s 0 of
           None \<Rightarrow> None
         | Some c \<Rightarrow>
             if c = 0 then printf_end f l10n cnt st
             else let (n, k) = literal s in
               if int n > INT_MAX - cnt then Some (-1, st)
               else let st = (if f then out (take n s) st else st) in
                 if n \<noteq> 0 then printf_loop f (drop k s) l10n cnt (int n) st
                 else
                   (case directive f (drop k s) l10n cnt st of
                      None \<Rightarrow> None
                    | Some (Ret r st) \<Rightarrow> Some (r, st)
                    | Some (Go (s, l10n, l, st)) \<Rightarrow> printf_loop f s l10n cnt l st)))"

declare printf_loop.simps [code]

definition printf_core :: "bool \<Rightarrow> u8 list \<Rightarrow> pst \<Rightarrow> (int \<times> pst) option" where
  "printf_core f fmt st = printf_loop f fmt False 0 0 st"

text \<open>
  \<open>vfprintf\<close> runs the formatter once without a file, on a copy of the argument list, to find the types of
  the positional arguments, and once to write. The uninitialised \<open>nl_arg\<close> starts as \<open>garbage\<close>.
\<close>

definition vfprintf :: "u8 list \<Rightarrow> u64 list \<Rightarrow> u8 list \<Rightarrow> u64 list \<Rightarrow> bmem \<Rightarrow> (int \<times> u8 list \<times> bmem) option" where
  "vfprintf written garbage fmt ap m =
     do { let st = \<lparr>pmem = m, pap = ap, pout = written, nl_arg = garbage, nl_type = replicate 10 BARE\<rparr>;
          (ret, st1) \<leftarrow> printf_core False fmt st;
          if ret < 0 then Some (ret, pout st1, pmem st1)
          else do { (ret, st2) \<leftarrow> printf_core True fmt (st1\<lparr>pap := ap\<rparr>); Some (ret, pout st2, pmem st2) } }"

end
