(* ===== verification/Printf_Props.thy ===== *)
theory Printf_Props
  imports Printf
begin

unbundle bit_operations_syntax

text \<open>Facts about the formatter: padding, digits, and what each step writes.\<close>

subsection \<open>Padding\<close>

lemma pad_loop_out: "pad_loop c l st = out (replicate l c) st"
proof (induction c l st rule: pad_loop.induct)
  case (1 c l st)
  show ?case
  proof (cases "l \<ge> 256")
    case True
    then have "pad_loop c l st = out (replicate (l - 256) c) (out (replicate 256 c) st)"
      using 1 by (subst pad_loop.simps) simp
    also have "\<dots> = out (replicate 256 c @ replicate (l - 256) c) st" by (simp add: out_def)
    also have "replicate 256 c @ replicate (l - 256) c = replicate l c"
      using True by (metis le_add_diff_inverse replicate_add)
    finally show ?thesis .
  qed (subst pad_loop.simps, simp)
qed

definition adj_set :: "u32 \<Rightarrow> bool" where "adj_set fl \<longleftrightarrow> bit fl 13"
definition zero_set :: "u32 \<Rightarrow> bool" where "zero_set fl \<longleftrightarrow> bit fl 16"

lemma flag_values: "LEFT_ADJ = 0x2000" "ZERO_PAD = 0x10000" "ALT_FORM = 8" "MARK_POS = 0x800" "PAD_POS = 1"
  by (code_simp)+

lemma flag_tests:
  "(fl AND LEFT_ADJ \<noteq> 0) = adj_set fl" "(fl AND (LEFT_ADJ OR ZERO_PAD) \<noteq> 0) = (adj_set fl \<or> zero_set fl)"
  "adj_set (fl XOR ZERO_PAD) = adj_set fl" "zero_set (fl XOR ZERO_PAD) = (\<not> zero_set fl)"
  "adj_set (fl XOR LEFT_ADJ) = (\<not> adj_set fl)" "zero_set (fl XOR LEFT_ADJ) = zero_set fl"
  "adj_set (fl AND NOT ZERO_PAD) = adj_set fl" "\<not> zero_set (fl AND NOT ZERO_PAD)"
  "adj_set (fl OR ALT_FORM) = adj_set fl" "zero_set (fl OR ALT_FORM) = zero_set fl"
  "\<not> adj_set 0" "\<not> zero_set 0"
proof -
  have v: "LEFT_ADJ = 2 ^ 13" "ZERO_PAD = 2 ^ 16" "ALT_FORM = 2 ^ 3" by (simp_all add: flag_values)
  have one: "(fl AND 2 ^ n = 0) = (\<not> bit fl n)" for n and fl :: u32 by (rule and_exp_eq_0_iff_not_bit)
  show "(fl AND LEFT_ADJ \<noteq> 0) = adj_set fl" by (simp add: v one adj_set_def del: power_numeral)
  show "(fl AND (LEFT_ADJ OR ZERO_PAD) \<noteq> 0) = (adj_set fl \<or> zero_set fl)"
    unfolding v bit.conj_disj_distrib or_eq_0_iff one adj_set_def zero_set_def by blast
  show "adj_set (fl XOR ZERO_PAD) = adj_set fl" "zero_set (fl XOR ZERO_PAD) = (\<not> zero_set fl)"
    "adj_set (fl XOR LEFT_ADJ) = (\<not> adj_set fl)" "zero_set (fl XOR LEFT_ADJ) = zero_set fl"
    "adj_set (fl AND NOT ZERO_PAD) = adj_set fl" "\<not> zero_set (fl AND NOT ZERO_PAD)"
    "adj_set (fl OR ALT_FORM) = adj_set fl" "zero_set (fl OR ALT_FORM) = zero_set fl" "\<not> adj_set 0" "\<not> zero_set 0"
    unfolding v adj_set_def zero_set_def by (auto simp: bit_simps simp del: power_numeral)
qed

lemma pad_out: "pad c w l fl st = out (if adj_set fl \<or> zero_set fl then [] else replicate (w - l) (ch c)) st"
  by (simp add: pad_def flag_tests pad_loop_out) (simp add: out_def)

lemma out_out: "out b (out a st) = out (a @ b) st" by (simp add: out_def)

lemma out_simps [simp]: "pmem (out a st) = pmem st" "pap (out a st) = pap st" "pout (out a st) = pout st @ a"
  "nl_arg (out a st) = nl_arg st" "nl_type (out a st) = nl_type st" by (simp_all add: out_def)

text \<open>One conversion field: its bytes, and that the width it reports is their number.\<close>

definition field_bytes :: "u8 list \<Rightarrow> u8 list \<Rightarrow> nat \<Rightarrow> nat \<Rightarrow> u32 \<Rightarrow> u8 list" where
  "field_bytes prefix a w p fl =
     (let gap = w - (length prefix + p); body = replicate (p - length a) (ch (CHR ''0'')) @ a in
      if adj_set fl then prefix @ body @ replicate gap (ch (CHR '' ''))
      else if zero_set fl then prefix @ replicate gap (ch (CHR ''0'')) @ body
      else replicate gap (ch (CHR '' '')) @ prefix @ body)"

lemma emit_field_eq:
  fixes prefix a :: "u8 list" and p w :: int
  assumes "\<not> (adj_set fl \<and> zero_set fl)"
  defines "p' \<equiv> max p (int (length a))"
  defines "w' \<equiv> max w (int (length prefix) + p')"
  shows "emit_field prefix a w p fl cnt st =
     (if p' > INT_MAX - int (length prefix) \<or> w' > INT_MAX - cnt then Ret (-1) st
      else Go (w', out (field_bytes prefix a (nat w') (nat p') fl) st))"
proof -
  have e: "(if p < int (length a) then int (length a) else p) = p'" "(if w < int (length prefix) + p' then int (length prefix) + p' else w) = w'"
    by (simp_all add: p'_def w'_def max_def)
  have n: "nat (int (length prefix) + p') = length prefix + nat p'" "0 \<le> p'" by (simp_all add: p'_def nat_add_distrib)
  consider "adj_set fl" "\<not> zero_set fl" | "\<not> adj_set fl" "zero_set fl" | "\<not> adj_set fl" "\<not> zero_set fl"
    using assms(1) by blast
  then show ?thesis
    unfolding emit_field_def Let_def e n(1) pad_out flag_tests out_out field_bytes_def by cases (simp_all add: flag_tests(11,12))
qed

lemma field_length:
  assumes "length a \<le> p" "length prefix + p \<le> w"
  shows "length (field_bytes prefix a w p fl) = w"
  using assms by (simp add: field_bytes_def Let_def)

lemma emit_field_length:
  assumes "emit_field prefix a w p fl cnt st = Go (l, st')" "\<not> (adj_set fl \<and> zero_set fl)"
  shows "\<exists>bs. st' = out bs st \<and> int (length bs) = l"
proof -
  let ?p = "max p (int (length a))"
  let ?w = "max w (int (length prefix) + ?p)"
  have "l = ?w" "st' = out (field_bytes prefix a (nat ?w) (nat ?p) fl) st"
    using assms(1) unfolding emit_field_eq [OF assms(2)] by (auto split: if_splits)
  moreover have "length (field_bytes prefix a (nat ?w) (nat ?p) fl) = nat ?w"
    by (rule field_length) (auto simp: le_nat_iff nat_le_iff)
  ultimately show ?thesis by (intro exI [of _ "field_bytes prefix a (nat ?w) (nat ?p) fl"])
      (simp add: le_max_iff_disj)
qed

subsection \<open>What a directive writes\<close>

lemma bindf_simps [simp]:
  "bindf None k = None" "bindf (Some (Ret r st)) k = Some (Ret r st)" "bindf (Some (Go a)) k = k a"
  by (simp_all add: bindf_def)

lemma bindf_Go: "bindf m k = Some (Go b) \<longleftrightarrow> (\<exists>a. m = Some (Go a) \<and> k a = Some (Go b))"
  by (auto simp: bindf_def split: option.splits flow.splits)

lemma bindf_Ret:
  "bindf m k = Some (Ret r st) \<longleftrightarrow> m = Some (Ret r st) \<or> (\<exists>a. m = Some (Go a) \<and> k a = Some (Ret r st))"
  by (auto simp: bindf_def split: option.splits flow.splits)

lemma pop_int_keeps: "pop_int st = Some (x, st') \<Longrightarrow> pout st' = pout st"
  by (auto simp: pop_int_def bind_eq_Some_conv)

lemma star_arg_keeps: "star_arg f s i st = Some (x, st') \<Longrightarrow> pout st' = pout st"
  by (auto simp: star_arg_def bind_eq_Some_conv split: if_splits)

lemma read_width_keeps:
  "read_width f l10n fl s st = Some v \<Longrightarrow> (case v of Ret r st' \<Rightarrow> pout st' = pout st \<and> r < 0 | Go (w, fl', l', s', st') \<Rightarrow> pout st' = pout st)"
  unfolding read_width_def bindf_def
  by (auto simp: bind_eq_Some_conv dest: pop_int_keeps star_arg_keeps split: if_splits option.splits flow.splits prod.splits)

lemma read_precision_keeps:
  "read_precision f l10n s st = Some v \<Longrightarrow> (case v of Ret r st' \<Rightarrow> pout st' = pout st \<and> r < 0 | Go (p, xp, s', st') \<Rightarrow> pout st' = pout st)"
  unfolding read_precision_def
  by (auto simp: bind_eq_Some_conv dest: pop_int_keeps star_arg_keeps split: if_splits)

lemma get_arg_keeps:
  "get_arg f ap ty st = Some v \<Longrightarrow> (case v of Ret r st' \<Rightarrow> pout st' = pout st \<and> \<not> f | Go (x, st') \<Rightarrow> pout st' = pout st)"
  unfolding get_arg_def by (auto simp: bind_eq_Some_conv split: if_splits option.splits)

lemma convert_flags:
  assumes "convert t i p xp fl m = Some (prefix, a, p', fl')" "\<not> (adj_set fl \<and> zero_set fl)"
  shows "\<not> (adj_set fl' \<and> zero_set fl')"
proof -
  have tail: "\<not> (adj_set f' \<and> zero_set f')" if "int_tail pre j b q xp f = Some (x, y, z, f')" "\<not> (adj_set f \<and> zero_set f)"
    for pre j b q f x y z f'
    using that by (auto simp: int_tail_def Let_def flag_tests split: if_splits)
  show ?thesis
    using assms tail
    by (auto simp: convert_def fmt_hex_def fmt_oct_def fmt_dec_def fmt_str_def Let_def flag_tests split: if_splits)
qed

lemma directive_Go:
  assumes "directive f s l10n cnt st = Some (Go (s', l10n', l, st'))"
  shows "\<exists>bs. pout st' = pout st @ bs \<and> int (length bs) = l \<and> (\<not> f \<longrightarrow> bs = [])"
proof -
  obtain l1 ap s1 fl s2 w fl1 l2 s3 st1 p xp s4 st2 ps ty t s5 arg st3 where
    w: "read_width f l1 fl s2 st = Some (Go (w, fl1, l2, s3, st1))"
    and p: "read_precision f l2 s3 st1 = Some (Go (p, xp, s4, st2))"
    and g: "get_arg f ap ty st2 = Some (Go (arg, st3))"
    and r: "(if \<not> f then Some (Go (s5, l2, 0, st3))
       else let fl = (if fl1 AND LEFT_ADJ \<noteq> 0 then fl1 AND NOT ZERO_PAD else fl1) in
         if t = ch (CHR ''n'') then Some (Go (s5, l2, 0, store_n ps arg cnt st3))
         else (case convert t arg p xp fl (pmem st3) of
            None \<Rightarrow> Some (Ret (-1) st3)
          | Some (prefix, a, p, fl) \<Rightarrow>
              bindf (Some (emit_field prefix a w p fl cnt st3)) (\<lambda>(l, st). Some (Go (s5, l2, l, st)))))
       = Some (Go (s', l10n', l, st'))"
    using assms
    by (auto simp: directive_def bindf_Go bind_eq_Some_conv Let_def split: option.splits)
  have o: "pout st3 = pout st"
    using read_width_keeps [OF w] read_precision_keeps [OF p] get_arg_keeps [OF g] by simp
  define fl' where "fl' = (if fl1 AND LEFT_ADJ \<noteq> 0 then fl1 AND NOT ZERO_PAD else fl1)"
  have c: "\<not> (adj_set fl' \<and> zero_set fl')" by (simp add: fl'_def flag_tests)
  consider "\<not> f" | "f" "t = ch (CHR ''n'')" | pre a q fl'' where "f" "t \<noteq> ch (CHR ''n'')"
      "convert t arg p xp fl' (pmem st3) = Some (pre, a, q, fl'')" "emit_field pre a w q fl'' cnt st3 = Go (l, st')"
    using r unfolding fl'_def [symmetric] Let_def by (auto simp: bindf_Go split: option.splits if_splits)
  then show ?thesis
  proof cases
    case 1
    then show ?thesis using r o by simp
  next
    case 2
    then show ?thesis using r o by (auto simp: store_n_def Let_def)
  next
    case 3
    from emit_field_length [OF 3(4) convert_flags [OF 3(3) c]] show ?thesis using o 3(1) by auto
  qed
qed

lemma directive_Ret:
  assumes "directive f s l10n cnt st = Some (Ret r st')"
  shows "(f \<longrightarrow> r < 0) \<and> (\<not> f \<longrightarrow> pout st' = pout st)"
proof -
  obtain l1 ap s1 fl s2 where q:
    "bindf (read_width f l1 fl s2 st) (\<lambda>(w, fl, l10n, s, st).
          bindf (read_precision f l10n s st) (\<lambda>(p, xp, s, st).
          do { spec \<leftarrow> read_spec BARE s;
               case spec of
                 None \<Rightarrow> Some (Ret (-1) st)
               | Some (ps, ty, t, s) \<Rightarrow>
                   bindf (get_arg f ap ty st) (\<lambda>(arg, st).
                     if \<not> f then Some (Go (s, l10n, 0, st))
                     else
                       let fl = (if fl AND LEFT_ADJ \<noteq> 0 then fl AND NOT ZERO_PAD else fl) in
                       if t = ch (CHR ''n'') then Some (Go (s, l10n, 0, store_n ps arg cnt st))
                       else
                         (case convert t arg p xp fl (pmem st) of
                            None \<Rightarrow> Some (Ret (-1) st)
                          | Some (prefix, a, p, fl) \<Rightarrow>
                              bindf (Some (emit_field prefix a w p fl cnt st)) (\<lambda>(l, st). Some (Go (s, l10n, l, st))))) })) = Some (Ret r st')"
    using assms by (auto simp: directive_def bind_eq_Some_conv)
  have emit: "r' < 0" if "emit_field pre a w p fl cnt st0 = Ret r' st1" for pre a w p fl st0 r' st1
    using that by (auto simp: emit_field_def Let_def split: if_splits)
  show ?thesis
    using q
    by (auto simp: bindf_Ret bindf_Go bind_eq_Some_conv Let_def emit
        dest!: read_width_keeps read_precision_keeps get_arg_keeps split: option.splits if_splits)
qed

subsection \<open>The count is the length of the output\<close>

lemma count_pairs_length: "2 * count_pairs s \<le> length s"
  by (induction s rule: count_pairs.induct) auto

lemma literal_length: "literal s = (n, k) \<Longrightarrow> n \<le> length s \<and> n \<le> k \<and> k \<le> length s"
proof -
  define a where "a = length (takeWhile (\<lambda>c. c \<noteq> 0 \<and> c \<noteq> ch (CHR ''%'')) s)"
  have "a \<le> length s" by (simp add: a_def length_takeWhile_le)
  moreover have "2 * count_pairs (drop a s) \<le> length s - a" using count_pairs_length [of "drop a s"] by simp
  moreover assume "literal s = (n, k)"
  then have "n = a + count_pairs (drop a s)" "k = a + 2 * count_pairs (drop a s)" by (simp_all add: literal_def Let_def a_def)
  ultimately show ?thesis by linarith
qed

lemma pop_positional_pout: "pop_positional k i st = Some (j, st') \<Longrightarrow> pout st' = pout st"
  by (induction k i st rule: pop_positional.induct) (auto simp: bind_eq_Some_conv split: if_splits prod.splits)

lemma printf_loop_count:
  assumes "printf_loop f s l10n cnt l st = Some (r, st')"
  shows "(f \<longrightarrow> 0 \<le> r \<longrightarrow> (\<exists>bs. pout st' = pout st @ bs \<and> r = cnt + l + int (length bs))) \<and>
   (\<not> f \<longrightarrow> pout st' = pout st)"
proof (rule printf_loop.raw_induct [where P = "\<lambda>f s l10n cnt l st v.
     (f \<longrightarrow> 0 \<le> fst v \<longrightarrow> (\<exists>bs. pout (snd v) = pout st @ bs \<and> fst v = cnt + l + int (length bs))) \<and>
     (\<not> f \<longrightarrow> pout (snd v) = pout st)" , OF _ assms, simplified fst_conv snd_conv], goal_cases)
  case (1 loop f s l10n cnt l st v)
  show ?case
  proof (cases "l > INT_MAX - cnt")
    case True
    then show ?thesis using 1(2) by auto
  next
    case False
    then obtain c where c: "rd s 0 = Some c" using 1(2) by (auto simp: Let_def split: option.splits)
    obtain n k where lit: "literal s = (n, k)" by force
    note ll = literal_length [OF lit]
    consider "c = 0" | "c \<noteq> 0" "int n > INT_MAX - (cnt + l)" | "c \<noteq> 0" "int n \<le> INT_MAX - (cnt + l)" "n \<noteq> 0"
      | "c \<noteq> 0" "int n \<le> INT_MAX - (cnt + l)" "n = 0" by linarith
    then show ?thesis
    proof cases
      case c1: 1
      then show ?thesis using 1(2) False c
        by (auto simp: Let_def printf_end_def bind_eq_Some_conv dest: pop_positional_pout split: if_splits)
    next
      case 2
      then show ?thesis using 1(2) False c lit by (auto simp: Let_def)
    next
      case c3: 3
      have "loop f (drop k s) l10n (cnt + l) (int n) (if f then out (take n s) st else st) = Some v"
        using 1(2) False c lit c3 by (auto simp: Let_def)
      from 1(1) [OF this] show ?thesis using ll by (auto simp: min_def)
    next
      case c4: 4
      have e: "(if f then out (take 0 s) st else st) = st" by (simp add: out_def)
      consider r' st2 where "directive f (drop k s) l10n (cnt + l) st = Some (Ret r' st2)" "v = (r', st2)"
        | s2 l2 l3 st2 where "directive f (drop k s) l10n (cnt + l) st = Some (Go (s2, l2, l3, st2))"
            "loop f s2 l2 (cnt + l) l3 st2 = Some v"
        using 1(2) False c lit c4 e by (auto simp: Let_def split: option.splits flow.splits)
      then show ?thesis
      proof cases
        case 1
        then show ?thesis using directive_Ret [OF 1(1)] by auto
      next
        case d: 2
        from directive_Go [OF d(1)] obtain bs where "pout st2 = pout st @ bs" "int (length bs) = l3" "\<not> f \<longrightarrow> bs = []" by blast
        then show ?thesis using 1(1) [OF d(2)] by auto
      qed
    qed
  qed
qed

subsection \<open>Digits\<close>

text \<open>The digits of a number, most significant first.\<close>

function digits :: "nat \<Rightarrow> nat \<Rightarrow> nat list" where
  "digits b n = (if n = 0 \<or> b < 2 then [] else digits b (n div b) @ [n mod b])"
  by pat_completeness auto
termination by (relation "measure (\<lambda>(b, n). n)") (auto intro: div_less_dividend)

declare digits.simps [simp del]

definition number :: "nat \<Rightarrow> nat list \<Rightarrow> nat" where
  "number b ds = foldl (\<lambda>v d. b * v + d) 0 ds"

lemma digits_0 [simp]: "digits b 0 = []" by (subst digits.simps) simp

lemma number_digits: "2 \<le> b \<Longrightarrow> number b (digits b n) = n"
proof (induction b n rule: digits.induct)
  case (1 b n)
  then show ?case by (subst digits.simps) (auto simp: number_def)
qed

lemma digits_less: "2 \<le> b \<Longrightarrow> d \<in> set (digits b n) \<Longrightarrow> d < b"
proof (induction b n rule: digits.induct)
  case (1 b n)
  then show ?case by (subst (asm) (2) digits.simps) (auto split: if_splits)
qed

lemma digits_length: "2 \<le> b \<Longrightarrow> n < b ^ k \<Longrightarrow> length (digits b n) \<le> k"
proof (induction k arbitrary: n)
  case (Suc k)
  then have "n div b < b ^ k" by (simp add: less_mult_imp_div_less mult.commute)
  then show ?case using Suc by (subst digits.simps) simp
qed simp

lemma digits_hd: "2 \<le> b \<Longrightarrow> n \<noteq> 0 \<Longrightarrow> digits b n \<noteq> [] \<and> hd (digits b n) \<noteq> 0"
proof (induction b n rule: digits.induct)
  case (1 b n)
  show ?case
  proof (cases "n div b = 0")
    case True
    then have "n mod b = n" using 1(2) by (simp add: div_eq_0_iff)
    then show ?thesis using 1 True by (subst (1 2) digits.simps) auto
  next
    case False
    then have "digits b (n div b) \<noteq> [] \<and> hd (digits b (n div b)) \<noteq> 0" using 1 by simp
    then show ?thesis using 1 by (subst (1 2) digits.simps) auto
  qed
qed

lemma ucast_nat: "(ucast (x :: u64) :: u8) = of_nat (unat x)"
  by transfer (simp add: take_bit_of_nat)

lemma fmt_u_digits: "fmt_u x acc = map (\<lambda>d. 48 + of_nat d) (digits 10 (unat x)) @ acc"
proof (induction x acc rule: fmt_u.induct)
  case (1 x acc)
  show ?case
  proof (cases "x = 0")
    case False
    have "ucast (x mod 10) = (of_nat (unat x mod 10) :: u8)" by (simp add: ucast_nat unat_mod)
    moreover have "unat (x div 10) = unat x div 10" by (simp add: unat_div)
    moreover have "digits 10 (unat x) = digits 10 (unat x div 10) @ [unat x mod 10]"
      using False by (subst digits.simps) (simp add: unat_eq_0)
    ultimately show ?thesis using 1 False by (subst fmt_u.simps) simp
  qed (subst fmt_u.simps, simp)
qed

lemma low_bits: "unat (x AND 7) = unat (x :: u64) mod 8" "unat (x AND 15) = unat x mod 16"
  using unat_and_mask [of x 3] unat_and_mask [of x 4] by (simp_all add: mask_eq_exp_minus_1)

lemma fmt_o_digits: "fmt_o x acc = map (\<lambda>d. 48 + of_nat d) (digits 8 (unat x)) @ acc"
proof (induction x acc rule: fmt_o.induct)
  case (1 x acc)
  show ?case
  proof (cases "x = 0")
    case False
    have "ucast (x AND 7) = (of_nat (unat x mod 8) :: u8)" by (simp add: ucast_nat low_bits)
    moreover have "unat (drop_bit 3 x) = unat x div 8" by (simp add: drop_bit_eq_div unat_div)
    moreover have "digits 8 (unat x) = digits 8 (unat x div 8) @ [unat x mod 8]"
      using False by (subst digits.simps) (simp add: unat_eq_0)
    ultimately show ?thesis using 1 False by (subst fmt_o.simps) simp
  qed (subst fmt_o.simps, simp)
qed

definition hex_char :: "u8 \<Rightarrow> nat \<Rightarrow> u8" where
  "hex_char lower d = (if d < 10 then 48 + of_nat d else if lower = 0 then 55 + of_nat d else 87 + of_nat d)"

lemma xdigit_char: "d < 16 \<Longrightarrow> lower = 0 \<or> lower = 32 \<Longrightarrow> xdigits ! d OR lower = hex_char lower d"
proof -
  have "\<forall>d \<in> {..<16}. \<forall>lower \<in> {0, 32}. xdigits ! d OR lower = hex_char lower d"
    unfolding lessThan_atLeast0 atLeastLessThan_upt by code_simp
  then show "d < 16 \<Longrightarrow> lower = 0 \<or> lower = 32 \<Longrightarrow> xdigits ! d OR lower = hex_char lower d" by blast
qed

lemma fmt_x_digits:
  "lower = 0 \<or> lower = 32 \<Longrightarrow> fmt_x x acc lower = map (hex_char lower) (digits 16 (unat x)) @ acc"
proof (induction x acc lower rule: fmt_x.induct)
  case (1 x acc lower)
  show ?case
  proof (cases "x = 0")
    case False
    have "unat (drop_bit 4 x) = unat x div 16" by (simp add: drop_bit_eq_div unat_div)
    moreover have "digits 16 (unat x) = digits 16 (unat x div 16) @ [unat x mod 16]"
      using False by (subst digits.simps) (simp add: unat_eq_0)
    moreover have "xdigits ! unat (x AND 15) OR lower = hex_char lower (unat x mod 16)"
      using xdigit_char 1(2) by (simp add: low_bits)
    ultimately show ?thesis using 1 False by (subst fmt_x.simps) simp
  qed (subst fmt_x.simps, simp)
qed

subsection \<open>A decimal conversion\<close>

definition dec_text :: "int \<Rightarrow> u8 list" where
  "dec_text k = (if k < 0 then [45] else []) @ (if k = 0 then [48] else map (\<lambda>d. 48 + of_nat d) (digits 10 (nat \<bar>k\<bar>)))"

lemma int_arg:
  fixes x :: u64
  defines "i \<equiv> arg_of INT' x" and "k \<equiv> int_of x"
  shows "(i > 0x7fffffffffffffff) = (k < 0)" "k < 0 \<Longrightarrow> unat (- i) = nat \<bar>k\<bar>" "0 \<le> k \<Longrightarrow> unat i = nat \<bar>k\<bar>"
    "- 2147483648 \<le> k" "k < 2147483648" "(i = 0) = (k = 0)"
proof -
  have b: "- 2147483648 \<le> k" "k < 2147483648"
    using sint_ge [of "ucast x :: u32"] sint_lt [of "ucast x :: u32"] by (simp_all add: k_def int_of_def)
  then show "- 2147483648 \<le> k" "k < 2147483648" .
  have i: "i = word_of_int k" unfolding i_def k_def int_of_def arg_of.simps by (rule scast_eq)
  have u: "uint i = (if k < 0 then k + 18446744073709551616 else k)"
  proof (cases "k < 0")
    case True
    have "k mod 18446744073709551616 = (k + 18446744073709551616) mod 18446744073709551616" by simp
    also have "\<dots> = k + 18446744073709551616" using b True by (intro mod_pos_pos_trivial) simp_all
    finally show ?thesis using True by (simp add: i uint_word_of_int)
  next
    case False
    then have "k mod 18446744073709551616 = k" using b by (intro mod_pos_pos_trivial) simp_all
    then show ?thesis using False by (simp add: i uint_word_of_int)
  qed
  show "(i > 0x7fffffffffffffff) = (k < 0)" using b by (simp add: word_less_def u)
  show "0 \<le> k \<Longrightarrow> unat i = nat \<bar>k\<bar>" by (simp add: unat_eq_nat_uint u)
  show "(i = 0) = (k = 0)" using b u by (auto simp: uint_0_iff [symmetric] simp del: uint_0_iff split: if_splits)
  assume k: "k < 0"
  have "- i = word_of_int (- k)" unfolding i by (rule wi_hom_neg)
  then have "uint (- i) = (- k) mod 2 ^ 64" using uint_word_of_int [of "- k", where 'a = 64] by simp
  also have "\<dots> = - k" using b k by (intro mod_pos_pos_trivial) simp_all
  finally have "uint (- i) = - k" .
  then show "unat (- i) = nat \<bar>k\<bar>" using k by (simp add: unat_eq_nat_uint del: uint_nat)
qed

lemma dec_text_length: "- 2147483648 \<le> k \<Longrightarrow> k < 2147483648 \<Longrightarrow> length (dec_text k) \<le> 11"
proof -
  assume "- 2147483648 \<le> k" "k < 2147483648"
  then have "length (digits 10 (nat \<bar>k\<bar>)) \<le> 10" by (intro digits_length) auto
  then show ?thesis unfolding dec_text_def by (cases "k < 0"; cases "k = 0") simp_all
qed

lemma fmt_dec_plain:
  "fmt_dec (arg_of INT' x) (-1) False 0 =
     Some (if int_of x < 0 then [45] else [], (if int_of x = 0 then [] else map (\<lambda>d. 48 + of_nat d) (digits 10 (nat \<bar>int_of x\<bar>))),
           int (length (if int_of x = 0 then [48] else map (\<lambda>d. 48 + of_nat d :: u8) (digits 10 (nat \<bar>int_of x\<bar>)))), 0)"
  using int_arg [of x] by (auto simp: fmt_dec_def int_tail_def fmt_u_digits Let_def)

lemma plain_d:
  "read_argpos (37 # 100 # s) l10n = Some (l10n, None, 100 # s)" "read_flags 0 (100 # s) = Some (0, 100 # s)"
  "read_width f l10n 0 (100 # s) st = Some (Go (0, 0, l10n, 100 # s, st))"
  "read_precision f l10n (100 # s) st = Some (Go (-1, False, 100 # s, st))"
  "read_spec BARE (100 # s) = Some (Some (BARE, INT', 100, s))"
proof -
  show "read_flags 0 (100 # s) = Some (0, 100 # s)" by (simp add: Let_def)
  have "states BARE 100 = INT'" "\<not> OOB 100" by code_simp+
  then show "read_spec BARE (100 # s) = Some (Some (BARE, INT', 100, s))" by simp
qed (simp_all add: read_argpos_def dollar_at_def isdigit_def read_width_def getint_def read_precision_def)

lemma directive_d:
  assumes "pap st = x # ap" "0 \<le> cnt" "cnt < 1000"
  shows "directive True (37 # 100 # s) l10n cnt st =
     Some (Go (s, l10n, int (length (dec_text (int_of x))), out (dec_text (int_of x)) (st\<lparr>pap := ap\<rparr>)))"
proof -
  let ?k = "int_of x"
  define pre :: "u8 list" where "pre = (if ?k < 0 then [45] else [])"
  define a :: "u8 list" where "a = (if ?k = 0 then [] else map (\<lambda>d. 48 + of_nat d) (digits 10 (nat \<bar>?k\<bar>)))"
  define n where "n = length (if ?k = 0 then [48 :: u8] else a)"
  have c: "convert 100 (arg_of INT' x) (-1) False 0 m = Some (pre, a, int n, 0)" for m
    using fmt_dec_plain [of x] by (simp add: convert_def pre_def a_def n_def cong: if_cong del: arg_of.simps)
  have len: "length pre + n = length (dec_text ?k)" by (auto simp: dec_text_def pre_def n_def a_def)
  have fld: "field_bytes pre a (length pre + n) n 0 = dec_text ?k"
    by (auto simp: field_bytes_def flag_tests dec_text_def pre_def a_def n_def)
  have nl: "length (dec_text ?k) \<le> 11" using dec_text_length int_arg(4,5) by blast
  have mx: "max (int n) (int (length a)) = int n" "max 0 (int (length pre) + int n) = int (length pre + n)"
    by (auto simp: n_def a_def)
  have "emit_field pre a 0 (int n) 0 cnt st' = Go (int (length (dec_text ?k)), out (dec_text ?k) st')" for st'
    using nl assms(2,3) len fld by (simp add: emit_field_eq flag_tests mx INT_MAX_def) 
  then show ?thesis
    by (simp add: directive_def plain_d get_arg_def pop_arg_def assms(1) c Let_def flag_tests del: arg_of.simps read_spec.simps read_flags.simps)
qed

lemma printf_d:
  "vfprintf w g (bytes ''%d'' @ [0]) [x] m = Some (int (length (dec_text (int_of x))), w @ dec_text (int_of x), m)"
proof -
  have lit: "literal [37, 100, 0] = (0, 0)" "literal [0] = (0, 0)" by code_simp+
  define st where "st = \<lparr>pmem = m, pap = [x], pout = w, nl_arg = g, nl_type = replicate 10 BARE\<rparr>"
  have first: "printf_core False [37, 100, 0] st = Some (0, st)"
    unfolding printf_core_def
    by (subst printf_loop.simps) (simp add: lit directive_def plain_d get_arg_def INT_MAX_def del: read_spec.simps read_flags.simps)
  let ?t = "dec_text (int_of x)"
  have nl: "length ?t \<le> 11" using dec_text_length int_arg(4,5) by blast
  have "printf_core True [37, 100, 0] st = printf_loop True [0] False 0 (int (length ?t)) (out ?t (st\<lparr>pap := []\<rparr>))"
    unfolding printf_core_def
    by (subst printf_loop.simps) (simp add: lit directive_d [of st x "[]", unfolded st_def, simplified] st_def INT_MAX_def out_def)
  also have "\<dots> = Some (int (length ?t), out ?t (st\<lparr>pap := []\<rparr>))"
    using nl by (subst printf_loop.simps) (simp add: printf_end_def INT_MAX_def)
  finally show ?thesis using first by (simp add: vfprintf_def st_def [symmetric]) (simp add: st_def)
qed

end
