(* ===== verification/Scanf.thy ===== *)
theory Scanf
  imports Printf_Props
begin

text \<open>
  \<open>lib/vfscanf.c\<close>. The input is the list of the results of the reads to come: a byte, or \<open>None\<close> for a read
  that returns 0 or less; when it is exhausted the program waits for ever, which is \<open>None\<close> of the model,
  like a signed overflow or an access past the format. Every byte read is echoed to the standard output.
\<close>

record sst =
  smem :: bmem
  sap :: "u64 list"
  sinp :: "u8 option list"
  sout :: "u8 list"

definition echo :: "u8 list \<Rightarrow> sst \<Rightarrow> sst" where
  "echo bs st = st\<lparr>sout := sout st @ bs\<rparr>"

text \<open>\<open>in\<close> for one byte; \<open>readable\<close> is that the file has a read function.\<close>

definition in_char :: "bool \<Rightarrow> sst \<Rightarrow> (u8 option \<times> sst) option" where
  "in_char readable st =
     (if \<not> readable then Some (None, echo (bytes ''No read function'' @ [10]) st)
      else (case sinp st of [] \<Rightarrow> None | r # inp \<Rightarrow> Some (r, st\<lparr>sinp := inp\<rparr>)))"

text \<open>A read followed by the check of its result and the echo; \<open>Inl\<close> is the return of \<open>-1\<close>.\<close>

definition read_char :: "bool \<Rightarrow> sst \<Rightarrow> (sst + u8 \<times> sst) option" where
  "read_char readable st =
     do { (r, st) \<leftarrow> in_char readable st;
          Some (case r of
                  None \<Rightarrow> Inl (echo (bytes ''EOF'' @ [10]) st)
                | Some c \<Rightarrow> Inr (c, echo [c] st)) }"

definition is_sep :: "u8 \<Rightarrow> bool" where
  "is_sep c \<longleftrightarrow> c = 10 \<or> c = 13 \<or> c = 32 \<or> c = 8 \<or> c = 0x7f \<or> c = 0"

definition next_num :: "int \<Rightarrow> u8 \<Rightarrow> int option" where
  "next_num num c =
     (let n = num * 10; m = n + (uint c - 48) in
      if n > INT_MAX \<or> n < INT_MIN \<or> m > INT_MAX \<or> m < INT_MIN then None else Some m)"

partial_function (option) scan_d :: "bool \<Rightarrow> int \<Rightarrow> int \<Rightarrow> bool \<Rightarrow> sst \<Rightarrow> (sst + int \<times> sst) option" where
  "scan_d readable num sign flag st =
     do { r \<leftarrow> read_char readable st;
          case r of
            Inl st \<Rightarrow> Some (Inl st)
          | Inr (c, st) \<Rightarrow>
              if \<not> isdigit (uint c) then
                (if c = ch (CHR ''-'') \<and> num = 0 \<and> \<not> flag then scan_d readable num (-1) True st
                 else if c = ch (CHR ''+'') \<and> num = 0 \<and> \<not> flag then scan_d readable num sign True st
                 else if is_sep c then Some (Inr (num * sign, st))
                 else Some (Inl (echo (c # bytes ''Not a digit'' @ [10]) st)))
              else (case next_num num c of None \<Rightarrow> None | Some n \<Rightarrow> scan_d readable n sign flag st) }"

partial_function (option) scan_s :: "bool \<Rightarrow> u64 \<Rightarrow> sst \<Rightarrow> (sst + sst) option" where
  "scan_s readable p st =
     do { r \<leftarrow> read_char readable st;
          case r of
            Inl st \<Rightarrow> Some (Inl st)
          | Inr (c, st) \<Rightarrow>
              if is_sep c then Some (Inr (st\<lparr>smem := (smem st)(p := 0)\<rparr>))
              else scan_s readable (p + 1) (st\<lparr>smem := (smem st)(p := c)\<rparr>) }"

definition next_arg :: "sst \<Rightarrow> (u64 \<times> sst) option" where
  "next_arg st = (case sap st of [] \<Rightarrow> None | a # ap \<Rightarrow> Some (a, st\<lparr>sap := ap\<rparr>))"

text \<open>One conversion; a letter that is not \<open>d\<close>, \<open>c\<close> or \<open>s\<close> is skipped.\<close>

definition scan_item :: "bool \<Rightarrow> u8 \<Rightarrow> int \<Rightarrow> sst \<Rightarrow> (sst + int \<times> sst) option" where
  "scan_item readable c matched st =
     (if c = ch (CHR ''d'') then
        do { (a, st) \<leftarrow> next_arg st;
             r \<leftarrow> scan_d readable 0 1 False st;
             Some (case r of
                     Inl st \<Rightarrow> Inl st
                   | Inr (n, st) \<Rightarrow> Inr (matched + 1, st\<lparr>smem := store_bytes a (le_bytes 4 (word_of_int n)) (smem st)\<rparr>)) }
      else if c = ch (CHR ''c'') then
        do { (a, st) \<leftarrow> next_arg st;
             r \<leftarrow> read_char readable st;
             Some (case r of Inl st \<Rightarrow> Inl st | Inr (b, st) \<Rightarrow> Inr (matched + 1, st\<lparr>smem := (smem st)(a := b)\<rparr>)) }
      else if c = ch (CHR ''s'') then
        do { (a, st) \<leftarrow> next_arg st;
             r \<leftarrow> scan_s readable a st;
             Some (case r of Inl st \<Rightarrow> Inl st | Inr st \<Rightarrow> Inr (matched + 1, st)) }
      else Some (Inr (matched, st)))"

function scanf_core :: "bool \<Rightarrow> u8 list \<Rightarrow> int \<Rightarrow> sst \<Rightarrow> (int \<times> sst) option" where
  "scanf_core readable fmt matched st =
     (case fmt of
        [] \<Rightarrow> None
      | c # _ \<Rightarrow>
          if c = 0 then Some (matched, st)
          else (case dropWhile (\<lambda>c. isspace (uint c)) fmt of
                  [] \<Rightarrow> None
                | p # fmt1 \<Rightarrow>
                    if p \<noteq> ch (CHR ''%'') then Some (-1, echo (bytes ''Wrong format'' @ [10]) st)
                    else (case fmt1 of
                            [] \<Rightarrow> None
                          | d # fmt2 \<Rightarrow>
                              (case scan_item readable d matched st of
                                 None \<Rightarrow> None
                               | Some (Inl st) \<Rightarrow> Some (-1, st)
                               | Some (Inr (matched, st)) \<Rightarrow> scanf_core readable fmt2 matched st))))"
  by pat_completeness auto
termination
proof (relation "measure (\<lambda>(r, fmt, m, st). length fmt)", goal_cases)
  case (2 readable fmt matched st c cs p fmt1 d fmt2 r v m st')
  have "length (dropWhile (\<lambda>c. isspace (uint c)) fmt) \<le> length fmt" by (rule length_dropWhile_le)
  then show ?case using 2 by simp
qed simp

declare scanf_core.simps [simp del] scan_d.simps [code] scan_s.simps [code]

definition vfscanf :: "bool \<Rightarrow> u8 list \<Rightarrow> sst \<Rightarrow> (int \<times> sst) option" where
  "vfscanf readable fmt st = scanf_core readable fmt 0 st"

subsection \<open>Scanning what was printed\<close>

lemma echo_simps [simp]:
  "smem (echo b st) = smem st" "sap (echo b st) = sap st" "sinp (echo b st) = sinp st" "sout (echo b st) = sout st @ b"
  by (simp_all add: echo_def)

definition consumed :: "u8 list \<Rightarrow> u8 option list \<Rightarrow> sst \<Rightarrow> sst" where
  "consumed bs rest st = st\<lparr>sinp := rest, sout := sout st @ bs\<rparr>"

lemma read_char_Some: "sinp st = Some c # rest \<Longrightarrow> read_char True st = Some (Inr (c, consumed [c] rest st))"
  by (simp add: read_char_def in_char_def consumed_def echo_def)

lemma digit_byte: "d < 10 \<Longrightarrow> uint (48 + of_nat d :: u8) = 48 + int d"
proof -
  have "\<forall>d \<in> {..<10}. uint (48 + of_nat d :: u8) = 48 + int d"
    unfolding lessThan_atLeast0 atLeastLessThan_upt by code_simp
  then show "d < 10 \<Longrightarrow> uint (48 + of_nat d :: u8) = 48 + int d" by blast
qed

lemma number_mono: "foldl (\<lambda>v d. 10 * v + d) (v :: nat) ds \<ge> v"
proof (induction ds arbitrary: v)
  case (Cons d ds)
  have "v \<le> 10 * v + d" by simp
  also have "\<dots> \<le> foldl (\<lambda>v d. 10 * v + d) (10 * v + d) ds" by (rule Cons.IH)
  finally show ?case by simp
qed simp

lemma scan_prefix:
  assumes "\<forall>d \<in> set ds. d < 10" "foldl (\<lambda>v d. 10 * v + d) v ds \<le> 2147483647"
    "sinp st = map (Some \<circ> (\<lambda>d. 48 + of_nat d)) ds @ rest"
  shows "scan_d True (int v) sign flag st =
     scan_d True (int (foldl (\<lambda>v d. 10 * v + d) v ds)) sign flag (consumed (map (\<lambda>d. 48 + of_nat d) ds) rest st)"
  using assms
proof (induction ds arbitrary: v st)
  case Nil
  then have "consumed [] rest st = st" by (cases st) (simp add: consumed_def)
  then show ?case by simp
next
  case (Cons d ds)
  let ?c = "48 + of_nat d :: u8"
  have d: "d < 10" using Cons.prems(1) by simp
  then have dg: "isdigit (uint ?c)" by (simp only: digit_byte isdigit_def) simp
  have "10 * v + d \<le> 2147483647"
    using number_mono [of "10 * v + d" ds] Cons.prems(2) by simp
  then have n: "next_num (int v) ?c = Some (int (10 * v + d))"
    using d by (simp add: next_num_def Let_def digit_byte INT_MAX_def INT_MIN_def)
  define st1 where "st1 = consumed [?c] (map (Some \<circ> (\<lambda>d. 48 + of_nat d)) ds @ rest) st"
  have r: "read_char True st = Some (Inr (?c, st1))"
    unfolding st1_def by (rule read_char_Some) (use Cons.prems(3) in simp)
  have "scan_d True (int v) sign flag st = scan_d True (int (10 * v + d)) sign flag st1"
    by (subst scan_d.simps) (simp add: r dg n del: of_nat_add of_nat_mult)
  also have "\<dots> = scan_d True (int (foldl (\<lambda>v d. 10 * v + d) (10 * v + d) ds)) sign flag (consumed (map (\<lambda>d. 48 + of_nat d) ds) rest st1)"
    by (rule Cons.IH) (use Cons.prems in \<open>simp_all add: st1_def consumed_def\<close>)
  finally show ?case by (simp add: st1_def consumed_def)
qed

lemma scan_digits:
  assumes "\<forall>d \<in> set ds. d < 10" "foldl (\<lambda>v d. 10 * v + d) v ds \<le> 2147483647" "is_sep e"
    "sinp st = map (Some \<circ> (\<lambda>d. 48 + of_nat d)) ds @ Some e # rest"
  shows "scan_d True (int v) sign flag st =
     Some (Inr (int (foldl (\<lambda>v d. 10 * v + d) v ds) * sign, consumed (map (\<lambda>d. 48 + of_nat d) ds @ [e]) rest st))"
proof -
  have "\<not> isdigit (uint e)" "e \<noteq> 45" "e \<noteq> 43" using assms(3) by (auto simp: is_sep_def isdigit_def)
  moreover define st1 where "st1 = consumed (map (\<lambda>d. 48 + of_nat d) ds) (Some e # rest) st"
  moreover have "read_char True st1 = Some (Inr (e, consumed [e] rest st1))"
    by (rule read_char_Some) (simp add: st1_def consumed_def)
  ultimately have "scan_d True n sign flag st1 = Some (Inr (n * sign, consumed [e] rest st1))" for n
    using assms(3) by (subst scan_d.simps) simp
  then show ?thesis using scan_prefix [OF assms(1,2,4), of sign flag] by (simp add: st1_def consumed_def)
qed

lemma scan_least:
  assumes "sinp st = map Some (bytes ''-2147483648'') @ rest"
  shows "scan_d True 0 1 False st = None"
proof -
  let ?ds = "[2, 1, 4, 7, 4, 8, 3, 6, 4] :: nat list"
  define st1 where "st1 = consumed [45] (map (Some \<circ> (\<lambda>d. 48 + of_nat d)) ?ds @ Some 56 # rest) st"
  have r: "read_char True st = Some (Inr (45, st1))"
    unfolding st1_def by (rule read_char_Some) (use assms in simp)
  have "scan_d True 0 1 False st = scan_d True (int 0) (-1) True st1"
    by (subst scan_d.simps) (simp add: r isdigit_def)
  also have "\<dots> = scan_d True 214748364 (-1) True (consumed (map (\<lambda>d. 48 + of_nat d) ?ds) (Some 56 # rest) st1)"
    using scan_prefix [of ?ds 0 st1 "Some 56 # rest" "-1" True] by (simp add: st1_def consumed_def)
  also have "\<dots> = None"
    by (subst scan_d.simps)
      (simp add: read_char_def in_char_def consumed_def isdigit_def next_num_def INT_MAX_def INT_MIN_def)
  finally show ?thesis .
qed

lemma scan_dec_text:
  assumes k: "- 2147483648 < k" "k < 2147483648" and e: "is_sep e"
    and i: "sinp st = map Some (dec_text k) @ Some e # rest"
  shows "scan_d True 0 1 False st = Some (Inr (k, consumed (dec_text k @ [e]) rest st))"
proof -
  define ds where "ds = (if k = 0 then [0] else digits 10 (nat \<bar>k\<bar>))"
  have ds: "\<forall>d \<in> set ds. d < 10" using digits_less [of 10] by (auto simp: ds_def)
  have num: "foldl (\<lambda>v d. 10 * v + d) 0 ds = nat \<bar>k\<bar>"
    using number_digits [of 10 "nat \<bar>k\<bar>"] by (auto simp: ds_def number_def)
  then have le: "foldl (\<lambda>v d. 10 * v + d) 0 ds \<le> 2147483647" using k by linarith
  have dt: "dec_text k = (if k < 0 then [45] else []) @ map (\<lambda>d. 48 + of_nat d) ds"
    by (simp add: dec_text_def ds_def)
  show ?thesis
  proof (cases "k < 0")
    case True
    define st1 where "st1 = consumed [45] (map (Some \<circ> (\<lambda>d. 48 + of_nat d)) ds @ Some e # rest) st"
    have r: "read_char True st = Some (Inr (45, st1))"
      unfolding st1_def by (rule read_char_Some) (use i dt True in simp)
    have "scan_d True 0 1 False st = scan_d True (int 0) (-1) True st1"
      by (subst scan_d.simps) (simp add: r isdigit_def)
    also have "\<dots> = Some (Inr (int (nat \<bar>k\<bar>) * (-1), consumed (map (\<lambda>d. 48 + of_nat d) ds @ [e]) rest st1))"
      using scan_digits [OF ds le e, of st1 rest "-1" True] num by (simp add: st1_def consumed_def)
    finally show ?thesis using True by (simp add: st1_def consumed_def dt)
  next
    case False
    then show ?thesis using scan_digits [OF ds le e, of st rest 1 False] num i by (simp add: dt)
  qed
qed

lemma scanf_d:
  assumes "- 2147483648 < k" "k < 2147483648" "is_sep e"
    "sinp st = map Some (dec_text k) @ Some e # rest" "sap st = a # ap"
  shows "\<exists>st'. vfscanf True (bytes ''%d'' @ [0]) st = Some (1, st') \<and>
     smem st' = store_bytes a (le_bytes 4 (word_of_int k)) (smem st) \<and> sinp st' = rest \<and> sap st' = ap"
proof -
  define st0 where "st0 = st\<lparr>sap := ap\<rparr>"
  have s: "scan_d True 0 1 False st0 = Some (Inr (k, consumed (dec_text k @ [e]) rest st0))"
    by (rule scan_dec_text [OF assms(1-3)]) (use assms(4) in \<open>simp add: st0_def\<close>)
  have item: "scan_item True 100 0 st =
     Some (Inr (1, (consumed (dec_text k @ [e]) rest st0)\<lparr>smem := store_bytes a (le_bytes 4 (word_of_int k)) (smem st)\<rparr>))"
    using s by (simp add: scan_item_def next_arg_def assms(5) st0_def consumed_def)
  show ?thesis
    by (subst vfscanf_def, subst scanf_core.simps)
      (simp add: isspace_def item scanf_core.simps [of True "[0]"] consumed_def st0_def)
qed

end
