(* ===== verification/Text_Claims.thy ===== *)
theory Text_Claims
  imports Scanf
begin

text \<open>The properties of the formatter and of the scanner.\<close>

lemma literal_plain:
  assumes "\<forall>c \<in> set t. c \<noteq> 0 \<and> c \<noteq> 37"
  shows "literal (t @ [0]) = (length t, length t)"
proof -
  have "takeWhile (\<lambda>c. c \<noteq> 0 \<and> c \<noteq> 37) (t @ [0]) = t" using assms by (induction t) auto
  then show ?thesis by (simp add: literal_def Let_def)
qed

lemma printf_loop_plain:
  assumes "\<forall>c \<in> set t. c \<noteq> 0 \<and> c \<noteq> 37" "int (length t) \<le> INT_MAX"
  shows "printf_loop f (t @ [0]) False 0 0 st = Some (if f then int (length t) else 0, if f then out t st else st)"
proof (cases t)
  case Nil
  then show ?thesis by (subst printf_loop.simps) (simp add: printf_end_def INT_MAX_def out_def)
next
  case (Cons c cs)
  have "rd (t @ [0]) 0 = Some c" "c \<noteq> 0" using assms Cons by simp_all
  moreover have "printf_loop f [0] False 0 (int (length t)) st' = Some (if f then int (length t) else 0, st')" for st'
    using assms(2) by (subst printf_loop.simps) (simp add: printf_end_def)
  moreover have "length t \<noteq> 0" using Cons by simp
  ultimately show ?thesis using assms(2)
    by (subst printf_loop.simps) (simp add: literal_plain [OF assms(1)] INT_MAX_def out_def)
qed

text \<open>
  A format without a percent sign is written as it is, and its length is returned.
\<close>

theorem printf_plain_text:
  assumes "\<forall>c \<in> set t. c \<noteq> 0 \<and> c \<noteq> ch (CHR ''%'')" and "int (length t) \<le> INT_MAX"
  shows "vfprintf w g (t @ [0]) ap m = Some (int (length t), w @ t, m)"
proof -
  have t: "\<forall>c \<in> set t. c \<noteq> 0 \<and> c \<noteq> 37" using assms(1) by simp
  show ?thesis by (simp add: vfprintf_def printf_core_def printf_loop_plain [OF t assms(2)])
qed

theorem printf_plain_text_witness:
  "vfprintf [] [] (bytes ''hello'' @ [0]) [] (\<lambda>_. 0) = Some (5, bytes ''hello'', \<lambda>_. 0)"
  using printf_plain_text [of "bytes ''hello''" "[]" "[]" "[]" "\<lambda>_. 0"] by (simp add: INT_MAX_def)

text \<open>
  C17. For every format, argument list and memory, when \<open>vfprintf\<close> does not fail, the number it returns is
  the number of bytes it wrote: the count kept across literals and directives, the widths, the paddings,
  the prefixes and the precision zeros all agree.
\<close>

theorem printf_counts_output:
  assumes "vfprintf w g fmt ap m = Some (r, w', m')" and "0 \<le> r"
  shows "\<exists>bs. w' = w @ bs \<and> r = int (length bs)"
proof -
  let ?st = "\<lparr>pmem = m, pap = ap, pout = w, nl_arg = g, nl_type = replicate 10 BARE\<rparr>"
  obtain r1 st1 where 1: "printf_core False fmt ?st = Some (r1, st1)"
    and 2: "if r1 < 0 then r = r1 \<and> w' = pout st1
      else \<exists>st2. printf_core True fmt (st1\<lparr>pap := ap\<rparr>) = Some (r, st2) \<and> w' = pout st2"
    using assms(1) by (auto simp: vfprintf_def bind_eq_Some_conv split: if_splits)
  have "pout st1 = w" using printf_loop_count [OF 1 [unfolded printf_core_def]] by simp
  moreover obtain st2 where "printf_core True fmt (st1\<lparr>pap := ap\<rparr>) = Some (r, st2)" "w' = pout st2"
    using 2 assms(2) by (auto split: if_splits)
  ultimately show ?thesis using printf_loop_count [of True fmt False 0 0 "st1\<lparr>pap := ap\<rparr>" r st2] assms(2)
    by (simp add: printf_core_def)
qed

theorem printf_counts_output_witness:
  "\<exists>bs. map_option (\<lambda>(r, w, m). w) (vfprintf [] [] (bytes ''%06d|%-4c|%#x'' @ [0]) [-42, 65, 255] (\<lambda>_. 0)) = Some bs \<and> length bs = 16"
proof -
  have "map_option (\<lambda>(r, w, m). (r, w)) (vfprintf [] [] (bytes ''%06d|%-4c|%#x'' @ [0]) [-42, 65, 255] (\<lambda>_. 0))
      = Some (16, bytes ''-00042|A   |0xff'')" by code_simp
  then obtain m' where v: "vfprintf [] [] (bytes ''%06d|%-4c|%#x'' @ [0]) [-42, 65, 255] (\<lambda>_. 0)
      = Some (16, bytes ''-00042|A   |0xff'', m')" by (auto simp del: of_char_Char list.map)
  from printf_counts_output [OF v] v show ?thesis by (auto simp del: of_char_Char list.map)
qed

text \<open>
  C19. The digits that \<open>fmt_u\<close>, \<open>fmt_o\<close> and \<open>fmt_x\<close> write are the decimal, octal and hexadecimal notation of the
  number, most significant first and without leading zeros, and they fit the 24-byte buffer, so the
  backward writes never leave it.
\<close>

theorem number_conversions:
  "fmt_u x [] = map (\<lambda>d. 48 + of_nat d) (digits 10 (unat x)) \<and>
   fmt_o x [] = map (\<lambda>d. 48 + of_nat d) (digits 8 (unat x)) \<and>
   fmt_x x [] 0 = map (hex_char 0) (digits 16 (unat x)) \<and> fmt_x x [] 32 = map (hex_char 32) (digits 16 (unat x)) \<and>
   (\<forall>b \<in> {8, 10, 16}. number b (digits b (unat x)) = unat x \<and> (\<forall>d \<in> set (digits b (unat x)). d < b) \<and>
      (x \<noteq> 0 \<longrightarrow> hd (digits b (unat x)) \<noteq> 0) \<and> length (digits b (unat x)) \<le> 22)"
proof -
  have "length (digits b (unat x)) \<le> 22" if "b \<in> {8, 10, 16}" for b
  proof (rule digits_length)
    have "unat x < 2 ^ 64" using unat_u64_less [of x] by simp
    also have "(2 :: nat) ^ 64 \<le> 8 ^ 22" by simp
    also have "(8 :: nat) ^ 22 \<le> b ^ 22" using that by (intro power_mono) auto
    finally show "unat x < b ^ 22" .
  qed (use that in auto)
  note len = this
  have hd: "x \<noteq> 0 \<longrightarrow> hd (digits b (unat x)) \<noteq> 0" if "b \<in> {8, 10, 16}" for b
    using digits_hd [of b "unat x"] that by (auto simp: unat_eq_0)
  have num: "number b (digits b (unat x)) = unat x" "\<forall>d \<in> set (digits b (unat x)). d < b" if "b \<in> {8, 10, 16}" for b
    using number_digits [of b "unat x"] digits_less [of b _ "unat x"] that by auto
  have "\<forall>b \<in> {8, 10, 16}. number b (digits b (unat x)) = unat x \<and> (\<forall>d \<in> set (digits b (unat x)). d < b) \<and>
      (x \<noteq> 0 \<longrightarrow> hd (digits b (unat x)) \<noteq> 0) \<and> length (digits b (unat x)) \<le> 22"
    by (intro ballI conjI num len hd)
  then show ?thesis by (intro conjI) (simp_all only: fmt_u_digits fmt_o_digits fmt_x_digits append_Nil2 simp_thms)
qed

theorem number_conversions_witness:
  "fmt_u 1234 [] = bytes ''1234'' \<and> map (\<lambda>d. 48 + of_nat d) (digits 10 1234) = bytes ''1234''"
proof -
  have "fmt_u 1234 [] = bytes ''1234''" by code_simp
  then show ?thesis using number_conversions [of 1234] by simp
qed

text \<open>
  C18. What \<open>printf\<close> writes for \<open>%d\<close>, followed by a newline, is read back by \<open>scanf\<close> with \<open>%d\<close> as the same \<open>int\<close>, for
  every \<open>int\<close> but the least one, whose digits overflow the accumulator of \<open>scanf\<close>.
\<close>

theorem scanf_reads_printf:
  "vfprintf w g (bytes ''%d'' @ [0]) [x] m = Some (int (length (dec_text (int_of x))), w @ dec_text (int_of x), m) \<and>
   (if int_of x \<noteq> INT_MIN
    then \<exists>st'. vfscanf True (bytes ''%d'' @ [0]) \<lparr>smem = m, sap = [a], sinp = map Some (dec_text (int_of x) @ [10]), sout = o1\<rparr>
        = Some (1, st') \<and> smem st' = store_bytes a (le_bytes 4 (word_of_int (int_of x))) m \<and> sinp st' = []
    else vfscanf True (bytes ''%d'' @ [0]) \<lparr>smem = m, sap = [a], sinp = map Some (dec_text (int_of x) @ [10]), sout = o1\<rparr> = None)"
proof -
  have "dec_text (- 2147483648) = bytes ''-2147483648''" by (simp add: dec_text_def digits.simps)
  then have "vfscanf True (bytes ''%d'' @ [0]) \<lparr>smem = m, sap = [a], sinp = map Some (dec_text (- 2147483648) @ [10]), sout = o1\<rparr> = None"
    using scan_least [of "\<lparr>smem = m, sap = [], sinp = map Some (dec_text (- 2147483648) @ [10]), sout = o1\<rparr>" "[Some 10]"]
    by (simp add: vfscanf_def scanf_core.simps isspace_def scan_item_def next_arg_def)
  moreover have "\<exists>st'. vfscanf True (bytes ''%d'' @ [0]) \<lparr>smem = m, sap = [a], sinp = map Some (dec_text (int_of x) @ [10]), sout = o1\<rparr>
        = Some (1, st') \<and> smem st' = store_bytes a (le_bytes 4 (word_of_int (int_of x))) m \<and> sinp st' = []"
    if "int_of x \<noteq> - 2147483648"
    using scanf_d [of "int_of x" 10 "\<lparr>smem = m, sap = [a], sinp = map Some (dec_text (int_of x) @ [10]), sout = o1\<rparr>" "[]" a "[]"]
      that int_arg(4,5) [of x] by (auto simp: is_sep_def)
  ultimately show ?thesis using printf_d by (simp add: INT_MIN_def)
qed

end
