(* ===== verification/Virtio.thy ===== *)
theory Virtio
  imports PageTable Printf_Props
begin

unbundle bit_operations_syntax

text \<open>
  The block-device driver \<open>fs/virtio.c\<close> with the structures of \<open>virtio.h\<close>. The state holds the register
  windows, the queue in the shared pages, the request and status variables and the memory by kernel
  address. The device is not code of the repository: it is the parameter \<open>dev\<close>, one step of the
  device on the shared state (\<open>None\<close> when it stays idle for ever), and a wait loop runs it until the used
  index moves. Fences and messages are left out.
\<close>

subsection \<open>Constants and structures\<close>

definition DEVICE_ACKNOWLEDGE :: u32 where [kdefs]: "DEVICE_ACKNOWLEDGE = 1"
definition DEVICE_DRIVER :: u32 where [kdefs]: "DEVICE_DRIVER = 2"
definition DEVICE_DRIVER_OK :: u32 where [kdefs]: "DEVICE_DRIVER_OK = 4"
definition DEVICE_FEATURES_OK :: u32 where [kdefs]: "DEVICE_FEATURES_OK = 8"
definition ID_VIRTIO_BLK :: u32 where [kdefs]: "ID_VIRTIO_BLK = 2"
definition VIRTIO_QUEUE_SIZE :: nat where [kdefs]: "VIRTIO_QUEUE_SIZE = 16"
definition VIRTIO_BLK_SECTOR_SIZE :: nat where [kdefs]: "VIRTIO_BLK_SECTOR_SIZE = 512"
definition VIRTQ_DESC_F_NEXT :: u16 where [kdefs]: "VIRTQ_DESC_F_NEXT = 1"
definition VIRTQ_DESC_F_WRITE :: u16 where [kdefs]: "VIRTQ_DESC_F_WRITE = 2"
definition VIRTQ_AVAIL_F_NO_INTERRUPT :: u16 where [kdefs]: "VIRTQ_AVAIL_F_NO_INTERRUPT = 1"
definition VIRTIO_BLK_T_IN :: u32 where [kdefs]: "VIRTIO_BLK_T_IN = 0"
definition VIRTIO_BLK_T_OUT :: u32 where [kdefs]: "VIRTIO_BLK_T_OUT = 1"

record virtio_regs =
  MagicValue :: u32
  Version :: u32
  DeviceID :: u32
  VendorID :: u32
  DeviceFeatures :: u32
  DeviceFeaturesSel :: u32
  DriverFeatures :: u32
  DriverFeaturesSel :: u32
  QueueSel :: u32
  QueueNumMax :: u32
  QueueNum :: u32
  QueueReady :: u32
  QueueNotify :: u32
  InterruptStatus :: u32
  InterruptACK :: u32
  Status :: u32
  QueueDescLow :: u32
  QueueDescHigh :: u32
  QueueAvailLow :: u32
  QueueAvailHigh :: u32
  QueueUsedLow :: u32
  QueueUsedHigh :: u32
  ConfigGeneration :: u32

record virtio_desc =
  d_addr :: u64
  d_len :: u32
  d_flags :: u16
  d_next :: u16

record virtio_avail =
  av_flags :: u16
  av_idx :: u16
  av_ring :: "u16 list"

record virtio_used =
  us_flags :: u16
  us_idx :: u16
  us_ring :: "(u32 \<times> u32) list"

record vring =
  vr_num :: u16
  vr_desc :: u64
  vr_avail :: u64
  vr_used :: u64

record virtio_blk_req =
  rq_type :: u32
  rq_sector :: u64

text \<open>
  \<open>virtio_blk_regs\<close> is the address of the device's register window, \<open>windows\<close> the windows by address; the three
  shared structures are those the queue points to; \<open>req_at\<close> and \<open>status_at\<close> are the addresses the linker
  gave the two global variables. \<open>disk\<close> and \<open>dev_seen\<close> are the device's own state: the
  sectors, and the number of requests it has taken from the queue; the driver never touches them.
\<close>

record virtio_st =
  virtio_blk_regs :: u64
  windows :: "u64 \<Rightarrow> virtio_regs"
  virtio_blk_ring :: vring
  descs :: "virtio_desc list"
  avail :: virtio_avail
  used :: virtio_used
  virtio_blk_req :: virtio_blk_req
  virtio_blk_status :: u8
  req_at :: u64
  status_at :: u64
  memory :: bmem
  page_alloc :: buddy
  disk :: "u64 \<Rightarrow> u8 list"
  dev_seen :: u16

definition virt_to_phys :: "u64 \<Rightarrow> u64" where "virt_to_phys va = va - PA2VA_OFFSET"

text \<open>An access to the registers through \<open>virtio_blk_regs\<close>.\<close>

definition set_regs :: "(virtio_regs \<Rightarrow> virtio_regs) \<Rightarrow> virtio_st \<Rightarrow> virtio_st" where
  "set_regs f st = st\<lparr>windows := (windows st)(virtio_blk_regs st := f (windows st (virtio_blk_regs st)))\<rparr>"

definition or_status :: "u32 \<Rightarrow> virtio_st \<Rightarrow> virtio_st" where
  "or_status b = set_regs (\<lambda>r. r\<lparr>Status := Status r OR b\<rparr>)"

subsection \<open>Initialisation\<close>

definition virtio_blk_driver_init :: "virtio_st \<Rightarrow> virtio_st" where
  "virtio_blk_driver_init st =
     (let st = set_regs (Status_update (\<lambda>_. 0)) st;
          st = or_status DEVICE_ACKNOWLEDGE st
      in or_status DEVICE_DRIVER st)"

definition virtio_blk_feature_init :: "virtio_st \<Rightarrow> virtio_st" where
  "virtio_blk_feature_init st =
     (let st = set_regs (DeviceFeaturesSel_update (\<lambda>_. 0)) st;
          st = set_regs (DeviceFeaturesSel_update (\<lambda>_. 1)) st;
          st = set_regs (DriverFeaturesSel_update (\<lambda>_. 0)) st;
          st = set_regs (DriverFeatures_update (\<lambda>_. 0x30000200)) st;
          st = set_regs (DriverFeaturesSel_update (\<lambda>_. 1)) st;
          st = set_regs (DriverFeatures_update (\<lambda>_. 0)) st
      in or_status DEVICE_FEATURES_OK st)"

definition low32 :: "u64 \<Rightarrow> u32" where "low32 x = ucast (0xffffffff AND x)"
definition high32 :: "u64 \<Rightarrow> u32" where "high32 x = ucast (drop_bit 32 x)"

definition link_descs :: "virtio_desc list \<Rightarrow> virtio_desc list" where
  "link_descs ds = fold (\<lambda>i ds. ds[i - 1 := (ds ! (i - 1))\<lparr>d_next := of_nat i\<rparr>]) [1 ..< VIRTIO_QUEUE_SIZE] ds"

definition virtio_blk_queue_init :: "virtio_st \<Rightarrow> virtio_st option" where
  "virtio_blk_queue_init st =
     do { (pages, b) \<leftarrow> alloc_pages 3 (page_alloc st);
          (let r = \<lparr>vr_num = of_nat VIRTIO_QUEUE_SIZE, vr_desc = pages, vr_avail = pages + PGSIZE, vr_used = pages + 2 * PGSIZE\<rparr>;
               st = st\<lparr>page_alloc := b, virtio_blk_ring := r, avail := (avail st)\<lparr>av_flags := VIRTQ_AVAIL_F_NO_INTERRUPT\<rparr>,
                       descs := link_descs (descs st)\<rparr>;
               st = set_regs (QueueSel_update (\<lambda>_. 0)) st;
               st = set_regs (QueueNum_update (\<lambda>_. of_nat VIRTIO_QUEUE_SIZE)) st;
               st = set_regs (\<lambda>g. g\<lparr>QueueAvailLow := low32 (virt_to_phys (vr_avail r)), QueueAvailHigh := high32 (virt_to_phys (vr_avail r)),
                                   QueueDescLow := low32 (virt_to_phys (vr_desc r)), QueueDescHigh := high32 (virt_to_phys (vr_desc r)),
                                   QueueUsedLow := low32 (virt_to_phys (vr_used r)), QueueUsedHigh := high32 (virt_to_phys (vr_used r))\<rparr>) st
           in Some (set_regs (QueueReady_update (\<lambda>_. 1)) st)) }"

text \<open>\<open>virtio_blk_config_init\<close> only computes a local variable.\<close>

definition virtio_blk_config_init :: "virtio_st \<Rightarrow> virtio_st" where
  "virtio_blk_config_init st = st"

subsection \<open>Requests\<close>

definition virtio_blk_cmd :: "u32 \<Rightarrow> u32 \<Rightarrow> u64 \<Rightarrow> virtio_st \<Rightarrow> virtio_st" where
  "virtio_blk_cmd type sector buf st =
     (let st = st\<lparr>virtio_blk_req := \<lparr>rq_type = type, rq_sector = ucast sector\<rparr>\<rparr>;
          d0 = \<lparr>d_addr = virt_to_phys (req_at st), d_len = 16, d_flags = VIRTQ_DESC_F_NEXT, d_next = 1\<rparr>;
          d1 = \<lparr>d_addr = virt_to_phys buf, d_len = of_nat VIRTIO_BLK_SECTOR_SIZE,
                d_flags = (if type = VIRTIO_BLK_T_IN then VIRTQ_DESC_F_WRITE OR VIRTQ_DESC_F_NEXT else VIRTQ_DESC_F_NEXT),
                d_next = 2\<rparr>;
          d2 = (descs st ! 2)\<lparr>d_addr := virt_to_phys (status_at st), d_len := 1, d_flags := VIRTQ_DESC_F_WRITE\<rparr>;
          st = st\<lparr>descs := (descs st)[0 := d0, 1 := d1, 2 := d2]\<rparr>;
          st = or_status DEVICE_DRIVER_OK st;
          a = avail st;
          st = st\<lparr>avail := a\<lparr>av_ring := (av_ring a)[unat (av_idx a + 1) mod VIRTIO_QUEUE_SIZE := 0], av_idx := av_idx a + 1\<rparr>\<rparr>
      in set_regs (QueueNotify_update (\<lambda>_. 0)) st)"

partial_function (option) wait_used :: "(virtio_st \<Rightarrow> virtio_st option) \<Rightarrow> u16 \<Rightarrow> virtio_st \<Rightarrow> virtio_st option" where
  "wait_used dev original_idx st =
     (if us_idx (used st) \<noteq> original_idx then Some st
      else (case dev st of None \<Rightarrow> None | Some st' \<Rightarrow> wait_used dev original_idx st'))"

declare wait_used.simps [code]

definition virtio_blk_read_sector :: "(virtio_st \<Rightarrow> virtio_st option) \<Rightarrow> u64 \<Rightarrow> u64 \<Rightarrow> virtio_st \<Rightarrow> virtio_st option" where
  "virtio_blk_read_sector dev sector buf st =
     wait_used dev (us_idx (used st)) (virtio_blk_cmd VIRTIO_BLK_T_IN (ucast sector) buf st)"

definition virtio_blk_write_sector :: "(virtio_st \<Rightarrow> virtio_st option) \<Rightarrow> u64 \<Rightarrow> u64 \<Rightarrow> virtio_st \<Rightarrow> virtio_st option" where
  "virtio_blk_write_sector dev sector buf st =
     wait_used dev (us_idx (used st)) (virtio_blk_cmd VIRTIO_BLK_T_OUT (ucast sector) buf st)"

text \<open>\<open>virtio_blk_init\<close>; \<open>buf\<close> is its local buffer, the result tells whether the boot signature was found.\<close>

definition virtio_blk_init :: "(virtio_st \<Rightarrow> virtio_st option) \<Rightarrow> u64 \<Rightarrow> virtio_st \<Rightarrow> (bool \<times> virtio_st) option" where
  "virtio_blk_init dev buf st =
     do { st \<leftarrow> virtio_blk_queue_init (virtio_blk_config_init (virtio_blk_feature_init (virtio_blk_driver_init st)));
          st \<leftarrow> virtio_blk_read_sector dev 0 buf st;
          Some (\<not> (memory st (buf + 510) \<noteq> 0x55 \<or> memory st (buf + 511) \<noteq> 0xaa), st) }"

definition virtio_dev_test :: "u64 \<Rightarrow> virtio_st \<Rightarrow> virtio_st" where
  "virtio_dev_test virtio_addr st =
     (if DeviceID (windows st virtio_addr) = ID_VIRTIO_BLK then st\<lparr>virtio_blk_regs := virtio_addr\<rparr> else st)"

definition virtio_dev_init :: "(virtio_st \<Rightarrow> virtio_st option) \<Rightarrow> u64 \<Rightarrow> virtio_st \<Rightarrow> virtio_st option" where
  "virtio_dev_init dev buf st =
     (let st = fold (\<lambda>i. virtio_dev_test (io_to_virt (VIRTIO_START + of_nat i * VIRTIO_SIZE))) [0 ..< unat VIRTIO_COUNT] st
      in if virtio_blk_regs st \<noteq> 0 then map_option snd (virtio_blk_init dev buf st) else Some st)"

subsection \<open>The contract of the device\<close>

text \<open>
  What the virtio specification says of a block device: it takes the descriptor index from the available ring
  at the number of requests it has taken, follows the chain, moves one sector in the direction of the
  request, stores the status 0 and advances the used index. \<open>obeys dev\<close> is the hypothesis on \<open>dev\<close>.
\<close>

definition chain_of :: "virtio_st \<Rightarrow> virtio_desc \<times> virtio_desc \<times> virtio_desc" where
  "chain_of st =
     (let d0 = descs st ! unat (av_ring (avail st) ! (unat (dev_seen st) mod VIRTIO_QUEUE_SIZE));
          d1 = descs st ! unat (d_next d0)
      in (d0, d1, descs st ! unat (d_next d1)))"

definition pending :: "virtio_st \<Rightarrow> bool" where
  "pending st \<longleftrightarrow> (case chain_of st of (d0, d1, d2) \<Rightarrow>
     av_idx (avail st) \<noteq> dev_seen st \<and>
     QueueReady (windows st (virtio_blk_regs st)) = 1 \<and> Status (windows st (virtio_blk_regs st)) AND DEVICE_DRIVER_OK \<noteq> 0 \<and>
     d_addr d0 = virt_to_phys (req_at st) \<and> d_len d0 = 16 \<and> d_flags d0 = VIRTQ_DESC_F_NEXT \<and>
     d_len d1 = 512 \<and> d_flags d1 = (if rq_type (virtio_blk_req st) = VIRTIO_BLK_T_IN then VIRTQ_DESC_F_WRITE OR VIRTQ_DESC_F_NEXT else VIRTQ_DESC_F_NEXT) \<and>
     d_addr d2 = virt_to_phys (status_at st) \<and> d_len d2 = 1 \<and> d_flags d2 = VIRTQ_DESC_F_WRITE \<and>
     (rq_type (virtio_blk_req st) = VIRTIO_BLK_T_IN \<or> rq_type (virtio_blk_req st) = VIRTIO_BLK_T_OUT))"

definition complete :: "virtio_st \<Rightarrow> virtio_st" where
  "complete st =
     (let buf = d_addr (fst (snd (chain_of st))) + PA2VA_OFFSET; sec = rq_sector (virtio_blk_req st);
          st = (if rq_type (virtio_blk_req st) = VIRTIO_BLK_T_IN then st\<lparr>memory := store_bytes buf (disk st sec) (memory st)\<rparr>
                else st\<lparr>disk := (disk st)(sec := load_bytes buf VIRTIO_BLK_SECTOR_SIZE (memory st))\<rparr>)
      in st\<lparr>virtio_blk_status := 0, used := (used st)\<lparr>us_idx := us_idx (used st) + 1\<rparr>, dev_seen := dev_seen st + 1\<rparr>)"

definition obeys :: "(virtio_st \<Rightarrow> virtio_st option) \<Rightarrow> bool" where
  "obeys dev \<longleftrightarrow> (\<forall>st. pending st \<longrightarrow> dev st = Some (complete st))"

text \<open>
  A queue ready for a request. The driver stores the descriptor index one place after the one the device
  reads, which works because every entry of the ring is 0.
\<close>

definition queue_ok :: "virtio_st \<Rightarrow> bool" where
  "queue_ok st \<longleftrightarrow> length (descs st) = VIRTIO_QUEUE_SIZE \<and> av_ring (avail st) = replicate VIRTIO_QUEUE_SIZE 0 \<and>
     dev_seen st = av_idx (avail st) \<and> QueueReady (windows st (virtio_blk_regs st)) = 1"

definition disk_read :: "(u64 \<Rightarrow> u8 list) \<Rightarrow> u64 \<Rightarrow> u8 list" where
  "disk_read d sector = d (ucast (ucast sector :: u32))"

definition disk_write :: "(u64 \<Rightarrow> u8 list) \<Rightarrow> u64 \<Rightarrow> u8 list \<Rightarrow> u64 \<Rightarrow> u8 list" where
  "disk_write d sector bs = d(ucast (ucast sector :: u32) := bs)"

lemma regs_simps [simp]:
  "virtio_blk_regs (set_regs f st) = virtio_blk_regs st" "descs (set_regs f st) = descs st" "avail (set_regs f st) = avail st"
  "used (set_regs f st) = used st" "virtio_blk_req (set_regs f st) = virtio_blk_req st" "disk (set_regs f st) = disk st"
  "memory (set_regs f st) = memory st" "dev_seen (set_regs f st) = dev_seen st" "req_at (set_regs f st) = req_at st"
  "status_at (set_regs f st) = status_at st"
  "windows (set_regs f st) = (windows st)(virtio_blk_regs st := f (windows st (virtio_blk_regs st)))"
  by (simp_all add: set_regs_def)

lemma cmd_pending:
  fixes sector :: u32 and buf :: u64
  assumes q: "queue_ok st" and ty: "type = VIRTIO_BLK_T_IN \<or> type = VIRTIO_BLK_T_OUT"
  defines "st' \<equiv> virtio_blk_cmd type sector buf st"
  shows "pending st'" "d_addr (fst (snd (chain_of st'))) = virt_to_phys buf" "virtio_blk_req st' = \<lparr>rq_type = type, rq_sector = ucast sector\<rparr>"
    "used st' = used st" "disk st' = disk st" "memory st' = memory st" "dev_seen st' = dev_seen st"
    "length (descs st') = VIRTIO_QUEUE_SIZE" "av_ring (avail st') = replicate VIRTIO_QUEUE_SIZE 0" "av_idx (avail st') = dev_seen st + 1"
    "QueueReady (windows st' (virtio_blk_regs st')) = 1"
proof -
  have l: "length (descs st) = 16" "av_ring (avail st) = replicate 16 0" "dev_seen st = av_idx (avail st)"
    "QueueReady (windows st (virtio_blk_regs st)) = 1" using q by (simp_all add: queue_ok_def kdefs)
  have r: "(replicate 16 (0 :: u16))[k := 0] = replicate 16 0" for k
    by (metis (full_types) length_replicate list_update_beyond list_update_id linorder_not_less nth_replicate)
  have m: "unat (x :: u16) mod 16 < 16" for x by simp
  have ch: "chain_of st' = (\<lparr>d_addr = virt_to_phys (req_at st), d_len = 16, d_flags = VIRTQ_DESC_F_NEXT, d_next = 1\<rparr>,
      \<lparr>d_addr = virt_to_phys buf, d_len = of_nat VIRTIO_BLK_SECTOR_SIZE,
        d_flags = (if type = VIRTIO_BLK_T_IN then VIRTQ_DESC_F_WRITE OR VIRTQ_DESC_F_NEXT else VIRTQ_DESC_F_NEXT), d_next = 2\<rparr>,
      (descs st ! 2)\<lparr>d_addr := virt_to_phys (status_at st), d_len := 1, d_flags := VIRTQ_DESC_F_WRITE\<rparr>)"
    using l m by (simp add: st'_def virtio_blk_cmd_def chain_of_def Let_def or_status_def r VIRTIO_QUEUE_SIZE_def)
  show "d_addr (fst (snd (chain_of st'))) = virt_to_phys buf" by (simp add: ch)
  show "virtio_blk_req st' = \<lparr>rq_type = type, rq_sector = ucast sector\<rparr>" "used st' = used st" "disk st' = disk st"
    "memory st' = memory st" "dev_seen st' = dev_seen st" "length (descs st') = VIRTIO_QUEUE_SIZE"
    "av_ring (avail st') = replicate VIRTIO_QUEUE_SIZE 0" "av_idx (avail st') = dev_seen st + 1"
    "QueueReady (windows st' (virtio_blk_regs st')) = 1"
    using l by (simp_all add: st'_def virtio_blk_cmd_def Let_def or_status_def r VIRTIO_QUEUE_SIZE_def)
  have "Status (windows st' (virtio_blk_regs st')) AND DEVICE_DRIVER_OK \<noteq> 0"
  proof -
    have "Status (windows st' (virtio_blk_regs st')) = Status (windows st (virtio_blk_regs st)) OR DEVICE_DRIVER_OK"
      by (simp add: st'_def virtio_blk_cmd_def Let_def or_status_def)
    moreover have "(x OR DEVICE_DRIVER_OK) AND DEVICE_DRIVER_OK = DEVICE_DRIVER_OK" for x :: u32
      by (simp add: bit_eq_iff bit_simps)
    ultimately show ?thesis by (simp add: kdefs)
  qed
  moreover have "req_at st' = req_at st" "status_at st' = status_at st"
    by (simp_all add: st'_def virtio_blk_cmd_def Let_def or_status_def)
  ultimately show "pending st'" using ty \<open>virtio_blk_req st' = _\<close> \<open>av_idx (avail st') = _\<close> \<open>dev_seen st' = _\<close> \<open>QueueReady (windows st' (virtio_blk_regs st')) = 1\<close>
    by (auto simp: pending_def ch VIRTIO_BLK_SECTOR_SIZE_def)
qed

lemma cmd_done:
  assumes q: "queue_ok st" and ty: "type = VIRTIO_BLK_T_IN \<or> type = VIRTIO_BLK_T_OUT" and d: "obeys dev"
  shows "\<exists>st'. wait_used dev (us_idx (used st)) (virtio_blk_cmd type sector buf st) = Some st' \<and> queue_ok st' \<and>
     memory st' = (if type = VIRTIO_BLK_T_IN then store_bytes buf (disk st (ucast sector)) (memory st) else memory st) \<and>
     disk st' = (if type = VIRTIO_BLK_T_IN then disk st else (disk st)(ucast sector := load_bytes buf VIRTIO_BLK_SECTOR_SIZE (memory st)))"
proof -
  define st1 where "st1 = virtio_blk_cmd type sector buf st"
  note C = cmd_pending [OF q ty, of sector buf, folded st1_def]
  have dev: "dev st1 = Some (complete st1)" using d C(1) by (simp add: obeys_def)
  have us: "us_idx (used (complete st1)) = us_idx (used st) + 1" by (simp add: complete_def Let_def C(4))
  have "wait_used dev (us_idx (used st)) st1 = wait_used dev (us_idx (used st)) (complete st1)"
    using dev C(4) by (subst wait_used.simps) simp
  also have "\<dots> = Some (complete st1)" using us by (subst wait_used.simps) simp
  finally have run: "wait_used dev (us_idx (used st)) st1 = Some (complete st1)" .
  have "queue_ok (complete st1)" using C(7-11) by (auto simp: queue_ok_def complete_def Let_def)
  then show ?thesis using run C(2,3,5,6) ty
    by (intro exI [of _ "complete st1"]) (auto simp: st1_def [symmetric] complete_def Let_def virt_to_phys_def)
qed

text \<open>
  C20. With a device that obeys the specification and a ready queue, \<open>virtio_blk_read_sector\<close> returns (the
  wait loop ends) with exactly the sector in the buffer, \<open>virtio_blk_write_sector\<close> with exactly the buffer
  in the sector, nothing else changed, and the queue ready again. The sector number is cut to 32
  bits on the way to the request.
\<close>

theorem sector_transfer:
  assumes "obeys dev" and "queue_ok st"
  shows "(\<exists>st'. virtio_blk_read_sector dev sector buf st = Some st' \<and> queue_ok st' \<and> disk st' = disk st \<and>
       memory st' = store_bytes buf (disk_read (disk st) sector) (memory st)) \<and>
     (\<exists>st'. virtio_blk_write_sector dev sector buf st = Some st' \<and> queue_ok st' \<and> memory st' = memory st \<and>
       disk st' = disk_write (disk st) sector (load_bytes buf VIRTIO_BLK_SECTOR_SIZE (memory st)))"
  using cmd_done [OF assms(2) disjI1 [OF refl] assms(1), of "ucast sector" buf]
    cmd_done [OF assms(2) disjI2 [OF refl] assms(1), of "ucast sector" buf]
  by (auto simp add: virtio_blk_read_sector_def virtio_blk_write_sector_def disk_read_def disk_write_def VIRTIO_BLK_T_IN_def VIRTIO_BLK_T_OUT_def)

definition demo_device :: "virtio_st \<Rightarrow> virtio_st option" where
  "demo_device st = (if pending st then Some (complete st) else None)"

definition demo_regs :: virtio_regs where
  "demo_regs = \<lparr>MagicValue = 0x74726976, Version = 2, DeviceID = 2, VendorID = 0, DeviceFeatures = 0, DeviceFeaturesSel = 0,
     DriverFeatures = 0, DriverFeaturesSel = 0, QueueSel = 0, QueueNumMax = 16, QueueNum = 16, QueueReady = 1, QueueNotify = 0,
     InterruptStatus = 0, InterruptACK = 0, Status = 11, QueueDescLow = 0, QueueDescHigh = 0, QueueAvailLow = 0,
     QueueAvailHigh = 0, QueueUsedLow = 0, QueueUsedHigh = 0, ConfigGeneration = 0\<rparr>"

definition demo_virtio :: virtio_st where
  "demo_virtio = \<lparr>virtio_blk_regs = 0xffffffc810001000, windows = (\<lambda>_. demo_regs),
     virtio_blk_ring = \<lparr>vr_num = 16, vr_desc = 0xffffffe000100000, vr_avail = 0xffffffe000101000, vr_used = 0xffffffe000102000\<rparr>,
     descs = replicate 16 \<lparr>d_addr = 0, d_len = 0, d_flags = 0, d_next = 0\<rparr>,
     avail = \<lparr>av_flags = 1, av_idx = 7, av_ring = replicate 16 0\<rparr>, used = \<lparr>us_flags = 0, us_idx = 7, us_ring = []\<rparr>,
     virtio_blk_req = \<lparr>rq_type = 0, rq_sector = 0\<rparr>, virtio_blk_status = 0, req_at = 0xffffffe000200000, status_at = 0xffffffe000200020,
     memory = (\<lambda>_. 0), page_alloc = \<lparr>bitmap = [], ref_cnt = [], bsize = 0\<rparr>, disk = (\<lambda>s. [ucast s, 1, 2]), dev_seen = 7\<rparr>"

theorem sector_transfer_witness:
  "\<exists>st'. virtio_blk_read_sector demo_device 0x100000005 0xffffffe000300000 demo_virtio = Some st' \<and>
     memory st' 0xffffffe000300000 = 5"
proof -
  have "obeys demo_device" by (simp add: obeys_def demo_device_def)
  moreover have "queue_ok demo_virtio" by code_simp
  moreover have "store_bytes 0xffffffe000300000 (disk_read (disk demo_virtio) 0x100000005) (memory demo_virtio) 0xffffffe000300000 = 5"
    by code_simp
  ultimately show ?thesis
    using sector_transfer [of demo_device demo_virtio "0x100000005" "0xffffffe000300000"] by auto
qed

end
