(* ===== verification/Fs.thy ===== *)
theory Fs
  imports Virtio
begin

unbundle bit_operations_syntax

text \<open>
  The structures of \<open>fs.h\<close>, \<open>fat32.h\<close>, \<open>mbr.h\<close> and \<open>sys_dirent.h\<close>, and their layout in a sector: little-endian
  fields at fixed offsets. A function pointer is the name of the function; the null pointer is \<open>None\<close>.
\<close>

subsection \<open>Reading fields out of bytes\<close>

definition le16 :: "u8 list \<Rightarrow> nat \<Rightarrow> u16 option" where
  "le16 bs i = do { a \<leftarrow> rd bs i; b \<leftarrow> rd bs (i + 1); Some (ucast a OR push_bit 8 (ucast b)) }"

definition le32 :: "u8 list \<Rightarrow> nat \<Rightarrow> u32 option" where
  "le32 bs i =
     do { a \<leftarrow> rd bs i; b \<leftarrow> rd bs (i + 1); c \<leftarrow> rd bs (i + 2); d \<leftarrow> rd bs (i + 3);
          Some (ucast a OR push_bit 8 (ucast b) OR push_bit 16 (ucast c) OR push_bit 24 (ucast d)) }"

definition field :: "u8 list \<Rightarrow> nat \<Rightarrow> nat \<Rightarrow> u8 list option" where
  "field bs i n = (if i + n \<le> length bs then Some (take n (drop i bs)) else None)"

subsection \<open>fs.h\<close>

definition MAX_PATH_LENGTH :: nat where "MAX_PATH_LENGTH = 80"
definition MAX_FILE_NUMBER :: nat where "MAX_FILE_NUMBER = 16"
definition SEEK_SET :: u64 where "SEEK_SET = 0"
definition SEEK_CUR :: u64 where "SEEK_CUR = 1"
definition SEEK_END :: u64 where "SEEK_END = 2"
definition ERROR_FILE_NOT_OPEN :: int where "ERROR_FILE_NOT_OPEN = 255"
definition FILE_READABLE :: u32 where "FILE_READABLE = 1"
definition FILE_WRITABLE :: u32 where "FILE_WRITABLE = 2"
definition FS_TYPE_FAT32 :: u32 where "FS_TYPE_FAT32 = 1"
definition FS_TYPE_EXT2 :: u32 where "FS_TYPE_EXT2 = 2"

record fat32_dir =
  dir_cluster :: u32
  dir_index :: u32

record fat32_file =
  f_cluster :: u32
  f_dir :: fat32_dir

datatype file_fun = Fat32_lseek | Fat32_write | Fat32_read | Fat32_read_dir | Stdin_read | Stdout_write | Stderr_write

record file_t =
  opened :: u32
  perms :: u32
  cfo :: u64
  fs_type :: u32
  f_flags :: u32
  fat32_file :: fat32_file
  lseek_fn :: "file_fun option"
  write_fn :: "file_fun option"
  read_fn :: "file_fun option"
  f_path :: "u8 list"

type_synonym files_struct = "file_t list"

subsection \<open>fat32.h\<close>

record fat32_bpb =
  jmp_boot :: "u8 list"
  oem_name :: "u8 list"
  bytes_per_sec :: u16
  sec_per_clus :: u8
  rsvd_sec_cnt :: u16
  num_fats :: u8
  root_ent_cnt :: u16
  tot_sec16 :: u16
  media :: u8
  fat_sz16 :: u16
  sec_per_trk :: u16
  num_heads :: u16
  hidd_sec :: u32
  tot_sec32 :: u32
  fat_sz32 :: u32
  ext_flags :: u16
  fs_ver :: u16
  root_clus :: u32
  fs_info :: u16
  bk_boot_sec :: u16
  drv_num :: u8
  boot_sig :: u8
  vol_id :: u32
  vol_lab :: "u8 list"
  fil_sys_type :: "u8 list"
  boot_sector_signature :: u16

definition read_bpb :: "u8 list \<Rightarrow> fat32_bpb option" where
  "read_bpb bs =
     do { jmp \<leftarrow> field bs 0 3; oem \<leftarrow> field bs 3 8; bps \<leftarrow> le16 bs 11; spc \<leftarrow> rd bs 13; rsvd \<leftarrow> le16 bs 14; nf \<leftarrow> rd bs 16;
          rent \<leftarrow> le16 bs 17; ts16 \<leftarrow> le16 bs 19; med \<leftarrow> rd bs 21; fs16 \<leftarrow> le16 bs 22; spt \<leftarrow> le16 bs 24; nh \<leftarrow> le16 bs 26;
          hid \<leftarrow> le32 bs 28; ts32 \<leftarrow> le32 bs 32; fs32 \<leftarrow> le32 bs 36; ext \<leftarrow> le16 bs 40; ver \<leftarrow> le16 bs 42; root \<leftarrow> le32 bs 44;
          info \<leftarrow> le16 bs 48; bk \<leftarrow> le16 bs 50; drv \<leftarrow> rd bs 64; sig \<leftarrow> rd bs 66; vid \<leftarrow> le32 bs 67; lab \<leftarrow> field bs 71 11;
          ty \<leftarrow> field bs 82 8; bss \<leftarrow> le16 bs 510;
          Some \<lparr>jmp_boot = jmp, oem_name = oem, bytes_per_sec = bps, sec_per_clus = spc, rsvd_sec_cnt = rsvd, num_fats = nf,
                root_ent_cnt = rent, tot_sec16 = ts16, media = med, fat_sz16 = fs16, sec_per_trk = spt, num_heads = nh,
                hidd_sec = hid, tot_sec32 = ts32, fat_sz32 = fs32, ext_flags = ext, fs_ver = ver, root_clus = root,
                fs_info = info, bk_boot_sec = bk, drv_num = drv, boot_sig = sig, vol_id = vid, vol_lab = lab,
                fil_sys_type = ty, boot_sector_signature = bss\<rparr> }"

record fat32_volume =
  first_data_sec :: u64
  first_fat_sec :: u64
  sec_per_cluster :: u64
  fat_sz :: u64

record fat32_dir_entry =
  e_name :: "u8 list"
  e_ext :: "u8 list"
  e_attr :: u8
  e_lcase :: u8
  e_ctime_cs :: u8
  e_ctime :: u16
  e_cdate :: u16
  e_adate :: u16
  e_starthi :: u16
  e_time :: u16
  e_date :: u16
  e_startlow :: u16
  e_size :: u32

text \<open>The entry at a byte offset of a sector.\<close>

definition read_entry :: "u8 list \<Rightarrow> nat \<Rightarrow> fat32_dir_entry option" where
  "read_entry bs o' =
     do { n \<leftarrow> field bs o' 8; e \<leftarrow> field bs (o' + 8) 3; a \<leftarrow> rd bs (o' + 11); lc \<leftarrow> rd bs (o' + 12); cs \<leftarrow> rd bs (o' + 13);
          ct \<leftarrow> le16 bs (o' + 14); cd \<leftarrow> le16 bs (o' + 16); ad \<leftarrow> le16 bs (o' + 18); hi \<leftarrow> le16 bs (o' + 20);
          t \<leftarrow> le16 bs (o' + 22); d \<leftarrow> le16 bs (o' + 24); lo \<leftarrow> le16 bs (o' + 26); sz \<leftarrow> le32 bs (o' + 28);
          Some \<lparr>e_name = n, e_ext = e, e_attr = a, e_lcase = lc, e_ctime_cs = cs, e_ctime = ct, e_cdate = cd, e_adate = ad,
                e_starthi = hi, e_time = t, e_date = d, e_startlow = lo, e_size = sz\<rparr> }"

definition FAT32_ENTRY_PER_SECTOR :: nat where "FAT32_ENTRY_PER_SECTOR = VIRTIO_BLK_SECTOR_SIZE div 32"
definition INVALID_CLUSTER :: u32 where "INVALID_CLUSTER = 0x0ffffff8"

subsection \<open>sys_dirent.h\<close>

definition DT_DIR :: u8 where "DT_DIR = 4"
definition DT_REG :: u8 where "DT_REG = 8"

record dirent =
  d_ino :: u64
  d_off :: u64
  d_reclen :: u16
  d_type :: u8
  d_name :: "u8 list"

definition sizeof_dirent :: nat where "sizeof_dirent = 32"

subsection \<open>mbr.h\<close>

record partition_entry =
  pe_status :: u8
  pe_type :: u8
  lba_first_sector :: u32
  sector_count :: u32

definition read_partition :: "u8 list \<Rightarrow> nat \<Rightarrow> partition_entry option" where
  "read_partition mbr i =
     do { s \<leftarrow> rd mbr (446 + 16 * i); t \<leftarrow> rd mbr (446 + 16 * i + 4); l \<leftarrow> le32 mbr (446 + 16 * i + 8);
          n \<leftarrow> le32 mbr (446 + 16 * i + 12);
          Some \<lparr>pe_status = s, pe_type = t, lba_first_sector = l, sector_count = n\<rparr> }"

end
