(* ===== verification/Fat32.thy ===== *)
theory Fat32
  imports Fs
begin

unbundle bit_operations_syntax

text \<open>
  The FAT32 driver \<open>fs/fat32.c\<close> and the partition scan \<open>fs/mbr.c\<close>. The state holds the two global structures and the two
  sector buffers of \<open>fat32.c\<close>, the buffer of \<open>mbr.c\<close>, and the disk. Sectors move by \<open>disk_read\<close> and \<open>disk_write\<close>, which
  \<open>Virtio.sector_transfer\<close> proves of the block driver. A path is the bytes from its pointer on, a local
  array is a list of its length, and an access past an end is \<open>None\<close>. Messages are left out.
\<close>

record fat_st =
  fat32_header :: fat32_bpb
  fat32_volume :: fat32_volume
  fat32_buf :: "u8 list"
  fat32_table_buf :: "u8 list"
  mbr_buf :: "u8 list"
  fat_disk :: "u64 \<Rightarrow> u8 list"

subsection \<open>Clusters and the table\<close>

definition cluster_to_sector :: "fat32_volume \<Rightarrow> u64 \<Rightarrow> u64" where
  "cluster_to_sector v cluster = (cluster - 2) * sec_per_cluster v + first_data_sec v"

definition sector_to_cluster :: "fat32_volume \<Rightarrow> u64 \<Rightarrow> u64 option" where
  "sector_to_cluster v sector =
     (if sec_per_cluster v = 0 then None else Some ((sector - first_data_sec v) div sec_per_cluster v + 2))"

definition next_cluster :: "u64 \<Rightarrow> fat_st \<Rightarrow> (u32 \<times> fat_st) option" where
  "next_cluster cluster st =
     (let fat_offset = cluster * 4;
          fat_sector = first_fat_sec (fat32_volume st) + fat_offset div of_nat VIRTIO_BLK_SECTOR_SIZE;
          st = st\<lparr>fat32_table_buf := disk_read (fat_disk st) fat_sector\<rparr>;
          index_in_sector = unat (fat_offset mod of_nat (VIRTIO_BLK_SECTOR_SIZE div 4))
      in do { n \<leftarrow> le32 (fat32_table_buf st) index_in_sector; Some (n, st) })"

definition fat32_table_sector_of_cluster :: "fat32_volume \<Rightarrow> u32 \<Rightarrow> u64" where
  "fat32_table_sector_of_cluster v cluster = first_fat_sec v + ucast cluster div of_nat (VIRTIO_BLK_SECTOR_SIZE div 4)"

subsection \<open>Mounting\<close>

definition fat32_init :: "u64 \<Rightarrow> fat_st \<Rightarrow> fat_st option" where
  "fat32_init lba st =
     do { h \<leftarrow> read_bpb (disk_read (fat_disk st) lba);
          (let fat = lba + ucast (rsvd_sec_cnt h);
               v = \<lparr>first_data_sec = fat + ucast (ucast (num_fats h) * fat_sz32 h), first_fat_sec = fat,
                    sec_per_cluster = ucast (sec_per_clus h), fat_sz = ucast (fat_sz32 h)\<rparr>
           in Some (st\<lparr>fat32_header := h, fat32_volume := v, fat32_buf := disk_read (fat_disk st) fat\<rparr>)) }"

definition is_fat32 :: "u64 \<Rightarrow> fat_st \<Rightarrow> (bool \<times> fat_st) option" where
  "is_fat32 lba st =
     do { h \<leftarrow> read_bpb (disk_read (fat_disk st) lba);
          (let st = st\<lparr>fat32_header := h\<rparr>
           in if boot_sector_signature h \<noteq> 0xaa55 then Some (False, st) else Some (True, st)) }"

definition partition_init :: "u64 \<Rightarrow> fat_st \<Rightarrow> fat_st option" where
  "partition_init start_lba st =
     do { (b, st) \<leftarrow> is_fat32 start_lba st; if b then fat32_init start_lba st else Some st }"

definition mbr_init :: "fat_st \<Rightarrow> fat_st option" where
  "mbr_init st =
     for_range 0 4 (\<lambda>i st. do { p \<leftarrow> read_partition (mbr_buf st) i;
                               if pe_type p = 0x83 then partition_init (ucast (lba_first_sector p)) st else Some st })
       (st\<lparr>mbr_buf := disk_read (fat_disk st) 0\<rparr>)"

subsection \<open>Paths\<close>

fun slash_from :: "u8 list \<Rightarrow> nat \<Rightarrow> int option" where
  "slash_from [] i = None"
| "slash_from (c # cs) i =
     (if c \<noteq> 0 \<and> c \<noteq> 0x2f then slash_from cs (Suc i) else if c = 0 then Some (- 1) else Some (int i))"

definition next_slash :: "u8 list \<Rightarrow> int option" where
  "next_slash p = slash_from p 0"

fun to_upper_case :: "u8 list \<Rightarrow> u8 list option" where
  "to_upper_case [] = None"
| "to_upper_case (c # cs) =
     (if c = 0 then Some (c # cs)
      else map_option (Cons (if 97 \<le> c \<and> c \<le> 122 then c - 32 else c)) (to_upper_case cs))"

text \<open>\<open>strcpy\<close>, \<open>strncpy\<close> and \<open>strlen\<close> of \<open>string.c\<close> on an array of bounded length.\<close>

fun str_copy :: "nat \<Rightarrow> u8 list \<Rightarrow> u8 list \<Rightarrow> u8 list option" where
  "str_copy i [] dst = None"
| "str_copy i (c # cs) dst = do { dst \<leftarrow> wr dst i c; if c \<noteq> 0 then str_copy (Suc i) cs dst else Some dst }"

fun strn_copy :: "nat \<Rightarrow> nat \<Rightarrow> u8 list \<Rightarrow> u8 list \<Rightarrow> u8 list option" where
  "strn_copy n i [] dst = None"
| "strn_copy n i (c # cs) dst = do { dst \<leftarrow> wr dst i c; if c \<noteq> 0 \<and> i < n then strn_copy n (Suc i) cs dst else Some dst }"

fun str_len :: "u8 list \<Rightarrow> nat option" where
  "str_len [] = None"
| "str_len (c # cs) = (if c \<noteq> 0 then map_option Suc (str_len cs) else Some 0)"

definition parse_dirname :: "u8 list \<Rightarrow> int \<Rightarrow> (bool \<times> int \<times> u8 list) option" where
  "parse_dirname pathname index =
     (if index < 0 then None else
      do { c \<leftarrow> rd pathname (nat index);
           (let ind = (if c = 0x2f then index + 1 else index); p = drop (nat ind) pathname
            in do { next_slash_index \<leftarrow> next_slash p;
                    if next_slash_index = - 1 then
                      do { dirname \<leftarrow> str_copy 0 p (replicate 12 0); n \<leftarrow> str_len dirname;
                           dirname \<leftarrow> to_upper_case dirname; Some (True, index + int n, dirname) }
                    else (let len = next_slash_index - ind
                          in do { dirname \<leftarrow> strn_copy (unat (word_of_int len :: u64)) 0 p (replicate 12 0);
                                  dirname \<leftarrow> (if len < 0 then None else wr dirname (nat len) 0);
                                  dirname \<leftarrow> to_upper_case dirname;
                                  c \<leftarrow> rd pathname (nat (next_slash_index + 1));
                                  Some (c = 0, index + len + 1, dirname) }) }) })"

subsection \<open>Directories\<close>

text \<open>
  The result of the loop over the entries of one sector: the end mark of the directory, an entry with the
  name (its first cluster and its index), or neither. The three directory walks of the driver share the loop and
  differ in the attributes they skip.
\<close>

datatype scan = Missing | Found u32 nat | Exhausted

definition entry_cluster :: "fat32_dir_entry \<Rightarrow> u32" where
  "entry_cluster e = ucast (e_startlow e) OR push_bit 16 (ucast (e_starthi e))"

definition blank_to_nul :: "u8 list \<Rightarrow> u8 list" where
  "blank_to_nul = map (\<lambda>c. if c = 0x20 then 0 else c)"

fun scan_entries :: "(u8 \<Rightarrow> bool) \<Rightarrow> u8 list \<Rightarrow> u8 list \<Rightarrow> nat list \<Rightarrow> scan option" where
  "scan_entries skip name buf [] = Some Exhausted"
| "scan_entries skip name buf (i # is) =
     do { e \<leftarrow> read_entry buf (32 * i); c \<leftarrow> rd (e_name e) 0;
          if c = 0 then Some Missing
          else if c = 0xe5 then scan_entries skip name buf is
          else if skip (e_attr e) then scan_entries skip name buf is
          else if blank_to_nul (e_name e) = take 8 name then Some (Found (entry_cluster e) i)
          else scan_entries skip name buf is }"

definition read_fat_buf :: "u64 \<Rightarrow> fat_st \<Rightarrow> fat_st" where
  "read_fat_buf sector st = st\<lparr>fat32_buf := disk_read (fat_disk st) sector\<rparr>"

partial_function (option) scan_chain ::
  "(u8 \<Rightarrow> bool) \<Rightarrow> u8 list \<Rightarrow> u32 \<Rightarrow> fat_st \<Rightarrow> (scan \<times> u32 \<times> fat_st) option" where
  "scan_chain skip name cluster st =
     (if cluster = INVALID_CLUSTER then Some (Exhausted, cluster, st)
      else let st = read_fat_buf (cluster_to_sector (fat32_volume st) (ucast cluster)) st
      in case scan_entries skip name (fat32_buf st) [0 ..< FAT32_ENTRY_PER_SECTOR] of
           None \<Rightarrow> None
         | Some Exhausted \<Rightarrow> Option.bind (next_cluster (ucast cluster) st) (\<lambda>(c, st). scan_chain skip name c st)
         | Some r \<Rightarrow> Some (r, cluster, st))"

declare scan_chain.simps [code]

definition skip_non_dir :: "u8 \<Rightarrow> bool" where "skip_non_dir attr \<longleftrightarrow> attr AND 0x10 = 0"
definition skip_non_file :: "u8 \<Rightarrow> bool" where "skip_non_file attr \<longleftrightarrow> attr AND 0x08 \<noteq> 0 \<or> attr AND 0x10 \<noteq> 0"
definition skip_non_subdir :: "u8 \<Rightarrow> bool" where "skip_non_subdir attr \<longleftrightarrow> attr AND 0x08 \<noteq> 0 \<or> attr AND 0x10 = 0"

partial_function (option) open_dir_loop ::
  "u8 list \<Rightarrow> int \<Rightarrow> bool \<Rightarrow> u8 list \<Rightarrow> u32 \<Rightarrow> fat_st \<Rightarrow> (bool \<times> u32 \<times> u8 list \<times> fat_st) option" where
  "open_dir_loop pathname index reach_end dirname cluster st =
     (if reach_end then Some (True, cluster, dirname, st)
      else Option.bind (scan_chain skip_non_dir dirname cluster st) (\<lambda>(r, c, st).
        if r = Missing then Some (False, INVALID_CLUSTER, dirname, st)
        else Option.bind (parse_dirname pathname index) (\<lambda>(reach_end, index, dirname).
          open_dir_loop pathname index reach_end dirname (case r of Found c' i \<Rightarrow> c' | _ \<Rightarrow> c) st)))"

declare open_dir_loop.simps [code]

text \<open>\<open>filename\<close> is the caller's array with its old content; the result holds the new content.\<close>

definition open_dir :: "u8 list \<Rightarrow> u8 list \<Rightarrow> fat_st \<Rightarrow> (fat32_dir \<times> u8 list \<times> fat_st) option" where
  "open_dir pathname filename st =
     do { n \<leftarrow> next_slash (drop 1 pathname);
          (reach_end, index, dirname) \<leftarrow> parse_dirname pathname (1 + n + 1);
          filename \<leftarrow> wr filename 0 0;
          if dirname ! 0 = 0 then Some (\<lparr>dir_cluster = 0, dir_index = - 1\<rparr>, filename, st)
          else do { (ok, cluster, dirname, st) \<leftarrow> open_dir_loop pathname index reach_end dirname (root_clus (fat32_header st)) st;
                    if ok then do { filename \<leftarrow> str_copy 0 dirname filename;
                                    Some (\<lparr>dir_cluster = cluster, dir_index = - 1\<rparr>, filename, st) }
                    else Some (\<lparr>dir_cluster = INVALID_CLUSTER, dir_index = - 1\<rparr>, filename, st) } }"

definition no_file :: fat32_file where
  "no_file = \<lparr>f_cluster = 0, f_dir = \<lparr>dir_cluster = 0, dir_index = 0\<rparr>\<rparr>"

definition found_file :: "scan \<Rightarrow> u32 \<Rightarrow> fat32_file" where
  "found_file r cluster =
     (case r of Found c i \<Rightarrow> \<lparr>f_cluster = c, f_dir = \<lparr>dir_cluster = cluster, dir_index = of_nat i\<rparr>\<rparr> | _ \<Rightarrow> no_file)"

text \<open>\<open>junk\<close> is the content of the uninitialised local array.\<close>

definition fat32_open_file :: "u8 list \<Rightarrow> u8 list \<Rightarrow> fat_st \<Rightarrow> (fat32_file \<times> fat_st) option" where
  "fat32_open_file junk pathname st =
     do { (dir, filename, st) \<leftarrow> open_dir pathname junk st;
          if dir_cluster dir = INVALID_CLUSTER then Some (no_file, st)
          else if dir_cluster dir = 0 then Some (no_file, st)
          else do { (r, cluster, st) \<leftarrow> scan_chain skip_non_file filename (dir_cluster dir) st;
                    Some (found_file r cluster, st) } }"

definition fat32_open_dir :: "u8 list \<Rightarrow> u8 list \<Rightarrow> fat_st \<Rightarrow> (fat32_file \<times> fat_st) option" where
  "fat32_open_dir junk pathname st =
     do { (dir, dirname, st) \<leftarrow> open_dir pathname junk st;
          if dir_cluster dir = INVALID_CLUSTER then Some (no_file, st)
          else if dir_cluster dir = 0 then
            Some (\<lparr>f_cluster = root_clus (fat32_header st), f_dir = \<lparr>dir_cluster = 0, dir_index = - 1\<rparr>\<rparr>, st)
          else do { (r, cluster, st) \<leftarrow> scan_chain skip_non_subdir dirname (dir_cluster dir) st;
                    Some (found_file r cluster, st) } }"

subsection \<open>Files\<close>

definition entry_size :: "u8 list \<Rightarrow> u32 \<Rightarrow> u32 option" where
  "entry_size buf i = map_option e_size (read_entry buf (32 * unat i))"

definition fat32_lseek :: "file_t \<Rightarrow> u64 \<Rightarrow> u64 \<Rightarrow> fat_st \<Rightarrow> (u64 \<times> file_t \<times> fat_st) option" where
  "fat32_lseek fil offset whence st =
     (if whence = SEEK_SET then Some (offset, fil\<lparr>cfo := offset\<rparr>, st)
      else if whence = SEEK_CUR then Some (cfo fil + offset, fil\<lparr>cfo := cfo fil + offset\<rparr>, st)
      else if whence = SEEK_END then
        (let st = read_fat_buf (cluster_to_sector (fat32_volume st) (ucast (f_cluster (fat32_file fil)))) st
         in do { file_sz \<leftarrow> entry_size (fat32_buf st) (dir_index (f_dir (fat32_file fil)));
                 sz \<leftarrow> entry_size (fat32_buf st) file_sz;
                 Some (ucast sz + offset, fil\<lparr>cfo := ucast sz + offset\<rparr>, st) })
      else None)"

definition cluster_bytes :: "fat_st \<Rightarrow> u64" where
  "cluster_bytes st = sec_per_cluster (fat32_volume st) * of_nat VIRTIO_BLK_SECTOR_SIZE"

text \<open>The loop that walks to the cluster of the offset, the same in the three transfer functions.\<close>

partial_function (option) seek_cluster :: "u32 \<Rightarrow> u64 \<Rightarrow> fat_st \<Rightarrow> (u32 \<times> u64 \<times> fat_st) option" where
  "seek_cluster cluster off st =
     (if off \<ge> cluster_bytes st then
        Option.bind (next_cluster (ucast cluster) st) (\<lambda>(c, st). seek_cluster c (off - cluster_bytes st) st)
      else Some (cluster, off, st))"

declare seek_cluster.simps [code]

text \<open>The step to the next cluster at the end of a turn of the transfer loops.\<close>

definition advance :: "u32 \<Rightarrow> u64 \<Rightarrow> fat_st \<Rightarrow> (u32 \<times> u64 \<times> fat_st) option" where
  "advance cluster off st =
     (if off \<ge> cluster_bytes st then do { (c, st) \<leftarrow> next_cluster (ucast cluster) st; Some (c, off - cluster_bytes st, st) }
      else Some (cluster, off, st))"

definition chunk :: "u64 \<Rightarrow> u64 \<Rightarrow> u64 \<Rightarrow> fat_st \<Rightarrow> u64" where
  "chunk moved len off st =
     (let n = cluster_bytes st - off in if moved + n > len then len - moved else n)"

text \<open>The last argument collects the bytes stored at \<open>buf\<close>.\<close>

partial_function (option) read_loop ::
  "u64 \<Rightarrow> u64 \<Rightarrow> u32 \<Rightarrow> u64 \<Rightarrow> fat_st \<Rightarrow> u8 list \<Rightarrow> (u64 \<times> u8 list \<times> fat_st) option" where
  "read_loop read_len len cluster off st acc =
     (if read_len < len then
        let sector = cluster_to_sector (fat32_volume st) (ucast cluster);
            n = chunk read_len len off st;
            st = read_fat_buf sector st
        in case field (fat32_buf st) (unat off) (unat n) of
             None \<Rightarrow> None
           | Some bs \<Rightarrow> Option.bind (advance cluster (off + n) st) (\<lambda>(c, off', st).
               read_loop (read_len + n) len c off' st (acc @ bs))
      else Some (read_len, acc, st))"

declare read_loop.simps [code]

definition clip_len :: "file_t \<Rightarrow> u64 \<Rightarrow> u32 \<Rightarrow> u64" where
  "clip_len fil len file_sz = (if cfo fil + len > ucast file_sz then ucast file_sz - cfo fil else len)"

definition fat32_read :: "file_t \<Rightarrow> u64 \<Rightarrow> fat_st \<Rightarrow> (u64 \<times> u8 list \<times> file_t \<times> fat_st) option" where
  "fat32_read fil len st =
     (let cluster = f_cluster (fat32_file fil); dir = f_dir (fat32_file fil);
          st = read_fat_buf (cluster_to_sector (fat32_volume st) (ucast (dir_cluster dir))) st
      in do { file_sz \<leftarrow> entry_size (fat32_buf st) (dir_index dir);
              (let len = clip_len fil len file_sz
               in if len \<le> 0 then Some (0, [], fil, st)
                  else do { (cluster, off, st) \<leftarrow> seek_cluster cluster (cfo fil) st;
                            (read_len, acc, st) \<leftarrow> read_loop 0 len cluster off st [];
                            Some (read_len, acc, fil\<lparr>cfo := cfo fil + read_len\<rparr>, st) }) })"

text \<open>
  The loop over the directory entries in the buffer: \<open>Inl\<close> when the end mark is met at entry \<open>i\<close>. The records
  are those stored at \<open>buf\<close>, in order.
\<close>

definition dirent_of :: "u8 list \<Rightarrow> u8 \<Rightarrow> nat \<Rightarrow> dirent" where
  "dirent_of name attr cnt =
     \<lparr>d_ino = 0, d_off = of_nat ((cnt + 1) * sizeof_dirent), d_reclen = of_nat sizeof_dirent,
      d_type = (if attr AND 0x10 \<noteq> 0 then DT_DIR else DT_REG), d_name = name\<rparr>"

fun list_entries :: "u8 list \<Rightarrow> nat \<Rightarrow> nat list \<Rightarrow> dirent list \<Rightarrow> ((nat + unit) \<times> dirent list) option" where
  "list_entries buf base [] acc = Some (Inr (), acc)"
| "list_entries buf base (i # is) acc =
     do { e \<leftarrow> read_entry buf (base + 32 * i); c \<leftarrow> rd (e_name e) 0;
          if c = 0 then Some (Inl i, acc)
          else if c = 0xe5 then list_entries buf base is acc
          else if e_attr e AND 0x08 \<noteq> 0 then list_entries buf base is acc
          else list_entries buf base is (acc @ [dirent_of (e_name e @ e_ext e @ [e_attr e]) (e_attr e) (length acc)]) }"

partial_function (option) read_dir_loop ::
  "u64 \<Rightarrow> u64 \<Rightarrow> u32 \<Rightarrow> u64 \<Rightarrow> fat_st \<Rightarrow> dirent list \<Rightarrow> (u64 \<times> dirent list \<times> fat_st) option" where
  "read_dir_loop read_len len cluster off st acc =
     (if read_len < len then
        let sector = cluster_to_sector (fat32_volume st) (ucast cluster);
            n = chunk read_len len off st;
            st = read_fat_buf sector st
        in case list_entries (fat32_buf st) (unat off) [0 ..< unat n div 32] acc of
             None \<Rightarrow> None
           | Some (Inl i, acc) \<Rightarrow> Some (read_len + 32 * of_nat i, acc, st)
           | Some (Inr u, acc) \<Rightarrow> Option.bind (advance cluster (off + n) st) (\<lambda>(c, off', st).
               read_dir_loop (read_len + n) len c off' st acc)
      else Some (read_len, acc, st))"

declare read_dir_loop.simps [code]

definition fat32_read_dir :: "file_t \<Rightarrow> u64 \<Rightarrow> fat_st \<Rightarrow> (u64 \<times> dirent list \<times> file_t \<times> fat_st) option" where
  "fat32_read_dir fil len st =
     (let cluster = f_cluster (fat32_file fil); dir = f_dir (fat32_file fil)
      in do { (file_sz, st) \<leftarrow>
                (if dir_cluster dir = 0 then Some (512, st)
                 else let st = read_fat_buf (cluster_to_sector (fat32_volume st) (ucast (dir_cluster dir))) st
                      in map_option (\<lambda>sz. (sz, st)) (entry_size (fat32_buf st) (dir_index dir)));
              (let len = clip_len fil len file_sz
               in if len \<le> 0 then Some (0, [], fil, st)
                  else do { (cluster, off, st) \<leftarrow> seek_cluster cluster (cfo fil) st;
                            (read_len, acc, st) \<leftarrow> read_dir_loop 0 len cluster off st [];
                            Some (of_nat (length acc * sizeof_dirent), acc, fil\<lparr>cfo := cfo fil + read_len\<rparr>, st) }) })"

definition splice :: "u8 list \<Rightarrow> nat \<Rightarrow> u8 list \<Rightarrow> u8 list" where
  "splice xs i bs = take i xs @ bs @ drop (i + length bs) xs"

partial_function (option) write_loop ::
  "u8 list \<Rightarrow> u64 \<Rightarrow> u64 \<Rightarrow> u32 \<Rightarrow> u64 \<Rightarrow> fat_st \<Rightarrow> (u64 \<times> fat_st) option" where
  "write_loop buf write_len len cluster off st =
     (if write_len < len then
        let sector = cluster_to_sector (fat32_volume st) (ucast cluster);
            st = read_fat_buf sector st;
            n = chunk write_len len off st
        in case field buf (unat write_len) (unat n) of
             None \<Rightarrow> None
           | Some bs \<Rightarrow>
               (case field (fat32_buf st) (unat off) (unat n) of
                  None \<Rightarrow> None
                | Some old \<Rightarrow>
                    let new = splice (fat32_buf st) (unat off) bs;
                        st = st\<lparr>fat32_buf := new, fat_disk := disk_write (fat_disk st) sector new\<rparr>
                    in Option.bind (advance cluster (off + n) st) (\<lambda>(c, off', st).
                         write_loop buf (write_len + n) len c off' st))
      else Some (write_len, st))"

declare write_loop.simps [code]

definition set_entry_size :: "u8 list \<Rightarrow> u32 \<Rightarrow> u32 \<Rightarrow> u8 list option" where
  "set_entry_size buf i sz =
     (if 32 * unat i + 32 \<le> length buf then
        Some (splice buf (32 * unat i + 28)
                [ucast sz, ucast (drop_bit 8 sz), ucast (drop_bit 16 sz), ucast (drop_bit 24 sz)])
      else None)"

definition fat32_write :: "file_t \<Rightarrow> u8 list \<Rightarrow> u64 \<Rightarrow> fat_st \<Rightarrow> (u64 \<times> file_t \<times> fat_st) option" where
  "fat32_write fil buf len st =
     (let cluster = f_cluster (fat32_file fil); dir = f_dir (fat32_file fil);
          st = read_fat_buf (cluster_to_sector (fat32_volume st) (ucast (dir_cluster dir))) st
      in do { file_sz \<leftarrow> entry_size (fat32_buf st) (dir_index dir);
              if len \<le> 0 then Some (0, fil, st)
              else do { (cluster, off, st) \<leftarrow> seek_cluster cluster (cfo fil) st;
                        (write_len, st) \<leftarrow> write_loop buf 0 len cluster off st;
                        (let fil = fil\<lparr>cfo := cfo fil + write_len\<rparr>
                         in if cfo fil > ucast file_sz then
                              do { b \<leftarrow> set_entry_size (fat32_buf st) (dir_index dir) (ucast (cfo fil));
                                   Some (0, fil, st\<lparr>fat32_buf := b\<rparr>) }
                            else Some (0, fil, st)) } })"

end
