(* ===== verification/Fat32_Props.thy ===== *)
theory Fat32_Props
  imports Fat32
begin

unbundle bit_operations_syntax

text \<open>
  The content of a file as the driver sees it: the clusters \<open>fat_link\<close> leads through, one sector each. The lemmas
  reduce the transfer loops to slices and splices of that content.
\<close>

subsection \<open>Links and content\<close>

definition sector_of :: "fat32_volume \<Rightarrow> u32 \<Rightarrow> u64" where
  "sector_of v c = cluster_to_sector v (ucast c)"

definition fat_link :: "fat32_volume \<Rightarrow> (u64 \<Rightarrow> u8 list) \<Rightarrow> u32 \<Rightarrow> u32" where
  "fat_link v d c = the (le32 (disk_read d (first_fat_sec v + (ucast c * 4) div 512)) (unat ((ucast c * 4 :: u64) mod 128)))"

definition fat_content :: "fat32_volume \<Rightarrow> (u64 \<Rightarrow> u8 list) \<Rightarrow> u32 list \<Rightarrow> u8 list" where
  "fat_content v d cs = concat (map (\<lambda>c. disk_read d (sector_of v c)) cs)"

fun follows :: "(u32 \<Rightarrow> u32) \<Rightarrow> u32 \<Rightarrow> u32 list \<Rightarrow> bool" where
  "follows f c [] = True"
| "follows f c (x # xs) = (c = x \<and> follows f (f c) xs)"

text \<open>A disk of 512-byte sectors and a volume of one sector per cluster.\<close>

definition fat_ok :: "fat_st \<Rightarrow> bool" where
  "fat_ok st \<longleftrightarrow> (\<forall>s. length (fat_disk st s) = VIRTIO_BLK_SECTOR_SIZE) \<and> sec_per_cluster (fat32_volume st) = 1"

definition same_fs :: "fat_st \<Rightarrow> fat_st \<Rightarrow> bool" where
  "same_fs st st' \<longleftrightarrow> fat_disk st' = fat_disk st \<and> fat32_volume st' = fat32_volume st \<and> fat32_header st' = fat32_header st"

lemma same_fs_refl [simp]: "same_fs st st" by (simp add: same_fs_def)
lemma same_fs_trans: "same_fs a b \<Longrightarrow> same_fs b c \<Longrightarrow> same_fs a c" by (simp add: same_fs_def)
lemma same_fs_table [simp]: "same_fs st (st\<lparr>fat32_table_buf := b\<rparr>)" by (simp add: same_fs_def)
lemma same_fs_buf [simp]: "same_fs st (read_fat_buf s st)" by (simp add: same_fs_def read_fat_buf_def)
lemma same_fs_ok: "same_fs st st' \<Longrightarrow> fat_ok st' = fat_ok st" by (simp add: same_fs_def fat_ok_def)

lemma read_fat_buf_simps [simp]:
  "fat_disk (read_fat_buf s st) = fat_disk st" "fat32_volume (read_fat_buf s st) = fat32_volume st"
  "fat32_buf (read_fat_buf s st) = disk_read (fat_disk st) s" "fat32_header (read_fat_buf s st) = fat32_header st"
  by (simp_all add: read_fat_buf_def)

lemma disk_read_length: "fat_ok st \<Longrightarrow> length (disk_read (fat_disk st) s) = 512"
  by (simp add: fat_ok_def disk_read_def VIRTIO_BLK_SECTOR_SIZE_def)

lemma cluster_bytes_ok: "fat_ok st \<Longrightarrow> cluster_bytes st = 512"
  by (simp add: cluster_bytes_def fat_ok_def VIRTIO_BLK_SECTOR_SIZE_def)

lemma le32_in: "i + 3 < length bs \<Longrightarrow> \<exists>v. le32 bs i = Some v"
  by (simp add: le32_def)

lemma next_cluster_ok:
  assumes "fat_ok st"
  shows "next_cluster (ucast c) st =
    Some (fat_link (fat32_volume st) (fat_disk st) c,
          st\<lparr>fat32_table_buf := disk_read (fat_disk st) (first_fat_sec (fat32_volume st) + (ucast c * 4) div 512)\<rparr>)"
proof -
  let ?i = "unat ((ucast c * 4 :: u64) mod 128)"
  have "?i < 128"
  proof -
    have "(ucast c * 4 :: u64) mod 128 < 128" by (rule word_mod_less_divisor) simp
    then show ?thesis by (simp add: word_less_nat_alt)
  qed
  then obtain v where "le32 (disk_read (fat_disk st) (first_fat_sec (fat32_volume st) + (ucast c * 4) div 512)) ?i = Some v"
    using le32_in disk_read_length [OF assms] by fastforce
  then show ?thesis
    by (simp add: next_cluster_def fat_link_def VIRTIO_BLK_SECTOR_SIZE_def Let_def)
qed

lemma next_cluster_same:
  assumes "fat_ok st"
  shows "\<exists>st'. next_cluster (ucast c) st = Some (fat_link (fat32_volume st) (fat_disk st) c, st') \<and> same_fs st st'
    \<and> fat32_buf st' = fat32_buf st"
  using next_cluster_ok [OF assms] by (simp add: same_fs_def)

subsection \<open>Seeking\<close>

lemma seek_cluster_ok:
  assumes "fat_ok st" "follows (fat_link (fat32_volume st) (fat_disk st)) c cs" "unat off div 512 < length cs"
  shows "\<exists>st'. seek_cluster c off st = Some (cs ! (unat off div 512), of_nat (unat off mod 512), st') \<and> same_fs st st'"
  using assms
proof (induction cs arbitrary: c off st)
  case Nil
  then show ?case by simp
next
  case (Cons x xs)
  note cb = cluster_bytes_ok [OF Cons.prems(1)]
  have x: "c = x" using Cons.prems(2) by simp
  show ?case
  proof (cases "off \<ge> 512")
    case True
    then have o: "unat off \<ge> 512" by (simp add: word_le_nat_alt)
    have u: "unat (off - 512) = unat off - 512" using True by (simp add: unat_sub)
    then have dv: "unat off div 512 = Suc (unat (off - 512) div 512)" and md: "unat (off - 512) mod 512 = unat off mod 512"
      using o by (simp_all add: le_div_geq le_mod_geq)
    obtain s1 where s1: "next_cluster (ucast c) st = Some (fat_link (fat32_volume st) (fat_disk st) c, s1)" "same_fs st s1"
      using next_cluster_same [OF Cons.prems(1)] by blast
    have "\<exists>s2. seek_cluster (fat_link (fat32_volume st) (fat_disk st) c) (off - 512) s1
        = Some (xs ! (unat (off - 512) div 512), of_nat (unat (off - 512) mod 512), s2) \<and> same_fs s1 s2"
    proof (rule Cons.IH)
      show "fat_ok s1" using same_fs_ok [OF s1(2)] Cons.prems(1) by simp
      show "follows (fat_link (fat32_volume s1) (fat_disk s1)) (fat_link (fat32_volume st) (fat_disk st) c) xs"
        using Cons.prems(2) s1(2) by (auto simp: same_fs_def)
      show "unat (off - 512) div 512 < length xs" using Cons.prems(3) dv by simp
    qed
    then obtain s2 where s2: "seek_cluster (fat_link (fat32_volume st) (fat_disk st) c) (off - 512) s1
        = Some (xs ! (unat (off - 512) div 512), of_nat (unat (off - 512) mod 512), s2)" "same_fs s1 s2" by blast
    have "seek_cluster c off st = Some (xs ! (unat (off - 512) div 512), of_nat (unat (off - 512) mod 512), s2)"
      by (subst seek_cluster.simps) (use True cluster_bytes_ok [of s1] same_fs_ok [OF s1(2)] Cons.prems(1) in \<open>simp add: cb s1(1) s2(1)\<close>)
    then show ?thesis using dv md same_fs_trans [OF s1(2) s2(2)] by auto
  next
    case False
    then have "unat off < 512" by (simp add: word_le_nat_alt)
    then show ?thesis using False x by (subst seek_cluster.simps) (simp add: cb)
  qed
qed

subsection \<open>The transfer loops\<close>

lemma unat_chunk:
  assumes "fat_ok st" "unat off < 512" "unat moved + m = unat len" "unat len + 512 < 2 ^ 64"
  shows "unat (chunk moved len off st) = min (512 - unat off) m"
proof -
  have n: "unat (512 - off) = 512 - unat off" using assms(2) by (simp add: unat_sub word_le_nat_alt)
  have a: "unat (moved + (512 - off)) = unat moved + (512 - unat off)"
    using assms(2-4) n by (subst unat_add_small) simp_all
  have b: "unat (len - moved) = m" using assms(3) by (subst unat_sub) (simp_all add: word_le_nat_alt)
  show ?thesis
    using a b n assms(3) by (auto simp: chunk_def cluster_bytes_ok [OF assms(1)] Let_def word_less_nat_alt)
qed

lemma content_Cons: "fat_content v d (c # cs) = disk_read d (sector_of v c) @ fat_content v d cs"
  by (simp add: fat_content_def)

lemma advance_stay: "fat_ok st \<Longrightarrow> unat off < 512 \<Longrightarrow> advance c off st = Some (c, off, st)"
  by (simp add: advance_def cluster_bytes_ok word_le_nat_alt)

lemma advance_next:
  assumes "fat_ok st"
  shows "\<exists>st'. advance c 512 st = Some (fat_link (fat32_volume st) (fat_disk st) c, 0, st') \<and> same_fs st st' \<and> fat32_buf st' = fat32_buf st"
proof -
  obtain st' where st': "next_cluster (ucast c) st = Some (fat_link (fat32_volume st) (fat_disk st) c, st')" "same_fs st st'"
    "fat32_buf st' = fat32_buf st" using next_cluster_same [OF assms] by blast
  moreover have "cluster_bytes st' = 512" using same_fs_ok [OF st'(2)] assms by (simp add: cluster_bytes_ok)
  ultimately show ?thesis by (simp add: advance_def cluster_bytes_ok [OF assms])
qed

text \<open>
  One turn of a transfer loop that has \<open>m\<close> bytes left: \<open>n\<close> bytes move; either all are moved and the cluster
  stays, or the cluster is finished and the offset returns to 0.
\<close>

lemma chunk_cases:
  assumes "fat_ok st" "unat off < 512" "unat moved + m = unat len" "unat len + 512 < 2 ^ 64" "0 < m"
  defines "n \<equiv> chunk moved len off st"
  obtains (stay) "unat n = m" "unat off + m < 512" "moved + n = len" "unat (off + n) < 512"
  | (turn) "unat n = 512 - unat off" "512 \<le> unat off + m" "off + n = 512"
      "unat (moved + n) + (m - (512 - unat off)) = unat len"
proof -
  note u = unat_chunk [OF assms(1-4), folded n_def]
  have o: "unat (off + n) = unat off + unat n" using assms(2) u by (subst unat_add_small) auto
  have mv: "unat (moved + n) = unat moved + unat n" using assms(3,4) u by (subst unat_add_small) auto
  show thesis
  proof (cases "unat off + m < 512")
    case True
    then have "unat n = m" using u by simp
    moreover from this have "moved + n = len" using mv assms(3) by (simp add: word_unat_eq_iff)
    ultimately show thesis using True o stay by simp
  next
    case False
    then have "unat n = 512 - unat off" using u by simp
    moreover from this have "off + n = 512" using o assms(2) by (simp add: word_unat_eq_iff)
    ultimately show thesis using False mv assms(3) turn by simp
  qed
qed

lemma read_loop_ok:
  assumes "fat_ok st" "follows (fat_link (fat32_volume st) (fat_disk st)) c cs" "unat off < 512"
    "unat moved + m = unat len" "unat len + 512 < 2 ^ 64" "unat off + m \<le> 512 * length cs"
  shows "\<exists>st'. read_loop moved len c off st acc =
      Some (len, acc @ take m (drop (unat off) (fat_content (fat32_volume st) (fat_disk st) cs)), st') \<and> same_fs st st'"
  using assms
proof (induction cs arbitrary: c off st moved m acc)
  case Nil
  then have "moved = len" "m = 0" by (simp_all add: word_unat_eq_iff)
  then show ?case by (subst read_loop.simps) simp
next
  case (Cons x xs)
  let ?v = "fat32_volume st" and ?d = "fat_disk st"
  let ?S = "disk_read ?d (sector_of ?v c)"
  have x: "x = c" using Cons.prems(2) by simp
  have S: "length ?S = 512" by (rule disk_read_length [OF Cons.prems(1)])
  show ?case
  proof (cases "m = 0")
    case True
    then have "moved = len" using Cons.prems(4) by (simp add: word_unat_eq_iff)
    then show ?thesis using True by (subst read_loop.simps) simp
  next
    case False
    then have m: "0 < m" by simp
    have lt: "moved < len" using m Cons.prems(4) by (simp add: word_less_nat_alt)
    let ?st = "read_fat_buf (sector_of ?v c) st" and ?n = "chunk moved len off st"
    have ok: "fat_ok ?st" using Cons.prems(1) by (simp add: fat_ok_def)
    from Cons.prems(1,3,4,5) m show ?thesis
    proof (cases rule: chunk_cases [where st = st and off = off and moved = moved and m = m and len = len, case_names stay turn])
      case stay
      have "field ?S (unat off) (unat ?n) = Some (take m (drop (unat off) ?S))"
        using stay(1,2) S by (simp add: field_def)
      moreover have "advance c (off + ?n) ?st = Some (c, off + ?n, ?st)" by (rule advance_stay [OF ok stay(4)])
      moreover have "read_loop len len c (off + ?n) ?st (acc @ take m (drop (unat off) ?S))
          = Some (len, acc @ take m (drop (unat off) ?S), ?st)" by (subst read_loop.simps) simp
      ultimately have "read_loop moved len c off st acc = Some (len, acc @ take m (drop (unat off) ?S), ?st)"
        using lt stay(3) by (subst read_loop.simps) (simp add: sector_of_def [symmetric] Let_def)
      then show ?thesis using stay(2) S by (simp add: content_Cons x)
    next
      case turn
      have f: "field ?S (unat off) (unat ?n) = Some (drop (unat off) ?S)"
        using turn(1,2) S Cons.prems(3) by (simp add: field_def)
      obtain s1 where s1: "advance c 512 ?st = Some (fat_link ?v ?d c, 0, s1)" "same_fs ?st s1"
        using advance_next [OF ok, of c] by auto
      have fs: "same_fs st s1" by (rule same_fs_trans [OF same_fs_buf s1(2)])
      then have eq: "fat32_volume s1 = ?v" "fat_disk s1 = ?d" by (simp_all add: same_fs_def)
      have "\<exists>st'. read_loop (moved + ?n) len (fat_link ?v ?d c) 0 s1 (acc @ drop (unat off) ?S) =
        Some (len, (acc @ drop (unat off) ?S) @ take (m - (512 - unat off)) (drop (unat (0 :: u64)) (fat_content (fat32_volume s1) (fat_disk s1) xs)), st')
          \<and> same_fs s1 st'"
      proof (rule Cons.IH)
        show "fat_ok s1" using same_fs_ok [OF fs] Cons.prems(1) by simp
        show "follows (fat_link (fat32_volume s1) (fat_disk s1)) (fat_link ?v ?d c) xs"
          using Cons.prems(2) x by (simp add: eq)
      qed (use turn(4) Cons.prems(5,6) in simp_all)
      then obtain s2 where s2: "read_loop (moved + ?n) len (fat_link ?v ?d c) 0 s1 (acc @ drop (unat off) ?S) =
        Some (len, acc @ drop (unat off) ?S @ take (m - (512 - unat off)) (fat_content ?v ?d xs), s2)" "same_fs s1 s2"
        by (auto simp: eq)
      have "read_loop moved len c off st acc =
        Some (len, acc @ drop (unat off) ?S @ take (m - (512 - unat off)) (fat_content ?v ?d xs), s2)"
        using lt f s1(1) s2(1) turn(3) by (subst read_loop.simps) (simp add: sector_of_def [symmetric] Let_def)
      moreover have "drop (unat off) ?S @ take (m - (512 - unat off)) (fat_content ?v ?d xs)
          = take m (drop (unat off) (fat_content ?v ?d (x # xs)))"
        using S turn(2) Cons.prems(3) by (simp add: content_Cons x)
      ultimately show ?thesis using same_fs_trans [OF fs s2(2)] by auto
    qed
  qed
qed

subsection \<open>Writing\<close>

text \<open>The sectors a request really reaches, the driver truncating the number to 32 bits.\<close>

definition phys :: "u64 \<Rightarrow> u64" where "phys s = ucast (ucast s :: u32)"

definition table_sector :: "fat32_volume \<Rightarrow> u32 \<Rightarrow> u64" where
  "table_sector v c = first_fat_sec v + (ucast c * 4) div 512"

text \<open>The clusters of a file are distinct and none of them holds a part of the table the file needs.\<close>

definition chain_ok :: "fat32_volume \<Rightarrow> u32 list \<Rightarrow> bool" where
  "chain_ok v cs \<longleftrightarrow> distinct cs \<and> (\<forall>c\<in>set cs. \<forall>c'\<in>set cs. phys (table_sector v c') \<noteq> phys (sector_of v c))"

lemma disk_read_phys: "disk_read d s = d (phys s)" by (simp add: disk_read_def phys_def)
lemma disk_write_phys: "disk_write d s bs = d(phys s := bs)" by (simp add: disk_write_def phys_def)

lemma ucast_add_u32: "(ucast ((a :: u64) + b) :: u32) = ucast a + ucast b"
proof (transfer, goal_cases)
  case (1 a b)
  have "take_bit 32 (take_bit 64 (take_bit 64 a + take_bit 64 b)) = take_bit 32 (take_bit 64 a + take_bit 64 b)" by simp
  then show ?case by (simp add: take_bit_add)
qed

lemma ucast_up_down: "(ucast (ucast (x :: u32) :: u64) :: u32) = x"
  by (rule bit_word_eqI) (simp add: bit_simps)

lemma phys_sector_inj:
  assumes "sec_per_cluster v = 1" "phys (sector_of v c) = phys (sector_of v c')"
  shows "c = c'"
proof -
  have e: "(ucast (sector_of v x) :: u32) = x - 2 + ucast (first_data_sec v)" for x
  proof -
    have "(ucast (ucast x :: u64) :: u32) = ucast (ucast x - 2 :: u64) + ucast (2 :: u64)"
      by (simp only: ucast_add_u32 [symmetric] diff_add_cancel)
    moreover have "(ucast (ucast x :: u64) :: u32) = x" by (rule ucast_up_down)
    moreover have "(ucast (2 :: u64) :: u32) = 2" by simp
    ultimately have "(ucast (ucast x - 2 :: u64) :: u32) = x - 2" by (metis add_diff_cancel_right')
    then show ?thesis using assms(1) by (simp only: sector_of_def cluster_to_sector_def ucast_add_u32 mult_1_right)
  qed
  have "(ucast (sector_of v c) :: u32) = ucast (sector_of v c')"
    using assms(2) unfolding phys_def by (metis ucast_up_down)
  then show ?thesis unfolding e by simp
qed

lemma link_upd:
  "phys (table_sector v c) \<noteq> p \<Longrightarrow> fat_link v (d(p := b)) c = fat_link v d c"
  by (simp add: fat_link_def disk_read_phys table_sector_def)

lemma content_upd:
  "(\<And>c. c \<in> set cs \<Longrightarrow> phys (sector_of v c) \<noteq> p) \<Longrightarrow> fat_content v (d(p := b)) cs = fat_content v d cs"
  by (induction cs) (simp_all add: content_Cons disk_read_phys, simp add: fat_content_def)

lemma follows_cong: "follows f c cs \<Longrightarrow> (\<And>x. x \<in> set cs \<Longrightarrow> f x = g x) \<Longrightarrow> follows g c cs"
  by (induction cs arbitrary: c) auto

lemma chain_ok_tl: "chain_ok v (x # xs) \<Longrightarrow> chain_ok v xs"
  by (simp add: chain_ok_def)

lemma splice_length: "i + length bs \<le> length xs \<Longrightarrow> length (splice xs i bs) = length xs"
  by (simp add: splice_def)

lemma content_length: "fat_ok st \<Longrightarrow> length (fat_content v (fat_disk st) cs) = 512 * length cs"
  by (induction cs) (simp_all add: content_Cons disk_read_length, simp add: fat_content_def)

lemma follows_drop: "follows f c cs \<Longrightarrow> k < length cs \<Longrightarrow> follows f (cs ! k) (drop k cs)"
  by (induction cs arbitrary: c k) (auto simp: nth_Cons' drop_Cons' split: nat.splits)

lemma drop_content: "fat_ok st \<Longrightarrow> fat_content v (fat_disk st) (drop k cs) = drop (512 * k) (fat_content v (fat_disk st) cs)"
proof (induction cs arbitrary: k)
  case Nil
  then show ?case by (simp add: fat_content_def)
next
  case (Cons c cs)
  then show ?case by (cases k) (simp_all add: content_Cons disk_read_length)
qed

lemma content_cong:
  "(\<And>c. c \<in> set cs \<Longrightarrow> d' (phys (sector_of v c)) = d (phys (sector_of v c))) \<Longrightarrow> fat_content v d' cs = fat_content v d cs"
  by (induction cs) (simp_all add: content_Cons disk_read_phys, simp add: fat_content_def)

lemma content_append: "fat_content v d (cs @ ds) = fat_content v d cs @ fat_content v d ds"
  by (simp add: fat_content_def)

lemma splice_shift: "splice (A @ B) (length A + i) bs = A @ splice B i bs"
  by (simp add: splice_def add.assoc)

lemma splice_append1: "i + length bs \<le> length S \<Longrightarrow> splice (S @ R) i bs = splice S i bs @ R"
  by (simp add: splice_def)

lemma splice_append2:
  "i \<le> length S \<Longrightarrow> length as = length S - i \<Longrightarrow> splice (S @ R) i (as @ bs) = splice S i as @ splice R 0 bs"
  by (simp add: splice_def)

definition only_file :: "fat32_volume \<Rightarrow> u32 list \<Rightarrow> (u64 \<Rightarrow> u8 list) \<Rightarrow> (u64 \<Rightarrow> u8 list) \<Rightarrow> bool" where
  "only_file v cs d d' \<longleftrightarrow> (\<forall>p. p \<notin> (\<lambda>c. phys (sector_of v c)) ` set cs \<longrightarrow> d' p = d p)"

lemma write_loop_ok:
  assumes "fat_ok st" "chain_ok (fat32_volume st) cs" "follows (fat_link (fat32_volume st) (fat_disk st)) c cs" "unat off < 512"
    "unat moved + m = unat len" "unat len + 512 < 2 ^ 64" "unat off + m \<le> 512 * length cs" "unat len \<le> length buf"
  shows "\<exists>st'. write_loop buf moved len c off st = Some (len, st') \<and> fat_ok st' \<and> fat32_volume st' = fat32_volume st \<and>
      fat32_header st' = fat32_header st \<and> length (fat32_buf st') = (if m = 0 then length (fat32_buf st) else 512) \<and>
      fat_content (fat32_volume st) (fat_disk st') cs =
        splice (fat_content (fat32_volume st) (fat_disk st) cs) (unat off) (take m (drop (unat moved) buf)) \<and>
      only_file (fat32_volume st) cs (fat_disk st) (fat_disk st')"
  using assms
proof (induction cs arbitrary: c off st moved m)
  case Nil
  then have "moved = len" "m = 0" by (simp_all add: word_unat_eq_iff)
  then show ?case using Nil.prems by (subst write_loop.simps) (simp add: splice_def only_file_def fat_content_def)
next
  case (Cons x xs)
  let ?v = "fat32_volume st" and ?d = "fat_disk st"
  let ?s = "sector_of ?v c"
  let ?S = "disk_read ?d ?s"
  have x: "x = c" using Cons.prems(3) by simp
  have S: "length ?S = 512" by (rule disk_read_length [OF Cons.prems(1)])
  have spc: "sec_per_cluster ?v = 1" using Cons.prems(1) by (simp add: fat_ok_def)
  have dist: "phys (sector_of ?v y) \<noteq> phys ?s" if "y \<in> set xs" for y
    using that Cons.prems(2) phys_sector_inj [OF spc, of y c] x by (auto simp: chain_ok_def)
  show ?case
  proof (cases "m = 0")
    case True
    then have "moved = len" using Cons.prems(5) by (simp add: word_unat_eq_iff)
    then show ?thesis using True Cons.prems(1) by (subst write_loop.simps) (simp add: splice_def only_file_def)
  next
    case False
    then have m: "0 < m" by simp
    have lt: "moved < len" using m Cons.prems(5) by (simp add: word_less_nat_alt)
    let ?st = "read_fat_buf ?s st" and ?n = "chunk moved len off st"
    have ok: "fat_ok ?st" using Cons.prems(1) by (simp add: fat_ok_def)
    have n: "unat ?n = min (512 - unat off) m" by (rule unat_chunk [OF Cons.prems(1,4,5,6)])
    have nst: "chunk moved len off ?st = ?n" by (simp add: chunk_def cluster_bytes_def)
    define bs where "bs = take (unat ?n) (drop (unat moved) buf)"
    have bl: "length bs = unat ?n" using n Cons.prems(5,8) by (simp add: bs_def)
    have f1: "field buf (unat moved) (unat ?n) = Some bs" using n Cons.prems(5,8) by (simp add: field_def bs_def)
    have "unat off + unat ?n \<le> length ?S" unfolding n S using Cons.prems(4) by simp
    then obtain old where f2: "field ?S (unat off) (unat ?n) = Some old" unfolding field_def by simp
    let ?new = "splice ?S (unat off) bs"
    have nl: "length ?new = 512" using S bl n Cons.prems(4) by (simp add: splice_length)
    define d1 where "d1 = ?d(phys ?s := ?new)"
    define st1 where "st1 = ?st\<lparr>fat32_buf := ?new, fat_disk := d1\<rparr>"
    have ok1: "fat_ok st1" using Cons.prems(1) nl by (simp add: st1_def fat_ok_def d1_def VIRTIO_BLK_SECTOR_SIZE_def)
    have st1s: "fat32_volume st1 = ?v" "fat_disk st1 = d1" "fat32_header st1 = fat32_header st" "fat32_buf st1 = ?new"
      by (simp_all add: st1_def)
    have step: "write_loop buf moved len c off st = Option.bind (advance c (off + ?n) st1) (\<lambda>(c, off', st).
        write_loop buf (moved + ?n) len c off' st)"
      using lt f1 f2 by (subst write_loop.simps) (simp add: sector_of_def [symmetric] Let_def nst st1_def d1_def disk_write_phys)
    have c1: "fat_content ?v d1 xs = fat_content ?v ?d xs" unfolding d1_def by (rule content_upd) (rule dist)
    have c2: "disk_read d1 ?s = ?new" by (simp add: d1_def disk_read_phys)
    have only1: "only_file ?v (x # xs) ?d d1" by (simp add: only_file_def d1_def x)
    from Cons.prems(1,4,5,6) m show ?thesis
    proof (cases rule: chunk_cases [where st = st and off = off and moved = moved and m = m and len = len, case_names stay turn])
      case stay
      have "advance c (off + ?n) st1 = Some (c, off + ?n, st1)" by (rule advance_stay [OF ok1 stay(4)])
      moreover have "write_loop buf len len c (off + ?n) st1 = Some (len, st1)" by (subst write_loop.simps) simp
      ultimately have "write_loop buf moved len c off st = Some (len, st1)" using step stay(3) by simp
      moreover have "fat_content ?v d1 (x # xs) = splice (fat_content ?v ?d (x # xs)) (unat off) (take m (drop (unat moved) buf))"
        using S bl stay(1,2) by (simp add: content_Cons x c1 c2 splice_append1 bs_def)
      ultimately show ?thesis using ok1 only1 nl False by (simp add: st1s)
    next
      case turn
      obtain s2 where s2: "advance c 512 st1 = Some (fat_link ?v d1 c, 0, s2)" "same_fs st1 s2"
        "fat32_buf s2 = ?new" using advance_next [OF ok1, of c] by (auto simp: st1s)
      have eq: "fat32_volume s2 = ?v" "fat_disk s2 = d1" "fat32_header s2 = fat32_header st" "fat32_volume st1 = ?v" using s2(2)
        by (simp_all add: same_fs_def st1s)
      have lk: "fat_link ?v d1 y = fat_link ?v ?d y" if "y \<in> set (x # xs)" for y
        unfolding d1_def by (rule link_upd) (use Cons.prems(2) that x in \<open>auto simp: chain_ok_def\<close>)
      let ?m = "m - (512 - unat off)"
      have "\<exists>st'. write_loop buf (moved + ?n) len (fat_link ?v d1 c) 0 s2 = Some (len, st') \<and> fat_ok st' \<and>
         fat32_volume st' = fat32_volume s2 \<and> fat32_header st' = fat32_header s2 \<and>
         length (fat32_buf st') = (if ?m = 0 then length (fat32_buf s2) else 512) \<and>
         fat_content (fat32_volume s2) (fat_disk st') xs =
           splice (fat_content (fat32_volume s2) (fat_disk s2) xs) (unat (0 :: u64)) (take ?m (drop (unat (moved + ?n)) buf)) \<and>
         only_file (fat32_volume s2) xs (fat_disk s2) (fat_disk st')"
      proof (rule Cons.IH)
        show "fat_ok s2" using same_fs_ok [OF s2(2)] ok1 by simp
        show "chain_ok (fat32_volume s2) xs" using Cons.prems(2) chain_ok_tl by (auto simp: eq)
        show "follows (fat_link (fat32_volume s2) (fat_disk s2)) (fat_link ?v d1 c) xs"
          unfolding eq by (rule follows_cong [of "fat_link ?v ?d"]) (use Cons.prems(3) lk x in auto)
      qed (use turn(4) Cons.prems(6,7,8) in simp_all)
      then obtain s3 where s3: "write_loop buf (moved + ?n) len (fat_link ?v d1 c) 0 s2 = Some (len, s3)" "fat_ok s3"
         "fat32_volume s3 = ?v" "fat32_header s3 = fat32_header st" "length (fat32_buf s3) = (if ?m = 0 then 512 else 512)"
         "fat_content ?v (fat_disk s3) xs = splice (fat_content ?v ?d xs) 0 (take ?m (drop (unat (moved + ?n)) buf))"
         "only_file ?v xs d1 (fat_disk s3)"
        unfolding eq s2(3) nl c1 by auto
      have run: "write_loop buf moved len c off st = Some (len, s3)" using step turn(3) s2(1) s3(1) by simp
      have "disk_read (fat_disk s3) ?s = ?new"
      proof -
        have "phys ?s \<notin> (\<lambda>c. phys (sector_of ?v c)) ` set xs" using dist by (metis imageE)
        then have "fat_disk s3 (phys ?s) = d1 (phys ?s)" using s3(7) by (simp add: only_file_def)
        then show ?thesis using c2 by (simp add: disk_read_phys)
      qed
      moreover have "take m (drop (unat moved) buf) = bs @ take ?m (drop (unat (moved + ?n)) buf)"
      proof -
        have a: "unat (moved + ?n) = unat moved + unat ?n"
          using Cons.prems(5,6) n by (subst unat_add_small) auto
        have "m = unat ?n + ?m" using turn(1,2) by simp
        then have "take m (drop (unat moved) buf) = take (unat ?n + ?m) (drop (unat moved) buf)" by simp
        then show ?thesis by (simp add: a bs_def take_add drop_drop add.commute)
      qed
      ultimately have "fat_content ?v (fat_disk s3) (x # xs)
          = splice (fat_content ?v ?d (x # xs)) (unat off) (take m (drop (unat moved) buf))"
        using S bl turn(1) Cons.prems(4) s3(6) by (simp add: content_Cons x splice_append2)
      moreover have "only_file ?v (x # xs) ?d (fat_disk s3)"
        using s3(7) only1 by (auto simp: only_file_def)
      ultimately show ?thesis using run s3(2-5) False by simp
    qed
  qed
qed

end
