(* ===== verification/Fat32_Dirs.thy ===== *)
theory Fat32_Dirs
  imports Fat32_Props
begin

unbundle bit_operations_syntax

text \<open>
  Path names and directories: what the path functions make of a name in the root directory and of a name below a
  sub-directory, the directory walk as a search for the first matching entry, and the table entry \<open>next_cluster\<close> reads.
\<close>

subsection \<open>The table entry\<close>

definition fat_entry :: "fat32_volume \<Rightarrow> (u64 \<Rightarrow> u8 list) \<Rightarrow> nat \<Rightarrow> u32 option" where
  "fat_entry v d n = le32 (disk_read d (first_fat_sec v + of_nat (n div 128))) (4 * (n mod 128))"

lemma unat_ucast_u32: "unat (ucast (c :: u32) :: u64) = unat c"
proof -
  have "unat c < 2 ^ 64" using unat_u32_less [of c] by simp
  then show ?thesis by (simp only: unsigned_ucast_eq) (rule take_bit_nat_eq_self, simp)
qed

lemma fat_link_entry: "fat_link v d c = the (fat_entry v d (128 * (unat c div 128) + unat c mod 32))"
proof -
  have c: "unat c < 4294967296" by (rule unat_u32_less)
  have u: "unat (ucast c * 4 :: u64) = 4 * unat c"
    using c by (simp add: unat_word_ariths unat_ucast_u32)
  have "unat ((ucast c * 4 :: u64) div 512) = unat c div 128" by (simp add: unat_div u)
  then have a: "(ucast c * 4 :: u64) div 512 = of_nat (unat c div 128)" by (metis of_nat_unat ucast_id)
  have b: "unat ((ucast c * 4 :: u64) mod 128) = 4 * (unat c mod 32)"
    by (simp add: unat_mod u mult_mod_right)
  have "(128 * (unat c div 128) + unat c mod 32) div 128 = unat c div 128"
    "(128 * (unat c div 128) + unat c mod 32) mod 128 = unat c mod 32" by simp_all
  then show ?thesis by (simp only: fat_link_def fat_entry_def a b)
qed

subsection \<open>Path names\<close>

definition up :: "u8 \<Rightarrow> u8" where "up c = (if 97 \<le> c \<and> c \<le> 122 then c - 32 else c)"

definition plain :: "u8 list \<Rightarrow> bool" where "plain nm \<longleftrightarrow> (\<forall>c\<in>set nm. c \<noteq> 0 \<and> c \<noteq> 0x2f)"

lemma plain_Cons [simp]: "plain (c # cs) \<longleftrightarrow> c \<noteq> 0 \<and> c \<noteq> 0x2f \<and> plain cs" by (auto simp: plain_def)
lemma plain_Nil [simp]: "plain []" by (simp add: plain_def)

lemma slash_from_end: "plain nm \<Longrightarrow> slash_from (nm @ 0 # rest) i = Some (- 1)"
  by (induction nm arbitrary: i) auto

lemma slash_from_slash: "plain nm \<Longrightarrow> slash_from (nm @ 0x2f # rest) i = Some (int (i + length nm))"
  by (induction nm arbitrary: i) auto

lemma str_len_end: "plain nm \<Longrightarrow> str_len (nm @ 0 # rest) = Some (length nm)"
  by (induction nm) auto

lemma to_upper_end: "plain nm \<Longrightarrow> to_upper_case (nm @ 0 # rest) = Some (map up nm @ 0 # rest)"
  by (induction nm) (auto simp: up_def)

lemma str_copy_end:
  "0 \<notin> set nm \<Longrightarrow> i + length nm < length dst \<Longrightarrow>
   str_copy i (nm @ 0 # rest) dst = Some (take i dst @ nm @ 0 # drop (i + length nm + 1) dst)"
proof (induction nm arbitrary: i dst)
  case Nil
  then show ?case by (simp add: upd_conv_take_nth_drop)
next
  case (Cons c cs)
  then have "str_copy (Suc i) (cs @ 0 # rest) (dst[i := c]) = Some (take (Suc i) (dst[i := c]) @ cs @ 0 # drop (Suc i + length cs + 1) (dst[i := c]))"
    by simp
  moreover have "take (Suc i) (dst[i := c]) = take i dst @ [c]"
    using Cons.prems by (simp add: take_Suc_conv_app_nth)
  ultimately show ?case using Cons.prems by simp
qed

lemma up_nonzero: "c \<noteq> 0 \<Longrightarrow> up c \<noteq> 0"
  by (auto simp: up_def word_le_nat_alt)

definition root_path :: "u8 list \<Rightarrow> u8 list \<Rightarrow> u8 list" where
  "root_path nm rest = bytes ''/fat32/'' @ nm @ 0 # rest"

lemma parse_root:
  assumes "plain nm" "length nm \<le> 11" "nm \<noteq> []"
  shows "parse_dirname (root_path nm rest) 7 = Some (True, 7 + int (length nm), map up nm @ 0 # replicate (11 - length nm) 0)"
proof -
  obtain c cs where nm: "nm = c # cs" using assms(3) by (cases nm) auto
  have p: "drop 7 (root_path nm rest) = nm @ 0 # rest" "rd (root_path nm rest) 7 = Some c"
    by (simp_all add: root_path_def nm rd_def nth_append numeral_eq_Suc)
  have "str_copy 0 (nm @ 0 # rest) (replicate 12 0) = Some (nm @ 0 # replicate (11 - length nm) 0)"
    using assms(1,2) str_copy_end [of nm 0 "replicate 12 0" rest] by (auto simp: plain_def)
  then show ?thesis
    using assms(1) p nm by (simp add: parse_dirname_def next_slash_def slash_from_end str_len_end to_upper_end up_def)
qed

lemma next_slash_root: "next_slash (drop 1 (root_path nm rest)) = Some 5"
  by (simp add: next_slash_def root_path_def)

lemma open_dir_root:
  assumes "plain nm" "length nm \<le> 11" "nm \<noteq> []" "length junk = 12"
  shows "open_dir (root_path nm rest) junk st =
    Some (\<lparr>dir_cluster = root_clus (fat32_header st), dir_index = - 1\<rparr>, map up nm @ 0 # drop (length nm + 1) junk, st)"
proof -
  obtain c cs where nm: "nm = c # cs" using assms(3) by (cases nm) auto
  have z: "0 \<notin> set (map up nm)" using assms(1) up_nonzero by (auto simp: plain_def)
  have "str_copy 0 (map up nm @ 0 # replicate (11 - length nm) 0) (junk[0 := 0]) = Some (map up nm @ 0 # drop (length nm + 1) junk)"
    using str_copy_end [OF z, of 0 "junk[0 := 0]"] assms(2,4) by simp
  moreover have "(map up nm @ 0 # replicate (11 - length nm) 0) ! 0 \<noteq> 0" using z by (auto simp: nm)
  ultimately show ?thesis
    using assms(4) by (simp add: open_dir_def next_slash_root [unfolded One_nat_def] parse_root [OF assms(1-3)] open_dir_loop.simps)
qed

text \<open>
  A component before the last one. The index is relative to the whole path but the slash is searched from it, so a
  component of fewer than seven characters gives a negative length.
\<close>

lemma parse_sub:
  assumes "plain nm" "length nm < 7" "nm \<noteq> []"
  shows "parse_dirname (bytes ''/fat32/'' @ nm @ 0x2f # rest) 7 = None"
proof -
  obtain c cs where nm: "nm = c # cs" using assms(3) by (cases nm) auto
  have p: "drop 7 (bytes ''/fat32/'' @ nm @ 0x2f # rest) = nm @ 0x2f # rest" "rd (bytes ''/fat32/'' @ nm @ 0x2f # rest) 7 = Some c"
    by (simp_all add: nm rd_def nth_append numeral_eq_Suc)
  have "c \<noteq> 0x2f" using assms(1) nm by simp
  then show ?thesis
    using assms(1,2) p by (simp add: parse_dirname_def next_slash_def slash_from_slash Let_def)
qed

subsection \<open>The directory walk\<close>

definition entry_at :: "fat32_volume \<Rightarrow> (u64 \<Rightarrow> u8 list) \<Rightarrow> u32 \<times> nat \<Rightarrow> fat32_dir_entry" where
  "entry_at v d p = the (read_entry (disk_read d (sector_of v (fst p))) (32 * snd p))"

definition end_mark :: "fat32_dir_entry \<Rightarrow> bool" where "end_mark e \<longleftrightarrow> e_name e ! 0 = 0"

definition stops :: "(u8 \<Rightarrow> bool) \<Rightarrow> u8 list \<Rightarrow> fat32_dir_entry \<Rightarrow> bool" where
  "stops skip nm e \<longleftrightarrow> end_mark e \<or> e_name e ! 0 \<noteq> 0xe5 \<and> \<not> skip (e_attr e) \<and> blank_to_nul (e_name e) = take 8 nm"

definition positions :: "u32 list \<Rightarrow> (u32 \<times> nat) list" where
  "positions cs = concat (map (\<lambda>c. map (Pair c) [0 ..< 16]) cs)"

definition dir_lookup :: "fat32_volume \<Rightarrow> (u64 \<Rightarrow> u8 list) \<Rightarrow> (u8 \<Rightarrow> bool) \<Rightarrow> u8 list \<Rightarrow> u32 list \<Rightarrow> fat32_file" where
  "dir_lookup v d skip nm cs =
     (case find (\<lambda>p. stops skip nm (entry_at v d p)) (positions cs) of
        None \<Rightarrow> no_file
      | Some p \<Rightarrow> if end_mark (entry_at v d p) then no_file
                  else \<lparr>f_cluster = entry_cluster (entry_at v d p), f_dir = \<lparr>dir_cluster = fst p, dir_index = of_nat (snd p)\<rparr>\<rparr>)"

fun dir_clusters :: "(u32 \<Rightarrow> u32) \<Rightarrow> u32 \<Rightarrow> u32 list \<Rightarrow> bool" where
  "dir_clusters f c [] = (c = INVALID_CLUSTER)"
| "dir_clusters f c (x # xs) = (c = x \<and> x \<noteq> INVALID_CLUSTER \<and> dir_clusters f (f c) xs)"

lemma read_entry_in: "o' + 32 \<le> length bs \<Longrightarrow> \<exists>e. read_entry bs o' = Some e \<and> length (e_name e) = 8"
  by (auto simp: read_entry_def field_def le16_def le32_def)

lemma scan_entries_find:
  assumes "length buf = 512" "\<forall>i\<in>set is. i < 16"
  defines "ent \<equiv> \<lambda>i. the (read_entry buf (32 * i))"
  shows "scan_entries skip nm buf is =
    Some (case find (\<lambda>i. stops skip nm (ent i)) is of None \<Rightarrow> Exhausted
          | Some i \<Rightarrow> if end_mark (ent i) then Missing else Found (entry_cluster (ent i)) i)"
  using assms(2)
proof (induction "is")
  case Nil
  then show ?case by simp
next
  case (Cons i js)
  then have "32 * i + 32 \<le> length buf" using assms(1) by auto
  then obtain e where e: "read_entry buf (32 * i) = Some e" "length (e_name e) = 8" using read_entry_in by blast
  then have "ent i = e" by (simp add: ent_def)
  then show ?case using e Cons by (auto simp: stops_def end_mark_def)
qed

lemma find_append: "find P (xs @ ys) = (case find P xs of None \<Rightarrow> find P ys | Some x \<Rightarrow> Some x)"
  by (induction xs) auto

lemma find_map: "find P (map f xs) = map_option f (find (P \<circ> f) xs)"
  by (induction xs) auto

lemma scan_chain_lookup:
  assumes "fat_ok st" "dir_clusters (fat_link (fat32_volume st) (fat_disk st)) c cs"
  shows "\<exists>r cl st'. scan_chain skip nm c st = Some (r, cl, st') \<and> same_fs st st' \<and>
    found_file r cl = dir_lookup (fat32_volume st) (fat_disk st) skip nm cs"
  using assms
proof (induction cs arbitrary: c st)
  case Nil
  then show ?case by (subst scan_chain.simps) (simp add: found_file_def dir_lookup_def positions_def)
next
  case (Cons x xs)
  let ?v = "fat32_volume st" and ?d = "fat_disk st"
  let ?st = "read_fat_buf (sector_of ?v c) st"
  let ?ent = "\<lambda>i. entry_at ?v ?d (c, i)"
  have c: "c \<noteq> INVALID_CLUSTER" "c = x" using Cons.prems(2) by auto
  have len: "length (disk_read ?d (sector_of ?v c)) = 512" by (rule disk_read_length [OF Cons.prems(1)])
  have scan: "scan_entries skip nm (disk_read ?d (sector_of ?v c)) [0 ..< 16] =
    Some (case find (\<lambda>i. stops skip nm (?ent i)) [0 ..< 16] of None \<Rightarrow> Exhausted
          | Some i \<Rightarrow> if end_mark (?ent i) then Missing else Found (entry_cluster (?ent i)) i)"
    unfolding entry_at_def fst_conv snd_conv by (rule scan_entries_find [OF len]) simp
  have pos: "find P (positions (x # xs)) = (case find (\<lambda>i. P (c, i)) [0 ..< 16] of None \<Rightarrow> find P (positions xs) | Some i \<Rightarrow> Some (c, i))" for P
    by (simp add: positions_def c(2) find_append find_map comp_def del: upt.simps split: option.splits)
  show ?case
  proof (cases "find (\<lambda>i. stops skip nm (?ent i)) [0 ..< 16]")
    case None
    have ok: "fat_ok ?st" using Cons.prems(1) by (simp add: fat_ok_def)
    obtain s1 where s1: "next_cluster (ucast c) ?st = Some (fat_link ?v ?d c, s1)" "same_fs ?st s1"
      using next_cluster_same [OF ok, of c] by auto
    have fs: "same_fs st s1" by (rule same_fs_trans [OF same_fs_buf s1(2)])
    then have eq: "fat32_volume s1 = ?v" "fat_disk s1 = ?d" by (simp_all add: same_fs_def)
    obtain r cl s2 where s2: "scan_chain skip nm (fat_link ?v ?d c) s1 = Some (r, cl, s2)" "same_fs s1 s2"
      "found_file r cl = dir_lookup ?v ?d skip nm xs"
      using Cons.IH [of s1 "fat_link ?v ?d c"] Cons.prems same_fs_ok [OF fs] by (auto simp: eq)
    have "scan_chain skip nm c st = Some (r, cl, s2)"
      using c(1) s1(1) s2(1) scan None
      by (subst scan_chain.simps) (simp add: sector_of_def [symmetric] FAT32_ENTRY_PER_SECTOR_def VIRTIO_BLK_SECTOR_SIZE_def del: upt.simps)
    moreover have "dir_lookup ?v ?d skip nm (x # xs) = dir_lookup ?v ?d skip nm xs"
      using None by (simp only: dir_lookup_def pos option.case)
    ultimately show ?thesis using s2(3) same_fs_trans [OF fs s2(2)] by auto
  next
    case (Some i)
    have "scan_chain skip nm c st = Some (if end_mark (?ent i) then Missing else Found (entry_cluster (?ent i)) i, c, ?st)"
      using c(1) scan Some
      by (subst scan_chain.simps) (simp add: sector_of_def [symmetric] FAT32_ENTRY_PER_SECTOR_def VIRTIO_BLK_SECTOR_SIZE_def Let_def del: upt.simps)
    moreover have "dir_lookup ?v ?d skip nm (x # xs) = (if end_mark (?ent i) then no_file else
        \<lparr>f_cluster = entry_cluster (?ent i), f_dir = \<lparr>dir_cluster = c, dir_index = of_nat i\<rparr>\<rparr>)"
      using Some by (simp only: dir_lookup_def pos option.case fst_conv snd_conv)
    ultimately show ?thesis by (auto simp: found_file_def)
  qed
qed

end
