(* ===== verification/Fat32_Claims.thy ===== *)
theory Fat32_Claims
  imports Fat32_Dirs
begin

unbundle bit_operations_syntax

text \<open>The properties of the FAT32 driver, with a small volume as the example.\<close>

definition opened_file :: "fat_st \<Rightarrow> file_t \<Rightarrow> u32 list \<Rightarrow> u32 \<Rightarrow> bool" where
  "opened_file st fil cs sz \<longleftrightarrow>
     fat_ok st \<and> follows (fat_link (fat32_volume st) (fat_disk st)) (f_cluster (fat32_file fil)) cs \<and>
     entry_size (disk_read (fat_disk st) (sector_of (fat32_volume st) (dir_cluster (f_dir (fat32_file fil)))))
       (dir_index (f_dir (fat32_file fil))) = Some sz \<and>
     unat sz \<le> 512 * length cs"

subsection \<open>An example volume\<close>

text \<open>The table at sector 2, the root directory in cluster 2 (sector 10), one file in cluster 5 (sector 13).\<close>

definition demo_disk :: "u64 \<Rightarrow> u8 list" where
  "demo_disk s =
     (if s = 2 then replicate 8 0 @ [0xf8, 0xff, 0xff, 0x0f] @ replicate 8 0 @ [0xf8, 0xff, 0xff, 0x0f] @ replicate 488 0
      else if s = 10 then bytes ''README  TXT'' @ [0x20] @ replicate 14 0 @ [5, 0, 5, 0, 0, 0] @ replicate 480 0
      else if s = 13 then bytes ''hello'' @ replicate 507 0
      else replicate 512 0)"

definition demo_bpb :: fat32_bpb where
  "demo_bpb = \<lparr>jmp_boot = [], oem_name = [], bytes_per_sec = 512, sec_per_clus = 1, rsvd_sec_cnt = 2, num_fats = 1, root_ent_cnt = 0,
     tot_sec16 = 0, media = 0, fat_sz16 = 0, sec_per_trk = 0, num_heads = 0, hidd_sec = 0, tot_sec32 = 0, fat_sz32 = 8, ext_flags = 0,
     fs_ver = 0, root_clus = 2, fs_info = 0, bk_boot_sec = 0, drv_num = 0, boot_sig = 0, vol_id = 0, vol_lab = [], fil_sys_type = [],
     boot_sector_signature = 0xaa55\<rparr>"

definition demo_fat :: fat_st where
  "demo_fat = \<lparr>fat32_header = demo_bpb,
     fat32_volume = \<lparr>first_data_sec = 10, first_fat_sec = 2, sec_per_cluster = 1, fat_sz = 8\<rparr>,
     fat32_buf = [], fat32_table_buf = [], mbr_buf = [], fat_disk = demo_disk\<rparr>"

definition demo_file :: file_t where
  "demo_file = \<lparr>opened = 1, perms = 3, cfo = 1, fs_type = 1, f_flags = 3,
     fat32_file = \<lparr>f_cluster = 5, f_dir = \<lparr>dir_cluster = 2, dir_index = 0\<rparr>\<rparr>,
     lseek_fn = Some Fat32_lseek, write_fn = Some Fat32_write, read_fn = Some Fat32_read, f_path = []\<rparr>"

lemma demo_ok: "fat_ok demo_fat"
  by (simp add: fat_ok_def demo_fat_def demo_disk_def VIRTIO_BLK_SECTOR_SIZE_def)

lemma demo_dir: "dir_clusters (fat_link (fat32_volume demo_fat) (fat_disk demo_fat)) 2 [2]"
  by code_simp

lemma demo_opened: "opened_file demo_fat demo_file [5] 5"
proof -
  have "entry_size (disk_read (fat_disk demo_fat) (sector_of (fat32_volume demo_fat) (dir_cluster (f_dir (fat32_file demo_file)))))
       (dir_index (f_dir (fat32_file demo_file))) = Some 5" by code_simp
  then show ?thesis using demo_ok by (simp add: opened_file_def demo_file_def)
qed

lemma demo_chain: "chain_ok (fat32_volume demo_fat) [5]"
  by code_simp

subsection \<open>Reading and writing\<close>

lemma unat_of_nat_u64: "n < 2 ^ 64 \<Longrightarrow> unat (of_nat n :: u64) = n"
  by (simp add: unsigned_of_nat take_bit_nat_eq_self)

lemma unat_clip:
  assumes "unat (cfo fil) \<le> unat sz" "unat (cfo fil) + unat len < 2 ^ 64"
  shows "unat (clip_len fil len sz) = min (unat len) (unat sz - unat (cfo fil))"
proof -
  have a: "unat (cfo fil + len) = unat (cfo fil) + unat len" using assms(2) by (subst unat_add_small) simp_all
  have b: "unat (ucast sz - cfo fil :: u64) = unat sz - unat (cfo fil)"
    using assms(1) by (subst unat_sub) (simp_all add: word_le_nat_alt unat_ucast_u32)
  show ?thesis using assms(1) by (auto simp: clip_len_def word_less_nat_alt a b unat_ucast_u32)
qed

lemma fat32_read_ok:
  assumes o: "opened_file st fil cs sz" and off: "unat (cfo fil) \<le> unat sz" "unat (cfo fil) + unat len < 2 ^ 64"
  defines "n \<equiv> min (unat len) (unat sz - unat (cfo fil))"
  shows "\<exists>st'. fat32_read fil len st =
      Some (of_nat n, take n (drop (unat (cfo fil)) (fat_content (fat32_volume st) (fat_disk st) cs)),
            fil\<lparr>cfo := cfo fil + of_nat n\<rparr>, st') \<and> same_fs st st'"
proof -
  let ?off = "unat (cfo fil)" and ?l = "clip_len fil len sz"
  let ?st = "read_fat_buf (sector_of (fat32_volume st) (dir_cluster (f_dir (fat32_file fil)))) st"
  have ok: "fat_ok st" "fat_ok ?st" using o by (simp_all add: opened_file_def fat_ok_def)
  have l: "unat ?l = n" unfolding n_def by (rule unat_clip [OF off])
  then have ln: "?l = of_nat n" by (metis of_nat_unat ucast_id)
  have sz: "entry_size (fat32_buf ?st) (dir_index (f_dir (fat32_file fil))) = Some sz" using o by (simp add: opened_file_def)
  show ?thesis
  proof (cases "n = 0")
    case True
    then have "?l = 0" using ln by simp
    then have "fat32_read fil len st = Some (0, [], fil, ?st)"
      using sz by (simp add: fat32_read_def sector_of_def [symmetric] Let_def)
    then show ?thesis using True by simp
  next
    case False
    have lt: "?off < 512 * length cs" using False n_def o by (auto simp: opened_file_def)
    then have k: "?off div 512 < length cs" by (simp add: less_mult_imp_div_less)
    have fol: "follows (fat_link (fat32_volume ?st) (fat_disk ?st)) (f_cluster (fat32_file fil)) cs" using o by (simp add: opened_file_def)
    obtain s1 where s1: "seek_cluster (f_cluster (fat32_file fil)) (cfo fil) ?st
        = Some (cs ! (?off div 512), of_nat (?off mod 512), s1)" "same_fs ?st s1"
      using seek_cluster_ok [OF ok(2) fol k] by blast
    have fs: "same_fs st s1" by (rule same_fs_trans [OF same_fs_buf s1(2)])
    then have eq: "fat32_volume s1 = fat32_volume st" "fat_disk s1 = fat_disk st" by (simp_all add: same_fs_def)
    have tl: "follows (fat_link (fat32_volume s1) (fat_disk s1)) (cs ! (?off div 512)) (drop (?off div 512) cs)"
      using fol k unfolding eq by (simp add: follows_drop)
    have off': "unat (of_nat (?off mod 512) :: u64) = ?off mod 512"
      by (rule unat_of_nat_u64) (simp add: less_trans [of _ 512])
    have "unat sz \<le> 512 * length cs" using o by (simp add: opened_file_def)
    moreover have "?off = 512 * (?off div 512) + ?off mod 512" by simp
    moreover have "512 * (length cs - ?off div 512) = 512 * length cs - 512 * (?off div 512)" by (simp add: diff_mult_distrib2)
    ultimately have fits: "?off mod 512 + n \<le> 512 * length (drop (?off div 512) cs)"
      unfolding length_drop n_def using off(1) by linarith
    have small: "unat ?l + 512 < 2 ^ 64" using unat_u32_less [of sz] l n_def by simp
    obtain s2 where s2: "read_loop 0 ?l (cs ! (?off div 512)) (of_nat (?off mod 512)) s1 [] =
        Some (?l, [] @ take n (drop (?off mod 512) (fat_content (fat32_volume st) (fat_disk st) (drop (?off div 512) cs))), s2)" "same_fs s1 s2"
      using read_loop_ok [OF _ tl, of "of_nat (?off mod 512)" 0 n ?l "[]"] same_fs_ok [OF fs] ok(1) l fits small
      unfolding eq off' by auto
    have "fat32_read fil len st = Some (?l, take n (drop (?off mod 512) (fat_content (fat32_volume st) (fat_disk st) (drop (?off div 512) cs))),
        fil\<lparr>cfo := cfo fil + ?l\<rparr>, s2)"
      using sz s1(1) s2(1) False l by (auto simp: fat32_read_def sector_of_def [symmetric] Let_def)
    moreover have "drop (?off mod 512) (fat_content (fat32_volume st) (fat_disk st) (drop (?off div 512) cs))
        = drop ?off (fat_content (fat32_volume st) (fat_disk st) cs)"
      using drop_content [OF ok(1), of "fat32_volume st" "?off div 512" cs] by (simp add: drop_drop)
    ultimately show ?thesis unfolding ln using same_fs_trans [OF fs s2(2)] by auto
  qed
qed

lemma fat32_write_ok:
  assumes o: "opened_file st fil cs sz" and ch: "chain_ok (fat32_volume st) cs"
    and fit: "unat (cfo fil) + length bs \<le> unat sz" and ne: "bs \<noteq> []"
  shows "\<exists>st'. fat32_write fil bs (of_nat (length bs)) st = Some (0, fil\<lparr>cfo := cfo fil + of_nat (length bs)\<rparr>, st') \<and>
      fat_ok st' \<and> fat32_volume st' = fat32_volume st \<and>
      fat_content (fat32_volume st) (fat_disk st') cs = splice (fat_content (fat32_volume st) (fat_disk st) cs) (unat (cfo fil)) bs \<and>
      only_file (fat32_volume st) cs (fat_disk st) (fat_disk st')"
proof -
  let ?off = "unat (cfo fil)" and ?l = "of_nat (length bs) :: u64" and ?v = "fat32_volume st"
  let ?st = "read_fat_buf (sector_of ?v (dir_cluster (f_dir (fat32_file fil)))) st"
  let ?k = "?off div 512"
  have ok: "fat_ok st" "fat_ok ?st" using o by (simp_all add: opened_file_def fat_ok_def)
  have szb: "unat sz < 4294967296" by (rule unat_u32_less)
  have l: "unat ?l = length bs" using fit szb by (intro unat_of_nat_u64) simp
  have lp: "0 < length bs" using ne by simp
  have sz: "entry_size (fat32_buf ?st) (dir_index (f_dir (fat32_file fil))) = Some sz" using o by (simp add: opened_file_def)
  have szc: "unat sz \<le> 512 * length cs" using o by (simp add: opened_file_def)
  have lt: "?off < 512 * length cs" using fit szc lp by linarith
  then have k: "?k < length cs" by (simp add: less_mult_imp_div_less)
  have fol: "follows (fat_link (fat32_volume ?st) (fat_disk ?st)) (f_cluster (fat32_file fil)) cs" using o by (simp add: opened_file_def)
  obtain s1 where s1: "seek_cluster (f_cluster (fat32_file fil)) (cfo fil) ?st = Some (cs ! ?k, of_nat (?off mod 512), s1)" "same_fs ?st s1"
    using seek_cluster_ok [OF ok(2) fol k] by blast
  have fs: "same_fs st s1" by (rule same_fs_trans [OF same_fs_buf s1(2)])
  then have eq: "fat32_volume s1 = ?v" "fat_disk s1 = fat_disk st" by (simp_all add: same_fs_def)
  have tl: "follows (fat_link (fat32_volume s1) (fat_disk s1)) (cs ! ?k) (drop ?k cs)"
    using fol k unfolding eq by (simp add: follows_drop)
  have off': "unat (of_nat (?off mod 512) :: u64) = ?off mod 512"
    by (rule unat_of_nat_u64) (simp add: less_trans [of _ 512])
  have "?off = 512 * ?k + ?off mod 512" by simp
  moreover have "512 * (length cs - ?k) = 512 * length cs - 512 * ?k" by (simp add: diff_mult_distrib2)
  ultimately have fits: "?off mod 512 + length bs \<le> 512 * length (drop ?k cs)"
    unfolding length_drop using fit szc by linarith
  have chd: "chain_ok ?v (drop ?k cs)"
    using ch by (auto simp: chain_ok_def dest: in_set_dropD)
  obtain s2 where s2: "write_loop bs 0 ?l (cs ! ?k) (of_nat (?off mod 512)) s1 = Some (?l, s2)" "fat_ok s2" "fat32_volume s2 = ?v"
    "fat_content ?v (fat_disk s2) (drop ?k cs) = splice (fat_content ?v (fat_disk st) (drop ?k cs)) (?off mod 512) (take (length bs) (drop (unat (0 :: u64)) bs))"
    "only_file ?v (drop ?k cs) (fat_disk st) (fat_disk s2)"
    using write_loop_ok [OF _ _ tl, of "of_nat (?off mod 512)" 0 "length bs" ?l bs] same_fs_ok [OF fs] ok(1) chd l fits fit szb
    unfolding eq off' by auto
  have "\<not> ucast sz < cfo fil + ?l"
  proof -
    have "unat (cfo fil + ?l) = ?off + length bs" using fit szb l by (subst unat_add_small) simp_all
    then show ?thesis using fit by (simp add: word_less_nat_alt unat_ucast_u32)
  qed
  moreover have "\<not> ?l \<le> 0"
  proof
    assume "?l \<le> 0"
    then have "unat ?l \<le> 0" by (simp only: word_le_nat_alt unsigned_0)
    then show False using l lp by simp
  qed
  ultimately have run: "fat32_write fil bs ?l st = Some (0, fil\<lparr>cfo := cfo fil + ?l\<rparr>, s2)"
    using sz s1(1) s2(1) by (simp add: fat32_write_def sector_of_def [symmetric] Let_def)
  have spc: "sec_per_cluster ?v = 1" using ok(1) by (simp add: fat_ok_def)
  have tk: "fat_content ?v (fat_disk s2) (take ?k cs) = fat_content ?v (fat_disk st) (take ?k cs)"
  proof (rule content_cong)
    fix c
    assume c: "c \<in> set (take ?k cs)"
    have "distinct cs" using ch by (simp add: chain_ok_def)
    then have "c \<notin> set (drop ?k cs)" using c by (metis append_take_drop_id distinct_append disjoint_iff)
    then have "phys (sector_of ?v c) \<notin> (\<lambda>c. phys (sector_of ?v c)) ` set (drop ?k cs)"
      using phys_sector_inj [OF spc] by blast
    then show "fat_disk s2 (phys (sector_of ?v c)) = fat_disk st (phys (sector_of ?v c))"
      using s2(5) by (simp add: only_file_def)
  qed
  have sp: "fat_content ?v d cs = fat_content ?v d (take ?k cs) @ fat_content ?v d (drop ?k cs)" for d
    by (metis append_take_drop_id content_append)
  have "length (fat_content ?v (fat_disk st) (take ?k cs)) = 512 * ?k"
    using content_length [OF ok(1)] k by simp
  then have "splice (fat_content ?v (fat_disk st) (take ?k cs) @ fat_content ?v (fat_disk st) (drop ?k cs)) ?off bs
      = fat_content ?v (fat_disk st) (take ?k cs) @ splice (fat_content ?v (fat_disk st) (drop ?k cs)) (?off mod 512) bs"
    using splice_shift [of "fat_content ?v (fat_disk st) (take ?k cs)" "fat_content ?v (fat_disk st) (drop ?k cs)" "?off mod 512" bs] by simp
  then have "fat_content ?v (fat_disk s2) cs = splice (fat_content ?v (fat_disk st) cs) ?off bs"
    unfolding sp [of "fat_disk s2"] sp [of "fat_disk st"] tk s2(4) by simp
  moreover have "only_file ?v cs (fat_disk st) (fat_disk s2)"
    using s2(5) by (auto simp: only_file_def dest: in_set_dropD)
  ultimately show ?thesis using run s2(2,3) by auto
qed

lemma opened_after_write:
  assumes o: "opened_file st fil cs sz" and ch: "chain_ok (fat32_volume st) cs"
    and dir: "\<forall>c\<in>set cs. phys (sector_of (fat32_volume st) (dir_cluster (f_dir (fat32_file fil)))) \<noteq> phys (sector_of (fat32_volume st) c)"
    and st': "fat_ok st'" "fat32_volume st' = fat32_volume st" "only_file (fat32_volume st) cs (fat_disk st) (fat_disk st')"
  shows "opened_file st' fil cs sz"
proof -
  let ?v = "fat32_volume st"
  have same: "fat_disk st' p = fat_disk st p" if "\<forall>c\<in>set cs. p \<noteq> phys (sector_of ?v c)" for p
    using st'(3) that by (auto simp: only_file_def)
  have "fat_link ?v (fat_disk st') c = fat_link ?v (fat_disk st) c" if "c \<in> set cs" for c
    using same [of "phys (table_sector ?v c)"] ch that by (simp add: chain_ok_def fat_link_def disk_read_phys table_sector_def)
  then have "follows (fat_link ?v (fat_disk st')) (f_cluster (fat32_file fil)) cs"
    using o follows_cong [of "fat_link ?v (fat_disk st)" _ cs "fat_link ?v (fat_disk st')"] by (simp add: opened_file_def)
  moreover have "disk_read (fat_disk st') (sector_of ?v (dir_cluster (f_dir (fat32_file fil))))
      = disk_read (fat_disk st) (sector_of ?v (dir_cluster (f_dir (fat32_file fil))))"
    using same [OF dir] by (simp add: disk_read_phys)
  ultimately show ?thesis using o st' by (simp add: opened_file_def)
qed

subsection \<open>The properties\<close>

text \<open>
  \<open>fat32_read\<close> returns a slice of the file. On a volume of one sector per cluster, for an opened file whose clusters
  \<open>cs\<close> are the ones \<open>next_cluster\<close> leads through and whose directory entry gives the size \<open>sz\<close>, and an
  offset that is not past the size: the bytes stored are those of the content from the offset on, as many as asked for but
  none past the size; their number is returned and added to the offset; the disk does not change.
\<close>

theorem fat32_read_slice:
  assumes "opened_file st fil cs sz" "unat (cfo fil) \<le> unat sz" "unat (cfo fil) + unat len < 2 ^ 64"
  shows "\<exists>st'. fat32_read fil len st =
      Some (of_nat (min (unat len) (unat sz - unat (cfo fil))),
            take (min (unat len) (unat sz - unat (cfo fil))) (drop (unat (cfo fil)) (fat_content (fat32_volume st) (fat_disk st) cs)),
            fil\<lparr>cfo := cfo fil + of_nat (min (unat len) (unat sz - unat (cfo fil)))\<rparr>, st') \<and> same_fs st st'"
  by (rule fat32_read_ok [OF assms])

lemma fat32_read_slice_witness:
  "\<exists>st'. fat32_read demo_file 100 demo_fat = Some (4, bytes ''ello'', demo_file\<lparr>cfo := 5\<rparr>, st') \<and> same_fs demo_fat st'"
proof -
  have "unat (cfo demo_file) \<le> unat (5 :: u32)" "unat (cfo demo_file) + unat (100 :: u64) < 2 ^ 64" by (simp_all add: demo_file_def)
  note fat32_read_slice [OF demo_opened this]
  moreover have "take 4 (drop 1 (fat_content (fat32_volume demo_fat) (fat_disk demo_fat) [5])) = bytes ''ello''" by code_simp
  moreover have "min (unat (100 :: u64)) (unat (5 :: u32) - unat (cfo demo_file)) = 4" "unat (cfo demo_file) = 1" "cfo demo_file = 1"
    by (simp_all add: demo_file_def)
  ultimately show ?thesis by simp
qed

text \<open>
  What \<open>fat32_write\<close> stores inside a file is what \<open>fat32_read\<close> then returns. For an opened file whose clusters are
  distinct and hold neither the table sectors of the file nor its directory entry, and bytes that end inside the
  recorded size: the write returns 0 (not the number of bytes), moves the offset past the bytes, replaces exactly them in the
  content and changes no other sector; reading as many bytes from the old offset gives the bytes back.
\<close>

theorem fat32_write_read_back:
  assumes "opened_file st fil cs sz" "chain_ok (fat32_volume st) cs"
    "\<forall>c\<in>set cs. phys (sector_of (fat32_volume st) (dir_cluster (f_dir (fat32_file fil)))) \<noteq> phys (sector_of (fat32_volume st) c)"
    "unat (cfo fil) + length bs \<le> unat sz" "bs \<noteq> []"
  shows "\<exists>st' st''. fat32_write fil bs (of_nat (length bs)) st = Some (0, fil\<lparr>cfo := cfo fil + of_nat (length bs)\<rparr>, st') \<and>
      fat_content (fat32_volume st) (fat_disk st') cs = splice (fat_content (fat32_volume st) (fat_disk st) cs) (unat (cfo fil)) bs \<and>
      only_file (fat32_volume st) cs (fat_disk st) (fat_disk st') \<and>
      fat32_read fil (of_nat (length bs)) st' = Some (of_nat (length bs), bs, fil\<lparr>cfo := cfo fil + of_nat (length bs)\<rparr>, st'')"
proof -
  obtain st' where st': "fat32_write fil bs (of_nat (length bs)) st = Some (0, fil\<lparr>cfo := cfo fil + of_nat (length bs)\<rparr>, st')"
    "fat_ok st'" "fat32_volume st' = fat32_volume st"
    "fat_content (fat32_volume st) (fat_disk st') cs = splice (fat_content (fat32_volume st) (fat_disk st) cs) (unat (cfo fil)) bs"
    "only_file (fat32_volume st) cs (fat_disk st) (fat_disk st')"
    using fat32_write_ok [OF assms(1,2,4,5)] by auto
  have o: "opened_file st' fil cs sz" by (rule opened_after_write [OF assms(1-3) st'(2,3,5)])
  have szb: "unat sz < 4294967296" by (rule unat_u32_less)
  have l: "unat (of_nat (length bs) :: u64) = length bs" using assms(4) szb by (intro unat_of_nat_u64) simp
  have n: "min (unat (of_nat (length bs) :: u64)) (unat sz - unat (cfo fil)) = length bs" using assms(4) l by simp
  have ok: "fat_ok st" using assms(1) by (simp add: opened_file_def)
  have "unat (cfo fil) \<le> length (fat_content (fat32_volume st) (fat_disk st) cs)"
    using assms(1,4) content_length [OF ok] by (simp add: opened_file_def)
  then have t: "take (length bs) (drop (unat (cfo fil)) (fat_content (fat32_volume st') (fat_disk st') cs)) = bs"
    by (simp add: st'(3,4) splice_def)
  obtain st'' where "fat32_read fil (of_nat (length bs)) st' = Some (of_nat (length bs), bs, fil\<lparr>cfo := cfo fil + of_nat (length bs)\<rparr>, st'')"
    using fat32_read_ok [OF o, of "of_nat (length bs)"] assms(4) szb l unfolding n t by auto
  then show ?thesis using st'(1,4,5) by blast
qed

lemma fat32_write_read_back_witness:
  "\<exists>st' st''. fat32_write demo_file (bytes ''ipp'') 3 demo_fat = Some (0, demo_file\<lparr>cfo := 4\<rparr>, st') \<and>
      fat_content (fat32_volume demo_fat) (fat_disk st') [5] = bytes ''hippo'' @ replicate 507 0 \<and>
      fat32_read demo_file 3 st' = Some (3, bytes ''ipp'', demo_file\<lparr>cfo := 4\<rparr>, st'')"
proof -
  have d: "\<forall>c\<in>set [5]. phys (sector_of (fat32_volume demo_fat) (dir_cluster (f_dir (fat32_file demo_file)))) \<noteq> phys (sector_of (fat32_volume demo_fat) c)"
    by code_simp
  have f: "unat (cfo demo_file) + length (bytes ''ipp'') \<le> unat (5 :: u32)" "bytes ''ipp'' \<noteq> []" by (simp_all add: demo_file_def)
  have "splice (fat_content (fat32_volume demo_fat) (fat_disk demo_fat) [5]) (unat (cfo demo_file)) (bytes ''ipp'') = bytes ''hippo'' @ replicate 507 0"
    by code_simp
  moreover have "cfo demo_file + of_nat (length (bytes ''ipp'')) = 4" "of_nat (length (bytes ''ipp'')) = (3 :: u64)" by (simp_all add: demo_file_def)
  ultimately show ?thesis using fat32_write_read_back [OF demo_opened demo_chain d f] by auto
qed

text \<open>
  C21. \<open>fat32_open_file\<close> on a name in the root directory is a search: the name is turned to upper case and its first
  eight bytes (after the terminator, whatever the uninitialised local array held) are compared with the base names of the
  entries, blanks read as terminators and the extension ignored; the first live entry of a plain file that matches, in the
  order of the chain, is the file, and the end mark or the end of the chain gives the null file.
\<close>

theorem fat32_open_file_lookup:
  assumes "fat_ok st" "plain nm" "length nm \<le> 11" "nm \<noteq> []" "length junk = 12" "root_clus (fat32_header st) \<noteq> 0"
    "dir_clusters (fat_link (fat32_volume st) (fat_disk st)) (root_clus (fat32_header st)) cs" "cs \<noteq> []"
  shows "\<exists>st'. fat32_open_file junk (root_path nm rest) st =
      Some (dir_lookup (fat32_volume st) (fat_disk st) skip_non_file (map up nm @ 0 # drop (length nm + 1) junk) cs, st') \<and> same_fs st st'"
proof -
  have "root_clus (fat32_header st) \<noteq> INVALID_CLUSTER" using assms(7,8) by (cases cs) auto
  then show ?thesis
    using scan_chain_lookup [OF assms(1,7), of skip_non_file "map up nm @ 0 # drop (length nm + 1) junk"] assms(6)
    by (auto simp: fat32_open_file_def open_dir_root [OF assms(2-5)])
qed

lemma fat32_open_file_lookup_witness:
  "\<exists>st'. fat32_open_file (replicate 12 0) (root_path (bytes ''readme'') []) demo_fat =
      Some (\<lparr>f_cluster = 5, f_dir = \<lparr>dir_cluster = 2, dir_index = 0\<rparr>\<rparr>, st') \<and> same_fs demo_fat st'"
proof -
  have "dir_lookup (fat32_volume demo_fat) (fat_disk demo_fat) skip_non_file
      (map up (bytes ''readme'') @ 0 # drop (length (bytes ''readme'') + 1) (replicate 12 0)) [2]
      = \<lparr>f_cluster = 5, f_dir = \<lparr>dir_cluster = 2, dir_index = 0\<rparr>\<rparr>" by code_simp
  moreover have "root_clus (fat32_header demo_fat) = 2" by (simp add: demo_fat_def demo_bpb_def)
  ultimately show ?thesis
    using fat32_open_file_lookup [OF demo_ok, of "bytes ''readme''" "replicate 12 0" "[2]" "[]"] demo_dir by simp
qed

text \<open>
  C22. The table entry \<open>next_cluster\<close> reads. It reduces the byte offset by the number of entries of a sector (128) and not by
  its size (512), so for the cluster \<open>c\<close> it returns the entry of \<open>128 * (c div 128) + c mod 32\<close>: the right one when
  \<open>c mod 128 < 32\<close>, the one of another cluster otherwise.
\<close>

theorem next_cluster_entry:
  fixes c :: u32
  assumes "fat_ok st"
  shows "(\<exists>st'. next_cluster (ucast c) st =
      Some (the (fat_entry (fat32_volume st) (fat_disk st) (128 * (unat c div 128) + unat c mod 32)), st') \<and> same_fs st st')
    \<and> (128 * (unat c div 128) + unat c mod 32 = unat c \<longleftrightarrow> unat c mod 128 < 32)"
proof (rule conjI)
  show "\<exists>st'. next_cluster (ucast c) st =
      Some (the (fat_entry (fat32_volume st) (fat_disk st) (128 * (unat c div 128) + unat c mod 32)), st') \<and> same_fs st st'"
    using next_cluster_same [OF assms, of c] by (auto simp: fat_link_entry)
  have "unat c = 128 * (unat c div 128) + unat c mod 128" by simp
  moreover have "unat c mod 32 = unat c mod 128 \<longleftrightarrow> unat c mod 128 < 32"
  proof -
    have "unat c mod 32 = (unat c mod 128) mod 32" by (simp add: mod_mod_cancel)
    then show ?thesis by (metis mod_less mod_less_divisor zero_less_numeral)
  qed
  ultimately show "128 * (unat c div 128) + unat c mod 32 = unat c \<longleftrightarrow> unat c mod 128 < 32" by linarith
qed

lemma next_cluster_entry_witness:
  "(\<exists>st'. next_cluster (ucast (37 :: u32)) demo_fat = Some (0x0ffffff8, st') \<and> same_fs demo_fat st') \<and>
   the (fat_entry (fat32_volume demo_fat) (fat_disk demo_fat) 37) = 0"
proof -
  have "the (fat_entry (fat32_volume demo_fat) (fat_disk demo_fat) (128 * (unat (37 :: u32) div 128) + unat (37 :: u32) mod 32)) = 0x0ffffff8"
    by code_simp
  moreover have "the (fat_entry (fat32_volume demo_fat) (fat_disk demo_fat) 37) = 0" by code_simp
  ultimately show ?thesis using next_cluster_entry [OF demo_ok, of 37] by metis
qed

text \<open>
  A path below a sub-directory of the root whose name has fewer than seven characters cannot be opened: \<open>parse_dirname\<close>
  takes the position of the slash relative to its start for a position in the path, and with the negative length
  it gets, \<open>dirname[len]\<close> is a store below the array. Neither \<open>fat32_open_file\<close> nor \<open>fat32_open_dir\<close> stays defined.
\<close>

theorem subdirectory_path_undefined:
  assumes "plain nm" "length nm < 7" "nm \<noteq> []"
  shows "fat32_open_file junk (bytes ''/fat32/'' @ nm @ 0x2f # rest) st = None \<and>
    fat32_open_dir junk (bytes ''/fat32/'' @ nm @ 0x2f # rest) st = None"
proof -
  have "next_slash (drop 1 (bytes ''/fat32/'' @ nm @ 0x2f # rest)) = Some 5" by (simp add: next_slash_def)
  then have "open_dir (bytes ''/fat32/'' @ nm @ 0x2f # rest) junk st = None"
    unfolding open_dir_def using parse_sub [OF assms, of rest] by simp
  then show ?thesis by (simp only: fat32_open_file_def fat32_open_dir_def Option.bind.simps)
qed

lemma subdirectory_path_undefined_witness:
  "fat32_open_file (replicate 12 0) (bytes ''/fat32/'' @ bytes ''docs'' @ 0x2f # bytes ''a'' @ [0]) demo_fat = None"
  by (rule subdirectory_path_undefined [THEN conjunct1]) simp_all

end
