(* ===== verification/Kernel.thy ===== *)
theory Kernel
  imports Vma Fat32
begin

unbundle bit_operations_syntax

text \<open>
  The state of the kernel proper: the task table, the wait queue and the structures tasks point to (\<open>proc.h\<close>, \<open>signal.h\<close>,
  \<open>reg.h\<close>). Structures live in typed heaps by address, as the areas of \<open>Vma\<close>; page tables, the arrays of children and user
  pages are the words of \<open>vmem\<close>. A function pointer is a name.
\<close>

subsection \<open>proc.h\<close>

definition TASK_RUNNING :: u64 where [kdefs]: "TASK_RUNNING = 0"
definition TASK_ZOMBIE :: u64 where [kdefs]: "TASK_ZOMBIE = 1"
definition TASK_INTERRUPTIBLE :: u64 where [kdefs]: "TASK_INTERRUPTIBLE = 2"
definition TASK_STOPPED :: u64 where [kdefs]: "TASK_STOPPED = 3"
definition NR_TASKS :: nat where [kdefs]: "NR_TASKS = 1 + 8"
definition PRIORITY_MIN :: int where [kdefs]: "PRIORITY_MIN = 1"
definition PRIORITY_MAX :: int where [kdefs]: "PRIORITY_MAX = 10"

record thread_struct =
  ra :: u64
  sp :: u64
  s_regs :: "u64 list"
  sepc :: u64
  sstatus :: u64
  sscratch :: u64
  stval :: u64
  scause :: u64

record task_struct =
  t_pid :: u64
  t_fpid :: u64
  t_cpid :: u64
  t_child_cnt :: u64
  t_state :: u64
  t_priority :: u64
  t_counter :: u64
  t_thread :: thread_struct
  t_pgd :: u64
  t_mm :: u64
  t_files :: u64
  t_signal :: u64
  t_exit_code :: u8

record wait_task =
  w_valid :: u64
  w_mask :: u64

subsection \<open>reg.h and csr.h\<close>

definition RISCV_REG_A0 :: nat where [kdefs]: "RISCV_REG_A0 = 10"
definition RISCV_REG_A1 :: nat where [kdefs]: "RISCV_REG_A1 = 11"
definition RISCV_REG_A2 :: nat where [kdefs]: "RISCV_REG_A2 = 12"
definition RISCV_REG_A3 :: nat where [kdefs]: "RISCV_REG_A3 = 13"
definition RISCV_REG_A4 :: nat where [kdefs]: "RISCV_REG_A4 = 14"
definition RISCV_REG_A5 :: nat where [kdefs]: "RISCV_REG_A5 = 15"
definition RISCV_REG_A7 :: nat where [kdefs]: "RISCV_REG_A7 = 17"

record pt_regs =
  regs_x :: "u64 list"
  regs_sepc :: u64
  regs_sscratch :: u64

definition CSR_SSTATUS_SPP :: nat where [kdefs]: "CSR_SSTATUS_SPP = 8"
definition CSR_SSTATUS_SUM :: nat where [kdefs]: "CSR_SSTATUS_SUM = 18"

definition csr_modify :: "u64 \<Rightarrow> u64 \<Rightarrow> u64 \<Rightarrow> u64" where
  "csr_modify csr mask' val = (csr AND NOT mask') OR (val AND mask')"

definition csr_set_bit :: "nat \<Rightarrow> u64 \<Rightarrow> u64 \<Rightarrow> u64" where
  "csr_set_bit b val csr = csr_modify csr (push_bit b 1) (push_bit b val)"

subsection \<open>signum.h and signal.h\<close>

definition NSIG :: nat where [kdefs]: "NSIG = 32"
definition SIGINT :: nat where [kdefs]: "SIGINT = 2"
definition SIGCHLD :: nat where [kdefs]: "SIGCHLD = 17"
definition SIGSTOP :: nat where [kdefs]: "SIGSTOP = 19"

datatype sig_handle_type = SIG_DFL | SIG_IGN | SIG_CST | SIG_CST_EXT

datatype k_handler = Sigint_handler | Sigstop_handler | Sigchld_handler

record k_sigaction =
  handle_type :: sig_handle_type
  k_handler :: "k_handler option"
  u_handler :: u64
  u_ext_handler :: u64

record signal_struct =
  signal_pending :: u32
  action :: "k_sigaction list"

subsection \<open>The state\<close>

text \<open>
  \<open>ksyms\<close> holds the addresses the linker chose. \<open>con_in\<close> are the answers of the console to the calls that read it,
  \<open>con_takes\<close> the number of bytes it takes of a write, \<open>con_out\<close> the bytes written to it; \<open>junk\<close> the contents of the
  uninitialised local arrays of the calls to come; \<open>switches\<close> the calls of \<open>__switch_to\<close>.
\<close>

record ksyms =
  swapper_pg_dir :: u64
  suapp :: u64
  euapp :: u64
  dummy_entry :: u64
  ret_from_fork :: u64

record kst =
  kvm :: vm
  kmm :: mmst
  task_at :: "u64 \<Rightarrow> task_struct"
  signal_at :: "u64 \<Rightarrow> signal_struct"
  files_at :: "u64 \<Rightarrow> files_struct"
  pt_regs_at :: "u64 \<Rightarrow> pt_regs"
  task :: "u64 list"
  wait_queue :: "wait_task list"
  idle :: u64
  current :: u64
  num_tasks :: u64
  seed :: u64
  fat :: fat_st
  con_in :: "u8 list list"
  con_takes :: "u8 list \<Rightarrow> nat"
  con_out :: "u8 list"
  junk :: "nat \<Rightarrow> u8 list"
  switches :: "(u64 \<times> u64) list"
  ksym :: ksyms

text \<open>
  What a function that may call \<open>schedule\<close> or \<open>ret_from_execve\<close> ends with: it returned; it gave the processor to another task, and
  the code after the call runs when the task is switched back to; or it left the kernel for a new program.
\<close>

datatype 'a outcome = Returned 'a kst | Yielded kst | Entered kst

text \<open>The state after it, whoever runs.\<close>

fun state_of :: "'a outcome \<Rightarrow> kst" where
  "state_of (Returned r st) = st"
| "state_of (Yielded st) = st"
| "state_of (Entered st) = st"

text \<open>The code after a call, when the call returned.\<close>

fun and_then :: "'a outcome \<Rightarrow> ('a \<Rightarrow> kst \<Rightarrow> 'b outcome option) \<Rightarrow> 'b outcome option" where
  "and_then (Returned r st) f = f r st"
| "and_then (Yielded st) f = Some (Yielded st)"
| "and_then (Entered st) f = Some (Entered st)"

definition upd_task :: "u64 \<Rightarrow> (task_struct \<Rightarrow> task_struct) \<Rightarrow> kst \<Rightarrow> kst" where
  "upd_task p f st = st\<lparr>task_at := (task_at st)(p := f (task_at st p))\<rparr>"

abbreviation upd_cur :: "(task_struct \<Rightarrow> task_struct) \<Rightarrow> kst \<Rightarrow> kst" where
  "upd_cur f st \<equiv> upd_task (current st) f st"

abbreviation cur :: "kst \<Rightarrow> task_struct" where "cur st \<equiv> task_at st (current st)"

text \<open>\<open>task[i]->\<dots>\<close>: the entry must be inside the table and not null.\<close>

definition task_ptr :: "kst \<Rightarrow> nat \<Rightarrow> u64 option" where
  "task_ptr st i = do { p \<leftarrow> rd (task st) i; if p = 0 then None else Some p }"

definition set_kvm :: "vm \<Rightarrow> kst \<Rightarrow> kst" where "set_kvm v st = st\<lparr>kvm := v\<rparr>"

definition k_alloc_page :: "kst \<Rightarrow> (u64 \<times> kst) option" where
  "k_alloc_page st =
     do { (p, b) \<leftarrow> alloc_page (vbuddy (kvm st)); Some (p, st\<lparr>kvm := (kvm st)\<lparr>vbuddy := b\<rparr>\<rparr>) }"

definition k_free_pages :: "u64 \<Rightarrow> kst \<Rightarrow> kst option" where
  "k_free_pages p st = do { b \<leftarrow> free_pages p (vbuddy (kvm st)); Some (st\<lparr>kvm := (kvm st)\<lparr>vbuddy := b\<rparr>\<rparr>) }"

definition k_write :: "u64 \<Rightarrow> u64 \<Rightarrow> kst \<Rightarrow> kst" where
  "k_write a v st = st\<lparr>kvm := (kvm st)\<lparr>vmem := (vmem (kvm st))(a := v)\<rparr>\<rparr>"

subsection \<open>Bytes\<close>

text \<open>The bytes of the word memory, little-endian.\<close>

definition get_byte :: "(u64 \<Rightarrow> u64) \<Rightarrow> u64 \<Rightarrow> u8" where
  "get_byte m a = ucast (drop_bit (8 * unat (a AND 7)) (m (a AND NOT 7)))"

definition set_byte :: "u64 \<Rightarrow> u8 \<Rightarrow> (u64 \<Rightarrow> u64) \<Rightarrow> u64 \<Rightarrow> u64" where
  "set_byte a b m =
     m(a AND NOT 7 := (m (a AND NOT 7) AND NOT (push_bit (8 * unat (a AND 7)) 0xff)) OR push_bit (8 * unat (a AND 7)) (ucast b))"

fun set_bytes :: "u64 \<Rightarrow> u8 list \<Rightarrow> (u64 \<Rightarrow> u64) \<Rightarrow> u64 \<Rightarrow> u64" where
  "set_bytes a [] m = m"
| "set_bytes a (b # bs) m = set_bytes (a + 1) bs (set_byte a b m)"

definition get_bytes :: "u64 \<Rightarrow> nat \<Rightarrow> (u64 \<Rightarrow> u64) \<Rightarrow> u8 list" where
  "get_bytes a n m = map (\<lambda>i. get_byte m (a + of_nat i)) [0 ..< n]"

end
