(* ===== verification/Sched.thy ===== *)
theory Sched
  imports Kernel
begin

unbundle bit_operations_syntax

text \<open>
  The scheduler of \<open>proc.c\<close>: the choice of the next task, the refill of the time slices, the timer. \<open>__switch_to\<close>
  is assembly; a switch is the new value of \<open>current\<close> and an entry of \<open>switches\<close>.
\<close>

subsection \<open>Operations\<close>

definition max_step :: "kst \<Rightarrow> nat \<Rightarrow> nat \<Rightarrow> nat option" where
  "max_step st i max_cnt_pid =
     do { p \<leftarrow> rd (task st) i;
          if p = 0 then Some max_cnt_pid
          else if t_state (task_at st p) \<noteq> TASK_RUNNING then Some max_cnt_pid
          else do { q \<leftarrow> task_ptr st max_cnt_pid;
                    if t_counter (task_at st p) > t_counter (task_at st q) then Some i else Some max_cnt_pid } }"

definition get_max_cnt_pid :: "kst \<Rightarrow> nat option" where
  "get_max_cnt_pid st = for_range 1 (unat (num_tasks st)) (max_step st) 0"

fun find_null :: "u64 list \<Rightarrow> nat list \<Rightarrow> nat option option" where
  "find_null ts [] = Some None"
| "find_null ts (i # is) = do { p \<leftarrow> rd ts i; if p = 0 then Some (Some i) else find_null ts is }"

definition get_avail_task_id :: "kst \<Rightarrow> (nat \<times> kst) option" where
  "get_avail_task_id st =
     do { r \<leftarrow> find_null (task st) [1 ..< unat (num_tasks st)];
          (case r of Some i \<Rightarrow> Some (i, st)
           | None \<Rightarrow> Some (unat (num_tasks st), st\<lparr>num_tasks := num_tasks st + 1\<rparr>)) }"

definition switch_to :: "u64 \<Rightarrow> kst \<Rightarrow> unit outcome" where
  "switch_to next st =
     (if t_pid (cur st) \<noteq> t_pid (task_at st next) then
        Yielded (st\<lparr>current := next, switches := switches st @ [(current st, next)]\<rparr>)
      else Returned () st)"

definition refill_step :: "nat \<Rightarrow> kst \<Rightarrow> kst option" where
  "refill_step i st =
     do { p \<leftarrow> rd (task st) i;
          if p = 0 then Some st else Some (upd_task p (\<lambda>t. t\<lparr>t_counter := t_priority t\<rparr>) st) }"

definition schedule :: "kst \<Rightarrow> unit outcome option" where
  "schedule st =
     do { m \<leftarrow> get_max_cnt_pid st;
          (m, st) \<leftarrow> (if m = 0 then
                        do { st \<leftarrow> for_range 1 (unat (num_tasks st)) refill_step st;
                             m \<leftarrow> get_max_cnt_pid st; Some (m, st) }
                      else Some (m, st));
          p \<leftarrow> task_ptr st m;
          Some (switch_to p st) }"

definition do_timer :: "kst \<Rightarrow> unit outcome option" where
  "do_timer st =
     (if t_counter (cur st) = 0 then schedule st
      else let st = upd_cur (\<lambda>t. t\<lparr>t_counter := t_counter t - 1\<rparr>) st
           in if t_counter (cur st) = 0 then schedule st else Some (Returned () st))"

text \<open>One turn of the loop of \<open>dummy_task\<close>; the locals are \<open>local\<close> and \<open>prev_cnt\<close>.\<close>

definition dummy_turn :: "u32 \<Rightarrow> u32 \<Rightarrow> kst \<Rightarrow> u32 \<times> u32 \<times> kst" where
  "dummy_turn loc prev_cnt st =
     (if t_counter (cur st) \<noteq> ucast prev_cnt then
        let st = (if t_counter (cur st) = 1 then upd_cur (\<lambda>t. t\<lparr>t_counter := 0\<rparr>) st else st)
        in (loc + 1, ucast (t_counter (cur st)), st)
      else (loc, prev_cnt, st))"

subsection \<open>A well-formed task table\<close>

definition slots :: "kst \<Rightarrow> nat set" where
  "slots st = {i. 1 \<le> i \<and> i < unat (num_tasks st) \<and> task st ! i \<noteq> 0}"

definition slot_task :: "kst \<Rightarrow> nat \<Rightarrow> task_struct" where
  "slot_task st i = task_at st (task st ! i)"

definition runnable :: "kst \<Rightarrow> nat set" where
  "runnable st = {i \<in> slots st. t_state (slot_task st i) = TASK_RUNNING}"

definition sched_wf :: "kst \<Rightarrow> bool" where
  "sched_wf st \<longleftrightarrow> unat (num_tasks st) \<le> length (task st) \<and> 1 \<le> unat (num_tasks st) \<and> task st ! 0 \<noteq> 0 \<and>
     t_counter (slot_task st 0) = 0 \<and> t_pid (slot_task st 0) = 0 \<and>
     (\<forall>i\<in>slots st. t_pid (slot_task st i) = of_nat i) \<and>
     (\<exists>i. (i = 0 \<or> i \<in> slots st) \<and> current st = task st ! i)"

subsection \<open>The choice\<close>

definition is_choice :: "kst \<Rightarrow> nat \<Rightarrow> nat \<Rightarrow> bool" where
  "is_choice st n m \<longleftrightarrow>
     (m = 0 \<and> (\<forall>j\<in>runnable st. j < n \<longrightarrow> t_counter (slot_task st j) = 0)) \<or>
     (m \<in> runnable st \<and> m < n \<and> 0 < t_counter (slot_task st m) \<and>
      (\<forall>j\<in>runnable st. j < n \<longrightarrow> t_counter (slot_task st j) \<le> t_counter (slot_task st m)) \<and>
      (\<forall>j\<in>runnable st. j < m \<longrightarrow> t_counter (slot_task st j) < t_counter (slot_task st m)))"

lemma max_step_choice:
  assumes wf: "sched_wf st" and n: "1 \<le> n" "n < unat (num_tasks st)" and m: "is_choice st n m"
  shows "\<exists>m'. max_step st n m = Some m' \<and> is_choice st (Suc n) m'"
proof -
  have len: "n < length (task st)" and z: "task st ! 0 \<noteq> 0" "0 < length (task st)" "t_counter (slot_task st 0) = 0"
    using wf n by (auto simp: sched_wf_def)
  show ?thesis
  proof (cases "n \<in> runnable st")
    case False
    then have "max_step st n m = Some m"
      using len n by (auto simp: max_step_def runnable_def slots_def slot_task_def)
    moreover have "j \<in> runnable st \<Longrightarrow> j < Suc n \<Longrightarrow> j < n" for j using False by (metis less_Suc_eq)
    ultimately show ?thesis using m by (auto simp: is_choice_def)
  next
    case True
    then have p: "task st ! n \<noteq> 0" "t_state (slot_task st n) = TASK_RUNNING" by (auto simp: runnable_def slots_def)
    have q: "task_ptr st m = Some (task st ! m)"
      using m z wf by (auto simp: is_choice_def task_ptr_def runnable_def slots_def sched_wf_def)
    have s: "max_step st n m = Some (if t_counter (slot_task st n) > t_counter (slot_task st m) then n else m)"
      using len p q by (simp add: max_step_def slot_task_def)
    have "is_choice st (Suc n) (if t_counter (slot_task st n) > t_counter (slot_task st m) then n else m)"
    proof (cases "t_counter (slot_task st n) > t_counter (slot_task st m)")
      case gt: True
      have lt: "t_counter (slot_task st j) < t_counter (slot_task st n)" if "j \<in> runnable st" "j < n" for j
        using m that gt z(3) unfolding is_choice_def by (metis (no_types, lifting) dual_order.strict_trans2)
      have "t_counter (slot_task st j) \<le> t_counter (slot_task st n)" if "j \<in> runnable st" "j < Suc n" for j
        using that lt [of j] by (cases "j = n") (auto intro: less_imp_le)
      moreover have "0 < t_counter (slot_task st n)" using gt by (rule order_le_less_trans [OF word_zero_le])
      ultimately show ?thesis using gt True lt unfolding is_choice_def by auto
    next
      case le: False
      then show ?thesis using m z(3) True unfolding is_choice_def by (auto simp: less_Suc_eq not_less)
    qed
    then show ?thesis using s by auto
  qed
qed

lemma get_max_cnt_pid_choice:
  assumes "sched_wf st"
  shows "\<exists>m. get_max_cnt_pid st = Some m \<and> is_choice st (unat (num_tasks st)) m"
proof -
  have "is_choice st 1 0" by (auto simp: is_choice_def runnable_def slots_def)
  then show ?thesis
    unfolding get_max_cnt_pid_def
    by (rule for_range_total) (use assms max_step_choice [OF assms] in \<open>auto simp: sched_wf_def\<close>)
qed

lemma task_ptr_slot: "sched_wf st \<Longrightarrow> i = 0 \<or> i \<in> slots st \<Longrightarrow> task_ptr st i = Some (task st ! i)"
  by (auto simp: task_ptr_def sched_wf_def slots_def rd_def)

lemma slot_inj:
  assumes "sched_wf st" "i = 0 \<or> i \<in> slots st" "j = 0 \<or> j \<in> slots st" "t_pid (slot_task st i) = t_pid (slot_task st j)"
  shows "i = j"
proof -
  have b: "k < 2 ^ LENGTH(64)" if "k = 0 \<or> k \<in> slots st" for k
    using that unat_u64_less [of "num_tasks st"] by (auto simp: slots_def)
  have p: "t_pid (slot_task st k) = of_nat k" if "k = 0 \<or> k \<in> slots st" for k
    using that assms(1) by (auto simp: sched_wf_def)
  have "(of_nat i :: u64) = of_nat j" using assms(4) p [OF assms(2)] p [OF assms(3)] by simp
  then have "unat (of_nat i :: u64) = unat (of_nat j :: u64)" by simp
  then show ?thesis using b [OF assms(2)] b [OF assms(3)] by (simp add: unsigned_of_nat take_bit_nat_eq_self)
qed

lemma slot_ptr_inj:
  assumes "sched_wf st" "i = 0 \<or> i \<in> slots st" "j = 0 \<or> j \<in> slots st" "task st ! i = task st ! j"
  shows "i = j"
  using slot_inj [OF assms(1-3)] assms(4) by (simp add: slot_task_def)

text \<open>A switch to the slot \<open>m\<close> only changes who runs.\<close>

lemma switch_to_slot:
  assumes wf: "sched_wf st" and m: "m = 0 \<or> m \<in> slots st"
  shows "\<exists>sw. state_of (switch_to (task st ! m) st) = st\<lparr>current := task st ! m, switches := sw\<rparr>"
    "sched_wf (state_of (switch_to (task st ! m) st))"
proof -
  obtain i where i: "i = 0 \<or> i \<in> slots st" "current st = task st ! i" using wf by (auto simp: sched_wf_def)
  show e: "\<exists>sw. state_of (switch_to (task st ! m) st) = st\<lparr>current := task st ! m, switches := sw\<rparr>"
  proof (cases "t_pid (cur st) = t_pid (task_at st (task st ! m))")
    case True
    then have "i = m" using slot_inj [OF wf i(1) m] i(2) by (simp add: slot_task_def)
    then have e: "task st ! m = current st" using i(2) by simp
    have "st\<lparr>current := task st ! m, switches := switches st\<rparr> = st" unfolding e by simp
    then show ?thesis by (intro exI [of _ "switches st"]) (simp add: switch_to_def True)
  next
    case False
    then show ?thesis by (auto simp: switch_to_def)
  qed
  then obtain sw where sw: "state_of (switch_to (task st ! m) st) = st\<lparr>current := task st ! m, switches := sw\<rparr>" by blast
  show "sched_wf (state_of (switch_to (task st ! m) st))"
  proof -
    let ?s = "st\<lparr>current := task st ! m, switches := sw\<rparr>"
    have "slots ?s = slots st" "slot_task ?s = slot_task st" by (simp_all add: slots_def slot_task_def fun_eq_iff)
    moreover have "\<exists>i. (i = 0 \<or> i \<in> slots st) \<and> current ?s = task ?s ! i" using m by (intro exI [of _ m]) simp
    ultimately show ?thesis using wf unfolding sw sched_wf_def by simp
  qed
qed

lemma schedule_choice:
  assumes wf: "sched_wf st" and i: "i \<in> runnable st" "0 < t_counter (slot_task st i)"
  shows "\<exists>m. m \<in> runnable st \<and> 0 < t_counter (slot_task st m) \<and> is_choice st (unat (num_tasks st)) m \<and>
    schedule st = Some (switch_to (task st ! m) st)"
proof -
  obtain m where m: "get_max_cnt_pid st = Some m" "is_choice st (unat (num_tasks st)) m"
    using get_max_cnt_pid_choice [OF wf] by blast
  have "i < unat (num_tasks st)" using i by (simp add: runnable_def slots_def)
  then have r: "m \<in> runnable st" "0 < t_counter (slot_task st m)" using m(2) i by (auto simp: is_choice_def)
  then have "m \<noteq> 0" "task_ptr st m = Some (task st ! m)"
    using wf by (auto simp: runnable_def slots_def task_ptr_def sched_wf_def)
  then show ?thesis using m r by (auto simp: schedule_def)
qed

subsection \<open>Ticks\<close>

fun ticks :: "nat \<Rightarrow> kst \<Rightarrow> kst option" where
  "ticks 0 st = Some st"
| "ticks (Suc k) st = do { r \<leftarrow> do_timer st; ticks k (state_of r) }"

definition work :: "kst \<Rightarrow> nat" where
  "work st = (\<Sum>i\<in>slots st. unat (t_counter (slot_task st i)))"

lemma finite_slots [simp]: "finite (slots st)"
  by (rule finite_subset [of _ "{..<unat (num_tasks st)}"]) (auto simp: slots_def)

definition dec_cur :: "kst \<Rightarrow> kst" where
  "dec_cur st = upd_cur (\<lambda>t. t\<lparr>t_counter := t_counter t - 1\<rparr>) st"

lemma dec_cur_slots:
  assumes wf: "sched_wf st" and c: "0 < t_counter (cur st)"
  obtains k where "k \<in> slots st" "current st = task st ! k" "slots (dec_cur st) = slots st" "task (dec_cur st) = task st"
    "current (dec_cur st) = current st" "num_tasks (dec_cur st) = num_tasks st"
    "\<And>j. j = 0 \<or> j \<in> slots st \<Longrightarrow> slot_task (dec_cur st) j =
       (if j = k then (slot_task st j)\<lparr>t_counter := t_counter (slot_task st j) - 1\<rparr> else slot_task st j)"
proof -
  obtain k where k: "k = 0 \<or> k \<in> slots st" "current st = task st ! k" using wf by (auto simp: sched_wf_def)
  have "k \<noteq> 0"
  proof
    assume "k = 0"
    then have "t_counter (cur st) = 0" using wf k(2) by (simp add: sched_wf_def slot_task_def)
    then show False using c by simp
  qed
  then have ks: "k \<in> slots st" using k(1) by simp
  have "slots (dec_cur st) = slots st" "task (dec_cur st) = task st" "current (dec_cur st) = current st"
    "num_tasks (dec_cur st) = num_tasks st"
    by (simp_all add: slots_def dec_cur_def upd_task_def)
  moreover have "slot_task (dec_cur st) j =
       (if j = k then (slot_task st j)\<lparr>t_counter := t_counter (slot_task st j) - 1\<rparr> else slot_task st j)"
    if "j = 0 \<or> j \<in> slots st" for j
    using slot_ptr_inj [OF wf that k(1)] k(2) by (auto simp: dec_cur_def upd_task_def slot_task_def)
  ultimately show thesis using that ks k(2) by blast
qed

lemma dec_cur_wf:
  assumes wf: "sched_wf st" and c: "0 < t_counter (cur st)"
  shows "sched_wf (dec_cur st)" "runnable (dec_cur st) = runnable st" "Suc (work (dec_cur st)) = work st"
proof -
  obtain k where k: "k \<in> slots st" "current st = task st ! k" "slots (dec_cur st) = slots st" "task (dec_cur st) = task st"
    "current (dec_cur st) = current st" "num_tasks (dec_cur st) = num_tasks st"
    "\<And>j. j = 0 \<or> j \<in> slots st \<Longrightarrow> slot_task (dec_cur st) j =
       (if j = k then (slot_task st j)\<lparr>t_counter := t_counter (slot_task st j) - 1\<rparr> else slot_task st j)"
    using dec_cur_slots [OF assms] by blast
  have k0: "k \<noteq> 0" using k(1) by (simp add: slots_def)
  show "sched_wf (dec_cur st)" using wf k0 by (auto simp: sched_wf_def k(3-7))
  show "runnable (dec_cur st) = runnable st" by (auto simp: runnable_def k(3,7) split: if_splits)
  have "0 < unat (t_counter (slot_task st k))" using c k(2) by (simp add: slot_task_def word_less_nat_alt)
  moreover have "unat (t_counter (slot_task st k) - 1) = unat (t_counter (slot_task st k)) - 1"
    using c k(2) by (simp add: slot_task_def unat_minus_one)
  moreover have "work (dec_cur st) = unat (t_counter (slot_task st k) - 1) + (\<Sum>i\<in>slots st - {k}. unat (t_counter (slot_task st i)))"
    unfolding work_def k(3) by (subst sum.remove [OF finite_slots k(1)]) (simp add: k(1,7))
  moreover have "work st = unat (t_counter (slot_task st k)) + (\<Sum>i\<in>slots st - {k}. unat (t_counter (slot_task st i)))"
    unfolding work_def by (rule sum.remove [OF finite_slots k(1)])
  ultimately show "Suc (work (dec_cur st)) = work st" by simp
qed

text \<open>What a tick does to a task that waits for its turn.\<close>

definition waiting :: "nat \<Rightarrow> u64 \<Rightarrow> kst \<Rightarrow> bool" where
  "waiting i c st \<longleftrightarrow> sched_wf st \<and> i \<in> runnable st \<and> t_counter (slot_task st i) = c \<and> 0 < c"

lemma schedule_waiting:
  assumes "waiting i c st"
  shows "\<exists>r. schedule st = Some r \<and> waiting i c (state_of r) \<and> 0 < t_counter (cur (state_of r)) \<and> work (state_of r) = work st \<and>
    task (state_of r) = task st"
proof -
  have wf: "sched_wf st" and i: "i \<in> runnable st" "t_counter (slot_task st i) = c" "0 < c" using assms by (auto simp: waiting_def)
  have pos: "0 < t_counter (slot_task st i)" using i by simp
  obtain m where m: "m \<in> runnable st" "0 < t_counter (slot_task st m)" "schedule st = Some (switch_to (task st ! m) st)"
    using schedule_choice [OF wf i(1) pos] by blast
  have ms: "m \<in> slots st" using m(1) by (simp add: runnable_def)
  obtain sw where sw: "state_of (switch_to (task st ! m) st) = st\<lparr>current := task st ! m, switches := sw\<rparr>"
    using switch_to_slot(1) [OF wf disjI2 [OF ms]] by blast
  have "waiting i c (state_of (switch_to (task st ! m) st))"
    using switch_to_slot(2) [OF wf disjI2 [OF ms]] i unfolding sw by (simp add: waiting_def runnable_def slots_def slot_task_def)
  moreover have "0 < t_counter (cur (state_of (switch_to (task st ! m) st)))" "task (state_of (switch_to (task st ! m) st)) = task st"
    "work (state_of (switch_to (task st ! m) st)) = work st"
    using m(2) unfolding sw by (simp_all add: slot_task_def work_def slots_def)
  ultimately show ?thesis using m(3) by blast
qed

lemma tick_waiting:
  assumes w: "waiting i c st" and ne: "current st \<noteq> task st ! i"
  shows "\<exists>r. do_timer st = Some r \<and> waiting i c (state_of r) \<and> 0 < t_counter (cur (state_of r)) \<and> task (state_of r) = task st \<and>
    work (state_of r) = (if 0 < t_counter (cur st) then work st - 1 else work st) \<and> (0 < t_counter (cur st) \<longrightarrow> 0 < work st)"
proof (cases "0 < t_counter (cur st)")
  case False
  then have "t_counter (cur st) = 0" by (simp add: word_gt_0)
  then show ?thesis using schedule_waiting [OF w] False by (auto simp: do_timer_def)
next
  case True
  have wf: "sched_wf st" and i: "i \<in> runnable st" "t_counter (slot_task st i) = c" "0 < c" using w by (auto simp: waiting_def)
  have isl: "i \<in> slots st" using i(1) by (simp add: runnable_def)
  obtain k where k: "current st = task st ! k"
    "\<And>j. j = 0 \<or> j \<in> slots st \<Longrightarrow> slot_task (dec_cur st) j =
       (if j = k then (slot_task st j)\<lparr>t_counter := t_counter (slot_task st j) - 1\<rparr> else slot_task st j)"
    using dec_cur_slots [OF wf True] by metis
  have "i \<noteq> k" using ne k(1) by auto
  then have si: "slot_task (dec_cur st) i = slot_task st i" using k(2) isl by simp
  have w': "waiting i c (dec_cur st)" using dec_cur_wf [OF wf True] i si by (simp add: waiting_def)
  have td: "task (dec_cur st) = task st" by (simp add: dec_cur_def upd_task_def)
  have wk: "work (dec_cur st) = work st - 1" "0 < work st" using dec_cur_wf(3) [OF wf True] by simp_all
  show ?thesis
  proof (cases "t_counter (cur (dec_cur st)) = 0")
    case z: True
    have "do_timer st = schedule (dec_cur st)" using True z by (simp add: do_timer_def dec_cur_def [symmetric] word_gt_0)
    then show ?thesis using schedule_waiting [OF w'] True wk td by auto
  next
    case nz: False
    have "do_timer st = Some (Returned () (dec_cur st))" using True nz by (simp add: do_timer_def dec_cur_def [symmetric] word_gt_0)
    then show ?thesis using True nz w' wk td by (simp add: word_gt_0)
  qed
qed

lemma waiting_reached:
  assumes "waiting i c st" "0 < t_counter (cur st)"
  shows "\<exists>k\<le>work st. \<exists>st'. ticks k st = Some st' \<and> current st' = task st ! i \<and> t_counter (cur st') = c"
  using assms
proof (induction "work st" arbitrary: st rule: less_induct)
  case less
  show ?case
  proof (cases "current st = task st ! i")
    case True
    then show ?thesis using less.prems(1) by (auto simp: waiting_def slot_task_def intro!: exI [of _ 0])
  next
    case False
    obtain r where r: "do_timer st = Some r" "waiting i c (state_of r)" "0 < t_counter (cur (state_of r))" "task (state_of r) = task st"
      "work (state_of r) = work st - 1" "0 < work st"
      using tick_waiting [OF less.prems(1) False] less.prems(2) by auto
    have "work (state_of r) < work st" using r(5,6) by simp
    from less.hyps [OF this r(2,3)] obtain k st' where k: "k \<le> work (state_of r)" "ticks k (state_of r) = Some st'"
      "current st' = task st ! i" "t_counter (cur st') = c"
      by (auto simp: r(4))
    have "ticks (Suc k) st = Some st'" using r(1) k(2) by simp
    moreover have "Suc k \<le> work st" using k(1) r(5,6) by simp
    ultimately show ?thesis using k(3,4) by blast
  qed
qed

subsection \<open>A new round\<close>

definition refilled :: "kst \<Rightarrow> kst \<Rightarrow> bool" where
  "refilled st st' \<longleftrightarrow> task st' = task st \<and> num_tasks st' = num_tasks st \<and> current st' = current st \<and>
     slot_task st' 0 = slot_task st 0 \<and>
     (\<forall>i\<in>slots st. slot_task st' i = (slot_task st i)\<lparr>t_counter := t_priority (slot_task st i)\<rparr>)"

lemma refill_ok:
  assumes wf: "sched_wf st"
  shows "\<exists>st'. for_range 1 (unat (num_tasks st)) refill_step st = Some st' \<and> refilled st st'"
proof -
  define P where "P n s \<longleftrightarrow> task s = task st \<and> num_tasks s = num_tasks st \<and> current s = current st \<and> slot_task s 0 = slot_task st 0 \<and>
    (\<forall>i\<in>slots st. slot_task s i = (if i < n then (slot_task st i)\<lparr>t_counter := t_priority (slot_task st i)\<rparr> else slot_task st i))" for n s
  have "\<exists>st'. for_range 1 (unat (num_tasks st)) refill_step st = Some st' \<and> P (unat (num_tasks st)) st'"
  proof (rule for_range_total)
    show "P 1 st" by (auto simp: P_def slots_def)
    show "1 \<le> unat (num_tasks st)" using wf by (simp add: sched_wf_def)
    fix k u
    assume k: "1 \<le> k" "k < unat (num_tasks st)" and u: "P k u"
    have len: "k < length (task u)" using wf k u by (simp add: sched_wf_def P_def)
    show "\<exists>v. refill_step k u = Some v \<and> P (Suc k) v"
    proof (cases "task st ! k = 0")
      case True
      then have "refill_step k u = Some u" using len u by (simp add: refill_step_def P_def)
      moreover have "k \<notin> slots st" using True by (simp add: slots_def)
      ultimately show ?thesis using u by (auto simp: P_def less_Suc_eq)
    next
      case False
      then have ks: "k \<in> slots st" using k by (simp add: slots_def)
      let ?v = "upd_task (task st ! k) (\<lambda>t. t\<lparr>t_counter := t_priority t\<rparr>) u"
      have "refill_step k u = Some ?v" using len u False by (simp add: refill_step_def P_def)
      moreover have "slot_task ?v j = (if j = k then (slot_task u k)\<lparr>t_counter := t_priority (slot_task u k)\<rparr> else slot_task u j)"
        if "j = 0 \<or> j \<in> slots st" for j
        using slot_ptr_inj [OF wf that, of k] ks u by (auto simp: slot_task_def upd_task_def P_def)
      moreover have "task ?v = task u" "num_tasks ?v = num_tasks u" "current ?v = current u" by (simp_all add: upd_task_def)
      ultimately show ?thesis using u k(1) ks by (auto simp: P_def less_Suc_eq)
    qed
  qed
  then show ?thesis by (auto simp: P_def refilled_def slots_def)
qed

lemma refilled_simps:
  assumes "refilled st st'"
  shows "slots st' = slots st" "runnable st' = runnable st" "sched_wf st \<Longrightarrow> sched_wf st'"
    "work st' = (\<Sum>i\<in>slots st. unat (t_priority (slot_task st i)))"
proof -
  show s: "slots st' = slots st" using assms by (simp add: refilled_def slots_def)
  show "runnable st' = runnable st" using assms by (auto simp: runnable_def s refilled_def)
  show "sched_wf st \<Longrightarrow> sched_wf st'" using assms by (simp add: sched_wf_def s) (simp add: refilled_def)
  show "work st' = (\<Sum>i\<in>slots st. unat (t_priority (slot_task st i)))"
    unfolding work_def s by (rule sum.cong) (use assms in \<open>auto simp: refilled_def\<close>)
qed

lemma schedule_round:
  assumes wf: "sched_wf st" and z: "\<forall>i\<in>runnable st. t_counter (slot_task st i) = 0"
  shows "\<exists>st' m. refilled st st' \<and> is_choice st' (unat (num_tasks st)) m \<and> schedule st = Some (switch_to (task st ! m) st')"
proof -
  obtain m where m: "get_max_cnt_pid st = Some m" "is_choice st (unat (num_tasks st)) m"
    using get_max_cnt_pid_choice [OF wf] by blast
  then have m0: "m = 0" using z by (auto simp: is_choice_def)
  obtain st' where st': "for_range 1 (unat (num_tasks st)) refill_step st = Some st'" "refilled st st'"
    using refill_ok [OF wf] by blast
  obtain m' where m': "get_max_cnt_pid st' = Some m'" "is_choice st' (unat (num_tasks st')) m'"
    using get_max_cnt_pid_choice [OF refilled_simps(3) [OF st'(2) wf]] by blast
  have "m' = 0 \<or> m' \<in> slots st'" using m'(2) by (auto simp: is_choice_def runnable_def)
  then have "task_ptr st' m' = Some (task st ! m')"
    using task_ptr_slot [OF refilled_simps(3) [OF st'(2) wf]] st'(2) by (simp add: refilled_def)
  then show ?thesis using m(1) m0 m' st' by (auto simp: schedule_def refilled_def)
qed

text \<open>A runnable task with a positive priority gets the processor: in this round, or in the next one.\<close>

definition total_priority :: "kst \<Rightarrow> nat" where
  "total_priority st = (\<Sum>i\<in>slots st. unat (t_priority (slot_task st i)))"

definition ready :: "nat \<Rightarrow> nat \<Rightarrow> kst \<Rightarrow> bool" where
  "ready i n st \<longleftrightarrow> sched_wf st \<and> i \<in> runnable st \<and> 0 < t_priority (slot_task st i) \<and> total_priority st = n"

lemma schedule_ready:
  assumes "ready i n st"
  shows "\<exists>r. schedule st = Some r \<and> ready i n (state_of r) \<and> 0 < t_counter (cur (state_of r)) \<and> task (state_of r) = task st \<and>
    (work (state_of r) = work st \<or> waiting i (t_counter (slot_task (state_of r) i)) (state_of r) \<and> work (state_of r) = n)"
proof -
  have wf: "sched_wf st" and i: "i \<in> runnable st" "0 < t_priority (slot_task st i)" "total_priority st = n"
    using assms by (auto simp: ready_def)
  have sw: "ready i n (state_of (switch_to (task s ! m) s)) \<and> 0 < t_counter (cur (state_of (switch_to (task s ! m) s))) \<and>
      task (state_of (switch_to (task s ! m) s)) = task s \<and> work (state_of (switch_to (task s ! m) s)) = work s \<and>
      slot_task (state_of (switch_to (task s ! m) s)) i = slot_task s i"
    if s: "ready i n s" and m: "m \<in> runnable s" "0 < t_counter (slot_task s m)" for s m
  proof -
    have ws: "sched_wf s" and ms: "m \<in> slots s" using s m by (auto simp: ready_def runnable_def)
    obtain l where l: "state_of (switch_to (task s ! m) s) = s\<lparr>current := task s ! m, switches := l\<rparr>"
      using switch_to_slot(1) [OF ws disjI2 [OF ms]] by blast
    have "sched_wf (s\<lparr>current := task s ! m, switches := l\<rparr>)" using switch_to_slot(2) [OF ws disjI2 [OF ms]] by (simp only: l)
    then show ?thesis using s m(2) unfolding l
      by (simp add: ready_def runnable_def slots_def slot_task_def work_def total_priority_def)
  qed
  show ?thesis
  proof (cases "\<exists>j\<in>runnable st. 0 < t_counter (slot_task st j)")
    case True
    then obtain j where j: "j \<in> runnable st" "0 < t_counter (slot_task st j)" by blast
    obtain m where m: "m \<in> runnable st" "0 < t_counter (slot_task st m)" "schedule st = Some (switch_to (task st ! m) st)"
      using schedule_choice [OF wf j] by blast
    show ?thesis using sw [OF assms m(1,2)] m(3) by blast
  next
    case False
    then have "\<forall>i\<in>runnable st. t_counter (slot_task st i) = 0" by (auto simp: word_gt_0)
    then obtain s m where s: "refilled st s" "is_choice s (unat (num_tasks st)) m" "schedule st = Some (switch_to (task st ! m) s)"
      using schedule_round [OF wf] by blast
    have isl: "i \<in> slots st" "i < unat (num_tasks st)" using i(1) by (auto simp: runnable_def slots_def)
    have e: "task s = task st" "slot_task s i = (slot_task st i)\<lparr>t_counter := t_priority (slot_task st i)\<rparr>"
      using s(1) isl(1) by (simp_all add: refilled_def)
    have pr: "total_priority s = n"
      using s(1) i(3) by (auto simp: total_priority_def refilled_simps(1) [OF s(1)] refilled_def intro!: sum.cong)
    have rs: "ready i n s" using i e pr refilled_simps [OF s(1)] wf by (simp add: ready_def)
    have "\<not> (\<forall>j\<in>runnable s. j < unat (num_tasks st) \<longrightarrow> t_counter (slot_task s j) = 0)"
      using i(1,2) isl(2) e(2) refilled_simps(2) [OF s(1)] by (auto simp: word_gt_0)
    then have m: "m \<in> runnable s" "0 < t_counter (slot_task s m)" using s(2) by (auto simp: is_choice_def)
    note w = sw [OF rs m]
    have "waiting i (t_counter (slot_task s i)) (state_of (switch_to (task s ! m) s))"
      using w i(2) e(2) by (simp add: waiting_def ready_def)
    moreover have "work s = n" using refilled_simps(4) [OF s(1)] i(3) by (simp add: total_priority_def)
    ultimately show ?thesis using w s(3) unfolding e(1) by auto
  qed
qed

lemma ready_reached:
  assumes "ready i n st" "0 < t_counter (cur st)"
  shows "\<exists>k\<le>work st + n. \<exists>st'. ticks k st = Some st' \<and> current st' = task st ! i"
  using assms
proof (induction "work st" arbitrary: st rule: less_induct)
  case less
  have wf: "sched_wf st" and i: "i \<in> runnable st" "0 < t_priority (slot_task st i)" "total_priority st = n"
    using less.prems(1) by (auto simp: ready_def)
  let ?d = "dec_cur st"
  obtain k where k: "k \<in> slots st" "current st = task st ! k" "slots ?d = slots st" "task ?d = task st" "num_tasks ?d = num_tasks st"
    "\<And>j. j = 0 \<or> j \<in> slots st \<Longrightarrow> slot_task ?d j =
       (if j = k then (slot_task st j)\<lparr>t_counter := t_counter (slot_task st j) - 1\<rparr> else slot_task st j)"
    using dec_cur_slots [OF wf less.prems(2)] by metis
  note dw = dec_cur_wf [OF wf less.prems(2)]
  have isl: "i \<in> slots st" using i(1) by (simp add: runnable_def)
  have tp: "total_priority ?d = n" using i(3) by (auto simp: total_priority_def k(3,6) intro!: sum.cong)
  have "t_priority (slot_task ?d i) = t_priority (slot_task st i)" using k(6) [of i] isl by (cases "i = k") auto
  then have rd: "ready i n ?d" using dw(1,2) i tp by (simp add: ready_def)
  have step: "\<exists>r. do_timer st = Some r \<and> ready i n (state_of r) \<and> 0 < t_counter (cur (state_of r)) \<and> task (state_of r) = task st \<and>
    (work (state_of r) = work ?d \<or> waiting i (t_counter (slot_task (state_of r) i)) (state_of r) \<and> work (state_of r) = n)"
  proof (cases "t_counter (cur ?d) = 0")
    case True
    then have "do_timer st = schedule ?d" using less.prems(2) by (simp add: do_timer_def dec_cur_def [symmetric] word_gt_0)
    then show ?thesis using schedule_ready [OF rd] k(4) by simp
  next
    case False
    then have "do_timer st = Some (Returned () ?d)" using less.prems(2) by (simp add: do_timer_def dec_cur_def [symmetric] word_gt_0)
    then show ?thesis using rd False k(4) by (simp add: word_gt_0)
  qed
  then obtain r where r: "do_timer st = Some r" "ready i n (state_of r)" "0 < t_counter (cur (state_of r))" "task (state_of r) = task st"
    "work (state_of r) = work ?d \<or> waiting i (t_counter (slot_task (state_of r) i)) (state_of r) \<and> work (state_of r) = n" by blast
  have "\<exists>k\<le>work ?d + n. \<exists>st'. ticks k (state_of r) = Some st' \<and> current st' = task st ! i"
    using r(5)
  proof
    assume w: "work (state_of r) = work ?d"
    then have "work (state_of r) < work st" using dw(3) by simp
    from less.hyps [OF this r(2,3)] show ?thesis unfolding w r(4) .
  next
    assume w: "waiting i (t_counter (slot_task (state_of r) i)) (state_of r) \<and> work (state_of r) = n"
    from waiting_reached [OF conjunct1 [OF w] r(3)] w show ?thesis
      unfolding r(4) by (metis le_add2 order_trans)
  qed
  then obtain k' st' where "k' \<le> work ?d + n" "ticks k' (state_of r) = Some st'" "current st' = task st ! i" by blast
  then have "ticks (Suc k') st = Some st' \<and> Suc k' \<le> work st + n" using r(1) dw(3) by simp
  then show ?case using \<open>current st' = task st ! i\<close> by blast
qed

end
