(* ===== verification/Files.thy ===== *)
theory Files
  imports Sched
begin

unbundle bit_operations_syntax

text \<open>
  Open files: \<open>fs/fs.c\<close>, \<open>fs/vfs.c\<close> and the console functions of \<open>printk.c\<close> and \<open>scank.c\<close> on data the kernel holds. A \<open>struct file *\<close>
  is the address of an entry of the 16 entries of a \<open>files_struct\<close>. The firmware's console is not code of the repository: its answers
  are fields of the state.
\<close>

subsection \<open>fcntl.h\<close>

definition O_RDONLY :: u32 where [kdefs]: "O_RDONLY = 0x0001"
definition O_WRONLY :: u32 where [kdefs]: "O_WRONLY = 0x0002"
definition O_DIRECTORY :: u32 where [kdefs]: "O_DIRECTORY = 0x200000"

subsection \<open>File pointers\<close>

definition sizeof_file :: u64 where [kdefs]: "sizeof_file = 144"

definition file_addr :: "u64 \<Rightarrow> nat \<Rightarrow> u64" where "file_addr files i = files + sizeof_file * of_nat i"

definition file_index :: "u64 \<Rightarrow> nat" where "file_index p = unat ((p - PGROUNDDOWN p) div sizeof_file)"

definition get_file :: "u64 \<Rightarrow> kst \<Rightarrow> file_t option" where
  "get_file p st = (if p = 0 then None else rd (files_at st (PGROUNDDOWN p)) (file_index p))"

definition set_file :: "u64 \<Rightarrow> file_t \<Rightarrow> kst \<Rightarrow> kst option" where
  "set_file p f st =
     (if p = 0 then None
      else do { fs \<leftarrow> wr (files_at st (PGROUNDDOWN p)) (file_index p) f;
                Some (st\<lparr>files_at := (files_at st)(PGROUNDDOWN p := fs)\<rparr>) })"

subsection \<open>The console\<close>

text \<open>
  \<open>scank_sbi_read\<close> stores the \<open>int\<close> -1 at the buffer and asks the firmware until the word is not -1. The result is the number the last
  call gave, and the bytes at the buffer.
\<close>

fun sbi_wait :: "nat \<Rightarrow> u8 list \<Rightarrow> u8 list list \<Rightarrow> (nat \<times> u8 list \<times> u8 list list) option" where
  "sbi_wait len buf [] = None"
| "sbi_wait len buf (bs # rest) =
     (let n = length (take len bs); buf = take len bs @ drop n buf
      in if take 4 buf = replicate 4 0xff then sbi_wait len buf rest else Some (n, buf, rest))"

definition scank_sbi_read :: "u64 \<Rightarrow> kst \<Rightarrow> (u64 \<times> u8 list \<times> kst) option" where
  "scank_sbi_read len st =
     do { (n, buf, rest) \<leftarrow> sbi_wait (unat len) (replicate 4 0xff) (con_in st);
          Some (of_nat n, buf, st\<lparr>con_in := rest\<rparr>) }"

definition printk_sbi_write :: "u8 list \<Rightarrow> kst \<Rightarrow> u64 \<times> kst" where
  "printk_sbi_write bs st =
     (let n = min (con_takes st bs) (length bs) in (of_nat n, st\<lparr>con_out := con_out st @ take n bs\<rparr>))"

subsection \<open>vfs.c\<close>

text \<open>\<open>uart_getchar\<close> returns what the read function returned, not the byte it stored.\<close>

definition uart_getchar :: "kst \<Rightarrow> (u8 \<times> kst) option" where
  "uart_getchar st = do { (ret, buf, st) \<leftarrow> scank_sbi_read 1 st; Some (ucast ret, st) }"

definition stdin_read :: "u64 \<Rightarrow> kst \<Rightarrow> (u64 \<times> u8 list \<times> kst) option" where
  "stdin_read len st =
     do { (bs, st) \<leftarrow> for_range 0 (unat len) (\<lambda>i (bs, st). do { (c, st) \<leftarrow> uart_getchar st;
                                                          Some (bs @ [c], snd (printk_sbi_write [c] st)) }) ([], st);
          Some (len, bs @ [0], st) }"

definition stdout_write :: "u8 list \<Rightarrow> kst \<Rightarrow> u64 \<times> kst" where
  "stdout_write buf st = printk_sbi_write buf st"

definition stderr_write :: "u8 list \<Rightarrow> kst \<Rightarrow> u64 \<times> kst" where
  "stderr_write buf st = printk_sbi_write buf st"

subsection \<open>fs.c\<close>

definition std_file :: "nat \<Rightarrow> file_t \<Rightarrow> file_t" where
  "std_file i f =
     (if i = 0 then f\<lparr>opened := 1, perms := FILE_READABLE, cfo := 0, lseek_fn := None, write_fn := None, read_fn := Some Stdin_read\<rparr>
      else if i = 1 then f\<lparr>opened := 1, perms := FILE_WRITABLE, cfo := 0, lseek_fn := None, write_fn := Some Stdout_write, read_fn := None\<rparr>
      else if i = 2 then f\<lparr>opened := 1, perms := FILE_WRITABLE, cfo := 0, lseek_fn := None, write_fn := Some Stderr_write, read_fn := None\<rparr>
      else f\<lparr>opened := 0, perms := 0, cfo := 0, lseek_fn := None, write_fn := None, read_fn := None\<rparr>)"

definition file_init :: "kst \<Rightarrow> (u64 \<times> kst) option" where
  "file_init st =
     do { (ret, st) \<leftarrow> k_alloc_page st;
          Some (ret, st\<lparr>files_at := (files_at st)(ret := map (\<lambda>i. std_file i (files_at st ret ! i)) [0 ..< MAX_FILE_NUMBER])\<rparr>) }"

definition get_fs_type :: "u8 list \<Rightarrow> u32" where
  "get_fs_type filename =
     (if take 7 filename = bytes ''/fat32/'' then FS_TYPE_FAT32
      else if take 6 filename = bytes ''/ext2/'' then FS_TYPE_EXT2
      else - 1)"

definition get_perm :: "u32 \<Rightarrow> u32" where
  "get_perm flgs =
     (let ret = 0;
          ret = (if flgs AND O_RDONLY \<noteq> 0 then ret OR FILE_READABLE else ret)
      in if flgs AND O_WRONLY \<noteq> 0 then ret OR FILE_WRITABLE else ret)"

text \<open>\<open>pathname\<close> is the memory at the path pointer; the copy into \<open>path[80]\<close> must fit.\<close>

definition file_open :: "u64 \<Rightarrow> u8 list \<Rightarrow> u32 \<Rightarrow> kst \<Rightarrow> (int \<times> kst) option" where
  "file_open p pathname flgs st =
     do { f \<leftarrow> get_file p st;
          n \<leftarrow> str_len pathname;
          (if n + 1 > MAX_PATH_LENGTH then None else
           let f = f\<lparr>opened := 1, perms := get_perm flgs, cfo := 0, fs_type := get_fs_type pathname, f_flags := flgs,
                     f_path := take (n + 1) pathname @ drop (n + 1) (f_path f)\<rparr>
           in if fs_type f = FS_TYPE_FAT32 then
                do { let f = f\<lparr>lseek_fn := Some Fat32_lseek, write_fn := Some Fat32_write\<rparr>;
                     (ff, fst') \<leftarrow> (if flgs AND O_DIRECTORY \<noteq> 0 then fat32_open_dir (junk st 0) pathname (fat st)
                                  else fat32_open_file (junk st 0) pathname (fat st));
                     let f = f\<lparr>read_fn := Some (if flgs AND O_DIRECTORY \<noteq> 0 then Fat32_read_dir else Fat32_read), fat32_file := ff\<rparr>;
                     st \<leftarrow> set_file p f (st\<lparr>fat := fst', junk := junk st \<circ> Suc\<rparr>);
                     Some (if f_cluster ff = 0 then - 1 else 0, st) }
              else do { st \<leftarrow> set_file p f st; Some (- 1, st) }) }"

subsection \<open>Calls through the function pointers\<close>

definition dirent_bytes :: "dirent \<Rightarrow> u8 list" where
  "dirent_bytes d = le_bytes 8 (d_ino d) @ le_bytes 8 (d_off d) @ le_bytes 2 (ucast (d_reclen d)) @ [d_type d] @ d_name d @ [0]"

definition file_lseek :: "u64 \<Rightarrow> u64 \<Rightarrow> u64 \<Rightarrow> kst \<Rightarrow> (u64 \<times> kst) option" where
  "file_lseek p offset whence st =
     do { f \<leftarrow> get_file p st;
          (case lseek_fn f of
             Some Fat32_lseek \<Rightarrow>
               do { (r, f, fs) \<leftarrow> fat32_lseek f offset whence (fat st); st \<leftarrow> set_file p f (st\<lparr>fat := fs\<rparr>); Some (r, st) }
           | _ \<Rightarrow> None) }"

text \<open>\<open>file->read\<close>: the number returned and the bytes stored at the buffer.\<close>

definition file_read :: "u64 \<Rightarrow> u64 \<Rightarrow> kst \<Rightarrow> (u64 \<times> u8 list \<times> kst) option" where
  "file_read p len st =
     do { f \<leftarrow> get_file p st;
          (case read_fn f of
             Some Fat32_read \<Rightarrow>
               do { (r, bs, f, fs) \<leftarrow> fat32_read f len (fat st); st \<leftarrow> set_file p f (st\<lparr>fat := fs\<rparr>); Some (r, bs, st) }
           | Some Fat32_read_dir \<Rightarrow>
               do { (r, ds, f, fs) \<leftarrow> fat32_read_dir f len (fat st); st \<leftarrow> set_file p f (st\<lparr>fat := fs\<rparr>);
                    Some (r, concat (map dirent_bytes ds), st) }
           | Some Stdin_read \<Rightarrow> stdin_read len st
           | _ \<Rightarrow> None) }"

definition file_write :: "u64 \<Rightarrow> u8 list \<Rightarrow> u64 \<Rightarrow> kst \<Rightarrow> (u64 \<times> kst) option" where
  "file_write p buf len st =
     do { f \<leftarrow> get_file p st;
          (case write_fn f of
             Some Fat32_write \<Rightarrow>
               do { (r, f, fs) \<leftarrow> fat32_write f buf len (fat st); st \<leftarrow> set_file p f (st\<lparr>fat := fs\<rparr>); Some (r, st) }
           | Some Stdout_write \<Rightarrow> Some (stdout_write buf st)
           | Some Stderr_write \<Rightarrow> Some (stderr_write buf st)
           | _ \<Rightarrow> None) }"

end
