(* ===== verification/Fault.thy ===== *)
theory Fault
  imports Files
begin

unbundle bit_operations_syntax

text \<open>
  Page faults (\<open>do_page_fault\<close> of \<open>trap.c\<close>) and the accesses of the kernel to user memory, which go through the page table of the
  running task and may fault. A nested fault that changes a sector buffer of the file system in the middle of a copy is outside the model
  (\<open>None\<close>), as is an access that faults again after the handler returned: the instruction would fault for ever.
\<close>

definition SCAUSE_INST_PAGE_FAULT :: u64 where [kdefs]: "SCAUSE_INST_PAGE_FAULT = 0xc"
definition SCAUSE_LOAD_PAGE_FAULT :: u64 where [kdefs]: "SCAUSE_LOAD_PAGE_FAULT = 0xd"
definition SCAUSE_STORE_PAGE_FAULT :: u64 where [kdefs]: "SCAUSE_STORE_PAGE_FAULT = 0xf"

definition vma_flags_to_perm :: "u64 \<Rightarrow> u64" where
  "vma_flags_to_perm flgs =
     (let perm = SV39_PTE_V OR SV39_PTE_U OR SV39_PTE_A;
          perm = (if flgs AND ucast VM_READ \<noteq> 0 then perm OR SV39_PTE_R else perm);
          perm = (if flgs AND ucast VM_WRITE \<noteq> 0 then perm OR (SV39_PTE_W OR SV39_PTE_D) else perm)
      in if flgs AND ucast VM_EXEC \<noteq> 0 then perm OR SV39_PTE_X else perm)"

text \<open>The permission tests before anything is done; \<open>False\<close> is an early return.\<close>

definition fault_allowed :: "u64 \<Rightarrow> vm_area \<Rightarrow> bool" where
  "fault_allowed cause vma \<longleftrightarrow>
     \<not> (cause = SCAUSE_INST_PAGE_FAULT \<and> vm_flags vma AND VM_EXEC = 0) \<and>
     \<not> (cause = SCAUSE_LOAD_PAGE_FAULT \<and> vm_flags vma AND VM_READ = 0) \<and>
     \<not> (cause = SCAUSE_STORE_PAGE_FAULT \<and> vm_flags vma AND VM_WRITE = 0)"

text \<open>The content of a page that was not mapped: nothing is stored for an anonymous area.\<close>

definition fill_page :: "u64 \<Rightarrow> u64 \<Rightarrow> vm_area \<Rightarrow> kst \<Rightarrow> kst option" where
  "fill_page new_page va vma st =
     (if vm_flags vma AND VM_ANON \<noteq> 0 then Some st
      else if vm_file vma = 0 then
        let uapp_page = suapp (ksym st) + vm_pgoff vma + (va - vm_start vma);
            read_len = uint64_t_min PGSIZE (vm_end vma - va)
        in Some (st\<lparr>kvm := (kvm st)\<lparr>vmem := set_bytes new_page (get_bytes uapp_page (unat read_len) (vmem (kvm st))) (vmem (kvm st))\<rparr>\<rparr>)
      else
        do { (r, st) \<leftarrow> file_lseek (vm_file vma) (vm_pgoff vma + (va - vm_start vma)) SEEK_SET st;
             (n, bs, st) \<leftarrow> file_read (vm_file vma) PGSIZE st;
             Some (st\<lparr>kvm := (kvm st)\<lparr>vmem := set_bytes new_page bs (vmem (kvm st))\<rparr>\<rparr>) })"

text \<open>A fault on a page that is mapped: only a store to a shared page has an effect.\<close>

definition fault_mapped :: "u64 \<Rightarrow> u64 \<Rightarrow> u64 \<Rightarrow> vm_area \<Rightarrow> kst \<Rightarrow> kst option" where
  "fault_mapped cause new_page pte_ptr vma st =
     (let m = vmem (kvm st); pte = m pte_ptr;
          pa = push_bit PAGE_SHIFT (GET_SUBBITMAP pte SV39_PTE_PPN_BEGIN SV39_PTE_PPN_END)
      in if cause = SCAUSE_STORE_PAGE_FAULT \<and> pte AND SV39_PTE_S \<noteq> 0 then
           do { ref_cnt \<leftarrow> get_ref_cnt pa (vbuddy (kvm st));
                if ref_cnt \<ge> 2 then
                  (if pte AND SV39_PTE_R = 0 then None
                   else do { (r, b) \<leftarrow> deref_page (PA2VA pa) (vbuddy (kvm st));
                             (let m = copy_page new_page (PA2VA pa) m;
                                  new_ppn = PHYS2PPN (VA2PA new_page);
                                  new_perm = vma_flags_to_perm (ucast (vm_flags vma))
                              in Some (st\<lparr>kvm := (kvm st)\<lparr>vmem := m(pte_ptr := SV39_PTE new_ppn new_perm), vbuddy := b\<rparr>\<rparr>)) })
                else if ref_cnt = 1 then
                  (let pte = pte AND NOT SV39_PTE_S;
                       pte = (if vm_flags vma AND VM_WRITE \<noteq> 0 then pte OR SV39_PTE_W else pte)
                   in Some (k_write pte_ptr pte st))
                else Some st }
         else Some st)"

definition do_page_fault :: "u64 \<Rightarrow> u64 \<Rightarrow> kst \<Rightarrow> kst option" where
  "do_page_fault cause bad_vaddr st =
     do { vp \<leftarrow> find_vma (t_mm (cur st)) bad_vaddr (kmm st);
          (let vma = vmas (kmm st) vp
           in if vp = 0 then Some st
              else if \<not> fault_allowed cause vma then Some st
              else do {
                (new_page, st) \<leftarrow> k_alloc_page st;
                (let va = PGROUNDDOWN bad_vaddr;
                     pte_ptr = walk_page_table_pte (t_pgd (cur st)) (drop_bit PAGE_SHIFT va) (kvm st)
                 in if \<not> is_valid_pte pte_ptr (kvm st) then
                      do { st \<leftarrow> fill_page new_page va vma st;
                           v \<leftarrow> create_mapping (t_pgd (cur st)) va (VA2PA new_page) PGSIZE
                                   (vma_flags_to_perm (ucast (vm_flags vma))) (kvm st);
                           Some (set_kvm v st) }
                    else fault_mapped cause new_page pte_ptr vma st) }) }"

subsection \<open>User memory\<close>

definition user_pte :: "u64 \<Rightarrow> kst \<Rightarrow> u64" where
  "user_pte a st =
     (let p = walk_page_table_pte (t_pgd (cur st)) (drop_bit PAGE_SHIFT a) (kvm st)
      in if is_valid_pte p (kvm st) then vmem (kvm st) p else 0)"

definition user_addr :: "u64 \<Rightarrow> kst \<Rightarrow> u64" where
  "user_addr a st = pte_table (user_pte a st) + TRUNCATE a PAGE_SHIFT"

definition touch :: "u64 \<Rightarrow> u64 \<Rightarrow> u64 \<Rightarrow> kst \<Rightarrow> kst option" where
  "touch need cause a st =
     (if user_pte a st AND need = need then Some st
      else do { st' \<leftarrow> do_page_fault cause a st;
                if fat32_buf (fat st') = fat32_buf (fat st) \<and> user_pte a st' AND need = need then Some st' else None })"

definition load_user :: "u64 \<Rightarrow> kst \<Rightarrow> (u8 \<times> kst) option" where
  "load_user a st =
     (if a \<ge> USER_END then Some (get_byte (vmem (kvm st)) a, st)
      else do { st \<leftarrow> touch (SV39_PTE_V OR SV39_PTE_R) SCAUSE_LOAD_PAGE_FAULT a st;
                Some (get_byte (vmem (kvm st)) (user_addr a st), st) })"

definition store_user :: "u64 \<Rightarrow> u8 \<Rightarrow> kst \<Rightarrow> kst option" where
  "store_user a b st =
     (if a \<ge> USER_END then Some (st\<lparr>kvm := (kvm st)\<lparr>vmem := set_byte a b (vmem (kvm st))\<rparr>\<rparr>)
      else do { st \<leftarrow> touch (SV39_PTE_V OR SV39_PTE_W) SCAUSE_STORE_PAGE_FAULT a st;
                Some (st\<lparr>kvm := (kvm st)\<lparr>vmem := set_byte (user_addr a st) b (vmem (kvm st))\<rparr>\<rparr>) })"

fun store_users :: "u64 \<Rightarrow> u8 list \<Rightarrow> kst \<Rightarrow> kst option" where
  "store_users a [] st = Some st"
| "store_users a (b # bs) st = do { st \<leftarrow> store_user a b st; store_users (a + 1) bs st }"

fun load_users :: "u64 \<Rightarrow> nat \<Rightarrow> kst \<Rightarrow> (u8 list \<times> kst) option" where
  "load_users a 0 st = Some ([], st)"
| "load_users a (Suc n) st = do { (b, st) \<leftarrow> load_user a st; (bs, st) \<leftarrow> load_users (a + 1) n st; Some (b # bs, st) }"

text \<open>A string, with its terminator.\<close>

partial_function (option) load_string :: "u64 \<Rightarrow> kst \<Rightarrow> (u8 list \<times> kst) option" where
  "load_string a st =
     Option.bind (load_user a st) (\<lambda>(b, st).
       if b = 0 then Some ([b], st)
       else Option.bind (load_string (a + 1) st) (\<lambda>(bs, st). Some (b # bs, st)))"

declare load_string.simps [code]

end
