(* ===== verification/Fault_Props.thy ===== *)
theory Fault_Props
  imports Fault
begin

unbundle bit_operations_syntax

text \<open>Copy on write: a store to a shared page gives the task a page of its own.\<close>

lemma copy_page_eq: "page_aligned n \<Longrightarrow> copy_page n src m x = (if PGROUNDDOWN x = n then m (src + (x - n)) else m x)"
  by (simp add: copy_page_def in_page_iff)

lemma tbl_at_off_page:
  assumes "pt_wf m own root" "n \<notin> own" "\<And>x. PGROUNDDOWN x \<noteq> n \<Longrightarrow> m' x = m x" "ok_path p"
  shows "tbl_at m' root p = tbl_at m root p"
proof (rule tbl_at_cong)
  fix q i r t assume a: "p = q @ i # r" "tbl_at m root q = Some t"
  have q: "ok_path q" "i < 512" using assms(4) a(1) by (auto simp: ok_path_def)
  note t = pt_wfD(1,2) [OF assms(1) q(1) a(2)]
  have "t \<noteq> n" using t(1) assms(2) by blast
  then show "m' (pte_addr t i) = m (pte_addr t i)" by (simp add: assms(3) page_words [OF t(2) q(2)])
qed

lemma leaf_off_page:
  assumes wf: "pt_wf m own root" and n: "n \<notin> own" "\<And>x. PGROUNDDOWN x \<noteq> n \<Longrightarrow> m' x = m x" and x: "x < 2 ^ 27"
  shows "leaf_pte m' root x = leaf_pte m root x"
proof -
  obtain a b c where v: "vidx x = (a, b, c)" by (cases "vidx x") auto
  have ok: "ok_path [a, b]" "c < 512" using vidx_bounds [OF v] vidx_first [OF x v] by (auto simp: ok_path2)
  note T = tbl_at_off_page [OF wf n ok(1)]
  show ?thesis
  proof (cases "tbl_at m root [a, b]")
    case None
    then show ?thesis using T by (simp add: leaf_pte_def v del: tbl_at.simps)
  next
    case (Some t)
    note t = pt_wfD(1,2) [OF wf ok(1) Some]
    have "t \<noteq> n" using t(1) n(1) by blast
    then have "m' (pte_addr t c) = m (pte_addr t c)" by (simp add: n(2) page_words [OF t(2) ok(2)])
    then show ?thesis using T Some by (simp add: leaf_pte_def v del: tbl_at.simps)
  qed
qed

lemma round_drop: "drop_bit PAGE_SHIFT (PGROUNDDOWN a) = drop_bit PAGE_SHIFT a"
  by (rule bit_word_eqI) (auto simp: PGROUNDDOWN_eq PAGE_SHIFT_def bit_simps dest: bit_imp_le_length)

text \<open>The page table entry the kernel finds for an address, when there is one.\<close>

lemma walk_valid:
  assumes wf: "pt_wf (vmem v) own root" and V: "PTE_HAS_V (leaf_pte (vmem v) root (vpn_of a))"
  obtains x y z t where "tbl_at (vmem v) root [x, y] = Some t" "x < 512" "y < 512" "z < 512" "vpn_of a = lin x y z"
    "walk_page_table_pte root (drop_bit PAGE_SHIFT a) v = pte_addr t z" "is_valid_pte (pte_addr t z) v"
    "vmem v (pte_addr t z) = leaf_pte (vmem v) root (vpn_of a)" "page_aligned t" "t \<in> own"
proof -
  obtain x y z where s: "vpn_split (drop_bit PAGE_SHIFT a) = (x, y, z)" by (metis prod.exhaust)
  note L = vpn_split_va [OF s]
  have x: "vidx (vpn_of a) = (x, y, z)" using vidx_lin L by metis
  obtain t where t: "tbl_at (vmem v) root [x, y] = Some t"
    using V by (auto simp: leaf_pte_def x split: option.splits simp del: tbl_at.simps)
  have ok: "ok_path [x, y]" using L by (simp add: ok_path2)
  note T = pt_wfD(1,2) [OF wf ok t]
  have leaf: "vmem v (pte_addr t z) = leaf_pte (vmem v) root (vpn_of a)"
    by (simp add: leaf_pte_def x t del: tbl_at.simps)
  have "is_valid_pte (pte_addr t z) v"
    using entry_not_invalid [OF T(2) L(4)] V by (simp add: is_valid_pte_def leaf)
  moreover have "walk_page_table_pte root (drop_bit PAGE_SHIFT a) v = pte_addr t z"
    by (simp add: walk_pte_eq [OF s] t del: tbl_at.simps)
  ultimately show thesis using that t L leaf T by simp
qed

text \<open>A store fault on a shared page, as the claim states it.\<close>

definition shared_page :: "u64 \<Rightarrow> nat \<Rightarrow> kst \<Rightarrow> bool" where
  "shared_page a f st \<longleftrightarrow>
     (let pte = leaf_pte (vmem (kvm st)) (t_pgd (cur st)) (vpn_of a)
      in PTE_HAS_V pte \<and> pte AND SV39_PTE_R \<noteq> 0 \<and> pte AND SV39_PTE_S \<noteq> 0 \<and> pte_table pte = va_of f \<and>
         live (vbuddy (kvm st)) f \<and> 2 \<le> ref_cnt (vbuddy (kvm st)) ! f)"

lemma cow_fault:
  fixes st :: kst and a :: u64
  defines "root \<equiv> t_pgd (cur st)" and "m \<equiv> vmem (kvm st)"
  assumes ok: "pt_ok root (kvm st)"
    and area: "find_vma (t_mm (cur st)) a (kmm st) = Some vp" "vp \<noteq> 0" "vm_flags (vmas (kmm st) vp) AND VM_WRITE \<noteq> 0"
    and sh: "shared_page a f st" and al: "alloc_page (vbuddy (kvm st)) = Some (np, b1)"
  shows "\<exists>st'. do_page_fault SCAUSE_STORE_PAGE_FAULT a st = Some st' \<and> np \<notin> owned_pages (vbuddy (kvm st)) \<and> pt_ok root (kvm st') \<and>
    (\<forall>x<2 ^ 27. leaf_pte (vmem (kvm st')) root x =
       (if x = vpn_of a then SV39_PTE (PHYS2PPN (VA2PA np)) (vma_flags_to_perm (ucast (vm_flags (vmas (kmm st) vp)))) else leaf_pte m root x)) \<and>
    (\<forall>i<512. vmem (kvm st') (np + 8 * of_nat i) = m (va_of f + 8 * of_nat i)) \<and>
    (\<forall>x. PGROUNDDOWN x \<in> owned_pages (vbuddy (kvm st)) - tables m root \<longrightarrow> vmem (kvm st') x = m x) \<and>
    ref_cnt (vbuddy (kvm st')) ! f = ref_cnt (vbuddy (kvm st)) ! f - 1"
proof -
  let ?b = "vbuddy (kvm st)" and ?pte = "leaf_pte m root (vpn_of a)" and ?vma = "vmas (kmm st) vp"
  have inv: "buddy_inv ?b" and wf: "pt_wf m (owned_pages ?b) root" using ok by (simp_all add: pt_ok_def m_def)
  have S: "PTE_HAS_V ?pte" "?pte AND SV39_PTE_R \<noteq> 0" "?pte AND SV39_PTE_S \<noteq> 0" "pte_table ?pte = va_of f" "live ?b f" "2 \<le> ref_cnt ?b ! f"
    using sh by (simp_all add: shared_page_def Let_def m_def root_def)
  obtain g where g: "np = va_of g" "g < bsize ?b" "g \<notin> used_pages ?b" "buddy_inv b1" "bsize b1 = bsize ?b"
    "used_pages b1 = insert g (used_pages ?b)" by (rule alloc_page_SomeE [OF inv al]) blast
  have fresh: "np \<notin> owned_pages ?b" using frames.get_fresh [OF inv al] .
  have al_np: "page_aligned np" by (simp add: g(1) va_of_aligned)
  note L = alloc_page_live [OF inv al S(5)]
  let ?st1 = "st\<lparr>kvm := (kvm st)\<lparr>vbuddy := b1\<rparr>\<rparr>"
  have ka: "k_alloc_page st = Some (np, ?st1)" by (simp add: k_alloc_page_def al)
  obtain x y z t where W: "tbl_at m root [x, y] = Some t" "x < 512" "y < 512" "z < 512" "vpn_of a = lin x y z"
    "walk_page_table_pte root (drop_bit PAGE_SHIFT a) (kvm ?st1) = pte_addr t z" "is_valid_pte (pte_addr t z) (kvm ?st1)"
    "m (pte_addr t z) = ?pte" "page_aligned t" "t \<in> owned_pages ?b"
    by (rule walk_valid [of "kvm ?st1" "owned_pages ?b" root a])
      (use wf S(1) in \<open>simp_all add: m_def del: tbl_at.simps\<close>)
  let ?pa = "push_bit PAGE_SHIFT (GET_SUBBITMAP ?pte SV39_PTE_PPN_BEGIN SV39_PTE_PPN_END)"
  have pa: "PA2VA ?pa = va_of f" using S(4) by (simp add: pte_table_def PPN2PHYS_def PAGE_SHIFT_def)
  have fb: "f < bsize b1" "f < 2 ^ 52" using S(5) bsize_le [OF inv] g(5) by (auto simp: live_def)
  have pf: "pfn_of_va (va_of f) = f" using pfn_va_of [OF fb(2)] by (simp add: pfn_of_va_def)
  have "PHYS2PFN ?pa = PHYS2PFN (VA2PA (va_of f))" by (simp add: pa [symmetric])
  then have "unat (PHYS2PFN ?pa) = f" using pfn_va_of [OF fb(2)] by simp
  moreover have len: "f < length (ref_cnt b1)" using buddy_invD [OF g(4)] fb(1) by metis
  ultimately have cnt: "get_ref_cnt ?pa b1 = Some (ref_cnt ?b ! f)" by (simp add: get_ref_cnt_def L(3))
  let ?b2 = "b1\<lparr>ref_cnt := (ref_cnt b1)[f := ref_cnt b1 ! f - 1]\<rparr>"
  have de: "deref_page (va_of f) b1 = Some (0, ?b2)"
    using decref_shared [OF g(4) fb(1)] S(6) L(3) len by (simp add: deref_page_def pf)
  define m1 where "m1 = copy_page np (va_of f) m"
  let ?v = "SV39_PTE (PHYS2PPN (VA2PA np)) (vma_flags_to_perm (ucast (vm_flags ?vma)))"
  define m2 where "m2 = m1(pte_addr t z := ?v)"
  let ?st2 = "?st1\<lparr>kvm := (kvm ?st1)\<lparr>vmem := m2, vbuddy := ?b2\<rparr>\<rparr>"
  have run: "do_page_fault SCAUSE_STORE_PAGE_FAULT a st = Some ?st2"
    using area S(2,3,6) W(6,7,8) ka
    by (simp add: do_page_fault_def fault_allowed_def kdefs(1-3) SCAUSE_INST_PAGE_FAULT_def SCAUSE_LOAD_PAGE_FAULT_def
        SCAUSE_STORE_PAGE_FAULT_def round_drop fault_mapped_def Let_def m_def [symmetric] root_def [symmetric] cnt pa de m1_def m2_def)
  have off: "m1 w = m w" if "PGROUNDDOWN w \<noteq> np" for w using that by (simp add: m1_def copy_page_eq [OF al_np])
  have own2: "owned_pages ?b2 = insert np (owned_pages ?b)"
    using g(1,6) by (simp add: owned_pages_def used_pages_def blocks_def)
  have t1: "tbl_at m1 root p = tbl_at m root p" if "ok_path p" for p
    using tbl_at_off_page [OF wf fresh off that] .
  then have wf1: "pt_wf m1 (insert np (owned_pages ?b)) root" using wf unfolding pt_wf_def by (metis insertI2)
  have W1: "tbl_at m1 root [x, y] = Some t" using t1 [of "[x, y]"] W(1-3) by (simp add: ok_path2 del: tbl_at.simps)
  note LW = leaf_write [OF wf1 W1 W(2-4), where v = ?v, folded m2_def]
  have inv2: "buddy_inv ?b2"
    by (rule conjunct1 [OF buddy_decref_inv [OF g(4) decref_shared [OF g(4) fb(1)]]]) (use S(6) L(3) in simp)
  have tn: "t \<noteq> np" using W(10) fresh by blast
  have pz: "PGROUNDDOWN (pte_addr t z) = t" by (rule page_words [OF W(9,4)])
  have "m2 (np + 8 * of_nat i) = m (va_of f + 8 * of_nat i)" if i: "i < 512" for i
  proof -
    have "PGROUNDDOWN (np + 8 * of_nat i) = np" by (rule page_words [OF al_np i])
    moreover from this have "np + 8 * of_nat i \<noteq> pte_addr t z" using pz tn by metis
    ultimately show ?thesis by (simp add: m2_def m1_def copy_page_eq [OF al_np])
  qed
  moreover have "m2 w = m w" if w: "PGROUNDDOWN w \<in> owned_pages ?b - tables m root" for w
  proof -
    have "t \<in> tables m root" unfolding tables_def using W(1-3) ok_path2 [of x y] by blast
    then have "w \<noteq> pte_addr t z" using w pz by auto
    moreover have "PGROUNDDOWN w \<noteq> np" using w fresh by blast
    ultimately show ?thesis using off by (simp add: m2_def)
  qed
  moreover have "leaf_pte m2 root w = (if w = vpn_of a then ?v else leaf_pte m root w)" if "w < 2 ^ 27" for w
    using LW(3) [OF that] leaf_off_page [OF wf fresh off that] W(5) by simp
  moreover have "pt_ok root (kvm ?st2)" using LW(1) inv2 own2 by (simp add: pt_ok_def)
  moreover have "ref_cnt ?b2 ! f = ref_cnt ?b ! f - 1" using len L(3) by simp
  ultimately show ?thesis using run fresh by (intro exI [of _ ?st2]) simp
qed

end
