(* ===== verification/Sysfile.thy ===== *)
theory Sysfile
  imports Fault
begin

unbundle bit_operations_syntax

text \<open>
  The system calls of \<open>ksyscalls.c\<close> on files. A descriptor that is a C \<open>int\<close> is an integer, one that is \<open>unsigned\<close> a 32-bit word; a result
  is the \<open>long\<close> as an integer.
\<close>

definition cur_files :: "kst \<Rightarrow> files_struct option" where
  "cur_files st = (if t_files (cur st) = 0 then None else Some (files_at st (t_files (cur st))))"

definition cur_file :: "nat \<Rightarrow> kst \<Rightarrow> file_t option" where
  "cur_file i st = do { fs \<leftarrow> cur_files st; rd fs i }"

definition cur_file_ptr :: "nat \<Rightarrow> kst \<Rightarrow> u64" where
  "cur_file_ptr i st = file_addr (t_files (cur st)) i"

definition upd_cur_file :: "nat \<Rightarrow> (file_t \<Rightarrow> file_t) \<Rightarrow> kst \<Rightarrow> kst option" where
  "upd_cur_file i f st =
     do { fs \<leftarrow> cur_files st; v \<leftarrow> rd fs i; fs \<leftarrow> wr fs i (f v);
          Some (st\<lparr>files_at := (files_at st)(t_files (cur st) := fs)\<rparr>) }"

subsection \<open>open, close, lseek\<close>

fun first_closed :: "file_t list \<Rightarrow> nat list \<Rightarrow> nat option option" where
  "first_closed fs [] = Some None"
| "first_closed fs (i # is) = do { f \<leftarrow> rd fs i; if opened f \<noteq> 0 then first_closed fs is else Some (Some i) }"

definition sys_openat :: "u64 \<Rightarrow> u32 \<Rightarrow> kst \<Rightarrow> (int \<times> kst) option" where
  "sys_openat pathptr flgs st =
     do { fs \<leftarrow> cur_files st;
          r \<leftarrow> first_closed fs [0 ..< MAX_FILE_NUMBER];
          (case r of
             None \<Rightarrow> Some (- 1, st)
           | Some i \<Rightarrow>
               do { (pathname, st) \<leftarrow> load_string pathptr st;
                    (res, st) \<leftarrow> file_open (cur_file_ptr i st) pathname flgs st;
                    if res = 0 then do { st \<leftarrow> upd_cur_file i (\<lambda>f. f\<lparr>opened := 1\<rparr>) st; Some (int i, st) }
                    else Some (- 1, st) }) }"

definition sys_open :: "u64 \<Rightarrow> u32 \<Rightarrow> kst \<Rightarrow> (int \<times> kst) option" where
  "sys_open filename flgs st = sys_openat filename flgs st"

definition bad_fd :: "int \<Rightarrow> bool" where "bad_fd fd \<longleftrightarrow> fd < 0 \<or> fd \<ge> int MAX_FILE_NUMBER"

definition sys_close :: "int \<Rightarrow> kst \<Rightarrow> (int \<times> kst) option" where
  "sys_close fd st =
     (if bad_fd fd then Some (- 1, st)
      else do { f \<leftarrow> cur_file (nat fd) st;
                if opened f = 0 then Some (- 1, st)
                else do { st \<leftarrow> upd_cur_file (nat fd) (\<lambda>f. f\<lparr>opened := 0, cfo := 0\<rparr>) st; Some (0, st) } })"

definition sys_lseek :: "int \<Rightarrow> u64 \<Rightarrow> int \<Rightarrow> kst \<Rightarrow> (int \<times> kst) option" where
  "sys_lseek fd offset whence st =
     (if bad_fd fd then Some (- 1, st)
      else do { f \<leftarrow> cur_file (nat fd) st;
                if opened f = 0 then Some (- 1, st)
                else if lseek_fn f = None then Some (- 1, st)
                else do { (r, st) \<leftarrow> file_lseek (cur_file_ptr (nat fd) st) offset (of_int whence) st; Some (sint r, st) } })"

subsection \<open>read and write\<close>

text \<open>
  The console transfers by physical address: the address is computed before the -1 is stored, and the bytes go to consecutive physical
  addresses. When the store changes the translation (the page was absent or shared) the loop waits for a word that never changes.
\<close>

definition phys_of :: "u64 \<Rightarrow> kst \<Rightarrow> u64" where
  "phys_of buf st = (if buf < USER_END then walk_page_table (t_pgd (cur st)) buf (kvm st) else VA2PA buf)"

definition console_read :: "u64 \<Rightarrow> u64 \<Rightarrow> kst \<Rightarrow> (int \<times> kst) option" where
  "console_read buf len st =
     (let buf_pa = phys_of buf st
      in if unat (TRUNCATE buf PAGE_SHIFT) + 4 > 4096 then None
         else do { st \<leftarrow> store_users buf (replicate 4 0xff) st;
                   if phys_of buf st \<noteq> buf_pa \<or> buf_pa = INVALID_PA then None
                   else do { (n, bs, st) \<leftarrow> scank_sbi_read len st;
                             Some (sint (ucast n :: u32),
                                   st\<lparr>kvm := (kvm st)\<lparr>vmem := set_bytes (PA2VA buf_pa) (take (unat n) bs) (vmem (kvm st))\<rparr>\<rparr>) } })"

definition console_write :: "u64 \<Rightarrow> u64 \<Rightarrow> kst \<Rightarrow> (int \<times> kst) option" where
  "console_write buf len st =
     (let buf_pa = phys_of buf st
      in if buf_pa = INVALID_PA then None
         else let (n, st) = printk_sbi_write (get_bytes (PA2VA buf_pa) (unat len) (vmem (kvm st))) st
              in Some (sint (ucast n :: u32), st))"

definition sys_read :: "u32 \<Rightarrow> u64 \<Rightarrow> u64 \<Rightarrow> kst \<Rightarrow> (int \<times> kst) option" where
  "sys_read fd buff count st =
     (if unat fd \<ge> MAX_FILE_NUMBER then Some (- 1, st)
      else if fd \<le> 2 then (if fd = 0 then console_read buff count st else Some (- 1, st))
      else do { f \<leftarrow> cur_file (unat fd) st;
                if opened f = 0 then Some (ERROR_FILE_NOT_OPEN, st)
                else if perms f AND FILE_READABLE = 0 then Some (- 1, st)
                else do { (r, bs, st) \<leftarrow> file_read (cur_file_ptr (unat fd) st) count st;
                          st \<leftarrow> store_users buff bs st; Some (sint r, st) } })"

definition sys_write :: "u32 \<Rightarrow> u64 \<Rightarrow> u64 \<Rightarrow> kst \<Rightarrow> (int \<times> kst) option" where
  "sys_write fd buf count st =
     (if unat fd \<ge> MAX_FILE_NUMBER then Some (- 1, st)
      else if fd \<le> 2 then (if fd = 0 then Some (- 1, st) else console_write buf count st)
      else do { f \<leftarrow> cur_file (unat fd) st;
                if opened f = 0 then Some (ERROR_FILE_NOT_OPEN, st)
                else if perms f AND FILE_WRITABLE = 0 then Some (- 1, st)
                else do { (bs, st) \<leftarrow> load_users buf (unat count) st;
                          (r, st) \<leftarrow> file_write (cur_file_ptr (unat fd) st) bs count st; Some (sint r, st) } })"

subsection \<open>getdents64\<close>

text \<open>A \<open>DIR\<close> has \<open>num_entries\<close> at 4, \<open>buf_size\<close> at 8 and \<open>buf\<close> at 16.\<close>

definition sys_getdents64 :: "int \<Rightarrow> u64 \<Rightarrow> u64 \<Rightarrow> kst \<Rightarrow> (int \<times> kst) option" where
  "sys_getdents64 fd dirp count st =
     (if bad_fd fd then Some (- 1, st)
      else do { f \<leftarrow> cur_file (nat fd) st;
                if opened f = 0 then Some (- 1, st)
                else if perms f AND FILE_READABLE = 0 then Some (- 1, st)
                else do { (n, bs, st) \<leftarrow> file_read (cur_file_ptr (nat fd) st) count st;
                          st \<leftarrow> store_users (dirp + 16) bs st;
                          st \<leftarrow> store_users (dirp + 8) (le_bytes 8 n) st;
                          if sint n \<le> 0 then do { st \<leftarrow> store_users (dirp + 4) (replicate 4 0) st; Some (- 1, st) }
                          else do { st \<leftarrow> store_users (dirp + 4) (le_bytes 4 (n div of_nat sizeof_dirent)) st; Some (sint n, st) } } })"

definition sys_getpid :: "kst \<Rightarrow> int" where "sys_getpid st = sint (t_pid (cur st))"

definition sys_mmap :: "u64 \<Rightarrow> u64 \<Rightarrow> u32 \<Rightarrow> u32 \<Rightarrow> int \<Rightarrow> u64 \<Rightarrow> kst \<Rightarrow> (int \<times> kst) option" where
  "sys_mmap addr len prot flgs fd offset st =
     (if flgs AND 0x20 \<noteq> 0 then
        do { (r, m) \<leftarrow> do_mmap (t_mm (cur st)) addr len (to_vm_flags prot flgs) 0 0 0 (kmm st); Some (sint r, st\<lparr>kmm := m\<rparr>) }
      else
        do { (r, m) \<leftarrow> do_mmap (t_mm (cur st)) addr len (to_vm_flags prot flgs) (t_files (cur st) + sizeof_file * of_int fd) offset len (kmm st);
             Some (sint r, st\<lparr>kmm := m\<rparr>) })"

definition sys_munmap :: "u64 \<Rightarrow> u64 \<Rightarrow> kst \<Rightarrow> (int \<times> kst) option" where
  "sys_munmap addr len st =
     do { (r, v, m) \<leftarrow> do_munmap (t_pgd (cur st)) (t_mm (cur st)) addr len (kvm st, kmm st);
          Some (r, st\<lparr>kvm := v, kmm := m\<rparr>) }"

end
