(* ===== verification/Proc.thy ===== *)
theory Proc
  imports Sysfile
begin

unbundle bit_operations_syntax

text \<open>
  Processes: the rest of \<open>proc.c\<close> (loading a program, \<open>task_init\<close>, fork, execve, exit, wait) with \<open>signal_init\<close> and
  \<open>do_kill\<close> of \<open>signal.c\<close>, and the ELF structures of \<open>elf.h\<close> they read. The fences and the messages are left out.
\<close>

subsection \<open>elf.h\<close>

record elf64_ehdr =
  e_ident :: "u8 list"
  e_entry :: u64
  e_phoff :: u64
  e_phnum :: u16

record elf64_phdr =
  p_type :: u32
  p_flags :: u32
  p_offset :: u64
  p_vaddr :: u64
  p_paddr :: u64
  p_filesz :: u64
  p_memsz :: u64
  p_align :: u64

definition ELFMAG :: "u8 list" where "ELFMAG = [0x7f, 0x45, 0x4c, 0x46]"
definition PT_LOAD :: u32 where [kdefs]: "PT_LOAD = 1"
definition PF_X :: u32 where [kdefs]: "PF_X = 1"
definition PF_W :: u32 where [kdefs]: "PF_W = 2"
definition PF_R :: u32 where [kdefs]: "PF_R = 4"

definition le_num :: "u8 list \<Rightarrow> u64" where
  "le_num bs = foldr (\<lambda>b w. push_bit 8 w OR ucast b) bs 0"

definition kload :: "u64 \<Rightarrow> nat \<Rightarrow> kst \<Rightarrow> u64" where
  "kload a n st = le_num (get_bytes a n (vmem (kvm st)))"

definition ehdr_at :: "u64 \<Rightarrow> kst \<Rightarrow> elf64_ehdr" where
  "ehdr_at a st = \<lparr>e_ident = get_bytes a 16 (vmem (kvm st)), e_entry = kload (a + 24) 8 st, e_phoff = kload (a + 32) 8 st,
     e_phnum = ucast (kload (a + 56) 2 st)\<rparr>"

definition phdr_at :: "u64 \<Rightarrow> kst \<Rightarrow> elf64_phdr" where
  "phdr_at a st = \<lparr>p_type = ucast (kload a 4 st), p_flags = ucast (kload (a + 4) 4 st), p_offset = kload (a + 8) 8 st,
     p_vaddr = kload (a + 16) 8 st, p_paddr = kload (a + 24) 8 st, p_filesz = kload (a + 32) 8 st, p_memsz = kload (a + 40) 8 st,
     p_align = kload (a + 48) 8 st\<rparr>"

subsection \<open>Loading a program\<close>

definition check_elf_header :: "u64 \<Rightarrow> kst \<Rightarrow> int" where
  "check_elf_header start_addr st = (if take 4 (e_ident (ehdr_at start_addr st)) \<noteq> ELFMAG then - 1 else 0)"

definition segment_flags :: "u32 \<Rightarrow> u32" where
  "segment_flags p =
     (let f = 0;
          f = (if p AND PF_R \<noteq> 0 then f OR VM_READ else f);
          f = (if p AND PF_W \<noteq> 0 then f OR VM_WRITE else f)
      in if p AND PF_X \<noteq> 0 then f OR VM_EXEC else f)"

definition load_segment :: "u64 \<Rightarrow> u64 \<Rightarrow> u64 \<Rightarrow> kst \<Rightarrow> kst option" where
  "load_segment tsk phdr fil st =
     (let p = phdr_at phdr st in
      if p_type p = PT_LOAD then
        let start_va = PGROUNDDOWN (p_vaddr p); end_va = PGROUNDUP (p_vaddr p + p_memsz p)
        in do { (r, m) \<leftarrow> do_mmap (t_mm (task_at st tsk)) start_va (end_va - start_va) (segment_flags (p_flags p)) fil
                             (p_offset p) (p_filesz p) (kmm st);
                Some (st\<lparr>kmm := m\<rparr>) }
      else Some st)"

definition upd_thread :: "u64 \<Rightarrow> (thread_struct \<Rightarrow> thread_struct) \<Rightarrow> kst \<Rightarrow> kst" where
  "upd_thread p f = upd_task p (\<lambda>t. t\<lparr>t_thread := f (t_thread t)\<rparr>)"

definition load_program :: "u64 \<Rightarrow> u64 \<Rightarrow> u64 \<Rightarrow> kst \<Rightarrow> kst option" where
  "load_program tsk start_addr fil st =
     (let ehdr = ehdr_at start_addr st; phdrs = start_addr + e_phoff ehdr
      in do { st \<leftarrow> for_range 0 (unat (e_phnum ehdr)) (\<lambda>i st. load_segment tsk (phdrs + 56 * of_nat i) fil st) st;
              Some (upd_thread tsk (\<lambda>t. t\<lparr>sepc := e_entry (ehdr_at start_addr st)\<rparr>) st) })"

subsection \<open>signal_init and do_kill\<close>

definition upd_signal :: "u64 \<Rightarrow> (signal_struct \<Rightarrow> signal_struct) \<Rightarrow> kst \<Rightarrow> kst" where
  "upd_signal p f st = st\<lparr>signal_at := (signal_at st)(p := f (signal_at st p))\<rparr>"

definition dft_action :: "k_handler option \<Rightarrow> k_sigaction" where
  "dft_action h = \<lparr>handle_type = SIG_DFL, k_handler = h, u_handler = 0, u_ext_handler = 0\<rparr>"

definition set_wait :: "nat \<Rightarrow> wait_task \<Rightarrow> kst \<Rightarrow> kst option" where
  "set_wait i w st = do { q \<leftarrow> wr (wait_queue st) i w; Some (st\<lparr>wait_queue := q\<rparr>) }"

definition signal_init :: "nat \<Rightarrow> kst \<Rightarrow> kst option" where
  "signal_init pid st =
     do { tp \<leftarrow> task_ptr st pid;
          st \<leftarrow> (if t_signal (task_at st tp) = 0 then
                  do { (p, st) \<leftarrow> k_alloc_page st; Some (upd_task tp (\<lambda>t. t\<lparr>t_signal := p\<rparr>) st) }
                else Some st);
          (let acts = (replicate NSIG (dft_action None))
                        [SIGINT := dft_action (Some Sigint_handler), SIGCHLD := dft_action (Some Sigchld_handler),
                         SIGSTOP := dft_action (Some Sigstop_handler)];
               st = upd_signal (t_signal (task_at st tp)) (\<lambda>s. \<lparr>signal_pending = 0, action = acts\<rparr>) st
           in set_wait pid \<lparr>w_valid = 0, w_mask = 0\<rparr> st) }"

definition do_kill :: "int \<Rightarrow> nat \<Rightarrow> kst \<Rightarrow> (int \<times> kst) option" where
  "do_kill pid sig st =
     (if pid < 0 \<or> pid > int (unat (num_tasks st)) then Some (- 1, st)
      else do { p \<leftarrow> rd (task st) (nat pid);
                if p = 0 then Some (- 1, st)
                else let s = t_signal (task_at st p) in
                     if s = 0 then None
                     else Some (0, upd_signal s (\<lambda>s. s\<lparr>signal_pending := signal_pending s OR push_bit sig 1\<rparr>) st) })"

subsection \<open>task_init\<close>

definition init_idle :: "kst \<Rightarrow> kst option" where
  "init_idle st =
     do { (idl, st) \<leftarrow> k_alloc_page (st\<lparr>seed := srand 2025\<rparr>);
          (cp, st) \<leftarrow> k_alloc_page (upd_task idl (\<lambda>t. t\<lparr>t_pid := 0, t_fpid := 0, t_state := TASK_RUNNING, t_priority := 0, t_counter := 0\<rparr>)
                                     (st\<lparr>idle := idl\<rparr>));
          let st = upd_task idl (\<lambda>t. t\<lparr>t_cpid := cp, t_child_cnt := 0\<rparr>)
                     (st\<lparr>kvm := (kvm st)\<lparr>vmem := zero_page cp (vmem (kvm st))\<rparr>\<rparr>);
          w \<leftarrow> rd (wait_queue st) 0;
          st \<leftarrow> set_wait 0 (w\<lparr>w_valid := 0\<rparr>) st;
          ts \<leftarrow> wr (task st) 0 idl;
          Some (st\<lparr>current := idl, task := ts, num_tasks := 2\<rparr>) }"

definition add_child :: "u64 \<Rightarrow> u64 \<Rightarrow> kst \<Rightarrow> kst" where
  "add_child p pid st =
     (let t = task_at st p
      in upd_task p (\<lambda>t. t\<lparr>t_child_cnt := t_child_cnt t + 1\<rparr>) (k_write (t_cpid t + 8 * t_child_cnt t) pid st))"

definition user_status :: "u64 \<Rightarrow> u64" where
  "user_status s = csr_set_bit CSR_SSTATUS_SUM 1 (csr_set_bit CSR_SSTATUS_SPP 0 s)"

definition new_mm :: "u64 \<Rightarrow> kst \<Rightarrow> (u64 \<times> kst) option" where
  "new_mm tp st =
     do { (mm, st) \<leftarrow> k_alloc_page st;
          Some (mm, upd_task tp (\<lambda>t. t\<lparr>t_mm := mm\<rparr>)
                      (st\<lparr>kmm := mupd mm (\<lambda>m. \<lparr>mmap = 0, num_vmas = 0, free_vma_list = 0\<rparr>) (kmm st)\<rparr>)) }"

definition k_mmap :: "u64 \<Rightarrow> u64 \<Rightarrow> u64 \<Rightarrow> u32 \<Rightarrow> u64 \<Rightarrow> u64 \<Rightarrow> u64 \<Rightarrow> kst \<Rightarrow> kst option" where
  "k_mmap mm va len flgs fil pgoff filesz st =
     do { (r, m) \<leftarrow> do_mmap mm va len flgs fil pgoff filesz (kmm st); Some (st\<lparr>kmm := m\<rparr>) }"

definition init_program :: "u64 \<Rightarrow> u64 \<Rightarrow> kst \<Rightarrow> kst option" where
  "init_program tp mm st =
     (let s = suapp (ksym st); len = euapp (ksym st) - s
      in do { st \<leftarrow> (if take 4 (e_ident (ehdr_at s st)) \<noteq> ELFMAG then
                      k_mmap mm USER_START len (VM_READ OR VM_WRITE OR VM_EXEC) 0 0 len
                        (upd_thread tp (\<lambda>t. t\<lparr>sepc := USER_START\<rparr>) st)
                    else load_program tp s 0 st);
              k_mmap mm (USER_END - PGSIZE) PGSIZE (VM_READ OR VM_WRITE OR VM_ANON) 0 0 0 st })"

definition init_task :: "nat \<Rightarrow> kst \<Rightarrow> kst option" where
  "init_task i st =
     do { (tp, st) \<leftarrow> k_alloc_page st;
          ts \<leftarrow> wr (task st) i tp;
          let (r, sd) = randint PRIORITY_MIN PRIORITY_MAX (seed st);
          let st = upd_task tp (\<lambda>t. t\<lparr>t_pid := of_nat i, t_fpid := 0, t_state := TASK_RUNNING, t_priority := of_int r, t_counter := 0\<rparr>)
                     (st\<lparr>task := ts, seed := sd\<rparr>);
          (cp, st) \<leftarrow> k_alloc_page st;
          let st = upd_task tp (\<lambda>t. t\<lparr>t_cpid := cp, t_child_cnt := 0\<rparr>)
                     (st\<lparr>kvm := (kvm st)\<lparr>vmem := zero_page (t_cpid (task_at st (idle st))) (vmem (kvm st))\<rparr>\<rparr>);
          let st = add_child (idle st) (of_nat i) st;
          st \<leftarrow> signal_init i st;
          let st = upd_thread tp (\<lambda>t. t\<lparr>ra := dummy_entry (ksym st), sp := tp + PGSIZE, sstatus := user_status (sstatus t),
                                         sscratch := USER_END, stval := 0, scause := 0\<rparr>) st;
          (pgd, st) \<leftarrow> k_alloc_page st;
          let st = upd_task tp (\<lambda>t. t\<lparr>t_pgd := pgd\<rparr>) st;
          v \<leftarrow> copy_mapping pgd (swapper_pg_dir (ksym st)) (kvm st);
          (mm, st) \<leftarrow> new_mm tp (set_kvm v st);
          st \<leftarrow> init_program tp mm st;
          (fs, st) \<leftarrow> file_init st;
          Some (upd_task tp (\<lambda>t. t\<lparr>t_files := fs\<rparr>) st) }"

definition task_init :: "kst \<Rightarrow> kst option" where
  "task_init st =
     do { st \<leftarrow> init_idle st;
          st \<leftarrow> for_range 1 (unat (num_tasks st)) init_task st;
          for_range (unat (num_tasks st)) NR_TASKS (\<lambda>i st. do { ts \<leftarrow> wr (task st) i 0; Some (st\<lparr>task := ts\<rparr>) }) st }"

subsection \<open>do_fork\<close>

text \<open>The loop that opens the files of the parent again.\<close>

definition fork_file :: "u64 \<Rightarrow> nat \<Rightarrow> kst \<Rightarrow> kst option" where
  "fork_file cfiles i st =
     do { f \<leftarrow> cur_file i st;
          if opened f \<noteq> 0 then
            do { let p = file_addr cfiles i;
                 (res, st) \<leftarrow> file_open p (f_path f) (f_flags f) st;
                 if res = 0 then
                   do { c \<leftarrow> get_file p st;
                        st \<leftarrow> set_file p (c\<lparr>opened := 1\<rparr>) st;
                        (r, st) \<leftarrow> file_lseek p (cfo f) SEEK_SET st; Some st }
                 else Some st }
          else Some st }"

text \<open>One page of an area: a mapped page is shared, read-only in the parent too.\<close>

definition fork_page :: "u64 \<Rightarrow> u64 \<Rightarrow> kst \<Rightarrow> kst option" where
  "fork_page cpgd page_va st =
     (let pte_ptr = walk_page_table_pte (t_pgd (cur st)) (drop_bit PAGE_SHIFT page_va) (kvm st)
      in if is_valid_pte pte_ptr (kvm st) then
           do { let page_pa = push_bit PAGE_SHIFT (GET_SUBBITMAP (vmem (kvm st) pte_ptr) SV39_PTE_PPN_BEGIN SV39_PTE_PPN_END);
                (r, b) \<leftarrow> ref_page (PA2VA page_pa) (vbuddy (kvm st));
                let pte = (vmem (kvm st) pte_ptr OR SV39_PTE_S) AND NOT SV39_PTE_W;
                let v = (kvm st)\<lparr>vmem := (vmem (kvm st))(pte_ptr := pte), vbuddy := b\<rparr>;
                v \<leftarrow> create_mapping cpgd page_va page_pa PGSIZE (SV39_GET_PERM pte) v;
                Some (set_kvm v st) }
         else Some st)"

definition fork_area :: "u64 \<Rightarrow> vm_area \<Rightarrow> kst \<Rightarrow> kst option" where
  "fork_area cpgd vma st =
     (let start_page_va = PGROUNDDOWN (vm_start vma); end_page_va = PGROUNDUP (vm_end vma)
      in if start_page_va < end_page_va then
           for_range 0 (unat ((end_page_va - start_page_va) div PGSIZE)) (\<lambda>i. fork_page cpgd (start_page_va + PGSIZE * of_nat i)) st
         else Some st)"

partial_function (option) fork_areas :: "u64 \<Rightarrow> u64 \<Rightarrow> kst \<Rightarrow> kst option" where
  "fork_areas cpgd vma st =
     (if vma \<noteq> 0 then
        Option.bind (fork_area cpgd (vmas (kmm st) vma) st) (\<lambda>st. fork_areas cpgd (vm_next (vmas (kmm st) vma)) st)
      else Some st)"

declare fork_areas.simps [code]

text \<open>
  \<open>regs\<close> is the address of the saved registers on the parent's kernel stack; the copy of the page copies them too.
\<close>

definition fork_record :: "u64 \<Rightarrow> nat \<Rightarrow> u64 \<Rightarrow> kst \<Rightarrow> kst option" where
  "fork_record regs child_pid tp st =
     do { let delta = tp - current st;
          let st = st\<lparr>task_at := (task_at st)(tp := cur st), pt_regs_at := (pt_regs_at st)(regs + delta := pt_regs_at st regs)\<rparr>;
          let (r, sd) = randint PRIORITY_MIN PRIORITY_MAX (seed st);
          let st = upd_task tp (\<lambda>t. t\<lparr>t_pid := of_nat child_pid, t_fpid := t_pid (cur st), t_state := TASK_RUNNING,
                                       t_priority := of_int r, t_counter := 0\<rparr>) (st\<lparr>seed := sd\<rparr>);
          (cp, st) \<leftarrow> k_alloc_page st;
          let st = upd_task tp (\<lambda>t. t\<lparr>t_cpid := cp, t_child_cnt := 0\<rparr>)
                     (st\<lparr>kvm := (kvm st)\<lparr>vmem := zero_page cp (vmem (kvm st))\<rparr>\<rparr>);
          Some (add_child (current st) (of_nat child_pid) st) }"

definition do_fork :: "u64 \<Rightarrow> kst \<Rightarrow> (int \<times> kst) option" where
  "do_fork regs st =
     do { (child_pid, st) \<leftarrow> get_avail_task_id st;
          p \<leftarrow> rd (task st) child_pid;
          st \<leftarrow> (if p = 0 then do { (tp, st) \<leftarrow> k_alloc_page st; ts \<leftarrow> wr (task st) child_pid tp; Some (st\<lparr>task := ts\<rparr>) } else Some st);
          tp \<leftarrow> task_ptr st child_pid;
          st \<leftarrow> fork_record regs child_pid tp st;
          (fs, st) \<leftarrow> file_init st;
          let st = upd_task tp (\<lambda>t. t\<lparr>t_files := fs\<rparr>) st;
          st \<leftarrow> for_range 3 MAX_FILE_NUMBER (fork_file fs) st;
          st \<leftarrow> signal_init child_pid st;
          let delta = tp - current st;
          let st = upd_thread tp (\<lambda>t. t\<lparr>ra := ret_from_fork (ksym st), sp := regs + delta, sepc := regs_sepc (pt_regs_at st regs),
                                         stval := 0, scause := 0\<rparr>) (upd_task tp (\<lambda>t. t\<lparr>t_exit_code := 0\<rparr>) st);
          (mm, st) \<leftarrow> k_alloc_page st;
          m \<leftarrow> copy_mm mm (t_mm (cur st)) (kmm st);
          let st = upd_task tp (\<lambda>t. t\<lparr>t_mm := mm\<rparr>) (st\<lparr>kmm := m\<rparr>);
          (pgd, st) \<leftarrow> k_alloc_page st;
          let st = upd_task tp (\<lambda>t. t\<lparr>t_pgd := pgd\<rparr>) st;
          v \<leftarrow> copy_mapping pgd (swapper_pg_dir (ksym st)) (kvm st);
          st \<leftarrow> fork_areas pgd (mmap (mms (kmm st) (t_mm (cur st)))) (set_kvm v st);
          xs \<leftarrow> wr (regs_x (pt_regs_at st (regs + delta))) RISCV_REG_A0 0;
          Some (int child_pid, st\<lparr>pt_regs_at := (pt_regs_at st)(regs + delta := (pt_regs_at st (regs + delta))\<lparr>regs_x := xs\<rparr>)\<rparr>) }"

subsection \<open>do_execve\<close>

text \<open>The loop, shared with \<open>do_exit\<close>, that unmaps and removes every area.\<close>

partial_function (option) drop_areas :: "u64 \<Rightarrow> kst \<Rightarrow> kst option" where
  "drop_areas vma st =
     (if vma \<noteq> 0 then
        let a = vmas (kmm st) vma
        in Option.bind (remove_mapping (t_pgd (cur st)) (vm_start a) (vm_end a - vm_start a) (kvm st)) (\<lambda>v.
             drop_areas (vm_next a) (st\<lparr>kvm := v, kmm := remove_vma (t_mm (cur st)) vma (kmm st)\<rparr>))
      else Some st)"

declare drop_areas.simps [code]

definition exec_image :: "nat \<Rightarrow> u64 \<Rightarrow> kst \<Rightarrow> kst option" where
  "exec_image fd elf_header st =
     do { st \<leftarrow> drop_areas (mmap (mms (kmm st) (t_mm (cur st)))) st;
          st \<leftarrow> k_free_pages (t_mm (cur st)) st;
          (mm, st) \<leftarrow> new_mm (current st) st;
          st \<leftarrow> load_program (current st) elf_header (cur_file_ptr fd st) st;
          st \<leftarrow> k_free_pages elf_header st;
          st \<leftarrow> k_mmap (t_mm (cur st)) (USER_END - PGSIZE) PGSIZE (VM_READ OR VM_WRITE OR VM_EXEC) 0 0 0 st;
          Some (upd_thread (current st) (\<lambda>t. t\<lparr>sstatus := user_status (sstatus t), ra := dummy_entry (ksym st), sp := current st + PGSIZE,
                                               sscratch := USER_END, stval := 0, scause := 0, s_regs := replicate 12 0\<rparr>) st) }"

definition do_execve :: "u64 \<Rightarrow> kst \<Rightarrow> int outcome option" where
  "do_execve pathptr st =
     do { (fd, st) \<leftarrow> sys_openat pathptr O_RDONLY st;
          if fd < 0 then Some (Returned (- 1) st)
          else do { (elf_header, st) \<leftarrow> k_alloc_page st;
                    (ret, st) \<leftarrow> sys_read (of_int fd) elf_header PGSIZE st;
                    if ret = - 1 then Some (Returned (- 1) st)
                    else if check_elf_header elf_header st = - 1 then
                      do { (r, st) \<leftarrow> sys_close fd st; Some (Returned (- 1) st) }
                    else do { st \<leftarrow> exec_image (nat fd) elf_header st; Some (Entered st) } } }"

subsection \<open>Exit and wait\<close>

definition wake_up_process :: "nat \<Rightarrow> kst \<Rightarrow> kst option" where
  "wake_up_process pid st =
     do { st \<leftarrow> set_wait pid \<lparr>w_valid = 0, w_mask = 0\<rparr> st;
          p \<leftarrow> task_ptr st pid;
          Some (upd_task p (\<lambda>t. t\<lparr>t_state := TASK_RUNNING\<rparr>) st) }"

text \<open>\<open>1 << pid\<close> is an \<open>int\<close>: the pid must be below 31.\<close>

definition pid_bit :: "nat \<Rightarrow> u64 option" where
  "pid_bit pid = (if pid < 31 then Some (push_bit pid 1) else None)"

partial_function (option) adopt_loop :: "u64 \<Rightarrow> kst \<Rightarrow> kst option" where
  "adopt_loop i st =
     (if i < t_child_cnt (cur st) then
        Option.bind (task_ptr st (unat (vmem (kvm st) (t_cpid (cur st) + 8 * i)))) (\<lambda>c.
        let st = upd_task c (\<lambda>t. t\<lparr>t_fpid := 1\<rparr>) st
        in Option.bind (task_ptr st 1) (\<lambda>p1.
             adopt_loop (i + 1) (add_child p1 (vmem (kvm st) (t_cpid (cur st) + 8 * i)) st)))
      else Some st)"

declare adopt_loop.simps [code]

definition close_file :: "nat \<Rightarrow> kst \<Rightarrow> kst option" where
  "close_file i st =
     do { f \<leftarrow> cur_file i st;
          if opened f \<noteq> 0 then do { (r, st) \<leftarrow> sys_close (int i) st; Some st } else Some st }"

definition release_files :: "kst \<Rightarrow> kst option" where
  "release_files st =
     do { st \<leftarrow> for_range 3 MAX_FILE_NUMBER close_file st;
          st \<leftarrow> k_free_pages (t_files (cur st)) st;
          st \<leftarrow> k_free_pages (t_signal (cur st)) (upd_cur (\<lambda>t. t\<lparr>t_files := 0\<rparr>) st);
          Some (upd_cur (\<lambda>t. t\<lparr>t_signal := 0\<rparr>) st) }"

definition wake_parent :: "kst \<Rightarrow> kst option" where
  "wake_parent st =
     do { let pid = unat (t_pid (cur st)); let fpid = unat (t_fpid (cur st));
          w \<leftarrow> rd (wait_queue st) pid;
          st \<leftarrow> set_wait pid (w\<lparr>w_valid := 0\<rparr>) st;
          w \<leftarrow> rd (wait_queue st) fpid;
          b \<leftarrow> pid_bit pid;
          if w_valid w \<noteq> 0 \<and> w_mask w AND b \<noteq> 0 then wake_up_process fpid st else Some st }"

definition do_exit :: "int \<Rightarrow> kst \<Rightarrow> unit outcome option" where
  "do_exit status st =
     do { let st = upd_cur (\<lambda>t. t\<lparr>t_state := TASK_ZOMBIE, t_priority := 0, t_counter := 0, t_exit_code := of_int status\<rparr>) st;
          st \<leftarrow> drop_areas (mmap (mms (kmm st) (t_mm (cur st)))) st;
          st \<leftarrow> k_free_pages (t_mm (cur st)) st;
          st \<leftarrow> adopt_loop 0 (upd_cur (\<lambda>t. t\<lparr>t_mm := 0\<rparr>) st);
          st \<leftarrow> k_free_pages (t_cpid (cur st)) st;
          st \<leftarrow> release_files (upd_cur (\<lambda>t. t\<lparr>t_cpid := 0, t_child_cnt := 0\<rparr>) st);
          (r, st) \<leftarrow> do_kill (sint (ucast (t_fpid (cur st)) :: u32)) SIGCHLD st;
          st \<leftarrow> wake_parent st;
          schedule st }"

definition wait_queue_add :: "nat \<Rightarrow> int \<Rightarrow> kst \<Rightarrow> kst option" where
  "wait_queue_add pid wpid st =
     do { w \<leftarrow> rd (wait_queue st) pid;
          if wpid = - 1 then set_wait pid (w\<lparr>w_mask := - 1\<rparr>) st
          else if wpid < 0 then None
          else do { b \<leftarrow> pid_bit (nat wpid); set_wait pid (w\<lparr>w_mask := w_mask w OR b\<rparr>) st } }"

definition do_wait :: "int \<Rightarrow> kst \<Rightarrow> unit outcome option" where
  "do_wait pid st =
     do { let st = upd_cur (\<lambda>t. t\<lparr>t_state := TASK_INTERRUPTIBLE\<rparr>) st;
          st \<leftarrow> wait_queue_add (unat (t_pid (cur st))) pid st;
          w \<leftarrow> rd (wait_queue st) (unat (t_pid (cur st)));
          st \<leftarrow> set_wait (unat (t_pid (cur st))) (w\<lparr>w_valid := 1\<rparr>) st;
          schedule st }"

end
