(* ===== verification/Trap.thy ===== *)
theory Trap
  imports Proc
begin

unbundle bit_operations_syntax

text \<open>
  The signal handlers of \<open>signal.c\<close>, the system calls that may give up the processor and the dispatch of traps (\<open>trap.c\<close>). \<open>regs\<close> is the
  address of the saved registers. The next timer event is requested from the firmware and has no state here.
\<close>

subsection \<open>Signal handlers\<close>

definition clear_pending :: "nat \<Rightarrow> kst \<Rightarrow> kst option" where
  "clear_pending signum st =
     (let s = t_signal (cur st) in
      if s = 0 then None
      else Some (upd_signal s (\<lambda>s. s\<lparr>signal_pending := signal_pending s AND NOT (push_bit signum 1)\<rparr>) st))"

definition sigint_handler :: "nat \<Rightarrow> kst \<Rightarrow> unit outcome option" where
  "sigint_handler signum st =
     (if signum = SIGINT then do { st \<leftarrow> clear_pending signum st; do_exit 0 st } else Some (Returned () st))"

definition sigstop_handler :: "nat \<Rightarrow> kst \<Rightarrow> unit outcome option" where
  "sigstop_handler signum st =
     (if signum = SIGSTOP then
        do { st \<leftarrow> clear_pending signum st; schedule (upd_cur (\<lambda>t. t\<lparr>t_state := TASK_STOPPED\<rparr>) st) }
      else Some (Returned () st))"

definition set_reg :: "nat \<Rightarrow> u64 \<Rightarrow> u64 \<Rightarrow> kst \<Rightarrow> kst option" where
  "set_reg i v regs st =
     do { xs \<leftarrow> wr (regs_x (pt_regs_at st regs)) i v;
          Some (st\<lparr>pt_regs_at := (pt_regs_at st)(regs := (pt_regs_at st regs)\<lparr>regs_x := xs\<rparr>)\<rparr>) }"

definition reap_child :: "u64 \<Rightarrow> u64 \<Rightarrow> u64 \<Rightarrow> kst \<Rightarrow> kst option" where
  "reap_child child slot regs st =
     do { v \<leftarrow> delete_mapping (t_pgd (task_at st child)) (kvm st);
          st \<leftarrow> k_free_pages (t_pgd (task_at st child)) (set_kvm v st);
          st \<leftarrow> set_reg RISCV_REG_A0 (t_pid (task_at st child)) regs st;
          st \<leftarrow> set_reg RISCV_REG_A1 (ucast (t_exit_code (task_at st child))) regs st;
          st \<leftarrow> k_free_pages child st;
          ts \<leftarrow> wr (task st) (unat slot) 0;
          Some (st\<lparr>task := ts\<rparr>) }"

text \<open>The loop over the children; the result tells whether a zombie was found.\<close>

partial_function (option) reap_loop :: "u64 \<Rightarrow> u64 \<Rightarrow> kst \<Rightarrow> (bool \<times> kst) option" where
  "reap_loop i regs st =
     (let slot = vmem (kvm st) (t_cpid (cur st) + 8 * i) in
      if slot \<noteq> 0 then
        Option.bind (rd (task st) (unat slot)) (\<lambda>child.
          if child \<noteq> 0 \<and> t_state (task_at st child) = TASK_ZOMBIE then
            Option.bind (reap_child child slot regs st) (\<lambda>st. Some (True, st))
          else reap_loop (i + 1) regs st)
      else Some (False, st))"

declare reap_loop.simps [code]

definition sigchld_handler :: "nat \<Rightarrow> u64 \<Rightarrow> kst \<Rightarrow> unit outcome option" where
  "sigchld_handler signum regs st =
     (if signum = SIGCHLD then
        do { st \<leftarrow> clear_pending signum st;
             (stop_waiting, st) \<leftarrow> reap_loop 0 regs st;
             if stop_waiting then schedule st else Some (Returned () st) }
      else Some (Returned () st))"

fun run_k_handler :: "k_handler \<Rightarrow> nat \<Rightarrow> u64 \<Rightarrow> kst \<Rightarrow> unit outcome option" where
  "run_k_handler Sigint_handler sig regs st = sigint_handler sig st"
| "run_k_handler Sigstop_handler sig regs st = sigstop_handler sig st"
| "run_k_handler Sigchld_handler sig regs st = sigchld_handler sig regs st"

definition sig_handle_seq :: "nat list" where "sig_handle_seq = [SIGSTOP, SIGINT, SIGCHLD]"

text \<open>
  The loop of \<open>signal_handler\<close> over the signals that remain. No code installs a user handler, and one would be called in
  kernel mode: \<open>None\<close>.
\<close>

fun handle_signals :: "nat list \<Rightarrow> u64 \<Rightarrow> kst \<Rightarrow> unit outcome option" where
  "handle_signals [] regs st = Some (Returned () st)"
| "handle_signals (sig # sigs) regs st =
     (if t_signal (cur st) = 0 then None
      else let s = signal_at st (t_signal (cur st)) in
           if signal_pending s AND push_bit sig 1 = 0 then handle_signals sigs regs st
           else do { a \<leftarrow> rd (action s) sig;
                     (case handle_type a of
                        SIG_DFL \<Rightarrow>
                          (case k_handler a of
                             None \<Rightarrow> handle_signals sigs regs st
                           | Some h \<Rightarrow> do { r \<leftarrow> run_k_handler h sig regs st; and_then r (\<lambda>_. handle_signals sigs regs) })
                      | SIG_IGN \<Rightarrow> handle_signals sigs regs st
                      | SIG_CST \<Rightarrow> if u_handler a = 0 then handle_signals sigs regs st else None
                      | SIG_CST_EXT \<Rightarrow> if u_ext_handler a = 0 then handle_signals sigs regs st else None) })"

definition signal_handler :: "u64 \<Rightarrow> kst \<Rightarrow> unit outcome option" where
  "signal_handler regs st = handle_signals sig_handle_seq regs st"

subsection \<open>The remaining system calls\<close>

definition sys_clone :: "u64 \<Rightarrow> kst \<Rightarrow> (int \<times> kst) option" where
  "sys_clone regs st = do_fork regs st"

definition sys_execve :: "u64 \<Rightarrow> kst \<Rightarrow> int outcome option" where
  "sys_execve pathptr st = do { r \<leftarrow> do_execve pathptr st; and_then r (\<lambda>_ st. Some (Returned (- 1) st)) }"

definition sys_waitpid :: "int \<Rightarrow> kst \<Rightarrow> int outcome option" where
  "sys_waitpid pid st =
     (if pid < 0 \<or> pid \<ge> int (unat (num_tasks st)) then Some (Returned (- 1) st)
      else do { r \<leftarrow> do_wait pid st; and_then r (\<lambda>_ st. Some (Returned 0 st)) })"

definition sys_exit :: "int \<Rightarrow> kst \<Rightarrow> unit outcome option" where
  "sys_exit status st = do_exit status st"

subsection \<open>syscalls.h and the dispatch\<close>

definition NR_open :: u64 where [kdefs]: "NR_open = 56"
definition NR_close :: u64 where [kdefs]: "NR_close = 57"
definition NR_getdents64 :: u64 where [kdefs]: "NR_getdents64 = 61"
definition NR_lseek :: u64 where [kdefs]: "NR_lseek = 62"
definition NR_read :: u64 where [kdefs]: "NR_read = 63"
definition NR_write :: u64 where [kdefs]: "NR_write = 64"
definition NR_exit :: u64 where [kdefs]: "NR_exit = 93"
definition NR_getpid :: u64 where [kdefs]: "NR_getpid = 172"
definition NR_munmap :: u64 where [kdefs]: "NR_munmap = 215"
definition NR_clone :: u64 where [kdefs]: "NR_clone = 220"
definition NR_execve :: u64 where [kdefs]: "NR_execve = 221"
definition NR_mmap :: u64 where [kdefs]: "NR_mmap = 222"
definition NR_waitpid :: u64 where [kdefs]: "NR_waitpid = 260"

definition c_int :: "u64 \<Rightarrow> int" where "c_int w = sint (ucast w :: u32)"

definition returning :: "(int \<times> kst) option \<Rightarrow> int outcome option" where
  "returning r = map_option (\<lambda>(v, st). Returned v st) r"

text \<open>The call \<open>nr\<close> with the argument registers \<open>a i\<close>; a call that is not implemented, and an exit that comes back, gives 0.\<close>

definition syscall :: "u64 \<Rightarrow> (nat \<Rightarrow> u64) \<Rightarrow> u64 \<Rightarrow> kst \<Rightarrow> int outcome option" where
  "syscall nr a regs st =
     (if nr = NR_open then returning (sys_open (a 0) (ucast (a 1)) st)
      else if nr = NR_close then returning (sys_close (c_int (a 0)) st)
      else if nr = NR_lseek then returning (sys_lseek (c_int (a 0)) (a 1) (c_int (a 2)) st)
      else if nr = NR_read then returning (sys_read (ucast (a 0)) (a 1) (a 2) st)
      else if nr = NR_write then returning (sys_write (ucast (a 0)) (a 1) (a 2) st)
      else if nr = NR_getpid then Some (Returned (sys_getpid st) st)
      else if nr = NR_clone then returning (sys_clone regs st)
      else if nr = NR_mmap then returning (sys_mmap (a 0) (a 1) (ucast (a 2)) (ucast (a 3)) (c_int (a 4)) (a 5) st)
      else if nr = NR_munmap then returning (sys_munmap (a 0) (a 1) st)
      else if nr = NR_getdents64 then returning (sys_getdents64 (c_int (a 0)) (a 1) (a 2) st)
      else if nr = NR_execve then sys_execve (a 0) st
      else if nr = NR_waitpid then sys_waitpid (c_int (a 0)) st
      else if nr = NR_exit then do { r \<leftarrow> sys_exit (c_int (a 0)) st; and_then r (\<lambda>_ st. Some (Returned 0 st)) }
      else Some (Returned 0 st))"

definition ecall_from_user_mode_handler :: "u64 \<Rightarrow> kst \<Rightarrow> unit outcome option" where
  "ecall_from_user_mode_handler regs st =
     do { let r = pt_regs_at st regs;
          let st = st\<lparr>pt_regs_at := (pt_regs_at st)(regs := r\<lparr>regs_sepc := regs_sepc r + 4\<rparr>)\<rparr>;
          nr \<leftarrow> rd (regs_x r) RISCV_REG_A7;
          o' \<leftarrow> syscall nr (\<lambda>i. regs_x r ! (RISCV_REG_A0 + i)) regs st;
          and_then o' (\<lambda>ret st. map_option (Returned ()) (set_reg RISCV_REG_A0 (of_int ret) regs st)) }"

text \<open>What is left of a \<open>waitpid\<close> when its task is switched back to.\<close>

definition waitpid_resume :: "u64 \<Rightarrow> kst \<Rightarrow> kst option" where
  "waitpid_resume regs st = set_reg RISCV_REG_A0 0 regs st"

definition supervisor_timer_interrupt_handler :: "kst \<Rightarrow> unit outcome option" where
  "supervisor_timer_interrupt_handler st = do_timer st"

datatype trap_handler_fun = Timer_interrupt | Ecall_from_user | Page_fault

definition handler_table :: "(u8 \<times> u8 \<times> trap_handler_fun) list" where
  "handler_table = [(1, 5, Timer_interrupt), (0, 8, Ecall_from_user), (0, ucast SCAUSE_INST_PAGE_FAULT, Page_fault),
     (0, ucast SCAUSE_LOAD_PAGE_FAULT, Page_fault), (0, ucast SCAUSE_STORE_PAGE_FAULT, Page_fault)]"

fun run_trap :: "trap_handler_fun \<Rightarrow> u64 \<Rightarrow> u64 \<Rightarrow> u64 \<Rightarrow> kst \<Rightarrow> unit outcome option" where
  "run_trap Timer_interrupt regs cause val st = supervisor_timer_interrupt_handler st"
| "run_trap Ecall_from_user regs cause val st = ecall_from_user_mode_handler regs st"
| "run_trap Page_fault regs cause val st = map_option (Returned ()) (do_page_fault cause val st)"

definition trap_handler :: "u64 \<Rightarrow> u64 \<Rightarrow> u64 \<Rightarrow> kst \<Rightarrow> unit outcome option" where
  "trap_handler regs cause val st =
     (let interrupt = ucast (drop_bit 63 cause); exception_code = ucast (cause AND 0x3f)
      in case find (\<lambda>(i, c, h). i = interrupt \<and> c = exception_code) handler_table of
           Some (i, c, h) \<Rightarrow> run_trap h regs cause val st
         | None \<Rightarrow> Some (Returned () st))"

end
