(* ===== verification/Proc_Props.thy ===== *)
theory Proc_Props
  imports Trap
begin

unbundle bit_operations_syntax

text \<open>What the operations of the process layer leave alone, and when they return.\<close>

subsection \<open>The scheduler as the last step\<close>

definition same_but_counters :: "kst \<Rightarrow> kst \<Rightarrow> bool" where
  "same_but_counters st st' \<longleftrightarrow> task st' = task st \<and> num_tasks st' = num_tasks st \<and> wait_queue st' = wait_queue st \<and>
     signal_at st' = signal_at st \<and> kvm st' = kvm st \<and> kmm st' = kmm st \<and> files_at st' = files_at st \<and>
     (\<forall>p. \<exists>c. task_at st' p = (task_at st p)\<lparr>t_counter := c\<rparr>)"

lemma counter_self: "\<exists>c. t = t\<lparr>t_counter := c\<rparr>" for t :: task_struct
  by (rule exI [of _ "t_counter t"]) simp

lemma same_but_counters_refl [simp]: "same_but_counters st st"
  by (simp add: same_but_counters_def counter_self)

lemma same_but_counters_trans: "same_but_counters a b \<Longrightarrow> same_but_counters b c \<Longrightarrow> same_but_counters a c"
  unfolding same_but_counters_def by (auto, metis task_struct.update_convs(7) task_struct.surjective)

lemma refill_same:
  assumes "for_range 1 n refill_step st = Some st'"
  shows "same_but_counters st st' \<and> current st' = current st"
proof -
  have "same_but_counters st st' \<and> current st' = current st"
  proof (cases "1 \<le> n")
    case True
    show ?thesis
    proof (rule for_range_rule [where P = "\<lambda>k s. same_but_counters st s \<and> current s = current st", OF assms _ True])
      fix k u v
      assume "same_but_counters st u \<and> current u = current st" "refill_step k u = Some v"
      moreover from this(2) have "same_but_counters u v \<and> current v = current u"
        by (auto simp: refill_step_def upd_task_def same_but_counters_def split: Option.bind_splits if_splits)
          (metis task_struct.surjective task_struct.update_convs(7))+
      ultimately show "same_but_counters st v \<and> current v = current st" using same_but_counters_trans by metis
    qed simp
  next
    case False
    then show ?thesis using assms by (simp add: for_range_def)
  qed
  then show ?thesis .
qed

lemma switch_same: "same_but_counters st (state_of (switch_to p st))"
proof (cases "t_pid (cur st) = t_pid (task_at st p)")
  case True
  then show ?thesis by (simp add: switch_to_def)
next
  case False
  then have "switch_to p st = Yielded (st\<lparr>current := p, switches := switches st @ [(current st, p)]\<rparr>)" by (simp add: switch_to_def)
  then show ?thesis by (simp add: same_but_counters_def counter_self)
qed

lemma schedule_same:
  assumes "schedule st = Some r"
  shows "same_but_counters st (state_of r)"
proof -
  obtain m0 m s p where 1: "(if m0 = 0 then Option.bind (for_range 1 (unat (num_tasks st)) refill_step st)
        (\<lambda>st. Option.bind (get_max_cnt_pid st) (\<lambda>m. Some (m, st))) else Some (m0, st)) = Some (m :: nat, s)" and 2: "r = switch_to p s"
    using assms by (auto simp: schedule_def Option.bind_eq_Some_conv split del: if_split)
  have "s = st \<or> for_range 1 (unat (num_tasks st)) refill_step st = Some s"
    using 1 by (auto simp: Option.bind_eq_Some_conv split: if_splits)
  then have "same_but_counters st s"
  proof
    assume "for_range 1 (unat (num_tasks st)) refill_step st = Some s"
    from refill_same [OF this] show ?thesis ..
  qed simp
  then show ?thesis unfolding 2 using switch_same by (rule same_but_counters_trans)
qed

lemma schedule_total:
  assumes "sched_wf st"
  shows "\<exists>r. schedule st = Some r"
proof (cases "\<exists>i\<in>runnable st. 0 < t_counter (slot_task st i)")
  case True
  then show ?thesis using schedule_choice [OF assms] by blast
next
  case False
  then have "\<forall>i\<in>runnable st. t_counter (slot_task st i) = 0" by (auto simp: word_gt_0)
  then show ?thesis using schedule_round [OF assms] by blast
qed

lemma sched_wf_cong:
  assumes "sched_wf st" "task st' = task st" "num_tasks st' = num_tasks st" "current st' = current st"
    "\<And>p. t_pid (task_at st' p) = t_pid (task_at st p)" "t_counter (slot_task st' 0) = 0"
  shows "sched_wf st'"
proof -
  have "slots st' = slots st" by (simp add: slots_def assms(2,3))
  moreover have "t_pid (slot_task st' i) = t_pid (slot_task st i)" for i by (simp add: slot_task_def assms(2,5))
  ultimately show ?thesis using assms(1,2,3,4,6) by (simp add: sched_wf_def)
qed

subsection \<open>Releasing what a task holds\<close>

lemma drop_areas_same:
  assumes "drop_areas vma st = Some st'"
  shows "st' = st\<lparr>kvm := kvm st', kmm := kmm st'\<rparr>"
proof (rule drop_areas.raw_induct [where P = "\<lambda>vma st st'. st' = st\<lparr>kvm := kvm st', kmm := kmm st'\<rparr>", OF _ assms], goal_cases)
  case (1 f vma st st')
  show ?case
  proof (cases "vma = 0")
    case True
    then show ?thesis using 1(2) by simp
  next
    case False
    then obtain v where v: "f (vm_next (vmas (kmm st) vma)) (st\<lparr>kvm := v, kmm := remove_vma (t_mm (cur st)) vma (kmm st)\<rparr>) = Some st'"
      using 1(2) by (auto simp: Let_def Option.bind_eq_Some_conv)
    show ?thesis by (subst 1(1) [OF v]) simp
  qed
qed

definition live_page :: "kst \<Rightarrow> u64 \<Rightarrow> bool" where
  "live_page st p \<longleftrightarrow> (\<exists>c. rd (ref_cnt (vbuddy (kvm st))) (pfn_of_va p) = Some c \<and> c \<noteq> 0)"

lemma free_live: "live_page st p \<Longrightarrow> k_free_pages p st = Some st"
  by (auto simp: live_page_def k_free_pages_def free_pages_def buddy_free_def)

lemma close_all:
  assumes "t_files (cur st) \<noteq> 0" "length (files_at st (t_files (cur st))) = MAX_FILE_NUMBER"
  shows "\<exists>fs. for_range 3 MAX_FILE_NUMBER close_file st = Some (st\<lparr>files_at := (files_at st)(t_files (cur st) := fs)\<rparr>) \<and>
     length fs = MAX_FILE_NUMBER \<and> (\<forall>i<MAX_FILE_NUMBER. 3 \<le> i \<longrightarrow> opened (fs ! i) = 0)"
proof -
  define P where "P k s \<longleftrightarrow> (\<exists>fs. s = st\<lparr>files_at := (files_at st)(t_files (cur st) := fs)\<rparr> \<and> length fs = MAX_FILE_NUMBER \<and>
    (\<forall>i<k. 3 \<le> i \<longrightarrow> opened (fs ! i) = 0))" for k :: nat and s
  have "\<exists>t. for_range 3 MAX_FILE_NUMBER close_file st = Some t \<and> P MAX_FILE_NUMBER t"
  proof (rule for_range_total)
    have "st = st\<lparr>files_at := (files_at st)(t_files (cur st) := files_at st (t_files (cur st)))\<rparr>" by simp
    then show "P 3 st" unfolding P_def using assms(2) by fastforce
    fix k u
    assume k: "3 \<le> k" "k < MAX_FILE_NUMBER" and u: "P k u"
    obtain fs where fs: "u = st\<lparr>files_at := (files_at st)(t_files (cur st) := fs)\<rparr>" "length fs = MAX_FILE_NUMBER"
      "\<forall>i<k. 3 \<le> i \<longrightarrow> opened (fs ! i) = 0" using u unfolding P_def by blast
    have c: "cur_files u = Some fs" "cur_file k u = Some (fs ! k)" using fs k(2) assms(1) by (simp_all add: cur_files_def cur_file_def)
    show "\<exists>v. close_file k u = Some v \<and> P (Suc k) v"
    proof (cases "opened (fs ! k) = 0")
      case True
      then have "close_file k u = Some u" by (simp add: close_file_def c)
      moreover have "P (Suc k) u" unfolding P_def using fs True by (intro exI [of _ fs]) (auto simp: less_Suc_eq)
      ultimately show ?thesis by blast
    next
      case False
      let ?fs = "fs[k := (fs ! k)\<lparr>opened := 0, cfo := 0\<rparr>]"
      have "close_file k u = Some (st\<lparr>files_at := (files_at st)(t_files (cur st) := ?fs)\<rparr>)"
        using False k fs(1,2) c by (simp add: close_file_def sys_close_def bad_fd_def upd_cur_file_def)
      moreover have "P (Suc k) (st\<lparr>files_at := (files_at st)(t_files (cur st) := ?fs)\<rparr>)"
        unfolding P_def using fs(2,3) k by (intro exI [of _ ?fs]) (auto simp: less_Suc_eq nth_list_update)
      ultimately show ?thesis by blast
    qed
  qed (simp add: MAX_FILE_NUMBER_def)
  then show ?thesis unfolding P_def by blast
qed

lemma release_files_ok:
  assumes "t_files (cur st) \<noteq> 0" "length (files_at st (t_files (cur st))) = MAX_FILE_NUMBER"
    "live_page st (t_files (cur st))" "live_page st (t_signal (cur st))"
  shows "\<exists>fs. release_files st = Some (upd_cur (\<lambda>t. t\<lparr>t_files := 0, t_signal := 0\<rparr>)
     (st\<lparr>files_at := (files_at st)(t_files (cur st) := fs)\<rparr>))"
proof -
  obtain fs where fs: "for_range 3 MAX_FILE_NUMBER close_file st = Some (st\<lparr>files_at := (files_at st)(t_files (cur st) := fs)\<rparr>)"
    using close_all [OF assms(1,2)] by blast
  let ?s = "st\<lparr>files_at := (files_at st)(t_files (cur st) := fs)\<rparr>"
  have 1: "k_free_pages (t_files (cur ?s)) ?s = Some ?s" using assms(3) by (intro free_live) (simp add: live_page_def)
  have 2: "k_free_pages (t_signal (cur st)) (upd_cur (\<lambda>t. t\<lparr>t_files := 0\<rparr>) ?s) = Some (upd_cur (\<lambda>t. t\<lparr>t_files := 0\<rparr>) ?s)"
    using assms(4) by (intro free_live) (simp add: live_page_def upd_task_def)
  show ?thesis using 1 2 by (intro exI [of _ fs]) (simp add: release_files_def fs upd_task_def)
qed

subsection \<open>Exit\<close>

text \<open>
  A task that can exit: it has no children, its pages are live after its areas were dropped, and its parent is another task of the
  table that holds a signal structure.
\<close>

definition zombie :: "int \<Rightarrow> kst \<Rightarrow> kst" where
  "zombie status st = upd_cur (\<lambda>t. t\<lparr>t_state := TASK_ZOMBIE, t_priority := 0, t_counter := 0, t_exit_code := of_int status\<rparr>) st"

definition can_exit :: "int \<Rightarrow> nat \<Rightarrow> nat \<Rightarrow> kst \<Rightarrow> bool" where
  "can_exit status pid f st \<longleftrightarrow> sched_wf st \<and> length (task st) = NR_TASKS \<and> length (wait_queue st) = NR_TASKS \<and>
     pid \<in> slots st \<and> current st = task st ! pid \<and> f \<in> slots st \<and> f \<noteq> pid \<and> t_fpid (cur st) = of_nat f \<and>
     t_signal (slot_task st f) \<noteq> 0 \<and> t_child_cnt (cur st) = 0 \<and> t_files (cur st) \<noteq> 0 \<and>
     length (files_at st (t_files (cur st))) = MAX_FILE_NUMBER \<and>
     (\<exists>s1. drop_areas (mmap (mms (kmm st) (t_mm (cur st)))) (zombie status st) = Some s1 \<and>
        live_page s1 (t_mm (cur st)) \<and> live_page s1 (t_cpid (cur st)) \<and> live_page s1 (t_files (cur st)) \<and> live_page s1 (t_signal (cur st)))"

lemma small_pid: "i < NR_TASKS \<Longrightarrow> unat (of_nat i :: u64) = i \<and> sint (ucast (of_nat i :: u64) :: u32) = int i"
proof -
  assume "i < NR_TASKS"
  then have i: "i < 9" by (simp add: NR_TASKS_def)
  then have u: "unat (of_nat i :: u64) = i" by (intro unat_of_nat_small) simp
  then show ?thesis using sint_ucast_u32_small [of "of_nat i"] i by simp
qed

text \<open>The state before \<open>wake_parent\<close>: the signal is pending, the task holds nothing.\<close>

lemma exit_prefix:
  assumes ce: "can_exit status pid f st"
  shows "\<exists>s5. do_exit status st = Option.bind (wake_parent s5) schedule \<and>
    task s5 = task st \<and> num_tasks s5 = num_tasks st \<and> current s5 = current st \<and> wait_queue s5 = wait_queue st \<and>
    t_state (cur s5) = TASK_ZOMBIE \<and> t_exit_code (cur s5) = of_int status \<and> t_pid (cur s5) = t_pid (cur st) \<and>
    t_fpid (cur s5) = t_fpid (cur st) \<and> t_counter (cur s5) = 0 \<and>
    (\<forall>p. p \<noteq> current st \<longrightarrow> task_at s5 p = task_at st p) \<and>
    signal_pending (signal_at s5 (t_signal (slot_task st f))) = signal_pending (signal_at st (t_signal (slot_task st f))) OR push_bit SIGCHLD 1"
proof -
  let ?c = "current st"
  obtain s1 where s1: "drop_areas (mmap (mms (kmm st) (t_mm (cur st)))) (zombie status st) = Some s1"
    "live_page s1 (t_mm (cur st))" "live_page s1 (t_cpid (cur st))" "live_page s1 (t_files (cur st))" "live_page s1 (t_signal (cur st))"
    using ce by (auto simp: can_exit_def)
  have z: "t_child_cnt (cur st) = 0" "t_files (cur st) \<noteq> 0" "length (files_at st (t_files (cur st))) = MAX_FILE_NUMBER"
    "t_fpid (cur st) = of_nat f" "t_signal (slot_task st f) \<noteq> 0" and wf: "sched_wf st" "pid \<in> slots st" "f \<in> slots st" "f \<noteq> pid"
    "length (task st) = NR_TASKS" and cp: "?c = task st ! pid"
    using ce unfolding can_exit_def by - (elim conjE, assumption)+
  have e1: "s1 = (zombie status st)\<lparr>kvm := kvm s1, kmm := kmm s1\<rparr>" by (rule drop_areas_same [OF s1(1)])
  have f1: "task s1 = task st" "num_tasks s1 = num_tasks st" "current s1 = ?c" "wait_queue s1 = wait_queue st" "signal_at s1 = signal_at st"
    "files_at s1 = files_at st"
    "task_at s1 = (task_at st)(?c := (cur st)\<lparr>t_state := TASK_ZOMBIE, t_priority := 0, t_counter := 0, t_exit_code := of_int status\<rparr>)"
    by (subst e1, simp add: zombie_def upd_task_def)+
  define s2 where "s2 = upd_cur (\<lambda>t. t\<lparr>t_mm := 0\<rparr>) s1"
  define s3 where "s3 = upd_cur (\<lambda>t. t\<lparr>t_cpid := 0, t_child_cnt := 0\<rparr>) s2"
  have free1: "k_free_pages (t_mm (cur s1)) s1 = Some s1" using s1(2) by (intro free_live) (simp add: f1)
  have "t_child_cnt (cur s2) = 0" using z by (simp add: s2_def upd_task_def f1)
  then have adopt: "adopt_loop 0 s2 = Some s2" by (subst adopt_loop.simps) simp
  have free2: "k_free_pages (t_cpid (cur s2)) s2 = Some s2"
    using s1(3) by (intro free_live) (simp add: f1 s2_def upd_task_def live_page_def)
  have "\<exists>fs. release_files s3 = Some (upd_cur (\<lambda>t. t\<lparr>t_files := 0, t_signal := 0\<rparr>)
     (s3\<lparr>files_at := (files_at s3)(t_files (cur s3) := fs)\<rparr>))"
    by (rule release_files_ok) (use z s1(4,5) in \<open>simp_all add: s3_def s2_def upd_task_def f1 live_page_def\<close>)
  then obtain fs where fs: "release_files s3 = Some (upd_cur (\<lambda>t. t\<lparr>t_files := 0, t_signal := 0\<rparr>)
     (s3\<lparr>files_at := (files_at s3)(t_files (cur s3) := fs)\<rparr>))" by blast
  define s4 where "s4 = upd_cur (\<lambda>t. t\<lparr>t_files := 0, t_signal := 0\<rparr>) (s3\<lparr>files_at := (files_at s3)(t_files (cur s3) := fs)\<rparr>)"
  have f4: "task s4 = task st" "num_tasks s4 = num_tasks st" "current s4 = ?c" "wait_queue s4 = wait_queue st" "signal_at s4 = signal_at st"
    "t_state (cur s4) = TASK_ZOMBIE" "t_exit_code (cur s4) = of_int status" "t_pid (cur s4) = t_pid (cur st)" "t_fpid (cur s4) = t_fpid (cur st)"
    "t_counter (cur s4) = 0" "\<And>p. p \<noteq> ?c \<Longrightarrow> task_at s4 p = task_at st p"
    by (simp_all add: s4_def s3_def s2_def upd_task_def f1)
  have fb: "f < NR_TASKS" "f < unat (num_tasks st)" "f < length (task st)" using wf by (auto simp: slots_def sched_wf_def)
  have fp: "task st ! f \<noteq> 0" "task st ! f \<noteq> ?c"
    using wf slot_ptr_inj [OF wf(1), of f pid] by (auto simp: slots_def cp)
  let ?sp = "t_signal (slot_task st f)"
  have kill: "do_kill (sint (ucast (t_fpid (cur s4)) :: u32)) SIGCHLD s4 =
    Some (0, upd_signal ?sp (\<lambda>s. s\<lparr>signal_pending := signal_pending s OR push_bit SIGCHLD 1\<rparr>) s4)"
  proof -
    have "int f < int (unat (num_tasks st))" using fb(2) by (simp only: of_nat_less_iff)
    then have n: "\<not> uint (num_tasks st) < int f" by simp
    have e: "t_fpid (cur s4) = of_nat f" using f4(9) z(4) by simp
    show ?thesis unfolding e using z(5) fb(3) fp small_pid [OF fb(1)] n by (simp add: do_kill_def f4 slot_task_def)
  qed
  have "do_exit status st = Option.bind (wake_parent (upd_signal ?sp (\<lambda>s. s\<lparr>signal_pending := signal_pending s OR push_bit SIGCHLD 1\<rparr>) s4)) schedule"
    unfolding do_exit_def
    by (simp add: zombie_def [symmetric] Let_def)
      (simp add: zombie_def upd_task_def s1(1) [unfolded zombie_def upd_task_def] free1 s2_def [symmetric, unfolded upd_task_def]
        adopt free2 s3_def [symmetric, unfolded upd_task_def] fs [folded s4_def, unfolded upd_task_def] kill)
  then show ?thesis
    by (intro exI [of _ "upd_signal ?sp (\<lambda>s. s\<lparr>signal_pending := signal_pending s OR push_bit SIGCHLD 1\<rparr>) s4"])
      (use f4(6-10) [unfolded f4(3)] in \<open>simp add: f4(1-5,11) upd_signal_def\<close>)
qed

lemma wake_parent_ok:
  assumes "length (wait_queue s) = NR_TASKS" "length (task s) = NR_TASKS" "t_pid (cur s) = of_nat pid" "t_fpid (cur s) = of_nat f"
    "pid < NR_TASKS" "f < NR_TASKS" "pid \<noteq> f" "task s ! f \<noteq> 0"
  defines "woken \<equiv> w_valid (wait_queue s ! f) \<noteq> 0 \<and> w_mask (wait_queue s ! f) AND push_bit pid 1 \<noteq> 0"
  shows "\<exists>s'. wake_parent s = Some s' \<and> task s' = task s \<and> num_tasks s' = num_tasks s \<and> current s' = current s \<and> signal_at s' = signal_at s \<and>
    wait_queue s' ! f = (if woken then \<lparr>w_valid = 0, w_mask = 0\<rparr> else wait_queue s ! f) \<and>
    task_at s' = (if woken then (task_at s)(task s ! f := (task_at s (task s ! f))\<lparr>t_state := TASK_RUNNING\<rparr>) else task_at s)"
proof -
  have u: "unat (t_pid (cur s)) = pid" "unat (t_fpid (cur s)) = f" using assms(3-6) small_pid by simp_all
  have b: "pid_bit pid = Some (push_bit pid 1)" using assms(5) by (simp add: pid_bit_def NR_TASKS_def)
  show ?thesis using assms(1,2,5,6,7,8)
    by (simp add: wake_parent_def u b set_wait_def wake_up_process_def task_ptr_def upd_task_def woken_def)
qed

lemma schedule_current:
  assumes wf: "sched_wf st" and r: "schedule st = Some r"
  shows "\<exists>m. (m = 0 \<or> m \<in> runnable st) \<and> current (state_of r) = task st ! m" "sched_wf (state_of r)"
proof -
  have "\<exists>s m. (m = 0 \<or> m \<in> runnable st) \<and> r = switch_to (task st ! m) s \<and> sched_wf s \<and> (m = 0 \<or> m \<in> slots s) \<and> task s = task st"
  proof (cases "\<exists>i\<in>runnable st. 0 < t_counter (slot_task st i)")
    case True
    then obtain m where m: "m \<in> runnable st" "r = switch_to (task st ! m) st" using schedule_choice [OF wf] r by force
    then show ?thesis using wf by (intro exI [of _ st] exI [of _ m]) (simp add: runnable_def)
  next
    case False
    then have "\<forall>i\<in>runnable st. t_counter (slot_task st i) = 0" by (auto simp: word_gt_0)
    then obtain s m where s: "refilled st s" "is_choice s (unat (num_tasks st)) m" "r = switch_to (task st ! m) s"
      using schedule_round [OF wf] r by force
    have m: "m = 0 \<or> m \<in> runnable st" using s(2) refilled_simps(2) [OF s(1)] by (auto simp: is_choice_def)
    then have "m = 0 \<or> m \<in> slots s" using refilled_simps(1) [OF s(1)] by (auto simp: runnable_def)
    moreover have "task s = task st" using s(1) by (simp add: refilled_def)
    ultimately show ?thesis using m s(3) refilled_simps(3) [OF s(1) wf] by blast
  qed
  then obtain s m where m: "m = 0 \<or> m \<in> runnable st" "r = switch_to (task s ! m) s" "sched_wf s" "m = 0 \<or> m \<in> slots s" "task s = task st"
    by auto
  show "\<exists>m. (m = 0 \<or> m \<in> runnable st) \<and> current (state_of r) = task st ! m"
    using switch_to_slot(1) [OF m(3,4)] m(1,2,5) by auto
  show "sched_wf (state_of r)" using switch_to_slot(2) [OF m(3,4)] m(2) by simp
qed

lemma schedule_outcome:
  assumes "schedule st = Some r"
  shows "r = Returned () (state_of r) \<and> current (state_of r) = current st \<or> r = Yielded (state_of r)"
proof -
  obtain m0 m s p where 1: "(if m0 = 0 then Option.bind (for_range 1 (unat (num_tasks st)) refill_step st)
        (\<lambda>st. Option.bind (get_max_cnt_pid st) (\<lambda>m. Some (m, st))) else Some (m0, st)) = Some (m :: nat, s)" and 2: "r = switch_to p s"
    using assms by (auto simp: schedule_def Option.bind_eq_Some_conv split del: if_split)
  have "s = st \<or> for_range 1 (unat (num_tasks st)) refill_step st = Some s"
    using 1 by (auto simp: Option.bind_eq_Some_conv split: if_splits)
  then have "current s = current st" using refill_same by blast
  then show ?thesis by (simp add: 2 switch_to_def)
qed

end
