(* ===== verification/Sched_Claims.thy ===== *)
theory Sched_Claims
  imports Sched
begin

unbundle bit_operations_syntax

text \<open>The properties of the scheduler, with a table of three tasks as the example.\<close>

subsection \<open>An example\<close>

definition demo_thread :: thread_struct where
  "demo_thread = \<lparr>ra = 0, sp = 0, s_regs = replicate 12 0, sepc = 0, sstatus = 0, sscratch = 0, stval = 0, scause = 0\<rparr>"

definition demo_task :: "u64 \<Rightarrow> u64 \<Rightarrow> u64 \<Rightarrow> u64 \<Rightarrow> task_struct" where
  "demo_task pid st pri cnt = \<lparr>t_pid = pid, t_fpid = 0, t_cpid = 0, t_child_cnt = 0, t_state = st, t_priority = pri, t_counter = cnt,
     t_thread = demo_thread, t_pgd = 0, t_mm = 0, t_files = 0, t_signal = 0, t_exit_code = 0\<rparr>"

definition demo_kst :: "(u64 \<Rightarrow> task_struct) \<Rightarrow> kst" where
  "demo_kst tasks = \<lparr>kvm = \<lparr>vmem = (\<lambda>_. 0), vbuddy = \<lparr>bitmap = [], ref_cnt = [], bsize = 0\<rparr>\<rparr>,
     kmm = \<lparr>mms = (\<lambda>_. \<lparr>mmap = 0, num_vmas = 0, free_vma_list = 0\<rparr>), vmas = (\<lambda>_. zero_vma)\<rparr>,
     task_at = tasks, signal_at = (\<lambda>_. \<lparr>signal_pending = 0, action = []\<rparr>), files_at = (\<lambda>_. []),
     pt_regs_at = (\<lambda>_. \<lparr>regs_x = replicate 32 0, regs_sepc = 0, regs_sscratch = 0\<rparr>),
     task = [10, 20, 30, 0, 0, 0, 0, 0, 0], wait_queue = replicate 9 \<lparr>w_valid = 0, w_mask = 0\<rparr>, idle = 10, current = 20, num_tasks = 3,
     seed = 0, fat = \<lparr>fat32_header = \<lparr>jmp_boot = [], oem_name = [], bytes_per_sec = 0, sec_per_clus = 0, rsvd_sec_cnt = 0, num_fats = 0,
        root_ent_cnt = 0, tot_sec16 = 0, media = 0, fat_sz16 = 0, sec_per_trk = 0, num_heads = 0, hidd_sec = 0, tot_sec32 = 0, fat_sz32 = 0,
        ext_flags = 0, fs_ver = 0, root_clus = 0, fs_info = 0, bk_boot_sec = 0, drv_num = 0, boot_sig = 0, vol_id = 0, vol_lab = [],
        fil_sys_type = [], boot_sector_signature = 0\<rparr>,
        fat32_volume = \<lparr>first_data_sec = 0, first_fat_sec = 0, sec_per_cluster = 0, fat_sz = 0\<rparr>,
        fat32_buf = [], fat32_table_buf = [], mbr_buf = [], fat_disk = (\<lambda>_. [])\<rparr>,
     con_in = [], con_takes = length, con_out = [], junk = (\<lambda>_. replicate 12 0), switches = [],
     ksym = \<lparr>swapper_pg_dir = 0, suapp = 0, euapp = 0, dummy_entry = 0, ret_from_fork = 0\<rparr>\<rparr>"

definition demo_sched :: "u64 \<Rightarrow> u64 \<Rightarrow> kst" where
  "demo_sched c1 c2 = demo_kst (\<lambda>p. if p = 10 then demo_task 0 0 0 0 else if p = 20 then demo_task 1 0 5 c1 else demo_task 2 0 7 c2)"

lemma demo_slots: "slots (demo_sched c1 c2) = {1, 2}"
proof -
  have "slots (demo_sched c1 c2) = set (filter (\<lambda>i. 1 \<le> i \<and> task (demo_sched c1 c2) ! i \<noteq> 0) [0 ..< 3])"
    by (auto simp: slots_def demo_sched_def demo_kst_def)
  also have "\<dots> = {1, 2}" by (simp add: upt_rec demo_sched_def demo_kst_def) auto
  finally show ?thesis .
qed

lemma demo_slot_task:
  "slot_task (demo_sched c1 c2) 0 = demo_task 0 0 0 0" "slot_task (demo_sched c1 c2) (Suc 0) = demo_task 1 0 5 c1"
  "slot_task (demo_sched c1 c2) 2 = demo_task 2 0 7 c2"
  by (simp_all add: slot_task_def demo_sched_def demo_kst_def)

lemma demo_runnable: "runnable (demo_sched c1 c2) = {1, 2}"
  unfolding runnable_def demo_slots by (auto simp: demo_slot_task demo_task_def TASK_RUNNING_def)

lemma demo_sched_wf: "sched_wf (demo_sched c1 c2)"
proof -
  have "current (demo_sched c1 c2) = task (demo_sched c1 c2) ! 1" by (simp add: demo_sched_def demo_kst_def)
  moreover have "\<forall>i\<in>{1, 2}. t_pid (slot_task (demo_sched c1 c2) i) = of_nat i" by (simp add: demo_slot_task demo_task_def)
  ultimately show ?thesis unfolding sched_wf_def demo_slots demo_slot_task
    by (auto simp: demo_sched_def demo_kst_def demo_task_def)
qed

subsection \<open>The properties\<close>

text \<open>
  C24. The choice of \<open>schedule\<close>. In a well-formed task table (the idle task in entry 0 with an empty slice, task \<open>i\<close> in
  entry \<open>i\<close>, the running task in the table), when some runnable task has time left, \<open>schedule\<close> gives the processor to the
  first of the runnable tasks with the largest remaining slice, changes no task, and keeps the table well formed.
\<close>

theorem schedule_picks_longest:
  assumes "sched_wf st" "i \<in> runnable st" "0 < t_counter (slot_task st i)"
  shows "\<exists>m r. schedule st = Some r \<and> current (state_of r) = task st ! m \<and> m \<in> runnable st \<and>
    (\<forall>j\<in>runnable st. t_counter (slot_task st j) \<le> t_counter (slot_task st m) \<and>
       (j < m \<longrightarrow> t_counter (slot_task st j) < t_counter (slot_task st m))) \<and>
    task_at (state_of r) = task_at st \<and> task (state_of r) = task st \<and> sched_wf (state_of r)"
proof -
  obtain m where m: "m \<in> runnable st" "is_choice st (unat (num_tasks st)) m" "0 < t_counter (slot_task st m)"
    "schedule st = Some (switch_to (task st ! m) st)"
    using schedule_choice [OF assms] by blast
  have ms: "m \<in> slots st" using m(1) by (simp add: runnable_def)
  obtain sw where sw: "state_of (switch_to (task st ! m) st) = st\<lparr>current := task st ! m, switches := sw\<rparr>"
    using switch_to_slot(1) [OF assms(1) disjI2 [OF ms]] by blast
  have "\<forall>j\<in>runnable st. t_counter (slot_task st j) \<le> t_counter (slot_task st m) \<and>
       (j < m \<longrightarrow> t_counter (slot_task st j) < t_counter (slot_task st m))"
    using m(2,3) by (auto simp: is_choice_def runnable_def slots_def)
  moreover have "sched_wf (state_of (switch_to (task st ! m) st))" by (rule switch_to_slot(2) [OF assms(1) disjI2 [OF ms]])
  ultimately show ?thesis using m(1,4) by (intro exI [of _ m] exI [of _ "switch_to (task st ! m) st"]) (simp add: sw)
qed

theorem schedule_picks_longest_witness:
  "\<exists>r. schedule (demo_sched 3 8) = Some r \<and> current (state_of r) = 30 \<and> task_at (state_of r) = task_at (demo_sched 3 8)"
proof -
  have "2 \<in> runnable (demo_sched 3 8)" "0 < t_counter (slot_task (demo_sched 3 8) 2)"
    by (simp_all add: demo_runnable demo_slot_task demo_task_def)
  from schedule_picks_longest [OF demo_sched_wf this] obtain m r where r: "schedule (demo_sched 3 8) = Some r"
    "current (state_of r) = task (demo_sched 3 8) ! m" "m \<in> {1, 2}"
    "\<forall>j\<in>{1, 2}. t_counter (slot_task (demo_sched 3 8) j) \<le> t_counter (slot_task (demo_sched 3 8) m)"
    "task_at (state_of r) = task_at (demo_sched 3 8)"
    unfolding demo_runnable by auto
  have "m = 2" using r(3,4) by (auto simp: demo_slot_task demo_task_def)
  then show ?thesis using r by (auto simp: demo_sched_def demo_kst_def)
qed

text \<open>
  C25. A new round. When no runnable task has time left, \<open>schedule\<close> gives every task of the table (runnable or not) a slice
  equal to its priority, changes nothing else of any task, and then chooses as before: the first runnable task with the
  largest priority, the idle task when no runnable task has one.
\<close>

theorem schedule_new_round:
  assumes "sched_wf st" "\<forall>i\<in>runnable st. t_counter (slot_task st i) = 0"
  shows "\<exists>st' m. schedule st = Some (switch_to (task st ! m) st') \<and> task st' = task st \<and> slot_task st' 0 = slot_task st 0 \<and>
    (\<forall>i\<in>slots st. slot_task st' i = (slot_task st i)\<lparr>t_counter := t_priority (slot_task st i)\<rparr>) \<and>
    (m = 0 \<and> (\<forall>j\<in>runnable st. t_priority (slot_task st j) = 0) \<or>
     m \<in> runnable st \<and> 0 < t_priority (slot_task st m) \<and>
     (\<forall>j\<in>runnable st. t_priority (slot_task st j) \<le> t_priority (slot_task st m) \<and>
        (j < m \<longrightarrow> t_priority (slot_task st j) < t_priority (slot_task st m))))"
proof -
  obtain st' m where s: "refilled st st'" "is_choice st' (unat (num_tasks st)) m" "schedule st = Some (switch_to (task st ! m) st')"
    using schedule_round [OF assms] by blast
  have r: "runnable st' = runnable st" by (rule refilled_simps(2) [OF s(1)])
  have c: "t_counter (slot_task st' j) = t_priority (slot_task st j)" "j < unat (num_tasks st)" if "j \<in> runnable st" for j
    using s(1) that by (auto simp: refilled_def runnable_def slots_def)
  have "m = 0 \<and> (\<forall>j\<in>runnable st. t_priority (slot_task st j) = 0) \<or>
     m \<in> runnable st \<and> 0 < t_priority (slot_task st m) \<and>
     (\<forall>j\<in>runnable st. t_priority (slot_task st j) \<le> t_priority (slot_task st m) \<and>
        (j < m \<longrightarrow> t_priority (slot_task st j) < t_priority (slot_task st m)))"
    using s(2) c unfolding is_choice_def r by auto
  then show ?thesis using s(1,3) by (auto simp: refilled_def)
qed

theorem schedule_new_round_witness:
  "\<exists>st'. schedule (demo_sched 0 0) = Some (switch_to 30 st') \<and> t_counter (slot_task st' 1) = 5 \<and> t_counter (slot_task st' 2) = 7"
proof -
  have "\<forall>i\<in>runnable (demo_sched 0 0). t_counter (slot_task (demo_sched 0 0) i) = 0"
    by (simp add: demo_runnable demo_slot_task demo_task_def)
  from schedule_new_round [OF demo_sched_wf this] obtain st' m where r: "schedule (demo_sched 0 0) = Some (switch_to (task (demo_sched 0 0) ! m) st')"
    "\<forall>i\<in>{1, 2}. slot_task st' i = (slot_task (demo_sched 0 0) i)\<lparr>t_counter := t_priority (slot_task (demo_sched 0 0) i)\<rparr>"
    "m = 0 \<and> (\<forall>j\<in>{1, 2}. t_priority (slot_task (demo_sched 0 0) j) = 0) \<or>
     m \<in> {1, 2} \<and> (\<forall>j\<in>{1, 2}. t_priority (slot_task (demo_sched 0 0) j) \<le> t_priority (slot_task (demo_sched 0 0) m))"
    unfolding demo_runnable demo_slots by blast
  have "m = 2" using r(3) by (auto simp: demo_slot_task demo_task_def)
  moreover have "task (demo_sched 0 0) ! 2 = 30" by (simp add: demo_sched_def demo_kst_def)
  ultimately show ?thesis using r(1,2) by (auto simp: demo_slot_task demo_task_def)
qed

text \<open>
  C26. No runnable task starves. In a well-formed task table a runnable task with a positive priority (every forked task has one) runs
  after at most one tick plus the sum of the slices left plus the sum of the priorities: every tick of \<open>do_timer\<close> returns, and
  it takes time from the running task or starts a new round, in which the task has a slice. Bound and claim are for ticks
  with no other kernel entry between them.
\<close>

theorem runnable_task_runs:
  assumes "sched_wf st" "i \<in> runnable st" "0 < t_priority (slot_task st i)"
  shows "\<exists>k \<le> Suc (work st + total_priority st). \<exists>st'. ticks k st = Some st' \<and> current st' = task st ! i"
proof -
  have rd: "ready i (total_priority st) st" using assms by (simp add: ready_def)
  show ?thesis
  proof (cases "0 < t_counter (cur st)")
    case True
    from ready_reached [OF rd this] show ?thesis by (metis le_Suc_eq)
  next
    case False
    then have "do_timer st = schedule st" by (simp add: do_timer_def word_gt_0)
    then obtain r where r: "do_timer st = Some r" "ready i (total_priority st) (state_of r)" "0 < t_counter (cur (state_of r))"
      "task (state_of r) = task st"
      "work (state_of r) = work st \<or> waiting i (t_counter (slot_task (state_of r) i)) (state_of r) \<and> work (state_of r) = total_priority st"
      using schedule_ready [OF rd] by auto
    have "\<exists>k\<le>work st + total_priority st. \<exists>st'. ticks k (state_of r) = Some st' \<and> current st' = task st ! i"
      using r(5)
    proof
      assume "work (state_of r) = work st"
      then show ?thesis using ready_reached [OF r(2,3)] r(4) by simp
    next
      assume w: "waiting i (t_counter (slot_task (state_of r) i)) (state_of r) \<and> work (state_of r) = total_priority st"
      from waiting_reached [OF conjunct1 [OF w] r(3)] w show ?thesis unfolding r(4) by (metis le_add2 order_trans)
    qed
    then obtain k st' where k: "k \<le> work st + total_priority st" "ticks k (state_of r) = Some st'" "current st' = task st ! i" by blast
    then have "ticks (Suc k) st = Some st'" "Suc k \<le> Suc (work st + total_priority st)" using r(1) by simp_all
    then show ?thesis using k(3) by blast
  qed
qed

theorem runnable_task_runs_witness:
  "\<exists>k \<le> 21. \<exists>st'. ticks k (demo_sched 8 0) = Some st' \<and> current st' = 30"
proof -
  have "2 \<in> runnable (demo_sched 8 0)" "0 < t_priority (slot_task (demo_sched 8 0) 2)"
    by (simp_all add: demo_runnable demo_slot_task demo_task_def)
  note runnable_task_runs [OF demo_sched_wf this]
  moreover have "work (demo_sched 8 0) = 8" "total_priority (demo_sched 8 0) = 12"
    by (simp_all add: work_def total_priority_def demo_slots demo_slot_task demo_task_def)
  moreover have "task (demo_sched 8 0) ! 2 = 30" by (simp add: demo_sched_def demo_kst_def)
  ultimately show ?thesis by simp
qed

end
