(* ===== verification/Proc_Claims.thy ===== *)
theory Proc_Claims
  imports Vma_Claims Fault_Props Proc_Props Sched_Claims
begin

unbundle bit_operations_syntax

text \<open>The properties of the process layer: exit, wait, the reaping of children, copy on write.\<close>

subsection \<open>An example\<close>

text \<open>
  Task 1 (at 20) waits for its child, task 2 (in page 7); all eight page frames are in use.
\<close>

definition demo_child :: "u64 \<Rightarrow> task_struct" where
  "demo_child s = (demo_task 2 s 7 3)\<lparr>t_fpid := 1, t_mm := va_of 0, t_cpid := va_of 1, t_files := va_of 2, t_signal := va_of 3, t_pgd := va_of 4,
     t_exit_code := 9\<rparr>"

definition demo_parent :: task_struct where
  "demo_parent = (demo_task 1 TASK_INTERRUPTIBLE 5 0)\<lparr>t_signal := va_of 5, t_cpid := va_of 6, t_child_cnt := 1, t_mm := va_of 0\<rparr>"

definition demo_file :: file_t where
  "demo_file = \<lparr>opened = 0, perms = 0, cfo = 0, fs_type = 0, f_flags = 0, fat32_file = \<lparr>f_cluster = 0, f_dir = \<lparr>dir_cluster = 0, dir_index = 0\<rparr>\<rparr>,
     lseek_fn = None, write_fn = None, read_fn = None, f_path = []\<rparr>"

definition demo_family :: "u64 \<Rightarrow> u64 \<Rightarrow> kst" where
  "demo_family who s = (demo_kst (\<lambda>p. if p = 10 then demo_task 0 0 0 0 else if p = 20 then demo_parent else demo_child s))
     \<lparr>kvm := \<lparr>vmem = (\<lambda>_. 0)(va_of 6 := 2), vbuddy = \<lparr>bitmap = replicate 16 0, ref_cnt = replicate 8 1, bsize = 8\<rparr>\<rparr>,
      current := who, task := [10, 20, va_of 7, 0, 0, 0, 0, 0, 0], files_at := (\<lambda>_. replicate MAX_FILE_NUMBER demo_file),
      wait_queue := (replicate 9 \<lparr>w_valid = 0, w_mask = 0\<rparr>)[1 := \<lparr>w_valid = 1, w_mask = 4\<rparr>]\<rparr>"

lemma family_fields [simp]:
  "t_fpid (demo_child s) = 1" "t_mm (demo_child s) = va_of 0" "t_cpid (demo_child s) = va_of 1" "t_files (demo_child s) = va_of 2"
  "t_signal (demo_child s) = va_of 3" "t_pgd (demo_child s) = va_of 4" "t_child_cnt (demo_child s) = 0" "t_state (demo_child s) = s"
  "t_exit_code (demo_child s) = 9" "t_signal demo_parent = va_of 5" "t_cpid demo_parent = va_of 6" "t_child_cnt demo_parent = 1"
  "t_mm demo_parent = va_of 0" "va_of 5 \<noteq> 0" "va_of 2 \<noteq> 0" "va_of 7 \<noteq> 0" "va_of 7 \<noteq> 10" "va_of 7 \<noteq> 20"
    "0 \<noteq> va_of 7" "10 \<noteq> va_of 7" "20 \<noteq> va_of 7"
  by (simp_all add: demo_child_def demo_parent_def demo_task_def) code_simp+

lemma family_slots: "slots (demo_family w s) = {1, 2}"
proof -
  have "slots (demo_family w s) = set (filter (\<lambda>i. 1 \<le> i \<and> task (demo_family w s) ! i \<noteq> 0) [0 ..< 3])"
    by (auto simp: slots_def demo_family_def demo_kst_def)
  also have "\<dots> = {1, 2}" by (simp add: upt_rec demo_family_def demo_kst_def) auto
  finally show ?thesis .
qed

lemma family_tasks:
  "slot_task (demo_family w s) 0 = demo_task 0 0 0 0" "slot_task (demo_family w s) (Suc 0) = demo_parent"
  "slot_task (demo_family w s) 2 = demo_child s"
  by (simp_all add: slot_task_def demo_family_def demo_kst_def)

lemmas family_simps = demo_family_def demo_kst_def demo_child_def demo_parent_def demo_task_def

lemma family_wf: "w \<in> {20, va_of 7} \<Longrightarrow> sched_wf (demo_family w s)"
proof -
  assume "w \<in> {20, va_of 7}"
  then have c: "\<exists>i. (i = 0 \<or> i \<in> {1, 2}) \<and> current (demo_family w s) = task (demo_family w s) ! i"
    by (intro exI [of _ "if w = 20 then 1 else 2"]) (auto simp: demo_family_def demo_kst_def)
  have p: "\<forall>i\<in>{1, 2}. t_pid (slot_task (demo_family w s) i) = of_nat i"
    by (simp add: family_tasks demo_task_def demo_parent_def demo_child_def)
  have "num_tasks (demo_family w s) = 3" "task (demo_family w s) = [10, 20, va_of 7, 0, 0, 0, 0, 0, 0]"
    by (simp_all add: demo_family_def demo_kst_def)
  then show "sched_wf (demo_family w s)" unfolding sched_wf_def family_slots using c p
    by (simp add: family_tasks demo_task_def)
qed

lemma live_page_code: "live_page st p \<longleftrightarrow> (case rd (ref_cnt (vbuddy (kvm st))) (pfn_of_va p) of Some c \<Rightarrow> c \<noteq> 0 | None \<Rightarrow> False)"
  by (auto simp: live_page_def split: option.split)

lemma family_live:
  assumes "vbuddy (kvm st) = vbuddy (kvm (demo_family w s))" "i < 8"
  shows "live_page st (va_of i)"
proof -
  have "list_all (\<lambda>i. case rd (ref_cnt (vbuddy (kvm (demo_family 20 0)))) (pfn_of_va (va_of i)) of Some c \<Rightarrow> c \<noteq> 0 | None \<Rightarrow> False) [0 ..< 8]"
    by code_simp
  then have "live_page (demo_family 20 0) (va_of i)" using assms(2) by (simp add: list_all_iff live_page_code)
  moreover have "vbuddy (kvm (demo_family 20 0)) = vbuddy (kvm (demo_family w s))" by (simp add: demo_family_def)
  ultimately show "live_page st (va_of i)" by (simp add: live_page_def assms(1))
qed

subsection \<open>Exit\<close>

text \<open>
  C28. \<open>do_exit\<close> of a task without children returns to the scheduler, and leaves behind what \<open>waitpid\<close> needs: the entry of the
  task is a zombie that holds its pid, its parent and its exit code, \<open>SIGCHLD\<close> is pending for the parent, and a parent
  that waits for this pid is runnable again and no longer waits; a parent that does not wait for it keeps its state. No
  task is removed from the table.
\<close>

theorem exit_wakes_parent:
  assumes "can_exit status pid f st"
  shows "\<exists>r. do_exit status st = Some r \<and> task (state_of r) = task st \<and> num_tasks (state_of r) = num_tasks st \<and>
    t_state (slot_task (state_of r) pid) = TASK_ZOMBIE \<and> t_exit_code (slot_task (state_of r) pid) = of_int status \<and>
    t_pid (slot_task (state_of r) pid) = of_nat pid \<and> t_fpid (slot_task (state_of r) pid) = of_nat f \<and>
    signal_pending (signal_at (state_of r) (t_signal (slot_task st f))) =
      signal_pending (signal_at st (t_signal (slot_task st f))) OR push_bit SIGCHLD 1 \<and>
    (let woken = w_valid (wait_queue st ! f) \<noteq> 0 \<and> w_mask (wait_queue st ! f) AND push_bit pid 1 \<noteq> 0
     in t_state (slot_task (state_of r) f) = (if woken then TASK_RUNNING else t_state (slot_task st f)) \<and>
        wait_queue (state_of r) ! f = (if woken then \<lparr>w_valid = 0, w_mask = 0\<rparr> else wait_queue st ! f)) \<and>
    sched_wf (state_of r)"
proof -
  note ce = assms
  have h: "sched_wf st" "length (task st) = NR_TASKS" "length (wait_queue st) = NR_TASKS" "pid \<in> slots st" "f \<in> slots st" "f \<noteq> pid"
    and cp: "current st = task st ! pid" and fp: "t_fpid (cur st) = of_nat f"
    using ce unfolding can_exit_def by - (elim conjE, assumption)+
  have tp: "t_pid (cur st) = of_nat pid" using h(1,4) by (simp add: sched_wf_def slot_task_def cp)
  have b: "pid < NR_TASKS" "f < NR_TASKS" and nz: "task st ! pid \<noteq> 0" "task st ! f \<noteq> 0"
    using h by (auto simp: slots_def sched_wf_def)
  obtain s5 where s5: "do_exit status st = Option.bind (wake_parent s5) schedule"
    "task s5 = task st" "num_tasks s5 = num_tasks st" "current s5 = current st" "wait_queue s5 = wait_queue st"
    "t_state (cur s5) = TASK_ZOMBIE" "t_exit_code (cur s5) = of_int status" "t_pid (cur s5) = t_pid (cur st)"
    "t_fpid (cur s5) = t_fpid (cur st)" "t_counter (cur s5) = 0"
    "\<And>p. p \<noteq> current st \<Longrightarrow> task_at s5 p = task_at st p"
    "signal_pending (signal_at s5 (t_signal (slot_task st f))) = signal_pending (signal_at st (t_signal (slot_task st f))) OR push_bit SIGCHLD 1"
    using exit_prefix [OF ce] by blast
  let ?woken = "w_valid (wait_queue st ! f) \<noteq> 0 \<and> w_mask (wait_queue st ! f) AND push_bit pid 1 \<noteq> 0"
  obtain s6 where s6: "wake_parent s5 = Some s6" "task s6 = task s5" "num_tasks s6 = num_tasks s5" "current s6 = current s5"
    "signal_at s6 = signal_at s5" "wait_queue s6 ! f = (if ?woken then \<lparr>w_valid = 0, w_mask = 0\<rparr> else wait_queue s5 ! f)"
    "task_at s6 = (if ?woken then (task_at s5)(task s5 ! f := (task_at s5 (task s5 ! f))\<lparr>t_state := TASK_RUNNING\<rparr>) else task_at s5)"
    using wake_parent_ok [of s5 pid f] h(2,3,6) b nz(2) tp fp s5 by auto
  have ne: "task st ! f \<noteq> task st ! pid" "task st ! 0 \<noteq> task st ! pid"
    using slot_ptr_inj [OF h(1), of f pid] slot_ptr_inj [OF h(1), of 0 pid] h(4-6) by (auto simp: slots_def)
  have pids: "t_pid (task_at s6 p) = t_pid (task_at st p)" for p
    using s5(4,8) s5(11) [of p] by (cases "p = current st") (auto simp: s6(7))
  have "t_counter (slot_task s6 0) = 0"
    using h(1) s5(2) s5(11) [of "task st ! 0"] ne by (auto simp: s6(2,7) slot_task_def sched_wf_def cp)
  then have wf6: "sched_wf s6" using sched_wf_cong [OF h(1), of s6] s6(2-4) s5(2-4) pids by simp
  obtain r where r: "schedule s6 = Some r" using schedule_total [OF wf6] by blast
  note S = schedule_same [OF r, unfolded same_but_counters_def]
  have T: "\<exists>c. slot_task (state_of r) i = (slot_task s6 i)\<lparr>t_counter := c\<rparr>" for i using S by (simp add: slot_task_def)
  obtain c1 c2 where c: "slot_task (state_of r) pid = (slot_task s6 pid)\<lparr>t_counter := c1\<rparr>"
    "slot_task (state_of r) f = (slot_task s6 f)\<lparr>t_counter := c2\<rparr>" using T by metis
  have z: "slot_task s6 pid = cur s5" using ne s5(2,4) by (simp add: slot_task_def s6(2,7) cp)
  have zf: "slot_task s6 f = (if ?woken then (slot_task st f)\<lparr>t_state := TASK_RUNNING\<rparr> else slot_task st f)"
    using ne s5(2,11) by (simp add: slot_task_def s6(2,7) cp)
  show ?thesis
    by (rule exI [of _ r]) (use S s5 s6 tp fp schedule_current(2) [OF wf6 r] in \<open>simp add: r c z zf Let_def\<close>)
qed

theorem exit_wakes_parent_witness:
  "\<exists>r. do_exit 5 (demo_family (va_of 7) 0) = Some r \<and> t_state (slot_task (state_of r) 2) = TASK_ZOMBIE \<and>
     t_exit_code (slot_task (state_of r) 2) = 5 \<and> t_state (slot_task (state_of r) 1) = TASK_RUNNING"
proof -
  let ?st = "demo_family (va_of 7) 0"
  have c: "cur ?st = demo_child 0" "current ?st = task ?st ! 2" by (simp_all add: demo_family_def demo_kst_def)
  have m: "mmap (mms (kmm ?st) a) = 0" for a by (simp add: demo_family_def demo_kst_def)
  have d: "drop_areas (mmap (mms (kmm ?st) (t_mm (cur ?st)))) (zombie 5 ?st) = Some (zombie 5 ?st)"
    by (subst drop_areas.simps) (simp add: m)
  have l: "live_page (zombie 5 ?st) (va_of i)" if "i < 8" for i
    by (rule family_live [OF _ that]) (simp add: zombie_def upd_task_def)
  have q: "length (task ?st) = NR_TASKS" "length (wait_queue ?st) = NR_TASKS" "wait_queue ?st ! 1 = \<lparr>w_valid = 1, w_mask = 4\<rparr>"
    "length (files_at ?st (t_files (cur ?st))) = MAX_FILE_NUMBER"
    by (simp_all add: demo_family_def demo_kst_def NR_TASKS_def)
  have sl: "slot_task ?st 1 = demo_parent" using family_tasks(2) by simp
  have "can_exit 5 2 1 ?st" unfolding can_exit_def family_slots sl
    using q(1,2,4) d l [of 0] l [of 1] l [of 2] l [of 3]
    by (intro conjI) (simp_all add: family_wf c(2) [symmetric] family_fields c(1))
  from exit_wakes_parent [OF this] show ?thesis unfolding q(3) by auto
qed

subsection \<open>Wait\<close>

text \<open>
  C29. \<open>waitpid\<close> of a valid pid puts the caller to sleep: it gives the processor to another task (the call has not returned), the caller
  is interruptible, and its entry of the wait queue is valid and holds the pid beside the ones it waited for before. The
  other tasks keep everything but their time slices.
\<close>

theorem waitpid_sleeps:
  assumes "sched_wf st" "length (wait_queue st) = NR_TASKS" "length (task st) = NR_TASKS" "me \<in> slots st" "current st = task st ! me"
    "0 \<le> pid" "pid < int (unat (num_tasks st))"
  shows "\<exists>st'. sys_waitpid pid st = Some (Yielded st') \<and> current st' \<noteq> current st \<and> task st' = task st \<and>
    t_state (slot_task st' me) = TASK_INTERRUPTIBLE \<and>
    wait_queue st' = (wait_queue st)[me := \<lparr>w_valid = 1, w_mask = w_mask (wait_queue st ! me) OR push_bit (nat pid) 1\<rparr>] \<and>
    (\<forall>p. p \<noteq> current st \<longrightarrow> (\<exists>c. task_at st' p = (task_at st p)\<lparr>t_counter := c\<rparr>)) \<and> sched_wf st'"
proof -
  have n: "unat (num_tasks st) \<le> NR_TASKS" using assms(1,3) by (simp add: sched_wf_def)
  moreover have "nat pid < unat (num_tasks st)" using assms(6,7) by linarith
  ultimately have b: "me < NR_TASKS" "nat pid < 31" using assms(4) by (auto simp: slots_def NR_TASKS_def)
  have tp: "t_pid (cur st) = of_nat me" using assms(1,4) by (simp add: sched_wf_def slot_task_def assms(5))
  have u: "unat (t_pid (cur st)) = me" using small_pid [OF b(1)] tp by simp
  let ?w = "\<lparr>w_valid = 1, w_mask = w_mask (wait_queue st ! me) OR push_bit (nat pid) 1\<rparr> :: wait_task"
  define s3 where "s3 = (upd_cur (\<lambda>t. t\<lparr>t_state := TASK_INTERRUPTIBLE\<rparr>) st)\<lparr>wait_queue := (wait_queue st)[me := ?w]\<rparr>"
  have f3: "task s3 = task st" "num_tasks s3 = num_tasks st" "current s3 = current st" "wait_queue s3 = (wait_queue st)[me := ?w]"
    "task_at s3 = (task_at st)(current st := (cur st)\<lparr>t_state := TASK_INTERRUPTIBLE\<rparr>)"
    by (simp_all add: s3_def upd_task_def)
  have W: "w\<lparr>w_mask := a, w_valid := c\<rparr> = \<lparr>w_valid = c, w_mask = a\<rparr>" for w :: wait_task and a c by (cases w) simp
  have run: "do_wait pid st = schedule s3"
    using assms(2,6) b u by (simp add: do_wait_def wait_queue_add_def pid_bit_def set_wait_def upd_task_def s3_def W)
  have ne: "task st ! 0 \<noteq> task st ! me" using slot_ptr_inj [OF assms(1), of 0 me] assms(4) by (auto simp: slots_def)
  have wf3: "sched_wf s3"
    by (rule sched_wf_cong [OF assms(1) f3(1-3)]) (use assms(1,5) ne in \<open>auto simp: f3 slot_task_def sched_wf_def\<close>)
  obtain r where r: "schedule s3 = Some r" using schedule_total [OF wf3] by blast
  obtain m where m: "m = 0 \<or> m \<in> runnable s3" "current (state_of r) = task s3 ! m" using schedule_current(1) [OF wf3 r] by blast
  have "slot_task s3 me = (cur st)\<lparr>t_state := TASK_INTERRUPTIBLE\<rparr>" by (simp add: slot_task_def f3(1,5) assms(5))
  then have "me \<notin> runnable s3" by (simp add: runnable_def TASK_INTERRUPTIBLE_def TASK_RUNNING_def)
  then have "m \<noteq> me" using m(1) assms(4) by (auto simp: slots_def)
  moreover have "m = 0 \<or> m \<in> slots st" using m(1) by (auto simp: runnable_def slots_def f3)
  ultimately have away: "current (state_of r) \<noteq> current st"
    using slot_ptr_inj [OF assms(1), of m me] assms(4,5) m(2) f3(1) by auto
  then have y: "r = Yielded (state_of r)" using schedule_outcome [OF r] f3(3) by auto
  note S = schedule_same [OF r, unfolded same_but_counters_def]
  have T: "\<exists>c. slot_task (state_of r) me = (slot_task s3 me)\<lparr>t_counter := c\<rparr>" using S by (simp add: slot_task_def)
  then have tm: "t_state (slot_task (state_of r) me) = TASK_INTERRUPTIBLE" using \<open>slot_task s3 me = _\<close> by auto
  have "sys_waitpid pid st = Some (Yielded (state_of r))" using assms(6,7) y by (simp add: sys_waitpid_def run r) (metis and_then.simps(2))
  moreover have "sched_wf (state_of r)" by (rule schedule_current(2) [OF wf3 r])
  moreover have "\<exists>c. task_at (state_of r) p = (task_at st p)\<lparr>t_counter := c\<rparr>" if "p \<noteq> current st" for p
  proof -
    have "\<exists>c. task_at (state_of r) p = (task_at s3 p)\<lparr>t_counter := c\<rparr>" using S by blast
    then show ?thesis using that by (simp add: f3(5))
  qed
  ultimately show ?thesis
    by (intro exI [of _ "state_of r"]) (use away S tm f3(1,4) in simp)
qed

theorem waitpid_sleeps_witness:
  "\<exists>st'. sys_waitpid 2 (demo_family 20 0) = Some (Yielded st') \<and> t_state (slot_task st' 1) = TASK_INTERRUPTIBLE \<and>
     wait_queue st' ! 1 = \<lparr>w_valid = 1, w_mask = 4\<rparr>"
proof -
  let ?st = "demo_family 20 0"
  have q: "length (wait_queue ?st) = NR_TASKS" "length (task ?st) = NR_TASKS" "current ?st = task ?st ! 1"
    "(2 :: int) < int (unat (num_tasks ?st))" "w_mask (wait_queue ?st ! 1) = 4" "1 < length (wait_queue ?st)"
    by (simp_all add: demo_family_def demo_kst_def NR_TASKS_def)
  have "1 \<in> slots ?st" by (simp add: family_slots)
  from waitpid_sleeps [OF family_wf q(1,2) this q(3) _ q(4)] obtain st' where
    "sys_waitpid 2 ?st = Some (Yielded st')" "t_state (slot_task st' 1) = TASK_INTERRUPTIBLE"
    "wait_queue st' = (wait_queue ?st)[1 := \<lparr>w_valid = 1, w_mask = w_mask (wait_queue ?st ! 1) OR push_bit (nat 2) 1\<rparr>]" by auto
  then show ?thesis using q(5,6) by auto
qed

subsection \<open>Reaping\<close>

text \<open>The child in place \<open>i\<close> of the array of children of the running task, as an index of the task table.\<close>

definition child_slot :: "kst \<Rightarrow> nat \<Rightarrow> u64" where
  "child_slot st i = vmem (kvm st) (t_cpid (cur st) + 8 * of_nat i)"

definition no_zombie :: "kst \<Rightarrow> nat \<Rightarrow> bool" where
  "no_zombie st i \<longleftrightarrow> child_slot st i \<noteq> 0 \<and> unat (child_slot st i) < length (task st) \<and>
     (task st ! unat (child_slot st i) = 0 \<or> t_state (slot_task st (unat (child_slot st i))) \<noteq> TASK_ZOMBIE)"

lemma reap_loop_finds:
  assumes "i \<le> j" "\<forall>i<j. no_zombie st i" "child_slot st j = of_nat k" "(of_nat k :: u64) \<noteq> 0" "k < length (task st)" "k < 2 ^ 64"
    "task st ! k \<noteq> 0" "t_state (slot_task st k) = TASK_ZOMBIE"
  shows "reap_loop (of_nat i) regs st = Option.bind (reap_child (task st ! k) (of_nat k) regs st) (\<lambda>st. Some (True, st))"
  using assms(1)
proof (induction rule: inc_induct)
  case base
  have "unat (of_nat k :: u64) = k" using assms(6) by (simp add: unsigned_of_nat take_bit_nat_eq_self)
  then show ?case using assms(3-5,7,8) by (subst reap_loop.simps) (simp add: child_slot_def slot_task_def Let_def)
next
  case (step n)
  have "no_zombie st n" using assms(2) step.hyps by simp
  then have "reap_loop (of_nat n) regs st = reap_loop (of_nat n + 1) regs st"
    by (subst reap_loop.simps) (auto simp: no_zombie_def child_slot_def slot_task_def Let_def)
  then show ?case using step.IH by (simp add: add.commute)
qed

text \<open>
  C30. The handler of \<open>SIGCHLD\<close> reaps the first zombie among the children of the running task: its page table is deleted, the
  registers \<open>a0\<close> and \<open>a1\<close> of the trap frame hold its pid and its exit code, its entry of the task table is null, the signal is
  no longer pending, and the task gives up the processor with a well-formed table. The number of children does not change.
\<close>

theorem sigchld_reaps_zombie:
  assumes "sched_wf st" "t_signal (cur st) \<noteq> 0" "\<forall>i<j. no_zombie st i"
    "child_slot st j = of_nat k" "1 \<le> k" "k \<in> slots st" "t_state (slot_task st k) = TASK_ZOMBIE" "current st \<noteq> task st ! k"
    "delete_mapping (t_pgd (slot_task st k)) (kvm st) = Some v"
    "live_page (set_kvm v st) (t_pgd (slot_task st k))" "live_page (set_kvm v st) (task st ! k)"
    "length (regs_x (pt_regs_at st regs)) = 32"
  shows "\<exists>st'. sigchld_handler SIGCHLD regs st = schedule st' \<and> sched_wf st' \<and> task st' = (task st)[k := 0] \<and>
    regs_x (pt_regs_at st' regs) = (regs_x (pt_regs_at st regs))
      [RISCV_REG_A0 := of_nat k, RISCV_REG_A1 := ucast (t_exit_code (slot_task st k))] \<and>
    signal_pending (signal_at st' (t_signal (cur st))) =
      signal_pending (signal_at st (t_signal (cur st))) AND NOT (push_bit SIGCHLD 1) \<and>
    current st' = current st \<and> task_at st' = task_at st \<and> kvm st' = v"
proof -
  have k: "k < unat (num_tasks st)" "k < length (task st)" "task st ! k \<noteq> 0" using assms(1,6) by (auto simp: slots_def sched_wf_def)
  have k64: "k < 2 ^ 64" using k(1) unat_u64_less [of "num_tasks st"] by simp
  have u: "unat (of_nat k :: u64) = k" using k64 by (simp add: unsigned_of_nat take_bit_nat_eq_self)
  have kn: "(of_nat k :: u64) \<noteq> 0" using u assms(5) by (metis unat_0 not_one_le_zero)
  let ?p = "t_signal (cur st)" and ?c = "task st ! k"
  define s1 where "s1 = upd_signal ?p (\<lambda>s. s\<lparr>signal_pending := signal_pending s AND NOT (push_bit SIGCHLD 1)\<rparr>) st"
  have f1: "task s1 = task st" "num_tasks s1 = num_tasks st" "current s1 = current st" "task_at s1 = task_at st" "kvm s1 = kvm st"
    "pt_regs_at s1 = pt_regs_at st" "slot_task s1 = slot_task st" "child_slot s1 = child_slot st"
    by (simp_all add: s1_def upd_signal_def fun_eq_iff slot_task_def child_slot_def)
  have clear: "clear_pending SIGCHLD st = Some s1" using assms(2) by (simp add: clear_pending_def s1_def)
  have nz: "\<forall>i<j. no_zombie s1 i" using assms(3) by (simp add: no_zombie_def f1)
  have loop: "reap_loop 0 regs s1 = Option.bind (reap_child ?c (of_nat k) regs s1) (\<lambda>st. Some (True, st))"
    using reap_loop_finds [OF _ nz, of 0 k regs] assms(4,7) kn k k64 by (simp add: f1)
  let ?xs = "(regs_x (pt_regs_at st regs))[RISCV_REG_A0 := of_nat k, RISCV_REG_A1 := ucast (t_exit_code (slot_task st k))]"
  define s2 where "s2 = s1\<lparr>kvm := v, pt_regs_at := (pt_regs_at st)(regs := (pt_regs_at st regs)\<lparr>regs_x := ?xs\<rparr>)\<rparr>"
  have pid: "t_pid (task_at st ?c) = of_nat k" using assms(1,6) by (simp add: sched_wf_def slot_task_def)
  have fr: "k_free_pages p (s\<lparr>kvm := v, pt_regs_at := q\<rparr>) = Some (s\<lparr>kvm := v, pt_regs_at := q\<rparr>)"
    "k_free_pages p (s\<lparr>kvm := v\<rparr>) = Some (s\<lparr>kvm := v\<rparr>)" if "live_page (set_kvm v st) p" for p s q
    using that by (auto intro!: free_live simp: live_page_def set_kvm_def)
  note fr1 = fr [OF assms(10)] and fr2 = fr [OF assms(11)]
  have "reap_child ?c (of_nat k) regs s1 = Some (s2\<lparr>task := (task st)[k := 0]\<rparr>)"
    using assms(9,12) k u fr1(2) fr2(1) pid
    by (simp add: reap_child_def f1 slot_task_def set_kvm_def set_reg_def s2_def kdefs)
  then have run: "sigchld_handler SIGCHLD regs st = schedule (s2\<lparr>task := (task st)[k := 0]\<rparr>)"
    by (simp add: sigchld_handler_def clear loop)
  let ?s = "s2\<lparr>task := (task st)[k := 0]\<rparr>"
  have sl: "slots ?s = slots st - {k}"
    by (auto simp: slots_def s2_def f1 nth_list_update k)
  have st0: "slot_task ?s i = slot_task st i" if "i \<noteq> k" for i using that by (simp add: slot_task_def s2_def f1)
  have "sched_wf ?s"
  proof -
    obtain i where i: "i = 0 \<or> i \<in> slots st" "current st = task st ! i" using assms(1) by (auto simp: sched_wf_def)
    then have "i \<noteq> k" using assms(8) by blast
    then have "(i = 0 \<or> i \<in> slots ?s) \<and> current ?s = task ?s ! i" using i sl by (simp add: s2_def f1)
    then have "\<exists>i. (i = 0 \<or> i \<in> slots ?s) \<and> current ?s = task ?s ! i" ..
    moreover have "num_tasks ?s = num_tasks st" "task ?s = (task st)[k := 0]" by (simp_all add: s2_def f1)
    moreover have "0 \<noteq> k" using assms(5) by simp
    ultimately show ?thesis using assms(1) st0 unfolding sched_wf_def sl by simp
  qed
  then show ?thesis by (intro exI [of _ ?s]) (simp add: run, simp add: s2_def f1 s1_def upd_signal_def)
qed

lemma delete_empty:
  assumes "\<And>i. i < 512 \<Longrightarrow> \<not> PTE_HAS_V (vmem s (pte_addr p i))"
  shows "delete_mapping p s = Some (s\<lparr>vmem := zero_page p (vmem s)\<rparr>)"
proof -
  have "\<exists>t. for_range 0 PTES f s = Some t \<and> t = s" if "\<And>i. i < 512 \<Longrightarrow> f i s = Some s" for f
    by (rule for_range_total [where P = "\<lambda>_ u. u = s"]) (use that in \<open>auto simp: PTES_512\<close>)
  then show ?thesis using assms unfolding delete_mapping_def by (simp add: Let_def)
qed

theorem sigchld_reaps_zombie_witness:
  "\<exists>st'. sigchld_handler SIGCHLD 0x1000 (demo_family 20 TASK_ZOMBIE) = schedule st' \<and> task st' ! 2 = 0 \<and>
     regs_x (pt_regs_at st' 0x1000) ! RISCV_REG_A0 = 2 \<and> regs_x (pt_regs_at st' 0x1000) ! RISCV_REG_A1 = 9"
proof -
  let ?st = "demo_family 20 TASK_ZOMBIE"
  have c: "cur ?st = demo_parent" "current ?st \<noteq> task ?st ! 2" "length (task ?st) = 9" "task ?st ! 2 = va_of 7" by (simp_all add: demo_family_def demo_kst_def)
  have r: "regs_x (pt_regs_at ?st 0x1000) = replicate 32 0" by (simp add: demo_family_def demo_kst_def)
  have k: "child_slot ?st 0 = of_nat 2" by (simp add: child_slot_def c(1)) (simp add: demo_family_def)
  have "\<not> PTE_HAS_V (vmem (kvm ?st) a)" for a by (simp add: demo_family_def PTE_HAS_V_def SV39_PTE_V_def)
  from delete_empty [OF this] have d: "delete_mapping (t_pgd (slot_task ?st 2)) (kvm ?st) =
    Some ((kvm ?st)\<lparr>vmem := zero_page (t_pgd (slot_task ?st 2)) (vmem (kvm ?st))\<rparr>)" .
  have l: "live_page (set_kvm ((kvm ?st)\<lparr>vmem := m\<rparr>) ?st) (va_of i)" if "i < 8" for m i
    by (rule family_live [OF _ that]) (simp add: set_kvm_def)
  have sl: "2 \<in> slots ?st" "slot_task ?st 2 = demo_child TASK_ZOMBIE" by (simp_all add: family_slots family_tasks)
  note T = sigchld_reaps_zombie [OF _ _ _ k _ sl(1) _ c(2) d, where regs = "0x1000"]
  obtain st' where "sigchld_handler SIGCHLD 0x1000 ?st = schedule st'" "task st' = (task ?st)[2 := 0]"
    "regs_x (pt_regs_at st' 0x1000) = (replicate 32 0)[RISCV_REG_A0 := of_nat 2, RISCV_REG_A1 := ucast (t_exit_code (slot_task ?st 2))]"
    using T family_wf [of 20] l [of 4] l [of 7] by (auto simp: sl c r)
  then show ?thesis using c(3) unfolding sl by (intro exI [of _ st']) (simp add: RISCV_REG_A0_def RISCV_REG_A1_def)
qed

text \<open>
  A task cannot exit after it has reaped its first child: the entry of the child is null, the count of children is not reduced, and
  the loop of \<open>do_exit\<close> that gives the children to task 1 reads the entry and writes through the null pointer. The result
  is undefined whatever the rest of the state is.
\<close>

theorem exit_after_reap_undefined:
  assumes "drop_areas (mmap (mms (kmm st) (t_mm (cur st)))) (zombie status st) = Some s1" "live_page s1 (t_mm (cur st))"
    "0 < t_child_cnt (cur st)" "unat (child_slot s1 0) < length (task st)" "task st ! unat (child_slot s1 0) = 0"
  shows "do_exit status st = None"
proof -
  have e1: "s1 = (zombie status st)\<lparr>kvm := kvm s1, kmm := kmm s1\<rparr>" by (rule drop_areas_same [OF assms(1)])
  have f1: "task s1 = task st" "current s1 = current st"
    "task_at s1 = (task_at st)(current st := (cur st)\<lparr>t_state := TASK_ZOMBIE, t_priority := 0, t_counter := 0, t_exit_code := of_int status\<rparr>)"
    by (subst e1, simp add: zombie_def upd_task_def)+
  have free: "k_free_pages (t_mm (cur s1)) s1 = Some s1" using assms(2) by (intro free_live) (simp add: f1)
  let ?s2 = "upd_cur (\<lambda>t. t\<lparr>t_mm := 0\<rparr>) s1"
  have "rd (task ?s2) (unat (vmem (kvm ?s2) (t_cpid (cur ?s2) + 8 * 0))) = Some 0"
    using assms(4,5) by (simp add: child_slot_def upd_task_def f1)
  then have "adopt_loop 0 ?s2 = None"
    using assms(3) by (subst adopt_loop.simps) (simp add: task_ptr_def upd_task_def f1)
  then show ?thesis unfolding do_exit_def
    by (simp add: zombie_def [symmetric] Let_def)
      (simp add: assms(1) [unfolded zombie_def upd_task_def] zombie_def upd_task_def free)
qed

theorem exit_after_reap_undefined_witness:
  "do_exit 0 ((demo_family 20 0)\<lparr>task := [10, 20, 0, 0, 0, 0, 0, 0, 0]\<rparr>) = None"
proof -
  define st where "st = (demo_family 20 0)\<lparr>task := [10, 20, 0, 0, 0, 0, 0, 0, 0]\<rparr>"
  have c: "cur st = demo_parent" "task st = [10, 20, 0, 0, 0, 0, 0, 0, 0]" by (simp_all add: st_def demo_family_def demo_kst_def)
  have m: "mmap (mms (kmm st) a) = 0" for a by (simp add: st_def demo_family_def demo_kst_def)
  have d: "drop_areas (mmap (mms (kmm st) (t_mm (cur st)))) (zombie 0 st) = Some (zombie 0 st)"
    by (subst drop_areas.simps) (simp add: m)
  have "live_page (zombie 0 st) (va_of 0)" by (rule family_live) (simp_all add: st_def zombie_def upd_task_def)
  moreover have "child_slot (zombie 0 st) 0 = 2"
    by (simp add: child_slot_def zombie_def upd_task_def c) (simp add: st_def demo_family_def)
  ultimately show ?thesis using exit_after_reap_undefined [OF d] by (simp add: c flip: st_def)
qed

subsection \<open>Copy on write\<close>

text \<open>
  C27. A store fault on a page that other address spaces share (at least two references), in a writable area: the fault returns, and the
  page of the task is now a frame that nobody owned, with the rights of the area and the same 512 words; every other entry
  of the page table and every word of every owned page that is no table of the task (so the page that was shared, too) is unchanged, the tables are
  well formed, and the shared frame has one reference less.
\<close>

theorem cow_fault_copies:
  assumes "pt_ok (t_pgd (cur st)) (kvm st)"
    "find_vma (t_mm (cur st)) a (kmm st) = Some vp" "vp \<noteq> 0" "vm_flags (vmas (kmm st) vp) AND VM_WRITE \<noteq> 0"
    "shared_page a f st" "alloc_page (vbuddy (kvm st)) = Some (np, b1)"
  shows "\<exists>st'. do_page_fault SCAUSE_STORE_PAGE_FAULT a st = Some st' \<and> np \<notin> owned_pages (vbuddy (kvm st)) \<and>
    pt_ok (t_pgd (cur st)) (kvm st') \<and>
    (\<forall>x<2 ^ 27. leaf_pte (vmem (kvm st')) (t_pgd (cur st)) x =
       (if x = vpn_of a then SV39_PTE (PHYS2PPN (VA2PA np)) (vma_flags_to_perm (ucast (vm_flags (vmas (kmm st) vp))))
        else leaf_pte (vmem (kvm st)) (t_pgd (cur st)) x)) \<and>
    (\<forall>i<512. vmem (kvm st') (np + 8 * of_nat i) = vmem (kvm st) (va_of f + 8 * of_nat i)) \<and>
    (\<forall>x. PGROUNDDOWN x \<in> owned_pages (vbuddy (kvm st)) - tables (vmem (kvm st)) (t_pgd (cur st)) \<longrightarrow>
       vmem (kvm st') x = vmem (kvm st) x) \<and>
    ref_cnt (vbuddy (kvm st')) ! f = ref_cnt (vbuddy (kvm st)) ! f - 1"
  by (rule cow_fault [OF assms])

text \<open>The example: frame 2 is mapped at \<open>0x14000\<close>, shared and read-only, with two references.\<close>

definition demo_shared :: vm where
  "demo_shared = the (create_mapping root_a 0x14000 0x80002000 0x1000 (SV39_PTE_R OR SV39_PTE_U OR SV39_PTE_S) demo_vm)"

definition demo_cow :: kst where
  "demo_cow = (demo_kst (\<lambda>_. (demo_task 1 0 5 5)\<lparr>t_pgd := root_a, t_mm := demo_mm\<rparr>))
     \<lparr>kmm := demo_mms, kvm := demo_shared\<lparr>vbuddy := (vbuddy demo_shared)\<lparr>ref_cnt := (ref_cnt (vbuddy demo_shared))[2 := 2]\<rparr>\<rparr>\<rparr>"

lemma demo_shared_map:
  "create_mapping root_a 0x14000 0x80002000 0x1000 (SV39_PTE_R OR SV39_PTE_U OR SV39_PTE_S) demo_vm = Some demo_shared"
proof -
  have "create_mapping root_a 0x14000 0x80002000 0x1000 (SV39_PTE_R OR SV39_PTE_U OR SV39_PTE_S) demo_vm \<noteq> None" by code_simp
  then show ?thesis by (auto simp: demo_shared_def)
qed

lemma demo_shared_ok: "pt_ok root_a demo_shared" "leaf_pte (vmem demo_shared) root_a 20 = 0x20000953"
proof -
  have v: "vpn_of 0x14000 = 20" "vpn_of (0x14000 + 0x1000 - 1) = 20" by (simp_all add: vpn_of_def)
  note C = create_mapping_ok [OF demo_roots(1) _ demo_shared_map, unfolded v, OF order_refl]
  show "pt_ok root_a demo_shared" by (rule C(1))
  have "SV39_PTE (drop_bit 12 0x80002000 + of_nat 0) (mapping_perm (SV39_PTE_R OR SV39_PTE_U OR SV39_PTE_S)) = 0x20000953" by code_simp
  then show "leaf_pte (vmem demo_shared) root_a 20 = 0x20000953" using C(3) [of 20] by (simp del: of_nat_0)
qed

lemma demo_cow_state:
  "cur demo_cow = (demo_task 1 0 5 5)\<lparr>t_pgd := root_a, t_mm := demo_mm\<rparr>" "kmm demo_cow = demo_mms" "vmem (kvm demo_cow) = vmem demo_shared"
  "vbuddy (kvm demo_cow) = (vbuddy demo_shared)\<lparr>ref_cnt := (ref_cnt (vbuddy demo_shared))[2 := 2]\<rparr>"
  by (simp_all add: demo_cow_def demo_kst_def)

theorem cow_fault_copies_witness:
  "\<exists>st'. do_page_fault SCAUSE_STORE_PAGE_FAULT 0x14000 demo_cow = Some st' \<and> pt_ok root_a (kvm st') \<and>
     ref_cnt (vbuddy (kvm st')) ! 2 = 1"
proof -
  let ?b = "vbuddy (kvm demo_cow)"
  have inv: "buddy_inv (vbuddy demo_shared)" "pt_wf (vmem demo_shared) (owned_pages (vbuddy demo_shared)) root_a"
    using demo_shared_ok(1) by (simp_all add: pt_ok_def)
  have n: "bsize (vbuddy demo_shared) = 8 \<and> ref_cnt (vbuddy demo_shared) ! 2 = 1 \<and> length (ref_cnt (vbuddy demo_shared)) = 8" by code_simp
  have "buddy_inv ?b" unfolding demo_cow_state(4) by (rule ref_update_inv [OF inv(1)]) (simp_all add: n)
  moreover have "owned_pages ?b = owned_pages (vbuddy demo_shared)"
    by (simp add: demo_cow_state(4) owned_pages_def used_pages_def)
  ultimately have ok: "pt_ok (t_pgd (cur demo_cow)) (kvm demo_cow)"
    using inv by (simp add: pt_ok_def demo_cow_state(1,3))
  have f: "find_vma demo_mm 0x14000 demo_mms = Some (vma_slot demo_mm 1)"
  proof -
    have "find_area (vmas demo_mms) 0x14000 demo_used = vma_slot demo_mm 1" by code_simp
    then show ?thesis using find_vma_list [OF mm_wfD(1) [OF demo_wf], of "0x14000"] by simp
  qed
  have w: "vma_slot demo_mm 1 \<noteq> 0" "vm_flags (vmas demo_mms (vma_slot demo_mm 1)) AND VM_WRITE \<noteq> 0" by code_simp+
  have "alloc_page ?b \<noteq> None" by code_simp
  then obtain np b1 where al: "alloc_page ?b = Some (np, b1)" by auto
  have "PTE_HAS_V 0x20000953 \<and> 0x20000953 AND SV39_PTE_R \<noteq> 0 \<and> 0x20000953 AND SV39_PTE_S \<noteq> 0 \<and> pte_table 0x20000953 = va_of 2"
    by code_simp
  moreover have "vpn_of 0x14000 = 20" by (simp add: vpn_of_def)
  ultimately have "shared_page 0x14000 2 demo_cow"
    using demo_shared_ok(2) n by (simp add: shared_page_def demo_cow_state Let_def live_def)
  from cow_fault_copies [OF ok _ _ _ this al, of "vma_slot demo_mm 1"] f w show ?thesis
    by (simp add: demo_cow_state(1,2)) (auto simp: demo_cow_state(4) n)
qed

end
