(* ===== verification/Fork_Props.thy ===== *)
theory Fork_Props
  imports Proc Fault_Props Vma_Inv
begin

unbundle bit_operations_syntax

text \<open>Sharing the pages of an area with a child: \<open>fork_page\<close> and \<open>fork_area\<close> on the two page tables and the reference counts.\<close>

subsection \<open>Entries\<close>

definition cow_pte :: "u64 \<Rightarrow> u64" where "cow_pte pte = (pte OR SV39_PTE_S) AND NOT SV39_PTE_W"

definition child_pte :: "u64 \<Rightarrow> u64" where
  "child_pte pte = SV39_PTE (drop_bit 12 (push_bit PAGE_SHIFT (GET_SUBBITMAP pte SV39_PTE_PPN_BEGIN SV39_PTE_PPN_END)))
     (mapping_perm (SV39_GET_PERM (cow_pte pte)))"

lemma flag_push: "SV39_PTE_V = push_bit 0 1" "SV39_PTE_R = push_bit 1 1" "SV39_PTE_W = push_bit 2 1" "SV39_PTE_X = push_bit 3 1"
  "SV39_PTE_U = push_bit 4 1" "SV39_PTE_A = push_bit 6 1" "SV39_PTE_S = push_bit 8 1"
  by (simp_all add: kdefs)

lemma bit_flag: "bit SV39_PTE_V i \<longleftrightarrow> i = 0" "bit SV39_PTE_R i \<longleftrightarrow> i = 1" "bit SV39_PTE_W i \<longleftrightarrow> i = 2" "bit SV39_PTE_X i \<longleftrightarrow> i = 3"
  "bit SV39_PTE_U i \<longleftrightarrow> i = 4" "bit SV39_PTE_A i \<longleftrightarrow> i = 6" "bit SV39_PTE_S i \<longleftrightarrow> i = 8"
  unfolding flag_push bit_push_bit_iff bit_1_iff by auto

lemma bit_cow_pte: "bit (cow_pte pte) i \<longleftrightarrow> (bit pte i \<or> i = 8) \<and> i \<noteq> 2"
  by (auto simp: cow_pte_def bit_and_iff bit_or_iff bit_not_iff bit_flag dest: bit_lt_64)

lemma cow_pte_W: "cow_pte pte AND SV39_PTE_W = 0"
  by (rule bit_word_eqI) (auto simp: bit_and_iff bit_cow_pte bit_flag)

lemma child_perm: "mapping_perm (SV39_GET_PERM (cow_pte pte)) = SV39_GET_PERM (cow_pte pte) OR SV39_PTE_V OR SV39_PTE_A"
proof -
  have "(SV39_GET_PERM (cow_pte pte) OR SV39_PTE_V OR SV39_PTE_A) AND SV39_PTE_W = 0"
    by (rule bit_word_eqI) (auto simp: bit_and_iff bit_or_iff bit_take_bit_iff SV39_GET_PERM_eq bit_cow_pte bit_flag)
  then show ?thesis by (simp add: mapping_perm_def)
qed

lemma bit_child_pte:
  "bit (child_pte pte) i \<longleftrightarrow> (if i < 10 then bit pte i \<and> i \<noteq> 2 \<or> i \<in> {0, 6, 8} else i < 54 \<and> bit pte i)"
proof -
  have "bit (child_pte pte) i \<longleftrightarrow> i < 54 \<and> (10 \<le> i \<and> i - 10 < 44 \<and> bit pte i \<or> i < 10 \<and> bit (cow_pte pte) i \<or> i = 0 \<or> i = 6)"
    unfolding child_pte_def child_perm unfolding SV39_PTE_eq GET_SUBBITMAP_eq SV39_GET_PERM_eq PAGE_SHIFT_def SV39_PTE_PPN_BEGIN_def SV39_PTE_PPN_END_def
    by (auto simp: bit_take_bit_iff bit_or_iff bit_push_bit_iff bit_drop_bit_eq bit_flag dest: bit_lt_64)
  then show ?thesis by (auto simp: bit_cow_pte)
qed

lemma bit_SV39_PPN: "bit (SV39_GET_PPN pte) i \<longleftrightarrow> i < 44 \<and> bit pte (10 + i)"
  by (auto simp: SV39_GET_PPN_eq bit_take_bit_iff bit_drop_bit_eq)

lemma same_ppn: "SV39_GET_PPN (cow_pte pte) = SV39_GET_PPN pte" "SV39_GET_PPN (child_pte pte) = SV39_GET_PPN pte"
  by (rule bit_word_eqI, auto simp: bit_SV39_PPN bit_cow_pte bit_child_pte)+

lemma same_frame: "pte_table (cow_pte pte) = pte_table pte" "pte_table (child_pte pte) = pte_table pte"
  using same_ppn by (simp_all add: pte_table_def SV39_GET_PPN_def)

lemma shared_V: "PTE_HAS_V (cow_pte pte) = PTE_HAS_V pte" "PTE_HAS_V (child_pte pte)"
  by (simp_all add: PTE_HAS_V_bit bit_cow_pte bit_child_pte)

text \<open>An entry shared for copy on write: same frame and rights except for writing, marked.\<close>

definition shared_entry :: "u64 \<Rightarrow> u64 \<Rightarrow> bool" where
  "shared_entry pte pte' \<longleftrightarrow> PTE_HAS_V pte' \<and> pte_table pte' = pte_table pte \<and> pte' AND SV39_PTE_S \<noteq> 0 \<and> pte' AND SV39_PTE_W = 0 \<and>
     pte' AND (SV39_PTE_R OR SV39_PTE_X OR SV39_PTE_U) = pte AND (SV39_PTE_R OR SV39_PTE_X OR SV39_PTE_U)"

lemma shared_entries:
  assumes "PTE_HAS_V pte"
  shows "shared_entry pte (cow_pte pte)" "shared_entry pte (child_pte pte)"
proof -
  have S: "pte' AND SV39_PTE_S \<noteq> 0" if "bit pte' 8" for pte' :: u64
  proof
    assume "pte' AND SV39_PTE_S = 0"
    then have "\<not> bit (pte' AND SV39_PTE_S) 8" by simp
    then show False using that by (simp only: bit_and_iff bit_flag) simp
  qed
  have "cow_pte pte AND (SV39_PTE_R OR SV39_PTE_X OR SV39_PTE_U) = pte AND (SV39_PTE_R OR SV39_PTE_X OR SV39_PTE_U)"
    by (rule bit_word_eqI) (auto simp: bit_and_iff bit_or_iff bit_flag bit_cow_pte)
  moreover have "child_pte pte AND (SV39_PTE_R OR SV39_PTE_X OR SV39_PTE_U) = pte AND (SV39_PTE_R OR SV39_PTE_X OR SV39_PTE_U)"
    by (rule bit_word_eqI) (auto simp: bit_and_iff bit_or_iff bit_flag bit_child_pte)
  moreover have "child_pte pte AND SV39_PTE_W = 0"
    by (rule bit_word_eqI) (auto simp: bit_and_iff bit_child_pte bit_flag)
  ultimately show "shared_entry pte (cow_pte pte)" "shared_entry pte (child_pte pte)"
    using assms by (simp_all add: shared_entry_def same_frame shared_V cow_pte_W S bit_cow_pte bit_child_pte)
qed

subsection \<open>One page\<close>

lemma create_mapping_live:
  assumes ok: "pt_ok root s" and lh: "vpn_of va \<le> vpn_of (va + sz - 1)" and run: "create_mapping root va pa sz perm s = Some s'"
    and q: "live (vbuddy s) q"
  shows "live (vbuddy s') q \<and> ref_cnt (vbuddy s') ! q = ref_cnt (vbuddy s) ! q"
proof -
  obtain l2 l1 l0 where L: "vpn_split (drop_bit PAGE_SHIFT va) = (l2, l1, l0)" by (metis prod.exhaust)
  obtain h2 h1 h0 where H: "vpn_split (drop_bit PAGE_SHIFT (va + sz - 1)) = (h2, h1, h0)" by (metis prod.exhaust)
  obtain ppn' where loop: "vpn_loop (map_leaf (mapping_perm perm)) root (l2, l1, l0) (h2, h1, h0) (s, drop_bit PAGE_SHIFT pa) = Some (s', ppn')"
    using run by (auto simp: create_mapping_def Let_def L H split: Option.bind_splits)
  define I where "I = (\<lambda>(n :: nat) t (x :: u64). pt_ok root t \<and> live (vbuddy t) q \<and> ref_cnt (vbuddy t) ! q = ref_cnt (vbuddy s) ! q)"
  have "I (lin h2 h1 h0 + 1) s' ppn'"
  proof (rule vpn_loop_rule [OF loop vpn_bounds_split [OF L H lh] refl refl loop_invI])
    show "I (lin l2 l1 l0) s (drop_bit PAGE_SHIFT pa)" using ok q by (simp add: I_def)
    show "pt_ok root t" if "I n t x" for n t x using that by (simp add: I_def)
    show "I n t' x" if "I n t x" "ok_path p" "length p \<le> 1" "tbl_at (vmem t) root p = Some u" "i < 512"
      "next_table u i t = Some (u', t')" for n t x p u i u' t'
    proof -
      have t: "pt_ok root t" "live (vbuddy t) q" using that(1) by (simp_all add: I_def)
      have "buddy_inv (vbuddy t)" using t(1) by (simp add: pt_ok_def)
      from next_table_live [OF this that(6) t(2)] show ?thesis using next_table_ok(1) [OF t(1) that(2-6)] that(1) by (simp add: I_def)
    qed
    show "I (n + 1) t' x' \<and> keeps_tables root t t'"
      if "I n t x" "n = lin a b c" "a < 512" "b < 512" "c < 512" "tbl_at (vmem t) root [a, b] = Some u"
        "map_leaf (mapping_perm perm) u c (t, x) = Some (t', x')" for n t x a b c u t' x'
    proof -
      have t: "pt_ok root t" using that(1) by (simp add: I_def)
      have "t' = t\<lparr>vmem := (vmem t)(pte_addr u c := SV39_PTE x (mapping_perm perm))\<rparr>" using that(7) by (simp add: map_leaf_def)
      then show ?thesis using grows_leaf_write [OF t that(6,3-5), of "SV39_PTE x (mapping_perm perm)"] that(1) by (simp add: I_def)
    qed
  qed
  then show ?thesis by (simp add: I_def)
qed

lemma walk_invalid:
  assumes wf: "pt_wf (vmem v) own root" and V: "\<not> PTE_HAS_V (leaf_pte (vmem v) root (vpn_of a))"
  shows "\<not> is_valid_pte (walk_page_table_pte root (drop_bit PAGE_SHIFT a) v) v"
proof -
  obtain x y z where s: "vpn_split (drop_bit PAGE_SHIFT a) = (x, y, z)" by (metis prod.exhaust)
  note L = vpn_split_va [OF s]
  have x: "vidx (vpn_of a) = (x, y, z)" using vidx_lin L by metis
  show ?thesis
    using V by (auto simp: walk_pte_eq [OF s] is_valid_pte_def leaf_pte_def x split: option.splits simp del: tbl_at.simps)
qed

text \<open>
  \<open>forked p c X v v'\<close>: from \<open>v\<close> to \<open>v'\<close> the mapped pages among the page numbers \<open>X\<close> of the tree \<open>p\<close> became shared with the tree \<open>c\<close>.
\<close>

definition forked :: "u64 \<Rightarrow> u64 \<Rightarrow> nat set \<Rightarrow> vm \<Rightarrow> vm \<Rightarrow> bool" where
  "forked p c X v v' \<longleftrightarrow> pt_ok p v' \<and> pt_ok c v' \<and> tables (vmem v') p \<inter> tables (vmem v') c = {} \<and>
     (\<forall>x < 2 ^ 27. leaf_pte (vmem v') p x =
        (let e = leaf_pte (vmem v) p x in if x \<in> X \<and> PTE_HAS_V e then cow_pte e else e)) \<and>
     (\<forall>x < 2 ^ 27. leaf_pte (vmem v') c x =
        (let e = leaf_pte (vmem v) p x in if x \<in> X \<and> PTE_HAS_V e then child_pte e else leaf_pte (vmem v) c x)) \<and>
     (\<forall>f. live (vbuddy v) f \<longrightarrow> live (vbuddy v') f \<and> ref_cnt (vbuddy v') ! f = ref_cnt (vbuddy v) ! f +
        card {x \<in> X. PTE_HAS_V (leaf_pte (vmem v) p x) \<and> pte_table (leaf_pte (vmem v) p x) = va_of f}) \<and>
     owned_pages (vbuddy v) \<subseteq> owned_pages (vbuddy v') \<and>
     tables (vmem v') p \<inter> owned_pages (vbuddy v) \<subseteq> tables (vmem v) p \<and> tables (vmem v') c \<inter> owned_pages (vbuddy v) \<subseteq> tables (vmem v) c \<and>
     (\<forall>a. PGROUNDDOWN a \<in> owned_pages (vbuddy v) - tables (vmem v) p - tables (vmem v) c \<longrightarrow> vmem v' a = vmem v a)"

lemma forkedD:
  assumes "forked p c X v v'"
  shows "pt_ok p v'" "pt_ok c v'" "tables (vmem v') p \<inter> tables (vmem v') c = {}"
    "\<And>x. x < 2 ^ 27 \<Longrightarrow> leaf_pte (vmem v') p x =
        (if x \<in> X \<and> PTE_HAS_V (leaf_pte (vmem v) p x) then cow_pte (leaf_pte (vmem v) p x) else leaf_pte (vmem v) p x)"
    "\<And>x. x < 2 ^ 27 \<Longrightarrow> leaf_pte (vmem v') c x =
        (if x \<in> X \<and> PTE_HAS_V (leaf_pte (vmem v) p x) then child_pte (leaf_pte (vmem v) p x) else leaf_pte (vmem v) c x)"
    "\<And>f. live (vbuddy v) f \<Longrightarrow> live (vbuddy v') f"
    "\<And>f. live (vbuddy v) f \<Longrightarrow> ref_cnt (vbuddy v') ! f = ref_cnt (vbuddy v) ! f +
        card {x \<in> X. PTE_HAS_V (leaf_pte (vmem v) p x) \<and> pte_table (leaf_pte (vmem v) p x) = va_of f}"
    "owned_pages (vbuddy v) \<subseteq> owned_pages (vbuddy v')"
    "tables (vmem v') p \<inter> owned_pages (vbuddy v) \<subseteq> tables (vmem v) p" "tables (vmem v') c \<inter> owned_pages (vbuddy v) \<subseteq> tables (vmem v) c"
    "\<And>a. PGROUNDDOWN a \<in> owned_pages (vbuddy v) - tables (vmem v) p - tables (vmem v) c \<Longrightarrow> vmem v' a = vmem v a"
  using assms by (auto simp: forked_def Let_def)

lemma forked_refl:
  "pt_ok p v \<Longrightarrow> pt_ok c v \<Longrightarrow> tables (vmem v) p \<inter> tables (vmem v) c = {} \<Longrightarrow> forked p c {} v v"
  by (simp add: forked_def Let_def)

lemma forked_skip:
  assumes "forked p c X v v'" "\<not> PTE_HAS_V (leaf_pte (vmem v) p y)"
  shows "forked p c (insert y X) v v'"
proof -
  have "{x \<in> insert y X. PTE_HAS_V (leaf_pte (vmem v) p x) \<and> pte_table (leaf_pte (vmem v) p x) = w} =
      {x \<in> X. PTE_HAS_V (leaf_pte (vmem v) p x) \<and> pte_table (leaf_pte (vmem v) p x) = w}" for w using assms(2) by auto
  then show ?thesis using assms unfolding forked_def Let_def by (auto split: if_splits)
qed

lemma forked_trans:
  assumes f: "forked p c X v v1" and g: "forked p c Y v1 v2" and X: "finite X" "finite Y" "X \<inter> Y = {}" "\<And>y. y \<in> Y \<Longrightarrow> y < 2 ^ 27"
  shows "forked p c (X \<union> Y) v v2"
proof -
  note F = forkedD [OF f] and G = forkedD [OF g]
  have y: "leaf_pte (vmem v1) p y = leaf_pte (vmem v) p y" if "y \<in> Y" for y using F(4) [OF X(4) [OF that]] X(3) that by auto
  have cnt: "ref_cnt (vbuddy v2) ! q = ref_cnt (vbuddy v) ! q +
      card {x \<in> X \<union> Y. PTE_HAS_V (leaf_pte (vmem v) p x) \<and> pte_table (leaf_pte (vmem v) p x) = va_of q}" if q: "live (vbuddy v) q" for q
  proof -
    let ?h = "\<lambda>x. PTE_HAS_V (leaf_pte (vmem v) p x) \<and> pte_table (leaf_pte (vmem v) p x) = va_of q"
    have "{x \<in> Y. PTE_HAS_V (leaf_pte (vmem v1) p x) \<and> pte_table (leaf_pte (vmem v1) p x) = va_of q} = {x \<in> Y. ?h x}"
      using y by auto
    moreover have "{x \<in> X \<union> Y. ?h x} = {x \<in> X. ?h x} \<union> {x \<in> Y. ?h x}" by auto
    moreover have "card ({x \<in> X. ?h x} \<union> {x \<in> Y. ?h x}) = card {x \<in> X. ?h x} + card {x \<in> Y. ?h x}"
      by (rule card_Un_disjoint) (use X(1-3) in auto)
    ultimately show ?thesis using F(6,7) [OF q] G(7) [of q] by simp
  qed
  have tb: "tables (vmem v2) p \<inter> owned_pages (vbuddy v) \<subseteq> tables (vmem v) p" "tables (vmem v2) c \<inter> owned_pages (vbuddy v) \<subseteq> tables (vmem v) c"
    using F(8-10) G(9,10) by blast+
  have words: "vmem v2 a = vmem v a" if a: "PGROUNDDOWN a \<in> owned_pages (vbuddy v) - tables (vmem v) p - tables (vmem v) c" for a
  proof -
    have "PGROUNDDOWN a \<in> owned_pages (vbuddy v1) - tables (vmem v1) p - tables (vmem v1) c" using a F(8-10) by blast
    then show ?thesis using F(11) [OF a] G(11) by simp
  qed
  have "owned_pages (vbuddy v) \<subseteq> owned_pages (vbuddy v2)" using F(8) G(8) by blast
  moreover have "live (vbuddy v2) q" if "live (vbuddy v) q" for q using F(6) [OF that] G(6) by simp
  moreover have "leaf_pte (vmem v2) p x =
      (if x \<in> X \<union> Y \<and> PTE_HAS_V (leaf_pte (vmem v) p x) then cow_pte (leaf_pte (vmem v) p x) else leaf_pte (vmem v) p x)" if "x < 2 ^ 27" for x
    using F(4) [OF that] G(4) [OF that] y X(3) by (cases "x \<in> Y") auto
  moreover have "leaf_pte (vmem v2) c x =
      (if x \<in> X \<union> Y \<and> PTE_HAS_V (leaf_pte (vmem v) p x) then child_pte (leaf_pte (vmem v) p x) else leaf_pte (vmem v) c x)" if "x < 2 ^ 27" for x
    using F(5) [OF that] G(5) [OF that] y X(3) by (cases "x \<in> Y") auto
  ultimately show ?thesis using G(1-3) cnt tb words unfolding forked_def Let_def by simp
qed

lemma fork_page_ok:
  fixes st :: kst
  defines "p \<equiv> t_pgd (cur st)" and "v \<equiv> kvm st"
  assumes ok: "pt_ok p v" "pt_ok c v" "tables (vmem v) p \<inter> tables (vmem v) c = {}"
    and a: "page_aligned a" "unat a mod 2 ^ 39 + 4096 \<le> 2 ^ 39"
    and frames: "PTE_HAS_V (leaf_pte (vmem v) p (vpn_of a)) \<Longrightarrow> \<exists>f. live (vbuddy v) f \<and> pte_table (leaf_pte (vmem v) p (vpn_of a)) = va_of f"
    and run: "fork_page c a st = Some st'"
  shows "st' = set_kvm (kvm st') st \<and> forked p c {vpn_of a} v (kvm st')"
proof (cases "PTE_HAS_V (leaf_pte (vmem v) p (vpn_of a))")
  case False
  have wf: "pt_wf (vmem v) (owned_pages (vbuddy v)) p" using ok(1) by (simp add: pt_ok_def)
  have "st' = st" using run walk_invalid [OF wf False] by (simp add: fork_page_def Let_def p_def v_def)
  then show ?thesis using forked_skip [OF forked_refl [OF ok] False] by (simp add: set_kvm_def v_def)
next
  case V: True
  let ?e = "leaf_pte (vmem v) p (vpn_of a)" and ?b = "vbuddy v"
  have inv: "buddy_inv ?b" and wf: "pt_wf (vmem v) (owned_pages ?b) p" using ok(1) by (simp_all add: pt_ok_def)
  obtain x y z t where W: "tbl_at (vmem v) p [x, y] = Some t" "x < 512" "y < 512" "z < 512" "vpn_of a = lin x y z"
    "walk_page_table_pte p (drop_bit PAGE_SHIFT a) v = pte_addr t z" "is_valid_pte (pte_addr t z) v"
    "vmem v (pte_addr t z) = ?e" "page_aligned t" "t \<in> owned_pages ?b" by (rule walk_valid [OF wf V])
  obtain f where f: "live ?b f" "pte_table ?e = va_of f" using frames [OF V] by blast
  let ?pa = "push_bit PAGE_SHIFT (GET_SUBBITMAP ?e SV39_PTE_PPN_BEGIN SV39_PTE_PPN_END)"
  have pa: "PA2VA ?pa = va_of f" using f(2) by (simp add: pte_table_def PPN2PHYS_def PAGE_SHIFT_def)
  have fb: "f < bsize ?b" "f < 2 ^ 52" using f(1) bsize_le [OF inv] by (auto simp: live_def)
  have len: "length (ref_cnt ?b) = bsize ?b" using inv by (auto simp: buddy_inv_def)
  let ?b1 = "?b\<lparr>ref_cnt := (ref_cnt ?b)[f := ref_cnt ?b ! f + 1]\<rparr>"
  have rp: "ref_page (va_of f) ?b = Some (0, ?b1)"
    using pfn_va_of [OF fb(2)] f(1) fb(1) len by (simp add: ref_page_def pfn_of_va_def buddy_pfn_incref_def live_def)
  define v1 where "v1 = v\<lparr>vmem := (vmem v)(pte_addr t z := cow_pte ?e), vbuddy := ?b1\<rparr>"
  let ?va = "v\<lparr>vmem := (vmem v)(pte_addr t z := cow_pte ?e)\<rparr>"
  have own: "owned_pages ?b1 = owned_pages ?b" by (simp add: owned_pages_def used_pages_def)
  have inv1: "buddy_inv ?b1" by (rule ref_update_inv [OF inv fb(1)]) (use f(1) in \<open>simp_all add: live_def\<close>)
  note LW = grows_leaf_write [OF ok(1) W(1-4), of "cow_pte ?e"]
  have p1: "pt_ok p v1" using LW(3) inv1 own by (simp add: pt_ok_def v1_def)
  have wfc: "pt_wf (vmem v) (owned_pages ?b) c" using ok(2) by (simp add: pt_ok_def)
  note O = grows_other [OF LW(1) wfc ok(3)]
  have c1: "pt_ok c v1" using O(3) inv1 own by (simp add: pt_ok_def v1_def)
  have v1m: "vmem v1 = vmem ?va" by (simp add: v1_def)
  have dis1: "tables (vmem v1) p \<inter> tables (vmem v1) c = {}" using O(4) by (simp only: v1m)
  have leaf1: "leaf_pte (vmem v1) p w = (if w = vpn_of a then cow_pte ?e else leaf_pte (vmem v) p w)" if "w < 2 ^ 27" for w
    using leaf_write(3) [OF wf W(1-4) that, of "cow_pte ?e"] W(5) by (simp add: v1_def)
  have run1: "do { v2 \<leftarrow> create_mapping c a ?pa PGSIZE (SV39_GET_PERM (cow_pte ?e)) v1; Some (set_kvm v2 st) } = Some st'"
    using run W(6-8) rp by (simp add: fork_page_def Let_def p_def [symmetric] v_def [symmetric] pa cow_pte_def v1_def)
  then obtain v2 where v2: "create_mapping c a ?pa PGSIZE (SV39_GET_PERM (cow_pte ?e)) v1 = Some v2" "st' = set_kvm v2 st"
    by (auto split: Option.bind_splits)
  have lh: "vpn_of (a + PGSIZE - 1) = vpn_of a"
  proof -
    have "vpn_of (a + 4095) = vpn_of a + unat (4095 :: u64) div 4096" by (rule vpn_of_add [OF a(1)]) (use a(2) in simp)
    then show ?thesis by (simp add: PGSIZE_def add.commute [of a])
  qed
  note C = create_mapping_ok [OF c1 _ v2(1), unfolded lh, OF order_refl]
  have wfp1: "pt_wf (vmem v1) (owned_pages (vbuddy v1)) p" using p1 by (simp add: pt_ok_def)
  have dis1': "tables (vmem v1) c \<inter> tables (vmem v1) p = {}" using dis1 by blast
  note Q = grows_other [OF C(2) wfp1 dis1']
  have p2: "pt_ok p v2" using Q(3) C(1) by (simp add: pt_ok_def)
  have dis2: "tables (vmem v2) p \<inter> tables (vmem v2) c = {}" using Q(4) by blast
  have leafp: "leaf_pte (vmem v2) p w = (if w = vpn_of a then cow_pte ?e else leaf_pte (vmem v) p w)" if "w < 2 ^ 27" for w
    using Q(2) [OF that] leaf1 [OF that] by simp
  have leafc: "leaf_pte (vmem v2) c w = (if w = vpn_of a then child_pte ?e else leaf_pte (vmem v) c w)" if "w < 2 ^ 27" for w
  proof -
    have "leaf_pte (vmem v1) c w = leaf_pte (vmem v) c w" using O(2) [OF that] by (simp only: v1m)
    then show ?thesis using C(3) [OF that] by (auto simp: child_pte_def)
  qed
  have lv: "live (vbuddy v2) q \<and> ref_cnt (vbuddy v2) ! q = ref_cnt ?b ! q + card {x \<in> {vpn_of a}. PTE_HAS_V (leaf_pte (vmem v) p x) \<and>
      pte_table (leaf_pte (vmem v) p x) = va_of q}" if q: "live ?b q" for q
  proof -
    have "live (vbuddy v1) q" using q len by (cases "q = f") (simp_all add: live_def v1_def)
    note cl = create_mapping_live [OF c1 _ v2(1) this, unfolded lh, OF order_refl]
    have "q < 2 ^ 52" using q bsize_le [OF inv] by (auto simp: live_def)
    then have "va_of f = va_of q \<longleftrightarrow> f = q" using va_of_inj fb(2) by blast
    then have "{x \<in> {vpn_of a}. PTE_HAS_V (leaf_pte (vmem v) p x) \<and> pte_table (leaf_pte (vmem v) p x) = va_of q} = (if f = q then {vpn_of a} else {})"
      using V f(2) by auto
    then show ?thesis using cl fb(1) len by (auto simp: v1_def)
  qed
  have tp: "tables (vmem v1) p = tables (vmem v) p"
    unfolding tables_def by (rule Collect_cong) (use LW(2) leaf_write(2) [OF wf W(1-4), where v = "cow_pte ?e"] in \<open>auto simp: v1_def\<close>)
  have tcq: "tbl_at (vmem v1) c q = tbl_at (vmem v) c q" if "ok_path q" for q using O(1) [OF that] by (simp only: v1m)
  have tc: "tables (vmem v1) c = tables (vmem v) c" unfolding tables_def by (rule Collect_cong) (auto simp: tcq)
  have tp2: "tables (vmem v2) p = tables (vmem v1) p" unfolding tables_def by (rule Collect_cong) (auto simp: Q(1))
  have grow2: "owned_pages ?b \<subseteq> owned_pages (vbuddy v2)" "tables (vmem v2) c \<inter> owned_pages ?b \<subseteq> tables (vmem v) c"
    "\<And>w. PGROUNDDOWN w \<in> owned_pages ?b - tables (vmem v) c \<Longrightarrow> vmem v2 w = vmem v1 w"
    using C(2) own tc by (auto simp: grows_def v1_def)
  have words: "vmem v2 w = vmem v w" if w: "PGROUNDDOWN w \<in> owned_pages ?b - tables (vmem v) p - tables (vmem v) c" for w
  proof -
    have "PGROUNDDOWN (pte_addr t z) = t" by (rule page_words [OF W(9,4)])
    moreover have "t \<in> tables (vmem v) p" unfolding tables_def using W(1-3) ok_path2 [of x y] by blast
    ultimately have "w \<noteq> pte_addr t z" using w by auto
    then show ?thesis using grow2(3) [of w] w by (simp add: v1_def)
  qed
  have "forked p c {vpn_of a} v v2"
    unfolding forked_def Let_def using p2 C(1) dis2 leafp leafc lv V tp tp2 grow2(1,2) words by auto
  then show ?thesis using v2(2) by (simp add: set_kvm_def)
qed

subsection \<open>One area\<close>

lemma PGROUNDDOWN_aligned: "page_aligned p \<Longrightarrow> PGROUNDDOWN p = p"
  using bits_ident [of 12 p] by (simp add: PGROUNDDOWN_eq page_aligned_def)

lemma PGROUNDUP_aligned: "page_aligned p \<Longrightarrow> PGROUNDUP p = p"
proof -
  assume p: "page_aligned p"
  have "PGROUNDDOWN (p + of_nat 4095) = p" by (rule page_offset(1) [OF p]) simp
  then show ?thesis by (simp add: PGROUNDUP_def PGSIZE_def add.commute [of p])
qed

text \<open>The pages of an area of user memory, as page numbers.\<close>

definition area_pages :: "vm_area \<Rightarrow> nat set" where
  "area_pages vma = {vpn_of (vm_start vma) ..< vpn_of (vm_start vma) + unat (vm_end vma - vm_start vma) div 4096}"

lemma fork_area_ok:
  fixes st :: kst
  defines "p \<equiv> t_pgd (cur st)" and "v \<equiv> kvm st"
  assumes ok: "pt_ok p v" "pt_ok c v" "tables (vmem v) p \<inter> tables (vmem v) c = {}"
    and al: "page_aligned (vm_start vma)" "page_aligned (vm_end vma)" "vm_start vma < vm_end vma" "unat (vm_end vma) \<le> 2 ^ 38"
    and frames: "\<And>x. x \<in> area_pages vma \<Longrightarrow> PTE_HAS_V (leaf_pte (vmem v) p x) \<Longrightarrow> \<exists>f. live (vbuddy v) f \<and> pte_table (leaf_pte (vmem v) p x) = va_of f"
    and run: "fork_area c vma st = Some st'"
  shows "st' = set_kvm (kvm st') st \<and> forked p c (area_pages vma) v (kvm st')"
proof -
  let ?s = "vm_start vma" and ?e = "vm_end vma"
  have se: "unat ?s < unat ?e" using al(3) by (simp add: word_less_nat_alt)
  have dvd: "4096 dvd unat ?s" "4096 dvd unat ?e" using al(1,2) by (simp_all add: page_aligned_unat)
  have len: "unat (?e - ?s) = unat ?e - unat ?s" using se by (simp add: unat_sub word_le_nat_alt)
  define n where "n = unat (?e - ?s) div 4096"
  have n: "n * 4096 = unat ?e - unat ?s" using len dvd by (simp add: n_def dvd_diff_nat)
  have pg: "PGROUNDDOWN ?s = ?s" "PGROUNDUP ?e = ?e" using al(1,2) PGROUNDDOWN_aligned PGROUNDUP_aligned by simp_all
  have cnt: "unat ((?e - ?s) div PGSIZE) = n" by (simp add: n_def unat_div PGSIZE_def)
  have loop: "for_range 0 n (\<lambda>i. fork_page c (?s + PGSIZE * of_nat i)) st = Some st'"
    using run al(3) by (simp add: fork_area_def Let_def pg cnt)
  have page: "page_aligned (?s + PGSIZE * of_nat i)" "unat (?s + PGSIZE * of_nat i) = unat ?s + 4096 * i"
    "vpn_of (?s + PGSIZE * of_nat i) = vpn_of ?s + i" if i: "i < n" for i
  proof -
    have i38: "i * 4096 < 2 ^ 38" "unat ?s + i * 4096 < 2 ^ 38" using i n al(4) se by simp_all
    have u: "unat (PGSIZE * of_nat i :: u64) = 4096 * i"
      using i38(1) by (simp add: unat_word_ariths PGSIZE_def unsigned_of_nat take_bit_nat_eq_self)
    then show us: "unat (?s + PGSIZE * of_nat i) = unat ?s + 4096 * i" using i38 by (simp add: unat_word_ariths)
    then show "page_aligned (?s + PGSIZE * of_nat i)" using dvd(1) by (simp add: page_aligned_unat)
    have "vpn_of (?s + PGSIZE * of_nat i) = vpn_of ?s + unat (PGSIZE * of_nat i :: u64) div 4096"
      by (rule vpn_of_add [OF al(1)]) (use u i38 se al(4) in simp)
    then show "vpn_of (?s + PGSIZE * of_nat i) = vpn_of ?s + i" by (simp add: u)
  qed
  have "st' = set_kvm (kvm st') st \<and> forked p c {vpn_of ?s ..< vpn_of ?s + n} v (kvm st')"
  proof (rule for_range_rule [OF loop, where P = "\<lambda>i s. s = set_kvm (kvm s) st \<and> forked p c {vpn_of ?s ..< vpn_of ?s + i} v (kvm s)"])
    show "st = set_kvm (kvm st) st \<and> forked p c {vpn_of ?s ..< vpn_of ?s + 0} v (kvm st)"
      using forked_refl [OF ok] by (simp add: set_kvm_def v_def)
  next
    fix i s s' assume i: "0 \<le> i" "i < n" and I: "s = set_kvm (kvm s) st \<and> forked p c {vpn_of ?s ..< vpn_of ?s + i} v (kvm s)"
      and step: "fork_page c (?s + PGSIZE * of_nat i) s = Some s'"
    let ?a = "?s + PGSIZE * of_nat i"
    have f: "forked p c {vpn_of ?s ..< vpn_of ?s + i} v (kvm s)" using I by blast
    note F = forkedD [OF f] and A = page [OF i(2)]
    have "current s = current st" "task_at s = task_at st" by (subst conjunct1 [OF I], simp add: set_kvm_def)+
    then have cs: "cur s = cur st" by simp
    have lt: "vpn_of ?a < 2 ^ 27" by (simp add: vpn_of_def)
    have leaf: "leaf_pte (vmem (kvm s)) p (vpn_of ?a) = leaf_pte (vmem v) p (vpn_of ?a)" using F(4) [OF lt] A(3) by simp
    have mem: "vpn_of ?a \<in> area_pages vma" using A(3) i(2) by (simp add: area_pages_def n_def)
    have hi: "unat ?a mod 2 ^ 39 + 4096 \<le> 2 ^ 39"
    proof -
      have "4096 * i + 4096 \<le> unat ?e - unat ?s" using i(2) n by linarith
      then have "unat ?a + 4096 \<le> 2 ^ 38" using A(2) al(4) se by linarith
      then show ?thesis by simp
    qed
    have "s' = set_kvm (kvm s') s \<and> forked (t_pgd (cur s)) c {vpn_of ?a} (kvm s) (kvm s')"
    proof (rule fork_page_ok [OF _ _ _ A(1) hi _ step])
      show "pt_ok (t_pgd (cur s)) (kvm s)" "pt_ok c (kvm s)" "tables (vmem (kvm s)) (t_pgd (cur s)) \<inter> tables (vmem (kvm s)) c = {}"
        using F(1-3) by (simp_all add: cs p_def)
      show "\<exists>f. live (vbuddy (kvm s)) f \<and> pte_table (leaf_pte (vmem (kvm s)) (t_pgd (cur s)) (vpn_of ?a)) = va_of f"
        if "PTE_HAS_V (leaf_pte (vmem (kvm s)) (t_pgd (cur s)) (vpn_of ?a))"
        using frames [OF mem] that F(6) leaf by (simp add: cs p_def) blast
    qed
    then have g: "s' = set_kvm (kvm s') s" "forked p c {vpn_of ?a} (kvm s) (kvm s')" by (simp_all add: cs p_def)
    have "{vpn_of ?s ..< vpn_of ?s + i} \<union> {vpn_of ?a} = {vpn_of ?s ..< vpn_of ?s + Suc i}" using A(3) by auto
    then have "forked p c {vpn_of ?s ..< vpn_of ?s + Suc i} v (kvm s')" using forked_trans [OF f g(2)] lt A(3) by simp
    moreover have "s' = set_kvm (kvm s') st"
      by (rule trans [OF g(1)], subst conjunct1 [OF I]) (simp add: set_kvm_def)
    ultimately show "s' = set_kvm (kvm s') st \<and> forked p c {vpn_of ?s ..< vpn_of ?s + Suc i} v (kvm s')" by blast
  qed simp
  then show ?thesis by (simp add: area_pages_def n_def)
qed

subsection \<open>All areas\<close>

definition user_area :: "vm_area \<Rightarrow> bool" where
  "user_area vma \<longleftrightarrow> page_aligned (vm_start vma) \<and> page_aligned (vm_end vma) \<and> vm_start vma < vm_end vma \<and> unat (vm_end vma) \<le> 2 ^ 38"

lemma area_pages_eq:
  assumes "user_area vma"
  shows "area_pages vma = {unat (vm_start vma) div 4096 ..< unat (vm_end vma) div 4096}"
proof -
  have a: "unat (vm_start vma) < unat (vm_end vma)" "unat (vm_end vma) \<le> 2 ^ 38" "4096 dvd unat (vm_start vma)" "4096 dvd unat (vm_end vma)"
    using assms by (simp_all add: user_area_def word_less_nat_alt page_aligned_unat)
  have "vpn_of (vm_start vma) = unat (vm_start vma) div 4096" using a(1,2) by (simp add: vpn_of_def)
  moreover have "unat (vm_end vma - vm_start vma) div 4096 = unat (vm_end vma) div 4096 - unat (vm_start vma) div 4096"
  proof -
    obtain k l where "unat (vm_start vma) = 4096 * k" "unat (vm_end vma) = 4096 * l" using a(3,4) by (auto elim!: dvdE)
    then show ?thesis using a(1) by (simp add: unat_sub word_le_nat_alt flip: diff_mult_distrib2)
  qed
  moreover have "unat (vm_start vma) div 4096 \<le> unat (vm_end vma) div 4096" using a(1) by (intro div_le_mono) simp
  ultimately show ?thesis by (simp add: area_pages_def)
qed

lemma area_pages_bound: "user_area vma \<Longrightarrow> x \<in> area_pages vma \<Longrightarrow> x < 2 ^ 27"
proof -
  assume u: "user_area vma" and x: "x \<in> area_pages vma"
  have "unat (vm_end vma) div 4096 \<le> 2 ^ 38 div 4096" using u by (intro div_le_mono) (simp add: user_area_def)
  then show ?thesis using x by (simp add: area_pages_eq [OF u])
qed

lemma area_pages_apart: "user_area a \<Longrightarrow> user_area b \<Longrightarrow> vm_end a \<le> vm_start b \<Longrightarrow> area_pages a \<inter> area_pages b = {}"
proof -
  assume a: "user_area a" and b: "user_area b" and le: "vm_end a \<le> vm_start b"
  have "unat (vm_end a) div 4096 \<le> unat (vm_start b) div 4096" using le by (intro div_le_mono) (simp add: word_le_nat_alt)
  then show ?thesis by (auto simp: area_pages_eq [OF a] area_pages_eq [OF b])
qed

lemma fork_areas_ok:
  assumes "pt_ok (t_pgd (cur st)) (kvm st)" "pt_ok c (kvm st)" "tables (vmem (kvm st)) (t_pgd (cur st)) \<inter> tables (vmem (kvm st)) c = {}"
    and "dlink (vmas (kmm st)) q vs 0" "0 \<notin> set vs" "sorted_areas (areas (vmas (kmm st)) vs)" "\<And>a. a \<in> set vs \<Longrightarrow> user_area (vmas (kmm st) a)"
    and "\<And>x a. a \<in> set vs \<Longrightarrow> x \<in> area_pages (vmas (kmm st) a) \<Longrightarrow> PTE_HAS_V (leaf_pte (vmem (kvm st)) (t_pgd (cur st)) x) \<Longrightarrow>
      \<exists>f. live (vbuddy (kvm st)) f \<and> pte_table (leaf_pte (vmem (kvm st)) (t_pgd (cur st)) x) = va_of f"
    and "fork_areas c (hd0 0 vs) st = Some st'"
  shows "st' = set_kvm (kvm st') st \<and> forked (t_pgd (cur st)) c (\<Union>a \<in> set vs. area_pages (vmas (kmm st) a)) (kvm st) (kvm st')"
  using assms
proof (induction vs arbitrary: st q)
  case Nil
  have "fork_areas c 0 st = Some st'" using Nil.prems(9) by simp
  then have "st' = st" by (simp add: fork_areas.simps [of c 0])
  then show ?case using forked_refl [OF Nil.prems(1-3)] by (simp add: set_kvm_def)
next
  case (Cons a vs)
  let ?h = "vmas (kmm st)" and ?p = "t_pgd (cur st)"
  have a: "a \<noteq> 0" "vm_next (?h a) = hd0 0 vs" "dlink ?h a vs 0" using Cons.prems(4,5) by auto
  obtain s1 where s1: "fork_area c (?h a) st = Some s1" "fork_areas c (vm_next (vmas (kmm s1) a)) s1 = Some st'"
    using Cons.prems(9) a(1) by (subst (asm) fork_areas.simps) (auto split: Option.bind_splits)
  have ua: "user_area (?h a)" using Cons.prems(7) by simp
  have A: "s1 = set_kvm (kvm s1) st" "forked ?p c (area_pages (?h a)) (kvm st) (kvm s1)"
    using fork_area_ok [OF Cons.prems(1-3) _ _ _ _ _ s1(1)] ua Cons.prems(8) by (auto simp: user_area_def)
  note F = forkedD [OF A(2)]
  have same: "kmm s1 = kmm st" "cur s1 = cur st"
  proof -
    have "kmm s1 = kmm st" "current s1 = current st" "task_at s1 = task_at st" by (subst A(1), simp add: set_kvm_def)+
    then show "kmm s1 = kmm st" "cur s1 = cur st" by simp_all
  qed
  let ?X = "area_pages (?h a)" and ?Y = "\<Union>b \<in> set vs. area_pages (?h b)"
  have dis: "?X \<inter> area_pages (?h b) = {}" if "b \<in> set vs" for b
  proof -
    have "vm_end (?h a) \<le> vm_start (?h b)" using Cons.prems(6) that by (auto simp: areas_def sorted_areas_Cons area_of_def)
    then show ?thesis using area_pages_apart [OF ua] Cons.prems(7) that by simp
  qed
  have lf: "leaf_pte (vmem (kvm s1)) ?p x = leaf_pte (vmem (kvm st)) ?p x" if "b \<in> set vs" "x \<in> area_pages (?h b)" for b x
  proof -
    have "x < 2 ^ 27" using area_pages_bound [of "?h b" x] Cons.prems(7) that by simp
    moreover have "x \<notin> ?X" using dis [OF that(1)] that(2) by blast
    ultimately show ?thesis using F(4) by simp
  qed
  have "st' = set_kvm (kvm st') s1 \<and> forked (t_pgd (cur s1)) c (\<Union>b \<in> set vs. area_pages (vmas (kmm s1) b)) (kvm s1) (kvm st')"
  proof (rule Cons.IH [where q = a])
    show "pt_ok (t_pgd (cur s1)) (kvm s1)" "pt_ok c (kvm s1)" "tables (vmem (kvm s1)) (t_pgd (cur s1)) \<inter> tables (vmem (kvm s1)) c = {}"
      using F(1-3) by (simp_all add: same)
    show "dlink (vmas (kmm s1)) a vs 0" "0 \<notin> set vs" "fork_areas c (hd0 0 vs) s1 = Some st'" using a Cons.prems(5) s1(2) by (simp_all add: same(1))
    show "sorted_areas (areas (vmas (kmm s1)) vs)" using Cons.prems(6) by (simp add: same(1) areas_def sorted_areas_Cons)
    show "user_area (vmas (kmm s1) b)" if "b \<in> set vs" for b using Cons.prems(7) that by (simp add: same(1))
    show "\<exists>f. live (vbuddy (kvm s1)) f \<and> pte_table (leaf_pte (vmem (kvm s1)) (t_pgd (cur s1)) x) = va_of f"
      if "b \<in> set vs" "x \<in> area_pages (vmas (kmm s1) b)" "PTE_HAS_V (leaf_pte (vmem (kvm s1)) (t_pgd (cur s1)) x)" for b x
    proof -
      have x: "x \<in> area_pages (?h b)" using that(2) by (simp add: same(1))
      have "PTE_HAS_V (leaf_pte (vmem (kvm st)) ?p x)" using that(3) lf [OF that(1) x] by (simp add: same(2))
      from Cons.prems(8) [OF _ x this] that(1) obtain f where "live (vbuddy (kvm st)) f" "pte_table (leaf_pte (vmem (kvm st)) ?p x) = va_of f" by auto
      then show ?thesis using F(6) lf [OF that(1) x] by (auto simp: same(2))
    qed
  qed
  then have R: "st' = set_kvm (kvm st') s1" "forked ?p c ?Y (kvm s1) (kvm st')" by (simp_all add: same)
  have "forked ?p c (?X \<union> ?Y) (kvm st) (kvm st')"
  proof (rule forked_trans [OF A(2) R(2)])
    show "finite ?X" by (simp add: area_pages_def)
    show "finite ?Y" by (simp add: area_pages_def)
    show "?X \<inter> ?Y = {}" using dis by blast
    show "y < 2 ^ 27" if "y \<in> ?Y" for y using that area_pages_bound Cons.prems(7) by auto
  qed
  moreover have "st' = set_kvm (kvm st') st" by (rule trans [OF R(1)], subst A(1)) (simp add: set_kvm_def)
  ultimately show ?case by simp
qed

end
