(* ===== verification/Fork_Claims.thy ===== *)
theory Fork_Claims
  imports Fork_Props Vma_Claims Sched_Claims
begin

unbundle bit_operations_syntax

text \<open>What the page loop of \<open>do_fork\<close> promises: the child sees the memory of the parent, and neither can write to it any more.\<close>

text \<open>
  C23. Fork shares the memory of the parent. The loops of \<open>do_fork\<close> over the areas and their pages leave the parent's translation of every
  address as it was and give the child the same translation of every mapped address in an area; on both sides the entry keeps its
  rights except for writing and is marked as shared. Every frame gains one reference for each page that maps it, the words of all pages
  that hold no table keep their contents, and both page tables stay well formed and apart.
\<close>

theorem fork_shares_memory:
  fixes st :: kst and c :: u64
  defines "p \<equiv> t_pgd (cur st)" and "v \<equiv> kvm st"
  assumes "pt_ok p v" "pt_ok c v" "tables (vmem v) p \<inter> tables (vmem v) c = {}"
    and "mm_wf (kmm st) (t_mm (cur st)) vs fs" "sorted_areas (areas (vmas (kmm st)) vs)"
    and "\<forall>a \<in> set vs. user_area (vmas (kmm st) a)"
    and "\<forall>a \<in> set vs. \<forall>x \<in> area_pages (vmas (kmm st) a). PTE_HAS_V (leaf_pte (vmem v) p x) \<longrightarrow>
      (\<exists>f. live (vbuddy v) f \<and> pte_table (leaf_pte (vmem v) p x) = va_of f)"
    and "fork_areas c (mmap (mms (kmm st) (t_mm (cur st)))) st = Some st'"
  shows "(\<forall>va. walk_page_table p va (kvm st') = walk_page_table p va v) \<and>
    (\<forall>a \<in> set vs. \<forall>va. vpn_of va \<in> area_pages (vmas (kmm st) a) \<and> PTE_HAS_V (leaf_pte (vmem v) p (vpn_of va)) \<longrightarrow>
       walk_page_table c va (kvm st') = walk_page_table p va v \<and>
       shared_entry (leaf_pte (vmem v) p (vpn_of va)) (leaf_pte (vmem (kvm st')) p (vpn_of va)) \<and>
       shared_entry (leaf_pte (vmem v) p (vpn_of va)) (leaf_pte (vmem (kvm st')) c (vpn_of va))) \<and>
    (\<forall>f. live (vbuddy v) f \<longrightarrow> ref_cnt (vbuddy (kvm st')) ! f = ref_cnt (vbuddy v) ! f +
       card {x \<in> \<Union>a \<in> set vs. area_pages (vmas (kmm st) a). PTE_HAS_V (leaf_pte (vmem v) p x) \<and> pte_table (leaf_pte (vmem v) p x) = va_of f}) \<and>
    (\<forall>w. PGROUNDDOWN w \<in> owned_pages (vbuddy v) - tables (vmem v) p - tables (vmem v) c \<longrightarrow> vmem (kvm st') w = vmem v w) \<and>
    pt_ok p (kvm st') \<and> pt_ok c (kvm st') \<and> tables (vmem (kvm st')) p \<inter> tables (vmem (kvm st')) c = {}"
proof -
  note W = mm_wfD [OF assms(6)]
  let ?X = "\<Union>a \<in> set vs. area_pages (vmas (kmm st) a)"
  have "st' = set_kvm (kvm st') st \<and> forked p c ?X v (kvm st')"
    unfolding p_def v_def by (rule fork_areas_ok [OF _ _ _ W(6,3) assms(7)])
      (use assms(3-5,8,9,10) W(5) in \<open>auto simp: p_def v_def\<close>)
  then have f: "forked p c ?X v (kvm st')" by blast
  note F = forkedD [OF f]
  have wf: "pt_wf (vmem v) (owned_pages (vbuddy v)) p" "pt_wf (vmem (kvm st')) (owned_pages (vbuddy (kvm st'))) p"
    "pt_wf (vmem (kvm st')) (owned_pages (vbuddy (kvm st'))) c" using assms(3) F(1,2) by (simp_all add: pt_ok_def)
  have b: "vpn_of va < 2 ^ 27" for va by (simp add: vpn_of_def)
  have "walk_page_table p va (kvm st') = walk_page_table p va v" for va
    by (simp add: walk_page_table_eq [OF wf(1)] walk_page_table_eq [OF wf(2)] F(4) [OF b] shared_V same_ppn)
  moreover have "walk_page_table c va (kvm st') = walk_page_table p va v \<and>
       shared_entry (leaf_pte (vmem v) p (vpn_of va)) (leaf_pte (vmem (kvm st')) p (vpn_of va)) \<and>
       shared_entry (leaf_pte (vmem v) p (vpn_of va)) (leaf_pte (vmem (kvm st')) c (vpn_of va))"
    if "a \<in> set vs" "vpn_of va \<in> area_pages (vmas (kmm st) a)" "PTE_HAS_V (leaf_pte (vmem v) p (vpn_of va))" for a va
  proof -
    have x: "vpn_of va \<in> ?X" using that by blast
    show ?thesis using that(3) x shared_entries [OF that(3)]
      by (simp add: walk_page_table_eq [OF wf(1)] walk_page_table_eq [OF wf(3)] F(4) [OF b] F(5) [OF b] shared_V same_ppn del: UN_iff)
  qed
  ultimately show ?thesis using F(1-3,7,11) by blast
qed

definition demo_fork :: kst where
  "demo_fork = (demo_kst (\<lambda>_. (demo_task 1 0 5 5)\<lparr>t_pgd := root_a, t_mm := demo_mm\<rparr>))\<lparr>kmm := demo_mms, kvm := demo_vm'\<rparr>"

lemma demo_fork_state: "cur demo_fork = (demo_task 1 0 5 5)\<lparr>t_pgd := root_a, t_mm := demo_mm\<rparr>" "kmm demo_fork = demo_mms" "kvm demo_fork = demo_vm'"
  by (simp_all add: demo_fork_def demo_kst_def)

lemma demo_fork_runs: "fork_areas root_b (mmap (mms demo_mms demo_mm)) demo_fork \<noteq> None"
  by code_simp

lemma demo_fork_tables: "pt_ok root_b demo_vm'" "tables (vmem demo_vm') root_a \<inter> tables (vmem demo_vm') root_b = {}"
proof -
  have "root_a \<noteq> root_b" by code_simp
  then have d: "tables (vmem demo_vm) root_a \<inter> tables (vmem demo_vm) root_b = {}" unfolding demo_roots(3,4) by blast
  note C = create_mapping_ok [OF demo_roots(1) _ demo_maps, unfolded demo_vpns, OF order_refl]
  have wf: "pt_wf (vmem demo_vm) (owned_pages (vbuddy demo_vm)) root_b" using demo_roots(2) by (simp add: pt_ok_def)
  note O = grows_other [OF C(2) wf d]
  show "pt_ok root_b demo_vm'" using O(3) C(1) by (simp add: pt_ok_def)
  show "tables (vmem demo_vm') root_a \<inter> tables (vmem demo_vm') root_b = {}" by (rule O(4))
qed

theorem fork_shares_memory_witness:
  "\<exists>st'. fork_areas root_b (mmap (mms demo_mms demo_mm)) demo_fork = Some st' \<and>
     walk_page_table root_b 0x10123 (kvm st') = 0x80002123 \<and> ref_cnt (vbuddy (kvm st')) ! 2 = 2"
proof -
  obtain st' where run: "fork_areas root_b (mmap (mms demo_mms demo_mm)) demo_fork = Some st'" using demo_fork_runs by auto
  let ?v = "kvm demo_fork" and ?p = "t_pgd (cur demo_fork)"
  have s: "t_pgd (cur demo_fork) = root_a" "t_mm (cur demo_fork) = demo_mm" by (simp_all add: demo_fork_state)
  have lf: "leaf_pte (vmem demo_vm') root_a x = (if x = 16 then 0x20000853 else 0)" if "x < 2 ^ 27" for x
    by (rule demo_vm'_leaf(2) [OF that])
  have ne: "vma_slot demo_mm 1 \<noteq> vma_slot demo_mm 0" by code_simp
  then have u: "\<forall>a \<in> set demo_used. user_area (vmas demo_mms a)"
    by (simp add: demo_used_def demo_mms_def user_area_def page_aligned_unat word_less_nat_alt)
  have pages: "(\<Union>a \<in> set demo_used. area_pages (vmas demo_mms a)) = {16 ..< 24}"
  proof -
    have "area_pages (vmas demo_mms (vma_slot demo_mm 0)) = {16 ..< 20}" "area_pages (vmas demo_mms (vma_slot demo_mm 1)) = {20 ..< 24}"
      using ne by (simp_all add: area_pages_def vpn_of_def demo_mms_def)
    then show ?thesis by (auto simp: demo_used_def)
  qed
  have c: "PTE_HAS_V 0x20000853" "\<not> PTE_HAS_V 0" "pte_table 0x20000853 = va_of 2" "live (vbuddy demo_vm') 2 \<and> ref_cnt (vbuddy demo_vm') ! 2 = 1"
    unfolding live_def by code_simp+
  have frames: "\<exists>f. live (vbuddy demo_vm') f \<and> pte_table (leaf_pte (vmem demo_vm') root_a x) = va_of f"
    if "PTE_HAS_V (leaf_pte (vmem demo_vm') root_a x)" "a \<in> set demo_used" "x \<in> area_pages (vmas demo_mms a)" for x a
  proof -
    have "x < 2 ^ 27" using that(2,3) u area_pages_bound by blast
    then have "leaf_pte (vmem demo_vm') root_a x = 0x20000853" using lf [of x] that(1) c(2) by (auto split: if_splits)
    then show ?thesis using c(3,4) by auto
  qed
  note T = fork_shares_memory [of demo_fork root_b demo_used demo_free st', unfolded demo_fork_state(2,3) s, OF demo_vm'_leaf(1) demo_fork_tables
      demo_wf demo_sorted u _ run]
  have "{x \<in> {16 ..< 24}. PTE_HAS_V (leaf_pte (vmem demo_vm') root_a x) \<and> pte_table (leaf_pte (vmem demo_vm') root_a x) = va_of 2} = {16}"
    using lf c(1-3) by (auto split: if_splits)
  then have "ref_cnt (vbuddy (kvm st')) ! 2 = 2" using T frames c(4) unfolding pages by auto
  moreover have "walk_page_table root_b 0x10123 (kvm st') = walk_page_table root_a 0x10123 demo_vm'"
  proof -
    have v: "vpn_of 0x10123 = 16" by (simp add: vpn_of_def)
    have "16 \<in> (\<Union>a \<in> set demo_used. area_pages (vmas demo_mms a))" unfolding pages by simp
    then obtain a where a: "a \<in> set demo_used" "vpn_of 0x10123 \<in> area_pages (vmas demo_mms a)" unfolding v by blast
    have "PTE_HAS_V (leaf_pte (vmem demo_vm') root_a (vpn_of 0x10123))" unfolding v using lf [of 16] c(1) by simp
    then show ?thesis using T frames a by blast
  qed
  moreover have "walk_page_table root_a 0x10123 demo_vm' = 0x80002123"
  proof -
    have wf: "pt_wf (vmem demo_vm') (owned_pages (vbuddy demo_vm')) root_a" using demo_vm'_leaf(1) by (simp add: pt_ok_def)
    have v: "vpn_of 0x10123 = 16" by (simp add: vpn_of_def)
    have "push_bit 12 (SV39_GET_PPN 0x20000853) + take_bit 12 0x10123 = 0x80002123" by code_simp
    then show ?thesis using lf [of 16] c(1) by (simp only: walk_page_table_eq [OF wf] v) simp
  qed
  ultimately show ?thesis using run by auto
qed

end
