(* ===== verification/Malloc.thy ===== *)
theory Malloc
  imports Vma_Inv Buddy_Ops
begin

unbundle bit_operations_syntax

text \<open>
  The allocator of the user library (\<open>user/src/malloc.c\<close>): slabs of blocks of one size class, a free list in every slab, and two lists of
  slabs for every class. The \<open>slab\<close> and \<open>mblock\<close> headers live in typed heaps by address; \<open>block_at\<close> is the word of the union \<open>meta\<close>/\<open>next\<close>.
  The user program is linked and loaded at address 0, so a store through a null \<open>slab*\<close> is no fault: it lands in the program image, and
  the model keeps it as the record at address 0. The answers of \<open>mmap\<close> are a parameter, \<open>mmap_ans\<close>; \<open>mapped\<close> are the areas it
  gave. Messages are left out.
\<close>

subsection \<open>malloc.h\<close>

record slab =
  s_va :: u64
  s_unit_size :: u64
  s_unit_count :: u32
  s_bfreelist :: u64
  s_prev :: u64
  s_next :: u64

definition sizeof_slab :: u64 where "sizeof_slab = 48"
definition sizeof_mblock :: u64 where "sizeof_mblock = 8"

definition MAX_COUNT_SLAB :: "u64 \<Rightarrow> u64" where
  "MAX_COUNT_SLAB data_size = (PGSIZE - sizeof_slab) div (data_size + sizeof_mblock)"

text \<open>A shift by a negative number is undefined.\<close>

definition UNIT_SIZE_SLAB :: "nat \<Rightarrow> u64 option" where
  "UNIT_SIZE_SLAB idx =
     (if idx < 8 then Some (push_bit idx 1 * PGSIZE) else if idx < 12 then None else Some (push_bit (idx - 12) 1))"

definition slab_max_count :: "u64 list" where
  "slab_max_count = replicate 12 1 @ map MAX_COUNT_SLAB [1, 2, 4, 8, 16, 32, 64, 128, 256, 512, 1024, 2048]"

definition slab_num_page :: "u64 list" where
  "slab_num_page = [1, 2, 4, 8, 16, 32, 64, 128, 256, 512, 1024, 2048] @ replicate 12 1"

record uheap =
  used_slab :: "u64 list"
  avail_slab :: "u64 list"
  ufree_start :: u64
  heap_start :: u64
  heap_size :: u64
  slab_at :: "u64 \<Rightarrow> slab"
  block_at :: "u64 \<Rightarrow> u64"
  mmap_ans :: "u64 \<Rightarrow> u64 \<Rightarrow> u64"
  mapped :: "(u64 \<times> u64) list"

definition upd_slab :: "u64 \<Rightarrow> (slab \<Rightarrow> slab) \<Rightarrow> uheap \<Rightarrow> uheap" where
  "upd_slab s f h = h\<lparr>slab_at := (slab_at h)(s := f (slab_at h s))\<rparr>"

definition set_block :: "u64 \<Rightarrow> u64 \<Rightarrow> uheap \<Rightarrow> uheap" where
  "set_block b v h = h\<lparr>block_at := (block_at h)(b := v)\<rparr>"

subsection \<open>Size classes\<close>

definition user_fixsize :: "u64 \<Rightarrow> u64" where
  "user_fixsize sz0 =
     (let sz = sz0 - 1;
          sz = sz OR drop_bit 1 sz;
          sz = sz OR drop_bit 2 sz;
          sz = sz OR drop_bit 4 sz;
          sz = sz OR drop_bit 8 sz;
          sz = sz OR drop_bit 16 sz;
          sz = sz OR drop_bit 32 sz
      in sz + 1)"

lemma unat_half_less: "sz \<noteq> 0 \<Longrightarrow> unat (drop_bit 1 sz) < unat sz" for sz :: u64
proof -
  assume "sz \<noteq> 0"
  then have "0 < unat sz" by (simp add: unat_gt_0)
  moreover have "unat (drop_bit 1 sz) = unat sz div 2" by (simp only: unat_drop_bit_eq) (simp add: drop_bit_Suc)
  ultimately show ?thesis by simp
qed

function bit_steps :: "u64 \<Rightarrow> int \<Rightarrow> int" where
  "bit_steps sz idx = (if sz \<noteq> 0 then bit_steps (drop_bit 1 sz) (idx + 1) else idx)"
  by pat_completeness auto
termination
  by (relation "measure (\<lambda>(sz, idx). unat sz)") (auto intro: unat_half_less simp del: One_nat_def drop_bit_Suc)

declare bit_steps.simps [simp del]

definition get_used_slab_idx :: "u64 \<Rightarrow> int" where
  "get_used_slab_idx sz =
     (if sz \<le> PGSIZE div 2 then bit_steps (user_fixsize sz) 12
      else bit_steps (user_fixsize (sz + sizeof_slab + sizeof_mblock) div PGSIZE) 0) - 1"

definition get_block_idx :: "u64 \<Rightarrow> int" where
  "get_block_idx sz0 =
     (let sz = user_fixsize sz0
      in (if sz < PGSIZE then bit_steps sz 12 else bit_steps (sz div PGSIZE) 0) - 1)"

subsection \<open>Growing the heap\<close>

definition user_mmap :: "u64 \<Rightarrow> u64 \<Rightarrow> uheap \<Rightarrow> u64 \<times> uheap" where
  "user_mmap a len h =
     (let r = mmap_ans h a len in (r, if r = - 1 then h else h\<lparr>mapped := mapped h @ [(r, len)]\<rparr>))"

text \<open>\<open>None\<close> is the endless loop after a failed request.\<close>

definition heap_init :: "u64 \<Rightarrow> uheap \<Rightarrow> uheap option" where
  "heap_init edata_user h =
     (let clear = (\<lambda>xs. replicate 20 0 @ drop 20 xs);
          h = h\<lparr>used_slab := clear (used_slab h), avail_slab := clear (avail_slab h), heap_start := PGROUNDUP edata_user,
                heap_size := PGSIZE\<rparr>;
          (r, h) = user_mmap (heap_start h) (heap_size h) h
      in if r = - 1 then None else Some (h\<lparr>heap_start := r, ufree_start := r\<rparr>))"

definition heap_inflate :: "uheap \<Rightarrow> int \<times> uheap" where
  "heap_inflate h =
     (let (r, h) = user_mmap (heap_start h + heap_size h) (heap_size h) h
      in if r = - 1 then (- 1, h) else (0, h\<lparr>heap_size := heap_size h * 2\<rparr>))"

partial_function (option) inflate_until :: "u64 \<Rightarrow> uheap \<Rightarrow> uheap option" where
  "inflate_until new_heap_end h =
     (if new_heap_end > heap_start h + heap_size h then inflate_until new_heap_end (snd (heap_inflate h)) else Some h)"

declare inflate_until.simps [code]

subsection \<open>Slabs\<close>

text \<open>The loop that links the blocks of a new slab: \<open>n\<close> links from \<open>block\<close> on.\<close>

fun link_blocks :: "nat \<Rightarrow> u64 \<Rightarrow> u64 \<Rightarrow> uheap \<Rightarrow> uheap" where
  "link_blocks 0 block unit h = set_block block 0 h"
| "link_blocks (Suc n) block unit h =
     (let nxt = block + unit + sizeof_mblock in link_blocks n nxt unit (set_block block nxt h))"

definition alloc_slab :: "nat \<Rightarrow> uheap \<Rightarrow> (u64 \<times> uheap) option" where
  "alloc_slab idx h =
     do { pages \<leftarrow> rd slab_num_page idx;
          h \<leftarrow> inflate_until (ufree_start h + pages * PGSIZE) h;
          let s = ufree_start h;
          let h = upd_slab s (\<lambda>x. x\<lparr>s_va := s\<rparr>) h\<lparr>ufree_start := s + pages * PGSIZE\<rparr>;
          unit \<leftarrow> UNIT_SIZE_SLAB idx;
          count \<leftarrow> rd slab_max_count idx;
          av \<leftarrow> rd (avail_slab h) idx;
          let h = upd_slab s (\<lambda>x. x\<lparr>s_unit_size := unit, s_unit_count := ucast count, s_prev := 0, s_next := av\<rparr>) h;
          let h = upd_slab av (\<lambda>x. x\<lparr>s_prev := s\<rparr>) h;
          let block = s_va (slab_at h s) + sizeof_slab;
          let h = upd_slab s (\<lambda>x. x\<lparr>s_bfreelist := block\<rparr>) (h\<lparr>avail_slab := (avail_slab h)[idx := s]\<rparr>);
          Some (s, link_blocks (unat (count - 1)) block unit h) }"

definition get_avail_slab :: "nat \<Rightarrow> uheap \<Rightarrow> (u64 \<times> uheap) option" where
  "get_avail_slab idx h =
     do { av \<leftarrow> rd (avail_slab h) idx;
          h \<leftarrow> (if av = 0 then do { (s, h) \<leftarrow> alloc_slab idx h; Some (h\<lparr>avail_slab := (avail_slab h)[idx := s]\<rparr>) } else Some h);
          av \<leftarrow> rd (avail_slab h) idx;
          Some (av, h) }"

text \<open>The neighbours of a slab that leaves its list.\<close>

definition unlink_slab :: "u64 \<Rightarrow> uheap \<Rightarrow> uheap" where
  "unlink_slab s h =
     (let h = (if s_prev (slab_at h s) \<noteq> 0 then upd_slab (s_prev (slab_at h s)) (\<lambda>x. x\<lparr>s_next := s_next (slab_at h s)\<rparr>) h else h)
      in if s_next (slab_at h s) \<noteq> 0 then upd_slab (s_next (slab_at h s)) (\<lambda>x. x\<lparr>s_prev := s_prev (slab_at h s)\<rparr>) h else h)"

text \<open>The slab becomes the first one of a list that starts at \<open>first\<close>.\<close>

definition push_slab :: "u64 \<Rightarrow> u64 \<Rightarrow> uheap \<Rightarrow> uheap" where
  "push_slab s first h = upd_slab first (\<lambda>x. x\<lparr>s_prev := s\<rparr>) (upd_slab s (\<lambda>x. x\<lparr>s_prev := 0, s_next := first\<rparr>) h)"

definition to_used :: "nat \<Rightarrow> u64 \<Rightarrow> uheap \<Rightarrow> uheap option" where
  "to_used idx s h =
     do { av \<leftarrow> rd (avail_slab h) idx;
          let h = (if s = av then h\<lparr>avail_slab := (avail_slab h)[idx := s_next (slab_at h s)]\<rparr> else h);
          us \<leftarrow> rd (used_slab h) idx;
          let h = push_slab s us (unlink_slab s h);
          Some (h\<lparr>used_slab := (used_slab h)[idx := s]\<rparr>) }"

definition to_avail :: "nat \<Rightarrow> u64 \<Rightarrow> uheap \<Rightarrow> uheap option" where
  "to_avail idx s h =
     do { us \<leftarrow> rd (used_slab h) idx;
          let h = (if s = us then h\<lparr>used_slab := (used_slab h)[idx := s_next (slab_at h s)]\<rparr> else h);
          av \<leftarrow> rd (avail_slab h) idx;
          let h = push_slab s av (unlink_slab s h);
          Some (h\<lparr>avail_slab := (avail_slab h)[idx := s]\<rparr>) }"

subsection \<open>Blocks\<close>

text \<open>The block on top of the free list of a slab; 0 when there is none.\<close>

definition take_block :: "nat \<Rightarrow> u64 \<Rightarrow> uheap \<Rightarrow> (u64 \<times> uheap) option" where
  "take_block idx s h =
     (let block = s_bfreelist (slab_at h s)
      in if block = 0 then Some (0, h)
         else let h = upd_slab s (\<lambda>x. x\<lparr>s_bfreelist := block_at h block\<rparr>) h;
                  h = set_block block s h
              in if s_unit_count (slab_at h s) \<noteq> 0 then
                   let h = upd_slab s (\<lambda>x. x\<lparr>s_unit_count := s_unit_count x - 1\<rparr>) h
                   in if s_unit_count (slab_at h s) = 0 then do { h \<leftarrow> to_used idx s h; Some (block, h) } else Some (block, h)
                 else Some (block, h))"

definition alloc_block :: "u64 \<Rightarrow> uheap \<Rightarrow> (u64 \<times> uheap) option" where
  "alloc_block sz h =
     (let idx = get_used_slab_idx sz
      in if idx < 0 then Some (0, h) else do { (s, h) \<leftarrow> get_avail_slab (nat idx) h; take_block (nat idx) s h })"

definition free_block :: "u64 \<Rightarrow> uheap \<Rightarrow> uheap option" where
  "free_block block h =
     (let s = block_at h block;
          h = set_block block (s_bfreelist (slab_at h s)) h;
          h = upd_slab s (\<lambda>x. x\<lparr>s_bfreelist := block\<rparr>) h;
          idx = get_block_idx (s_unit_size (slab_at h s))
      in if s_unit_count (slab_at h s) = 0 then
           let h = upd_slab s (\<lambda>x. x\<lparr>s_unit_count := 1\<rparr>) h
           in if idx < 0 then None else to_avail (nat idx) s h
         else Some h)"

definition malloc :: "u64 \<Rightarrow> uheap \<Rightarrow> (u64 \<times> uheap) option" where
  "malloc sz h = do { (block, h) \<leftarrow> alloc_block sz h; Some (block + sizeof_mblock, h) }"

definition free :: "u64 \<Rightarrow> uheap \<Rightarrow> uheap option" where
  "free ptr h = free_block (ptr - sizeof_mblock) h"

end
