(* ===== verification/Malloc_Inv.thy ===== *)
theory Malloc_Inv
  imports Malloc Vma_Ops
begin

unbundle bit_operations_syntax

text \<open>
  The invariant of the user heap: slabs one behind the other from \<open>heap_start\<close> to \<open>ufree_start\<close>, in each slab a free list of its blocks, and
  two doubly linked lists of slabs for every class. The links of the slabs are read as links of areas, so that the lemmas on doubly
  linked segments apply.
\<close>

subsection \<open>The lists of slabs\<close>

definition links :: "(u64 \<Rightarrow> slab) \<Rightarrow> u64 \<Rightarrow> vm_area" where
  "links sl a = zero_vma\<lparr>vm_prev := s_prev (sl a), vm_next := s_next (sl a)\<rparr>"

lemma links_simps [simp]: "vm_prev (links sl a) = s_prev (sl a)" "vm_next (links sl a) = s_next (sl a)"
  by (simp_all add: links_def)

definition same_content :: "slab \<Rightarrow> slab \<Rightarrow> bool" where
  "same_content x y \<longleftrightarrow> s_va y = s_va x \<and> s_unit_size y = s_unit_size x \<and> s_unit_count y = s_unit_count x \<and> s_bfreelist y = s_bfreelist x"

lemma same_content_refl [simp]: "same_content x x" by (simp add: same_content_def)

definition slab_list :: "(u64 \<Rightarrow> slab) \<Rightarrow> u64 \<Rightarrow> u64 list \<Rightarrow> bool" where
  "slab_list sl p xs \<longleftrightarrow> list_ok (links sl) p xs"

lemma slab_list_cong:
  assumes "\<And>a. a \<in> set xs \<Longrightarrow> s_prev (sl' a) = s_prev (sl a) \<and> s_next (sl' a) = s_next (sl a)"
  shows "slab_list sl' p xs = slab_list sl p xs"
  using dlink_cong [of xs "links sl'" "links sl" 0 0] assms by (simp add: slab_list_def list_ok_def)

lemma slab_list_Nil [simp]: "slab_list sl p [] \<longleftrightarrow> p = 0"
  by (simp add: slab_list_def list_ok_def)

lemma unlink_slab_at:
  assumes "slab_list (slab_at h) p (xs @ s # ys)"
  shows "slab_at (unlink_slab s h) a = (slab_at h a)
    \<lparr>s_next := (if xs \<noteq> [] \<and> a = last xs then hd0 0 ys else s_next (slab_at h a)),
     s_prev := (if ys \<noteq> [] \<and> a = hd ys then last0 0 xs else s_prev (slab_at h a))\<rparr>"
    "unlink_slab s h = h\<lparr>slab_at := slab_at (unlink_slab s h)\<rparr>"
proof -
  have L: "0 \<notin> set (xs @ s # ys)" "distinct (xs @ s # ys)" "dlink (links (slab_at h)) 0 (xs @ s # ys) 0"
    using assms by (simp_all add: slab_list_def list_ok_def)
  have v: "s_prev (slab_at h s) = last0 0 xs" "s_next (slab_at h s) = hd0 0 ys" using L(3) by (simp_all add: dlink_append)
  have x0: "last0 0 xs = 0 \<longleftrightarrow> xs = []" using L(1) by (metis UnI1 set_append last_in_set last0_def)
  have y0: "hd0 0 ys = 0 \<longleftrightarrow> ys = []" using L(1) by (cases ys) auto
  have vx: "xs \<noteq> [] \<Longrightarrow> last xs \<noteq> s" using L(2) by (metis disjoint_iff distinct_append last_in_set list.set_intros(1))
  have l0: "xs \<noteq> [] \<Longrightarrow> last0 0 xs = last xs" "ys \<noteq> [] \<Longrightarrow> hd0 0 ys = hd ys" by (simp_all add: last0_def hd0_def split: list.splits)
  have nz: "xs \<noteq> [] \<Longrightarrow> last xs \<noteq> 0" "ys \<noteq> [] \<Longrightarrow> hd ys \<noteq> 0" using x0 y0 l0 by auto
  show "unlink_slab s h = h\<lparr>slab_at := slab_at (unlink_slab s h)\<rparr>"
    by (simp add: unlink_slab_def Let_def upd_slab_def)
  show "slab_at (unlink_slab s h) a = (slab_at h a)
    \<lparr>s_next := (if xs \<noteq> [] \<and> a = last xs then hd0 0 ys else s_next (slab_at h a)),
     s_prev := (if ys \<noteq> [] \<and> a = hd ys then last0 0 xs else s_prev (slab_at h a))\<rparr>"
    using vx nz by (cases "xs = []"; cases "ys = []") (auto simp: unlink_slab_def Let_def upd_slab_def v x0 y0 l0)
qed

text \<open>A slab moves from one list to the front of another.\<close>

lemma move_slab:
  assumes xs: "slab_list (slab_at h) p (xs @ s # ys)" and zs: "slab_list (slab_at h) q zs" and dis: "set (xs @ s # ys) \<inter> set zs = {}"
  defines "h' \<equiv> push_slab s q (unlink_slab s h)"
  shows "h' = h\<lparr>slab_at := slab_at h'\<rparr>" "same_content (slab_at h a) (slab_at h' a)"
    "slab_list (slab_at h') (hd0 0 (xs @ ys)) (xs @ ys)" "slab_list (slab_at h') s (s # zs)"
    "\<And>us r. set us \<inter> (set (xs @ s # ys) \<union> set zs) = {} \<Longrightarrow> 0 \<notin> set us \<Longrightarrow> slab_list (slab_at h') r us = slab_list (slab_at h) r us"
proof -
  let ?sl = "slab_at h" and ?sl' = "slab_at h'"
  have L: "0 \<notin> set (xs @ s # ys)" "distinct (xs @ s # ys)" "dlink (links ?sl) 0 (xs @ s # ys) 0"
    using xs by (simp_all add: slab_list_def list_ok_def)
  have Z: "q = hd0 0 zs" "0 \<notin> set zs" "distinct zs" "dlink (links ?sl) 0 zs 0" using zs by (simp_all add: slab_list_def list_ok_def)
  have qs: "q \<noteq> s" using Z(1) dis L(1) by (cases zs) auto
  note U = unlink_slab_at [OF xs]
  have q0: "q = 0 \<longleftrightarrow> zs = []" "zs \<noteq> [] \<Longrightarrow> q = hd zs" using Z(1,2) by (cases zs; auto)+
  have e: "?sl' = (slab_at (unlink_slab s h))(s := (slab_at (unlink_slab s h) s)\<lparr>s_prev := 0, s_next := q\<rparr>,
     q := (slab_at (unlink_slab s h) q)\<lparr>s_prev := s\<rparr>)"
    using qs by (simp add: h'_def push_slab_def upd_slab_def)
  show "h' = h\<lparr>slab_at := slab_at h'\<rparr>"
    unfolding h'_def push_slab_def upd_slab_def by (subst U(2), subst U(2), simp)
  show "same_content (?sl a) (?sl' a)" for a by (simp add: e U(1) same_content_def)
  have nq: "q \<notin> set (xs @ s # ys)" using q0 L(1) dis by (metis disjoint_iff hd_in_set)
  have N: "s_next (?sl' a) = (if xs \<noteq> [] \<and> a = last xs then hd0 0 ys else s_next (?sl a))" if "a \<noteq> s" for a
    using that by (simp add: e U(1))
  have P: "s_prev (?sl' a) = (if ys \<noteq> [] \<and> a = hd ys then last0 0 xs else s_prev (?sl a))" if "a \<noteq> s" "a \<noteq> q" for a
    using that by (simp add: e U(1))
  have ne: "s \<notin> set xs" "s \<notin> set ys" "set xs \<inter> set ys = {}" using L(2) by auto
  have lx: "xs \<noteq> [] \<Longrightarrow> last xs \<in> set xs" "ys \<noteq> [] \<Longrightarrow> hd ys \<in> set ys" by simp_all
  have "dlink (links ?sl') 0 (xs @ ys) 0"
  proof (rule dlink_remove [OF L(3,2)])
    fix a assume a: "a \<in> set xs"
    then have "a \<noteq> s" "a \<noteq> q" "\<not> (ys \<noteq> [] \<and> a = hd ys)" "xs \<noteq> []" using a ne nq hd_in_set [of ys] by (fastforce, fastforce, blast, fastforce)
    then show "vm_prev (links ?sl' a) = vm_prev (links ?sl a) \<and>
       vm_next (links ?sl' a) = (if a = last xs then hd0 0 ys else vm_next (links ?sl a))" using N P by auto
  next
    fix a assume a: "a \<in> set ys"
    then have "a \<noteq> s" "a \<noteq> q" "\<not> (xs \<noteq> [] \<and> a = last xs)" "ys \<noteq> []" using a ne nq last_in_set [of xs] by (fastforce, fastforce, blast, fastforce)
    then show "vm_next (links ?sl' a) = vm_next (links ?sl a) \<and>
       vm_prev (links ?sl' a) = (if a = hd ys then last0 0 xs else vm_prev (links ?sl a))" using N P by auto
  qed
  then show "slab_list ?sl' (hd0 0 (xs @ ys)) (xs @ ys)" using L(1,2) by (simp add: slab_list_def list_ok_def)
  have other: "s_prev (?sl' a) = s_prev (?sl a) \<and> s_next (?sl' a) = s_next (?sl a)" if "a \<notin> set (xs @ s # ys)" "a \<noteq> q" for a
  proof -
    have "a \<noteq> s" "\<not> (xs \<noteq> [] \<and> a = last xs)" "\<not> (ys \<noteq> [] \<and> a = hd ys)" using that(1) lx by auto
    then show ?thesis using N P that(2) by auto
  qed
  have s': "s_prev (?sl' s) = 0" "s_next (?sl' s) = hd0 0 zs" using qs Z(1) by (simp_all add: e)
  have "dlink (links ?sl') s zs 0"
  proof (cases zs)
    case (Cons z zs')
    have zq: "z = q" "z \<notin> set zs'" using Z(1,3) Cons by simp_all
    have "z \<notin> set (xs @ s # ys)" using dis Cons by auto
    then have "s_next (?sl' z) = s_next (?sl z)" "s_prev (?sl' z) = s"
      using N [of z] lx(1) zq(1) qs by (auto simp: e)
    moreover have "dlink (links ?sl') z zs' 0 = dlink (links ?sl) z zs' 0"
    proof (rule dlink_cong)
      fix a assume "a \<in> set zs'"
      then have "a \<notin> set (xs @ s # ys)" "a \<noteq> q" using dis Cons zq by auto
      from other [OF this] show "vm_prev (links ?sl' a) = vm_prev (links ?sl a) \<and> vm_next (links ?sl' a) = vm_next (links ?sl a)" by simp
    qed
    ultimately show ?thesis using Z(4) Cons by simp
  qed simp
  then show "slab_list ?sl' s (s # zs)" using s' Z L(1) dis by (auto simp: slab_list_def list_ok_def)
  show "slab_list ?sl' r us = slab_list ?sl r us" if "set us \<inter> (set (xs @ s # ys) \<union> set zs) = {}" "0 \<notin> set us" for us r
  proof (rule slab_list_cong)
    fix a assume a: "a \<in> set us"
    have "a \<notin> set (xs @ s # ys)" "a \<notin> set zs" "a \<noteq> 0" using that a by auto
    moreover from this have "a \<noteq> q" using q0 by (metis hd_in_set)
    ultimately show "s_prev (?sl' a) = s_prev (?sl a) \<and> s_next (?sl' a) = s_next (?sl a)" using other by blast
  qed
qed

subsection \<open>Size classes\<close>

text \<open>
  The classes in use: 0 to 7 are slabs of \<open>2 ^ i\<close> pages with one block, 12 to 23 slabs of one page with blocks of \<open>2 ^ (i - 12)\<close>
  bytes. \<open>room i\<close> is the number of bytes behind a block header that no other header uses.
\<close>

definition class_ok :: "nat \<Rightarrow> bool" where "class_ok i \<longleftrightarrow> i < 8 \<or> 12 \<le> i \<and> i < 24"
definition unit_of :: "nat \<Rightarrow> nat" where "unit_of i = (if i < 8 then 2 ^ i * 4096 else 2 ^ (i - 12))"
definition pages_of :: "nat \<Rightarrow> nat" where "pages_of i = (if i < 8 then 2 ^ i else 1)"
definition count_of :: "nat \<Rightarrow> nat" where "count_of i = (if i < 8 then 1 else 4048 div (2 ^ (i - 12) + 8))"
definition room :: "nat \<Rightarrow> nat" where "room i = (if i < 8 then 2 ^ i * 4096 - 56 else 2 ^ (i - 12))"

lemma class_cases: "class_ok i \<longleftrightarrow> i \<in> set ([0 ..< 8] @ [12 ..< 24])"
  unfolding class_ok_def set_append set_upt Un_iff atLeastLessThan_iff by simp

lemma class_table:
  "list_all (\<lambda>i. 1 \<le> count_of i \<and> count_of i \<le> 449 \<and> pages_of i \<le> 128 \<and> 1 \<le> pages_of i \<and> unit_of i \<le> 524288 \<and> i < 24 \<and> room i \<le> unit_of i)
     ([0 ..< 8] @ [12 ..< 24])"
  "list_all (\<lambda>i. 48 + (count_of i - 1) * (unit_of i + 8) + 8 + room i \<le> pages_of i * 4096) ([0 ..< 8] @ [12 ..< 24])"
  "list_all (\<lambda>i. rd slab_num_page i = Some (of_nat (pages_of i))) ([0 ..< 8] @ [12 ..< 24])"
  "list_all (\<lambda>i. UNIT_SIZE_SLAB i = Some (of_nat (unit_of i))) ([0 ..< 8] @ [12 ..< 24])"
  "list_all (\<lambda>i. rd slab_max_count i = Some (of_nat (count_of i))) ([0 ..< 8] @ [12 ..< 24])"
  by (simp_all add: upt_rec list_all_iff count_of_def unit_of_def pages_of_def room_def rd_def slab_num_page_def nth_append
      UNIT_SIZE_SLAB_def slab_max_count_def MAX_COUNT_SLAB_def PGSIZE_def sizeof_slab_def sizeof_mblock_def)

lemmas class_rows = class_table [unfolded list_all_iff, THEN bspec, folded class_cases]

lemma bit_steps_pow2: "m < 64 \<Longrightarrow> unat sz = 2 ^ m \<Longrightarrow> bit_steps sz idx = idx + int m + 1"
proof (induction m arbitrary: sz idx)
  case 0
  then have "sz = 1" by (simp add: word_unat_eq_iff)
  then show ?case by (simp add: bit_steps.simps)
next
  case (Suc m)
  have "unat (drop_bit 1 sz) = 2 ^ m" using Suc.prems by (simp only: unat_drop_bit_eq) (simp add: drop_bit_Suc)
  then have "bit_steps (drop_bit 1 sz) (idx + 1) = idx + 1 + int m + 1" using Suc.IH Suc.prems by simp
  moreover have "sz \<noteq> 0" using Suc.prems(2) by (metis power_not_zero unat_0 zero_neq_numeral)
  ultimately show ?case by (subst bit_steps.simps) simp
qed

lemma user_fixsize_eq: "user_fixsize sz = fixsize sz"
  by (simp add: user_fixsize_def fixsize_def)

lemma block_class:
  assumes "class_ok i"
  shows "get_block_idx (of_nat (unit_of i)) = int i"
proof -
  define m where "m = (if i < 8 then i + 12 else i - 12)"
  have u: "unit_of i = 2 ^ m" "m < 20" using assms by (auto simp: unit_of_def m_def class_ok_def power_add)
  have lt: "(2 :: nat) ^ m < 2 ^ 20" by (rule power_strict_increasing [OF u(2)]) simp
  then have x: "unat (of_nat (unit_of i) :: u64) = 2 ^ m" using u by (simp add: unat_exp_u64)
  obtain k where k: "k < 64" "unat (fixsize (of_nat (unit_of i))) = 2 ^ k" "unat (of_nat (unit_of i) :: u64) \<le> 2 ^ k"
    "2 ^ k < 2 * unat (of_nat (unit_of i) :: u64)"
    by (rule fixsize_ok [of "of_nat (unit_of i)"]) (use x lt in simp_all)
  have "m \<le> k" using k(3) x by (simp add: power_le_imp_le_exp)
  moreover have "(2 :: nat) ^ k < 2 ^ (Suc m)" using k(4) x by simp
  then have "k < Suc m" by (rule power_less_imp_less_exp [rotated]) simp
  ultimately have f: "unat (fixsize (of_nat (unit_of i))) = 2 ^ m" using k(2) by simp
  show ?thesis
  proof (cases "i < 8")
    case True
    then have "\<not> fixsize (of_nat (unit_of i)) < PGSIZE" "unat (fixsize (of_nat (unit_of i)) div PGSIZE) = 2 ^ i"
      using f by (simp_all add: word_less_nat_alt unat_div PGSIZE_def m_def power_add)
    then show ?thesis using bit_steps_pow2 [of i "fixsize (of_nat (unit_of i)) div PGSIZE" 0] True
      by (simp add: get_block_idx_def user_fixsize_eq)
  next
    case False
    then have "(2 :: nat) ^ m < 2 ^ 12" using assms by (intro power_strict_increasing) (auto simp: m_def class_ok_def)
    then have "fixsize (of_nat (unit_of i)) < PGSIZE" using f by (simp add: word_less_nat_alt PGSIZE_def)
    moreover have "m < 64" using u(2) by simp
    ultimately show ?thesis using bit_steps_pow2 [OF \<open>m < 64\<close> f, of 12] False assms
      by (simp add: get_block_idx_def user_fixsize_eq m_def class_ok_def)
  qed
qed

lemma class_facts:
  assumes "class_ok i"
  shows "rd slab_num_page i = Some (of_nat (pages_of i))" "UNIT_SIZE_SLAB i = Some (of_nat (unit_of i))"
    "rd slab_max_count i = Some (of_nat (count_of i))" "get_block_idx (of_nat (unit_of i)) = int i"
    "1 \<le> count_of i" "count_of i \<le> 449" "pages_of i \<le> 128" "1 \<le> pages_of i" "unit_of i \<le> 524288" "i < 24" "room i \<le> unit_of i"
    "k < count_of i \<Longrightarrow> 48 + k * (unit_of i + 8) + 8 + room i \<le> pages_of i * 4096"
proof -
  note R = class_rows(1) [OF assms]
  show "rd slab_num_page i = Some (of_nat (pages_of i))" "UNIT_SIZE_SLAB i = Some (of_nat (unit_of i))"
    "rd slab_max_count i = Some (of_nat (count_of i))" "get_block_idx (of_nat (unit_of i)) = int i"
    by (rule class_rows(3-5) [OF assms] block_class [OF assms])+
  show "1 \<le> count_of i" "count_of i \<le> 449" "pages_of i \<le> 128" "1 \<le> pages_of i" "unit_of i \<le> 524288" "i < 24" "room i \<le> unit_of i"
    using R by blast+
  assume "k < count_of i"
  then have "k * (unit_of i + 8) \<le> (count_of i - 1) * (unit_of i + 8)" by (intro mult_right_mono) auto
  then show "48 + k * (unit_of i + 8) + 8 + room i \<le> pages_of i * 4096" using class_rows(2) [OF assms] by linarith
qed

text \<open>The largest request the tables serve.\<close>

definition max_request :: nat where "max_request = 2 ^ 19 - 56"

text \<open>The classes by size of their blocks: first the slabs of one page, then those of one block.\<close>

definition smaller_class :: "nat \<Rightarrow> nat \<Rightarrow> bool" where
  "smaller_class j i \<longleftrightarrow> (if i < 8 then 12 \<le> j \<and> j < 24 \<or> j < i else 12 \<le> j \<and> j < i)"

lemma size_class:
  assumes "1 \<le> unat sz" "unat sz \<le> max_request"
  shows "\<exists>i. get_used_slab_idx sz = int i \<and> class_ok i \<and> unat sz \<le> room i \<and> (\<forall>j. smaller_class j i \<longrightarrow> room j < unat sz)"
proof (cases "unat sz \<le> 2048")
  case True
  obtain m where m: "m < 64" "unat (fixsize sz) = 2 ^ m" "unat sz \<le> 2 ^ m" "2 ^ m < 2 * unat sz"
    by (rule fixsize_ok [of sz]) (use assms True in simp_all)
  have "(2 :: nat) ^ m < 2 ^ 12" using m(4) True by simp
  then have m12: "m < 12" by (rule power_less_imp_less_exp [rotated]) simp
  have "sz \<le> PGSIZE div 2" using True by (simp add: word_le_nat_alt PGSIZE_def)
  then have "get_used_slab_idx sz = int (12 + m)"
    by (simp add: get_used_slab_idx_def user_fixsize_eq bit_steps_pow2 [OF m(1,2)])
  moreover have "room j < unat sz" if j: "smaller_class j (12 + m)" for j
  proof -
    have "Suc (j - 12) \<le> m" using j by (auto simp: smaller_class_def)
    then have "(2 :: nat) ^ Suc (j - 12) \<le> 2 ^ m" by (intro power_increasing) simp_all
    then show ?thesis using m(4) j by (auto simp: room_def smaller_class_def)
  qed
  ultimately show ?thesis using m12 m(3) by (intro exI [of _ "12 + m"]) (simp add: class_ok_def room_def)
next
  case False
  let ?t = "sz + sizeof_slab + sizeof_mblock"
  have t: "unat ?t = unat sz + 56"
    using assms(2) by (simp add: sizeof_slab_def sizeof_mblock_def max_request_def unat_plus_simple [THEN iffD1] add.assoc unat_word_ariths)
  obtain m where m: "m < 64" "unat (fixsize ?t) = 2 ^ m" "unat ?t \<le> 2 ^ m" "2 ^ m < 2 * unat ?t"
    by (rule fixsize_ok [of ?t]) (use assms t in \<open>simp_all add: max_request_def\<close>)
  have "(2 :: nat) ^ 11 < 2 ^ m" using False m(3) t by simp
  then have lo: "11 < m" by (rule power_less_imp_less_exp [rotated]) simp
  have "(2 :: nat) ^ m < 2 ^ 20" using m(4) t assms(2) by (simp add: max_request_def)
  then have hi: "m < 20" by (rule power_less_imp_less_exp [rotated]) simp
  have "m = m - 12 + 12" using lo by simp
  then have "(2 :: nat) ^ m = 2 ^ (m - 12) * 4096" using power_add [of "2 :: nat" "m - 12" 12] by simp
  then have d: "unat (fixsize ?t div PGSIZE) = 2 ^ (m - 12)" using m(2) by (simp add: unat_div PGSIZE_def)
  have "\<not> sz \<le> PGSIZE div 2" using False by (simp add: word_le_nat_alt PGSIZE_def)
  then have "get_used_slab_idx sz = int (m - 12)"
    using bit_steps_pow2 [OF _ d, of 0] lo hi by (simp add: get_used_slab_idx_def user_fixsize_eq)
  moreover have "m - 12 < 8" using lo hi by simp
  moreover from this have "unat sz \<le> room (m - 12)" using m(3) t \<open>2 ^ m = 2 ^ (m - 12) * 4096\<close> hi by (simp add: room_def)
  moreover have "room j < unat sz" if j: "smaller_class j (m - 12)" for j
  proof (cases "j < 8")
    case True
    then have "Suc j \<le> m - 12" using j hi by (auto simp: smaller_class_def split: if_splits)
    then have "(2 :: nat) ^ Suc j \<le> 2 ^ (m - 12)" by (intro power_increasing) simp_all
    then show ?thesis using m(4) t True \<open>2 ^ m = 2 ^ (m - 12) * 4096\<close> False by (simp add: room_def)
  next
    case large: False
    then have "j - 12 \<le> 11" using j hi by (auto simp: smaller_class_def split: if_splits)
    then have "(2 :: nat) ^ (j - 12) \<le> 2 ^ 11" by (intro power_increasing) simp_all
    then show ?thesis using large False by (simp add: room_def)
  qed
  ultimately show ?thesis using hi by (intro exI [of _ "m - 12"]) (simp add: class_ok_def)
qed

subsection \<open>Geometry\<close>

definition blk :: "u64 \<Rightarrow> nat \<Rightarrow> nat \<Rightarrow> u64" where
  "blk s i k = s + of_nat (48 + k * (unit_of i + 8))"

definition blocks_of :: "u64 \<Rightarrow> nat \<Rightarrow> u64 list" where
  "blocks_of s i = map (blk s i) [0 ..< count_of i]"

text \<open>\<open>laid a G e\<close>: the slabs \<open>G\<close>, each with its class, lie one behind the other from \<open>a\<close> to \<open>e\<close>.\<close>

fun laid :: "nat \<Rightarrow> (u64 \<times> nat) list \<Rightarrow> nat \<Rightarrow> bool" where
  "laid a [] e \<longleftrightarrow> a = e"
| "laid a ((s, i) # G) e \<longleftrightarrow> unat s = a \<and> class_ok i \<and> laid (a + pages_of i * 4096) G e"

lemma laid_append: "laid a (G @ G') e \<longleftrightarrow> (\<exists>m. laid a G m \<and> laid m G' e)"
  by (induction G arbitrary: a) auto

lemma laid_le: "laid a G e \<Longrightarrow> a \<le> e"
proof (induction G arbitrary: a)
  case (Cons x G)
  then show ?case by (cases x) fastforce
qed simp

lemma laid_mem: "laid a G e \<Longrightarrow> (s, i) \<in> set G \<Longrightarrow> class_ok i \<and> a \<le> unat s \<and> unat s + pages_of i * 4096 \<le> e"
proof (induction G arbitrary: a)
  case (Cons x G)
  obtain t j where x: "x = (t, j)" by (cases x)
  have l: "laid (a + pages_of j * 4096) G e" "class_ok j" "unat t = a" using Cons.prems(1) x by simp_all
  show ?case
  proof (cases "(s, i) \<in> set G")
    case True
    from Cons.IH [OF l(1) this] show ?thesis by simp
  next
    case False
    then have "s = t" "i = j" using Cons.prems(2) x by simp_all
    then show ?thesis using l laid_le [OF l(1)] by simp
  qed
qed simp

lemma laid_apart:
  "laid a G e \<Longrightarrow> (s, i) \<in> set G \<Longrightarrow> (t, j) \<in> set G \<Longrightarrow> (s, i) \<noteq> (t, j) \<Longrightarrow>
     unat s + pages_of i * 4096 \<le> unat t \<or> unat t + pages_of j * 4096 \<le> unat s"
proof (induction G arbitrary: a)
  case (Cons x G)
  obtain r l where x: "x = (r, l)" by (cases x)
  have L: "laid (a + pages_of l * 4096) G e" "unat r = a" using Cons.prems(1) x by simp_all
  consider "(s, i) = x" "(t, j) \<in> set G" | "(t, j) = x" "(s, i) \<in> set G" | "(s, i) \<in> set G" "(t, j) \<in> set G"
    using Cons.prems(2-4) x by auto
  then show ?case
  proof cases
    case 1
    then show ?thesis using laid_mem [OF L(1), of t j] L(2) x by auto
  next
    case 2
    then show ?thesis using laid_mem [OF L(1), of s i] L(2) x by auto
  next
    case 3
    then show ?thesis using Cons.IH [OF L(1)] Cons.prems(4) by blast
  qed
qed simp

lemma laid_class: "laid a G e \<Longrightarrow> (s, i) \<in> set G \<Longrightarrow> (s, j) \<in> set G \<Longrightarrow> i = j"
  using laid_apart [of a G e s i s j] class_facts(8) laid_mem [of a G e s i] laid_mem [of a G e s j] by fastforce

lemma unat_blk:
  assumes "class_ok i" "k < count_of i" "unat s + pages_of i * 4096 \<le> 2 ^ 63"
  shows "unat (blk s i k) = unat s + 48 + k * (unit_of i + 8)" "unat (blk s i k) + 8 + room i \<le> unat s + pages_of i * 4096"
proof -
  note c = class_facts(12) [OF assms(1,2)]
  have "48 + k * (unit_of i + 8) < 2 ^ 64" "unat s + (48 + k * (unit_of i + 8)) < 2 ^ 64" using c assms(3) by simp_all
  then have "unat (blk s i k) = unat s + (48 + k * (unit_of i + 8))"
    unfolding blk_def by (simp add: unat_word_ariths unsigned_of_nat take_bit_nat_eq_self del: of_nat_add of_nat_mult)
  then show "unat (blk s i k) = unat s + 48 + k * (unit_of i + 8)" by simp
  then show "unat (blk s i k) + 8 + room i \<le> unat s + pages_of i * 4096" using c by simp
qed

lemma blocks_apart:
  assumes G: "laid a G e" "e \<le> 2 ^ 63" and b: "(s, i) \<in> set G" "k < count_of i" and c: "(t, j) \<in> set G" "l < count_of j"
    and ne: "(s, k) \<noteq> (t, l)"
  shows "unat (blk s i k) + 8 + room i \<le> unat (blk t j l) \<or> unat (blk t j l) + 8 + room j \<le> unat (blk s i k)"
proof -
  have B: "class_ok i" "unat s + pages_of i * 4096 \<le> 2 ^ 63" "class_ok j" "unat t + pages_of j * 4096 \<le> 2 ^ 63"
    using laid_mem [OF G(1) b(1)] laid_mem [OF G(1) c(1)] G(2) by auto
  note ub = unat_blk [OF B(1) b(2) B(2)] and uc = unat_blk [OF B(3) c(2) B(4)]
  show ?thesis
  proof (cases "s = t")
    case True
    then have ij: "i = j" using laid_class [OF G(1)] b(1) c(1) by blast
    have r: "room i \<le> unit_of i" by (rule class_facts(11) [OF B(1)])
    consider "k < l" | "l < k" using ne True by force
    then show ?thesis
    proof cases
      case 1
      then have "Suc k * (unit_of i + 8) \<le> l * (unit_of i + 8)" by (intro mult_right_mono) auto
      then show ?thesis using ub(1) uc(1) r True ij by simp
    next
      case 2
      then have "Suc l * (unit_of i + 8) \<le> k * (unit_of i + 8)" by (intro mult_right_mono) auto
      then show ?thesis using ub(1) uc(1) r True ij by simp
    qed
  next
    case False
    then show ?thesis using laid_apart [OF G(1) b(1) c(1)] ub uc by auto
  qed
qed

lemma blocks_inj:
  assumes G: "laid a G e" "e \<le> 2 ^ 63" and b: "(s, i) \<in> set G" "b \<in> set (blocks_of s i)" and c: "(t, j) \<in> set G" "b \<in> set (blocks_of t j)"
  shows "s = t \<and> i = j"
proof -
  obtain k l where k: "k < count_of i" "b = blk s i k" and l: "l < count_of j" "b = blk t j l"
    using b(2) c(2) by (auto simp: blocks_of_def)
  have "s = t" using blocks_apart [OF G b(1) k(1) c(1) l(1)] k(2) l(2) by auto
  then show ?thesis using laid_class [OF G(1)] b(1) c(1) by blast
qed

lemma blocks_distinct:
  assumes "class_ok i" "unat s + pages_of i * 4096 \<le> 2 ^ 63"
  shows "distinct (blocks_of s i)" "0 < unat s \<Longrightarrow> 0 \<notin> set (blocks_of s i)"
proof -
  have "inj_on (blk s i) {0 ..< count_of i}"
  proof (rule inj_onI)
    fix k l assume "k \<in> {0 ..< count_of i}" "l \<in> {0 ..< count_of i}" "blk s i k = blk s i l"
    then have "k * (unit_of i + 8) = l * (unit_of i + 8)" using unat_blk(1) [OF assms(1) _ assms(2)] by (metis add_left_imp_eq atLeastLessThan_iff)
    then show "k = l" by simp
  qed
  then show "distinct (blocks_of s i)" by (simp add: blocks_of_def distinct_map)
  show "0 < unat s \<Longrightarrow> 0 \<notin> set (blocks_of s i)"
  proof
    assume "0 < unat s" "0 \<in> set (blocks_of s i)"
    then obtain k where "k < count_of i" "blk s i k = 0" by (auto simp: blocks_of_def)
    then show False using unat_blk(1) [OF assms(1) _ assms(2)] \<open>0 < unat s\<close> by (metis add_is_0 less_nat_zero_code unat_0)
  qed
qed

end
