(* ===== verification/Malloc_Ops.thy ===== *)
theory Malloc_Ops
  imports Malloc_Inv
begin

unbundle bit_operations_syntax

text \<open>
  The operations of the user heap keep its invariant. The ghost state holds what the memory represents: the slabs in the order of
  their creation, the free list of every slab, and the two lists of slabs of every class.
\<close>

subsection \<open>The invariant\<close>

record ghost =
  g_slabs :: "(u64 \<times> nat) list"
  g_free :: "u64 \<Rightarrow> u64 list"
  g_avail :: "nat \<Rightarrow> u64 list"
  g_used :: "nat \<Rightarrow> u64 list"

definition slab_ok :: "uheap \<Rightarrow> u64 list \<Rightarrow> u64 \<Rightarrow> nat \<Rightarrow> bool" where
  "slab_ok h fs s i \<longleftrightarrow> s_unit_size (slab_at h s) = of_nat (unit_of i) \<and> chain (block_at h) (s_bfreelist (slab_at h s)) fs \<and>
     set fs \<subseteq> set (blocks_of s i) \<and> unat (s_unit_count (slab_at h s)) \<le> length fs \<and>
     (\<forall>b \<in> set (blocks_of s i) - set fs. block_at h b = s)"

definition lists_ok :: "uheap \<Rightarrow> ghost \<Rightarrow> nat \<Rightarrow> bool" where
  "lists_ok h g i \<longleftrightarrow>
     slab_list (slab_at h) (avail_slab h ! i) (g_avail g i) \<and> slab_list (slab_at h) (used_slab h ! i) (g_used g i) \<and>
     set (g_avail g i) = {s. (s, i) \<in> set (g_slabs g) \<and> s_unit_count (slab_at h s) \<noteq> 0} \<and>
     set (g_used g i) = {s. (s, i) \<in> set (g_slabs g) \<and> s_unit_count (slab_at h s) = 0}"

definition is_mapped :: "uheap \<Rightarrow> nat \<Rightarrow> bool" where
  "is_mapped h x \<longleftrightarrow> (\<exists>(m, n) \<in> set (mapped h). unat m \<le> x \<and> x < unat m + unat n)"

definition region_ok :: "uheap \<Rightarrow> bool" where
  "region_ok h \<longleftrightarrow> (\<forall>a n. mmap_ans h a n = a) \<and> 0 < unat (heap_start h) \<and> 0 < unat (heap_size h) \<and>
     unat (ufree_start h) \<le> unat (heap_start h) + unat (heap_size h) \<and>
     (\<forall>x. unat (heap_start h) \<le> x \<and> x < unat (heap_start h) + unat (heap_size h) \<longrightarrow> is_mapped h x)"

text \<open>The end of the heap is below \<open>USER_END\<close>.\<close>

definition fits :: "uheap \<Rightarrow> bool" where "fits h \<longleftrightarrow> unat (heap_start h) + unat (heap_size h) \<le> 2 ^ 38"

definition heap_wf :: "uheap \<Rightarrow> ghost \<Rightarrow> bool" where
  "heap_wf h g \<longleftrightarrow> length (avail_slab h) = 24 \<and> length (used_slab h) = 24 \<and> region_ok h \<and> fits h \<and>
     laid (unat (heap_start h)) (g_slabs g) (unat (ufree_start h)) \<and>
     (\<forall>(s, i) \<in> set (g_slabs g). slab_ok h (g_free g s) s i) \<and> (\<forall>i. class_ok i \<longrightarrow> lists_ok h g i)"

lemma heap_wfD:
  assumes "heap_wf h g"
  shows "length (avail_slab h) = 24" "length (used_slab h) = 24" "region_ok h" "fits h"
    "laid (unat (heap_start h)) (g_slabs g) (unat (ufree_start h))" "\<And>s i. (s, i) \<in> set (g_slabs g) \<Longrightarrow> slab_ok h (g_free g s) s i"
    "\<And>i. class_ok i \<Longrightarrow> lists_ok h g i" "unat (ufree_start h) \<le> 2 ^ 63"
  using assms by (auto simp: heap_wf_def region_ok_def fits_def)

lemma slab_bounds:
  assumes "heap_wf h g" "(s, i) \<in> set (g_slabs g)"
  shows "class_ok i" "0 < unat s" "unat s + pages_of i * 4096 \<le> 2 ^ 63"
  using laid_mem [OF heap_wfD(5) [OF assms(1)] assms(2)] heap_wfD(3,8) [OF assms(1)] by (auto simp: region_ok_def)

lemma slab_ok_cong:
  assumes "same_content (slab_at h s) (slab_at h' s)" "\<And>b. b \<in> set (blocks_of s i) \<Longrightarrow> block_at h' b = block_at h b"
  shows "slab_ok h' fs s i = slab_ok h fs s i"
proof -
  have "chain (block_at h') p fs = chain (block_at h) p fs" if "set fs \<subseteq> set (blocks_of s i)" for p
    by (rule chain_cong) (use assms(2) that in auto)
  then show ?thesis using assms by (auto simp: slab_ok_def same_content_def)
qed

subsection \<open>Growing\<close>

lemma inflate_until_ok:
  assumes "region_ok h" "unat e \<le> 2 ^ 37" "unat (heap_start h) + unat (heap_size h) \<le> 2 ^ 38"
  shows "\<exists>h'. inflate_until e h = Some h' \<and> h' = h\<lparr>heap_size := heap_size h', mapped := mapped h'\<rparr> \<and> region_ok h' \<and>
    unat e \<le> unat (heap_start h') + unat (heap_size h') \<and> unat (heap_start h') + unat (heap_size h') \<le> 2 ^ 38"
  using assms
proof (induction "unat e - (unat (heap_start h) + unat (heap_size h))" arbitrary: h rule: less_induct)
  case less
  have r: "\<forall>a n. mmap_ans h a n = a" "0 < unat (heap_start h)" "0 < unat (heap_size h)"
    "unat (ufree_start h) \<le> unat (heap_start h) + unat (heap_size h)"
    "\<And>x. unat (heap_start h) \<le> x \<Longrightarrow> x < unat (heap_start h) + unat (heap_size h) \<Longrightarrow> is_mapped h x"
    using less.prems(1) by (simp_all add: region_ok_def)
  have u: "unat (heap_start h + heap_size h) = unat (heap_start h) + unat (heap_size h)"
    using less.prems(3) by (intro unat_add_lem [THEN iffD1]) simp
  show ?case
  proof (cases "heap_start h + heap_size h < e")
    case False
    then have "inflate_until e h = Some h" by (subst inflate_until.simps) simp
    then show ?thesis using False less.prems(1,3) u by (intro exI [of _ h]) (simp add: word_less_nat_alt)
  next
    case True
    then have lt: "unat (heap_start h) + unat (heap_size h) < unat e" using u by (simp add: word_less_nat_alt)
    define h1 where "h1 = h\<lparr>mapped := mapped h @ [(heap_start h + heap_size h, heap_size h)], heap_size := heap_size h * 2\<rparr>"
    have d: "unat (heap_size h * 2) = unat (heap_size h) * 2"
      using lt less.prems(2) by (simp add: unat_word_ariths)
    have "heap_start h + heap_size h \<noteq> - 1"
    proof
      assume "heap_start h + heap_size h = - 1"
      then have "unat (heap_start h + heap_size h) = 2 ^ 64 - 1" by (simp add: unsigned_minus_1_eq_mask mask_eq_exp_minus_1)
      then show False using u less.prems(3) by simp
    qed
    then have inf: "snd (heap_inflate h) = h1" by (simp add: heap_inflate_def user_mmap_def r(1) h1_def Let_def)
    have ok1: "region_ok h1" unfolding region_ok_def
    proof (intro conjI allI impI)
      fix x assume x: "unat (heap_start h1) \<le> x \<and> x < unat (heap_start h1) + unat (heap_size h1)"
      show "is_mapped h1 x"
      proof (cases "x < unat (heap_start h) + unat (heap_size h)")
        case True
        then have "is_mapped h x" using x r(5) by (simp add: h1_def)
        then show ?thesis by (auto simp: is_mapped_def h1_def)
      next
        case False
        then have "unat (heap_start h + heap_size h) \<le> x" "x < unat (heap_start h + heap_size h) + unat (heap_size h)"
          using x u d by (simp_all add: h1_def)
        then show ?thesis by (auto simp: is_mapped_def h1_def)
      qed
    qed (use r d in \<open>simp_all add: h1_def\<close>)
    have "\<exists>h'. inflate_until e h1 = Some h' \<and> h' = h1\<lparr>heap_size := heap_size h', mapped := mapped h'\<rparr> \<and> region_ok h' \<and>
      unat e \<le> unat (heap_start h') + unat (heap_size h') \<and> unat (heap_start h') + unat (heap_size h') \<le> 2 ^ 38"
      by (rule less.hyps [OF _ ok1 less.prems(2)]) (use lt d r(3) less.prems(2) in \<open>simp_all add: h1_def\<close>)
    then obtain h' where h': "inflate_until e h1 = Some h'" "h' = h1\<lparr>heap_size := heap_size h', mapped := mapped h'\<rparr>" "region_ok h'"
      "unat e \<le> unat (heap_start h') + unat (heap_size h')" "unat (heap_start h') + unat (heap_size h') \<le> 2 ^ 38" by blast
    have "inflate_until e h = Some h'" using True h'(1) by (subst inflate_until.simps) (simp add: inf)
    moreover have "h' = h\<lparr>heap_size := heap_size h', mapped := mapped h'\<rparr>" using h'(2) by (simp add: h1_def)
    ultimately show ?thesis using h'(3-5) by blast
  qed
qed

subsection \<open>Moving a slab between the lists of its class\<close>

lemma to_used_ok:
  assumes len: "length (avail_slab h) = 24" "length (used_slab h) = 24" "i < 24"
    and av: "slab_list (slab_at h) (avail_slab h ! i) (xs @ s # ys)" and us: "slab_list (slab_at h) (used_slab h ! i) zs"
    and dis: "set (xs @ s # ys) \<inter> set zs = {}"
  shows "\<exists>h'. to_used i s h = Some h' \<and>
    h' = h\<lparr>slab_at := slab_at h', avail_slab := (avail_slab h)[i := hd0 0 (xs @ ys)], used_slab := (used_slab h)[i := s]\<rparr> \<and>
    (\<forall>a. same_content (slab_at h a) (slab_at h' a)) \<and> slab_list (slab_at h') (hd0 0 (xs @ ys)) (xs @ ys) \<and> slab_list (slab_at h') s (s # zs) \<and>
    (\<forall>us r. set us \<inter> (set (xs @ s # ys) \<union> set zs) = {} \<longrightarrow> 0 \<notin> set us \<longrightarrow> slab_list (slab_at h') r us = slab_list (slab_at h) r us)"
proof -
  have L: "avail_slab h ! i = hd0 0 (xs @ s # ys)" "distinct (xs @ s # ys)" "dlink (links (slab_at h)) 0 (xs @ s # ys) 0"
    using av by (simp_all add: slab_list_def list_ok_def)
  have sn: "s_next (slab_at h s) = hd0 0 ys" using L(3) by (simp add: dlink_append)
  define h1 where "h1 = h\<lparr>avail_slab := (avail_slab h)[i := hd0 0 (xs @ ys)]\<rparr>"
  have e1: "(if s = avail_slab h ! i then h\<lparr>avail_slab := (avail_slab h)[i := s_next (slab_at h s)]\<rparr> else h) = h1"
    using L(1,2) sn len by (cases xs) (auto simp: h1_def list_update_same_conv)
  have s1: "slab_at h1 = slab_at h" "used_slab h1 = used_slab h" by (simp_all add: h1_def)
  note M = move_slab [of h1, unfolded s1, OF av us dis]
  define h2 where "h2 = push_slab s (used_slab h ! i) (unlink_slab s h1)"
  have t: "to_used i s h = Some (h2\<lparr>used_slab := (used_slab h2)[i := s]\<rparr>)"
    using len by (simp add: to_used_def e1 s1 h2_def Let_def)
  have h2: "h2 = h1\<lparr>slab_at := slab_at h2\<rparr>" unfolding h2_def by (rule M(1))
  have f2: "used_slab h2 = used_slab h" "avail_slab h2 = (avail_slab h)[i := hd0 0 (xs @ ys)]"
    using arg_cong [OF h2, of used_slab] arg_cong [OF h2, of avail_slab] by (simp_all add: h1_def)
  let ?h' = "h2\<lparr>used_slab := (used_slab h2)[i := s]\<rparr>"
  have "?h' = h\<lparr>slab_at := slab_at ?h', avail_slab := (avail_slab h)[i := hd0 0 (xs @ ys)], used_slab := (used_slab h)[i := s]\<rparr>"
    unfolding f2(1) by (subst h2) (simp add: h1_def)
  then show ?thesis using t M(2-5) [folded h2_def] by (intro exI [of _ ?h']) (simp add: f2)
qed

lemma to_avail_ok:
  assumes len: "length (used_slab h) = 24" "length (avail_slab h) = 24" "i < 24"
    and av: "slab_list (slab_at h) (used_slab h ! i) (xs @ s # ys)" and us: "slab_list (slab_at h) (avail_slab h ! i) zs"
    and dis: "set (xs @ s # ys) \<inter> set zs = {}"
  shows "\<exists>h'. to_avail i s h = Some h' \<and>
    h' = h\<lparr>slab_at := slab_at h', used_slab := (used_slab h)[i := hd0 0 (xs @ ys)], avail_slab := (avail_slab h)[i := s]\<rparr> \<and>
    (\<forall>a. same_content (slab_at h a) (slab_at h' a)) \<and> slab_list (slab_at h') (hd0 0 (xs @ ys)) (xs @ ys) \<and> slab_list (slab_at h') s (s # zs) \<and>
    (\<forall>us r. set us \<inter> (set (xs @ s # ys) \<union> set zs) = {} \<longrightarrow> 0 \<notin> set us \<longrightarrow> slab_list (slab_at h') r us = slab_list (slab_at h) r us)"
proof -
  have L: "used_slab h ! i = hd0 0 (xs @ s # ys)" "distinct (xs @ s # ys)" "dlink (links (slab_at h)) 0 (xs @ s # ys) 0"
    using av by (simp_all add: slab_list_def list_ok_def)
  have sn: "s_next (slab_at h s) = hd0 0 ys" using L(3) by (simp add: dlink_append)
  define h1 where "h1 = h\<lparr>used_slab := (used_slab h)[i := hd0 0 (xs @ ys)]\<rparr>"
  have e1: "(if s = used_slab h ! i then h\<lparr>used_slab := (used_slab h)[i := s_next (slab_at h s)]\<rparr> else h) = h1"
    using L(1,2) sn len by (cases xs) (auto simp: h1_def list_update_same_conv)
  have s1: "slab_at h1 = slab_at h" "avail_slab h1 = avail_slab h" by (simp_all add: h1_def)
  note M = move_slab [of h1, unfolded s1, OF av us dis]
  define h2 where "h2 = push_slab s (avail_slab h ! i) (unlink_slab s h1)"
  have t: "to_avail i s h = Some (h2\<lparr>avail_slab := (avail_slab h2)[i := s]\<rparr>)"
    using len by (simp add: to_avail_def e1 s1 h2_def Let_def)
  have h2: "h2 = h1\<lparr>slab_at := slab_at h2\<rparr>" unfolding h2_def by (rule M(1))
  have f2: "avail_slab h2 = avail_slab h" "used_slab h2 = (used_slab h)[i := hd0 0 (xs @ ys)]"
    using arg_cong [OF h2, of avail_slab] arg_cong [OF h2, of used_slab] by (simp_all add: h1_def)
  let ?h' = "h2\<lparr>avail_slab := (avail_slab h2)[i := s]\<rparr>"
  have "?h' = h\<lparr>slab_at := slab_at ?h', used_slab := (used_slab h)[i := hd0 0 (xs @ ys)], avail_slab := (avail_slab h)[i := s]\<rparr>"
    unfolding f2(1) by (subst h2) (simp add: h1_def)
  then show ?thesis using t M(2-5) [folded h2_def] by (intro exI [of _ ?h']) (simp add: f2)
qed

text \<open>The invariant without the two lists of one class.\<close>

definition heap_pre :: "uheap \<Rightarrow> ghost \<Rightarrow> nat \<Rightarrow> bool" where
  "heap_pre h g i \<longleftrightarrow> length (avail_slab h) = 24 \<and> length (used_slab h) = 24 \<and> region_ok h \<and> fits h \<and>
     laid (unat (heap_start h)) (g_slabs g) (unat (ufree_start h)) \<and>
     (\<forall>(s, i) \<in> set (g_slabs g). slab_ok h (g_free g s) s i) \<and> (\<forall>j. class_ok j \<and> j \<noteq> i \<longrightarrow> lists_ok h g j)"

lemma heap_wf_pre: "class_ok i \<Longrightarrow> heap_wf h g \<longleftrightarrow> heap_pre h g i \<and> lists_ok h g i"
  by (auto simp: heap_wf_def heap_pre_def)

lemma heap_pre_slab:
  assumes "heap_pre h g i" "(s, j) \<in> set (g_slabs g)"
  shows "class_ok j" "0 < unat s" "unat s + pages_of j * 4096 \<le> 2 ^ 63" "(s, k) \<in> set (g_slabs g) \<Longrightarrow> k = j"
proof -
  have l: "laid (unat (heap_start h)) (g_slabs g) (unat (ufree_start h))" and r: "region_ok h" "fits h"
    using assms(1) by (simp_all add: heap_pre_def)
  show "class_ok j" "0 < unat s" "unat s + pages_of j * 4096 \<le> 2 ^ 63"
    using laid_mem [OF l assms(2)] r by (auto simp: region_ok_def fits_def)
  show "(s, k) \<in> set (g_slabs g) \<Longrightarrow> k = j" using laid_class [OF l] assms(2) by blast
qed

lemma heap_pre_frame:
  assumes pre: "heap_pre h g i"
    and h': "h' = h\<lparr>slab_at := slab_at h', avail_slab := (avail_slab h)[i := x], used_slab := (used_slab h)[i := y]\<rparr>"
    and c: "\<forall>a. same_content (slab_at h a) (slab_at h' a)"
    and l: "\<forall>us r. set us \<inter> N = {} \<longrightarrow> 0 \<notin> set us \<longrightarrow> slab_list (slab_at h') r us = slab_list (slab_at h) r us"
    and N: "N \<subseteq> {t. (t, i) \<in> set (g_slabs g)}"
  shows "heap_pre h' (g\<lparr>g_avail := (g_avail g)(i := xs), g_used := (g_used g)(i := zs)\<rparr>) i"
proof -
  have f: "avail_slab h' = (avail_slab h)[i := x]" "used_slab h' = (used_slab h)[i := y]" "heap_start h' = heap_start h"
    "heap_size h' = heap_size h" "ufree_start h' = ufree_start h" "mapped h' = mapped h" "mmap_ans h' = mmap_ans h" "block_at h' = block_at h"
    by (subst h', simp)+
  have P: "length (avail_slab h) = 24" "length (used_slab h) = 24" "region_ok h" "fits h"
    "laid (unat (heap_start h)) (g_slabs g) (unat (ufree_start h))" "\<forall>(s, i) \<in> set (g_slabs g). slab_ok h (g_free g s) s i"
    "\<And>j. class_ok j \<Longrightarrow> j \<noteq> i \<Longrightarrow> lists_ok h g j" using pre by (auto simp: heap_pre_def)
  have sk: "slab_ok h' fs s j = slab_ok h fs s j" for fs s j by (rule slab_ok_cong) (use c f(8) in auto)
  have lk: "lists_ok h' (g\<lparr>g_avail := (g_avail g)(i := xs), g_used := (g_used g)(i := zs)\<rparr>) j" if j: "class_ok j" "j \<noteq> i" for j
  proof -
    have L: "slab_list (slab_at h) (avail_slab h ! j) (g_avail g j)" "slab_list (slab_at h) (used_slab h ! j) (g_used g j)"
      "set (g_avail g j) = {s. (s, j) \<in> set (g_slabs g) \<and> s_unit_count (slab_at h s) \<noteq> 0}"
      "set (g_used g j) = {s. (s, j) \<in> set (g_slabs g) \<and> s_unit_count (slab_at h s) = 0}"
      using P(7) [OF j] by (simp_all add: lists_ok_def)
    have "set (g_avail g j) \<inter> N = {}" "set (g_used g j) \<inter> N = {}"
      using L(3,4) N heap_pre_slab(4) [OF pre] j(2) by blast+
    moreover have "0 \<notin> set (g_avail g j)" "0 \<notin> set (g_used g j)" using L(3,4) heap_pre_slab(2) [OF pre, of 0 j] by auto
    moreover have "s_unit_count (slab_at h' s) = s_unit_count (slab_at h s)" for s using c by (simp add: same_content_def)
    ultimately show ?thesis using L l j(2) by (simp add: lists_ok_def f)
  qed
  show ?thesis using P(1-6) lk by (simp add: heap_pre_def f sk region_ok_def fits_def is_mapped_def)
qed

lemma to_used_wf:
  assumes pre: "heap_pre h g i" and i: "class_ok i"
    and av: "slab_list (slab_at h) (avail_slab h ! i) (xs @ s # ys)" and us: "slab_list (slab_at h) (used_slab h ! i) zs" and s: "s \<notin> set zs"
    and sets: "set (xs @ ys) = {t. (t, i) \<in> set (g_slabs g) \<and> s_unit_count (slab_at h t) \<noteq> 0}"
      "set (s # zs) = {t. (t, i) \<in> set (g_slabs g) \<and> s_unit_count (slab_at h t) = 0}"
  shows "\<exists>h'. to_used i s h = Some h' \<and> heap_wf h' (g\<lparr>g_avail := (g_avail g)(i := xs @ ys), g_used := (g_used g)(i := s # zs)\<rparr>)"
proof -
  have len: "length (avail_slab h) = 24" "length (used_slab h) = 24" using pre by (simp_all add: heap_pre_def)
  have i24: "i < 24" by (rule class_facts(10) [OF i])
  have dis: "set (xs @ s # ys) \<inter> set zs = {}" using sets s by auto
  have N: "set (xs @ s # ys) \<union> set zs \<subseteq> {t. (t, i) \<in> set (g_slabs g)}" using sets by auto
  obtain h' where h': "to_used i s h = Some h'"
    "h' = h\<lparr>slab_at := slab_at h', avail_slab := (avail_slab h)[i := hd0 0 (xs @ ys)], used_slab := (used_slab h)[i := s]\<rparr>"
    "\<forall>a. same_content (slab_at h a) (slab_at h' a)" "slab_list (slab_at h') (hd0 0 (xs @ ys)) (xs @ ys)" "slab_list (slab_at h') s (s # zs)"
    "\<forall>us r. set us \<inter> (set (xs @ s # ys) \<union> set zs) = {} \<longrightarrow> 0 \<notin> set us \<longrightarrow> slab_list (slab_at h') r us = slab_list (slab_at h) r us"
    using to_used_ok [OF len i24 av us dis] by blast
  let ?g = "g\<lparr>g_avail := (g_avail g)(i := xs @ ys), g_used := (g_used g)(i := s # zs)\<rparr>"
  have e: "h' = h\<lparr>slab_at := slab_at h', avail_slab := (avail_slab h)[i := hd0 0 (xs @ ys)], used_slab := (used_slab h)[i := s]\<rparr>"
    using h'(2) by simp
  have "heap_pre h' ?g i"
    by (rule heap_pre_frame [OF pre e h'(3,6) N])
  moreover have "s_unit_count (slab_at h' t) = s_unit_count (slab_at h t)" for t using h'(3) by (simp add: same_content_def)
  then have "lists_ok h' ?g i"
    using h'(4,5) sets len i24 arg_cong [OF h'(2), of avail_slab] arg_cong [OF h'(2), of used_slab] by (simp add: lists_ok_def)
  ultimately show ?thesis using h'(1) heap_wf_pre [OF i] by blast
qed

lemma to_avail_wf:
  assumes pre: "heap_pre h g i" and i: "class_ok i"
    and av: "slab_list (slab_at h) (used_slab h ! i) (xs @ s # ys)" and us: "slab_list (slab_at h) (avail_slab h ! i) zs" and s: "s \<notin> set zs"
    and sets: "set (xs @ ys) = {t. (t, i) \<in> set (g_slabs g) \<and> s_unit_count (slab_at h t) = 0}"
      "set (s # zs) = {t. (t, i) \<in> set (g_slabs g) \<and> s_unit_count (slab_at h t) \<noteq> 0}"
  shows "\<exists>h'. to_avail i s h = Some h' \<and> heap_wf h' (g\<lparr>g_avail := (g_avail g)(i := s # zs), g_used := (g_used g)(i := xs @ ys)\<rparr>)"
proof -
  have len: "length (avail_slab h) = 24" "length (used_slab h) = 24" using pre by (simp_all add: heap_pre_def)
  have i24: "i < 24" by (rule class_facts(10) [OF i])
  have dis: "set (xs @ s # ys) \<inter> set zs = {}" using sets s by auto
  have N: "set (xs @ s # ys) \<union> set zs \<subseteq> {t. (t, i) \<in> set (g_slabs g)}" using sets by auto
  obtain h' where h': "to_avail i s h = Some h'"
    "h' = h\<lparr>slab_at := slab_at h', used_slab := (used_slab h)[i := hd0 0 (xs @ ys)], avail_slab := (avail_slab h)[i := s]\<rparr>"
    "\<forall>a. same_content (slab_at h a) (slab_at h' a)" "slab_list (slab_at h') (hd0 0 (xs @ ys)) (xs @ ys)" "slab_list (slab_at h') s (s # zs)"
    "\<forall>us r. set us \<inter> (set (xs @ s # ys) \<union> set zs) = {} \<longrightarrow> 0 \<notin> set us \<longrightarrow> slab_list (slab_at h') r us = slab_list (slab_at h) r us"
    using to_avail_ok [OF len(2,1) i24 av us dis] by blast
  let ?g = "g\<lparr>g_avail := (g_avail g)(i := s # zs), g_used := (g_used g)(i := xs @ ys)\<rparr>"
  have e: "h' = h\<lparr>slab_at := slab_at h', avail_slab := (avail_slab h)[i := s], used_slab := (used_slab h)[i := hd0 0 (xs @ ys)]\<rparr>"
    by (rule trans [OF h'(2)]) simp
  have "heap_pre h' ?g i"
    by (rule heap_pre_frame [OF pre e h'(3,6) N])
  moreover have "s_unit_count (slab_at h' t) = s_unit_count (slab_at h t)" for t using h'(3) by (simp add: same_content_def)
  then have "lists_ok h' ?g i"
    using h'(4,5) sets len i24 arg_cong [OF h'(2), of avail_slab] arg_cong [OF h'(2), of used_slab] by (simp add: lists_ok_def)
  ultimately show ?thesis using h'(1) heap_wf_pre [OF i] by blast
qed

end
