(* ===== verification/Malloc_Steps.thy ===== *)
theory Malloc_Steps
  imports Malloc_Ops
begin

unbundle bit_operations_syntax

text \<open>
  Allocation and release on a well formed user heap. What they do to the ghost state is the allocator's abstract behaviour: the set of
  live blocks gains a block that was not live, or loses one.
\<close>

subsection \<open>A new slab\<close>

lemma blk_Suc: "blk s i k + of_nat (unit_of i) + sizeof_mblock = blk s i (Suc k)"
  by (simp add: blk_def sizeof_mblock_def algebra_simps)

lemma link_blocks_ok:
  assumes "class_ok i" "k + n < count_of i" "unat s + pages_of i * 4096 \<le> 2 ^ 63" "0 < unat s"
    and h': "h' = link_blocks n (blk s i k) (of_nat (unit_of i)) h"
  shows "h' = h\<lparr>block_at := block_at h'\<rparr> \<and> chain (block_at h') (blk s i k) (map (blk s i) [k ..< k + Suc n]) \<and>
    (\<forall>a. a \<notin> set (map (blk s i) [k ..< k + Suc n]) \<longrightarrow> block_at h' a = block_at h a)"
  using assms(2) unfolding h'
proof (induction n arbitrary: k h)
  case 0
  then have "blk s i k \<noteq> 0" using unat_blk(1) [OF assms(1) _ assms(3), of k] assms(4) by (metis add_is_0 add_0_right less_numeral_extra(3) unat_0)
  then show ?case by (simp add: set_block_def fun_upd_def)
next
  case (Suc n)
  let ?b = "blk s i k" and ?r = "map (blk s i) [Suc k ..< Suc k + Suc n]"
  let ?h = "link_blocks n (blk s i (Suc k)) (of_nat (unit_of i)) (set_block ?b (blk s i (Suc k)) h)"
  have lt: "k < count_of i" "Suc k + n < count_of i" using Suc.prems by simp_all
  have nz: "?b \<noteq> 0" using unat_blk(1) [OF assms(1) lt(1) assms(3)] assms(4) by (metis add_is_0 less_numeral_extra(3) unat_0)
  have e: "link_blocks (Suc n) ?b (of_nat (unit_of i)) h = ?h" by (simp add: Let_def blk_Suc)
  have u: "map (blk s i) [k ..< k + Suc (Suc n)] = ?b # ?r" by (subst upt_conv_Cons) simp_all
  have nb: "?b \<notin> set ?r"
  proof
    assume "?b \<in> set ?r"
    then obtain l where l: "?b = blk s i l" "Suc k \<le> l" "l < Suc k + Suc n" by auto
    then have "k * (unit_of i + 8) = l * (unit_of i + 8)"
      using unat_blk(1) [OF assms(1) lt(1) assms(3)] unat_blk(1) [OF assms(1) _ assms(3), of l] Suc.prems by simp
    then show False using l(2) by simp
  qed
  have ih: "?h = (set_block ?b (blk s i (Suc k)) h)\<lparr>block_at := block_at ?h\<rparr>" "chain (block_at ?h) (blk s i (Suc k)) ?r"
    "\<And>a. a \<notin> set ?r \<Longrightarrow> block_at ?h a = block_at (set_block ?b (blk s i (Suc k)) h) a"
    using Suc.IH [OF lt(2)] by blast+
  have "?h = h\<lparr>block_at := block_at ?h\<rparr>" by (rule trans [OF ih(1)]) (simp add: set_block_def)
  moreover have "block_at ?h ?b = blk s i (Suc k)" using ih(3) [OF nb] by (simp add: set_block_def)
  moreover have "block_at ?h a = block_at h a" if "a \<notin> set (?b # ?r)" for a using that ih(3) [of a] by (simp add: set_block_def)
  ultimately show ?case unfolding u e using ih(2) nz by simp
qed

text \<open>A heap that grows keeps its slabs.\<close>

lemma alloc_slab_ok:
  assumes wf: "heap_wf h g" and i: "class_ok i" and none: "g_avail g i = []" and top37: "unat (ufree_start h) + pages_of i * 4096 \<le> 2 ^ 37"
  defines "s \<equiv> ufree_start h"
  shows "\<exists>h'. alloc_slab i h = Some (s, h') \<and> ufree_start h' = s + of_nat (pages_of i) * PGSIZE \<and> avail_slab h' ! i = s \<and> length (avail_slab h') = 24 \<and>
    s_unit_count (slab_at h' s) = of_nat (count_of i) \<and> (s, i) \<notin> set (g_slabs g) \<and>
    heap_wf h' (g\<lparr>g_slabs := g_slabs g @ [(s, i)], g_free := (g_free g)(s := blocks_of s i), g_avail := (g_avail g)(i := [s])\<rparr>)"
proof -
  note W = heap_wfD [OF wf] and C = class_facts [OF i]
  have r: "0 < unat (heap_start h)" "unat s \<le> unat (heap_start h) + unat (heap_size h)" "unat (heap_start h) + unat (heap_size h) \<le> 2 ^ 38"
    using W(3,4) by (simp_all add: region_ok_def fits_def s_def)
  have hs: "unat (heap_start h) \<le> unat s" using laid_le [OF W(5)] by (simp add: s_def)
  have "0 < unat s" using hs r(1) by linarith
  then have s0: "0 < unat s" "s \<noteq> 0" by (simp, metis less_irrefl unat_0)
  let ?pg = "of_nat (pages_of i) * PGSIZE :: u64"
  have pg: "unat ?pg = pages_of i * 4096" using C(7) by (simp add: unat_word_ariths PGSIZE_def unsigned_of_nat take_bit_nat_eq_self)
  have e: "unat (s + ?pg) = unat s + pages_of i * 4096" using pg r C(7) by (simp add: unat_word_ariths)
  obtain h1 where h1: "inflate_until (s + ?pg) h = Some h1" "h1 = h\<lparr>heap_size := heap_size h1, mapped := mapped h1\<rparr>" "region_ok h1"
    "unat (s + ?pg) \<le> unat (heap_start h1) + unat (heap_size h1)" "unat (heap_start h1) + unat (heap_size h1) \<le> 2 ^ 38"
    using inflate_until_ok [OF W(3), of "s + ?pg"] e r top37 by (auto simp: s_def)
  have f1: "avail_slab h1 = avail_slab h" "used_slab h1 = used_slab h" "slab_at h1 = slab_at h" "block_at h1 = block_at h"
    "ufree_start h1 = s" "heap_start h1 = heap_start h"
    by (subst h1(2), simp add: s_def)+
  have av: "avail_slab h ! i = 0" using W(7) [OF i] none by (simp add: lists_ok_def)
  define c where "c = count_of i"
  have c1: "of_nat c - 1 = (of_nat (c - 1) :: u64)" using C(5) by (simp add: c_def of_nat_diff)
  have c: "unat (of_nat c - 1 :: u64) = c - 1" using C(6) unfolding c1 by (simp add: c_def unsigned_of_nat take_bit_nat_eq_self)
  define d where "d = (slab_at h s)\<lparr>s_va := s, s_unit_size := of_nat (unit_of i), s_unit_count := ucast (of_nat c :: u64), s_prev := 0, s_next := 0,
    s_bfreelist := s + sizeof_slab\<rparr>"
  define h2 where "h2 = h1\<lparr>ufree_start := s + ?pg, avail_slab := (avail_slab h)[i := s],
    slab_at := (slab_at h)(0 := (slab_at h 0)\<lparr>s_prev := s\<rparr>, s := d)\<rparr>"
  define h' where "h' = link_blocks (c - 1) (blk s i 0) (of_nat (unit_of i)) h2"
  have b0: "s + sizeof_slab = blk s i 0" by (simp add: blk_def sizeof_slab_def)
  have al: "alloc_slab i h = Some (s, h')"
    using W(1) C(10) s0 h1(1)
    by (simp add: alloc_slab_def C(1,2,3) s_def [symmetric] f1 av Let_def upd_slab_def h'_def h2_def d_def b0 c c_def [symmetric] fun_upd_twist)
  have top: "unat s + pages_of i * 4096 \<le> 2 ^ 63" using r C(7) by simp
  have L: "h' = h2\<lparr>block_at := block_at h'\<rparr>" "chain (block_at h') (blk s i 0) (blocks_of s i)"
    "\<And>a. a \<notin> set (blocks_of s i) \<Longrightarrow> block_at h' a = block_at h2 a"
    using link_blocks_ok [OF i, of 0 "c - 1" s h' h2] C(5) top s0(1) by (simp_all add: h'_def c_def blocks_of_def)
  have f: "avail_slab h' = (avail_slab h)[i := s]" "used_slab h' = used_slab h" "heap_start h' = heap_start h" "heap_size h' = heap_size h1"
    "ufree_start h' = s + ?pg" "mapped h' = mapped h1" "mmap_ans h' = mmap_ans h1"
    "slab_at h' = (slab_at h)(0 := (slab_at h 0)\<lparr>s_prev := s\<rparr>, s := d)"
    by (subst L(1), simp add: h2_def f1)+
  have ns: "(s, j) \<notin> set (g_slabs g)" for j using laid_mem [OF W(5), of s j] class_facts(8) [of j] by (auto simp: s_def)
  let ?g = "g\<lparr>g_slabs := g_slabs g @ [(s, i)], g_free := (g_free g)(s := blocks_of s i), g_avail := (g_avail g)(i := [s])\<rparr>"
  have fits: "fits h'" using h1(5) by (simp add: fits_def f f1)
  have "heap_wf h' ?g"
  proof -
    have laid: "laid (unat (heap_start h')) (g_slabs ?g) (unat (ufree_start h'))"
      using W(5) i e by (auto simp: laid_append f s_def)
    have region: "region_ok h'" using h1(3,4) by (simp add: region_ok_def f f1 is_mapped_def)
    have old: "t \<noteq> s \<and> t \<noteq> 0 \<and> slab_at h' t = slab_at h t" if "(t, j) \<in> set (g_slabs g)" for t j
      using that ns slab_bounds(2) [OF wf that] by (auto simp: f)
    have slabs: "slab_ok h' (g_free ?g t) t j" if t: "(t, j) \<in> set (g_slabs ?g)" for t j
    proof (cases "t = s")
      case True
      then have "j = i" using t ns by auto
      have l: "length (blocks_of s i) = c" by (simp add: blocks_of_def c_def)
      have "unat (ucast (of_nat c :: u64) :: u32) \<le> c" using C(6) by (simp add: c_def unsigned_ucast_eq unsigned_of_nat take_bit_nat_eq_self)
      then show ?thesis using L(2) by (simp add: slab_ok_def True \<open>j = i\<close> f(8) d_def b0 l)
    next
      case False
      then have tj: "(t, j) \<in> set (g_slabs g)" using t by simp
      have "block_at h' b = block_at h b" if "b \<in> set (blocks_of t j)" for b
      proof -
        have "laid (unat (heap_start h)) (g_slabs g @ [(s, i)]) (unat (s + ?pg))" using laid by (simp add: f)
        moreover have "unat (s + ?pg) \<le> 2 ^ 63" using top e by simp
        ultimately have "b \<notin> set (blocks_of s i)" using blocks_inj [of _ "g_slabs g @ [(s, i)]" _ t j b s i] tj that False by auto
        then show ?thesis using L(3) by (simp add: h2_def f1)
      qed
      then show ?thesis using slab_ok_cong [of h t h' j "g_free g t"] W(6) [OF tj] old [OF tj] False by simp
    qed
    have lists: "lists_ok h' ?g j" if j: "class_ok j" for j
    proof -
      note o = W(7) [OF j, unfolded lists_ok_def]
      have g: "set (g_avail g j) \<subseteq> fst ` set (g_slabs g)" "set (g_used g j) \<subseteq> fst ` set (g_slabs g)" using o by force+
      have "slab_at h' t = slab_at h t" if "t \<in> set (g_avail g j) \<union> set (g_used g j)" for t using that g old by fastforce
      then have sl: "slab_list (slab_at h') p (g_used g j) = slab_list (slab_at h) p (g_used g j)"
        "slab_list (slab_at h') p (g_avail g j) = slab_list (slab_at h) p (g_avail g j)" for p
        using slab_list_cong [of "g_used g j" "slab_at h'" "slab_at h"] slab_list_cong [of "g_avail g j" "slab_at h'" "slab_at h"] by simp_all
      have cnt: "s_unit_count (slab_at h' s) \<noteq> 0"
      proof -
        have "unat (ucast (of_nat c :: u64) :: u32) = c" using C(6) by (simp add: c_def unsigned_ucast_eq unsigned_of_nat take_bit_nat_eq_self)
        then show ?thesis using C(5) by (auto simp: f d_def c_def)
      qed
      have sets: "{t. (t, j) \<in> set (g_slabs ?g) \<and> s_unit_count (slab_at h' t) \<noteq> 0} =
          (if j = i then {s} else {}) \<union> {t. (t, j) \<in> set (g_slabs g) \<and> s_unit_count (slab_at h t) \<noteq> 0}"
        "{t. (t, j) \<in> set (g_slabs ?g) \<and> s_unit_count (slab_at h' t) = 0} =
          {t. (t, j) \<in> set (g_slabs g) \<and> s_unit_count (slab_at h t) = 0}"
        using old cnt by auto
      have new: "slab_list (slab_at h') s [s]" using s0(2) by (simp add: slab_list_def list_ok_def f d_def)
      have "{t. (t, i) \<in> set (g_slabs g) \<and> s_unit_count (slab_at h t) \<noteq> 0} = {}" if "j = i" using o none that by simp
      then show ?thesis unfolding lists_ok_def sets using o sl new none W(1) C(10) by (cases "j = i") (auto simp: f(1,2) nth_list_update)
    qed
    have all: "\<forall>(t, j) \<in> set (g_slabs ?g). slab_ok h' (g_free ?g t) t j" using slabs by blast
    have len: "length (avail_slab h') = 24" "length (used_slab h') = 24" using W(1,2) f(1,2) by simp_all
    show ?thesis unfolding heap_wf_def by (intro conjI allI impI len region fits laid all lists)
  qed
  moreover have "s_unit_count (slab_at h' s) = of_nat c"
    using C(6) by (simp add: f d_def c_def word_unat_eq_iff unsigned_ucast_eq unsigned_of_nat take_bit_nat_eq_self)
  ultimately show ?thesis using al f(1,5) W(1) C(10) ns by (auto simp: c_def)
qed

subsection \<open>The content of one slab changes\<close>

lemma heap_pre_content:
  assumes wf: "heap_wf h g" and s: "(s, i) \<in> set (g_slabs g)" and b: "b \<in> set (blocks_of s i)"
    and h': "h' = h\<lparr>block_at := (block_at h)(b := v), slab_at := (slab_at h)(s := d)\<rparr>"
    and d: "s_prev d = s_prev (slab_at h s)" "s_next d = s_next (slab_at h s)" and ok: "slab_ok h' fs s i"
  shows "heap_pre h' (g\<lparr>g_free := (g_free g)(s := fs)\<rparr>) i" "slab_list (slab_at h') p us = slab_list (slab_at h) p us"
proof -
  note W = heap_wfD [OF wf]
  have f: "avail_slab h' = avail_slab h" "used_slab h' = used_slab h" "heap_start h' = heap_start h" "heap_size h' = heap_size h"
    "ufree_start h' = ufree_start h" "mapped h' = mapped h" "mmap_ans h' = mmap_ans h" "slab_at h' = (slab_at h)(s := d)"
    "block_at h' = (block_at h)(b := v)"
    by (simp_all add: h')
  have sl: "slab_list (slab_at h') p us = slab_list (slab_at h) p us" for p us
    by (rule slab_list_cong) (use d in \<open>simp add: f\<close>)
  then show "slab_list (slab_at h') p us = slab_list (slab_at h) p us" .
  let ?g = "g\<lparr>g_free := (g_free g)(s := fs)\<rparr>"
  have slabs: "slab_ok h' (g_free ?g t) t j" if t: "(t, j) \<in> set (g_slabs g)" for t j
  proof (cases "t = s")
    case True
    then show ?thesis using ok laid_class [OF W(5) s, of j] t by simp
  next
    case False
    then have "b \<notin> set (blocks_of t j)" using blocks_inj [OF W(5,8) s b t] by blast
    then show ?thesis using slab_ok_cong [of h t h' j "g_free g t"] W(6) [OF t] False by (fastforce simp: f)
  qed
  have lists: "lists_ok h' ?g j" if j: "class_ok j" "j \<noteq> i" for j
  proof -
    have "t \<noteq> s" if "(t, j) \<in> set (g_slabs g)" for t using laid_class [OF W(5) s, of j] that j(2) by blast
    then have "slab_at h' t = slab_at h t" if "(t, j) \<in> set (g_slabs g)" for t using that by (simp add: f)
    then have "{t. (t, j) \<in> set (g_slabs g) \<and> s_unit_count (slab_at h' t) \<noteq> 0} = {t. (t, j) \<in> set (g_slabs g) \<and> s_unit_count (slab_at h t) \<noteq> 0}"
      "{t. (t, j) \<in> set (g_slabs g) \<and> s_unit_count (slab_at h' t) = 0} = {t. (t, j) \<in> set (g_slabs g) \<and> s_unit_count (slab_at h t) = 0}"
      by auto
    then show ?thesis using W(7) [OF j(1)] unfolding lists_ok_def by (simp add: sl f(1,2))
  qed
  have "\<forall>(t, j) \<in> set (g_slabs ?g). slab_ok h' (g_free ?g t) t j" using slabs by auto
  then show "heap_pre h' ?g i" using W(1-5) lists by (simp add: heap_pre_def f(1-7) region_ok_def fits_def is_mapped_def)
qed

subsection \<open>The abstract behaviour\<close>

text \<open>The blocks in the hands of the program, each with its class.\<close>

definition live_blocks :: "ghost \<Rightarrow> (u64 \<times> nat) set" where
  "live_blocks g = {(b, i). \<exists>s. (s, i) \<in> set (g_slabs g) \<and> b \<in> set (blocks_of s i) \<and> b \<notin> set (g_free g s)}"

lemma live_free:
  assumes wf: "heap_wf h g" and s: "(s, i) \<in> set (g_slabs g)" and g': "g_slabs g' = g_slabs g" "g_free g' = (g_free g)(s := fs)"
  shows "live_blocks g' = (live_blocks g - set (blocks_of s i) \<times> {i}) \<union> (set (blocks_of s i) - set fs) \<times> {i}"
proof -
  note W = heap_wfD [OF wf]
  have k: "j = i" if "(s, j) \<in> set (g_slabs g)" for j using laid_class [OF W(5) s that] by simp
  have u: "t = s" if "(t, i) \<in> set (g_slabs g)" "b \<in> set (blocks_of s i)" "b \<in> set (blocks_of t i)" for t b
    using blocks_inj [OF W(5,8) s that(2) that(1,3)] by simp
  show ?thesis
  proof (intro set_eqI iffI)
    fix x assume "x \<in> live_blocks g'"
    then obtain b j t where x: "x = (b, j)" "(t, j) \<in> set (g_slabs g)" "b \<in> set (blocks_of t j)" "b \<notin> set (((g_free g)(s := fs)) t)"
      by (auto simp: live_blocks_def g')
    show "x \<in> (live_blocks g - set (blocks_of s i) \<times> {i}) \<union> (set (blocks_of s i) - set fs) \<times> {i}"
    proof (cases "t = s")
      case True
      then show ?thesis using x k by auto
    next
      case False
      then have "(b, j) \<notin> set (blocks_of s i) \<times> {i}" using x u by auto
      then show ?thesis using x False by (auto simp: live_blocks_def)
    qed
  next
    fix x assume x: "x \<in> (live_blocks g - set (blocks_of s i) \<times> {i}) \<union> (set (blocks_of s i) - set fs) \<times> {i}"
    show "x \<in> live_blocks g'"
    proof (cases "x \<in> live_blocks g - set (blocks_of s i) \<times> {i}")
      case True
      then obtain b j t where "x = (b, j)" "(t, j) \<in> set (g_slabs g)" "b \<in> set (blocks_of t j)" "b \<notin> set (g_free g t)" "t \<noteq> s"
        using k by (fastforce simp: live_blocks_def)
      then show ?thesis by (auto simp: live_blocks_def g')
    next
      case False
      then show ?thesis using x s by (auto simp: live_blocks_def g')
    qed
  qed
qed

text \<open>Only a new slab takes space of the heap.\<close>

lemma upd_start [simp]: "ufree_start (upd_slab s f h) = ufree_start h" "ufree_start (set_block b v h) = ufree_start h"
  "ufree_start (unlink_slab s h) = ufree_start h" "ufree_start (push_slab s q h) = ufree_start h"
  by (simp_all add: upd_slab_def set_block_def unlink_slab_def push_slab_def Let_def)

lemma link_blocks_start [simp]: "ufree_start (link_blocks n b u h) = ufree_start h"
  by (induction n arbitrary: b h) (simp_all add: Let_def)

lemma to_lists_start: "to_used i s h = Some h' \<Longrightarrow> ufree_start h' = ufree_start h" "to_avail i s h = Some h' \<Longrightarrow> ufree_start h' = ufree_start h"
  by (auto simp: to_used_def to_avail_def Let_def split: Option.bind_splits if_splits)

lemma take_block_start: "take_block i s h = Some (b, h') \<Longrightarrow> ufree_start h' = ufree_start h"
  by (auto simp: take_block_def Let_def split: Option.bind_splits if_splits dest!: to_lists_start)

lemma free_block_start: "free_block b h = Some h' \<Longrightarrow> ufree_start h' = ufree_start h"
  by (auto simp: free_block_def Let_def split: if_splits dest!: to_lists_start)

text \<open>Taking the first block of the first slab of its class.\<close>

lemma take_block_ok:
  assumes wf: "heap_wf h g" and i: "class_ok i" and av: "g_avail g i = s # ss"
  shows "\<exists>b h' g'. take_block i s h = Some (b, h') \<and> heap_wf h' g' \<and> (b, i) \<notin> live_blocks g \<and> live_blocks g' = insert (b, i) (live_blocks g)"
proof -
  note W = heap_wfD [OF wf] and C = class_facts [OF i]
  note L = W(7) [OF i, unfolded lists_ok_def]
  have s: "(s, i) \<in> set (g_slabs g)" "s_unit_count (slab_at h s) \<noteq> 0" using L av by auto
  note ok = W(6) [OF s(1), unfolded slab_ok_def]
  have "0 < unat (s_unit_count (slab_at h s))" using s(2) by (simp add: unat_gt_0)
  then obtain b fs where fs: "g_free g s = b # fs" using ok by (cases "g_free g s") auto
  have b: "s_bfreelist (slab_at h s) = b" "b \<noteq> 0" "chain (block_at h) (block_at h b) fs" "b \<in> set (blocks_of s i)" "b \<notin> set fs"
    using ok fs chain_distinct [of "block_at h" _ "b # fs"] by auto
  define d where "d = (slab_at h s)\<lparr>s_bfreelist := block_at h b, s_unit_count := s_unit_count (slab_at h s) - 1\<rparr>"
  define h1 where "h1 = h\<lparr>block_at := (block_at h)(b := s), slab_at := (slab_at h)(s := d)\<rparr>"
  let ?g = "g\<lparr>g_free := (g_free g)(s := fs)\<rparr>"
  have take: "take_block i s h = (if s_unit_count d = 0 then do { h' \<leftarrow> to_used i s h1; Some (b, h') } else Some (b, h1))"
    using b(1,2) s(2) by (simp add: take_block_def upd_slab_def set_block_def h1_def d_def Let_def)
  have cnt: "unat (s_unit_count d) = unat (s_unit_count (slab_at h s)) - 1" using s(2) by (simp add: d_def unat_minus_one)
  have ok1: "slab_ok h1 fs s i"
  proof -
    have "chain ((block_at h)(b := s)) (block_at h b) fs = chain (block_at h) (block_at h b) fs" by (rule chain_cong) (use b(5) in auto)
    then show ?thesis using ok fs b cnt by (auto simp: slab_ok_def h1_def d_def)
  qed
  note P = heap_pre_content [OF wf s(1) b(4) h1_def _ _ ok1]
  have pre: "heap_pre h1 ?g i" by (rule P(1)) (simp_all add: d_def)
  have sl: "slab_list (slab_at h1) p us = slab_list (slab_at h) p us" for p us by (rule P(2)) (simp_all add: d_def)
  have f: "avail_slab h1 = avail_slab h" "used_slab h1 = used_slab h" "slab_at h1 = (slab_at h)(s := d)" by (simp_all add: h1_def)
  have live: "(b, i) \<notin> live_blocks g" "live_blocks ?g = insert (b, i) (live_blocks g)"
  proof -
    have "t = s" if "(t, i) \<in> set (g_slabs g)" "b \<in> set (blocks_of t i)" for t using blocks_inj [OF W(5,8) s(1) b(4) that] by simp
    then show "(b, i) \<notin> live_blocks g" using fs by (auto simp: live_blocks_def)
    have "live_blocks g = (live_blocks g - set (blocks_of s i) \<times> {i}) \<union> (set (blocks_of s i) - set (g_free g s)) \<times> {i}"
      by (rule live_free [OF wf s(1)]) simp_all
    moreover have "live_blocks ?g = (live_blocks g - set (blocks_of s i) \<times> {i}) \<union> (set (blocks_of s i) - set fs) \<times> {i}"
      by (rule live_free [OF wf s(1)]) simp_all
    ultimately show "live_blocks ?g = insert (b, i) (live_blocks g)" using b(4,5) unfolding fs by auto
  qed
  show ?thesis
  proof (cases "s_unit_count d = 0")
    case False
    then have "{t. (t, i) \<in> set (g_slabs g) \<and> s_unit_count (slab_at h1 t) \<noteq> 0} = {t. (t, i) \<in> set (g_slabs g) \<and> s_unit_count (slab_at h t) \<noteq> 0}"
      "{t. (t, i) \<in> set (g_slabs g) \<and> s_unit_count (slab_at h1 t) = 0} = {t. (t, i) \<in> set (g_slabs g) \<and> s_unit_count (slab_at h t) = 0}"
      using s(2) by (auto simp: f)
    then have "lists_ok h1 ?g i" using L by (simp add: lists_ok_def sl f(1,2))
    then have "heap_wf h1 ?g" using pre heap_wf_pre [OF i] by blast
    then show ?thesis using take False live by (intro exI [of _ b] exI [of _ h1] exI [of _ ?g]) simp
  next
    case True
    have L1: "slab_list (slab_at h1) (avail_slab h1 ! i) ([] @ s # ss)" "slab_list (slab_at h1) (used_slab h1 ! i) (g_used g i)" "s \<notin> set (g_used g i)"
      using L av s(2) by (simp_all add: sl f(1,2))
    have "distinct (s # ss)" using L av by (simp add: slab_list_def list_ok_def)
    then have sets: "set ([] @ ss) = {t. (t, i) \<in> set (g_slabs ?g) \<and> s_unit_count (slab_at h1 t) \<noteq> 0}"
      "set (s # g_used g i) = {t. (t, i) \<in> set (g_slabs ?g) \<and> s_unit_count (slab_at h1 t) = 0}"
      using L True s av by (auto simp: f)
    obtain h' where h': "to_used i s h1 = Some h'"
      "heap_wf h' (?g\<lparr>g_avail := (g_avail ?g)(i := [] @ ss), g_used := (g_used ?g)(i := s # g_used g i)\<rparr>)"
      using to_used_wf [OF pre i L1 sets] by blast
    let ?g' = "?g\<lparr>g_avail := (g_avail ?g)(i := [] @ ss), g_used := (g_used ?g)(i := s # g_used g i)\<rparr>"
    have "live_blocks ?g' = live_blocks ?g" by (simp add: live_blocks_def)
    then show ?thesis using take True h' live by (intro exI [of _ b] exI [of _ h'] exI [of _ ?g']) simp
  qed
qed

lemma alloc_block_ok:
  assumes wf: "heap_wf h g" and sz: "1 \<le> unat sz" "unat sz \<le> max_request"
    and top: "unat (ufree_start h) + 2 ^ 19 \<le> 2 ^ 37"
  shows "\<exists>b h' i g'. alloc_block sz h = Some (b, h') \<and> class_ok i \<and> unat sz \<le> room i \<and>
    heap_wf h' g' \<and> (b, i) \<notin> live_blocks g \<and> live_blocks g' = insert (b, i) (live_blocks g) \<and>
    unat (ufree_start h') \<le> unat (ufree_start h) + 2 ^ 19"
proof -
  obtain i where i: "get_used_slab_idx sz = int i" "class_ok i" "unat sz \<le> room i" using size_class [OF sz] by blast
  note W = heap_wfD [OF wf] and C = class_facts [OF i(2)]
  note L = W(7) [OF i(2), unfolded lists_ok_def]
  have av: "avail_slab h ! i = 0 \<longleftrightarrow> g_avail g i = []" "g_avail g i \<noteq> [] \<Longrightarrow> avail_slab h ! i = hd (g_avail g i)"
    using L by (cases "g_avail g i"; simp add: slab_list_def list_ok_def)+
  show ?thesis
  proof (cases "g_avail g i")
    case (Cons s ss)
    then have "get_avail_slab i h = Some (s, h)" using av W(1) C(10) by (simp add: get_avail_slab_def)
    then show ?thesis using take_block_ok [OF wf i(2) Cons] i take_block_start by (fastforce simp: alloc_block_def)
  next
    case Nil
    let ?s = "ufree_start h"
    let ?g = "g\<lparr>g_slabs := g_slabs g @ [(?s, i)], g_free := (g_free g)(?s := blocks_of ?s i), g_avail := (g_avail g)(i := [?s])\<rparr>"
    obtain h1 where h1: "alloc_slab i h = Some (?s, h1)" "avail_slab h1 ! i = ?s" "length (avail_slab h1) = 24"
      "(?s, i) \<notin> set (g_slabs g)" "heap_wf h1 ?g" "ufree_start h1 = ?s + of_nat (pages_of i) * PGSIZE" using alloc_slab_ok [OF wf i(2) Nil] top C(7) by auto
    have ga: "get_avail_slab i h = Some (?s, h1)"
      using av(1) Nil W(1) h1(1-3) C(10) by (simp add: get_avail_slab_def list_update_same_conv [THEN iffD2])
    have live: "live_blocks ?g = live_blocks g"
    proof -
      have "t \<noteq> ?s" if "(t, j) \<in> set (g_slabs g)" for t j
        using laid_mem [OF W(5) that] class_facts(8) [of j] by auto
      then show ?thesis by (fastforce simp: live_blocks_def)
    qed
    have "g_avail ?g i = ?s # []" by simp
    from take_block_ok [OF h1(5) i(2) this] obtain b h2 g2 where "take_block i ?s h1 = Some (b, h2)" "heap_wf h2 g2"
      "(b, i) \<notin> live_blocks g" "live_blocks g2 = insert (b, i) (live_blocks g)" unfolding live by blast
    moreover have "unat (ufree_start h1) \<le> unat ?s + 2 ^ 19"
    proof -
      have "unat (of_nat (pages_of i) * PGSIZE :: u64) = pages_of i * 4096"
        using C(7) by (simp add: unat_word_ariths PGSIZE_def unsigned_of_nat take_bit_nat_eq_self)
      then show ?thesis using h1(6) C(7) top by (simp add: unat_word_ariths)
    qed
    ultimately show ?thesis using i ga take_block_start by (fastforce simp: alloc_block_def)
  qed
qed

text \<open>Release of a live block.\<close>

lemma free_block_ok:
  assumes wf: "heap_wf h g" and b: "(b, i) \<in> live_blocks g"
  shows "\<exists>h' g'. free_block b h = Some h' \<and> heap_wf h' g' \<and> live_blocks g' = live_blocks g - {(b, i)}"
proof -
  obtain s where s: "(s, i) \<in> set (g_slabs g)" "b \<in> set (blocks_of s i)" "b \<notin> set (g_free g s)" using b by (auto simp: live_blocks_def)
  note i = slab_bounds(1) [OF wf s(1)] and bd = slab_bounds(2,3) [OF wf s(1)]
  note W = heap_wfD [OF wf] and C = class_facts [OF i]
  note L = W(7) [OF i, unfolded lists_ok_def]
  note ok = W(6) [OF s(1), unfolded slab_ok_def]
  have bs: "block_at h b = s" "b \<noteq> 0" using ok s blocks_distinct(2) [OF i bd(2,1)] by auto
  let ?c = "s_unit_count (slab_at h s)"
  define d where "d = (slab_at h s)\<lparr>s_bfreelist := b, s_unit_count := (if ?c = 0 then 1 else ?c)\<rparr>"
  define h1 where "h1 = h\<lparr>block_at := (block_at h)(b := s_bfreelist (slab_at h s)), slab_at := (slab_at h)(s := d)\<rparr>"
  let ?g = "g\<lparr>g_free := (g_free g)(s := b # g_free g s)\<rparr>"
  have free: "free_block b h = (if ?c = 0 then to_avail i s h1 else Some h1)"
    using ok C(4) by (simp add: free_block_def bs upd_slab_def set_block_def h1_def d_def Let_def)
  have ok1: "slab_ok h1 (b # g_free g s) s i"
  proof -
    have "chain ((block_at h)(b := v)) p (g_free g s) = chain (block_at h) p (g_free g s)" for v p by (rule chain_cong) (use s(3) in auto)
    then show ?thesis using ok s bs by (auto simp: slab_ok_def h1_def d_def)
  qed
  note P = heap_pre_content [OF wf s(1,2) h1_def _ _ ok1]
  have pre: "heap_pre h1 ?g i" by (rule P(1)) (simp_all add: d_def)
  have sl: "slab_list (slab_at h1) p us = slab_list (slab_at h) p us" for p us by (rule P(2)) (simp_all add: d_def)
  have f: "avail_slab h1 = avail_slab h" "used_slab h1 = used_slab h" "slab_at h1 = (slab_at h)(s := d)" by (simp_all add: h1_def)
  have live: "live_blocks ?g = live_blocks g - {(b, i)}"
  proof -
    have "live_blocks g = (live_blocks g - set (blocks_of s i) \<times> {i}) \<union> (set (blocks_of s i) - set (g_free g s)) \<times> {i}"
      by (rule live_free [OF wf s(1)]) simp_all
    moreover have "live_blocks ?g = (live_blocks g - set (blocks_of s i) \<times> {i}) \<union> (set (blocks_of s i) - set (b # g_free g s)) \<times> {i}"
      by (rule live_free [OF wf s(1)]) simp_all
    ultimately show ?thesis using s(2) by auto
  qed
  have d0: "s_unit_count d \<noteq> 0" by (simp add: d_def)
  show ?thesis
  proof (cases "?c = 0")
    case False
    then have "{t. (t, i) \<in> set (g_slabs g) \<and> s_unit_count (slab_at h1 t) \<noteq> 0} = {t. (t, i) \<in> set (g_slabs g) \<and> s_unit_count (slab_at h t) \<noteq> 0}"
      "{t. (t, i) \<in> set (g_slabs g) \<and> s_unit_count (slab_at h1 t) = 0} = {t. (t, i) \<in> set (g_slabs g) \<and> s_unit_count (slab_at h t) = 0}"
      using d0 by (auto simp: f)
    then have "lists_ok h1 ?g i" using L by (simp add: lists_ok_def sl f(1,2))
    then have "heap_wf h1 ?g" using pre heap_wf_pre [OF i] by blast
    then show ?thesis using free False live by auto
  next
    case True
    then have "s \<in> set (g_used g i)" using L s(1) by simp
    then obtain xs ys where us: "g_used g i = xs @ s # ys" by (meson split_list)
    have L1: "slab_list (slab_at h1) (used_slab h1 ! i) (xs @ s # ys)" "slab_list (slab_at h1) (avail_slab h1 ! i) (g_avail g i)" "s \<notin> set (g_avail g i)"
      using L us True by (simp_all add: sl f(1,2))
    have "distinct (xs @ s # ys)" using L us by (simp add: slab_list_def list_ok_def)
    then have "set (xs @ ys) = set (g_used g i) - {s}" by (auto simp: us)
    then have sets: "set (xs @ ys) = {t. (t, i) \<in> set (g_slabs ?g) \<and> s_unit_count (slab_at h1 t) = 0}"
      "set (s # g_avail g i) = {t. (t, i) \<in> set (g_slabs ?g) \<and> s_unit_count (slab_at h1 t) \<noteq> 0}"
      using L True s(1) d0 by (auto simp: f)
    let ?g' = "?g\<lparr>g_avail := (g_avail ?g)(i := s # g_avail g i), g_used := (g_used ?g)(i := xs @ ys)\<rparr>"
    obtain h' where h': "to_avail i s h1 = Some h'" "heap_wf h' ?g'"
      using to_avail_wf [OF pre i L1 sets] by blast
    have "live_blocks ?g' = live_blocks ?g" by (simp add: live_blocks_def)
    then show ?thesis using free True h' live by (intro exI [of _ h'] exI [of _ ?g']) simp
  qed
qed

subsection \<open>The initial heap\<close>

text \<open>The data segment before \<open>heap_init\<close>, and an \<open>mmap\<close> that gives the area it is asked for.\<close>

definition fresh_heap :: "uheap \<Rightarrow> bool" where
  "fresh_heap h \<longleftrightarrow> used_slab h = replicate 24 0 \<and> avail_slab h = replicate 24 0 \<and> (\<forall>a n. mmap_ans h a n = a)"

definition empty_ghost :: ghost where
  "empty_ghost = \<lparr>g_slabs = [], g_free = \<lambda>_. [], g_avail = \<lambda>_. [], g_used = \<lambda>_. []\<rparr>"

lemma heap_init_ok:
  assumes "fresh_heap h" "0 < PGROUNDUP e" "unat (PGROUNDUP e) \<le> 2 ^ 36"
  shows "\<exists>h'. heap_init e h = Some h' \<and> heap_wf h' empty_ghost \<and> live_blocks empty_ghost = {} \<and> ufree_start h' = PGROUNDUP e"
proof -
  let ?p = "PGROUNDUP e"
  have p: "?p \<noteq> - 1" "0 < unat ?p"
  proof
    assume "?p = - 1"
    then have "unat ?p = 2 ^ 64 - 1" by (simp add: unsigned_minus_1_eq_mask mask_eq_exp_minus_1)
    then show False using assms(3) by simp
  qed (use assms(2) in \<open>simp add: word_less_nat_alt\<close>)
  define h' where "h' = h\<lparr>used_slab := replicate 24 0, avail_slab := replicate 24 0, heap_start := ?p, heap_size := PGSIZE,
    mapped := mapped h @ [(?p, PGSIZE)], ufree_start := ?p\<rparr>"
  have clear: "replicate 20 0 @ replicate 4 0 = replicate 24 (0 :: u64)" by (simp add: replicate_add [symmetric])
  have "heap_init e h = Some h'"
    using assms(1) p(1) by (simp add: heap_init_def user_mmap_def fresh_heap_def clear h'_def Let_def)
  moreover have "region_ok h'"
    using assms(1) p(2) by (auto simp: region_ok_def h'_def is_mapped_def PGSIZE_def fresh_heap_def)
  moreover have "fits h'" using assms(3) by (simp add: fits_def h'_def PGSIZE_def)
  moreover have "lists_ok h' empty_ghost i" if "class_ok i" for i
    using class_facts(10) [OF that] by (simp add: lists_ok_def empty_ghost_def h'_def)
  ultimately show ?thesis by (auto simp: heap_wf_def h'_def empty_ghost_def live_blocks_def)
qed

end
