(* ===== verification/Malloc_Claims.thy ===== *)
theory Malloc_Claims
  imports Malloc_Steps
begin

unbundle bit_operations_syntax

text \<open>
  The contract of an allocator of blocks as a locale, its interpretation by \<open>malloc\<close> and \<open>free\<close>, and the properties of the user heap.
\<close>

subsection \<open>The contract\<close>

text \<open>A program of requests; a release names one of the live pointers by its position.\<close>

datatype 'r block_op = Request 'r | Release nat

fun requests :: "'r block_op list \<Rightarrow> nat" where
  "requests [] = 0"
| "requests (Request r # ops) = Suc (requests ops)"
| "requests (Release n # ops) = requests ops"

text \<open>Every release names a live pointer when \<open>k\<close> pointers are live at the start, and the requests are served.\<close>

fun ops_ok :: "('r \<Rightarrow> bool) \<Rightarrow> nat \<Rightarrow> 'r block_op list \<Rightarrow> bool" where
  "ops_ok served k [] \<longleftrightarrow> True"
| "ops_ok served k (Request r # ops) \<longleftrightarrow> served r \<and> ops_ok served (Suc k) ops"
| "ops_ok served k (Release n # ops) \<longleftrightarrow> n < k \<and> ops_ok served (k - 1) ops"

fun run_ops :: "('r \<Rightarrow> 's \<Rightarrow> ('p \<times> 's) option) \<Rightarrow> ('p \<Rightarrow> 's \<Rightarrow> 's option) \<Rightarrow> 'r block_op list \<Rightarrow> ('p \<times> 'r) list \<Rightarrow> 's \<Rightarrow>
    (('p \<times> 'r) list \<times> 's) option" where
  "run_ops get put [] held s = Some (held, s)"
| "run_ops get put (Request r # ops) held s = do { (p, s) \<leftarrow> get r s; run_ops get put ops (held @ [(p, r)]) s }"
| "run_ops get put (Release n # ops) held s =
     do { (p, r) \<leftarrow> rd held n; s \<leftarrow> put p s; run_ops get put ops (take n held @ drop (Suc n) held) s }"

text \<open>
  \<open>rep n s L\<close>: the state \<open>s\<close> has lent the blocks \<open>L\<close>, each with its class, and has room for \<open>n\<close> more requests.
\<close>

locale block_store =
  fixes get :: "'r \<Rightarrow> 's \<Rightarrow> ('p \<times> 's) option" and put :: "'p \<Rightarrow> 's \<Rightarrow> 's option"
    and rep :: "nat \<Rightarrow> 's \<Rightarrow> ('p \<times> nat) set \<Rightarrow> bool" and served :: "'r \<Rightarrow> bool" and holds :: "nat \<Rightarrow> 'r \<Rightarrow> bool"
  assumes get_fresh: "rep (Suc n) s L \<Longrightarrow> served r \<Longrightarrow>
      \<exists>p s' c. get r s = Some (p, s') \<and> holds c r \<and> p \<notin> fst ` L \<and> rep n s' (insert (p, c) L)"
    and put_back: "rep n s L \<Longrightarrow> (p, c) \<in> L \<Longrightarrow> \<exists>s'. put p s = Some s' \<and> rep n s' (L - {(p, c)})"
begin

definition owns :: "('p \<times> nat) set \<Rightarrow> ('p \<times> 'r) list \<Rightarrow> bool" where
  "owns L held \<longleftrightarrow> distinct (map fst held) \<and> (\<forall>(p, r) \<in> set held. \<exists>c. (p, c) \<in> L \<and> holds c r)"

lemma run_ops_owns:
  assumes "rep (requests ops) s L" "owns L held" "ops_ok served (length held) ops"
  shows "\<exists>held' s' L'. run_ops get put ops held s = Some (held', s') \<and> rep 0 s' L' \<and> owns L' held'"
  using assms
proof (induction ops arbitrary: s L held)
  case (Cons op ops)
  show ?case
  proof (cases op)
    case (Request r)
    obtain p s1 c where g: "get r s = Some (p, s1)" "holds c r" "p \<notin> fst ` L" "rep (requests ops) s1 (insert (p, c) L)"
      using get_fresh [of "requests ops" s L r] Cons.prems Request by auto
    have "p \<notin> fst ` set held" using Cons.prems(2) g(3) by (force simp: owns_def)
    then have "owns (insert (p, c) L) (held @ [(p, r)])" using Cons.prems(2) g(2) by (auto simp: owns_def)
    from Cons.IH [OF g(4) this] show ?thesis using Cons.prems(3) Request g(1) by simp
  next
    case (Release n)
    then have n: "n < length held" using Cons.prems(3) by simp
    obtain p r where pr: "held ! n = (p, r)" by force
    let ?rest = "take n held @ drop (Suc n) held"
    have held: "held = take n held @ (p, r) # drop (Suc n) held" using id_take_nth_drop [OF n] pr by simp
    obtain c where c: "(p, c) \<in> L" using Cons.prems(2) n pr by (fastforce simp: owns_def dest: nth_mem)
    obtain s1 where s1: "put p s = Some s1" "rep (requests ops) s1 (L - {(p, c)})"
      using put_back [OF _ c, of "requests ops" s] Cons.prems(1) Release by auto
    have d: "distinct (map fst (take n held @ (p, r) # drop (Suc n) held))" using Cons.prems(2) held by (simp add: owns_def)
    have "owns (L - {(p, c)}) ?rest" unfolding owns_def
    proof (intro conjI ballI)
      show "distinct (map fst ?rest)" using d by simp
      fix x assume x: "x \<in> set ?rest"
      then have "x \<in> set held" by (auto dest: in_set_takeD in_set_dropD)
      moreover have "fst x \<noteq> p" using d x by force
      ultimately show "case x of (q, r) \<Rightarrow> \<exists>c'. (q, c') \<in> L - {(p, c)} \<and> holds c' r" using Cons.prems(2) by (fastforce simp: owns_def)
    qed
    moreover have "ops_ok served (length ?rest) ops" using Cons.prems(3) Release n by (simp add: min_absorb2)
    ultimately show ?thesis using Cons.IH [OF s1(2)] Release n pr s1(1) by simp
  qed
qed auto

end

subsection \<open>malloc and free keep the contract\<close>

definition heap_rep :: "nat \<Rightarrow> uheap \<Rightarrow> (u64 \<times> nat) set \<Rightarrow> bool" where
  "heap_rep n h L \<longleftrightarrow> (\<exists>g. heap_wf h g \<and> L = (\<lambda>(b, i). (b + sizeof_mblock, i)) ` live_blocks g \<and> unat (ufree_start h) + 2 ^ 19 * n \<le> 2 ^ 37)"

definition request_ok :: "u64 \<Rightarrow> bool" where "request_ok sz \<longleftrightarrow> 1 \<le> unat sz \<and> unat sz \<le> max_request"

lemma live_class: "heap_wf h g \<Longrightarrow> (b, i) \<in> live_blocks g \<Longrightarrow> (b, j) \<in> live_blocks g \<Longrightarrow> i = j"
  using blocks_inj heap_wfD(5,8) by (fastforce simp: live_blocks_def)

interpretation user_heap: block_store malloc Malloc.free heap_rep request_ok "\<lambda>i sz. unat sz \<le> room i"
proof
  fix n h L sz assume rep: "heap_rep (Suc n) h L" and sz: "request_ok sz"
  obtain g where g: "heap_wf h g" "L = (\<lambda>(b, i). (b + sizeof_mblock, i)) ` live_blocks g" "unat (ufree_start h) + 2 ^ 19 * Suc n \<le> 2 ^ 37"
    using rep by (auto simp: heap_rep_def)
  have s: "1 \<le> unat sz" "unat sz \<le> max_request" using sz by (simp_all add: request_ok_def)
  have top: "unat (ufree_start h) + 2 ^ 19 \<le> 2 ^ 37" using g(3) by simp
  obtain b h' i g' where b: "alloc_block sz h = Some (b, h')" "unat sz \<le> room i" "heap_wf h' g'" "(b, i) \<notin> live_blocks g"
    "live_blocks g' = insert (b, i) (live_blocks g)" "unat (ufree_start h') \<le> unat (ufree_start h) + 2 ^ 19"
    using alloc_block_ok [OF g(1) s top] by blast
  have "(b, j) \<notin> live_blocks g" for j using live_class [OF b(3), of b i j] b(4,5) by auto
  then have "b + sizeof_mblock \<notin> fst ` L" unfolding g(2) by force
  moreover have "heap_rep n h' (insert (b + sizeof_mblock, i) L)" unfolding heap_rep_def using b(3,5,6) g(2,3) by (intro exI [of _ g']) simp
  moreover have "malloc sz h = Some (b + sizeof_mblock, h')" by (simp add: malloc_def b(1))
  ultimately show "\<exists>p h' c. malloc sz h = Some (p, h') \<and> unat sz \<le> room c \<and> p \<notin> fst ` L \<and> heap_rep n h' (insert (p, c) L)" using b(2) by blast
next
  fix n h L p i assume rep: "heap_rep n h L" and p: "(p, i) \<in> L"
  obtain g where g: "heap_wf h g" "L = (\<lambda>(b, i). (b + sizeof_mblock, i)) ` live_blocks g" "unat (ufree_start h) + 2 ^ 19 * n \<le> 2 ^ 37"
    using rep by (auto simp: heap_rep_def)
  obtain b where b: "(b, i) \<in> live_blocks g" "p = b + sizeof_mblock" using p g(2) by auto
  obtain h' g' where f: "free_block b h = Some h'" "heap_wf h' g'" "live_blocks g' = live_blocks g - {(b, i)}"
    using free_block_ok [OF g(1) b(1)] by blast
  have "L - {(p, i)} = (\<lambda>(b, i). (b + sizeof_mblock, i)) ` live_blocks g'" unfolding g(2) f(3) b(2) by auto
  then have "heap_rep n h' (L - {(p, i)})" unfolding heap_rep_def using f(2) g(3) free_block_start [OF f(1)] by (intro exI [of _ g']) simp
  moreover have "Malloc.free p h = Some h'" by (simp add: free_def b(2) f(1))
  ultimately show "\<exists>h'. Malloc.free p h = Some h' \<and> heap_rep n h' (L - {(p, i)})" by blast
qed

subsection \<open>Areas\<close>

definition bytes :: "u64 \<times> u64 \<Rightarrow> nat set" where
  "bytes a = {unat (fst a) ..< unat (fst a) + unat (snd a)}"

lemma live_area:
  assumes wf: "heap_wf h g" and b: "(b, i) \<in> live_blocks g"
  shows "unat (b + sizeof_mblock) = unat b + 8" "unat (heap_start h) < unat b"
    "unat b + 8 + room i \<le> unat (heap_start h) + unat (heap_size h)"
proof -
  obtain s k where s: "(s, i) \<in> set (g_slabs g)" "k < count_of i" "b = blk s i k" using b by (auto simp: live_blocks_def blocks_of_def)
  note B = slab_bounds [OF wf s(1)] and W = heap_wfD [OF wf]
  note u = unat_blk [OF B(1) s(2) B(3)]
  note l = laid_mem [OF W(5) s(1)]
  have "unat b + 8 < 2 ^ 64" using u(2) B(3) s(3) by simp
  then show "unat (b + sizeof_mblock) = unat b + 8" by (simp add: sizeof_mblock_def unat_word_ariths)
  show "unat (heap_start h) < unat b" using u(1) l s(3) by simp
  show "unat b + 8 + room i \<le> unat (heap_start h) + unat (heap_size h)" using u(2) l W(3) s(3) by (auto simp: region_ok_def)
qed

lemma live_apart:
  assumes wf: "heap_wf h g" and b: "(b, i) \<in> live_blocks g" and c: "(c, j) \<in> live_blocks g" and ne: "b \<noteq> c"
  shows "unat b + 8 + room i \<le> unat c \<or> unat c + 8 + room j \<le> unat b"
proof -
  obtain s k where s: "(s, i) \<in> set (g_slabs g)" "k < count_of i" "b = blk s i k" using b by (auto simp: live_blocks_def blocks_of_def)
  obtain t l where t: "(t, j) \<in> set (g_slabs g)" "l < count_of j" "c = blk t j l" using c by (auto simp: live_blocks_def blocks_of_def)
  have "(s, k) \<noteq> (t, l)" using laid_class [OF heap_wfD(5) [OF wf] s(1)] t s(3) ne by auto
  then show ?thesis using blocks_apart [OF heap_wfD(5,8) [OF wf] s(1,2) t(1,2)] s(3) t(3) by simp
qed

lemma owned_areas:
  assumes rep: "heap_rep n h L" and own: "user_heap.owns L held"
  shows "\<And>i j. i < length held \<Longrightarrow> j < length held \<Longrightarrow> i \<noteq> j \<Longrightarrow> bytes (held ! i) \<inter> bytes (held ! j) = {}"
    "\<And>a x. a \<in> set held \<Longrightarrow> x \<in> bytes a \<Longrightarrow> is_mapped h x"
proof -
  obtain g where g: "heap_wf h g" "L = (\<lambda>(b, i). (b + sizeof_mblock, i)) ` live_blocks g" using rep by (auto simp: heap_rep_def)
  have own': "\<exists>b c. fst a = b + sizeof_mblock \<and> (b, c) \<in> live_blocks g \<and> unat (snd a) \<le> room c" if a: "a \<in> set held" for a
    using own a by (fastforce simp: user_heap.owns_def g(2))
  show "bytes (held ! i) \<inter> bytes (held ! j) = {}" if ij: "i < length held" "j < length held" "i \<noteq> j" for i j
  proof -
    obtain b c where b: "fst (held ! i) = b + sizeof_mblock" "(b, c) \<in> live_blocks g" "unat (snd (held ! i)) \<le> room c" using own' [OF nth_mem [OF ij(1)]] by blast
    obtain d e where d: "fst (held ! j) = d + sizeof_mblock" "(d, e) \<in> live_blocks g" "unat (snd (held ! j)) \<le> room e" using own' [OF nth_mem [OF ij(2)]] by blast
    have "fst (held ! i) \<noteq> fst (held ! j)" using own ij nth_eq_iff_index_eq [of "map fst held" i j] by (auto simp: user_heap.owns_def)
    then have "b \<noteq> d" using b d by auto
    from live_apart [OF g(1) b(2) d(2) this] live_area(1) [OF g(1) b(2)] live_area(1) [OF g(1) d(2)] b d
    show ?thesis by (auto simp: bytes_def)
  qed
  show "is_mapped h x" if a: "a \<in> set held" "x \<in> bytes a" for a x
  proof -
    obtain b c where b: "fst a = b + sizeof_mblock" "(b, c) \<in> live_blocks g" "unat (snd a) \<le> room c" using own' a(1) by blast
    note l = live_area [OF g(1) b(2)]
    have "unat (heap_start h) \<le> x" "x < unat (heap_start h) + unat (heap_size h)" using l a(2) b by (auto simp: bytes_def)
    then show ?thesis using heap_wfD(3) [OF g(1)] by (simp add: region_ok_def)
  qed
qed

subsection \<open>Properties\<close>

text \<open>
  C31. No two live areas overlap. From the data segment at the start, \<open>heap_init\<close> and any sequence of calls of \<open>malloc\<close>, with sizes from 1
  to \<open>2 ^ 19 - 56\<close>, and of \<open>free\<close>, each on a live pointer, in any order: every call returns, the areas of the pointers that are still
  live are pairwise disjoint, and every byte of them is in an area \<open>mmap\<close> gave. The bounds ask that the heap stays below \<open>USER_END\<close>.
\<close>

theorem malloc_areas_apart:
  assumes "fresh_heap h" "0 < PGROUNDUP e" "unat (PGROUNDUP e) + 2 ^ 19 * requests ops \<le> 2 ^ 37" "unat (PGROUNDUP e) \<le> 2 ^ 36"
    and "ops_ok request_ok 0 ops"
  shows "\<exists>h0 held h'. heap_init e h = Some h0 \<and> run_ops malloc Malloc.free ops [] h0 = Some (held, h') \<and>
    (\<forall>i < length held. \<forall>j < length held. i \<noteq> j \<longrightarrow> bytes (held ! i) \<inter> bytes (held ! j) = {}) \<and>
    (\<forall>a \<in> set held. \<forall>x \<in> bytes a. is_mapped h' x)"
proof -
  obtain h0 where h0: "heap_init e h = Some h0" "heap_wf h0 empty_ghost" "live_blocks empty_ghost = {}" "ufree_start h0 = PGROUNDUP e"
    using heap_init_ok [OF assms(1,2,4)] by blast
  have "heap_rep (requests ops) h0 {}" unfolding heap_rep_def using h0 assms(3) by (intro exI [of _ empty_ghost]) simp
  moreover have "user_heap.owns {} []" by (simp add: user_heap.owns_def)
  ultimately obtain held h' L' where r: "run_ops malloc Malloc.free ops [] h0 = Some (held, h')" "heap_rep 0 h' L'" "user_heap.owns L' held"
    using user_heap.run_ops_owns [of ops h0 "{}" "[]"] assms(5) by auto
  show ?thesis using h0(1) r(1) owned_areas [OF r(2,3)] by blast
qed

definition demo_heap :: uheap where
  "demo_heap = \<lparr>used_slab = replicate 24 0, avail_slab = replicate 24 0, ufree_start = 0, heap_start = 0, heap_size = 0,
     slab_at = \<lambda>_. \<lparr>s_va = 0, s_unit_size = 0, s_unit_count = 0, s_bfreelist = 0, s_prev = 0, s_next = 0\<rparr>, block_at = \<lambda>_. 0,
     mmap_ans = \<lambda>a n. a, mapped = []\<rparr>"

lemma demo_fresh_heap: "fresh_heap demo_heap" by (simp add: fresh_heap_def demo_heap_def)

lemma demo_edata: "0 < PGROUNDUP 0x3128" "unat (PGROUNDUP 0x3128) = 0x4000"
  by (simp_all add: PGROUNDUP_def PGROUNDDOWN_def PGSIZE_def word_less_nat_alt)

theorem malloc_areas_apart_witness:
  "\<exists>h0 held h'. heap_init 0x3128 demo_heap = Some h0 \<and>
    run_ops malloc Malloc.free [Request 100, Request 3000, Request 100, Release 0, Request 300000] [] h0 = Some (held, h') \<and>
    (\<forall>i < length held. \<forall>j < length held. i \<noteq> j \<longrightarrow> bytes (held ! i) \<inter> bytes (held ! j) = {}) \<and>
    (\<forall>a \<in> set held. \<forall>x \<in> bytes a. is_mapped h' x)"
  by (rule malloc_areas_apart [OF demo_fresh_heap demo_edata(1)]) (simp_all add: demo_edata request_ok_def max_request_def)

text \<open>
  The class of a request is the first one, by block size, that holds it: the smearing of the highest bit and the counting of shifts
  in \<open>get_used_slab_idx\<close> compute the linear search through the classes 12 to 23 and then 0 to 7.
\<close>

theorem used_slab_idx_first_class:
  assumes "1 \<le> unat sz" "unat sz \<le> max_request"
  shows "map_option int (find (\<lambda>i. unat sz \<le> room i) ([12 ..< 24] @ [0 ..< 8])) = Some (get_used_slab_idx sz)"
proof -
  obtain i where i: "get_used_slab_idx sz = int i" "class_ok i" "unat sz \<le> room i" "\<And>j. smaller_class j i \<Longrightarrow> room j < unat sz"
    using size_class [OF assms] by blast
  have split: "find P (xs @ i # ys) = Some i" if "\<forall>j \<in> set xs. \<not> P j" "P i" for P xs ys using that by (induction xs) auto
  have "find (\<lambda>i. unat sz \<le> room i) ([12 ..< 24] @ [0 ..< 8]) = Some i"
  proof (cases "i < 8")
    case True
    then have "[12 ..< 24] @ [0 ..< 8] = ([12 ..< 24] @ [0 ..< i]) @ i # [Suc i ..< 8]"
      using upt_add_eq_append [of 0 i "8 - i"] upt_conv_Cons [of i 8] by simp
    then show ?thesis using split [of "[12 ..< 24] @ [0 ..< i]" "\<lambda>i. unat sz \<le> room i"] i(3,4) True
      by (simp only:) (force simp: smaller_class_def not_le [symmetric])
  next
    case False
    then have r: "12 \<le> i" "i < 24" using i(2) by (auto simp: class_ok_def)
    then have "[12 ..< 24] @ [0 ..< 8] = [12 ..< i] @ i # ([Suc i ..< 24] @ [0 ..< 8])"
      using upt_add_eq_append [of 12 i "24 - i"] upt_conv_Cons [of i 24] by simp
    then show ?thesis using split [of "[12 ..< i]" "\<lambda>i. unat sz \<le> room i"] i(3,4) r
      by (simp only:) (force simp: smaller_class_def not_le [symmetric])
  qed
  then show ?thesis using i(1) by simp
qed

theorem used_slab_idx_first_class_witness:
  "map_option int (find (\<lambda>i. unat (5000 :: u64) \<le> room i) ([12 ..< 24] @ [0 ..< 8])) = Some (get_used_slab_idx 5000)"
  by (rule used_slab_idx_first_class) (simp_all add: max_request_def)

text \<open>
  A \<open>malloc\<close> and the \<open>free\<close> of its result lose a block. When the first slab of the class counts two or more free blocks, the pair of
  calls restores the whole heap but that count, which is one less: \<open>free\<close> increments it only when it is 0, and the block that came
  back is not handed out before the others are used up.
\<close>

theorem malloc_free_loses_block:
  assumes "heap_wf h g" "get_used_slab_idx sz = int i" "class_ok i" "avail_slab h ! i = s" "s \<noteq> 0" "2 \<le> unat (s_unit_count (slab_at h s))"
  shows "\<exists>p h1. malloc sz h = Some (p, h1) \<and>
    Malloc.free p h1 = Some (upd_slab s (\<lambda>x. x\<lparr>s_unit_count := s_unit_count (slab_at h s) - 1\<rparr>) h)"
proof -
  note W = heap_wfD [OF assms(1)]
  note L = W(7) [OF assms(3), unfolded lists_ok_def]
  have "slab_list (slab_at h) s (g_avail g i)" using L assms(4) by simp
  then have "s \<in> set (g_avail g i)" using assms(5) by (cases "g_avail g i") (simp_all add: slab_list_def list_ok_def)
  then have "(s, i) \<in> set (g_slabs g)" using L by auto
  note ok = W(6) [OF this, unfolded slab_ok_def]
  obtain b fs where fs: "g_free g s = b # fs" using ok assms(6) by (cases "g_free g s") auto
  let ?b = "s_bfreelist (slab_at h s)" and ?c = "s_unit_count (slab_at h s)"
  have b: "?b \<noteq> 0" using ok fs by simp
  have c: "?c \<noteq> 0" "?c - 1 \<noteq> 0"
  proof -
    show "?c \<noteq> 0" using assms(6) by auto
    then have "unat (?c - 1) = unat ?c - 1" by (rule unat_minus_one)
    then show "?c - 1 \<noteq> 0" using assms(6) by auto
  qed
  have i: "i < 24" by (rule class_facts(10) [OF assms(3)])
  define h1 where "h1 = h\<lparr>block_at := (block_at h)(?b := s),
    slab_at := (slab_at h)(s := (slab_at h s)\<lparr>s_bfreelist := block_at h ?b, s_unit_count := ?c - 1\<rparr>)\<rparr>"
  have "malloc sz h = Some (?b + sizeof_mblock, h1)"
    using assms(2,4,5) W(1) i b c
    by (simp add: malloc_def alloc_block_def get_avail_slab_def take_block_def upd_slab_def set_block_def h1_def Let_def)
  moreover have "Malloc.free (?b + sizeof_mblock) h1 = Some (upd_slab s (\<lambda>x. x\<lparr>s_unit_count := ?c - 1\<rparr>) h)"
    using c by (simp add: free_def free_block_def h1_def upd_slab_def set_block_def Let_def)
  ultimately show ?thesis by blast
qed

text \<open>A slab of three blocks of 1024 bytes.\<close>

lemma demo_slab: "\<exists>h g. heap_wf h g \<and> avail_slab h ! 22 \<noteq> 0 \<and> s_unit_count (slab_at h (avail_slab h ! 22)) = 3"
proof -
  obtain h0 where h0: "heap_wf h0 empty_ghost" "ufree_start h0 = PGROUNDUP 0x3128"
    using heap_init_ok [OF demo_fresh_heap demo_edata(1)] demo_edata(2) by auto
  have c: "class_ok 22" "count_of 22 = 3" "pages_of 22 = 1" by (simp_all add: class_ok_def count_of_def pages_of_def)
  obtain h g where "heap_wf h g" "avail_slab h ! 22 = PGROUNDUP 0x3128" "s_unit_count (slab_at h (PGROUNDUP 0x3128)) = 3"
    using alloc_slab_ok [OF h0(1) c(1)] h0(2) c(2,3) demo_edata(2) by (auto simp: empty_ghost_def)
  then show ?thesis using demo_edata(1) by (metis less_irrefl)
qed

theorem malloc_free_loses_block_witness:
  "\<exists>h s p h1. s_unit_count (slab_at h s) = 3 \<and> malloc 1000 h = Some (p, h1) \<and>
    Malloc.free p h1 = Some (upd_slab s (\<lambda>x. x\<lparr>s_unit_count := 2\<rparr>) h)"
proof -
  obtain h g where h: "heap_wf h g" "avail_slab h ! 22 \<noteq> 0" "s_unit_count (slab_at h (avail_slab h ! 22)) = 3" using demo_slab by blast
  have "user_fixsize 1000 = 1024" by (simp add: user_fixsize_def Let_def)
  then have "get_used_slab_idx 1000 = int 22"
    using bit_steps_pow2 [of 10 1024 12] by (simp add: get_used_slab_idx_def PGSIZE_def word_le_nat_alt)
  from malloc_free_loses_block [OF h(1) this _ refl h(2)] h(3) show ?thesis by (auto simp: class_ok_def)
qed

end
