(* ===== verification/Dirent.thy ===== *)
theory Dirent
  imports Files Malloc
begin

unbundle bit_operations_syntax

text \<open>
  Directory streams of the user library (\<open>user/src/dirent.c\<close>, with \<open>DIR\<close> of \<open>sys_dirent.h\<close>), and the user's view of the kernel: every
  system call is a field of \<open>uenv\<close>, a function of the world \<open>'w\<close> outside the program. The stubs in \<open>user/src/syscalls.c\<close> are inline
  assembly. A result the program ignores is left out.
\<close>

subsection \<open>System calls\<close>

text \<open>
  \<open>u_read\<close> gives the result and the bytes stored in the buffer; \<open>u_getdents\<close> gives nothing when the call fails before it stores
  anything, else the bytes for \<open>buf\<close>, and the new \<open>buf_size\<close> and \<open>num_entries\<close>; \<open>u_execve\<close> says whether the program was replaced.
\<close>

record 'w uenv =
  u_open :: "u8 list \<Rightarrow> u32 \<Rightarrow> 'w \<Rightarrow> int \<times> 'w"
  u_close :: "int \<Rightarrow> 'w \<Rightarrow> 'w"
  u_lseek :: "int \<Rightarrow> int \<Rightarrow> u64 \<Rightarrow> 'w \<Rightarrow> 'w"
  u_read :: "int \<Rightarrow> nat \<Rightarrow> 'w \<Rightarrow> int \<times> u8 list \<times> 'w"
  u_write :: "int \<Rightarrow> u8 list \<Rightarrow> 'w \<Rightarrow> 'w"
  u_getdents :: "int \<Rightarrow> nat \<Rightarrow> 'w \<Rightarrow> (u8 list \<times> int \<times> int) option \<times> 'w"
  u_fork :: "'w \<Rightarrow> int \<times> 'w"
  u_waitpid :: "int \<Rightarrow> 'w \<Rightarrow> 'w"
  u_execve :: "u8 list \<Rightarrow> 'w \<Rightarrow> bool \<times> 'w"

subsection \<open>DIR\<close>

text \<open>\<open>current\<close> is a position in \<open>buf\<close>, or null.\<close>

record dir_stream =
  ds_fd :: int
  num_entries :: int
  buf_size :: int
  ds_buf :: "u8 list"
  ds_current :: "nat option"

definition sizeof_DIR :: u64 where "sizeof_DIR = 536"
definition DIR_BUF :: nat where "DIR_BUF = 512"

record 'w ust =
  world :: 'w
  uheap_of :: uheap
  dirs :: "u64 \<Rightarrow> dir_stream"

definition upd_dir :: "u64 \<Rightarrow> (dir_stream \<Rightarrow> dir_stream) \<Rightarrow> ('w, 'a) ust_scheme \<Rightarrow> ('w, 'a) ust_scheme" where
  "upd_dir p f st = st\<lparr>dirs := (dirs st)(p := f (dirs st p))\<rparr>"

definition fdopendir :: "int \<Rightarrow> ('w, 'a) ust_scheme \<Rightarrow> (u64 \<times> ('w, 'a) ust_scheme) option" where
  "fdopendir fd st =
     do { (dirp, h) \<leftarrow> malloc sizeof_DIR (uheap_of st);
          Some (dirp, upd_dir dirp (\<lambda>d. d\<lparr>ds_fd := fd, num_entries := 0, buf_size := 0, ds_current := None\<rparr>) (st\<lparr>uheap_of := h\<rparr>)) }"

definition opendir :: "'w uenv \<Rightarrow> u8 list \<Rightarrow> ('w, 'a) ust_scheme \<Rightarrow> (u64 \<times> ('w, 'a) ust_scheme) option" where
  "opendir E name st =
     (let (fd, w) = u_open E name (O_DIRECTORY OR O_RDONLY) (world st); st = st\<lparr>world := w\<rparr>
      in if fd < 0 then Some (0, st)
         else do { (dirp, h) \<leftarrow> malloc sizeof_DIR (uheap_of st);
                   Some (dirp, upd_dir dirp (\<lambda>d. d\<lparr>ds_fd := fd, num_entries := 0, buf_size := 0, ds_current := None\<rparr>) (st\<lparr>uheap_of := h\<rparr>)) })"

definition closedir :: "'w uenv \<Rightarrow> u64 \<Rightarrow> ('w, 'a) ust_scheme \<Rightarrow> ('w, 'a) ust_scheme option" where
  "closedir E dirp st =
     do { let st = st\<lparr>world := u_close E (ds_fd (dirs st dirp)) (world st)\<rparr>; h \<leftarrow> Malloc.free dirp (uheap_of st); Some (st\<lparr>uheap_of := h\<rparr>) }"

text \<open>The call of \<open>getdents64\<close> on the stream itself.\<close>

definition refill_dir :: "'w uenv \<Rightarrow> u64 \<Rightarrow> ('w, 'a) ust_scheme \<Rightarrow> ('w, 'a) ust_scheme" where
  "refill_dir E dirp st =
     (case u_getdents E (ds_fd (dirs st dirp)) DIR_BUF (world st) of
        (None, w) \<Rightarrow> st\<lparr>world := w\<rparr>
      | (Some (bs, n, k), w) \<Rightarrow>
          upd_dir dirp (\<lambda>d. d\<lparr>ds_buf := bs @ drop (length bs) (ds_buf d), buf_size := n, num_entries := k\<rparr>) (st\<lparr>world := w\<rparr>))"

text \<open>The position of the entry, or null. An entry outside \<open>buf\<close> is undefined.\<close>

definition readdir :: "'w uenv \<Rightarrow> u64 \<Rightarrow> ('w, 'a) ust_scheme \<Rightarrow> (nat option \<times> ('w, 'a) ust_scheme) option" where
  "readdir E dirp st =
     do { let d = dirs st dirp;
          let again = (case ds_current d of None \<Rightarrow> True | Some c \<Rightarrow> int c \<ge> int sizeof_dirent * num_entries d);
          let st = (if again then upd_dir dirp (\<lambda>d. d\<lparr>ds_current := Some 0\<rparr>) (refill_dir E dirp st) else st);
          let d = dirs st dirp;
          if again \<and> num_entries d \<le> 0 then Some (None, st)
          else do { c \<leftarrow> ds_current d; len \<leftarrow> le16 (ds_buf d) (c + 16);
                    Some (Some c, upd_dir dirp (\<lambda>d. d\<lparr>ds_current := Some (c + unat len)\<rparr>) st) } }"

end
