(* ===== verification/Shell.thy ===== *)
theory Shell
  imports Dirent Printf
begin

unbundle bit_operations_syntax

text \<open>
  The shell, the user program with \<open>USER_MAIN == SHELL\<close> (lines 186 to 395 of \<open>user/src/main.c\<close>). A pointer into the command line is the rest of
  the 128-byte array from there on, so a read past its end is undefined; \<open>string_buf\<close> is the array of 2048 bytes. A call of \<open>printf\<close>
  is one write of the text it formats.
\<close>

subsection \<open>Strings\<close>

definition cstr :: "u8 list \<Rightarrow> u8 list option" where
  "cstr bs = (if 0 \<in> set bs then Some (takeWhile (\<lambda>b. b \<noteq> 0) bs) else None)"

definition SPACE :: u8 where "SPACE = 32"
definition QUOTE :: u8 where "QUOTE = 34"

fun skip_spaces :: "u8 list \<Rightarrow> u8 list option" where
  "skip_spaces [] = None"
| "skip_spaces (c # cmd) = (if c = SPACE then skip_spaces cmd else Some (c # cmd))"

text \<open>An \<open>int\<close>; signed overflow is undefined.\<close>

definition c_int_op :: "int \<Rightarrow> int option" where
  "c_int_op n = (if INT_MIN \<le> n \<and> n \<le> INT_MAX then Some n else None)"

fun atoi_loop :: "u8 list \<Rightarrow> int \<Rightarrow> int option" where
  "atoi_loop [] res = Some res"
| "atoi_loop (c # cs) res =
     do { t \<leftarrow> c_int_op (res * 10); t \<leftarrow> c_int_op (t + uint c); t \<leftarrow> c_int_op (t - uint (ch (CHR ''0''))); atoi_loop cs t }"

definition atoi :: "u8 list \<Rightarrow> int option" where
  "atoi s = do { bs \<leftarrow> cstr s; atoi_loop bs 0 }"

text \<open>The loops that copy into \<open>string_buf\<close> up to a byte that stops them.\<close>

fun copy_until :: "(u8 \<Rightarrow> bool) \<Rightarrow> u8 list \<Rightarrow> nat \<Rightarrow> u8 list \<Rightarrow> u8 list option" where
  "copy_until stop [] pos buf = None"
| "copy_until stop (c # cmd) pos buf =
     (if stop c then wr buf pos 0 else do { buf \<leftarrow> wr buf pos c; copy_until stop cmd (Suc pos) buf })"

definition get_param :: "u8 list \<Rightarrow> u8 list \<Rightarrow> u8 list option" where
  "get_param cmd buf = do { cmd \<leftarrow> skip_spaces cmd; copy_until (\<lambda>c. c = 0 \<or> c = SPACE) cmd 0 buf }"

definition get_string :: "u8 list \<Rightarrow> u8 list \<Rightarrow> u8 list option" where
  "get_string cmd buf =
     do { cmd \<leftarrow> skip_spaces cmd;
          c \<leftarrow> rd cmd 0;
          if c = QUOTE then copy_until (\<lambda>c. c = QUOTE) (drop 1 cmd) 0 buf else get_param cmd buf }"

subsection \<open>The commands\<close>

record 'w shell = "'w ust" +
  string_buf :: "u8 list"

definition say :: "'w uenv \<Rightarrow> u8 list \<Rightarrow> ('w, 'a) ust_scheme \<Rightarrow> ('w, 'a) ust_scheme" where
  "say E bs st = st\<lparr>world := u_write E 1 bs (world st)\<rparr>"

definition dec_text :: "int \<Rightarrow> u8 list" where
  "dec_text n = (if n < 0 then [ch (CHR ''-'')] else []) @ (if n = 0 then bytes ''0'' else fmt_u (word_of_int \<bar>n\<bar>) [])"

definition O_RDWR :: u32 where "O_RDWR = 3"
definition CAT_BUF_SIZE :: nat where "CAT_BUF_SIZE = 509"

definition NEWLINE :: u8 where "NEWLINE = 10"

definition sh_echo :: "'w uenv \<Rightarrow> u8 list \<Rightarrow> 'w shell \<Rightarrow> 'w shell option" where
  "sh_echo E cmd st =
     do { buf \<leftarrow> get_string cmd (string_buf st);
          s \<leftarrow> cstr buf;
          Some (say E [NEWLINE] (say E s (st\<lparr>string_buf := buf\<rparr>))) }"

text \<open>One line of \<open>ls\<close>: the name up to a blank, and the extension of a file. A name that is not terminated is undefined.\<close>

definition print_entry :: "'w uenv \<Rightarrow> u64 \<Rightarrow> nat \<Rightarrow> 'w shell \<Rightarrow> 'w shell option" where
  "print_entry E dirp ent st =
     do { let buf = ds_buf (dirs st dirp);
          ty \<leftarrow> rd buf (ent + 18);
          d_name \<leftarrow> field buf (ent + 19) 12;
          let st = say E (takeWhile (\<lambda>b. b \<noteq> SPACE \<and> b \<noteq> 0) (take 8 d_name)) st;
          st \<leftarrow> (if ty = DT_REG \<and> d_name ! 8 \<noteq> SPACE \<and> d_name ! 8 \<noteq> 0
                 then do { e \<leftarrow> cstr (drop 8 d_name); Some (say E (bytes ''.'' @ e) st) } else Some st);
          Some (say E [NEWLINE] st) }"

partial_function (option) ls_loop :: "'w uenv \<Rightarrow> u64 \<Rightarrow> 'w shell \<Rightarrow> 'w shell option" where
  "ls_loop E dirp st =
     Option.bind (readdir E dirp st) (\<lambda>(ent, st).
       case ent of None \<Rightarrow> Some st | Some c \<Rightarrow> Option.bind (print_entry E dirp c st) (\<lambda>st. ls_loop E dirp st))"

declare ls_loop.simps [code]

definition cant_open :: "'w uenv \<Rightarrow> u8 list \<Rightarrow> 'w shell \<Rightarrow> 'w shell" where
  "cant_open E name st = say E (bytes ''can't open file: '' @ name @ [NEWLINE]) st"

definition sh_ls :: "'w uenv \<Rightarrow> u8 list \<Rightarrow> 'w shell \<Rightarrow> 'w shell option" where
  "sh_ls E cmd st =
     do { cmd \<leftarrow> skip_spaces cmd;
          buf \<leftarrow> get_param cmd (string_buf st);
          name \<leftarrow> cstr buf;
          let (fd, w) = u_open E name (O_RDONLY OR O_DIRECTORY) (world st);
          let st = st\<lparr>string_buf := buf, world := w\<rparr>;
          if fd = - 1 then Some (cant_open E name st)
          else do { (dirp, st) \<leftarrow> fdopendir fd st; st \<leftarrow> ls_loop E dirp st; closedir E dirp st } }"

text \<open>One byte of a file: a NUL is shown as an x.\<close>

definition cat_byte :: "'w uenv \<Rightarrow> u8 \<Rightarrow> 'w shell \<Rightarrow> 'w shell" where
  "cat_byte E b st = say E (if b = 0 then bytes ''x'' else [b]) st"

partial_function (option) cat_loop :: "'w uenv \<Rightarrow> int \<Rightarrow> u8 \<Rightarrow> 'w shell \<Rightarrow> 'w shell option" where
  "cat_loop E fd last_char st =
     (let (n, bs, w) = u_read E fd CAT_BUF_SIZE (world st);
          st = say E (bytes ''num_chars = '' @ dec_text n @ [NEWLINE]) (st\<lparr>world := w\<rparr>)
      in if n = 0 then Some (if last_char \<noteq> NEWLINE then say E (bytes ''$'' @ [NEWLINE]) st else st)
         else if int (length bs) < n then None
         else cat_loop E fd (if n < 0 then last_char else last (take (nat n) bs)) (fold (cat_byte E) (take (nat n) bs) st))"

declare cat_loop.simps [code]

definition sh_cat :: "'w uenv \<Rightarrow> u8 list \<Rightarrow> 'w shell \<Rightarrow> 'w shell option" where
  "sh_cat E cmd st =
     do { buf \<leftarrow> get_param cmd (string_buf st);
          name \<leftarrow> cstr buf;
          let (fd, w) = u_open E name O_RDONLY (world st);
          let st = st\<lparr>string_buf := buf, world := w\<rparr>;
          if fd = - 1 then Some (cant_open E name st)
          else do { st \<leftarrow> cat_loop E fd 0 st; Some (st\<lparr>world := u_close E fd (world st)\<rparr>) } }"

text \<open>\<open>cmd += len\<close>, with \<open>len\<close> the length of the parameter.\<close>

definition sh_edit :: "'w uenv \<Rightarrow> u8 list \<Rightarrow> 'w shell \<Rightarrow> 'w shell option" where
  "sh_edit E cmd st =
     do { cmd \<leftarrow> skip_spaces cmd;
          buf \<leftarrow> get_param cmd (string_buf st);
          filename \<leftarrow> cstr buf;
          cmd \<leftarrow> skip_spaces (drop (length filename) cmd);
          buf \<leftarrow> get_param cmd buf;
          offset \<leftarrow> cstr buf;
          cmd \<leftarrow> skip_spaces (drop (length offset) cmd);
          buf \<leftarrow> get_string cmd buf;
          content \<leftarrow> cstr buf;
          offset_int \<leftarrow> atoi (offset @ [0]);
          let (fd, w) = u_open E filename O_RDWR (world st);
          let w = u_lseek E fd offset_int SEEK_SET w;
          let w = u_write E fd content w;
          Some (st\<lparr>string_buf := buf, world := u_close E fd w\<rparr>) }"

text \<open>A program: the parent waits, the child is replaced. \<open>None\<close> in the result is a program that was replaced.\<close>

definition sh_run :: "'w uenv \<Rightarrow> u8 list \<Rightarrow> 'w shell \<Rightarrow> 'w shell option option" where
  "sh_run E cmd st =
     (let (pid, w) = u_fork E (world st); st = st\<lparr>world := w\<rparr>
      in if pid \<noteq> 0 then
           let st = say E (bytes ''waiting for child process '' @ dec_text pid @ bytes '' ...'' @ [NEWLINE]) st
           in Some (Some (st\<lparr>world := u_waitpid E pid (world st)\<rparr>))
         else do { name \<leftarrow> cstr cmd; let (gone, w) = u_execve E name (world st);
                   Some (if gone then None else Some (st\<lparr>world := w\<rparr>)) })"

definition begins :: "string \<Rightarrow> u8 list \<Rightarrow> bool" where
  "begins kw cmd \<longleftrightarrow> take (length kw) cmd = bytes kw"

text \<open>The result 1 of \<open>parse_cmd\<close> is the flag.\<close>

definition parse_cmd :: "'w uenv \<Rightarrow> u8 list \<Rightarrow> 'w shell \<Rightarrow> (bool \<times> 'w shell) option option" where
  "parse_cmd E cmd st =
     (let go = map_option (\<lambda>st. Some (False, st))
      in if begins ''echo'' cmd then go (sh_echo E (drop 4 cmd) st)
         else if begins ''ls'' cmd then go (sh_ls E (drop 2 cmd) st)
         else if begins ''cat'' cmd then go (sh_cat E (drop 3 cmd) st)
         else if begins ''edit'' cmd then go (sh_edit E (drop 4 cmd) st)
         else if begins ''exit'' cmd then Some (Some (True, say E (bytes ''Exiting shell...'' @ [NEWLINE]) st))
         else if begins ''/'' cmd then map_option (map_option (\<lambda>st. (False, st))) (sh_run E cmd st)
         else do { s \<leftarrow> cstr cmd; Some (Some (False, say E (bytes ''Command not supported: '' @ s @ [NEWLINE]) st)) })"

subsection \<open>The line editor\<close>

text \<open>The local variables of \<open>main\<close>; \<open>read_buf\<close> is its first byte, the only one used.\<close>

record 'w shell_main =
  sh :: "'w shell"
  read_byte :: u8
  line_buf :: "u8 list"
  char_in_line :: nat

definition LINE_SIZE :: nat where "LINE_SIZE = 128"
definition CR :: u8 where "CR = 13"
definition DEL :: u8 where "DEL = 127"

definition prompt :: "u8 list" where
  "prompt = [27] @ bytes ''[33m'' @ bytes ''SHELL > '' @ [27] @ bytes ''[0m''"

definition upd_sh :: "('w shell \<Rightarrow> 'w shell) \<Rightarrow> 'w shell_main \<Rightarrow> 'w shell_main" where
  "upd_sh f m = m\<lparr>sh := f (sh m)\<rparr>"

datatype 'w shell_run = Running "'w shell_main" | Stopped "'w shell_main" | Replaced

definition after_command :: "'w uenv \<Rightarrow> u8 list \<Rightarrow> 'w shell_main \<Rightarrow> (bool \<times> 'w shell) option \<Rightarrow> 'w shell_run" where
  "after_command E line m res =
     (case res of None \<Rightarrow> Replaced
      | Some (stop, s) \<Rightarrow>
          let m = m\<lparr>sh := s, line_buf := line\<rparr>
          in if stop then Stopped m else Running ((upd_sh (say E prompt) m)\<lparr>char_in_line := 0\<rparr>))"

text \<open>One turn of the loop of \<open>main\<close>; after \<open>exit\<close> the program stays in an empty loop.\<close>

definition shell_turn :: "'w uenv \<Rightarrow> 'w shell_main \<Rightarrow> 'w shell_run option" where
  "shell_turn E m =
     (let (n, bs, w) = u_read E 0 1 (world (sh m));
          m = upd_sh (\<lambda>st. st\<lparr>world := w\<rparr>) m;
          m = (if bs = [] then m else m\<lparr>read_byte := hd bs\<rparr>);
          c = read_byte m
      in if c = DEL then
           Some (Running (if char_in_line m > 0
                          then (upd_sh (say E [8, SPACE, 8]) m)\<lparr>char_in_line := char_in_line m - 1\<rparr> else m))
         else
           let m = (if c = CR then upd_sh (say E [NEWLINE]) m else m);
               m = upd_sh (say E [c]) m
           in if c = CR then
                do { line \<leftarrow> wr (line_buf m) (char_in_line m) 0;
                     res \<leftarrow> parse_cmd E line (sh m);
                     Some (after_command E line m res) }
              else do { line \<leftarrow> wr (line_buf m) (char_in_line m) c;
                        Some (Running (m\<lparr>line_buf := line, char_in_line := char_in_line m + 1\<rparr>)) })"

fun shell_turns :: "'w uenv \<Rightarrow> nat \<Rightarrow> 'w shell_main \<Rightarrow> 'w shell_run option" where
  "shell_turns E 0 m = Some (Running m)"
| "shell_turns E (Suc n) m =
     do { r \<leftarrow> shell_turn E m; case r of Running m \<Rightarrow> shell_turns E n m | r \<Rightarrow> Some r }"

end
