(* ===== verification/Shell_Claims.thy ===== *)
theory Shell_Claims
  imports Shell
begin

unbundle bit_operations_syntax

text \<open>The line editor of the shell, and \<open>ls\<close> over the directory stream.\<close>

subsection \<open>The line editor\<close>

text \<open>The line after a sequence of keys: a DEL takes back the last key.\<close>

definition edit_key :: "u8 list \<Rightarrow> u8 \<Rightarrow> u8 list" where
  "edit_key line c = (if c = DEL then butlast line else line @ [c])"

definition edit_line :: "u8 list \<Rightarrow> u8 list" where "edit_line cs = foldl edit_key [] cs"

text \<open>A console that gives its keys one by one, and output that takes none of them.\<close>

definition keyboard :: "'w uenv \<Rightarrow> ('w \<Rightarrow> u8 list) \<Rightarrow> bool" where
  "keyboard E keys \<longleftrightarrow> (\<forall>w c cs. keys w = c # cs \<longrightarrow> (\<exists>w'. u_read E 0 1 w = (1, [c], w') \<and> keys w' = cs)) \<and>
     (\<forall>fd bs w. keys (u_write E fd bs w) = keys w)"

definition editing :: "u8 list \<Rightarrow> 'w shell_main \<Rightarrow> bool" where
  "editing line m \<longleftrightarrow> length (line_buf m) = LINE_SIZE \<and> char_in_line m = length line \<and> take (length line) (line_buf m) = line"

lemma turn_key:
  assumes kb: "keyboard E keys" and k: "keys (world (sh m)) = c # cs" and c: "c \<noteq> CR" and ed: "editing line m"
    and fit: "length (edit_key line c) \<le> LINE_SIZE"
  shows "\<exists>m'. shell_turn E m = Some (Running m') \<and> editing (edit_key line c) m' \<and> keys (world (sh m')) = cs"
proof -
  obtain w' where w': "u_read E 0 1 (world (sh m)) = (1, [c], w')" "keys w' = cs" using kb k by (fastforce simp: keyboard_def)
  have wr: "keys (u_write E fd bs w) = keys w" for fd bs w using kb by (simp add: keyboard_def)
  have e: "length (line_buf m) = LINE_SIZE" "char_in_line m = length line" "take (length line) (line_buf m) = line"
    using ed by (simp_all add: editing_def)
  have le: "length line \<le> LINE_SIZE" using e by (metis length_take min.absorb_iff2 nat_le_linear min_def)
  show ?thesis
  proof (cases "c = DEL")
    case True
    show ?thesis
    proof (cases "line = []")
      case True
      then show ?thesis using w' e \<open>c = DEL\<close>
        by (simp add: shell_turn_def Let_def upd_sh_def editing_def edit_key_def)
    next
      case False
      have "take (length line - 1) (line_buf m) = butlast line"
        using e(3) le by (metis butlast_take e(1) )
      then show ?thesis using w' e \<open>c = DEL\<close> False
        by (simp add: shell_turn_def Let_def upd_sh_def editing_def edit_key_def say_def wr)
    qed
  next
    case False
    then have lt: "length line < LINE_SIZE" using fit by (simp add: edit_key_def)
    have "take (Suc (length line)) ((line_buf m)[length line := c]) = line @ [c]"
      using e lt by (simp add: take_Suc_conv_app_nth take_update_cancel)
    then show ?thesis using w' e c False lt
      by (simp add: shell_turn_def Let_def upd_sh_def editing_def edit_key_def say_def wr)
  qed
qed

lemma turns_keys:
  assumes kb: "keyboard E keys"
  shows "keys (world (sh m)) = cs @ rest \<Longrightarrow> CR \<notin> set cs \<Longrightarrow> editing line m \<Longrightarrow>
    (\<forall>n \<le> length cs. length (foldl edit_key line (take n cs)) \<le> LINE_SIZE) \<Longrightarrow>
    \<exists>m'. shell_turns E (length cs) m = Some (Running m') \<and> editing (foldl edit_key line cs) m' \<and> keys (world (sh m')) = rest"
proof (induction cs arbitrary: m line)
  case (Cons c cs)
  have "length (foldl edit_key line (take 1 (c # cs))) \<le> LINE_SIZE" using Cons.prems(4) by (metis One_nat_def Suc_le_eq length_Cons zero_less_Suc)
  then have fit: "length (edit_key line c) \<le> LINE_SIZE" by simp
  obtain m1 where m1: "shell_turn E m = Some (Running m1)" "editing (edit_key line c) m1" "keys (world (sh m1)) = cs @ rest"
    using turn_key [OF kb _ _ Cons.prems(3) fit] Cons.prems(1,2) by auto
  have "\<forall>n \<le> length cs. length (foldl edit_key (edit_key line c) (take n cs)) \<le> LINE_SIZE"
  proof (intro allI impI)
    fix n assume "n \<le> length cs"
    then have "length (foldl edit_key line (take (Suc n) (c # cs))) \<le> LINE_SIZE" using Cons.prems(4) by (metis Suc_le_mono length_Cons)
    then show "length (foldl edit_key (edit_key line c) (take n cs)) \<le> LINE_SIZE" by simp
  qed
  from Cons.IH [OF m1(3) _ m1(2) this] Cons.prems(2) m1(1) show ?case by auto
qed auto

lemma turns_add: "shell_turns E n m = Some (Running m') \<Longrightarrow> shell_turns E (n + k) m = shell_turns E k m'"
  by (induction n arbitrary: m) (auto split: Option.bind_splits shell_run.splits)

lemma turns_one: "shell_turns E (Suc 0) m = shell_turn E m"
  by (auto split: Option.bind_splits shell_run.splits)

text \<open>
  C32. The line editor. Keys come one by one; the shell echoes them, takes back the last one at a DEL, and at the end of the line hands
  \<open>parse_cmd\<close> exactly the edited line, terminated, with the keys after it still to come. The line must stay shorter than the
  buffer at every moment.
\<close>

theorem shell_edits_line:
  assumes "keyboard E keys" and "keys (world (sh m)) = cs @ CR # rest" and "CR \<notin> set cs"
    and "length (line_buf m) = LINE_SIZE" and "char_in_line m = 0"
    and "\<forall>n \<le> length cs. length (edit_line (take n cs)) < LINE_SIZE"
  shows "\<exists>line m' st. take (Suc (length (edit_line cs))) line = edit_line cs @ [0] \<and> keys (world st) = rest \<and>
    shell_turns E (Suc (length cs)) m = map_option (after_command E line m') (parse_cmd E line st)"
proof -
  have "editing [] m" using assms(4,5) by (simp add: editing_def)
  then obtain m1 where m1: "shell_turns E (length cs) m = Some (Running m1)" "editing (edit_line cs) m1" "keys (world (sh m1)) = CR # rest"
    using turns_keys [OF assms(1,2,3)] assms(6) unfolding edit_line_def by (meson less_imp_le)
  have wr: "keys (u_write E fd bs w) = keys w" for fd bs w using assms(1) by (simp add: keyboard_def)
  obtain w' where w': "u_read E 0 1 (world (sh m1)) = (1, [CR], w')" "keys w' = rest" using assms(1) m1(3) by (fastforce simp: keyboard_def)
  let ?l = "edit_line cs"
  have e: "length (line_buf m1) = LINE_SIZE" "char_in_line m1 = length ?l" "take (length ?l) (line_buf m1) = ?l"
    using m1(2) by (simp_all add: editing_def)
  have lt: "length ?l < LINE_SIZE" using assms(6) by (metis order_refl take_all)
  define line where "line = (line_buf m1)[length ?l := 0]"
  have t: "take (Suc (length ?l)) line = ?l @ [0]"
    using e lt by (simp add: line_def take_Suc_conv_app_nth take_update_cancel)
  define m2 where "m2 = upd_sh (say E [CR]) (upd_sh (say E [NEWLINE]) (upd_sh (\<lambda>st. st\<lparr>world := w'\<rparr>) m1\<lparr>read_byte := CR\<rparr>))"
  have f: "line_buf m2 = line_buf m1" "char_in_line m2 = char_in_line m1" "keys (world (sh m2)) = rest"
    by (simp_all add: m2_def upd_sh_def say_def wr w'(2))
  have "CR \<noteq> DEL" by (simp add: CR_def DEL_def)
  then have "shell_turn E m1 = Option.bind (wr (line_buf m2) (char_in_line m2) 0) (\<lambda>line. Option.bind (parse_cmd E line (sh m2))
      (\<lambda>res. Some (after_command E line m2 res)))"
    using w'(1) by (simp add: shell_turn_def Let_def m2_def upd_sh_def)
  then have "shell_turn E m1 = map_option (after_command E line m2) (parse_cmd E line (sh m2))"
    using e(1,2) lt by (simp add: f(1,2) line_def) (cases "parse_cmd E ((line_buf m1)[length ?l := 0]) (sh m2)"; simp)
  then have "shell_turns E (Suc (length cs)) m = map_option (after_command E line m2) (parse_cmd E line (sh m2))"
    using turns_add [OF m1(1), of "Suc 0"] turns_one [of E m1] by simp
  then show ?thesis using t f(3) by blast
qed

text \<open>
  The line buffer overflows: after 128 keys without DEL the next key, the end of the line included, is stored behind the array.
\<close>

theorem shell_line_overflow:
  assumes "keyboard E keys" and "keys (world (sh m)) = cs @ c # rest" and "CR \<notin> set cs" "DEL \<notin> set cs" "c \<noteq> DEL"
    and "length (line_buf m) = LINE_SIZE" and "char_in_line m = 0" and "length cs = LINE_SIZE"
  shows "shell_turns E (Suc LINE_SIZE) m = None"
proof -
  have fold: "foldl edit_key line xs = line @ xs" if "DEL \<notin> set xs" for line xs
    using that by (induction xs arbitrary: line) (auto simp: edit_key_def)
  have pre: "\<forall>n \<le> length cs. length (foldl edit_key [] (take n cs)) \<le> LINE_SIZE"
  proof (intro allI impI)
    fix n assume "n \<le> length cs"
    have "DEL \<notin> set (take n cs)" using assms(4) by (auto dest: in_set_takeD)
    then show "length (foldl edit_key [] (take n cs)) \<le> LINE_SIZE" using assms(8) by (simp add: fold)
  qed
  have "editing [] m" using assms(6,7) by (simp add: editing_def)
  then obtain m1 where m1: "shell_turns E (length cs) m = Some (Running m1)" "editing cs m1" "keys (world (sh m1)) = c # rest"
    using turns_keys [OF assms(1,2,3) _ pre] fold [OF assms(4), of "[]"] by auto
  obtain w' where w': "u_read E 0 1 (world (sh m1)) = (1, [c], w')" using assms(1) m1(3) by (fastforce simp: keyboard_def)
  have e: "length (line_buf m1) = LINE_SIZE" "char_in_line m1 = LINE_SIZE" using m1(2) assms(8) by (simp_all add: editing_def)
  have "shell_turn E m1 = None" using w' e assms(5) by (simp add: shell_turn_def Let_def upd_sh_def)
  then show ?thesis using turns_add [OF m1(1), of "Suc 0"] turns_one [of E m1] assms(8) by simp
qed

text \<open>A console that holds the keys to come and the output so far.\<close>

definition demo_env :: "(u8 list \<times> u8 list) uenv" where
  "demo_env = \<lparr>u_open = \<lambda>_ _ w. (3, w), u_close = \<lambda>_ w. w, u_lseek = \<lambda>_ _ _ w. w,
     u_read = \<lambda>_ _ (ks, out). (case ks of [] \<Rightarrow> (0, [], (ks, out)) | k # ks \<Rightarrow> (1, [k], (ks, out))),
     u_write = \<lambda>_ bs (ks, out). (ks, out @ bs), u_getdents = \<lambda>_ _ w. (None, w), u_fork = \<lambda>w. (0, w), u_waitpid = \<lambda>_ w. w,
     u_execve = \<lambda>_ w. (False, w)\<rparr>"

definition demo_main :: "u8 list \<Rightarrow> (u8 list \<times> u8 list) shell_main" where
  "demo_main ks = \<lparr>sh = \<lparr>world = (ks, []), uheap_of = undefined, dirs = undefined, string_buf = replicate 2048 0\<rparr>, read_byte = 0,
     line_buf = replicate 128 0, char_in_line = 0\<rparr>"

lemma demo_keyboard: "keyboard demo_env fst"
  by (auto simp: keyboard_def demo_env_def split_def)

lemma demo_main_sel: "world (sh (demo_main ks)) = (ks, [])" "length (line_buf (demo_main ks)) = LINE_SIZE" "char_in_line (demo_main ks) = 0"
  by (simp_all add: demo_main_def LINE_SIZE_def)

theorem shell_edits_line_witness:
  "\<exists>line m' st. take (Suc (length [97, 99 :: u8])) line = [97, 99] @ [0] \<and> fst (world st) = [100] \<and>
    shell_turns demo_env (Suc (length [97, 98, DEL, 99])) (demo_main ([97, 98, DEL, 99] @ CR # [100])) =
      map_option (after_command demo_env line m') (parse_cmd demo_env line st)"
proof -
  let ?cs = "[97, 98, DEL, 99]"
  have e: "edit_line ?cs = [97, 99]" by (simp add: edit_line_def edit_key_def DEL_def)
  have fit: "\<forall>n \<le> length ?cs. length (edit_line (take n ?cs)) < LINE_SIZE"
  proof (intro allI impI)
    fix n assume "n \<le> length ?cs"
    then have "n \<in> {0, 1, 2, 3, 4}" by auto
    then show "length (edit_line (take n ?cs)) < LINE_SIZE" by (auto simp: edit_line_def edit_key_def DEL_def LINE_SIZE_def)
  qed
  have k: "fst (world (sh (demo_main (?cs @ CR # [100])))) = ?cs @ CR # [100]" by (simp add: demo_main_sel)
  have c: "CR \<notin> set ?cs" by (simp add: CR_def DEL_def)
  show ?thesis using shell_edits_line [OF demo_keyboard k c demo_main_sel(2,3) fit] unfolding e .
qed

theorem shell_line_overflow_witness:
  "shell_turns demo_env (Suc LINE_SIZE) (demo_main (replicate 128 97 @ [CR])) = None"
  by (rule shell_line_overflow [OF demo_keyboard, where cs = "replicate 128 97" and c = CR and rest = "[]"])
    (simp_all add: demo_main_sel CR_def DEL_def LINE_SIZE_def)

subsection \<open>ls\<close>

text \<open>
  A directory that answers \<open>getdents64\<close> with its entries, sixteen at a time, and an output that is only added to.
\<close>

definition dir_bytes :: "dirent list \<Rightarrow> u8 list" where "dir_bytes ds = concat (map dirent_bytes ds)"

definition directory :: "'w uenv \<Rightarrow> int \<Rightarrow> ('w \<Rightarrow> dirent list) \<Rightarrow> ('w \<Rightarrow> u8 list) \<Rightarrow> bool" where
  "directory E fd feed shown \<longleftrightarrow>
     (\<forall>w. let ds = take 16 (feed w)
          in \<exists>w'. u_getdents E fd DIR_BUF w = (Some (dir_bytes ds, 32 * int (length ds), int (length ds)), w') \<and>
             feed w' = drop 16 (feed w) \<and> shown w' = shown w) \<and>
     (\<forall>bs w. feed (u_write E 1 bs w) = feed w \<and> shown (u_write E 1 bs w) = shown w @ bs)"

definition entry_ok :: "dirent \<Rightarrow> bool" where
  "entry_ok d \<longleftrightarrow> d_reclen d = 32 \<and> length (d_name d) = 12 \<and> 0 \<in> set (drop 8 (d_name d))"

definition entry_line :: "dirent \<Rightarrow> u8 list" where
  "entry_line d = takeWhile (\<lambda>b. b \<noteq> SPACE \<and> b \<noteq> 0) (take 8 (d_name d)) @
     (if d_type d = DT_REG \<and> d_name d ! 8 \<noteq> SPACE \<and> d_name d ! 8 \<noteq> 0 then bytes ''.'' @ takeWhile (\<lambda>b. b \<noteq> 0) (drop 8 (d_name d)) else []) @
     [NEWLINE]"

lemma dirent_bytes_len: "entry_ok d \<Longrightarrow> length (dirent_bytes d) = 32"
  by (simp add: dirent_bytes_def le_bytes_def entry_ok_def)

lemma dir_bytes_len: "\<forall>d \<in> set ds. entry_ok d \<Longrightarrow> length (dir_bytes ds) = 32 * length ds"
  by (induction ds) (simp_all add: dir_bytes_def dirent_bytes_len)

lemma dir_bytes_nth:
  "\<forall>d \<in> set ds. entry_ok d \<Longrightarrow> j < length ds \<Longrightarrow> take 32 (drop (32 * j) (dir_bytes ds)) = dirent_bytes (ds ! j)"
proof (induction ds arbitrary: j)
  case (Cons d ds)
  have l: "length (dirent_bytes d) = 32" using Cons.prems(1) dirent_bytes_len by simp
  show ?case
  proof (cases j)
    case 0
    then show ?thesis using l by (simp add: dir_bytes_def)
  next
    case (Suc k)
    have "take 32 (drop (32 * k) (dir_bytes ds)) = dirent_bytes (ds ! k)" using Cons Suc by simp
    then show ?thesis using l Suc by (simp add: dir_bytes_def)
  qed
qed simp

text \<open>The fields of the entry at position \<open>j\<close> of a buffer that starts with \<open>ds\<close>.\<close>

lemma entry_fields:
  assumes ok: "\<forall>d \<in> set ds. entry_ok d" and j: "j < length ds" and buf: "take (32 * length ds) buf = dir_bytes ds"
  shows "le16 buf (32 * j + 16) = Some 32" "rd buf (32 * j + 18) = Some (d_type (ds ! j))" "field buf (32 * j + 19) 12 = Some (d_name (ds ! j))"
proof -
  let ?d = "ds ! j" and ?b = "drop (32 * j) buf"
  have d: "d_reclen ?d = 32" "length (d_name ?d) = 12" using ok j by (auto simp: entry_ok_def)
  have "length (take (32 * length ds) buf) = 32 * length ds" using buf dir_bytes_len [OF ok] by simp
  then have len: "32 * length ds \<le> length buf" by simp
  have le: "32 * j + 32 \<le> 32 * length ds" using j by simp
  have "take 32 ?b = take 32 (drop (32 * j) (take (32 * length ds) buf))" using le by (simp add: drop_take min_def)
  also have "\<dots> = dirent_bytes ?d" using buf dir_bytes_nth [OF ok j] by simp
  finally have b: "take 32 ?b = dirent_bytes ?d" .
  have nth: "buf ! (32 * j + k) = dirent_bytes ?d ! k" "32 * j + k < length buf" if "k < 32" for k
  proof -
    have "dirent_bytes ?d ! k = ?b ! k" using that by (simp add: b [symmetric])
    then show "buf ! (32 * j + k) = dirent_bytes ?d ! k" "32 * j + k < length buf" using that le len by (simp_all add: add.commute)
  qed
  have db: "dirent_bytes ?d ! 16 = 32" "dirent_bytes ?d ! 17 = 0" "dirent_bytes ?d ! 18 = d_type ?d"
    by (simp_all add: dirent_bytes_def le_bytes_def d nth_append upt_rec)
  show "le16 buf (32 * j + 16) = Some 32"
    using nth [of 16] nth [of 17] db by (simp add: le16_def add.commute [of 17])
  show "rd buf (32 * j + 18) = Some (d_type ?d)" using nth [of 18] db by simp
  have "take 12 (drop 19 (take 32 ?b)) = d_name ?d"
    unfolding b by (simp add: dirent_bytes_def le_bytes_def d)
  then have "take 12 (drop (32 * j + 19) buf) = d_name ?d" by (simp add: drop_take add.commute)
  then show "field buf (32 * j + 19) 12 = Some (d_name ?d)" using le len by (simp add: field_def)
qed

text \<open>The stream at entry \<open>i\<close> of the chunk \<open>ds\<close> it holds.\<close>

definition stream_at :: "int \<Rightarrow> dirent list \<Rightarrow> nat \<Rightarrow> dir_stream \<Rightarrow> bool" where
  "stream_at fd ds i d \<longleftrightarrow> ds_fd d = fd \<and> length (ds_buf d) = DIR_BUF \<and> (\<forall>e \<in> set ds. entry_ok e) \<and>
     (ds_current d = None \<and> ds = [] \<and> i = 0 \<or>
      ds_current d = Some (32 * i) \<and> i \<le> length ds \<and> num_entries d = int (length ds) \<and> take (32 * length ds) (ds_buf d) = dir_bytes ds)"

lemma print_entry_ok:
  assumes D: "directory E fd feed shown" and ok: "\<forall>d \<in> set ds. entry_ok d" and j: "j < length ds"
    and buf: "take (32 * length ds) (ds_buf (dirs st p)) = dir_bytes ds"
  shows "\<exists>st'. print_entry E p (32 * j) st = Some st' \<and> dirs st' = dirs st \<and> feed (world st') = feed (world st) \<and>
    shown (world st') = shown (world st) @ entry_line (ds ! j)"
proof -
  note F = entry_fields [OF ok j buf]
  have wr: "feed (u_write E 1 bs w) = feed w" "shown (u_write E 1 bs w) = shown w @ bs" for bs w using D by (simp_all add: directory_def)
  have "cstr (drop 8 (d_name (ds ! j))) = Some (takeWhile (\<lambda>b. b \<noteq> 0) (drop 8 (d_name (ds ! j))))"
    using ok j by (simp add: cstr_def entry_ok_def)
  then show ?thesis by (simp add: print_entry_def F say_def wr entry_line_def Let_def)
qed

lemma readdir_next:
  assumes "stream_at fd ds i (dirs st p)" "i < length ds"
  shows "readdir E p st = Some (Some (32 * i), upd_dir p (\<lambda>d. d\<lparr>ds_current := Some (32 * Suc i)\<rparr>) st)"
  using assms entry_fields(1) [of ds i "ds_buf (dirs st p)"]
  by (auto simp: stream_at_def readdir_def Let_def sizeof_dirent_def add.commute [of "32 * i"])

lemma readdir_refill:
  assumes D: "directory E fd feed shown" and s: "stream_at fd ds (length ds) (dirs st p)" and ok: "\<forall>d \<in> set (feed (world st)). entry_ok d"
  shows "\<exists>st'. readdir E p st = Some (if feed (world st) = [] then None else Some 0, st') \<and> shown (world st') = shown (world st) \<and>
    feed (world st') = drop 16 (feed (world st)) \<and>
    (feed (world st) \<noteq> [] \<longrightarrow> stream_at fd (take 16 (feed (world st))) 1 (dirs st' p))"
proof -
  let ?f = "feed (world st)" and ?d = "dirs st p"
  define ds' where "ds' = take 16 ?f"
  have ok': "\<forall>d \<in> set ds'. entry_ok d" using ok by (auto simp: ds'_def dest: in_set_takeD)
  have fd: "ds_fd ?d = fd" "length (ds_buf ?d) = DIR_BUF" using s by (simp_all add: stream_at_def)
  obtain w' where w': "u_getdents E fd DIR_BUF (world st) = (Some (dir_bytes ds', 32 * int (length ds'), int (length ds')), w')"
    "feed w' = drop 16 ?f" "shown w' = shown (world st)" using D unfolding directory_def Let_def ds'_def by blast
  have len: "length (dir_bytes ds') = 32 * length ds'" "length ds' \<le> 16" using dir_bytes_len [OF ok'] by (simp_all add: ds'_def)
  define buf where "buf = dir_bytes ds' @ drop (length (dir_bytes ds')) (ds_buf ?d)"
  have buf: "take (32 * length ds') buf = dir_bytes ds'" "length buf = DIR_BUF" using len fd(2) by (simp_all add: buf_def DIR_BUF_def)
  have again: "case ds_current ?d of None \<Rightarrow> True | Some c \<Rightarrow> int c \<ge> int sizeof_dirent * num_entries ?d"
    using s by (auto simp: stream_at_def sizeof_dirent_def)
  define st1 where "st1 = upd_dir p (\<lambda>d. d\<lparr>ds_current := Some 0\<rparr>) (refill_dir E p st)"
  have d1: "dirs st1 p = ?d\<lparr>ds_buf := buf, buf_size := 32 * int (length ds'), num_entries := int (length ds'), ds_current := Some 0\<rparr>"
    "world st1 = w'"
    by (simp_all add: st1_def refill_dir_def fd(1) w'(1) upd_dir_def buf_def)
  have e: "?f = [] \<longleftrightarrow> ds' = []" by (simp add: ds'_def)
  have rd: "readdir E p st = (if num_entries (dirs st1 p) \<le> 0 then Some (None, st1)
      else do { c \<leftarrow> ds_current (dirs st1 p); l \<leftarrow> le16 (ds_buf (dirs st1 p)) (c + 16);
                Some (Some c, upd_dir p (\<lambda>d. d\<lparr>ds_current := Some (c + unat l)\<rparr>) st1) })"
    using again by (simp add: readdir_def st1_def Let_def)
  show ?thesis
  proof (cases "ds' = []")
    case True
    then show ?thesis using rd w' d1 e by (intro exI [of _ st1]) simp
  next
    case False
    have "le16 buf 16 = Some 32" using entry_fields(1) [OF ok' _ buf(1), of 0] False by simp
    then show ?thesis using rd w' d1 e False buf ok' fd
      by (intro exI [of _ "upd_dir p (\<lambda>d. d\<lparr>ds_current := Some 32\<rparr>) st1"]) (auto simp: upd_dir_def stream_at_def ds'_def [symmetric] Suc_le_eq)
  qed
qed

lemma ls_loop_ok:
  assumes D: "directory E fd feed shown"
  shows "stream_at fd ds i (dirs st p) \<Longrightarrow> i \<le> length ds \<Longrightarrow> \<forall>d \<in> set (feed (world st)). entry_ok d \<Longrightarrow>
    \<exists>st'. ls_loop E p st = Some st' \<and> shown (world st') = shown (world st) @ concat (map entry_line (drop i ds @ feed (world st)))"
proof (induction "length (drop i ds @ feed (world st))" arbitrary: ds i st rule: less_induct)
  case less
  have ok: "\<forall>d \<in> set ds. entry_ok d" using less.prems(1) by (simp add: stream_at_def)
  show ?case
  proof (cases "i < length ds")
    case True
    define st1 where "st1 = upd_dir p (\<lambda>d. d\<lparr>ds_current := Some (32 * Suc i)\<rparr>) st"
    have rd: "readdir E p st = Some (Some (32 * i), st1)" using readdir_next [OF less.prems(1) True] by (simp add: st1_def)
    have s1: "stream_at fd ds (Suc i) (dirs st1 p)" "take (32 * length ds) (ds_buf (dirs st1 p)) = dir_bytes ds" "world st1 = world st"
      using less.prems(1) True by (auto simp: st1_def upd_dir_def stream_at_def)
    obtain st2 where st2: "print_entry E p (32 * i) st1 = Some st2" "dirs st2 = dirs st1" "feed (world st2) = feed (world st)"
      "shown (world st2) = shown (world st) @ entry_line (ds ! i)" using print_entry_ok [OF D ok True s1(2)] s1(3) by auto
    have "\<exists>st'. ls_loop E p st2 = Some st' \<and> shown (world st') = shown (world st2) @ concat (map entry_line (drop (Suc i) ds @ feed (world st2)))"
      by (rule less.hyps) (use True s1(1) st2 less.prems(3) in auto)
    then obtain st' where "ls_loop E p st2 = Some st'"
      "shown (world st') = shown (world st2) @ concat (map entry_line (drop (Suc i) ds @ feed (world st2)))" by blast
    then show ?thesis using st2 Cons_nth_drop_Suc [OF True, symmetric] by (subst ls_loop.simps) (simp add: rd)
  next
    case False
    then have i: "i = length ds" using less.prems(2) by simp
    let ?f = "feed (world st)"
    obtain st1 where st1: "readdir E p st = Some (if ?f = [] then None else Some 0, st1)" "shown (world st1) = shown (world st)"
      "feed (world st1) = drop 16 ?f" "?f \<noteq> [] \<Longrightarrow> stream_at fd (take 16 ?f) 1 (dirs st1 p)"
      using readdir_refill [OF D _ less.prems(3)] less.prems(1) i by blast
    show ?thesis
    proof (cases "?f = []")
      case True
      then show ?thesis using st1 i by (subst ls_loop.simps) simp
    next
      case False
      note s1 = st1(4) [OF False]
      have ok1: "\<forall>d \<in> set (take 16 ?f). entry_ok d" and b1: "take (32 * length (take 16 ?f)) (ds_buf (dirs st1 p)) = dir_bytes (take 16 ?f)"
        using s1 by (simp_all add: stream_at_def)
      have j: "0 < length (take 16 ?f)" using False by simp
      obtain st2 where st2: "print_entry E p 0 st1 = Some st2" "dirs st2 = dirs st1" "feed (world st2) = drop 16 ?f"
        "shown (world st2) = shown (world st) @ entry_line (?f ! 0)" using print_entry_ok [OF D ok1 j b1] st1(2,3) by auto
      have cut: "drop 1 (take 16 ?f) @ drop 16 ?f = tl ?f"
        by (metis append_take_drop_id drop_Suc One_nat_def drop0 tl_append2 take_eq_Nil False zero_neq_numeral)
      have "\<exists>st'. ls_loop E p st2 = Some st' \<and> shown (world st') = shown (world st2) @ concat (map entry_line (drop 1 (take 16 ?f) @ feed (world st2)))"
      proof (rule less.hyps)
        show "length (drop 1 (take 16 ?f) @ feed (world st2)) < length (drop i ds @ ?f)" unfolding st2(3) cut using i False by (cases ?f) simp_all
        show "stream_at fd (take 16 ?f) 1 (dirs st2 p)" using s1 by (simp add: st2(2))
        show "1 \<le> length (take 16 ?f)" using j by linarith
        show "\<forall>d \<in> set (feed (world st2)). entry_ok d" using less.prems(3) by (auto simp: st2(3) dest: in_set_dropD)
      qed
      then obtain st' where "ls_loop E p st2 = Some st'" "shown (world st') = shown (world st2) @ concat (map entry_line (tl ?f))"
        by (auto simp only: st2(3) cut)
      moreover have "?f = ?f ! 0 # tl ?f" using False by (cases ?f) simp_all
      ultimately show ?thesis using st1(1) st2 False i by (subst ls_loop.simps) (simp, metis concat.simps(2) list.simps(9))
    qed
  qed
qed


text \<open>A directory with one file and one directory.\<close>

definition demo_entries :: "dirent list" where
  "demo_entries = [\<lparr>d_ino = 5, d_off = 0, d_reclen = 32, d_type = DT_REG, d_name = bytes ''README  TXT'' @ [0]\<rparr>,
     \<lparr>d_ino = 6, d_off = 32, d_reclen = 32, d_type = DT_DIR, d_name = bytes ''BIN        '' @ [0]\<rparr>]"

definition demo_dir_env :: "(dirent list \<times> u8 list) uenv" where
  "demo_dir_env = \<lparr>u_open = \<lambda>_ _ w. (3, w), u_close = \<lambda>_ w. w, u_lseek = \<lambda>_ _ _ w. w, u_read = \<lambda>_ _ w. (0, [], w),
     u_write = \<lambda>_ bs (ds, out). (ds, out @ bs),
     u_getdents = \<lambda>_ _ (ds, out).
       (Some (dir_bytes (take 16 ds), 32 * int (length (take 16 ds)), int (length (take 16 ds))), (drop 16 ds, out)),
     u_fork = \<lambda>w. (0, w), u_waitpid = \<lambda>_ w. w, u_execve = \<lambda>_ w. (False, w)\<rparr>"

definition demo_shell :: "(dirent list \<times> u8 list) shell" where
  "demo_shell = \<lparr>world = (demo_entries, []), uheap_of = undefined,
     dirs = \<lambda>_. \<lparr>ds_fd = 3, num_entries = 0, buf_size = 0, ds_buf = replicate 512 0, ds_current = None\<rparr>, string_buf = replicate 2048 0\<rparr>"

lemma demo_directory: "directory demo_dir_env 3 fst snd"
  by (simp add: directory_def demo_dir_env_def split_def Let_def)


end
