(* ===== verification/Sys_Props.thy ===== *)
theory Sys_Props
  imports Trap
begin

unbundle bit_operations_syntax

text \<open>
  The system calls on files and memory leave the processes alone: the task table, the tasks, their signals and saved registers, the wait
  queue, the scheduler's variables and the sizes of the tables of open files are the same when such a call returns. \<open>proc_part\<close>
  is that part of the state.
\<close>

definition proc_part :: "kst \<Rightarrow> (u64 \<Rightarrow> task_struct) \<times> (u64 \<Rightarrow> signal_struct) \<times> (u64 \<Rightarrow> pt_regs) \<times> u64 list \<times> wait_task list \<times>
    u64 \<times> u64 \<times> u64 \<times> u64 \<times> ksyms \<times> (u64 \<times> u64) list \<times> (u64 \<Rightarrow> nat)" where
  "proc_part st = (task_at st, signal_at st, pt_regs_at st, task st, wait_queue st, idle st, current st, num_tasks st, seed st,
     ksym st, switches st, length \<circ> files_at st)"

named_theorems procs "operations that keep the part of the state that belongs to the processes"

lemma proc_part_upd [simp]:
  "proc_part (st\<lparr>kvm := v\<rparr>) = proc_part st" "proc_part (st\<lparr>kmm := m\<rparr>) = proc_part st" "proc_part (st\<lparr>fat := f\<rparr>) = proc_part st"
  "length fs = length (files_at st p) \<Longrightarrow> proc_part (st\<lparr>files_at := (files_at st)(p := fs)\<rparr>) = proc_part st" "proc_part (st\<lparr>junk := j\<rparr>) = proc_part st" "proc_part (st\<lparr>con_in := i\<rparr>) = proc_part st"
  "proc_part (st\<lparr>con_out := bs\<rparr>) = proc_part st" "proc_part (set_kvm v st) = proc_part st" "proc_part (k_write a w st) = proc_part st"
  by (auto simp: proc_part_def set_kvm_def k_write_def)

lemma proc_partD:
  assumes "proc_part st' = proc_part st"
  shows "task_at st' = task_at st" "signal_at st' = signal_at st" "pt_regs_at st' = pt_regs_at st" "task st' = task st"
    "wait_queue st' = wait_queue st" "idle st' = idle st" "current st' = current st" "num_tasks st' = num_tasks st" "seed st' = seed st"
    "ksym st' = ksym st" "switches st' = switches st" "length (files_at st' p) = length (files_at st p)"
  using assms by (auto simp: proc_part_def fun_eq_iff)

subsection \<open>Pages and open files\<close>

lemma k_alloc_page_procs [procs]: "k_alloc_page st = Some (p, st') \<Longrightarrow> proc_part st' = proc_part st"
  by (auto simp: k_alloc_page_def Option.bind_eq_Some_conv)

lemma k_free_pages_procs [procs]: "k_free_pages p st = Some st' \<Longrightarrow> proc_part st' = proc_part st"
  by (auto simp: k_free_pages_def Option.bind_eq_Some_conv)

lemma set_file_procs [procs]: "set_file p f st = Some st' \<Longrightarrow> proc_part st' = proc_part st"
  by (auto simp: set_file_def Option.bind_eq_Some_conv dest!: wr_SomeD split: if_splits)

lemma upd_cur_file_procs [procs]: "upd_cur_file i f st = Some st' \<Longrightarrow> proc_part st' = proc_part st"
  by (auto simp: upd_cur_file_def cur_files_def Option.bind_eq_Some_conv dest!: wr_SomeD split: if_splits)

lemma scank_procs [procs]: "scank_sbi_read n st = Some (r, bs, st') \<Longrightarrow> proc_part st' = proc_part st"
  by (auto simp: scank_sbi_read_def Option.bind_eq_Some_conv)

lemma printk_procs [simp]: "proc_part (snd (printk_sbi_write bs st)) = proc_part st"
  by (simp add: printk_sbi_write_def Let_def)

lemma uart_procs [procs]: "uart_getchar st = Some (c, st') \<Longrightarrow> proc_part st' = proc_part st"
  by (auto simp: uart_getchar_def Option.bind_eq_Some_conv dest: procs)

lemma stdin_read_procs [procs]: "stdin_read n st = Some (r, bs, st') \<Longrightarrow> proc_part st' = proc_part st"
proof -
  assume "stdin_read n st = Some (r, bs, st')"
  then obtain bs' where "for_range 0 (unat n) (\<lambda>i (bs, st). Option.bind (uart_getchar st)
      (\<lambda>(c, st). Some (bs @ [c], snd (printk_sbi_write [c] st)))) ([], st) = Some (bs', st')"
    by (auto simp: stdin_read_def Option.bind_eq_Some_conv)
  note loop = this
  have "proc_part (snd (bs', st')) = proc_part st"
    by (rule for_range_rule [where P = "\<lambda>_ u. proc_part (snd u) = proc_part st", OF loop])
      (auto simp: Option.bind_eq_Some_conv dest!: uart_procs)
  then show ?thesis by simp
qed

lemma file_open_procs [procs]: "file_open p nm fl st = Some (r, st') \<Longrightarrow> proc_part st' = proc_part st"
  by (auto simp: file_open_def Option.bind_eq_Some_conv Let_def dest!: procs split: if_splits)

lemma file_lseek_procs [procs]:
  assumes "file_lseek p off wh st = Some (r, st')"
  shows "proc_part st' = proc_part st"
proof -
  obtain f where f: "get_file p st = Some f" using assms by (auto simp: file_lseek_def Option.bind_eq_Some_conv)
  have "lseek_fn f = Some Fat32_lseek" using assms f by (simp add: file_lseek_def split: option.split_asm file_fun.split_asm)
  then show ?thesis using assms f by (auto simp: file_lseek_def Option.bind_eq_Some_conv dest!: set_file_procs)
qed

lemma file_read_procs [procs]:
  assumes "file_read p n st = Some (r, bs, st')"
  shows "proc_part st' = proc_part st"
proof -
  obtain f where f: "get_file p st = Some f" using assms by (auto simp: file_read_def Option.bind_eq_Some_conv)
  have "read_fn f \<in> {Some Fat32_read, Some Fat32_read_dir, Some Stdin_read}"
    using assms f by (simp add: file_read_def split: option.split_asm file_fun.split_asm)
  then show ?thesis using assms f
    by (elim insertE emptyE) (auto simp: file_read_def Option.bind_eq_Some_conv dest!: set_file_procs stdin_read_procs)
qed

lemma file_write_procs [procs]:
  assumes "file_write p bs n st = Some (r, st')"
  shows "proc_part st' = proc_part st"
proof -
  obtain f where f: "get_file p st = Some f" using assms by (auto simp: file_write_def Option.bind_eq_Some_conv)
  have "write_fn f \<in> {Some Fat32_write, Some Stdout_write, Some Stderr_write}"
    using assms f by (simp add: file_write_def split: option.split_asm file_fun.split_asm)
  then show ?thesis using assms f
    by (elim insertE emptyE) (auto simp: file_write_def Option.bind_eq_Some_conv stdout_write_def stderr_write_def
        printk_sbi_write_def Let_def dest!: set_file_procs)
qed

subsection \<open>Page faults and user memory\<close>

lemma fill_page_procs [procs]: "fill_page p va vma st = Some st' \<Longrightarrow> proc_part st' = proc_part st"
  by (auto simp: fill_page_def Option.bind_eq_Some_conv Let_def dest!: procs split: if_splits)

lemma fault_mapped_procs [procs]: "fault_mapped c p pte vma st = Some st' \<Longrightarrow> proc_part st' = proc_part st"
  by (auto simp: fault_mapped_def Option.bind_eq_Some_conv Let_def split: if_splits)

lemma do_page_fault_procs [procs]: "do_page_fault c a st = Some st' \<Longrightarrow> proc_part st' = proc_part st"
  by (auto simp: do_page_fault_def Option.bind_eq_Some_conv Let_def dest!: procs split: if_splits)

lemma touch_procs [procs]: "touch n c a st = Some st' \<Longrightarrow> proc_part st' = proc_part st"
  by (auto simp: touch_def Option.bind_eq_Some_conv dest!: procs split: if_splits)

lemma load_user_procs [procs]: "load_user a st = Some (b, st') \<Longrightarrow> proc_part st' = proc_part st"
  by (auto simp: load_user_def Option.bind_eq_Some_conv dest!: procs split: if_splits)

lemma store_user_procs [procs]: "store_user a b st = Some st' \<Longrightarrow> proc_part st' = proc_part st"
  by (auto simp: store_user_def Option.bind_eq_Some_conv dest!: procs split: if_splits)

lemma store_users_procs [procs]: "store_users a bs st = Some st' \<Longrightarrow> proc_part st' = proc_part st"
  by (induction bs arbitrary: a st) (fastforce simp: Option.bind_eq_Some_conv dest!: procs)+

lemma load_users_procs [procs]: "load_users a n st = Some (bs, st') \<Longrightarrow> proc_part st' = proc_part st"
  by (induction n arbitrary: a bs st) (fastforce simp: Option.bind_eq_Some_conv dest!: procs)+

lemma load_string_procs [procs]: "load_string a st = Some (s, st') \<Longrightarrow> proc_part st' = proc_part st"
proof -
  have "proc_part (snd r) = proc_part st" if h: "load_string a st = Some r" for r
    by (rule load_string.raw_induct [where P = "\<lambda>a st r. proc_part (snd r) = proc_part st", OF _ h])
      (fastforce simp: Option.bind_eq_Some_conv dest!: load_user_procs split: if_splits)
  then show "load_string a st = Some (s, st') \<Longrightarrow> proc_part st' = proc_part st" by fastforce
qed

subsection \<open>The system calls\<close>

lemma sys_openat_procs [procs]: "sys_openat p fl st = Some (r, st') \<Longrightarrow> proc_part st' = proc_part st"
  by (auto simp: sys_openat_def Option.bind_eq_Some_conv dest!: procs split: option.splits if_splits)

lemma sys_close_procs [procs]: "sys_close fd st = Some (r, st') \<Longrightarrow> proc_part st' = proc_part st"
  by (auto simp: sys_close_def Option.bind_eq_Some_conv dest!: procs split: if_splits)

lemma sys_lseek_procs [procs]: "sys_lseek fd off wh st = Some (r, st') \<Longrightarrow> proc_part st' = proc_part st"
  by (auto simp: sys_lseek_def Option.bind_eq_Some_conv dest!: procs split: if_splits)

lemma console_read_procs [procs]: "console_read p n st = Some (r, st') \<Longrightarrow> proc_part st' = proc_part st"
  by (auto simp: console_read_def Option.bind_eq_Some_conv Let_def dest!: procs split: if_splits)

lemma console_write_procs [procs]: "console_write p n st = Some (r, st') \<Longrightarrow> proc_part st' = proc_part st"
  by (auto simp: console_write_def printk_sbi_write_def Let_def split: if_splits)

lemma sys_read_procs [procs]: "sys_read fd p n st = Some (r, st') \<Longrightarrow> proc_part st' = proc_part st"
  by (auto simp: sys_read_def Option.bind_eq_Some_conv dest!: procs split: if_splits)

lemma sys_write_procs [procs]: "sys_write fd p n st = Some (r, st') \<Longrightarrow> proc_part st' = proc_part st"
  by (auto simp: sys_write_def Option.bind_eq_Some_conv dest!: procs split: if_splits)

lemma sys_getdents64_procs [procs]: "sys_getdents64 fd p n st = Some (r, st') \<Longrightarrow> proc_part st' = proc_part st"
  by (auto simp: sys_getdents64_def Option.bind_eq_Some_conv dest!: procs split: if_splits)

lemma sys_mmap_procs [procs]: "sys_mmap a n pr fl fd off st = Some (r, st') \<Longrightarrow> proc_part st' = proc_part st"
  by (auto simp: sys_mmap_def Option.bind_eq_Some_conv split: if_splits)

lemma sys_munmap_procs [procs]: "sys_munmap a n st = Some (r, st') \<Longrightarrow> proc_part st' = proc_part st"
  by (auto simp: sys_munmap_def Option.bind_eq_Some_conv)

end
