(* ===== verification/Usys.thy ===== *)
theory Usys
  imports Sys_Props
begin

unbundle bit_operations_syntax

text \<open>
  The user's side of the system calls: the stubs of \<open>user/src/syscalls.c\<close>, the way into the kernel and back (\<open>_traps\<close> of \<open>entry.S\<close>), and
  the standard files of \<open>user/src/printf.c\<close>. A stub puts its arguments and the number of the call into registers and executes \<open>ecall\<close>; a
  C \<open>int\<close> is sign-extended in a register. The message that \<open>mmap\<close> prints before its call is left out.
\<close>

subsection \<open>The trap\<close>

text \<open>The registers of the user program; \<open>upc\<close> is the address of the instruction that traps.\<close>

record ucpu =
  ux :: "u64 list"
  upc :: u64

definition FRAME_SIZE :: u64 where "FRAME_SIZE = 0x110"

text \<open>The frame of a trap from user mode is at the top of the kernel stack, in the page of the task.\<close>

definition trap_frame :: "kst \<Rightarrow> u64" where "trap_frame st = current st + PGSIZE - FRAME_SIZE"

definition saved_regs :: "u64 \<Rightarrow> ucpu \<Rightarrow> pt_regs" where
  "saved_regs frame cpu = \<lparr>regs_x = (ux cpu)[0 := 0, 2 := frame], regs_sepc = upc cpu, regs_sscratch = ux cpu ! 2\<rparr>"

definition enter_kernel :: "ucpu \<Rightarrow> kst \<Rightarrow> kst" where
  "enter_kernel cpu st = st\<lparr>pt_regs_at := (pt_regs_at st)(trap_frame st := saved_regs (trap_frame st) cpu)\<rparr>"

definition leave_kernel :: "u64 \<Rightarrow> kst \<Rightarrow> ucpu" where
  "leave_kernel frame st =
     (let r = pt_regs_at st frame in \<lparr>ux = (regs_x r)[0 := 0, 2 := regs_sscratch r], upc = regs_sepc r\<rparr>)"

text \<open>The code from \<open>ret_from_fork\<close> on: pending signals, then the registers.\<close>

definition ret_to_user :: "u64 \<Rightarrow> kst \<Rightarrow> ucpu outcome option" where
  "ret_to_user frame st =
     do { r \<leftarrow> signal_handler frame st; and_then r (\<lambda>_ st. Some (Returned (leave_kernel frame st) st)) }"

definition user_trap :: "u64 \<Rightarrow> u64 \<Rightarrow> ucpu \<Rightarrow> kst \<Rightarrow> ucpu outcome option" where
  "user_trap cause val cpu st =
     do { r \<leftarrow> trap_handler (trap_frame st) cause val (enter_kernel cpu st);
          and_then r (\<lambda>_. ret_to_user (trap_frame st)) }"

definition SCAUSE_ECALL_U :: u64 where "SCAUSE_ECALL_U = 8"

subsection \<open>syscalls.c\<close>

fun put_args :: "nat \<Rightarrow> u64 list \<Rightarrow> u64 list \<Rightarrow> u64 list" where
  "put_args i [] xs = xs"
| "put_args i (a # as) xs = put_args (Suc i) as (xs[i := a])"

definition set_args :: "u64 \<Rightarrow> u64 list \<Rightarrow> ucpu \<Rightarrow> ucpu" where
  "set_args nr as cpu = cpu\<lparr>ux := put_args RISCV_REG_A0 as ((ux cpu)[RISCV_REG_A7 := nr])\<rparr>"

text \<open>The assembly of every stub: the result is the register \<open>a0\<close>.\<close>

definition ecall :: "u64 \<Rightarrow> u64 list \<Rightarrow> ucpu \<Rightarrow> kst \<Rightarrow> (u64 \<times> ucpu) outcome option" where
  "ecall nr as cpu st =
     do { r \<leftarrow> user_trap SCAUSE_ECALL_U 0 (set_args nr as cpu) st;
          and_then r (\<lambda>cpu st. Some (Returned (ux cpu ! RISCV_REG_A0, cpu) st)) }"

text \<open>The conversion of the result to the type of the variable that holds it.\<close>

definition returns :: "(u64 \<Rightarrow> 'a) \<Rightarrow> (u64 \<times> ucpu) outcome option \<Rightarrow> ('a \<times> ucpu) outcome option" where
  "returns conv r = do { r \<leftarrow> r; and_then r (\<lambda>(v, cpu) st. Some (Returned (conv v, cpu) st)) }"

definition to_int :: "u64 \<Rightarrow> u32" where "to_int x = ucast x"
definition to_int_to_long :: "u64 \<Rightarrow> u64" where "to_int_to_long x = scast (ucast x :: u32)"
definition int_reg :: "u32 \<Rightarrow> u64" where "int_reg x = scast x"

definition usys_getpid :: "ucpu \<Rightarrow> kst \<Rightarrow> (u32 \<times> ucpu) outcome option" where
  "usys_getpid cpu st = returns to_int (ecall NR_getpid [] cpu st)"

definition usys_open :: "u64 \<Rightarrow> u32 \<Rightarrow> ucpu \<Rightarrow> kst \<Rightarrow> (u64 \<times> ucpu) outcome option" where
  "usys_open pathname flgs cpu st = returns to_int_to_long (ecall NR_open [pathname, int_reg flgs] cpu st)"

definition usys_close :: "u32 \<Rightarrow> ucpu \<Rightarrow> kst \<Rightarrow> (u64 \<times> ucpu) outcome option" where
  "usys_close fd cpu st = returns to_int_to_long (ecall NR_close [int_reg fd] cpu st)"

definition usys_lseek :: "u32 \<Rightarrow> u64 \<Rightarrow> u32 \<Rightarrow> ucpu \<Rightarrow> kst \<Rightarrow> (u64 \<times> ucpu) outcome option" where
  "usys_lseek fd offset whence cpu st = returns id (ecall NR_lseek [int_reg fd, offset, int_reg whence] cpu st)"

definition usys_read :: "u32 \<Rightarrow> u64 \<Rightarrow> u64 \<Rightarrow> ucpu \<Rightarrow> kst \<Rightarrow> (u64 \<times> ucpu) outcome option" where
  "usys_read fd buf count cpu st = returns id (ecall NR_read [int_reg fd, buf, count] cpu st)"

definition usys_write :: "u32 \<Rightarrow> u64 \<Rightarrow> u64 \<Rightarrow> ucpu \<Rightarrow> kst \<Rightarrow> (u64 \<times> ucpu) outcome option" where
  "usys_write fd buf count cpu st = returns id (ecall NR_write [int_reg fd, buf, count] cpu st)"

definition usys_fork :: "ucpu \<Rightarrow> kst \<Rightarrow> (u32 \<times> ucpu) outcome option" where
  "usys_fork cpu st = returns to_int (ecall NR_clone [] cpu st)"

definition usys_mmap :: "u64 \<Rightarrow> u64 \<Rightarrow> u32 \<Rightarrow> u32 \<Rightarrow> u32 \<Rightarrow> u64 \<Rightarrow> ucpu \<Rightarrow> kst \<Rightarrow> (u64 \<times> ucpu) outcome option" where
  "usys_mmap addr len prot flgs fd offset cpu st =
     returns id (ecall NR_mmap [addr, len, int_reg prot, int_reg flgs, int_reg fd, offset] cpu st)"

definition usys_munmap :: "u64 \<Rightarrow> u64 \<Rightarrow> ucpu \<Rightarrow> kst \<Rightarrow> (u32 \<times> ucpu) outcome option" where
  "usys_munmap addr len cpu st = returns to_int (ecall NR_munmap [addr, len] cpu st)"

definition usys_getdents64 :: "u32 \<Rightarrow> u64 \<Rightarrow> u64 \<Rightarrow> ucpu \<Rightarrow> kst \<Rightarrow> (u64 \<times> ucpu) outcome option" where
  "usys_getdents64 fd dirp count cpu st = returns id (ecall NR_getdents64 [int_reg fd, dirp, count] cpu st)"

definition usys_execve :: "u64 \<Rightarrow> u64 \<Rightarrow> u64 \<Rightarrow> ucpu \<Rightarrow> kst \<Rightarrow> (u32 \<times> ucpu) outcome option" where
  "usys_execve pathname argv envp cpu st = returns to_int (ecall NR_execve [pathname, argv, envp] cpu st)"

definition usys_wait :: "u64 \<Rightarrow> ucpu \<Rightarrow> kst \<Rightarrow> (u32 \<times> ucpu) outcome option" where
  "usys_wait wstatus cpu st = returns to_int (ecall NR_waitpid [- 1, wstatus, 0] cpu st)"

definition usys_waitpid :: "u32 \<Rightarrow> u64 \<Rightarrow> u32 \<Rightarrow> ucpu \<Rightarrow> kst \<Rightarrow> (u32 \<times> ucpu) outcome option" where
  "usys_waitpid pid wstatus options cpu st = returns to_int (ecall NR_waitpid [int_reg pid, wstatus, int_reg options] cpu st)"

definition usys_exit :: "u32 \<Rightarrow> ucpu \<Rightarrow> kst \<Rightarrow> (unit \<times> ucpu) outcome option" where
  "usys_exit status cpu st = returns (\<lambda>_. ()) (ecall NR_exit [int_reg status] cpu st)"

subsection \<open>printf.c and stdio.h\<close>

text \<open>The standard files; the functions of a file are the two of \<open>printf.c\<close>, or null.\<close>

datatype io_fun = Scanf_syscall_read | Printf_syscall_write

record ufile =
  uf_fd :: u32
  uf_read :: "io_fun option"
  uf_write :: "io_fun option"

definition iob :: "ufile list" where
  "iob = [\<lparr>uf_fd = 0, uf_read = Some Scanf_syscall_read, uf_write = None\<rparr>,
          \<lparr>uf_fd = 1, uf_read = None, uf_write = Some Printf_syscall_write\<rparr>,
          \<lparr>uf_fd = 2, uf_read = None, uf_write = Some Printf_syscall_write\<rparr>]"

definition fileno :: "ufile \<Rightarrow> u32" where "fileno f = uf_fd f"

definition printf_syscall_write :: "ufile \<Rightarrow> u64 \<Rightarrow> u64 \<Rightarrow> ucpu \<Rightarrow> kst \<Rightarrow> (u32 \<times> ucpu) outcome option" where
  "printf_syscall_write fp buf len cpu st = returns to_int (usys_write (fileno fp) buf len cpu st)"

definition scanf_syscall_read :: "ufile \<Rightarrow> u64 \<Rightarrow> u64 \<Rightarrow> ucpu \<Rightarrow> kst \<Rightarrow> (u32 \<times> ucpu) outcome option" where
  "scanf_syscall_read fp buf len cpu st = returns to_int (usys_read (fileno fp) buf len cpu st)"

end
