(* ===== verification/Usys_Claims.thy ===== *)
theory Usys_Claims
  imports Usys Proc_Claims
begin

unbundle bit_operations_syntax

text \<open>From the stub of a system call to the kernel function and back.\<close>

subsection \<open>The way in\<close>

definition cpu_ok :: "ucpu \<Rightarrow> bool" where "cpu_ok cpu \<longleftrightarrow> length (ux cpu) = 32 \<and> ux cpu ! 0 = 0"

text \<open>The state a kernel function starts in: the registers are saved and the program counter is behind the \<open>ecall\<close>.\<close>

definition in_call :: "u64 \<Rightarrow> u64 list \<Rightarrow> ucpu \<Rightarrow> kst \<Rightarrow> kst" where
  "in_call nr as cpu st = enter_kernel ((set_args nr as cpu)\<lparr>upc := upc cpu + 4\<rparr>) st"

definition finish_call :: "u64 \<Rightarrow> int \<Rightarrow> kst \<Rightarrow> (u64 \<times> ucpu) outcome option" where
  "finish_call frame v st =
     do { st \<leftarrow> set_reg RISCV_REG_A0 (of_int v) frame st; r \<leftarrow> ret_to_user frame st;
          and_then r (\<lambda>cpu st. Some (Returned (ux cpu ! RISCV_REG_A0, cpu) st)) }"

lemma and_then_assoc: "Option.bind (and_then r f) (\<lambda>r. and_then r g) = and_then r (\<lambda>x st. Option.bind (f x st) (\<lambda>r. and_then r g))"
  by (cases r) simp_all

lemma length_put_args [simp]: "length (put_args i as xs) = length xs"
  by (induction as arbitrary: i xs) simp_all

lemma put_args_before: "j < i \<Longrightarrow> put_args i as xs ! j = xs ! j"
  by (induction as arbitrary: i xs) simp_all

lemma put_args_after: "i + length as \<le> j \<Longrightarrow> put_args i as xs ! j = xs ! j"
  by (induction as arbitrary: i xs) simp_all

lemma put_args_at: "k < length as \<Longrightarrow> i + length as \<le> length xs \<Longrightarrow> put_args i as xs ! (i + k) = as ! k"
proof (induction as arbitrary: i k xs)
  case (Cons a as)
  show ?case
  proof (cases k)
    case 0
    then show ?thesis using Cons.prems by (simp add: put_args_before)
  next
    case (Suc k')
    then show ?thesis using Cons.IH [of k' "Suc i" "xs[i := a]"] Cons.prems by simp
  qed
qed simp

lemma ecall_dispatch:
  assumes "cpu_ok cpu" "length as \<le> 6"
  shows "ecall nr as cpu st =
    do { r \<leftarrow> syscall nr (\<lambda>i. regs_x (saved_regs (trap_frame st) (set_args nr as cpu)) ! (RISCV_REG_A0 + i)) (trap_frame st) (in_call nr as cpu st);
         and_then r (finish_call (trap_frame st)) }"
proof -
  let ?c = "set_args nr as cpu" and ?f = "trap_frame st"
  have len: "length (ux ?c) = 32" "length (ux cpu) = 32" using assms by (simp_all add: set_args_def cpu_ok_def)
  have a7: "regs_x (saved_regs ?f ?c) ! RISCV_REG_A7 = nr"
    using assms(2) len by (simp add: saved_regs_def set_args_def kdefs put_args_after)
  have h: "find (\<lambda>(i, c, h). i = ucast (drop_bit 63 SCAUSE_ECALL_U) \<and> c = ucast (SCAUSE_ECALL_U AND 0x3f)) handler_table
    = Some (0, 8, Ecall_from_user)"
    by (simp add: handler_table_def SCAUSE_ECALL_U_def drop_bit_eq_div)
  let ?s = "enter_kernel ?c st"
  let ?t = "?s\<lparr>pt_regs_at := (pt_regs_at ?s)(?f := (pt_regs_at ?s ?f)\<lparr>regs_sepc := regs_sepc (pt_regs_at ?s ?f) + 4\<rparr>)\<rparr>"
  have t: "?t = in_call nr as cpu st" by (simp add: in_call_def enter_kernel_def saved_regs_def set_args_def)
  have l: "RISCV_REG_A7 < length (regs_x (pt_regs_at ?s ?f))" using len by (simp add: enter_kernel_def saved_regs_def kdefs)
  have r: "pt_regs_at ?s ?f = saved_regs ?f ?c" by (simp add: enter_kernel_def)
  have "trap_handler ?f SCAUSE_ECALL_U 0 ?s =
    do { r \<leftarrow> syscall nr (\<lambda>i. regs_x (saved_regs ?f ?c) ! (RISCV_REG_A0 + i)) ?f (in_call nr as cpu st);
         and_then r (\<lambda>ret st. map_option (Returned ()) (set_reg RISCV_REG_A0 (of_int ret) ?f st)) }"
    using h l a7 by (simp add: trap_handler_def Let_def ecall_from_user_mode_handler_def r t [symmetric])
  then show ?thesis
    by (cases "syscall nr (\<lambda>i. regs_x (saved_regs ?f ?c) ! (RISCV_REG_A0 + i)) ?f (in_call nr as cpu st)")
      (simp_all add: ecall_def user_trap_def and_then_assoc finish_call_def [abs_def] Option.bind_map_option comp_def)
qed

lemma saved_arg:
  assumes "cpu_ok cpu" "k < length as" "length as \<le> 6"
  shows "regs_x (saved_regs f (set_args nr as cpu)) ! (RISCV_REG_A0 + k) = as ! k"
proof -
  have "put_args 10 as ((ux cpu)[17 := nr]) ! (10 + k) = as ! k" using assms by (intro put_args_at) (auto simp: cpu_ok_def)
  then show ?thesis by (simp add: saved_regs_def set_args_def RISCV_REG_A0_def RISCV_REG_A7_def)
qed

subsection \<open>The way back\<close>

text \<open>No signal that has a handler is pending for the running task.\<close>

definition no_signal :: "kst \<Rightarrow> bool" where
  "no_signal st \<longleftrightarrow> t_signal (cur st) \<noteq> 0 \<and>
     (\<forall>sig\<in>set sig_handle_seq. signal_pending (signal_at st (t_signal (cur st))) AND push_bit sig 1 = 0)"

lemma signal_handler_quiet: "no_signal st \<Longrightarrow> signal_handler f st = Some (Returned () st)"
  by (simp add: no_signal_def signal_handler_def sig_handle_seq_def Let_def)

text \<open>The registers and the state of the kernel when a call has returned \<open>v\<close>.\<close>

definition cpu_after :: "u64 \<Rightarrow> u64 list \<Rightarrow> int \<Rightarrow> ucpu \<Rightarrow> ucpu" where
  "cpu_after nr as v cpu = \<lparr>ux = (ux (set_args nr as cpu))[RISCV_REG_A0 := of_int v], upc = upc cpu + 4\<rparr>"

definition with_result :: "u64 \<Rightarrow> int \<Rightarrow> kst \<Rightarrow> kst" where
  "with_result f v st = st\<lparr>pt_regs_at := (pt_regs_at st)
     (f := (pt_regs_at st f)\<lparr>regs_x := (regs_x (pt_regs_at st f))[RISCV_REG_A0 := of_int v]\<rparr>)\<rparr>"

definition user_sees :: "(u64 \<Rightarrow> 'a) \<Rightarrow> u64 \<Rightarrow> u64 list \<Rightarrow> ucpu \<Rightarrow> u64 \<Rightarrow> (int \<times> kst) option \<Rightarrow> ('a \<times> ucpu) outcome option" where
  "user_sees conv nr as cpu f r =
     map_option (\<lambda>(v, st'). Returned (conv (of_int v), cpu_after nr as v cpu) (with_result f v st')) r"

lemma finish_quiet:
  assumes c: "cpu_ok cpu" "length as \<le> 6" and q: "no_signal st" and p: "proc_part st' = proc_part (in_call nr as cpu st)"
  shows "finish_call (trap_frame st) v st' = Some (Returned (of_int v, cpu_after nr as v cpu) (with_result (trap_frame st) v st'))"
proof -
  let ?f = "trap_frame st" and ?c = "(set_args nr as cpu)\<lparr>upc := upc cpu + 4\<rparr>"
  note P = proc_partD [OF p]
  have fr: "pt_regs_at st' ?f = saved_regs ?f ?c" by (simp add: P in_call_def enter_kernel_def)
  have len: "length (ux ?c) = 32" using c by (simp add: set_args_def cpu_ok_def)
  have x0: "ux ?c ! 0 = 0" using c by (simp add: set_args_def cpu_ok_def kdefs put_args_before)
  have set: "set_reg RISCV_REG_A0 (of_int v) ?f st' = Some (with_result ?f v st')"
    using len by (simp add: set_reg_def with_result_def fr saved_regs_def kdefs)
  have quiet: "no_signal (with_result ?f v st')"
    using q by (simp add: no_signal_def with_result_def P in_call_def enter_kernel_def)
  have "(ux ?c)[0 := 0, 2 := ?f, 10 := of_int v, 0 := 0, 2 := ux ?c ! 2] = (ux ?c)[10 := of_int v]"
    by (rule nth_equalityI) (use x0 len in \<open>auto simp: nth_list_update\<close>)
  then have "leave_kernel ?f (with_result ?f v st') = cpu_after nr as v cpu"
    by (simp add: leave_kernel_def with_result_def fr saved_regs_def cpu_after_def RISCV_REG_A0_def Let_def del: list_update.simps)
  moreover have "ux (cpu_after nr as v cpu) ! RISCV_REG_A0 = of_int v" using len by (simp add: cpu_after_def kdefs)
  ultimately show ?thesis by (simp add: finish_call_def set ret_to_user_def signal_handler_quiet quiet)
qed

lemma plain_call:
  assumes "cpu_ok cpu" "length as \<le> 6" "no_signal st"
    and run: "\<And>A. map A [0 ..< length as] = as \<Longrightarrow> syscall nr A (trap_frame st) (in_call nr as cpu st) = returning r"
    and keep: "\<And>v st'. r = Some (v, st') \<Longrightarrow> proc_part st' = proc_part (in_call nr as cpu st)"
  shows "returns conv (ecall nr as cpu st) = user_sees conv nr as cpu (trap_frame st) r"
proof -
  let ?A = "\<lambda>i. regs_x (saved_regs (trap_frame st) (set_args nr as cpu)) ! (RISCV_REG_A0 + i)"
  have "syscall nr ?A (trap_frame st) (in_call nr as cpu st) = returning r" by (rule run, rule nth_equalityI) (simp_all add: saved_arg [OF assms(1) _ assms(2)])
  then show ?thesis using finish_quiet [OF assms(1-3) keep]
    by (cases r) (auto simp: ecall_dispatch [OF assms(1,2)] returning_def returns_def user_sees_def)
qed

text \<open>The calls that may give up the processor, or start a task.\<close>

lemma blocking_call:
  assumes "cpu_ok cpu" "length as \<le> 6"
    and run: "\<And>A. map A [0 ..< length as] = as \<Longrightarrow> syscall nr A (trap_frame st) (in_call nr as cpu st) = r"
  shows "returns conv (ecall nr as cpu st) = returns conv (do { r \<leftarrow> r; and_then r (finish_call (trap_frame st)) })"
proof -
  let ?A = "\<lambda>i. regs_x (saved_regs (trap_frame st) (set_args nr as cpu)) ! (RISCV_REG_A0 + i)"
  have "syscall nr ?A (trap_frame st) (in_call nr as cpu st) = r" by (rule run, rule nth_equalityI) (simp_all add: saved_arg [OF assms(1) _ assms(2)])
  then show ?thesis by (simp add: ecall_dispatch [OF assms(1,2)])
qed

lemma int_reg_trip [simp]: "c_int (int_reg x) = sint x" "(ucast (int_reg x) :: u32) = x"
proof -
  show 1: "(ucast (int_reg x) :: u32) = x"
    by (rule bit_word_eqI) (auto simp: int_reg_def bit_simps)
  show "c_int (int_reg x) = sint x" by (simp add: c_int_def 1)
qed

lemma c_int_minus [simp]: "c_int (- 1) = - 1"
  by code_simp

lemmas dispatch = syscall_def NR_open_def NR_close_def NR_getdents64_def NR_lseek_def NR_read_def NR_write_def NR_exit_def
  NR_getpid_def NR_munmap_def NR_clone_def NR_execve_def NR_mmap_def NR_waitpid_def

text \<open>Each stub.\<close>

lemma getpid_stub:
  assumes "cpu_ok cpu" "no_signal st"
  shows "usys_getpid cpu st = user_sees to_int NR_getpid [] cpu (trap_frame st) (let s = in_call NR_getpid [] cpu st in Some (sys_getpid s, s))"
  unfolding usys_getpid_def Let_def
  by (rule plain_call [OF assms(1) _ assms(2)]) (auto simp: dispatch upt_rec numeral_2_eq_2 [symmetric] returning_def)

lemma open_stub:
  assumes "cpu_ok cpu" "no_signal st"
  shows "usys_open nm fl cpu st = (let as = [nm, int_reg fl] in
       user_sees to_int_to_long NR_open as cpu (trap_frame st) (sys_open nm fl (in_call NR_open as cpu st)))"
  unfolding usys_open_def Let_def
  by (rule plain_call [OF assms(1) _ assms(2)]) (auto simp: dispatch upt_rec numeral_2_eq_2 [symmetric] sys_open_def returning_def dest: sys_openat_procs)

lemma close_stub:
  assumes "cpu_ok cpu" "no_signal st"
  shows "usys_close fd cpu st = (let as = [int_reg fd] in
       user_sees to_int_to_long NR_close as cpu (trap_frame st) (sys_close (sint fd) (in_call NR_close as cpu st)))"
  unfolding usys_close_def Let_def
  by (rule plain_call [OF assms(1) _ assms(2)]) (auto simp: dispatch upt_rec numeral_2_eq_2 [symmetric] returning_def dest: sys_close_procs)

lemma lseek_stub:
  assumes "cpu_ok cpu" "no_signal st"
  shows "usys_lseek fd off wh cpu st = (let as = [int_reg fd, off, int_reg wh] in
       user_sees id NR_lseek as cpu (trap_frame st) (sys_lseek (sint fd) off (sint wh) (in_call NR_lseek as cpu st)))"
  unfolding usys_lseek_def Let_def
  by (rule plain_call [OF assms(1) _ assms(2)]) (auto simp: dispatch upt_rec numeral_2_eq_2 [symmetric] returning_def dest: sys_lseek_procs)

lemma read_stub:
  assumes "cpu_ok cpu" "no_signal st"
  shows "usys_read fd buf n cpu st = (let as = [int_reg fd, buf, n] in
       user_sees id NR_read as cpu (trap_frame st) (sys_read fd buf n (in_call NR_read as cpu st)))"
  unfolding usys_read_def Let_def
  by (rule plain_call [OF assms(1) _ assms(2)]) (auto simp: dispatch upt_rec numeral_2_eq_2 [symmetric] returning_def dest: sys_read_procs)

lemma write_stub:
  assumes "cpu_ok cpu" "no_signal st"
  shows "usys_write fd buf n cpu st = (let as = [int_reg fd, buf, n] in
       user_sees id NR_write as cpu (trap_frame st) (sys_write fd buf n (in_call NR_write as cpu st)))"
  unfolding usys_write_def Let_def
  by (rule plain_call [OF assms(1) _ assms(2)]) (auto simp: dispatch upt_rec numeral_2_eq_2 [symmetric] returning_def dest: sys_write_procs)

lemma getdents64_stub:
  assumes "cpu_ok cpu" "no_signal st"
  shows "usys_getdents64 fd buf n cpu st = (let as = [int_reg fd, buf, n] in
       user_sees id NR_getdents64 as cpu (trap_frame st) (sys_getdents64 (sint fd) buf n (in_call NR_getdents64 as cpu st)))"
  unfolding usys_getdents64_def Let_def
  by (rule plain_call [OF assms(1) _ assms(2)]) (auto simp: dispatch upt_rec numeral_2_eq_2 [symmetric] returning_def dest: sys_getdents64_procs)

lemma mmap_stub:
  assumes "cpu_ok cpu" "no_signal st"
  shows "usys_mmap a n pr fl fd off cpu st = (let as = [a, n, int_reg pr, int_reg fl, int_reg fd, off] in
       user_sees id NR_mmap as cpu (trap_frame st) (sys_mmap a n pr fl (sint fd) off (in_call NR_mmap as cpu st)))"
  unfolding usys_mmap_def Let_def
  by (rule plain_call [OF assms(1) _ assms(2)]) (auto simp: dispatch upt_rec numeral_2_eq_2 [symmetric] returning_def dest: sys_mmap_procs)

lemma munmap_stub:
  assumes "cpu_ok cpu" "no_signal st"
  shows "usys_munmap a n cpu st = (let as = [a, n] in
       user_sees to_int NR_munmap as cpu (trap_frame st) (sys_munmap a n (in_call NR_munmap as cpu st)))"
  unfolding usys_munmap_def Let_def
  by (rule plain_call [OF assms(1) _ assms(2)]) (auto simp: dispatch upt_rec numeral_2_eq_2 [symmetric] returning_def dest: sys_munmap_procs)

lemma fork_stub:
  assumes "cpu_ok cpu"
  shows "usys_fork cpu st = returns to_int (do { r \<leftarrow> returning (sys_clone (trap_frame st) (in_call NR_clone [] cpu st));
       and_then r (finish_call (trap_frame st)) })"
  unfolding usys_fork_def Let_def
  by (rule blocking_call [OF assms(1)]) (auto simp: dispatch upt_rec numeral_2_eq_2 [symmetric])

lemma execve_stub:
  assumes "cpu_ok cpu"
  shows "usys_execve nm argv envp cpu st = (let as = [nm, argv, envp] in
       returns to_int (do { r \<leftarrow> sys_execve nm (in_call NR_execve as cpu st); and_then r (finish_call (trap_frame st)) }))"
  unfolding usys_execve_def Let_def
  by (rule blocking_call [OF assms(1)]) (auto simp: dispatch upt_rec numeral_2_eq_2 [symmetric])

lemma waitpid_stub:
  assumes "cpu_ok cpu"
  shows "usys_waitpid pid ws opt cpu st = (let as = [int_reg pid, ws, int_reg opt] in
       returns to_int (do { r \<leftarrow> sys_waitpid (sint pid) (in_call NR_waitpid as cpu st); and_then r (finish_call (trap_frame st)) }))"
  unfolding usys_waitpid_def Let_def
  by (rule blocking_call [OF assms(1)]) (auto simp: dispatch upt_rec numeral_2_eq_2 [symmetric])

lemma wait_stub:
  assumes "cpu_ok cpu"
  shows "usys_wait ws cpu st = (let as = [- 1, ws, 0] in
       returns to_int (do { r \<leftarrow> sys_waitpid (- 1) (in_call NR_waitpid as cpu st); and_then r (finish_call (trap_frame st)) }))"
  unfolding usys_wait_def Let_def
  by (rule blocking_call [OF assms(1)]) (auto simp: dispatch upt_rec numeral_2_eq_2 [symmetric])

lemma exit_stub:
  assumes "cpu_ok cpu"
  shows "usys_exit status cpu st = (let as = [int_reg status] in
       returns (\<lambda>_. ()) (do { r \<leftarrow> sys_exit (sint status) (in_call NR_exit as cpu st);
         r \<leftarrow> and_then r (\<lambda>_ st. Some (Returned 0 st)); and_then r (finish_call (trap_frame st)) }))"
  unfolding usys_exit_def Let_def
  by (subst blocking_call [OF assms(1), where r = "do { r \<leftarrow> sys_exit (sint status) (in_call NR_exit [int_reg status] cpu st);
      and_then r (\<lambda>_ st. Some (Returned 0 st)) }"])
    (auto simp: dispatch upt_rec numeral_2_eq_2 [symmetric] Option.bind_assoc)

text \<open>
  C40. A system call of a user program is the call of the kernel function of that name. For a program whose task has no pending signal,
  every stub of \<open>syscalls.c\<close> that returns gives the result of the kernel function on the arguments of the stub, in the types of the C
  declarations; the kernel function runs in the state of the program with its registers saved and the program counter behind
  the \<open>ecall\<close>, and when it has returned the program goes on there with all registers as the stub left them, but \<open>a0\<close>. The
  calls that may give up the processor reach their kernel functions with the same arguments.
\<close>

theorem stubs_call_kernel:
  assumes "cpu_ok cpu" "no_signal st"
  shows "(usys_getpid cpu st = user_sees to_int NR_getpid [] cpu (trap_frame st) (let s = in_call NR_getpid [] cpu st in Some (sys_getpid s, s))) \<and>
    (usys_open nm fl cpu st = (let as = [nm, int_reg fl] in
       user_sees to_int_to_long NR_open as cpu (trap_frame st) (sys_open nm fl (in_call NR_open as cpu st)))) \<and>
    (usys_close fd cpu st = (let as = [int_reg fd] in
       user_sees to_int_to_long NR_close as cpu (trap_frame st) (sys_close (sint fd) (in_call NR_close as cpu st)))) \<and>
    (usys_lseek fd off wh cpu st = (let as = [int_reg fd, off, int_reg wh] in
       user_sees id NR_lseek as cpu (trap_frame st) (sys_lseek (sint fd) off (sint wh) (in_call NR_lseek as cpu st)))) \<and>
    (usys_read fd buf n cpu st = (let as = [int_reg fd, buf, n] in
       user_sees id NR_read as cpu (trap_frame st) (sys_read fd buf n (in_call NR_read as cpu st)))) \<and>
    (usys_write fd buf n cpu st = (let as = [int_reg fd, buf, n] in
       user_sees id NR_write as cpu (trap_frame st) (sys_write fd buf n (in_call NR_write as cpu st)))) \<and>
    (usys_getdents64 fd buf n cpu st = (let as = [int_reg fd, buf, n] in
       user_sees id NR_getdents64 as cpu (trap_frame st) (sys_getdents64 (sint fd) buf n (in_call NR_getdents64 as cpu st)))) \<and>
    (usys_mmap a n pr fl fd off cpu st = (let as = [a, n, int_reg pr, int_reg fl, int_reg fd, off] in
       user_sees id NR_mmap as cpu (trap_frame st) (sys_mmap a n pr fl (sint fd) off (in_call NR_mmap as cpu st)))) \<and>
    (usys_munmap a n cpu st = (let as = [a, n] in
       user_sees to_int NR_munmap as cpu (trap_frame st) (sys_munmap a n (in_call NR_munmap as cpu st)))) \<and>
    (usys_fork cpu st = returns to_int (do { r \<leftarrow> returning (sys_clone (trap_frame st) (in_call NR_clone [] cpu st));
       and_then r (finish_call (trap_frame st)) })) \<and>
    (usys_execve nm argv envp cpu st = (let as = [nm, argv, envp] in
       returns to_int (do { r \<leftarrow> sys_execve nm (in_call NR_execve as cpu st); and_then r (finish_call (trap_frame st)) }))) \<and>
    (usys_waitpid pid ws opt cpu st = (let as = [int_reg pid, ws, int_reg opt] in
       returns to_int (do { r \<leftarrow> sys_waitpid (sint pid) (in_call NR_waitpid as cpu st); and_then r (finish_call (trap_frame st)) }))) \<and>
    (usys_wait ws cpu st = (let as = [- 1, ws, 0] in
       returns to_int (do { r \<leftarrow> sys_waitpid (- 1) (in_call NR_waitpid as cpu st); and_then r (finish_call (trap_frame st)) }))) \<and>
    (usys_exit status cpu st = (let as = [int_reg status] in
       returns (\<lambda>_. ()) (do { r \<leftarrow> sys_exit (sint status) (in_call NR_exit as cpu st);
         r \<leftarrow> and_then r (\<lambda>_ st. Some (Returned 0 st)); and_then r (finish_call (trap_frame st)) })))"
  using getpid_stub [OF assms] open_stub [OF assms] close_stub [OF assms] lseek_stub [OF assms] read_stub [OF assms]
    write_stub [OF assms] getdents64_stub [OF assms] mmap_stub [OF assms] munmap_stub [OF assms] fork_stub [OF assms(1)] execve_stub [OF assms(1)]
    waitpid_stub [OF assms(1)] wait_stub [OF assms(1)] exit_stub [OF assms(1)]
  by (intro conjI)

text \<open>A program of the waiting task of the example.\<close>

definition demo_cpu :: ucpu where "demo_cpu = \<lparr>ux = replicate 32 0, upc = 0x10000\<rparr>"

theorem stubs_call_kernel_witness:
  "cpu_ok demo_cpu \<and> (\<exists>cpu st'. usys_getpid demo_cpu (demo_family 20 0) = Some (Returned (1, cpu) st') \<and>
     cpu = cpu_after NR_getpid [] 1 demo_cpu \<and> upc cpu = 0x10004 \<and> ux cpu ! 10 = 1 \<and> ux cpu ! 17 = 172)"
proof -
  let ?st = "demo_family 20 0"
  have c: "cpu_ok demo_cpu" by (simp add: cpu_ok_def demo_cpu_def)
  have cur: "cur ?st = demo_parent" by (simp add: demo_family_def demo_kst_def)
  have q: "no_signal ?st"
    unfolding no_signal_def cur by (simp add: demo_family_def demo_kst_def sig_handle_seq_def)
  have "sys_getpid (in_call NR_getpid [] demo_cpu ?st) = 1"
    by (simp add: sys_getpid_def in_call_def enter_kernel_def cur) (simp add: demo_parent_def demo_task_def)
  then have "usys_getpid demo_cpu ?st = Some (Returned (1, cpu_after NR_getpid [] 1 demo_cpu)
      (with_result (trap_frame ?st) 1 (in_call NR_getpid [] demo_cpu ?st)))"
    using conjunct1 [OF stubs_call_kernel [OF c q]] by (simp add: user_sees_def to_int_def)
  then show ?thesis using c
    by (simp add: cpu_after_def set_args_def demo_cpu_def RISCV_REG_A0_def RISCV_REG_A7_def NR_getpid_def)
qed

end
