(* ===== verification/Fork_Task.thy ===== *)
theory Fork_Task
  imports Sys_Props Proc_Claims
begin

unbundle bit_operations_syntax

text \<open>What \<open>do_fork\<close> does to the tasks: the record, the saved registers and the signals of parent and child.\<close>

subsection \<open>The parts of do_fork that keep the tasks\<close>

lemma file_init_fields:
  assumes "file_init st = Some (p, st')"
  shows "task_at st' = task_at st" "signal_at st' = signal_at st" "pt_regs_at st' = pt_regs_at st" "task st' = task st"
    "wait_queue st' = wait_queue st" "current st' = current st" "num_tasks st' = num_tasks st" "ksym st' = ksym st"
    "length (files_at st' q) = (if q = p then MAX_FILE_NUMBER else length (files_at st q))"
proof -
  obtain s where s: "k_alloc_page st = Some (p, s)"
    "st' = s\<lparr>files_at := (files_at s)(p := map (\<lambda>i. std_file i (files_at s p ! i)) [0 ..< MAX_FILE_NUMBER])\<rparr>"
    using assms by (auto simp: file_init_def Option.bind_eq_Some_conv)
  note P = proc_partD [OF k_alloc_page_procs [OF s(1)]]
  show "task_at st' = task_at st" "signal_at st' = signal_at st" "pt_regs_at st' = pt_regs_at st" "task st' = task st"
    "wait_queue st' = wait_queue st" "current st' = current st" "num_tasks st' = num_tasks st" "ksym st' = ksym st"
    "length (files_at st' q) = (if q = p then MAX_FILE_NUMBER else length (files_at st q))" by (simp_all add: s(2) P)
qed

lemma fork_file_procs: "fork_file fs i st = Some st' \<Longrightarrow> proc_part st' = proc_part st"
  by (auto simp: fork_file_def Option.bind_eq_Some_conv Let_def dest!: file_open_procs set_file_procs file_lseek_procs split: if_splits)

lemma fork_files_procs:
  assumes "for_range 3 MAX_FILE_NUMBER (fork_file fs) st = Some st'"
  shows "proc_part st' = proc_part st"
proof (rule for_range_rule [where P = "\<lambda>_ s. proc_part s = proc_part st", OF assms])
  fix k u v assume "proc_part u = proc_part st" "fork_file fs k u = Some v"
  then show "proc_part v = proc_part st" using fork_file_procs by metis
qed (simp_all add: MAX_FILE_NUMBER_def)

lemma fork_page_procs: "fork_page pgd va st = Some st' \<Longrightarrow> proc_part st' = proc_part st"
  by (auto simp: fork_page_def Option.bind_eq_Some_conv Let_def split: if_splits)

lemma fork_area_procs:
  assumes "fork_area pgd vma st = Some st'"
  shows "proc_part st' = proc_part st"
proof (cases "PGROUNDDOWN (vm_start vma) < PGROUNDUP (vm_end vma)")
  case True
  let ?n = "unat ((PGROUNDUP (vm_end vma) - PGROUNDDOWN (vm_start vma)) div PGSIZE)"
  have "for_range 0 ?n (\<lambda>i. fork_page pgd (PGROUNDDOWN (vm_start vma) + PGSIZE * of_nat i)) st = Some st'"
    using assms True by (simp add: fork_area_def Let_def)
  then show ?thesis
  proof (rule for_range_rule [where P = "\<lambda>_ s. proc_part s = proc_part st"])
    fix k u v assume "proc_part u = proc_part st" "fork_page pgd (PGROUNDDOWN (vm_start vma) + PGSIZE * of_nat k) u = Some v"
    then show "proc_part v = proc_part st" using fork_page_procs by metis
  qed simp_all
next
  case False
  then show ?thesis using assms by (simp add: fork_area_def Let_def)
qed

lemma fork_areas_procs:
  assumes "fork_areas pgd vma st = Some st'"
  shows "proc_part st' = proc_part st"
  by (rule fork_areas.raw_induct [where P = "\<lambda>pgd vma st r. proc_part r = proc_part st", OF _ assms])
    (fastforce simp: Option.bind_eq_Some_conv dest!: fork_area_procs split: if_splits)

text \<open>For a task that has a signal structure, \<open>signal_init\<close> only resets it.\<close>

lemma signal_init_reset:
  assumes "signal_init i st = Some st'" "task_ptr st i = Some tp" "t_signal (task_at st tp) \<noteq> 0"
  shows "task_at st' = task_at st \<and> pt_regs_at st' = pt_regs_at st \<and> task st' = task st \<and> current st' = current st \<and>
    num_tasks st' = num_tasks st \<and> ksym st' = ksym st \<and> signal_pending (signal_at st' (t_signal (task_at st tp))) = 0"
  using assms by (auto simp: signal_init_def Option.bind_eq_Some_conv set_wait_def upd_signal_def Let_def)

subsection \<open>The two tasks after a fork\<close>

text \<open>The first steps: the number of the child and its page.\<close>

definition fork_slot :: "kst \<Rightarrow> (nat \<times> u64 \<times> kst) option" where
  "fork_slot st =
     do { (child_pid, st) \<leftarrow> get_avail_task_id st;
          p \<leftarrow> rd (task st) child_pid;
          st \<leftarrow> (if p = 0 then do { (tp, st) \<leftarrow> k_alloc_page st; ts \<leftarrow> wr (task st) child_pid tp; Some (st\<lparr>task := ts\<rparr>) } else Some st);
          tp \<leftarrow> task_ptr st child_pid;
          Some (child_pid, tp, st) }"

lemma bind_SomeE:
  assumes "Option.bind x f = Some y"
  obtains a where "x = Some a" "f a = Some y"
  using assms by (auto simp: Option.bind_eq_Some_conv)

lemma bind_pairE:
  assumes "Option.bind x (case_prod f) = Some y"
  obtains a b where "x = Some (a, b)" "f a b = Some y"
  using assms by (auto simp: Option.bind_eq_Some_conv)

lemma bind_tripleE:
  assumes "Option.bind x (\<lambda>(a, b, c). f a b c) = Some y"
  obtains a b c where "x = Some (a, b, c)" "f a b c = Some y"
  using assms by (auto simp: Option.bind_eq_Some_conv)

lemma find_null_free: "find_null ts is = Some (Some i) \<Longrightarrow> i \<in> set is \<and> i < length ts \<and> ts ! i = 0"
  by (induction "is") (auto simp: Option.bind_eq_Some_conv dest!: rd_SomeD split: if_splits)

lemma fork_slot_fields:
  assumes "fork_slot st = Some (i, tp, s)"
  shows "task_at s = task_at st \<and> pt_regs_at s = pt_regs_at st \<and> current s = current st \<and> ksym s = ksym st \<and>
    signal_at s = signal_at st \<and> wait_queue s = wait_queue st \<and> (\<forall>p. length (files_at s p) = length (files_at st p)) \<and>
    tp \<noteq> 0 \<and> i < length (task st) \<and> task s = (task st)[i := tp] \<and>
    (task st ! i = 0 \<and> i < unat (num_tasks st) \<and> num_tasks s = num_tasks st \<or> i = unat (num_tasks st) \<and> num_tasks s = num_tasks st + 1)"
proof -
  obtain i' s0 where g1: "get_avail_task_id st = Some (i', s0)"
    and r1: "(do { p \<leftarrow> rd (task s0) i';
          st \<leftarrow> (if p = 0 then do { (tp, st) \<leftarrow> k_alloc_page s0; ts \<leftarrow> wr (task st) i' tp; Some (st\<lparr>task := ts\<rparr>) } else Some s0);
          tp \<leftarrow> task_ptr st i'; Some (i', tp, st) }) = Some (i, tp, s)"
    using assms unfolding fork_slot_def by (auto elim: bind_SomeE)
  obtain p where g2: "rd (task s0) i' = Some p"
    and r2: "(do { st \<leftarrow> (if p = 0 then do { (tp, st) \<leftarrow> k_alloc_page s0; ts \<leftarrow> wr (task st) i' tp; Some (st\<lparr>task := ts\<rparr>) } else Some s0);
          tp \<leftarrow> task_ptr st i'; Some (i', tp, st) }) = Some (i, tp, s)"
    using r1 by (rule bind_SomeE)
  obtain s1 where a: "(if p = 0 then do { (tp, st) \<leftarrow> k_alloc_page s0; ts \<leftarrow> wr (task st) i' tp; Some (st\<lparr>task := ts\<rparr>) } else Some s0) = Some s1"
    and r3: "(do { tp \<leftarrow> task_ptr s1 i'; Some (i', tp, s1) }) = Some (i, tp, s)"
    using r2 by (rule bind_SomeE)
  have e: "i' = i" "s = s1" "task_ptr s1 i = Some tp" using r3 by (auto elim: bind_SomeE)
  note a = a [unfolded e(1)] and g = g1 [unfolded e(1)] g2 [unfolded e(1)] e(3,2)
  have s0: "s0 = st \<and> task st ! i = 0 \<and> i < unat (num_tasks st) \<or> s0 = st\<lparr>num_tasks := num_tasks st + 1\<rparr> \<and> i = unat (num_tasks st)"
  proof -
    obtain r where r: "find_null (task st) [1 ..< unat (num_tasks st)] = Some r"
      "(case r of Some i \<Rightarrow> Some (i, st) | None \<Rightarrow> Some (unat (num_tasks st), st\<lparr>num_tasks := num_tasks st + 1\<rparr>)) = Some (i, s0)"
      using g(1) unfolding get_avail_task_id_def by (rule bind_SomeE)
    show ?thesis
    proof (cases r)
      case None
      then show ?thesis using r(2) by simp
    next
      case (Some k)
      then have "k \<in> set [1 ..< unat (num_tasks st)]" "task st ! k = 0" using find_null_free r(1) by blast+
      then show ?thesis using r(2) Some by simp
    qed
  qed
  then have t0: "task s0 = task st" "task_at s0 = task_at st" "pt_regs_at s0 = pt_regs_at st" "current s0 = current st"
    "ksym s0 = ksym st" "signal_at s0 = signal_at st" "wait_queue s0 = wait_queue st" "files_at s0 = files_at st" by auto
  have i: "i < length (task st)" "p = task st ! i" using rd_SomeD [OF g(2)] t0(1) by auto
  have tp: "tp = task s1 ! i" "tp \<noteq> 0" using g(3) by (auto simp: task_ptr_def Option.bind_eq_Some_conv dest!: rd_SomeD split: if_splits)
  show ?thesis
  proof (cases "p = 0")
    case True
    obtain q s' ts where q: "k_alloc_page s0 = Some (q, s')" "wr (task s') i q = Some ts" "s1 = s'\<lparr>task := ts\<rparr>"
      using a True by (auto simp: Option.bind_eq_Some_conv)
    note P = proc_partD [OF k_alloc_page_procs [OF q(1)]]
    have "ts = (task st)[i := q]" using wr_SomeD [OF q(2)] by (simp add: P t0)
    then show ?thesis using s0 tp i by (auto simp: g(4) q(3) P t0)
  next
    case False
    then have "s1 = s0" using a by simp
    then show ?thesis using s0 tp i by (auto simp: g(4) t0)
  qed
qed

definition fork_record_child :: "u64 \<Rightarrow> nat \<Rightarrow> u64 \<Rightarrow> kst \<Rightarrow> task_struct \<Rightarrow> bool" where
  "fork_record_child regs i tp st t \<longleftrightarrow> t_pid t = of_nat i \<and> t_fpid t = t_pid (cur st) \<and> t_state t = TASK_RUNNING \<and> t_counter t = 0 \<and>
     t_child_cnt t = 0 \<and> t_signal t = t_signal (cur st) \<and> t_thread t = t_thread (cur st)"

lemma fork_record_keeps:
  assumes "fork_record regs i tp st = Some s"
  shows "task s = task st \<and> t_signal (task_at s tp) = t_signal (cur st)"
  using assms by (auto simp: fork_record_def Option.bind_eq_Some_conv upd_task_def add_child_def k_write_def Let_def k_alloc_page_def
      split: prod.splits)

lemma fork_record_fields:
  assumes "fork_record regs i tp st = Some s" "tp \<noteq> current st"
  shows "current s = current st \<and> task s = task st \<and> num_tasks s = num_tasks st \<and> ksym s = ksym st \<and> signal_at s = signal_at st \<and>
    pt_regs_at s = (pt_regs_at st)(regs + (tp - current st) := pt_regs_at st regs) \<and>
    fork_record_child regs i tp st (task_at s tp) \<and> cur s = (cur st)\<lparr>t_child_cnt := t_child_cnt (cur st) + 1\<rparr> \<and>
    (\<forall>p. p \<noteq> tp \<and> p \<noteq> current st \<longrightarrow> task_at s p = task_at st p)"
  using assms
  by (auto simp: fork_record_def Option.bind_eq_Some_conv upd_task_def add_child_def k_write_def Let_def fork_record_child_def
      k_alloc_page_def split: prod.splits)

text \<open>The rest of \<open>do_fork\<close>, from the files on.\<close>

definition fork_rest :: "u64 \<Rightarrow> nat \<Rightarrow> u64 \<Rightarrow> kst \<Rightarrow> (int \<times> kst) option" where
  "fork_rest regs i tp st =
     do { (fs, st) \<leftarrow> file_init st;
          st \<leftarrow> for_range 3 MAX_FILE_NUMBER (fork_file fs) (upd_task tp (\<lambda>t. t\<lparr>t_files := fs\<rparr>) st);
          st \<leftarrow> signal_init i st;
          let delta = tp - current st;
          let st = upd_thread tp (\<lambda>t. t\<lparr>ra := ret_from_fork (ksym st), sp := regs + delta, sepc := regs_sepc (pt_regs_at st regs),
                                         stval := 0, scause := 0\<rparr>) (upd_task tp (\<lambda>t. t\<lparr>t_exit_code := 0\<rparr>) st);
          (mm, st) \<leftarrow> k_alloc_page st;
          m \<leftarrow> copy_mm mm (t_mm (cur st)) (kmm st);
          let st = upd_task tp (\<lambda>t. t\<lparr>t_mm := mm\<rparr>) (st\<lparr>kmm := m\<rparr>);
          (pgd, st) \<leftarrow> k_alloc_page st;
          let st = upd_task tp (\<lambda>t. t\<lparr>t_pgd := pgd\<rparr>) st;
          v \<leftarrow> copy_mapping pgd (swapper_pg_dir (ksym st)) (kvm st);
          st \<leftarrow> fork_areas pgd (mmap (mms (kmm st) (t_mm (cur st)))) (set_kvm v st);
          xs \<leftarrow> wr (regs_x (pt_regs_at st (regs + delta))) RISCV_REG_A0 0;
          Some (int i, st\<lparr>pt_regs_at := (pt_regs_at st)(regs + delta := (pt_regs_at st (regs + delta))\<lparr>regs_x := xs\<rparr>)\<rparr>) }"

lemma do_fork_split:
  "do_fork regs st = do { (i, tp, st) \<leftarrow> fork_slot st; st \<leftarrow> fork_record regs i tp st; fork_rest regs i tp st }"
  unfolding do_fork_def fork_slot_def fork_rest_def Let_def Option.bind_assoc
  by (intro Option.bind_cong refl) (auto simp: Option.bind_assoc intro!: Option.bind_cong split del: if_split)

lemma fork_rest_fields:
  assumes run: "fork_rest regs i tp st = Some (pid, st')" and h: "task_ptr st i = Some tp" "t_signal (task_at st tp) \<noteq> 0"
  shows "pid = int i \<and> task st' = task st \<and> current st' = current st \<and> num_tasks st' = num_tasks st \<and>
    signal_pending (signal_at st' (t_signal (task_at st tp))) = 0 \<and>
    (\<exists>fs mm pgd. task_at st' = (task_at st)(tp := (task_at st tp)
       \<lparr>t_files := fs, t_exit_code := 0,
        t_thread := (t_thread (task_at st tp))\<lparr>ra := ret_from_fork (ksym st), sp := regs + (tp - current st),
          sepc := regs_sepc (pt_regs_at st regs), stval := 0, scause := 0\<rparr>, t_mm := mm, t_pgd := pgd\<rparr>)) \<and>
    pt_regs_at st' = (pt_regs_at st)(regs + (tp - current st) := (pt_regs_at st (regs + (tp - current st)))
       \<lparr>regs_x := (regs_x (pt_regs_at st (regs + (tp - current st))))[RISCV_REG_A0 := 0]\<rparr>)"
proof -
  from run obtain fs s1 s2 s3 mm s4 m pgd s5 v s6 xs where
    1: "file_init st = Some (fs, s1)" and
    2: "for_range 3 MAX_FILE_NUMBER (fork_file fs) (upd_task tp (\<lambda>t. t\<lparr>t_files := fs\<rparr>) s1) = Some s2" and
    3: "signal_init i s2 = Some s3" and
    4: "k_alloc_page (upd_thread tp (\<lambda>t. t\<lparr>ra := ret_from_fork (ksym s3), sp := regs + (tp - current s3),
          sepc := regs_sepc (pt_regs_at s3 regs), stval := 0, scause := 0\<rparr>) (upd_task tp (\<lambda>t. t\<lparr>t_exit_code := 0\<rparr>) s3)) = Some (mm, s4)" and
    5: "k_alloc_page (upd_task tp (\<lambda>t. t\<lparr>t_mm := mm\<rparr>) (s4\<lparr>kmm := m\<rparr>)) = Some (pgd, s5)" and
    6: "fork_areas pgd (mmap (mms (kmm (upd_task tp (\<lambda>t. t\<lparr>t_pgd := pgd\<rparr>) s5)) (t_mm (cur (upd_task tp (\<lambda>t. t\<lparr>t_pgd := pgd\<rparr>) s5)))))
          (set_kvm v (upd_task tp (\<lambda>t. t\<lparr>t_pgd := pgd\<rparr>) s5)) = Some s6" and
    7: "wr (regs_x (pt_regs_at s6 (regs + (tp - current s3)))) RISCV_REG_A0 0 = Some xs" "pid = int i"
      "st' = s6\<lparr>pt_regs_at := (pt_regs_at s6)(regs + (tp - current s3) := (pt_regs_at s6 (regs + (tp - current s3)))\<lparr>regs_x := xs\<rparr>)\<rparr>"
    unfolding fork_rest_def Let_def
    by (elim bind_pairE bind_SomeE) (rule that, assumption+, simp_all)
  note P1 = file_init_fields [OF 1] and P2 = proc_partD [OF fork_files_procs [OF 2]]
    and P4 = proc_partD [OF k_alloc_page_procs [OF 4]] and P5 = proc_partD [OF k_alloc_page_procs [OF 5]]
    and P6 = proc_partD [OF fork_areas_procs [OF 6]]
  have t2: "task_at s2 = (task_at st)(tp := (task_at st tp)\<lparr>t_files := fs\<rparr>)" "task s2 = task st" "current s2 = current st"
    "num_tasks s2 = num_tasks st" "ksym s2 = ksym st" "pt_regs_at s2 = pt_regs_at st"
    by (simp_all add: P2 P1 upd_task_def)
  have "task_ptr s2 i = Some tp" "t_signal (task_at s2 tp) \<noteq> 0" using h by (simp_all add: task_ptr_def t2)
  note P3 = signal_init_reset [OF 3 this]
  show ?thesis
    using 7 wr_SomeD [OF 7(1)] P3
    by (simp add: P6 P5 P4 t2 upd_task_def upd_thread_def set_kvm_def) blast
qed


subsection \<open>An example\<close>

text \<open>The task in entry 1 forks; its area list is empty and no file is open.\<close>

definition demo_forker :: kst where
  "demo_forker = (demo_kst (\<lambda>p. if p = 10 then demo_task 0 0 0 0 else (demo_task 1 0 5 5)\<lparr>t_signal := 77, t_files := 88, t_cpid := 1\<rparr>))
     \<lparr>kvm := \<lparr>vmem = \<lambda>_. 0, vbuddy = demo_buddy\<rparr>, files_at := (\<lambda>_. replicate MAX_FILE_NUMBER demo_file)\<rparr>"

lemma demo_allocs:
  obtains b1 b2 b3 b4 b5 where
  "alloc_page demo_buddy = Some (va_of 0, b1)" "alloc_page b1 = Some (va_of 1, b2)" "alloc_page b2 = Some (va_of 2, b3)"
  "alloc_page b3 = Some (va_of 3, b4)" "alloc_page b4 = Some (va_of 4, b5)"
proof -
  have "map_option fst (get_pages alloc_page 5 demo_buddy) = Some [va_of 0, va_of 1, va_of 2, va_of 3, va_of 4]" by code_simp
  then obtain b where "get_pages alloc_page 5 demo_buddy = Some ([va_of 0, va_of 1, va_of 2, va_of 3, va_of 4], b)" by auto
  then show thesis using that by (auto simp: eval_nat_numeral Option.bind_eq_Some_conv)
qed

lemma copy_mapping_empty:
  assumes "\<And>i. i < 512 \<Longrightarrow> \<not> PTE_HAS_V (vmem s (pte_addr src i))"
  shows "copy_mapping dst src s = Some s"
  unfolding copy_mapping_def by (rule for_range_stay) (use assms in \<open>simp add: PTES_512\<close>)

lemma va_apart: "va_of 0 \<noteq> 20" "va_of 0 \<noteq> 10" "va_of 0 \<noteq> 0" "va_of 2 \<noteq> 88" "va_of 0 \<noteq> 88"
  by code_simp+
lemma fork_areas_end: "fork_areas pgd 0 st = Some st"
  by (subst fork_areas.simps) simp

lemma forker [simp]:
  "task demo_forker = [10, 20, 30, 0, 0, 0, 0, 0, 0]" "num_tasks demo_forker = 3" "current demo_forker = 20"
  "task_at demo_forker 20 = (demo_task 1 0 5 5)\<lparr>t_signal := 77, t_files := 88, t_cpid := 1\<rparr>"
  "kvm demo_forker = \<lparr>vmem = \<lambda>_. 0, vbuddy = demo_buddy\<rparr>" "files_at demo_forker = (\<lambda>_. replicate MAX_FILE_NUMBER demo_file)"
  "mmap (mms (kmm demo_forker) a) = 0" "swapper_pg_dir (ksym demo_forker) = 0"
  "pt_regs_at demo_forker a = \<lparr>regs_x = replicate 32 0, regs_sepc = 0, regs_sscratch = 0\<rparr>"
  "wait_queue demo_forker = replicate 9 \<lparr>w_valid = 0, w_mask = 0\<rparr>"
  by (simp_all add: demo_forker_def demo_kst_def)

lemma demo_forks: "\<exists>st'. do_fork 4000 demo_forker = Some (3, st') \<and> task st' ! 3 = va_of 0"
proof -
  obtain b1 b2 b3 b4 b5 where A: "alloc_page demo_buddy = Some (va_of 0, b1)" "alloc_page b1 = Some (va_of (Suc 0), b2)"
    "alloc_page b2 = Some (va_of 2, b3)" "alloc_page b3 = Some (va_of 3, b4)" "alloc_page b4 = Some (va_of 4, b5)"
    by (rule demo_allocs) simp
  let ?tp = "va_of 0"
  define s1 where "s1 = demo_forker\<lparr>num_tasks := 4, kvm := \<lparr>vmem = \<lambda>_. 0, vbuddy = b1\<rparr>, task := [10, 20, 30, ?tp, 0, 0, 0, 0, 0]\<rparr>"
  have 1: "fork_slot demo_forker = Some (3, ?tp, s1)"
    by (simp add: fork_slot_def get_avail_task_id_def k_alloc_page_def A task_ptr_def va_apart upt_rec s1_def)
  obtain s2 where 2: "fork_record 4000 3 ?tp s1 = Some s2" "vmem (kvm s2) = (zero_page (va_of 1) (\<lambda>_. 0))(1 := 3)" "vbuddy (kvm s2) = b2"
     "wait_queue s2 = wait_queue demo_forker" "files_at s2 = files_at demo_forker" "kmm s2 = kmm demo_forker"
    by (simp add: fork_record_def k_alloc_page_def Let_def case_prod_beta add_child_def k_write_def upd_task_def s1_def A va_apart demo_task_def)
  have tn: "?tp \<noteq> current s1" by (simp add: s1_def va_apart)
  note R = fork_record_fields [OF 2(1) tn]
  have s1c: "current s1 = 20" "task s1 = [10, 20, 30, ?tp, 0, 0, 0, 0, 0]" "ksym s1 = ksym demo_forker" "task_at s1 = task_at demo_forker"
    "pt_regs_at s1 = pt_regs_at demo_forker" by (simp_all add: s1_def)
  have r2: "current s2 = 20" "task s2 ! 3 = ?tp" "length (task s2) = 9" "ksym s2 = ksym demo_forker"
     "regs_x (pt_regs_at s2 (4000 + (?tp - 20))) = replicate 32 0" "t_signal (task_at s2 ?tp) = 77"
    using R by (simp_all add: s1c fork_record_child_def)
  have "cur s2 = (cur s1)\<lparr>t_child_cnt := t_child_cnt (cur s1) + 1\<rparr>" using R by blast
  then have m2: "t_files (task_at s2 20) = 88" by (simp add: r2(1) s1c)
  obtain s3 where 3: "file_init s2 = Some (va_of 2, s3)" "files_at s3 88 = replicate MAX_FILE_NUMBER demo_file" "kvm s3 = \<lparr>vmem = vmem (kvm s2), vbuddy = b3\<rparr>" "kmm s3 = kmm s2"
    "wait_queue s3 = wait_queue s2"
    by (simp add: file_init_def k_alloc_page_def 2 A va_apart)
  note P3 = file_init_fields [OF 3(1)]
  let ?s4 = "upd_task ?tp (\<lambda>t. t\<lparr>t_files := va_of 2\<rparr>) s3"
  have cf: "cur_file k ?s4 = Some demo_file" if "k < MAX_FILE_NUMBER" for k
    using that 3(2) va_apart by (simp add: cur_file_def cur_files_def upd_task_def P3 r2 m2)
  have 4: "for_range 3 MAX_FILE_NUMBER (fork_file (va_of 2)) ?s4 = Some ?s4"
    by (rule for_range_stay) (simp add: fork_file_def cf demo_file_def)
  obtain s5 where 5: "signal_init 3 ?s4 = Some s5" "kvm s5 = kvm s3" "kmm s5 = kmm s3"
    using 3(5) 2(4) r2(2,3,6) va_apart by (simp add: signal_init_def task_ptr_def upd_task_def P3 Let_def upd_signal_def set_wait_def)
  have "task_ptr ?s4 3 = Some ?tp" "t_signal (task_at ?s4 ?tp) \<noteq> 0" using r2 va_apart by (simp_all add: task_ptr_def upd_task_def P3)
  note S5 = signal_init_reset [OF 5(1) this]
  have kv: "\<not> PTE_HAS_V (vmem (kvm s2) (pte_addr 0 i))" for i
  proof -
    have "even (pte_addr 0 i)" by simp
    then have "pte_addr 0 i \<noteq> 1" by (metis odd_one)
    then show ?thesis by (simp add: 2(2) zero_page_def)
  qed
  have "\<exists>st'. fork_rest 4000 3 ?tp s2 = Some (int 3, st')"
    unfolding fork_rest_def 3(1) bind.bind_lunit prod.case 4 5(1) Let_def
    using S5 5(2,3) 3(3,4) 2(6) r2 A(4,5) kv
    by (simp add: k_alloc_page_def upd_thread_def upd_task_def copy_mm_def P3 va_apart copy_mapping_empty set_kvm_def fork_areas_end RISCV_REG_A0_def)
  then obtain st' where st': "fork_rest 4000 3 ?tp s2 = Some (3, st')" by auto
  have "task_ptr s2 3 = Some ?tp" "t_signal (task_at s2 ?tp) \<noteq> 0" using r2(2,3,6) va_apart by (simp_all add: task_ptr_def)
  from fork_rest_fields [OF st' this] have "task st' ! 3 = ?tp" using r2(2) by simp
  then show ?thesis using st' by (simp add: do_fork_split 1 2(1))
qed


end
