(* ===== verification/Bytes.thy ===== *)
theory Bytes
  imports Fault_Props
begin

unbundle bit_operations_syntax

text \<open>Bytes of the word memory: what is stored is read back, and nothing else changes.\<close>

lemma seven: "(7 :: u64) = mask 3" and bits_7: "bit (7 :: u64) i \<longleftrightarrow> i < 3" and bits_255: "bit (0xff :: u64) i \<longleftrightarrow> i < 8"
proof -
  show s: "(7 :: u64) = mask 3" by (simp add: mask_eq_exp_minus_1)
  show "bit (7 :: u64) i \<longleftrightarrow> i < 3" unfolding s by (auto simp: bit_mask_iff)
  have "(0xff :: u64) = mask 8" by (simp add: mask_eq_exp_minus_1)
  then show "bit (0xff :: u64) i \<longleftrightarrow> i < 8" by (auto simp only: bit_mask_iff) simp
qed

lemma bit_align: "bit (a AND NOT 7 :: u64) i \<longleftrightarrow> bit a i \<and> 3 \<le> i"
  unfolding seven by (auto simp: bit_and_iff bit_not_iff bit_mask_iff dest: bit_imp_le_length simp del: mask_numeral)

lemma offset_less: "unat (a AND 7 :: u64) < 8"
proof -
  have "(7 :: u64) = mask 3" by (simp add: mask_eq_exp_minus_1)
  then have "unat (a AND 7) = unat a mod 2 ^ 3" by (simp only: unat_and_mask)
  then show ?thesis by simp
qed

lemma same_address: "a AND NOT 7 = b AND NOT 7 \<Longrightarrow> unat (a AND 7) = unat (b AND 7) \<Longrightarrow> a = b" for a b :: u64
proof -
  assume "a AND NOT 7 = b AND NOT 7" "unat (a AND 7) = unat (b AND 7)"
  moreover have "(x AND NOT 7) OR (x AND 7) = x" for x :: u64 by (rule bit_word_eqI) (auto simp: bit_simps)
  ultimately show "a = b" by (metis word_unat_eq_iff)
qed

lemma get_set_byte: "get_byte (set_byte a b m) c = (if c = a then b else get_byte m c)"
proof (cases "c AND NOT 7 = a AND NOT 7")
  case True
  let ?k = "unat (a AND 7)" and ?l = "unat (c AND 7)"
  have kl: "?k < 8" "?l < 8" by (rule offset_less)+
  have c: "c = a \<longleftrightarrow> ?l = ?k" using same_address [OF True] by auto
  show ?thesis
  proof (rule bit_word_eqI)
    fix i assume "i < LENGTH(8)"
    then have i: "i < 8" by simp
    note ff = bits_255 [of i] bits_255 [of "8 * ?l + i - 8 * ?k"]
    have n: "8 * ?l + i < 64" using kl i by linarith
    have d: "8 * ?k \<le> 8 * ?l + i \<and> 8 * ?l + i - 8 * ?k < 8 \<longleftrightarrow> ?l = ?k" using i by auto
    show "bit (get_byte (set_byte a b m) c) i = bit (if c = a then b else get_byte m c) i"
    proof (cases "?l = ?k")
      case eq: True
      then show ?thesis using True i n ff c by (simp add: get_byte_def set_byte_def bit_simps)
    next
      case False
      then have "\<not> (8 * ?k \<le> 8 * ?l + i \<and> 8 * ?l + i - 8 * ?k < 8)" using d by blast
      then show ?thesis using True i n ff c False
        by (auto simp: get_byte_def set_byte_def bit_simps dest: bit_imp_le_length)
    qed
  qed
next
  case False
  then have "c \<noteq> a" by blast
  with False show ?thesis by (simp add: get_byte_def set_byte_def)
qed

lemma get_set_bytes:
  "length bs \<le> 2 ^ 32 \<Longrightarrow> get_byte (set_bytes a bs m) c = (if unat (c - a) < length bs then bs ! unat (c - a) else get_byte m c)"
proof (induction bs arbitrary: a m)
  case (Cons b bs)
  have IH: "get_byte (set_bytes (a + 1) bs (set_byte a b m)) c =
      (if unat (c - (a + 1)) < length bs then bs ! unat (c - (a + 1)) else get_byte (set_byte a b m) c)"
    by (rule Cons.IH) (use Cons.prems in simp)
  show ?case
  proof (cases "c = a")
    case True
    have "unat (c - (a + 1)) = 2 ^ 64 - 1" by (simp add: True unsigned_minus_1_eq_mask mask_eq_exp_minus_1)
    then show ?thesis using IH Cons.prems True by (simp add: get_set_byte)
  next
    case False
    then have "unat (c - a) \<noteq> 0" by (simp add: unat_eq_zero)
    moreover have "unat (c - a - 1) = unat (c - a) - 1" by (rule unat_minus_one) (use False in simp)
    then have "unat (c - (a + 1)) = unat (c - a) - 1" by (simp only: diff_diff_eq)
    ultimately have "unat (c - a) = Suc (unat (c - (a + 1)))" by simp
    then show ?thesis using IH False by (simp add: get_set_byte)
  qed
qed simp

text \<open>Storing in a page changes no word of another page.\<close>

lemma word_in_page:
  assumes "page_aligned n" "unat k < 4096"
  shows "PGROUNDDOWN ((n + k) AND NOT 7) = n"
proof -
  have "PGROUNDDOWN ((n + k) AND NOT 7) = PGROUNDDOWN (n + k)"
    by (rule bit_word_eqI, simp only: PGROUNDDOWN_eq bit_push_bit_iff bit_drop_bit_eq comp_apply bit_align) auto
  then show ?thesis using page_offset(1) [OF assms] by simp
qed

lemma set_bytes_other:
  assumes "page_aligned n" "unat k + length bs \<le> 4096" "PGROUNDDOWN w \<noteq> n"
  shows "set_bytes (n + k) bs m w = m w"
  using assms(2)
proof (induction bs arbitrary: k m)
  case (Cons b bs)
  have k: "unat (k + 1) = unat k + 1" using Cons.prems by (subst unat_add_small) simp_all
  have "w \<noteq> (n + k) AND NOT 7" using word_in_page [OF assms(1), of k] assms(3) Cons.prems by auto
  then have "set_byte (n + k) b m w = m w" by (simp add: set_byte_def)
  moreover have "set_bytes (n + (k + 1)) bs (set_byte (n + k) b m) w = set_byte (n + k) b m w"
    by (rule Cons.IH) (use k Cons.prems in simp)
  ultimately show ?case by (simp add: add.assoc)
qed simp

text \<open>A byte of an aligned word.\<close>

lemma aligned_byte:
  assumes "a AND 7 = (0 :: u64)" "i < 8"
  shows "get_byte m (a + of_nat i) = ucast (drop_bit (8 * i) (m a))"
proof -
  have i: "take_bit 3 (of_nat i :: u64) = of_nat i"
    using assms(2) by (simp only: of_nat_take_bit [symmetric]) (simp add: take_bit_nat_eq_self)
  have a: "take_bit 3 a = 0" using assms(1) by (simp only: seven take_bit_eq_mask)
  have "\<not> bit a n" if "bit (of_nat i :: u64) n" for n
  proof -
    have "bit (take_bit 3 (of_nat i :: u64)) n" unfolding i by (rule that)
    then have "n < 3" by (simp add: bit_take_bit_iff)
    moreover have "\<not> bit (take_bit 3 a) n" by (simp add: a)
    ultimately show ?thesis by (simp add: bit_take_bit_iff)
  qed
  then have "a + of_nat i = a OR of_nat i" by (intro disjunctive_add) blast
  then have "(a + of_nat i) AND 7 = take_bit 3 a OR take_bit 3 (of_nat i)"
    by (simp only: seven take_bit_eq_mask [symmetric] take_bit_or)
  then have l: "(a + of_nat i) AND 7 = of_nat i" using i a by simp
  then have "unat ((a + of_nat i) AND 7) = i" using assms(2) by (simp add: unsigned_of_nat take_bit_nat_eq_self)
  moreover have "(a + of_nat i) AND NOT 7 = a"
  proof -
    have "(x AND NOT 7) + (x AND 7) = (x AND NOT 7) OR (x AND 7)" for x :: u64
      by (rule disjunctive_add) (auto simp: bit_simps)
    also have "\<dots> x = x" for x :: u64 by (rule bit_word_eqI) (auto simp: bit_simps)
    finally show ?thesis by (metis add_right_cancel l)
  qed
  ultimately show ?thesis by (simp add: get_byte_def)
qed

end
