(* ===== verification/File_Fault.thy ===== *)
theory File_Fault
  imports Bytes Fork_Props Fat32_Claims Vma_Claims Sched_Claims
begin

unbundle bit_operations_syntax

text \<open>Demand paging from a file: what a task finds in a page after the fault that mapped it.\<close>

subsection \<open>Open files\<close>

lemma set_file_total:
  assumes "get_file p st = Some f"
  obtains fs where "\<And>s. files_at s = files_at st \<Longrightarrow> set_file p g s = Some (s\<lparr>files_at := fs\<rparr>)"
    "\<And>s. files_at s = fs \<Longrightarrow> get_file p s = Some g"
proof -
  obtain fs where "wr (files_at st (PGROUNDDOWN p)) (file_index p) g = Some fs" "rd fs (file_index p) = Some g"
    using assms by (auto simp: get_file_def rd_def wr_def split: if_splits)
  then show thesis using assms
    by (intro that [of "(files_at st)(PGROUNDDOWN p := fs)"]) (auto simp: get_file_def set_file_def split: if_splits)
qed

lemma opened_cfo [simp]: "opened_file st (fil\<lparr>cfo := off\<rparr>) cs sz = opened_file st fil cs sz"
  by (simp add: opened_file_def)

lemma get_file_kvm [simp]: "get_file p (st\<lparr>kvm := v\<rparr>) = get_file p st"
  by (simp add: get_file_def)

subsection \<open>Filling the page\<close>

definition file_off :: "u64 \<Rightarrow> vm_area \<Rightarrow> u64" where
  "file_off a vma = vm_pgoff vma + (PGROUNDDOWN a - vm_start vma)"

definition file_backed :: "u64 \<Rightarrow> u64 \<Rightarrow> file_t \<Rightarrow> u32 list \<Rightarrow> u32 \<Rightarrow> kst \<Rightarrow> bool" where
  "file_backed a vp fil cs sz st \<longleftrightarrow>
     (let vma = vmas (kmm st) vp
      in find_vma (t_mm (cur st)) a (kmm st) = Some vp \<and> vp \<noteq> 0 \<and> vm_flags vma AND VM_ANON = 0 \<and> vm_file vma \<noteq> 0 \<and>
         get_file (vm_file vma) st = Some fil \<and> lseek_fn fil = Some Fat32_lseek \<and> read_fn fil = Some Fat32_read \<and>
         opened_file (fat st) fil cs sz \<and> unat (file_off a vma) \<le> unat sz)"

definition page_part :: "u64 \<Rightarrow> vm_area \<Rightarrow> u32 \<Rightarrow> nat" where
  "page_part a vma sz = min 4096 (unat sz - unat (file_off a vma))"

abbreviation file_content :: "fat_st \<Rightarrow> u32 list \<Rightarrow> u8 list" where
  "file_content fs cs \<equiv> fat_content (fat32_volume fs) (fat_disk fs) cs"

lemma fill_page_file:
  assumes "vm_flags vma AND VM_ANON = 0" "vm_file vma \<noteq> 0" "get_file (vm_file vma) st = Some fil"
    "lseek_fn fil = Some Fat32_lseek" "read_fn fil = Some Fat32_read" "opened_file (fat st) fil cs sz" "unat (file_off a vma) \<le> unat sz"
  defines "n \<equiv> page_part a vma sz" and "off \<equiv> unat (file_off a vma)"
  shows "\<exists>fs ft. fill_page p (PGROUNDDOWN a) vma st = Some (st\<lparr>fat := ft, files_at := fs,
      kvm := (kvm st)\<lparr>vmem := set_bytes p (take n (drop off (file_content (fat st) cs))) (vmem (kvm st))\<rparr>\<rparr>) \<and> same_fs (fat st) ft \<and>
    (\<forall>s. files_at s = fs \<longrightarrow> get_file (vm_file vma) s = Some (fil\<lparr>cfo := file_off a vma + of_nat n\<rparr>))"
proof -
  let ?f = "fil\<lparr>cfo := file_off a vma\<rparr>" and ?p = "vm_file vma"
  obtain fs where fs: "\<And>s. files_at s = files_at st \<Longrightarrow> set_file ?p ?f s = Some (s\<lparr>files_at := fs\<rparr>)"
    "\<And>s. files_at s = fs \<Longrightarrow> get_file ?p s = Some ?f" by (rule set_file_total [OF assms(3)]) blast
  have ls: "file_lseek ?p (file_off a vma) SEEK_SET st = Some (file_off a vma, st\<lparr>files_at := fs\<rparr>)"
    using fs(1) by (simp add: file_lseek_def assms(3,4) fat32_lseek_def)
  have b: "unat (cfo ?f) + unat PGSIZE < 2 ^ 64" "min (unat PGSIZE) (unat sz - unat (cfo ?f)) = n"
    using assms(7) unat_u32_less [of sz] by (simp_all add: PGSIZE_def n_def page_part_def)
  obtain ft where ft: "fat32_read ?f PGSIZE (fat st) = Some (of_nat n, take n (drop off (file_content (fat st) cs)),
      ?f\<lparr>cfo := file_off a vma + of_nat n\<rparr>, ft)" "same_fs (fat st) ft"
    using fat32_read_ok [of "fat st" ?f cs sz PGSIZE] assms(6,7) b by (auto simp: off_def)
  let ?g = "fil\<lparr>cfo := file_off a vma + of_nat n\<rparr>"
  obtain fs2 where fs2: "\<And>s. files_at s = files_at (st\<lparr>files_at := fs\<rparr>) \<Longrightarrow> set_file ?p ?g s = Some (s\<lparr>files_at := fs2\<rparr>)"
    "\<And>s. files_at s = fs2 \<Longrightarrow> get_file ?p s = Some ?g" by (rule set_file_total [OF fs(2) [of "st\<lparr>files_at := fs\<rparr>"]]) (simp, blast)
  have rdf: "file_read ?p PGSIZE (st\<lparr>files_at := fs\<rparr>)
      = Some (of_nat n, take n (drop off (file_content (fat st) cs)), st\<lparr>fat := ft, files_at := fs2\<rparr>)"
    using fs2(1) ft(1) fs(2) by (simp add: file_read_def assms(5))
  show ?thesis
    using ls rdf fs2(2) ft(2) assms(1,2)
    by (intro exI [of _ fs2] exI [of _ ft]) (simp add: fill_page_def file_off_def [symmetric])
qed

subsection \<open>What the task sees\<close>

lemma user_pte_leaf:
  assumes "pt_wf (vmem (kvm st)) own (t_pgd (cur st))" "PTE_HAS_V (leaf_pte (vmem (kvm st)) (t_pgd (cur st)) (vpn_of a))"
  shows "user_pte a st = leaf_pte (vmem (kvm st)) (t_pgd (cur st)) (vpn_of a)"
  by (rule walk_valid [OF assms]) (simp add: user_pte_def Let_def)

lemma vma_perm_small: "take_bit 10 (mapping_perm (vma_flags_to_perm f)) = mapping_perm (vma_flags_to_perm f)"
  by (rule mapping_perm_small) (simp add: vma_flags_to_perm_def Let_def kdefs take_bit_or)

lemma page_of_round: "page_aligned (PGROUNDDOWN a)"
  unfolding page_aligned_def PGROUNDDOWN_eq by (rule bit_eqI) (auto simp: bit_simps)

lemma in_round:
  assumes "j < 4096"
  shows "vpn_of (PGROUNDDOWN a + of_nat j) = vpn_of a" "TRUNCATE (PGROUNDDOWN a + of_nat j) PAGE_SHIFT = of_nat j"
proof -
  note P = page_offset [OF page_of_round assms, of a]
  have "drop_bit 12 (PGROUNDDOWN a + of_nat j) = drop_bit 12 a"
    by (metis P(1) PGROUNDDOWN_idem round_drop PAGE_SHIFT_def)
  then show "vpn_of (PGROUNDDOWN a + of_nat j) = vpn_of a"
    by (metis vpn_of_def unat_drop_bit_div)
  show "TRUNCATE (PGROUNDDOWN a + of_nat j) PAGE_SHIFT = of_nat j"
    using P(2) by (simp add: TRUNCATE_def PAGE_SHIFT_def take_bit_eq_mask mask_eq_exp_minus_1)
qed


text \<open>The example: the second area of the example is backed by the file of the example volume, from its second byte on.\<close>

definition demo_backed_area :: vm_area where
  "demo_backed_area = (vmas demo_mms (vma_slot demo_mm 1))\<lparr>vm_flags := VM_READ, vm_file := 0x51b0, vm_pgoff := 1\<rparr>"

definition demo_backed :: kst where
  "demo_backed = (demo_kst (\<lambda>_. (demo_task 1 0 5 5)\<lparr>t_pgd := root_a, t_mm := demo_mm\<rparr>))
     \<lparr>kmm := demo_mms\<lparr>vmas := (vmas demo_mms)(vma_slot demo_mm 1 := demo_backed_area)\<rparr>, kvm := demo_vm, fat := demo_fat,
      files_at := (\<lambda>_. replicate 16 demo_file)\<rparr>"

lemma demo_backed_state:
  "cur demo_backed = (demo_task 1 0 5 5)\<lparr>t_pgd := root_a, t_mm := demo_mm\<rparr>" "kvm demo_backed = demo_vm" "fat demo_backed = demo_fat"
  "vmas (kmm demo_backed) (vma_slot demo_mm (Suc 0)) = demo_backed_area" "files_at demo_backed a = replicate 16 demo_file"
  by (simp_all add: demo_backed_def demo_kst_def)

declare find_vma_loop.simps [code]


end
