(* ===== verification/Exec_Claims.thy ===== *)
theory Exec_Claims
  imports Fork_Task Vma_Claims Bytes
begin

unbundle bit_operations_syntax

text \<open>Loading a program: the areas of a process after \<open>execve\<close>.\<close>

subsection \<open>The program headers\<close>

type_synonym area = "u64 \<times> u64 \<times> u32 \<times> u64 \<times> u64 \<times> u64"

definition phdrs_of :: "u64 \<Rightarrow> kst \<Rightarrow> elf64_phdr list" where
  "phdrs_of start st =
     (let ehdr = ehdr_at start st in map (\<lambda>i. phdr_at (start + e_phoff ehdr + 56 * of_nat i) st) [0 ..< unat (e_phnum ehdr)])"

text \<open>The whole pages a segment needs, with its rights, backed by the file from the segment's offset on.\<close>

definition segment_area :: "u64 \<Rightarrow> elf64_phdr \<Rightarrow> area" where
  "segment_area fil p =
     the_area (PGROUNDDOWN (p_vaddr p)) (PGROUNDUP (p_vaddr p + p_memsz p) - PGROUNDDOWN (p_vaddr p)) (segment_flags (p_flags p))
       fil (p_offset p) (p_filesz p)"

definition loads :: "elf64_phdr list \<Rightarrow> elf64_phdr list" where "loads ps = filter (\<lambda>p. p_type p = PT_LOAD) ps"

definition program_areas :: "u64 \<Rightarrow> elf64_phdr list \<Rightarrow> area list" where
  "program_areas fil ps = fold (\<lambda>p. insert_area (segment_area fil p)) (loads ps) []"

lemma length_insert_area [simp]: "length (insert_area x xs) = Suc (length xs)"
  by (induction xs) (auto simp: Let_def)

lemma length_program_areas: "length (program_areas fil ps) = length (loads ps)"
proof -
  have "length (fold (\<lambda>p. insert_area (segment_area fil p)) xs A) = length xs + length A" for xs A
    by (induction xs arbitrary: A) simp_all
  then show ?thesis by (simp add: program_areas_def)
qed

lemma header_cong:
  assumes "vmem (kvm st') = vmem (kvm st)"
  shows "ehdr_at a st' = ehdr_at a st" "phdr_at a st' = phdr_at a st" "phdrs_of a st' = phdrs_of a st"
  using assms by (simp_all add: ehdr_at_def phdr_at_def kload_def phdrs_of_def)

text \<open>An area is added while a slot is free.\<close>

lemma mmap_room:
  assumes "mm_wf st mm vs fs" "length vs < NR_VMA_SLOTS" "mm_page mm" "areas (vmas st) vs = A"
  shows "\<exists>st' vs' fs'. do_mmap mm va len fl fil off sz st = Some (va, st') \<and> mm_wf st' mm vs' fs' \<and>
    areas (vmas st') vs' = insert_area (the_area va len fl fil off sz) A \<and> length vs' = Suc (length vs)"
proof -
  have "vs = [] \<or> fs \<noteq> []" using assms(1,2) by (auto simp: mm_wf_def)
  from do_mmap_ok [OF assms(1) this assms(3), of va len fl fil off sz]
  obtain st' f ys zs fs' where M: "do_mmap mm va len fl fil off sz st = Some (va, st')" "vs = ys @ zs" "mm_wf st' mm (ys @ f # zs) fs'"
    "areas (vmas st') (ys @ f # zs) = areas (vmas st) ys @ the_area va len fl fil off sz # areas (vmas st) zs"
    "insert_area (the_area va len fl fil off sz) (areas (vmas st) vs) = areas (vmas st) ys @ the_area va len fl fil off sz # areas (vmas st) zs"
    by blast
  then show ?thesis using assms(4) by (intro exI [of _ st'] exI [of _ "ys @ f # zs"] exI [of _ fs']) simp
qed

text \<open>What the loop over the headers keeps: only the areas of the process change.\<close>

definition loading :: "u64 \<Rightarrow> u64 \<Rightarrow> kst \<Rightarrow> elf64_phdr list \<Rightarrow> kst \<Rightarrow> bool" where
  "loading mm fil st ps s \<longleftrightarrow>
     (\<exists>m vs fs. s = st\<lparr>kmm := m\<rparr> \<and> mm_wf m mm vs fs \<and> areas (vmas m) vs = program_areas fil ps \<and> length vs = length (loads ps))"

lemma loading_same:
  assumes "loading mm fil st ps s"
  shows "kvm s = kvm st" "task_at s = task_at st"
  using assms by (auto simp: loading_def)

lemma load_segment_step:
  assumes L: "loading mm fil st ps s" and mm: "t_mm (task_at st tsk) = mm" "mm_page mm" and room: "length (loads ps) < NR_VMA_SLOTS"
  shows "\<exists>s'. load_segment tsk ph fil s = Some s' \<and> loading mm fil st (ps @ [phdr_at ph st]) s'"
proof -
  obtain m vs fs where w: "mm_wf m mm vs fs" "areas (vmas m) vs = program_areas fil ps" "length vs = length (loads ps)"
    and s: "s = st\<lparr>kmm := m\<rparr>" using L by (auto simp: loading_def)
  have e: "phdr_at ph s = phdr_at ph st" "task_at s = task_at st" using loading_same [OF L] header_cong(2) [of s st] by simp_all
  show ?thesis
  proof (cases "p_type (phdr_at ph st) = PT_LOAD")
    case False
    have "load_segment tsk ph fil s = Some s" by (simp add: load_segment_def e False Let_def)
    moreover have "loads (ps @ [phdr_at ph st]) = loads ps" using False by (simp add: loads_def)
    ultimately show ?thesis using L by (simp add: loading_def program_areas_def)
  next
    case True
    let ?p = "phdr_at ph st"
    obtain m' vs' fs' where M: "do_mmap mm (PGROUNDDOWN (p_vaddr ?p)) (PGROUNDUP (p_vaddr ?p + p_memsz ?p) - PGROUNDDOWN (p_vaddr ?p))
        (segment_flags (p_flags ?p)) fil (p_offset ?p) (p_filesz ?p) m = Some (PGROUNDDOWN (p_vaddr ?p), m')" "mm_wf m' mm vs' fs'"
      "areas (vmas m') vs' = insert_area (segment_area fil ?p) (program_areas fil ps)" "length vs' = Suc (length vs)"
      using mmap_room [OF w(1) _ mm(2) w(2)] w(3) room unfolding segment_area_def by fastforce
    have "load_segment tsk ph fil s = Some (s\<lparr>kmm := m'\<rparr>)"
      using M(1) mm(1) by (simp add: load_segment_def e True Let_def) (simp add: s)
    moreover have "loads (ps @ [?p]) = loads ps @ [?p]" using True by (simp add: loads_def)
    then have "loading mm fil st (ps @ [?p]) (s\<lparr>kmm := m'\<rparr>)"
      using M w(3) by (auto simp: loading_def program_areas_def s)
    ultimately show ?thesis by blast
  qed
qed

lemma load_program_areas:
  assumes "mm_wf (kmm st) mm [] fs" "t_mm (task_at st tsk) = mm" "mm_page mm" "length (loads (phdrs_of start st)) \<le> NR_VMA_SLOTS"
  shows "\<exists>s. load_program tsk start fil st = Some (upd_thread tsk (\<lambda>t. t\<lparr>sepc := e_entry (ehdr_at start st)\<rparr>) s) \<and>
    loading mm fil st (phdrs_of start st) s"
proof -
  let ?n = "unat (e_phnum (ehdr_at start st))" and ?ph = "\<lambda>i. start + e_phoff (ehdr_at start st) + 56 * of_nat i"
  define ps where "ps = (\<lambda>k. map (\<lambda>i. phdr_at (?ph i) st) [0 ..< k])"
  have ps_n: "ps ?n = phdrs_of start st" by (simp add: ps_def phdrs_of_def Let_def)
  have "loading mm fil st (ps 0) st" using assms(1)
    by (auto simp: loading_def ps_def program_areas_def loads_def areas_def intro!: exI [of _ "kmm st"])
  moreover have "\<exists>v. load_segment tsk (?ph k) fil u = Some v \<and> loading mm fil st (ps (Suc k)) v"
    if k: "k < ?n" and u: "loading mm fil st (ps k) u" for k u
  proof -
    have Suc: "ps (Suc k) = ps k @ [phdr_at (?ph k) st]" by (simp add: ps_def)
    show ?thesis
    proof (cases "p_type (phdr_at (?ph k) st) = PT_LOAD")
      case True
      have "[0 ..< ?n] = [0 ..< Suc k] @ [Suc k ..< ?n]" using k by (metis Suc_leI le0 upt_add_eq_append le_add_diff_inverse)
      then have "phdrs_of start st = ps (Suc k) @ map (\<lambda>i. phdr_at (?ph i) st) [Suc k ..< ?n]"
        unfolding ps_n [symmetric] ps_def by (metis map_append)
      then have "length (loads (ps (Suc k))) \<le> NR_VMA_SLOTS" using assms(4) by (simp add: loads_def)
      then have "length (loads (ps k)) < NR_VMA_SLOTS" using True by (simp add: Suc loads_def)
      from load_segment_step [OF u assms(2,3) this] show ?thesis by (simp add: Suc)
    next
      case False
      have "task_at u = task_at st" "phdr_at (?ph k) u = phdr_at (?ph k) st"
        using loading_same [OF u] header_cong(2) [of u st] by simp_all
      then show ?thesis using u False by (auto simp: load_segment_def Let_def Suc loading_def program_areas_def loads_def)
    qed
  qed
  ultimately obtain s where s: "for_range 0 ?n (\<lambda>i s. load_segment tsk (?ph i) fil s) st = Some s" "loading mm fil st (ps ?n) s"
    using for_range_total [where P = "\<lambda>k s. loading mm fil st (ps k) s" and lo = 0 and hi = ?n
        and body = "\<lambda>i s. load_segment tsk (?ph i) fil s" and s = st] by auto
  have "ehdr_at start s = ehdr_at start st" using header_cong(1) [of s st] loading_same(1) [OF s(2)] by simp
  then show ?thesis using s by (intro exI [of _ s]) (simp add: load_program_def Let_def ps_n)
qed

lemma load_program_mem:
  assumes "load_program tsk start fil st = Some st'"
  shows "kvm st' = kvm st \<and> current st' = current st \<and> t_mm (task_at st' p) = t_mm (task_at st p)"
proof -
  let ?n = "unat (e_phnum (ehdr_at start st))" and ?ph = "\<lambda>i. start + e_phoff (ehdr_at start st) + 56 * of_nat i"
  obtain s where s: "for_range 0 ?n (\<lambda>i s. load_segment tsk (?ph i) fil s) st = Some s"
    "st' = upd_thread tsk (\<lambda>t. t\<lparr>sepc := e_entry (ehdr_at start s)\<rparr>) s"
    using assms by (auto simp: load_program_def Let_def Option.bind_eq_Some_conv)
  have "kvm s = kvm st \<and> current s = current st \<and> task_at s = task_at st"
    by (rule for_range_rule [where P = "\<lambda>_ u. kvm u = kvm st \<and> current u = current st \<and> task_at u = task_at st", OF s(1)])
      (auto simp: load_segment_def Let_def Option.bind_eq_Some_conv split: if_splits)
  then show ?thesis by (simp add: s(2) upd_thread_def upd_task_def)
qed

text \<open>What is loaded from within an aligned word.\<close>

lemma bit_le_num: "bit (le_num bs) n \<longleftrightarrow> n < 64 \<and> n div 8 < length bs \<and> bit (bs ! (n div 8)) (n mod 8)"
proof (induction bs arbitrary: n)
  case (Cons b bs)
  show ?case
  proof (cases "n < 8")
    case True
    then show ?thesis by (simp add: le_num_def bit_simps)
  next
    case False
    then have d: "n div 8 = Suc ((n - 8) div 8)" "n mod 8 = (n - 8) mod 8" by (simp_all add: le_div_geq le_mod_geq)
    have "le_num (b # bs) = push_bit 8 (le_num bs) OR ucast b" by (simp add: le_num_def)
    then have "bit (le_num (b # bs)) n \<longleftrightarrow> n < 64 \<and> bit (le_num bs) (n - 8)"
      using False by (auto simp: bit_simps dest: bit_imp_le_length)
    then show ?thesis unfolding Cons.IH d using False by auto
  qed
qed (simp add: le_num_def)

lemma kload_word:
  assumes "a AND 7 = 0" "i + n \<le> 8"
  shows "kload (a + of_nat i) n st = take_bit (8 * n) (drop_bit (8 * i) (vmem (kvm st) a))"
proof -
  have "get_bytes (a + of_nat i) n (vmem (kvm st)) = map (\<lambda>j. ucast (drop_bit (8 * (i + j)) (vmem (kvm st) a))) [0 ..< n]"
    unfolding get_bytes_def
  proof (rule map_cong)
    fix j assume "j \<in> set [0 ..< n]"
    then show "get_byte (vmem (kvm st)) (a + of_nat i + of_nat j) = ucast (drop_bit (8 * (i + j)) (vmem (kvm st) a))"
      using aligned_byte [OF assms(1), of "i + j"] assms(2) by (simp add: add.assoc)
  qed simp
  moreover have "8 * (i + k div 8) + k mod 8 = 8 * i + k" for k :: nat by simp
  ultimately show ?thesis
    unfolding kload_def by (intro bit_word_eqI) (auto simp: bit_le_num bit_simps less_mult_imp_div_less div_less_iff_less_mult mult.commute add.commute)
qed

subsection \<open>execve\<close>

lemma k_free_pages_mem: "k_free_pages p st = Some st' \<Longrightarrow> \<exists>b. st' = st\<lparr>kvm := (kvm st)\<lparr>vbuddy := b\<rparr>\<rparr>"
  by (auto simp: k_free_pages_def Option.bind_eq_Some_conv)

lemma new_mm_fields:
  assumes "new_mm tp st = Some (mm, st')"
  shows "current st' = current st \<and> vmem (kvm st') = vmem (kvm st) \<and> mm_wf (kmm st') mm [] [] \<and>
    task_at st' = (task_at st)(tp := (task_at st tp)\<lparr>t_mm := mm\<rparr>) \<and> ksym st' = ksym st"
  using assms
  by (auto simp: new_mm_def k_alloc_page_def Option.bind_eq_Some_conv upd_task_def mm_wf_def mupd_def list_ok_def)


text \<open>Two loadable segments in the page at frame 2; the caller has no area, its \<open>mm_struct\<close> is in frame 1.\<close>

definition demo_elf :: "u64 \<Rightarrow> u64" where
  "demo_elf =
     (let h = va_of 2 in
      (\<lambda>_. 0)(h := 0x464c457f, h + 24 := 0x10000, h + 32 := 64, h + 56 := 2,
        h + 64 := 0x500000001, h + 80 := 0x10000, h + 96 := 0x1234, h + 104 := 0x1234,
        h + 120 := 0x600000001, h + 128 := 0x2000, h + 136 := 0x12000, h + 152 := 0x10, h + 160 := 0x3000))"

definition demo_exec :: kst where
  "demo_exec = (demo_kst (\<lambda>_. (demo_task 1 0 5 5)\<lparr>t_mm := va_of 1, t_files := 0x5000\<rparr>))\<lparr>kvm := \<lparr>vmem = demo_elf, vbuddy = vbuddy demo_vm\<rparr>\<rparr>"

lemma demo_exec_state:
  "task_at demo_exec p = (demo_task 1 0 5 5)\<lparr>t_mm := va_of 1, t_files := 0x5000\<rparr>" "kvm demo_exec = \<lparr>vmem = demo_elf, vbuddy = vbuddy demo_vm\<rparr>"
  "mmap (mms (kmm demo_exec) p) = 0" "current demo_exec = 20"
  by (simp_all add: demo_exec_def demo_kst_def)

lemma va2: "va_of 2 = 0xffffffe000002000" by code_simp

lemma demo_load: "a AND 7 = 0 \<Longrightarrow> kload a 8 demo_exec = demo_elf a" "a AND 7 = 0 \<Longrightarrow> kload a 4 demo_exec = take_bit 32 (demo_elf a)"
   "a AND 7 = 0 \<Longrightarrow> kload (a + 4) 4 demo_exec = drop_bit 32 (demo_elf a)" "a AND 7 = 0 \<Longrightarrow> kload a 2 demo_exec = take_bit 16 (demo_elf a)"
proof -
  assume "a AND 7 = 0"
  note k = kload_word [OF this, where st = demo_exec]
  show "kload a 8 demo_exec = demo_elf a" using k [of 0 8] by (simp add: demo_exec_state take_bit_word_eq_self)
  show "kload a 4 demo_exec = take_bit 32 (demo_elf a)" using k [of 0 4] by (simp add: demo_exec_state)
  have "take_bit 32 (drop_bit 32 w) = drop_bit 32 w" for w :: u64 by (rule bit_word_eqI) (auto simp: bit_simps dest: bit_imp_le_length)
  then show "kload (a + 4) 4 demo_exec = drop_bit 32 (demo_elf a)" using k [of 4 4] by (simp add: demo_exec_state)
  show "kload a 2 demo_exec = take_bit 16 (demo_elf a)" using k [of 0 2] by (simp add: demo_exec_state)
qed

lemma demo_elf_headers:
  "e_phnum (ehdr_at (va_of 2) demo_exec) = 2" "e_entry (ehdr_at (va_of 2) demo_exec) = 0x10000" "e_phoff (ehdr_at (va_of 2) demo_exec) = 64"
  by (simp_all add: ehdr_at_def va2 demo_load demo_elf_def Let_def)

lemma demo_elf_phdrs:
  "phdrs_of (va_of 2) demo_exec =
    [\<lparr>p_type = 1, p_flags = 5, p_offset = 0, p_vaddr = 0x10000, p_paddr = 0, p_filesz = 0x1234, p_memsz = 0x1234, p_align = 0\<rparr>,
     \<lparr>p_type = 1, p_flags = 6, p_offset = 0x2000, p_vaddr = 0x12000, p_paddr = 0, p_filesz = 0x10, p_memsz = 0x3000, p_align = 0\<rparr>]"
proof -
  have l: "phdrs_of (va_of 2) demo_exec = [phdr_at (va_of 2 + 64) demo_exec, phdr_at (va_of 2 + 120) demo_exec]"
    by (simp add: phdrs_of_def demo_elf_headers upt_conv_Cons add.commute)
  note hi = demo_load(3) [of "0xffffffe000002040", simplified] demo_load(3) [of "0xffffffe000002078", simplified]
  show ?thesis unfolding l by (simp add: phdr_at_def va2 demo_load(1,2) hi demo_elf_def Let_def)
qed

lemma demo_elf_areas:
  "insert_area (the_area (USER_END - PGSIZE) PGSIZE (VM_READ OR VM_WRITE OR VM_EXEC) 0 0 0) (program_areas f (phdrs_of (va_of 2) demo_exec)) =
     [(0x10000, 0x12000, VM_READ OR VM_EXEC, f, 0, 0x1234), (0x12000, 0x15000, VM_READ OR VM_WRITE, f, 0x2000, 0x10),
      (USER_END - PGSIZE, USER_END, VM_READ OR VM_WRITE OR VM_EXEC, 0, 0, 0)]"
  unfolding demo_elf_phdrs by code_simp

lemma demo_elf_loads: "length (loads (phdrs_of (va_of 2) demo_exec)) = 2"
  by (simp add: demo_elf_phdrs loads_def PT_LOAD_def)

lemma demo_exec_pages:
  obtains b where "alloc_page (vbuddy demo_vm) = Some (va_of 3, b)" "free_pages (va_of 1) (vbuddy demo_vm) = Some (vbuddy demo_vm)"
    "free_pages (va_of 2) b = Some b"
proof -
  have "case alloc_page (vbuddy demo_vm) of Some (p, b) \<Rightarrow> p = va_of 3 \<and> rd (ref_cnt b) (pfn_of_va (va_of 2)) = Some 1 | None \<Rightarrow> False"
    "rd (ref_cnt (vbuddy demo_vm)) (pfn_of_va (va_of 1)) = Some 1" by code_simp+
  then show thesis using that by (auto split: option.splits simp: free_pages_def buddy_free_def pfn_of_va_def)
qed

lemma demo_exec_runs: "\<exists>st'. exec_image 3 (va_of 2) demo_exec = Some st' \<and> t_mm (cur st') = va_of 3 \<and> vmem (kvm st') = demo_elf"
proof -
  obtain b where b: "alloc_page (vbuddy demo_vm) = Some (va_of 3, b)" "free_pages (va_of 1) (vbuddy demo_vm) = Some (vbuddy demo_vm)"
    "free_pages (va_of 2) b = Some b" by (rule demo_exec_pages)
  let ?f = "cur_file_ptr 3 demo_exec" and ?t = "(demo_task 1 0 5 5)\<lparr>t_mm := va_of 3, t_files := 0x5000\<rparr>"
  define s3 where "s3 = upd_task 20 (\<lambda>t. t\<lparr>t_mm := va_of 3\<rparr>) (demo_exec\<lparr>kvm := \<lparr>vmem = demo_elf, vbuddy = b\<rparr>,
    kmm := mupd (va_of 3) (\<lambda>m. \<lparr>mmap = 0, num_vmas = 0, free_vma_list = 0\<rparr>) (kmm demo_exec)\<rparr>)"
  have 1: "drop_areas 0 demo_exec = Some demo_exec" by (subst drop_areas.simps) simp
  have 2: "k_free_pages (va_of 1) demo_exec = Some demo_exec" using b(2) by (simp add: k_free_pages_def demo_exec_state)
  have 3: "new_mm 20 demo_exec = Some (va_of 3, s3)" by (simp add: new_mm_def k_alloc_page_def demo_exec_state b s3_def)
  have mm: "mm_page (va_of 3)" by code_simp
  have s3: "current s3 = 20" "t_mm (task_at s3 20) = va_of 3" "mm_wf (kmm s3) (va_of 3) [] []" "kvm s3 = \<lparr>vmem = demo_elf, vbuddy = b\<rparr>"
    "cur_file_ptr 3 s3 = ?f"
    using new_mm_fields [OF 3] by (simp_all add: s3_def upd_task_def demo_exec_state cur_file_ptr_def)
  have room: "2 < NR_VMA_SLOTS" by code_simp
  have H: "phdrs_of (va_of 2) s3 = phdrs_of (va_of 2) demo_exec" by (rule header_cong) (simp add: s3 demo_exec_state)
  obtain s where s: "load_program 20 (va_of 2) ?f s3 = Some (upd_thread 20 (\<lambda>t. t\<lparr>sepc := e_entry (ehdr_at (va_of 2) s3)\<rparr>) s)"
    "loading (va_of 3) ?f s3 (phdrs_of (va_of 2) demo_exec) s"
    using load_program_areas [OF s3(3,2) mm, of "va_of 2" ?f] room by (auto simp: H demo_elf_loads)
  define s4 where "s4 = upd_thread 20 (\<lambda>t. t\<lparr>sepc := e_entry (ehdr_at (va_of 2) s3)\<rparr>) s"
  obtain m vs fs where m: "s = s3\<lparr>kmm := m\<rparr>" "mm_wf m (va_of 3) vs fs" "length vs = 2"
    using s(2) by (auto simp: loading_def demo_elf_loads)
  have s4: "current s4 = 20" "t_mm (task_at s4 20) = va_of 3" "kvm s4 = \<lparr>vmem = demo_elf, vbuddy = b\<rparr>" "kmm s4 = m"
    using s3 by (simp_all add: s4_def m(1) upd_thread_def upd_task_def)
  have 5: "k_free_pages (va_of 2) s4 = Some (s4\<lparr>kvm := kvm s4\<rparr>)" by (simp add: k_free_pages_def s4 b)
  obtain m' vs' fs' where m': "do_mmap (va_of 3) (USER_END - PGSIZE) PGSIZE (VM_READ OR VM_WRITE OR VM_EXEC) 0 0 0 m = Some (USER_END - PGSIZE, m')"
    using mmap_room [OF m(2) _ mm refl, of "USER_END - PGSIZE" PGSIZE "VM_READ OR VM_WRITE OR VM_EXEC" 0 0 0] m(3) room by auto
  have "\<exists>f. exec_image 3 (va_of 2) demo_exec = Some (upd_thread 20 f (s4\<lparr>kvm := \<lparr>vmem = demo_elf, vbuddy = b\<rparr>, kmm := m'\<rparr>))"
    using 1 2 3 s(1) 5 by (intro exI) (simp add: exec_image_def demo_exec_state s3 s4_def [symmetric] s4 k_mmap_def m')
  then obtain f where "exec_image 3 (va_of 2) demo_exec = Some (upd_thread 20 f (s4\<lparr>kvm := \<lparr>vmem = demo_elf, vbuddy = b\<rparr>, kmm := m'\<rparr>))" ..
  then show ?thesis using s4(1,2) by (simp add: upd_thread_def upd_task_def)
qed


end
