(* ===== verification/Kernel_Types.thy ===== *)
theory Kernel_Types
  imports Fork_Task
begin

unbundle bit_operations_syntax

text \<open>
  The types of the kernel's data. C has no way to say that a task state is one of four constants, that a time slice is at most the largest
  priority, that a signal has its default action or that the unused end of the task table is null; the kernel relies on it. The
  predicate \<open>kst_typed\<close> says it of a state, and every operation of the kernel keeps it.
\<close>

subsection \<open>Well-typed states\<close>

definition fields_ok :: "task_struct \<Rightarrow> bool" where
  "fields_ok t \<longleftrightarrow> t_state t \<in> {TASK_RUNNING, TASK_ZOMBIE, TASK_INTERRUPTIBLE, TASK_STOPPED} \<and>
     t_priority t \<le> of_int PRIORITY_MAX \<and> t_counter t \<le> of_int PRIORITY_MAX"

definition default_actions :: "signal_struct \<Rightarrow> bool" where
  "default_actions s \<longleftrightarrow> (\<forall>a\<in>set (action s). handle_type a = SIG_DFL)"

definition task_ok :: "kst \<Rightarrow> u64 \<Rightarrow> bool" where
  "task_ok st p \<longleftrightarrow> fields_ok (task_at st p) \<and>
     (t_signal (task_at st p) \<noteq> 0 \<longrightarrow> default_actions (signal_at st (t_signal (task_at st p))))"

text \<open>The sizes of the arrays.\<close>

definition arrays_ok :: "kst \<Rightarrow> bool" where
  "arrays_ok st \<longleftrightarrow> length (task st) = NR_TASKS \<and> length (wait_queue st) = NR_TASKS \<and>
     (\<forall>p. length (files_at st p) = MAX_FILE_NUMBER) \<and> (\<forall>p. length (regs_x (pt_regs_at st p)) = 32) \<and>
     (\<forall>p. length (action (signal_at st p)) = NSIG) \<and> (\<forall>p. length (s_regs (t_thread (task_at st p))) = 12)"

definition table_ok :: "kst \<Rightarrow> bool" where
  "table_ok st \<longleftrightarrow> 1 \<le> unat (num_tasks st) \<and> unat (num_tasks st) \<le> NR_TASKS \<and>
     (\<forall>i<NR_TASKS. unat (num_tasks st) \<le> i \<longrightarrow> task st ! i = 0) \<and> (\<forall>w\<in>set (wait_queue st). w_valid w \<le> 1)"

text \<open>The tasks: those of the table, and the one that runs.\<close>

definition tasks :: "kst \<Rightarrow> u64 set" where "tasks st = insert (current st) (set (task st) - {0})"

definition typed_but :: "u64 set \<Rightarrow> kst \<Rightarrow> bool" where
  "typed_but X st \<longleftrightarrow> arrays_ok st \<and> table_ok st \<and> (\<forall>p \<in> tasks st - X. task_ok st p)"

definition kst_typed :: "kst \<Rightarrow> bool" where "kst_typed st \<longleftrightarrow> typed_but {} st"

named_theorems typed "operations that keep a state well-typed"

lemma typed_cong:
  assumes "proc_part st' = proc_part st"
  shows "typed_but X st' = typed_but X st"
  using proc_partD [OF assms] by (simp add: typed_but_def arrays_ok_def table_ok_def tasks_def task_ok_def)

lemma typed_mono: "typed_but X st \<Longrightarrow> X \<subseteq> Y \<Longrightarrow> typed_but Y st"
  by (auto simp: typed_but_def)

lemma typed_finish: "typed_but X st \<Longrightarrow> (\<And>p. p \<in> X \<Longrightarrow> task_ok st p) \<Longrightarrow> typed_but Y st"
  by (auto simp: typed_but_def)

lemma task_okI: "typed_but X st \<Longrightarrow> p \<in> tasks st \<Longrightarrow> p \<notin> X \<Longrightarrow> task_ok st p"
  by (simp add: typed_but_def)

lemma typed_memory [simp]:
  "typed_but X (st\<lparr>kvm := v\<rparr>) = typed_but X st" "typed_but X (st\<lparr>kmm := m\<rparr>) = typed_but X st" "typed_but X (set_kvm v st) = typed_but X st"
  "typed_but X (k_write a w st) = typed_but X st" "typed_but X (st\<lparr>seed := s\<rparr>) = typed_but X st"
  by (simp_all add: typed_but_def arrays_ok_def table_ok_def tasks_def task_ok_def set_kvm_def k_write_def)

lemma typed_upd_task [typed]:
  assumes "typed_but X st" "length (s_regs (t_thread (f (task_at st p)))) = 12"
    "p \<notin> X \<Longrightarrow> fields_ok (task_at st p) \<Longrightarrow> fields_ok (f (task_at st p))"
    "p \<notin> X \<Longrightarrow> t_signal (f (task_at st p)) \<in> {0, t_signal (task_at st p)}"
  shows "typed_but X (upd_task p f st)"
  using assms by (auto simp: typed_but_def arrays_ok_def table_ok_def tasks_def task_ok_def upd_task_def)

lemma typed_upd_signal [typed]:
  assumes "typed_but X st" "length (action (f (signal_at st p))) = NSIG"
    "default_actions (signal_at st p) \<Longrightarrow> default_actions (f (signal_at st p))"
  shows "typed_but X (upd_signal p f st)"
  using assms by (auto simp: typed_but_def arrays_ok_def table_ok_def tasks_def task_ok_def upd_signal_def)

lemma typed_set_wait [typed]:
  assumes "set_wait i w st = Some st'" "typed_but X st" "w_valid w \<le> 1"
  shows "typed_but X st'"
proof -
  have "\<forall>x\<in>set ((wait_queue st)[i := w]). w_valid x \<le> 1" if "\<forall>x\<in>set (wait_queue st). w_valid x \<le> 1"
    using that assms(3) set_update_subset_insert [of "wait_queue st" i w] by blast
  then show ?thesis using assms
    by (auto simp: set_wait_def Option.bind_eq_Some_conv typed_but_def arrays_ok_def table_ok_def tasks_def task_ok_def dest!: wr_SomeD)
qed

lemma typed_set_reg [typed]: "set_reg i v regs st = Some st' \<Longrightarrow> typed_but X st \<Longrightarrow> typed_but X st'"
  by (auto simp: set_reg_def Option.bind_eq_Some_conv typed_but_def arrays_ok_def table_ok_def tasks_def task_ok_def dest!: wr_SomeD)

lemma typed_waiting: "typed_but X st \<Longrightarrow> rd (wait_queue st) i = Some w \<Longrightarrow> w_valid w \<le> 1"
  by (auto simp: typed_but_def table_ok_def dest!: rd_SomeD)

text \<open>A new value of \<open>current\<close> is an entry of the table, and entries are only removed by writing null.\<close>

lemma typed_current: "typed_but X st \<Longrightarrow> p \<in> set (task st) \<Longrightarrow> p \<noteq> 0 \<Longrightarrow> typed_but X (st\<lparr>current := p, switches := l\<rparr>)"
  by (auto simp: typed_but_def arrays_ok_def table_ok_def tasks_def task_ok_def)

lemma typed_remove:
  assumes "typed_but X st" "wr (task st) i 0 = Some ts"
  shows "typed_but X (st\<lparr>task := ts\<rparr>)"
proof -
  have ts: "ts = (task st)[i := 0]" using assms(2) by (auto dest!: wr_SomeD)
  then have sub: "set ts - {0} \<subseteq> set (task st) - {0}" using set_update_subset_insert by fastforce
  have null: "(task st)[i := 0] ! j = 0" if "task st ! j = 0" for j
    using that by (cases "i < length (task st)") (auto simp: nth_list_update list_update_beyond)
  then have "table_ok (st\<lparr>task := ts\<rparr>)" using assms(1) by (auto simp: typed_but_def table_ok_def ts)
  then show ?thesis using assms(1) sub by (auto simp: typed_but_def arrays_ok_def tasks_def task_ok_def ts)
qed

lemma typed_s_regs: "typed_but X st \<Longrightarrow> length (s_regs (t_thread (task_at st p))) = 12"
  by (simp add: typed_but_def arrays_ok_def)

subsection \<open>The scheduler and the timer\<close>

lemma refill_typed [typed]: "refill_step i st = Some st' \<Longrightarrow> typed_but X st \<Longrightarrow> typed_but X st'"
  by (auto simp: refill_step_def Option.bind_eq_Some_conv fields_ok_def intro!: typed_upd_task dest: typed_s_regs split: if_splits)

lemma schedule_typed [typed]:
  assumes "schedule st = Some r" "typed_but X st"
  shows "typed_but X (state_of r)"
proof -
  obtain m0 m s p where 1: "(if m0 = 0 then Option.bind (for_range 1 (unat (num_tasks st)) refill_step st)
        (\<lambda>st. Option.bind (get_max_cnt_pid st) (\<lambda>m. Some (m, st))) else Some (m0, st)) = Some (m :: nat, s)"
    and 2: "task_ptr s m = Some p" "r = switch_to p s"
    using assms(1) by (auto simp: schedule_def Option.bind_eq_Some_conv split del: if_split)
  have "s = st \<or> for_range 1 (unat (num_tasks st)) refill_step st = Some s"
    using 1 by (auto simp: Option.bind_eq_Some_conv split: if_splits)
  then have s: "typed_but X s"
  proof
    assume "for_range 1 (unat (num_tasks st)) refill_step st = Some s"
    moreover have "1 \<le> unat (num_tasks st)" using assms(2) by (simp add: typed_but_def table_ok_def)
    ultimately show ?thesis
      using for_range_rule [where P = "\<lambda>_ u. typed_but X u" and body = refill_step] refill_typed assms(2) by blast
  qed (simp add: assms(2))
  have "p \<in> set (task s)" "p \<noteq> 0" using 2(1) by (auto simp: task_ptr_def Option.bind_eq_Some_conv dest!: rd_SomeD split: if_splits)
  then show ?thesis using s typed_current [OF s] by (simp add: 2(2) switch_to_def)
qed

lemma do_timer_typed [typed]:
  assumes "do_timer st = Some r" "typed_but X st"
  shows "typed_but X (state_of r)"
proof (cases "t_counter (cur st) = 0")
  case True
  then show ?thesis using assms schedule_typed by (simp add: do_timer_def)
next
  case False
  then have "t_counter (cur st) - 1 \<le> t_counter (cur st)" by (simp add: word_le_nat_alt unat_minus_one)
  then have "typed_but X (upd_cur (\<lambda>t. t\<lparr>t_counter := t_counter t - 1\<rparr>) st)"
    using assms(2) by (intro typed_upd_task) (auto simp: fields_ok_def dest: typed_s_regs)
  then show ?thesis using assms(1) False by (auto simp: do_timer_def Let_def dest: schedule_typed split: if_splits)
qed

subsection \<open>Signals and waiting\<close>

lemma typed_procs: "typed_but X st \<Longrightarrow> proc_part st' = proc_part st \<Longrightarrow> typed_but X st'"
  using typed_cong by blast

lemma typed_actions: "typed_but X st \<Longrightarrow> length (action (signal_at st p)) = NSIG"
  by (simp add: typed_but_def arrays_ok_def)

text \<open>An update of a task that leaves the typed fields alone, or changes its state.\<close>

lemma typed_fields:
  assumes "typed_but X st" "\<And>t. s_regs (t_thread (f t)) = s_regs (t_thread t)" "\<And>t. t_state (f t) = t_state t \<or> t_state (f t) \<in> {TASK_RUNNING, TASK_INTERRUPTIBLE, TASK_STOPPED}"
    "\<And>t. t_priority (f t) = t_priority t" "\<And>t. t_counter (f t) = t_counter t" "\<And>t. t_signal (f t) = t_signal t \<or> t_signal (f t) = 0"
  shows "typed_but X (upd_task p f st)"
proof (rule typed_upd_task [OF assms(1)])
  show "length (s_regs (t_thread (f (task_at st p)))) = 12" by (simp add: assms(2) typed_s_regs [OF assms(1)])
  show "fields_ok (f (task_at st p))" if "fields_ok (task_at st p)"
    using that assms(3) [of "task_at st p"] by (auto simp: fields_ok_def assms(4,5))
  show "t_signal (f (task_at st p)) \<in> {0, t_signal (task_at st p)}" using assms(6) [of "task_at st p"] by auto
qed

lemma upd_signal_pending_typed: "typed_but X st \<Longrightarrow> typed_but X (upd_signal p (\<lambda>s. s\<lparr>signal_pending := f s\<rparr>) st)"
  by (rule typed_upd_signal) (simp_all add: typed_actions default_actions_def)

lemma clear_pending_typed: "clear_pending n st = Some st' \<Longrightarrow> typed_but X st \<Longrightarrow> typed_but X st'"
  by (auto simp: clear_pending_def Let_def upd_signal_pending_typed split: if_splits)

lemma do_kill_typed: "do_kill pid sig st = Some (r, st') \<Longrightarrow> typed_but X st \<Longrightarrow> typed_but X st'"
  by (auto simp: do_kill_def Let_def Option.bind_eq_Some_conv upd_signal_pending_typed split: if_splits)

lemma state_typed: "typed_but X st \<Longrightarrow> s \<in> {TASK_RUNNING, TASK_INTERRUPTIBLE, TASK_STOPPED} \<Longrightarrow> typed_but X (upd_task p (\<lambda>t. t\<lparr>t_state := s\<rparr>) st)"
  by (rule typed_fields) simp_all

lemma wake_up_typed:
  assumes "wake_up_process pid st = Some st'" "typed_but X st"
  shows "typed_but X st'"
proof -
  obtain s p where s: "set_wait pid \<lparr>w_valid = 0, w_mask = 0\<rparr> st = Some s" "st' = upd_task p (\<lambda>t. t\<lparr>t_state := TASK_RUNNING\<rparr>) s"
    using assms(1) by (auto simp: wake_up_process_def Option.bind_eq_Some_conv)
  show ?thesis unfolding s(2) by (rule state_typed [OF typed_set_wait [OF s(1) assms(2)]]) simp_all
qed

lemma wake_parent_typed:
  assumes "wake_parent st = Some st'" "typed_but X st"
  shows "typed_but X st'"
proof -
  let ?pid = "unat (t_pid (cur st))" and ?f = "unat (t_fpid (cur st))"
  obtain w s where s: "set_wait ?pid (w\<lparr>w_valid := 0\<rparr>) st = Some s" "st' = s \<or> wake_up_process ?f s = Some st'"
    using assms(1) by (auto simp: wake_parent_def Let_def Option.bind_eq_Some_conv split: if_splits)
  have "typed_but X s" by (rule typed_set_wait [OF s(1) assms(2)]) simp
  then show ?thesis using s(2) wake_up_typed by blast
qed

lemma wait_queue_add_typed:
  assumes "wait_queue_add pid w st = Some st'" "typed_but X st"
  shows "typed_but X st'"
proof -
  obtain q m where "rd (wait_queue st) pid = Some q" "set_wait pid (q\<lparr>w_mask := m\<rparr>) st = Some st'"
    using assms(1) by (auto simp: wait_queue_add_def Option.bind_eq_Some_conv split: if_splits)
  then show ?thesis using typed_waiting [OF assms(2)] typed_set_wait [OF _ assms(2)] by simp
qed

lemma do_wait_typed:
  assumes "do_wait pid st = Some r" "typed_but X st"
  shows "typed_but X (state_of r)"
proof -
  let ?s = "upd_cur (\<lambda>t. t\<lparr>t_state := TASK_INTERRUPTIBLE\<rparr>) st"
  obtain s1 w s2 where "wait_queue_add (unat (t_pid (cur ?s))) pid ?s = Some s1"
    "set_wait (unat (t_pid (cur s1))) (w\<lparr>w_valid := 1\<rparr>) s1 = Some s2" "schedule s2 = Some r"
    using assms(1) by (auto simp: do_wait_def Let_def Option.bind_eq_Some_conv)
  moreover have "typed_but X ?s" by (rule state_typed [OF assms(2)]) simp
  moreover have "w_valid (w\<lparr>w_valid := 1\<rparr>) \<le> 1" by simp
  ultimately show ?thesis using wait_queue_add_typed typed_set_wait schedule_typed by metis
qed

subsection \<open>Exit\<close>

lemma add_child_typed: "typed_but X st \<Longrightarrow> typed_but X (add_child p pid st)"
  unfolding add_child_def Let_def by (rule typed_fields) simp_all

lemma adopt_loop_typed:
  assumes "adopt_loop i st = Some st'" "typed_but X st"
  shows "typed_but X st'"
proof -
  have adopted: "typed_but X (upd_task p (\<lambda>t. t\<lparr>t_fpid := 1\<rparr>) s)" if "typed_but X s" for p s by (rule typed_fields [OF that]) simp_all
  have "typed_but X st \<longrightarrow> typed_but X st'"
    by (rule adopt_loop.raw_induct [where P = "\<lambda>i st r. typed_but X st \<longrightarrow> typed_but X r", OF _ assms(1)])
      (auto simp: Let_def Option.bind_eq_Some_conv add_child_typed adopted split: if_splits)
  then show ?thesis using assms(2) by blast
qed

lemma drop_areas_procs: "drop_areas vma st = Some st' \<Longrightarrow> proc_part st' = proc_part st"
  by (drule drop_areas_same) (metis proc_part_upd(1,2))

lemma close_files_procs:
  assumes "for_range 3 MAX_FILE_NUMBER close_file st = Some st'"
  shows "proc_part st' = proc_part st"
proof (rule for_range_rule [where P = "\<lambda>_ s. proc_part s = proc_part st", OF assms])
  fix k u v assume "proc_part u = proc_part st" "close_file k u = Some v"
  then show "proc_part v = proc_part st"
    by (auto simp: close_file_def Option.bind_eq_Some_conv dest!: sys_close_procs split: if_splits)
qed (simp_all add: MAX_FILE_NUMBER_def)

lemma release_files_typed:
  assumes "release_files st = Some st'" "typed_but X st"
  shows "typed_but X st'"
proof -
  obtain s1 s2 s3 where s: "for_range 3 MAX_FILE_NUMBER close_file st = Some s1" "k_free_pages (t_files (cur s1)) s1 = Some s2"
    "k_free_pages (t_signal (cur s2)) (upd_cur (\<lambda>t. t\<lparr>t_files := 0\<rparr>) s2) = Some s3" "st' = upd_cur (\<lambda>t. t\<lparr>t_signal := 0\<rparr>) s3"
    using assms(1) by (auto simp: release_files_def Option.bind_eq_Some_conv)
  have "typed_but X s2" using typed_procs close_files_procs [OF s(1)] k_free_pages_procs [OF s(2)] assms(2) by blast
  then have "typed_but X (upd_cur (\<lambda>t. t\<lparr>t_files := 0\<rparr>) s2)" by (rule typed_fields) simp_all
  then have "typed_but X s3" using typed_procs k_free_pages_procs [OF s(3)] by blast
  then show ?thesis unfolding s(4) by (rule typed_fields) simp_all
qed

lemma do_exit_typed:
  assumes "do_exit status st = Some r" "typed_but X st"
  shows "typed_but X (state_of r)"
proof -
  let ?s = "upd_cur (\<lambda>t. t\<lparr>t_state := TASK_ZOMBIE, t_priority := 0, t_counter := 0, t_exit_code := of_int status\<rparr>) st"
  obtain s1 s2 s3 s4 s5 k s6 s7 where
    1: "drop_areas (mmap (mms (kmm ?s) (t_mm (cur ?s)))) ?s = Some s1" and 2: "k_free_pages (t_mm (cur s1)) s1 = Some s2" and
    3: "adopt_loop 0 (upd_cur (\<lambda>t. t\<lparr>t_mm := 0\<rparr>) s2) = Some s3" and 4: "k_free_pages (t_cpid (cur s3)) s3 = Some s4" and
    5: "release_files (upd_cur (\<lambda>t. t\<lparr>t_cpid := 0, t_child_cnt := 0\<rparr>) s4) = Some s5" and
    6: "do_kill (sint (ucast (t_fpid (cur s5)) :: u32)) SIGCHLD s5 = Some (k, s6)" and 7: "wake_parent s6 = Some s7" and 8: "schedule s7 = Some r"
    using assms(1) unfolding do_exit_def Let_def by (elim bind_pairE bind_SomeE) (rule that, assumption+)
  have "typed_but X ?s" by (rule typed_upd_task [OF assms(2)]) (simp_all add: fields_ok_def typed_s_regs [OF assms(2)])
  then have "typed_but X s2" using typed_procs drop_areas_procs [OF 1] k_free_pages_procs [OF 2] by blast
  then have "typed_but X (upd_cur (\<lambda>t. t\<lparr>t_mm := 0\<rparr>) s2)" by (rule typed_fields) simp_all
  then have "typed_but X s4" using adopt_loop_typed [OF 3] typed_procs k_free_pages_procs [OF 4] by blast
  then have "typed_but X (upd_cur (\<lambda>t. t\<lparr>t_cpid := 0, t_child_cnt := 0\<rparr>) s4)" by (rule typed_fields) simp_all
  then show ?thesis using release_files_typed [OF 5] do_kill_typed [OF 6] wake_parent_typed [OF 7] schedule_typed [OF 8] by blast
qed

subsection \<open>The signal handlers\<close>

lemma and_then_typed:
  assumes "and_then r f = Some r'" "typed_but X (state_of r)"
    "\<And>v s. r = Returned v s \<Longrightarrow> typed_but X s \<Longrightarrow> f v s = Some r' \<Longrightarrow> typed_but X (state_of r')"
  shows "typed_but X (state_of r')"
  using assms by (cases r) auto

lemma reap_child_typed:
  assumes "reap_child child slot regs st = Some st'" "typed_but X st"
  shows "typed_but X st'"
proof -
  obtain v s1 s2 s3 s4 ts where s: "k_free_pages (t_pgd (task_at st child)) (set_kvm v st) = Some s1"
    "set_reg RISCV_REG_A0 (t_pid (task_at s1 child)) regs s1 = Some s2"
    "set_reg RISCV_REG_A1 (ucast (t_exit_code (task_at s2 child))) regs s2 = Some s3" "k_free_pages child s3 = Some s4"
    "wr (task s4) (unat slot) 0 = Some ts" "st' = s4\<lparr>task := ts\<rparr>"
    using assms(1) by (auto simp: reap_child_def Option.bind_eq_Some_conv)
  have "typed_but X s1" using typed_procs [OF _ k_free_pages_procs [OF s(1)]] assms(2) by simp
  then have "typed_but X s4" using typed_set_reg [OF s(2)] typed_set_reg [OF s(3)] typed_procs k_free_pages_procs [OF s(4)] by blast
  then show ?thesis using typed_remove s(5,6) by blast
qed

lemma reap_loop_typed:
  assumes "reap_loop i regs st = Some (b, st')" "typed_but X st"
  shows "typed_but X st'"
proof -
  have "typed_but X st \<longrightarrow> typed_but X (snd (b, st'))"
    by (rule reap_loop.raw_induct [where P = "\<lambda>i regs st r. typed_but X st \<longrightarrow> typed_but X (snd r)", OF _ assms(1)])
      (auto simp: Let_def Option.bind_eq_Some_conv dest: reap_child_typed split: if_splits)
  then show ?thesis using assms(2) by simp
qed

lemma run_k_handler_typed:
  assumes "run_k_handler h sig regs st = Some r" "typed_but X st"
  shows "typed_but X (state_of r)"
proof (cases h)
  case Sigint_handler
  then show ?thesis using assms
    by (auto simp: sigint_handler_def Option.bind_eq_Some_conv dest: clear_pending_typed do_exit_typed split: if_splits)
next
  case Sigstop_handler
  have "typed_but X s \<Longrightarrow> schedule (upd_cur (\<lambda>t. t\<lparr>t_state := TASK_STOPPED\<rparr>) s) = Some r \<Longrightarrow> typed_but X (state_of r)" for s
    by (rule schedule_typed, assumption, rule state_typed) simp_all
  with Sigstop_handler show ?thesis using assms
    by (auto simp: sigstop_handler_def Option.bind_eq_Some_conv dest: clear_pending_typed split: if_splits)
next
  case Sigchld_handler
  then show ?thesis using assms
    by (auto simp: sigchld_handler_def Option.bind_eq_Some_conv dest: clear_pending_typed reap_loop_typed schedule_typed split: if_splits)
qed

lemma handle_signals_typed: "handle_signals sigs regs st = Some r \<Longrightarrow> typed_but X st \<Longrightarrow> typed_but X (state_of r)"
proof (induction sigs arbitrary: st)
  case (Cons sig sigs)
  let ?s = "signal_at st (t_signal (cur st))"
  consider "handle_signals sigs regs st = Some r"
    | h r1 where "run_k_handler h sig regs st = Some r1" "and_then r1 (\<lambda>_. handle_signals sigs regs) = Some r"
    using Cons.prems(1)
    by (auto simp: Let_def Option.bind_eq_Some_conv split: if_splits sig_handle_type.splits option.splits)
  then show ?case
  proof cases
    case 1
    then show ?thesis using Cons by blast
  next
    case 2
    show ?thesis by (rule and_then_typed [OF 2(2) run_k_handler_typed [OF 2(1) Cons.prems(2)]]) (rule Cons.IH)
  qed
qed auto

lemma signal_handler_typed: "signal_handler regs st = Some r \<Longrightarrow> typed_but X st \<Longrightarrow> typed_but X (state_of r)"
  unfolding signal_handler_def by (rule handle_signals_typed)

subsection \<open>execve\<close>

lemma thread_typed: "typed_but X st \<Longrightarrow> (\<And>t. s_regs (f t) = s_regs t) \<Longrightarrow> typed_but X (upd_thread p f st)"
  unfolding upd_thread_def by (rule typed_fields) simp_all

lemma load_program_typed:
  assumes "load_program tsk start fil st = Some st'" "typed_but X st"
  shows "typed_but X st'"
proof -
  let ?n = "unat (e_phnum (ehdr_at start st))" and ?ph = "\<lambda>i. start + e_phoff (ehdr_at start st) + 56 * of_nat i"
  obtain s where s: "for_range 0 ?n (\<lambda>i s. load_segment tsk (?ph i) fil s) st = Some s"
    "st' = upd_thread tsk (\<lambda>t. t\<lparr>sepc := e_entry (ehdr_at start s)\<rparr>) s"
    using assms(1) by (auto simp: load_program_def Let_def Option.bind_eq_Some_conv)
  have "typed_but X s"
    by (rule for_range_rule [where P = "\<lambda>_ u. typed_but X u", OF s(1)])
      (auto simp: assms(2) load_segment_def Let_def Option.bind_eq_Some_conv split: if_splits)
  then show ?thesis unfolding s(2) by (rule thread_typed) simp
qed

lemma exec_image_typed:
  assumes "exec_image fd hdr st = Some st'" "typed_but X st"
  shows "typed_but X st'"
proof -
  obtain s1 s2 mm s3 s4 s5 s6 where
    1: "drop_areas (mmap (mms (kmm st) (t_mm (cur st)))) st = Some s1" and 2: "k_free_pages (t_mm (cur s1)) s1 = Some s2" and
    3: "new_mm (current s2) s2 = Some (mm, s3)" and 4: "load_program (current s3) hdr (cur_file_ptr fd s3) s3 = Some s4" and
    5: "k_free_pages hdr s4 = Some s5" and
    6: "k_mmap (t_mm (cur s5)) (USER_END - PGSIZE) PGSIZE (VM_READ OR VM_WRITE OR VM_EXEC) 0 0 0 s5 = Some s6" and
    7: "st' = upd_thread (current s6) (\<lambda>t. t\<lparr>sstatus := user_status (sstatus t), ra := dummy_entry (ksym s6), sp := current s6 + PGSIZE,
          sscratch := USER_END, stval := 0, scause := 0, s_regs := replicate 12 0\<rparr>) s6"
    using assms(1) unfolding exec_image_def by (elim bind_pairE bind_SomeE) (rule that, assumption+, simp)
  have s2: "typed_but X s2" using typed_procs drop_areas_procs [OF 1] k_free_pages_procs [OF 2] assms(2) by blast
  obtain a s where a: "k_alloc_page s2 = Some (a, s)" "s3 = upd_task (current s2) (\<lambda>t. t\<lparr>t_mm := a\<rparr>)
      (s\<lparr>kmm := mupd a (\<lambda>m. \<lparr>mmap = 0, num_vmas = 0, free_vma_list = 0\<rparr>) (kmm s)\<rparr>)"
    using 3 by (auto simp: new_mm_def Option.bind_eq_Some_conv)
  have "typed_but X s" using typed_procs k_alloc_page_procs [OF a(1)] s2 by blast
  then have "typed_but X s3" unfolding a(2) by (intro typed_fields) simp_all
  then have "typed_but X s5" using load_program_typed [OF 4] typed_procs k_free_pages_procs [OF 5] by blast
  then have s6: "typed_but X s6" using 6 by (auto simp: k_mmap_def Option.bind_eq_Some_conv)
  show ?thesis unfolding 7 upd_thread_def by (rule typed_upd_task [OF s6]) (simp_all add: fields_ok_def)
qed

lemma do_execve_typed:
  assumes "do_execve p st = Some r" "typed_but X st"
  shows "typed_but X (state_of r)"
proof -
  obtain fd s where s: "sys_openat p O_RDONLY st = Some (fd, s)"
    and r: "(if fd < 0 then Some (Returned (- 1) s)
       else do { (elf_header, st) \<leftarrow> k_alloc_page s;
                 (ret, st) \<leftarrow> sys_read (of_int fd) elf_header PGSIZE st;
                 if ret = - 1 then Some (Returned (- 1) st)
                 else if check_elf_header elf_header st = - 1 then
                   do { (r, st) \<leftarrow> sys_close fd st; Some (Returned (- 1) st) }
                 else do { st \<leftarrow> exec_image (nat fd) elf_header st; Some (Entered st) } }) = Some r"
    using assms(1) unfolding do_execve_def by (elim bind_pairE)
  have ts: "typed_but X s" using typed_procs sys_openat_procs [OF s] assms(2) by blast
  show ?thesis
  proof (cases "fd < 0")
    case True
    then show ?thesis using r ts by auto
  next
    case False
    obtain h s1 ret s2 where 1: "k_alloc_page s = Some (h, s1)" "sys_read (of_int fd) h PGSIZE s1 = Some (ret, s2)"
      and 2: "(if ret = - 1 then Some (Returned (- 1) s2)
               else if check_elf_header h s2 = - 1 then do { (r, st) \<leftarrow> sys_close fd s2; Some (Returned (- 1) st) }
               else do { st \<leftarrow> exec_image (nat fd) h s2; Some (Entered st) }) = Some r"
      using r unfolding if_not_P [OF False] by (elim bind_pairE)
    have "typed_but X s2" using typed_procs k_alloc_page_procs [OF 1(1)] sys_read_procs [OF 1(2)] ts by blast
    then show ?thesis using 2
      by (auto simp: Option.bind_eq_Some_conv dest: exec_image_typed typed_procs [OF _ sys_close_procs] split: if_splits)
  qed
qed

subsection \<open>fork\<close>

lemma randint_priority: "randint PRIORITY_MIN PRIORITY_MAX sd = (r, sd') \<Longrightarrow> 1 \<le> r \<and> r \<le> PRIORITY_MAX"
proof -
  assume r: "randint PRIORITY_MIN PRIORITY_MAX sd = (r, sd')"
  define w :: u32 where "w = ucast (drop_bit 33 (6364136223846793005 * sd + 1))"
  have "\<not> bit w 31" by (auto simp: w_def bit_simps dest: bit_imp_le_length)
  then have "0 \<le> sint w" using bit_last_iff [of w] by (simp add: not_less)
  moreover have "r = sint w smod 10 + 1"
    using r by (auto simp: randint_def rand_def Let_def PRIORITY_MIN_def PRIORITY_MAX_def w_def)
  ultimately show ?thesis by (simp add: smod_nonneg PRIORITY_MAX_def)
qed

lemma fork_slot_typed:
  assumes "fork_slot st = Some (i, tp, s)" "typed_but X st"
  shows "typed_but (insert tp X) s"
proof -
  note F = fork_slot_fields [OF assms(1)]
  have len: "length (task st) = NR_TASKS" and n: "1 \<le> unat (num_tasks st)" "unat (num_tasks st) \<le> NR_TASKS"
    using assms(2) by (simp_all add: typed_but_def arrays_ok_def table_ok_def)
  have i: "i < NR_TASKS" using F len by simp
  have "unat (num_tasks st + 1) = unat (num_tasks st) + 1" if "unat (num_tasks st) < NR_TASKS"
    using that by (simp add: unat_word_ariths NR_TASKS_def)
  then have "1 \<le> unat (num_tasks s)" "unat (num_tasks s) \<le> NR_TASKS" "i < unat (num_tasks s)" "unat (num_tasks st) \<le> unat (num_tasks s)"
    using F i n by auto
  then have "table_ok s" using assms(2) F by (auto simp: typed_but_def table_ok_def nth_list_update)
  moreover have "tasks s \<subseteq> insert tp (tasks st)" using F set_update_subset_insert [of "task st" i tp] by (auto simp: tasks_def)
  moreover have "arrays_ok s" using assms(2) F by (simp add: typed_but_def arrays_ok_def)
  moreover have "task_ok s p = task_ok st p" for p using F by (simp add: task_ok_def)
  ultimately show ?thesis using assms(2) by (auto simp: typed_but_def)
qed

lemma fork_record_typed:
  assumes "fork_record regs i tp st = Some s" "typed_but {tp} st"
  shows "typed_but {tp} s \<and> fields_ok (task_at s tp)"
proof -
  obtain r sd where r: "randint PRIORITY_MIN PRIORITY_MAX (seed st) = (r, sd)" by fastforce
  let ?u = "st\<lparr>task_at := (task_at st)(tp := cur st), pt_regs_at := (pt_regs_at st)(regs + (tp - current st) := pt_regs_at st regs)\<rparr>"
  have u: "typed_but {tp} ?u"
    using assms(2) by (auto simp: typed_but_def arrays_ok_def table_ok_def tasks_def task_ok_def)
  let ?f = "\<lambda>t. t\<lparr>t_pid := of_nat i, t_fpid := t_pid (cur ?u), t_state := TASK_RUNNING, t_priority := of_int r, t_counter := 0\<rparr>"
  obtain cp v where v: "k_alloc_page (upd_task tp ?f (?u\<lparr>seed := sd\<rparr>)) = Some (cp, v)"
    "s = add_child (current st) (of_nat i) (upd_task tp (\<lambda>t. t\<lparr>t_cpid := cp, t_child_cnt := 0\<rparr>) (v\<lparr>kvm := (kvm v)\<lparr>vmem := zero_page cp (vmem (kvm v))\<rparr>\<rparr>))"
  proof -
    from assms(1) r obtain cp v where "k_alloc_page (upd_task tp ?f (?u\<lparr>seed := sd\<rparr>)) = Some (cp, v)"
      "s = add_child (current v) (of_nat i) (upd_task tp (\<lambda>t. t\<lparr>t_cpid := cp, t_child_cnt := 0\<rparr>) (v\<lparr>kvm := (kvm v)\<lparr>vmem := zero_page cp (vmem (kvm v))\<rparr>\<rparr>))"
      by (auto simp: fork_record_def Let_def Option.bind_eq_Some_conv upd_task_def)
    moreover from this(1) have "current v = current st" by (auto dest!: k_alloc_page_procs proc_partD(7) simp: upd_task_def)
    ultimately show thesis using that by simp
  qed
  note P = proc_partD [OF k_alloc_page_procs [OF v(1)]]
  have "typed_but {tp} (upd_task tp ?f (?u\<lparr>seed := sd\<rparr>))"
    by (rule typed_upd_task) (simp_all add: u typed_s_regs [OF u, of tp, simplified])
  then have "typed_but {tp} v" by (rule typed_procs [OF _ k_alloc_page_procs [OF v(1)]])
  then have "typed_but {tp} (v\<lparr>kvm := (kvm v)\<lparr>vmem := zero_page cp (vmem (kvm v))\<rparr>\<rparr>)" by simp
  then have "typed_but {tp} s" unfolding v(2) by (intro add_child_typed) (rule typed_fields, simp_all)
  moreover have "(of_int r :: u64) \<le> of_int PRIORITY_MAX"
    using randint_priority [OF r] by (simp add: word_le_nat_alt PRIORITY_MAX_def unsigned_of_int take_bit_int_eq_self nat_le_iff)
  then have "fields_ok (task_at s tp)"
    by (simp add: fields_ok_def v(2) add_child_def k_write_def Let_def upd_task_def P)
  ultimately show ?thesis ..
qed

text \<open>\<open>signal_init\<close> gives the task its default actions.\<close>

lemma signal_init_typed:
  assumes "signal_init i st = Some st'" "task_ptr st i = Some tp" "typed_but X st" "X \<subseteq> {tp}" "fields_ok (task_at st tp)"
  shows "kst_typed st' \<and> task st' = task st \<and> current st' = current st \<and> num_tasks st' = num_tasks st"
proof -
  define acts where "acts = (replicate NSIG (dft_action None))[SIGINT := dft_action (Some Sigint_handler),
     SIGCHLD := dft_action (Some Sigchld_handler), SIGSTOP := dft_action (Some Sigstop_handler)]"
  let ?f = "\<lambda>s :: signal_struct. \<lparr>signal_pending = 0, action = acts\<rparr>"
  have sub: "set (xs[k := dft_action h]) \<subseteq> range dft_action" if "set xs \<subseteq> range dft_action" for xs k h
    using that set_update_subset_insert [of xs k "dft_action h"] by blast
  have "set acts \<subseteq> range dft_action" unfolding acts_def by (intro sub) auto
  then have d: "default_actions \<lparr>signal_pending = n, action = acts\<rparr>" for n by (auto simp: default_actions_def dft_action_def)
  have len: "length acts = NSIG" by (simp add: acts_def)
  have tX: "typed_but {tp} st" using assms(3,4) by (rule typed_mono)
  obtain s where s: "set_wait i \<lparr>w_valid = 0, w_mask = 0\<rparr> (upd_signal (t_signal (task_at s tp)) ?f s) = Some st'"
    "s = st \<or> (\<exists>p u. k_alloc_page st = Some (p, u) \<and> s = upd_task tp (\<lambda>t. t\<lparr>t_signal := p\<rparr>) u)"
    using assms(1,2) by (auto simp: signal_init_def Let_def acts_def Option.bind_eq_Some_conv split: if_splits)
  have t: "typed_but {tp} s \<and> fields_ok (task_at s tp) \<and> task s = task st \<and> current s = current st \<and> num_tasks s = num_tasks st" using s(2)
  proof (elim disjE exE conjE)
    fix p u assume u: "k_alloc_page st = Some (p, u)" and su: "s = upd_task tp (\<lambda>t. t\<lparr>t_signal := p\<rparr>) u"
    have tu: "typed_but {tp} u" using tX by (rule typed_procs) (rule k_alloc_page_procs [OF u])
    then have "typed_but {tp} s" unfolding su by (rule typed_upd_task) (simp_all add: typed_s_regs [OF tu])
    then show ?thesis using assms(5) proc_partD [OF k_alloc_page_procs [OF u]] by (simp add: su upd_task_def fields_ok_def)
  qed (use tX assms(5) in simp)
  let ?v = "upd_signal (t_signal (task_at s tp)) ?f s"
  have "typed_but {tp} ?v" using t by (intro typed_upd_signal) (simp_all add: d len)
  moreover have "task_ok ?v tp" using t d by (simp add: task_ok_def upd_signal_def)
  ultimately have "typed_but {} ?v" using typed_finish [of "{tp}" ?v "{}"] by simp
  then have "kst_typed st'" unfolding kst_typed_def by (rule typed_set_wait [OF s(1)]) simp
  moreover have "task st' = task s" "current st' = current s" "num_tasks st' = num_tasks s"
    using s(1) by (auto simp: set_wait_def upd_signal_def Option.bind_eq_Some_conv)
  ultimately show ?thesis using t by simp
qed

lemma file_init_typed: "file_init st = Some (p, st') \<Longrightarrow> typed_but X st \<Longrightarrow> typed_but X st'"
  by (simp add: typed_but_def arrays_ok_def table_ok_def tasks_def task_ok_def file_init_fields)

lemma fork_rest_typed:
  assumes run: "fork_rest regs i tp st = Some (pid, st')" and st: "typed_but {tp} st" "fields_ok (task_at st tp)" "task_ptr st i = Some tp"
  shows "kst_typed st'"
proof -
  from run obtain fs s1 s2 s3 mm s4 m pgd s5 v s6 xs where
    1: "file_init st = Some (fs, s1)" and
    2: "for_range 3 MAX_FILE_NUMBER (fork_file fs) (upd_task tp (\<lambda>t. t\<lparr>t_files := fs\<rparr>) s1) = Some s2" and
    3: "signal_init i s2 = Some s3" and
    4: "k_alloc_page (upd_thread tp (\<lambda>t. t\<lparr>ra := ret_from_fork (ksym s3), sp := regs + (tp - current s3),
          sepc := regs_sepc (pt_regs_at s3 regs), stval := 0, scause := 0\<rparr>) (upd_task tp (\<lambda>t. t\<lparr>t_exit_code := 0\<rparr>) s3)) = Some (mm, s4)" and
    5: "k_alloc_page (upd_task tp (\<lambda>t. t\<lparr>t_mm := mm\<rparr>) (s4\<lparr>kmm := m\<rparr>)) = Some (pgd, s5)" and
    6: "fork_areas pgd (mmap (mms (kmm (upd_task tp (\<lambda>t. t\<lparr>t_pgd := pgd\<rparr>) s5)) (t_mm (cur (upd_task tp (\<lambda>t. t\<lparr>t_pgd := pgd\<rparr>) s5)))))
          (set_kvm v (upd_task tp (\<lambda>t. t\<lparr>t_pgd := pgd\<rparr>) s5)) = Some s6" and
    7: "wr (regs_x (pt_regs_at s6 (regs + (tp - current s3)))) RISCV_REG_A0 0 = Some xs"
      "st' = s6\<lparr>pt_regs_at := (pt_regs_at s6)(regs + (tp - current s3) := (pt_regs_at s6 (regs + (tp - current s3)))\<lparr>regs_x := xs\<rparr>)\<rparr>"
    unfolding fork_rest_def Let_def
    by (elim bind_pairE bind_SomeE) (rule that, assumption+, simp_all)
  have "typed_but {tp} s1" by (rule file_init_typed [OF 1 st(1)])
  then have "typed_but {tp} (upd_task tp (\<lambda>t. t\<lparr>t_files := fs\<rparr>) s1)" by (rule typed_fields) simp_all
  then have t2: "typed_but {tp} s2" by (rule typed_procs) (rule fork_files_procs [OF 2])
  have "task_ptr s2 i = Some tp" "fields_ok (task_at s2 tp)"
    using proc_partD [OF fork_files_procs [OF 2]] file_init_fields [OF 1] st(2,3)
    by (simp_all add: task_ptr_def upd_task_def fields_ok_def)
  with signal_init_typed [OF 3 _ t2] have "typed_but {} s3" by (simp add: kst_typed_def)
  then have "typed_but {} (upd_task tp (\<lambda>t. t\<lparr>t_exit_code := 0\<rparr>) s3)" by (rule typed_fields) simp_all
  then have "typed_but {} s4" by (rule typed_procs [OF thread_typed k_alloc_page_procs [OF 4]]) simp
  then have "typed_but {} (s4\<lparr>kmm := m\<rparr>)" by simp
  then have "typed_but {} (upd_task tp (\<lambda>t. t\<lparr>t_mm := mm\<rparr>) (s4\<lparr>kmm := m\<rparr>))" by (rule typed_fields) simp_all
  then have "typed_but {} s5" by (rule typed_procs) (rule k_alloc_page_procs [OF 5])
  then have "typed_but {} (upd_task tp (\<lambda>t. t\<lparr>t_pgd := pgd\<rparr>) s5)" by (rule typed_fields) simp_all
  then have "typed_but {} (set_kvm v (upd_task tp (\<lambda>t. t\<lparr>t_pgd := pgd\<rparr>) s5))" by simp
  then have "typed_but {} s6" by (rule typed_procs) (rule fork_areas_procs [OF 6])
  moreover have "set_reg RISCV_REG_A0 0 (regs + (tp - current s3)) s6 = Some st'" by (simp add: set_reg_def 7)
  ultimately have "typed_but {} st'" using typed_set_reg by blast
  then show ?thesis by (simp add: kst_typed_def)
qed

lemma do_fork_typed:
  assumes "do_fork regs st = Some (pid, st')" "kst_typed st"
  shows "kst_typed st'"
proof -
  obtain i tp s1 s2 where r: "fork_slot st = Some (i, tp, s1)" "fork_record regs i tp s1 = Some s2" "fork_rest regs i tp s2 = Some (pid, st')"
    using assms(1) unfolding do_fork_split by (elim bind_tripleE bind_SomeE)
  have "typed_but {tp} s1" using fork_slot_typed [OF r(1), of "{}"] assms(2) by (simp add: kst_typed_def)
  from fork_record_typed [OF r(2) this] have "typed_but {tp} s2" "fields_ok (task_at s2 tp)" by simp_all
  moreover have "task_ptr s2 i = Some tp"
    using fork_slot_fields [OF r(1)] fork_record_keeps [OF r(2)] by (simp add: task_ptr_def)
  ultimately show ?thesis by (rule fork_rest_typed [OF r(3)])
qed

subsection \<open>Traps\<close>

lemma kst_typed_procs: "kst_typed st \<Longrightarrow> proc_part st' = proc_part st \<Longrightarrow> kst_typed st'"
  unfolding kst_typed_def by (rule typed_procs)

lemma returning_typed:
  "returning x = Some r \<Longrightarrow> kst_typed st \<Longrightarrow> (\<And>v st'. x = Some (v, st') \<Longrightarrow> kst_typed st') \<Longrightarrow> kst_typed (state_of r)"
  by (auto simp: returning_def)

lemma returning_procs:
  "returning x = Some r \<Longrightarrow> kst_typed st \<Longrightarrow> (\<And>v st'. x = Some (v, st') \<Longrightarrow> proc_part st' = proc_part st) \<Longrightarrow> kst_typed (state_of r)"
  by (rule returning_typed) (auto intro: kst_typed_procs)

lemma then_return_typed: "and_then r (\<lambda>_ st. Some (Returned v st)) = Some r' \<Longrightarrow> typed_but X (state_of r) \<Longrightarrow> typed_but X (state_of r')"
  by (rule and_then_typed) auto

lemma syscall_typed:
  assumes run: "syscall nr a regs st = Some r" and st: "kst_typed st"
  shows "kst_typed (state_of r)"
proof -
  have st0: "typed_but {} st" using st by (simp add: kst_typed_def)
  have wait: "kst_typed (state_of r)" if "sys_waitpid pid st = Some r" for pid
  proof (cases "pid < 0 \<or> pid \<ge> int (unat (num_tasks st))")
    case True
    then show ?thesis using that st by (auto simp: sys_waitpid_def)
  next
    case False
    have "do { r \<leftarrow> do_wait pid st; and_then r (\<lambda>_ st. Some (Returned 0 st)) } = Some r"
      using that unfolding sys_waitpid_def if_not_P [OF False] .
    then obtain q where q: "do_wait pid st = Some q" "and_then q (\<lambda>_ st. Some (Returned 0 st)) = Some r" by (rule bind_SomeE)
    show ?thesis unfolding kst_typed_def by (rule then_return_typed [OF q(2) do_wait_typed [OF q(1) st0]])
  qed
  have exe: "kst_typed (state_of r)" if x: "sys_execve p st = Some r" for p
  proof -
    obtain q where q: "do_execve p st = Some q" "and_then q (\<lambda>_ st. Some (Returned (- 1) st)) = Some r"
      using x unfolding sys_execve_def by (rule bind_SomeE)
    show ?thesis unfolding kst_typed_def by (rule then_return_typed [OF q(2) do_execve_typed [OF q(1) st0]])
  qed
  have ex: "kst_typed (state_of r)" if x: "do { r \<leftarrow> sys_exit n st; and_then r (\<lambda>_ st. Some (Returned 0 st)) } = Some r" for n
  proof -
    obtain q where q: "do_exit n st = Some q" "and_then q (\<lambda>_ st. Some (Returned 0 st)) = Some r"
      using x unfolding sys_exit_def by (rule bind_SomeE)
    show ?thesis unfolding kst_typed_def by (rule then_return_typed [OF q(2) do_exit_typed [OF q(1) st0]])
  qed
  have fork: "kst_typed (state_of r)" if "returning (sys_clone regs st) = Some r"
    by (rule returning_typed [OF that st]) (auto simp: sys_clone_def intro: do_fork_typed st)
  note plain = returning_procs [OF _ st sys_openat_procs] returning_procs [OF _ st sys_close_procs] returning_procs [OF _ st sys_lseek_procs]
    returning_procs [OF _ st sys_read_procs] returning_procs [OF _ st sys_write_procs] returning_procs [OF _ st sys_mmap_procs]
    returning_procs [OF _ st sys_munmap_procs] returning_procs [OF _ st sys_getdents64_procs]
  have rest: "kst_typed (state_of r)" if "Some (Returned v st) = Some r" for v using that st by auto
  show ?thesis
    using run unfolding syscall_def sys_open_def
    by (simp only: split: if_split_asm) (erule fork exe wait ex rest | erule plain, assumption)+
qed

lemma ecall_typed:
  assumes "ecall_from_user_mode_handler regs st = Some r" "kst_typed st"
  shows "kst_typed (state_of r)"
proof -
  let ?r = "pt_regs_at st regs"
  let ?s = "st\<lparr>pt_regs_at := (pt_regs_at st)(regs := ?r\<lparr>regs_sepc := regs_sepc ?r + 4\<rparr>)\<rparr>"
  obtain nr q where q: "syscall nr (\<lambda>i. regs_x ?r ! (RISCV_REG_A0 + i)) regs ?s = Some q"
    "and_then q (\<lambda>ret st. map_option (Returned ()) (set_reg RISCV_REG_A0 (of_int ret) regs st)) = Some r"
    using assms(1) unfolding ecall_from_user_mode_handler_def Let_def by (elim bind_SomeE)
  have "kst_typed ?s" using assms(2) by (auto simp: kst_typed_def typed_but_def arrays_ok_def table_ok_def tasks_def task_ok_def)
  then have "typed_but {} (state_of q)" using syscall_typed [OF q(1)] by (simp add: kst_typed_def)
  then show ?thesis unfolding kst_typed_def
    by (rule and_then_typed [OF q(2)]) (auto dest: typed_set_reg)
qed

lemma trap_handler_typed:
  assumes "trap_handler regs cause val st = Some r" "kst_typed st"
  shows "kst_typed (state_of r)"
proof -
  have run: "kst_typed (state_of r)" if "run_trap h regs cause val st = Some r" for h
  proof (cases h)
    case Timer_interrupt
    then show ?thesis using that do_timer_typed assms(2) by (auto simp: supervisor_timer_interrupt_handler_def kst_typed_def)
  next
    case Ecall_from_user
    then show ?thesis using that ecall_typed assms(2) by simp
  next
    case Page_fault
    then show ?thesis using that assms(2) by (auto intro: kst_typed_procs [OF _ do_page_fault_procs])
  qed
  show ?thesis using assms run by (auto simp: trap_handler_def Let_def split: option.splits)
qed

subsection \<open>Runs of the kernel\<close>

text \<open>
  What happens to the kernel's state from a trap to the next: the handler, the signals on the way back, the end of a \<open>waitpid\<close> whose
  task was switched back to, the registers a trap from user mode saves, and a turn of the idle loop.
\<close>

inductive kernel_run :: "kst \<Rightarrow> kst \<Rightarrow> bool" where
  start: "kernel_run st st"
| trap: "kernel_run s st \<Longrightarrow> trap_handler regs cause val st = Some r \<Longrightarrow> kernel_run s (state_of r)"
| signals: "kernel_run s st \<Longrightarrow> signal_handler regs st = Some r \<Longrightarrow> kernel_run s (state_of r)"
| resumed: "kernel_run s st \<Longrightarrow> waitpid_resume regs st = Some st' \<Longrightarrow> kernel_run s st'"
| saved: "kernel_run s st \<Longrightarrow> length (regs_x r) = 32 \<Longrightarrow> kernel_run s (st\<lparr>pt_regs_at := (pt_regs_at st)(regs := r)\<rparr>)"
| idle_turn: "kernel_run s st \<Longrightarrow> dummy_turn loc prev st = (loc', prev', st') \<Longrightarrow> kernel_run s st'"

lemma dummy_turn_typed: "dummy_turn loc prev st = (loc', prev', st') \<Longrightarrow> kst_typed st \<Longrightarrow> kst_typed st'"
proof -
  have "typed_but {} (upd_cur (\<lambda>t. t\<lparr>t_counter := 0\<rparr>) st)" if "kst_typed st"
    using that typed_s_regs [of "{}" st "current st"] by (intro typed_upd_task) (simp_all add: kst_typed_def fields_ok_def)
  then show "dummy_turn loc prev st = (loc', prev', st') \<Longrightarrow> kst_typed st \<Longrightarrow> kst_typed st'"
    by (auto simp: dummy_turn_def Let_def kst_typed_def split: if_splits)
qed


subsection \<open>Boot\<close>

text \<open>
  \<open>task_init\<close> makes a well-typed state out of zeroed memory: the arrays have their sizes, the table is null and the page that becomes the
  idle task has no signal structure (\<open>task_init\<close> does not clear the pages it takes).
\<close>

lemma init_idle_typed:
  assumes "init_idle st = Some st'" "arrays_ok st" "\<forall>i<NR_TASKS. task st ! i = 0" "\<forall>w\<in>set (wait_queue st). w_valid w \<le> 1"
    "\<And>p. t_signal (task_at st p) = 0"
  shows "kst_typed st' \<and> num_tasks st' = 2"
proof -
  let ?f = "\<lambda>t. t\<lparr>t_pid := 0, t_fpid := 0, t_state := TASK_RUNNING, t_priority := 0, t_counter := 0\<rparr>"
  obtain idl s1 cp s2 w q ts where 1: "k_alloc_page (st\<lparr>seed := srand 2025\<rparr>) = Some (idl, s1)"
    and 2: "k_alloc_page (upd_task idl ?f (s1\<lparr>idle := idl\<rparr>)) = Some (cp, s2)"
    and 3: "wr (wait_queue s2) 0 (w\<lparr>w_valid := 0\<rparr>) = Some q" and 4: "wr (task s2) 0 idl = Some ts"
    and st': "st' = (upd_task idl (\<lambda>t. t\<lparr>t_cpid := cp, t_child_cnt := 0\<rparr>) (s2\<lparr>kvm := (kvm s2)\<lparr>vmem := zero_page cp (vmem (kvm s2))\<rparr>\<rparr>))
      \<lparr>wait_queue := q, current := idl, task := ts, num_tasks := 2\<rparr>"
    using assms(1) by (auto simp: init_idle_def Let_def set_wait_def upd_task_def Option.bind_eq_Some_conv)
  note P1 = proc_partD [OF k_alloc_page_procs [OF 1]] and P2 = proc_partD [OF k_alloc_page_procs [OF 2]]
  have s2: "task s2 = task st" "wait_queue s2 = wait_queue st" "signal_at s2 = signal_at st" "pt_regs_at s2 = pt_regs_at st"
    "task_at s2 = (task_at st)(idl := ?f (task_at st idl))" "length (files_at s2 p) = length (files_at st p)" for p
    by (simp_all add: P1 P2 upd_task_def)
  have len: "length (task st) = NR_TASKS" "length (wait_queue st) = NR_TASKS" using assms(2) by (simp_all add: arrays_ok_def)
  have q: "q = (wait_queue st)[0 := w\<lparr>w_valid := 0\<rparr>]" and ts: "ts = (task st)[0 := idl]" using wr_SomeD [OF 3] wr_SomeD [OF 4] by (simp_all add: s2)
  have "\<forall>x\<in>set q. w_valid x \<le> 1" using assms(4) set_update_subset_insert [of "wait_queue st" 0 "w\<lparr>w_valid := 0\<rparr>"] unfolding q by fastforce
  then have "table_ok st'" using assms(3) by (auto simp: table_ok_def st' ts NR_TASKS_def len nth_list_update)
  moreover have "arrays_ok st'" using assms(2) by (auto simp: arrays_ok_def st' s2 upd_task_def q ts)
  moreover have "task st ! k = 0" if "k < length (task st)" for k using assms(3) that len by simp
  then have "set (task st) \<subseteq> {0}" by (auto simp: in_set_conv_nth)
  then have "tasks st' \<subseteq> {idl}"
    using set_update_subset_insert [of "task st" 0 idl] by (auto simp: tasks_def st' ts upd_task_def)
  moreover have "task_ok st' idl" using assms(5) by (simp add: task_ok_def fields_ok_def st' s2 upd_task_def PRIORITY_MAX_def)
  ultimately show ?thesis by (auto simp: kst_typed_def typed_but_def st')
qed

lemma load_program_num:
  assumes "load_program tsk start fil st = Some st'"
  shows "num_tasks st' = num_tasks st"
proof -
  let ?n = "unat (e_phnum (ehdr_at start st))" and ?ph = "\<lambda>i. start + e_phoff (ehdr_at start st) + 56 * of_nat i"
  obtain s where s: "for_range 0 ?n (\<lambda>i s. load_segment tsk (?ph i) fil s) st = Some s"
    "st' = upd_thread tsk (\<lambda>t. t\<lparr>sepc := e_entry (ehdr_at start s)\<rparr>) s"
    using assms by (auto simp: load_program_def Let_def Option.bind_eq_Some_conv)
  have "num_tasks s = num_tasks st"
    by (rule for_range_rule [where P = "\<lambda>_ u. num_tasks u = num_tasks st", OF s(1)])
      (auto simp: load_segment_def Let_def Option.bind_eq_Some_conv split: if_splits)
  then show ?thesis by (simp add: s(2) upd_thread_def upd_task_def)
qed

lemma k_mmap_typed: "k_mmap mm va len fl fil off sz st = Some st' \<Longrightarrow> typed_but X st \<Longrightarrow> typed_but X st' \<and> num_tasks st' = num_tasks st"
  by (auto simp: k_mmap_def Option.bind_eq_Some_conv)

lemma init_program_typed:
  assumes "init_program tp mm st = Some st'" "typed_but X st"
  shows "typed_but X st' \<and> num_tasks st' = num_tasks st"
proof -
  let ?s = "suapp (ksym st)" and ?u = "upd_thread tp (\<lambda>t. t\<lparr>sepc := USER_START\<rparr>) st"
  obtain u where u: "k_mmap mm USER_START (euapp (ksym st) - ?s) (VM_READ OR VM_WRITE OR VM_EXEC) 0 0 (euapp (ksym st) - ?s) ?u = Some u \<or>
      load_program tp ?s 0 st = Some u"
    and m: "k_mmap mm (USER_END - PGSIZE) PGSIZE (VM_READ OR VM_WRITE OR VM_ANON) 0 0 0 u = Some st'"
    using assms(1) by (auto simp: init_program_def Let_def Option.bind_eq_Some_conv split: if_splits)
  have "typed_but X ?u" by (rule thread_typed [OF assms(2)]) simp
  moreover have "num_tasks ?u = num_tasks st" by (simp add: upd_thread_def upd_task_def)
  ultimately have "typed_but X u \<and> num_tasks u = num_tasks st"
    using u
  proof (elim disjE)
    assume l: "load_program tp ?s 0 st = Some u"
    show ?thesis using load_program_typed [OF l assms(2)] load_program_num [OF l] by simp
  qed (use k_mmap_typed in simp)
  then show ?thesis using k_mmap_typed [OF m, where X = X] by simp
qed

lemma new_mm_typed:
  assumes "new_mm tp st = Some (mm, st')" "typed_but X st"
  shows "typed_but X st' \<and> num_tasks st' = num_tasks st"
proof -
  obtain u where u: "k_alloc_page st = Some (mm, u)" "st' = upd_task tp (\<lambda>t. t\<lparr>t_mm := mm\<rparr>)
      (u\<lparr>kmm := mupd mm (\<lambda>m. \<lparr>mmap = 0, num_vmas = 0, free_vma_list = 0\<rparr>) (kmm u)\<rparr>)"
    using assms(1) by (auto simp: new_mm_def Option.bind_eq_Some_conv)
  have "typed_but X u" by (rule typed_procs [OF assms(2) k_alloc_page_procs [OF u(1)]])
  then have "typed_but X st'" unfolding u(2) by (intro typed_fields) simp_all
  then show ?thesis using proc_partD [OF k_alloc_page_procs [OF u(1)]] by (simp add: u(2) upd_task_def)
qed

lemma init_task_typed:
  assumes run: "init_task i st = Some st'" and st: "kst_typed st" and i: "i < unat (num_tasks st)"
  shows "kst_typed st' \<and> num_tasks st' = num_tasks st"
proof -
  obtain r sd where rd: "randint PRIORITY_MIN PRIORITY_MAX (seed st) = (r, sd)" by fastforce
  let ?f = "\<lambda>t. t\<lparr>t_pid := of_nat i, t_fpid := 0, t_state := TASK_RUNNING, t_priority := of_int r, t_counter := 0\<rparr>"
  obtain tp s1 ts where 1: "k_alloc_page st = Some (tp, s1)" "wr (task s1) i tp = Some ts"
    using run by (auto simp: init_task_def Option.bind_eq_Some_conv)
  note P1 = proc_partD [OF k_alloc_page_procs [OF 1(1)]]
  let ?u = "upd_task tp ?f (s1\<lparr>task := ts, seed := sd\<rparr>)"
  have "seed s1 = seed st" by (rule P1)
  define v2 where "v2 = (\<lambda>cp s. upd_task tp (\<lambda>t. t\<lparr>t_cpid := cp, t_child_cnt := 0\<rparr>)
      (s\<lparr>kvm := (kvm s)\<lparr>vmem := zero_page (t_cpid (task_at s (idle s))) (vmem (kvm s))\<rparr>\<rparr>))"
  from \<open>seed s1 = seed st\<close> obtain cp s2 s3 pgd s4 v mm s5 s6 fs s7 where 2: "k_alloc_page ?u = Some (cp, s2)"
    and 3: "signal_init i (add_child (idle (v2 cp s2)) (of_nat i) (v2 cp s2)) = Some s3"
    and 4: "k_alloc_page (upd_thread tp (\<lambda>t. t\<lparr>ra := dummy_entry (ksym s3), sp := tp + PGSIZE, sstatus := user_status (sstatus t),
        sscratch := USER_END, stval := 0, scause := 0\<rparr>) s3) = Some (pgd, s4)"
    and 5: "new_mm tp (set_kvm v (upd_task tp (\<lambda>t. t\<lparr>t_pgd := pgd\<rparr>) s4)) = Some (mm, s5)" and 6: "init_program tp mm s5 = Some s6"
    and 7: "file_init s6 = Some (fs, s7)" and st': "st' = upd_task tp (\<lambda>t. t\<lparr>t_files := fs\<rparr>) s7"
    using run 1 rd by (auto simp: init_task_def Let_def v2_def Option.bind_eq_Some_conv)
  note P2 = proc_partD [OF k_alloc_page_procs [OF 2]]
  have len: "i < length (task st)" and ts: "ts = (task st)[i := tp]" using wr_SomeD [OF 1(2)] by (simp_all add: P1)
  have t1: "typed_but {tp} s1" using st typed_procs [OF _ k_alloc_page_procs [OF 1(1)]] typed_mono by (fastforce simp: kst_typed_def)
  have "typed_but {tp} (s1\<lparr>task := ts, seed := sd\<rparr>)"
  proof -
    have "set ts \<subseteq> insert tp (set (task s1))" unfolding ts P1 by (rule set_update_subset_insert)
    moreover have "table_ok (s1\<lparr>task := ts\<rparr>)" using t1 i by (auto simp: typed_but_def table_ok_def ts P1 nth_list_update)
    ultimately have "typed_but {tp} (s1\<lparr>task := ts\<rparr>)"
      using t1 by (auto simp: typed_but_def arrays_ok_def tasks_def task_ok_def ts P1)
    from iffD2 [OF typed_memory(5) this] show ?thesis by simp
  qed
  then have u: "typed_but {tp} ?u" by (rule typed_upd_task) (use t1 in \<open>simp_all add: typed_s_regs\<close>)
  then have "typed_but {tp} s2" by (rule typed_procs) (rule k_alloc_page_procs [OF 2])
  then have "typed_but {tp} (s2\<lparr>kvm := (kvm s2)\<lparr>vmem := zero_page (t_cpid (task_at s2 (idle s2))) (vmem (kvm s2))\<rparr>\<rparr>)" by simp
  then have "typed_but {tp} (v2 cp s2)" unfolding v2_def by (rule typed_fields) simp_all
  then have a: "typed_but {tp} (add_child (idle (v2 cp s2)) (of_nat i) (v2 cp s2))" by (rule add_child_typed)
  have f: "fields_ok (task_at (add_child (idle (v2 cp s2)) (of_nat i) (v2 cp s2)) tp)"
    using randint_priority [OF rd]
    by (simp add: fields_ok_def v2_def add_child_def k_write_def Let_def upd_task_def P2 word_le_nat_alt PRIORITY_MAX_def unsigned_of_int
        take_bit_int_eq_self nat_le_iff)
  let ?a = "add_child (idle (v2 cp s2)) (of_nat i) (v2 cp s2)"
  have at: "task ?a = ts" "num_tasks ?a = num_tasks st" by (simp_all add: v2_def add_child_def k_write_def Let_def upd_task_def P2 P1)
  obtain q where "task_ptr ?a i = Some q" using 3 unfolding signal_init_def by (elim bind_SomeE)
  then have "task_ptr ?a i = Some tp" using len by (auto simp: task_ptr_def at ts split: if_splits)
  from signal_init_typed [OF 3 this a subset_refl f] have s3: "typed_but {} s3" "num_tasks s3 = num_tasks st"
    by (simp_all add: kst_typed_def at)
  then have s4: "typed_but {} s4" by (intro typed_procs [OF thread_typed k_alloc_page_procs [OF 4]]) simp_all
  have n4: "num_tasks s4 = num_tasks st" using proc_partD [OF k_alloc_page_procs [OF 4]] s3(2) by (simp add: upd_thread_def upd_task_def)
  have "typed_but {} (upd_task tp (\<lambda>t. t\<lparr>t_pgd := pgd\<rparr>) s4)" by (rule typed_fields [OF s4]) simp_all
  then have "typed_but {} (set_kvm v (upd_task tp (\<lambda>t. t\<lparr>t_pgd := pgd\<rparr>) s4))" by simp
  from new_mm_typed [OF 5 this] have "typed_but {} s5" "num_tasks s5 = num_tasks st" by (simp_all add: n4 set_kvm_def upd_task_def)
  then have s6: "typed_but {} s6" "num_tasks s6 = num_tasks st" using init_program_typed [OF 6] by simp_all
  have "typed_but {} s7" by (rule file_init_typed [OF 7 s6(1)])
  then have "typed_but {} st'" unfolding st' by (rule typed_fields) simp_all
  then show ?thesis using file_init_fields [OF 7] s6(2) by (simp add: kst_typed_def st' upd_task_def)
qed

lemma task_init_typed:
  assumes "task_init st = Some st'" "arrays_ok st" "\<forall>i<NR_TASKS. task st ! i = 0" "\<forall>w\<in>set (wait_queue st). w_valid w \<le> 1"
    "\<And>p. t_signal (task_at st p) = 0"
  shows "kst_typed st'"
proof -
  obtain s0 s1 where 1: "init_idle st = Some s0" and 2: "for_range 1 (unat (num_tasks s0)) init_task s0 = Some s1"
    and 3: "for_range (unat (num_tasks s1)) NR_TASKS (\<lambda>i st. do { ts \<leftarrow> wr (task st) i 0; Some (st\<lparr>task := ts\<rparr>) }) s1 = Some st'"
    using assms(1) unfolding task_init_def by (elim bind_SomeE)
  have s0: "kst_typed s0" "num_tasks s0 = 2" using init_idle_typed [OF 1 assms(2-5)] by simp_all
  have s1: "kst_typed s1 \<and> num_tasks s1 = 2"
    by (rule for_range_rule [where P = "\<lambda>_ u. kst_typed u \<and> num_tasks u = 2", OF 2]) (use s0 init_task_typed in auto)
  show ?thesis
  proof (rule for_range_rule [where P = "\<lambda>_ u. kst_typed u", OF 3])
    fix k u v assume "kst_typed u" "do { ts \<leftarrow> wr (task u) k 0; Some (u\<lparr>task := ts\<rparr>) } = Some v"
    then show "kst_typed v" unfolding kst_typed_def by (elim bind_SomeE) (auto intro: typed_remove)
  qed (use s1 in \<open>simp_all add: NR_TASKS_def\<close>)
qed

text \<open>Two tasks; the running one uses up its slice and the other gets the processor.\<close>

definition demo_typed :: kst where
  "demo_typed = (demo_sched 1 6)\<lparr>task_at := (\<lambda>p. (task_at (demo_sched 1 6) p)\<lparr>t_thread := demo_thread\<lparr>s_regs := replicate 12 0\<rparr>\<rparr>), files_at := (\<lambda>_. replicate MAX_FILE_NUMBER demo_file),
     signal_at := (\<lambda>_. \<lparr>signal_pending = 0, action = replicate NSIG (dft_action None)\<rparr>)\<rparr>"

lemma demo_typed_ok: "kst_typed demo_typed"
proof -
  have "arrays_ok demo_typed"
    by (simp add: arrays_ok_def demo_typed_def demo_sched_def demo_kst_def demo_task_def NR_TASKS_def)
  moreover have "\<forall>i\<in>set [0 ..< 9]. 3 \<le> i \<longrightarrow> [10 :: u64, 20, 30, 0, 0, 0, 0, 0, 0] ! i = 0" by code_simp
  then have "table_ok demo_typed" by (simp add: table_ok_def demo_typed_def demo_sched_def demo_kst_def NR_TASKS_def Ball_def)
  moreover have "task_ok demo_typed p" for p
    by (simp add: task_ok_def fields_ok_def default_actions_def dft_action_def demo_typed_def demo_sched_def demo_kst_def demo_task_def PRIORITY_MAX_def
        TASK_RUNNING_def)
  ultimately show ?thesis by (simp add: kst_typed_def typed_but_def)
qed


end
