(* ===== verification/User_Io.thy ===== *)
theory User_Io
  imports File_Fault
begin

unbundle bit_operations_syntax

text \<open>
  Files read and written from user memory: the system calls \<open>read\<close>, \<open>write\<close> and \<open>lseek\<close> on a file of the FAT32 volume, with the bytes in
  pages of the calling task.
\<close>

subsection \<open>Pages of the task\<close>

text \<open>An address the task may access with the rights \<open>need\<close> without a fault, in a page that is no page table.\<close>

definition user_page :: "u64 \<Rightarrow> u64 \<Rightarrow> kst \<Rightarrow> bool" where
  "user_page need a st \<longleftrightarrow>
     (let root = t_pgd (cur st); m = vmem (kvm st); pte = leaf_pte m root (vpn_of a)
      in a < USER_END \<and> PTE_HAS_V pte \<and> pte AND need = need \<and> page_aligned (pte_table pte) \<and> pte_table pte \<notin> tables m root)"

definition user_buf :: "u64 \<Rightarrow> u64 \<Rightarrow> nat \<Rightarrow> kst \<Rightarrow> bool" where
  "user_buf need buf n st \<longleftrightarrow> (\<forall>j<n. user_page need (buf + of_nat j) st)"

text \<open>What the task reads there.\<close>

definition user_bytes :: "u64 \<Rightarrow> nat \<Rightarrow> kst \<Rightarrow> u8 list" where
  "user_bytes buf n st = map (\<lambda>j. get_byte (vmem (kvm st)) (user_addr (buf + of_nat j) st)) [0 ..< n]"

definition tables_wf :: "kst \<Rightarrow> bool" where
  "tables_wf st \<longleftrightarrow> pt_wf (vmem (kvm st)) (tables (vmem (kvm st)) (t_pgd (cur st))) (t_pgd (cur st))"

lemma tables_wfI: "pt_ok (t_pgd (cur st)) (kvm st) \<Longrightarrow> tables_wf st"
  unfolding tables_wf_def pt_ok_def pt_wf_def tables_def by blast

lemma user_page_addr:
  assumes "tables_wf st" "user_page need a st"
  shows "user_pte a st = leaf_pte (vmem (kvm st)) (t_pgd (cur st)) (vpn_of a)" "user_pte a st AND need = need" "a < USER_END"
    "\<not> USER_END \<le> a" "PGROUNDDOWN (user_addr a st) \<notin> tables (vmem (kvm st)) (t_pgd (cur st))"
    "PGROUNDDOWN (user_addr a st AND NOT 7) = PGROUNDDOWN (user_addr a st)"
proof -
  let ?pte = "leaf_pte (vmem (kvm st)) (t_pgd (cur st)) (vpn_of a)"
  have u: "PTE_HAS_V ?pte" "?pte AND need = need" "page_aligned (pte_table ?pte)" "pte_table ?pte \<notin> tables (vmem (kvm st)) (t_pgd (cur st))"
    and a: "a < USER_END" using assms(2) by (simp_all add: user_page_def Let_def)
  show p: "user_pte a st = ?pte" by (rule user_pte_leaf [OF assms(1) [unfolded tables_wf_def] u(1)])
  show "user_pte a st AND need = need" using u(2) p by simp
  show "a < USER_END" "\<not> USER_END \<le> a" using a by simp_all
  have t: "unat (TRUNCATE a PAGE_SHIFT) < 4096"
  proof -
    have "TRUNCATE a PAGE_SHIFT = take_bit 12 a" by (simp add: TRUNCATE_def PAGE_SHIFT_def take_bit_eq_mask mask_eq_exp_minus_1)
    then have "unat (TRUNCATE a PAGE_SHIFT) = take_bit 12 (unat a)" by (simp only: unsigned_take_bit_eq)
    then show ?thesis by (simp add: take_bit_eq_mod)
  qed
  have ad: "user_addr a st = pte_table ?pte + of_nat (unat (TRUNCATE a PAGE_SHIFT))" by (simp add: user_addr_def p)
  show "PGROUNDDOWN (user_addr a st) \<notin> tables (vmem (kvm st)) (t_pgd (cur st))"
    unfolding ad using page_offset(1) [OF u(3) t] u(4) by simp
  show "PGROUNDDOWN (user_addr a st AND NOT 7) = PGROUNDDOWN (user_addr a st)"
    by (rule bit_word_eqI, simp only: PGROUNDDOWN_eq bit_push_bit_iff bit_drop_bit_eq comp_apply bit_align) auto
qed

text \<open>A store in a page that is no table.\<close>

lemma store_keeps:
  assumes wf: "tables_wf st" and p: "PGROUNDDOWN (p AND NOT 7) \<notin> tables (vmem (kvm st)) (t_pgd (cur st))"
    and st': "kvm st' = (kvm st)\<lparr>vmem := set_byte p b (vmem (kvm st))\<rparr>" "t_pgd (cur st') = t_pgd (cur st)"
  shows "tables_wf st'" "user_page need a st' = user_page need a st" "user_page V a st \<Longrightarrow> user_addr a st' = user_addr a st"
proof -
  let ?m = "vmem (kvm st)" and ?root = "t_pgd (cur st)"
  have off: "set_byte p b ?m x = ?m x" if "PGROUNDDOWN x \<noteq> PGROUNDDOWN (p AND NOT 7)" for x
    using that by (auto simp: set_byte_def)
  note wf' = wf [unfolded tables_wf_def]
  have tb: "tbl_at (set_byte p b ?m) ?root q = tbl_at ?m ?root q" if "ok_path q" for q
    by (rule tbl_at_off_page [OF wf' p off that])
  have t: "tables (set_byte p b ?m) ?root = tables ?m ?root" using tb by (auto simp: tables_def)
  have leaf: "leaf_pte (set_byte p b ?m) ?root (vpn_of x) = leaf_pte ?m ?root (vpn_of x)" for x
    by (rule leaf_off_page [OF wf' p off]) (simp, simp add: vpn_of_def)
  show w: "tables_wf st'" using wf' tb by (simp add: tables_wf_def st' pt_wf_def t)
  show u: "user_page need a st' = user_page need a st" for need a by (simp add: user_page_def Let_def st' leaf t)
  show "user_addr a st' = user_addr a st" if "user_page V a st"
    using user_page_addr(1) [OF wf that] user_page_addr(1) [OF w u [THEN iffD2, OF that]] by (simp add: user_addr_def st' leaf)
qed

abbreviation "WRITE \<equiv> SV39_PTE_V OR SV39_PTE_W"
abbreviation "READ \<equiv> SV39_PTE_V OR SV39_PTE_R"

lemma load_users_mapped:
  assumes "tables_wf st" "user_buf READ buf n st"
  shows "load_users buf n st = Some (user_bytes buf n st, st)"
  using assms(2)
proof (induction n arbitrary: buf)
  case 0
  then show ?case by (simp add: user_bytes_def)
next
  case (Suc n)
  have "user_page READ (buf + of_nat 0) st" using Suc.prems unfolding user_buf_def by blast
  then have u: "user_page READ buf st" by simp
  have "user_buf READ (buf + 1) n st"
    unfolding user_buf_def
  proof (intro allI impI)
    fix j assume "j < n"
    then have "user_page READ (buf + of_nat (Suc j)) st" using Suc.prems unfolding user_buf_def by blast
    then show "user_page READ (buf + 1 + of_nat j) st" by (simp add: add.assoc)
  qed
  note IH = Suc.IH [OF this]
  have "load_user buf st = Some (get_byte (vmem (kvm st)) (user_addr buf st), st)"
    using user_page_addr(2,4) [OF assms(1) u] by (simp add: load_user_def touch_def)
  moreover have "user_bytes buf (Suc n) st = get_byte (vmem (kvm st)) (user_addr buf st) # user_bytes (buf + 1) n st"
    by (simp add: user_bytes_def upt_conv_Cons map_Suc_upt [symmetric] add.assoc del: upt_Suc)
  ultimately show ?case using IH by simp
qed

lemma store_users_mapped:
  assumes "tables_wf st" "user_buf WRITE buf (length bs) st" "inj_on (\<lambda>j. user_addr (buf + of_nat j) st) {..<length bs}"
  shows "\<exists>m. store_users buf bs st = Some (st\<lparr>kvm := (kvm st)\<lparr>vmem := m\<rparr>\<rparr>) \<and> tables_wf (st\<lparr>kvm := (kvm st)\<lparr>vmem := m\<rparr>\<rparr>) \<and>
    (\<forall>need a. user_page need a (st\<lparr>kvm := (kvm st)\<lparr>vmem := m\<rparr>\<rparr>) = user_page need a st) \<and>
    (\<forall>need a. user_page need a st \<longrightarrow> user_addr a (st\<lparr>kvm := (kvm st)\<lparr>vmem := m\<rparr>\<rparr>) = user_addr a st) \<and>
    (\<forall>j<length bs. get_byte m (user_addr (buf + of_nat j) st) = bs ! j) \<and>
    (\<forall>c. (\<forall>j<length bs. c \<noteq> user_addr (buf + of_nat j) st) \<longrightarrow> get_byte m c = get_byte (vmem (kvm st)) c)"
  using assms
proof (induction bs arbitrary: buf st)
  case Nil
  show ?case by (rule exI [of _ "vmem (kvm st)"]) (use Nil in simp)
next
  case (Cons b bs)
  define st1 where "st1 = st\<lparr>kvm := (kvm st)\<lparr>vmem := set_byte (user_addr buf st) b (vmem (kvm st))\<rparr>\<rparr>"
  have pg: "user_page WRITE (buf + of_nat j) st" if "j < Suc (length bs)" for j
    using Cons.prems(2) that unfolding user_buf_def by simp
  have u: "user_page WRITE buf st" using pg [of 0] by simp
  note A = user_page_addr [OF Cons.prems(1) u]
  have s1: "store_user buf b st = Some st1"
    using A(2,4) by (simp add: store_user_def touch_def st1_def)
  have k1: "kvm st1 = (kvm st)\<lparr>vmem := set_byte (user_addr buf st) b (vmem (kvm st))\<rparr>" "t_pgd (cur st1) = t_pgd (cur st)"
    by (simp_all add: st1_def)
  note K = store_keeps [OF Cons.prems(1) A(5) [folded A(6)] k1]
  have ad: "user_addr (buf + 1 + of_nat j) st1 = user_addr (buf + of_nat (Suc j)) st" if "j < length bs" for j
    using K(3) [OF pg [of "Suc j"]] that by (simp add: add.assoc)
  have "user_buf WRITE (buf + 1) (length bs) st1"
    unfolding user_buf_def using pg [of "Suc _"] K(2) by (simp add: add.assoc)
  moreover have "inj_on (\<lambda>j. user_addr (buf + 1 + of_nat j) st1) {..<length bs}"
  proof (rule inj_onI)
    fix i j assume ij: "i \<in> {..<length bs}" "j \<in> {..<length bs}" "user_addr (buf + 1 + of_nat i) st1 = user_addr (buf + 1 + of_nat j) st1"
    then have "user_addr (buf + of_nat (Suc i)) st = user_addr (buf + of_nat (Suc j)) st" using ad by simp
    then have "Suc i = Suc j" by (rule inj_onD [OF Cons.prems(3)]) (use ij in simp_all)
    then show "i = j" by simp
  qed
  ultimately obtain m where m: "store_users (buf + 1) bs st1 = Some (st1\<lparr>kvm := (kvm st1)\<lparr>vmem := m\<rparr>\<rparr>)" "tables_wf (st1\<lparr>kvm := (kvm st1)\<lparr>vmem := m\<rparr>\<rparr>)"
    "\<And>need a. user_page need a (st1\<lparr>kvm := (kvm st1)\<lparr>vmem := m\<rparr>\<rparr>) = user_page need a st1"
    "\<And>need a. user_page need a st1 \<Longrightarrow> user_addr a (st1\<lparr>kvm := (kvm st1)\<lparr>vmem := m\<rparr>\<rparr>) = user_addr a st1"
    "\<And>j. j < length bs \<Longrightarrow> get_byte m (user_addr (buf + 1 + of_nat j) st1) = bs ! j"
    "\<And>c. (\<And>j. j < length bs \<Longrightarrow> c \<noteq> user_addr (buf + 1 + of_nat j) st1) \<Longrightarrow> get_byte m c = get_byte (vmem (kvm st1)) c"
    using Cons.IH [OF K(1)] by blast
  have e: "st1\<lparr>kvm := (kvm st1)\<lparr>vmem := m\<rparr>\<rparr> = st\<lparr>kvm := (kvm st)\<lparr>vmem := m\<rparr>\<rparr>" by (simp add: st1_def)
  have first: "get_byte m (user_addr buf st) = b"
  proof -
    have "user_addr buf st \<noteq> user_addr (buf + 1 + of_nat j) st1" if j: "j < length bs" for j
    proof
      assume "user_addr buf st = user_addr (buf + 1 + of_nat j) st1"
      then have "user_addr (buf + of_nat 0) st = user_addr (buf + of_nat (Suc j)) st" using ad [OF j] by simp
      then have "0 = Suc j" by (rule inj_onD [OF Cons.prems(3)]) (use j in simp_all)
      then show False by simp
    qed
    then show ?thesis using m(6) [of "user_addr buf st"] by (simp add: k1 get_set_byte)
  qed
  have bytes: "get_byte m (user_addr (buf + of_nat j) st) = (b # bs) ! j" if "j < Suc (length bs)" for j
    using that first m(5) ad by (cases j) auto
  have others: "get_byte m c = get_byte (vmem (kvm st)) c" if c: "\<forall>j<Suc (length bs). c \<noteq> user_addr (buf + of_nat j) st" for c
  proof -
    have "c \<noteq> user_addr (buf + 1 + of_nat j) st1" if "j < length bs" for j using c ad [OF that] that by auto
    moreover have "c \<noteq> user_addr buf st" using c [rule_format, of 0] by simp
    ultimately show ?thesis using m(6) [of c] by (simp add: k1 get_set_byte)
  qed
  show ?case
    by (rule exI [of _ m]) (use s1 m(1-4) K(2,3) bytes others in \<open>simp add: e\<close>)
qed

subsection \<open>The open file\<close>

definition holds_file :: "u32 \<Rightarrow> file_t \<Rightarrow> kst \<Rightarrow> bool" where
  "holds_file fd fil st \<longleftrightarrow>
     (let t = t_files (cur st)
      in 2 < unat fd \<and> unat fd < MAX_FILE_NUMBER \<and> t \<noteq> 0 \<and> page_aligned t \<and> length (files_at st t) = MAX_FILE_NUMBER \<and>
         files_at st t ! unat fd = fil \<and> opened fil \<noteq> 0)"

lemma file_addr_parts:
  assumes "page_aligned t" "i < MAX_FILE_NUMBER"
  shows "PGROUNDDOWN (file_addr t i) = t" "file_index (file_addr t i) = i"
proof -
  have i: "144 * i < 4096" using assms(2) by (simp add: MAX_FILE_NUMBER_def)
  have a: "file_addr t i = t + of_nat (144 * i)" by (simp add: file_addr_def sizeof_file_def)
  show p: "PGROUNDDOWN (file_addr t i) = t" unfolding a by (rule page_offset(1) [OF assms(1) i])
  have "unat (of_nat (144 * i) :: u64) = 144 * i" using i by (intro unat_of_nat_small) simp
  then show "file_index (file_addr t i) = i" unfolding file_index_def p by (simp add: a unat_div sizeof_file_def)
qed

lemma holds_fileD:
  assumes "holds_file fd fil st"
  shows "cur_file (unat fd) st = Some fil" "get_file (cur_file_ptr (unat fd) st) st = Some fil"
    "\<And>g s. files_at s = files_at st \<Longrightarrow> set_file (cur_file_ptr (unat fd) st) g s =
       Some (s\<lparr>files_at := (files_at st)(t_files (cur st) := (files_at st (t_files (cur st)))[unat fd := g])\<rparr>)"
    "unat fd < MAX_FILE_NUMBER" "\<not> fd \<le> 2" "opened fil \<noteq> 0"
proof -
  let ?t = "t_files (cur st)" and ?i = "unat fd"
  have h: "2 < ?i" "?i < MAX_FILE_NUMBER" "?t \<noteq> 0" "page_aligned ?t" "length (files_at st ?t) = MAX_FILE_NUMBER"
    "files_at st ?t ! ?i = fil" "opened fil \<noteq> 0" using assms by (simp_all add: holds_file_def Let_def)
  note A = file_addr_parts [OF h(4,2)]
  have "PGROUNDDOWN 0 = 0" by (simp add: PGROUNDDOWN_eq)
  then have nz: "file_addr ?t ?i \<noteq> 0" using A(1) h(3) by auto
  show "cur_file ?i st = Some fil" using h by (simp add: cur_file_def cur_files_def)
  show "get_file (cur_file_ptr ?i st) st = Some fil" using h nz by (simp add: get_file_def cur_file_ptr_def A)
  show "set_file (cur_file_ptr ?i st) g s = Some (s\<lparr>files_at := (files_at st)(?t := (files_at st ?t)[?i := g])\<rparr>)"
    if "files_at s = files_at st" for g s
    using h nz that by (simp add: set_file_def cur_file_ptr_def A wr_def)
  show "?i < MAX_FILE_NUMBER" "opened fil \<noteq> 0" by (fact h)+
  show "\<not> fd \<le> 2" using h(1) by (simp add: word_le_nat_alt)
qed

lemma holds_file_set:
  assumes "holds_file fd fil st" "opened g \<noteq> 0" "t_files (cur st') = t_files (cur st)"
    "files_at st' = (files_at st)(t_files (cur st) := (files_at st (t_files (cur st)))[unat fd := g])"
  shows "holds_file fd g st'"
  using assms by (simp add: holds_file_def Let_def)

subsection \<open>read\<close>

lemma file_read_slice:
  assumes h: "holds_file fd fil st" and f: "read_fn fil = Some Fat32_read" "opened_file (fat st) fil cs sz" "unat (cfo fil) \<le> unat sz"
    "unat (cfo fil) + unat count < 2 ^ 64"
  defines "n \<equiv> min (unat count) (unat sz - unat (cfo fil))"
  shows "\<exists>ft. file_read (cur_file_ptr (unat fd) st) count st =
      Some (of_nat n, take n (drop (unat (cfo fil)) (file_content (fat st) cs)),
        st\<lparr>fat := ft, files_at := (files_at st)(t_files (cur st) := (files_at st (t_files (cur st)))[unat fd := fil\<lparr>cfo := cfo fil + of_nat n\<rparr>])\<rparr>) \<and>
      same_fs (fat st) ft"
proof -
  note H = holds_fileD [OF h]
  obtain ft where "fat32_read fil count (fat st) = Some (of_nat n, take n (drop (unat (cfo fil)) (file_content (fat st) cs)),
      fil\<lparr>cfo := cfo fil + of_nat n\<rparr>, ft)" "same_fs (fat st) ft"
    using fat32_read_ok [OF f(2-4)] unfolding n_def by blast
  then show ?thesis by (intro exI [of _ ft]) (simp add: file_read_def H(2,3) f(1))
qed

lemma sys_read_ok:
  assumes wf: "tables_wf st" and h: "holds_file fd fil st" and f: "perms fil AND FILE_READABLE \<noteq> 0" "read_fn fil = Some Fat32_read"
      "opened_file (fat st) fil cs sz" "unat (cfo fil) \<le> unat sz" "unat (cfo fil) + unat count < 2 ^ 64"
    and n: "n = min (unat count) (unat sz - unat (cfo fil))"
    and b: "user_buf WRITE buf n st" "inj_on (\<lambda>j. user_addr (buf + of_nat j) st) {..<n}"
  shows "\<exists>st'. sys_read fd buf count st = Some (int n, st') \<and>
    user_bytes buf n st' = take n (drop (unat (cfo fil)) (file_content (fat st) cs)) \<and>
    holds_file fd (fil\<lparr>cfo := cfo fil + of_nat n\<rparr>) st' \<and> same_fs (fat st) (fat st') \<and> tables_wf st' \<and>
    (\<forall>c. (\<forall>j<n. c \<noteq> user_addr (buf + of_nat j) st) \<longrightarrow> get_byte (vmem (kvm st')) c = get_byte (vmem (kvm st)) c) \<and>
    (\<forall>need a. user_page need a st' = user_page need a st)"
proof -
  let ?bs = "take n (drop (unat (cfo fil)) (file_content (fat st) cs))" and ?g = "fil\<lparr>cfo := cfo fil + of_nat n\<rparr>"
  note H = holds_fileD [OF h]
  have len: "length ?bs = n"
    using f(3,4) content_length [of "fat st" "fat32_volume (fat st)" cs] by (auto simp: opened_file_def n)
  obtain ft where ft: "file_read (cur_file_ptr (unat fd) st) count st = Some (of_nat n, ?bs,
        st\<lparr>fat := ft, files_at := (files_at st)(t_files (cur st) := (files_at st (t_files (cur st)))[unat fd := ?g])\<rparr>)" "same_fs (fat st) ft"
    using file_read_slice [OF h f(2-5)] unfolding n by blast
  define s where "s = st\<lparr>fat := ft, files_at := (files_at st)(t_files (cur st) := (files_at st (t_files (cur st)))[unat fd := ?g])\<rparr>"
  have s: "kvm s = kvm st" "task_at s = task_at st" "current s = current st" "fat s = ft" by (simp_all add: s_def)
  have up: "user_page need a s = user_page need a st" "user_addr a s = user_addr a st" "tables_wf s = tables_wf st" for need a
    by (simp_all add: user_page_def user_addr_def user_pte_def tables_wf_def s Let_def)
  have "user_buf WRITE buf (length ?bs) s" "inj_on (\<lambda>j. user_addr (buf + of_nat j) s) {..<length ?bs}" "tables_wf s"
    using b wf unfolding len by (simp_all add: user_buf_def up)
  from store_users_mapped [OF this(3,1,2)] obtain m where m: "store_users buf ?bs s = Some (s\<lparr>kvm := (kvm s)\<lparr>vmem := m\<rparr>\<rparr>)"
    "tables_wf (s\<lparr>kvm := (kvm s)\<lparr>vmem := m\<rparr>\<rparr>)" "\<And>need a. user_page need a (s\<lparr>kvm := (kvm s)\<lparr>vmem := m\<rparr>\<rparr>) = user_page need a s"
    "\<And>need a. user_page need a s \<Longrightarrow> user_addr a (s\<lparr>kvm := (kvm s)\<lparr>vmem := m\<rparr>\<rparr>) = user_addr a s"
    "\<And>j. j < n \<Longrightarrow> get_byte m (user_addr (buf + of_nat j) s) = ?bs ! j"
    "\<And>c. (\<And>j. j < n \<Longrightarrow> c \<noteq> user_addr (buf + of_nat j) s) \<Longrightarrow> get_byte m c = get_byte (vmem (kvm s)) c"
    unfolding len by blast
  let ?st' = "s\<lparr>kvm := (kvm s)\<lparr>vmem := m\<rparr>\<rparr>"
  have "user_bytes buf n ?st' = ?bs"
  proof (rule nth_equalityI)
    fix j assume "j < length (user_bytes buf n ?st')"
    then have j: "j < n" by (simp add: user_bytes_def)
    then have "user_page WRITE (buf + of_nat j) s" using b(1) by (simp add: user_buf_def up)
    from m(4) [OF this] m(5) [OF j] j show "user_bytes buf n ?st' ! j = ?bs ! j" by (simp add: user_bytes_def)
  qed (use len in \<open>simp add: user_bytes_def\<close>)
  moreover have "sint (of_nat n :: u64) = int n"
  proof -
    have "n < 2 ^ 32" using n unat_u32_less [of sz] by simp
    then show ?thesis by (simp add: signed_of_nat signed_take_bit_int_eq_self)
  qed
  then have "sys_read fd buf count st = Some (int n, ?st')"
    using H(1,4,5,6) f(1) ft(1) m(1) by (simp add: sys_read_def not_le [symmetric] s_def [symmetric])
  moreover have "holds_file fd ?g ?st'" by (rule holds_file_set [OF h]) (use H(6) in \<open>simp_all add: s_def\<close>)
  ultimately show ?thesis
    by (intro exI [of _ ?st']) (use ft(2) m(2,3,6) in \<open>simp add: up s\<close>)
qed

subsection \<open>An example\<close>

text \<open>A task with one page of memory at \<open>0x10000\<close>, which it may read and write, and the file of the example volume open.\<close>

definition demo_rw_vm :: vm where
  "demo_rw_vm = the (create_mapping root_a 0x10000 0x80002000 0x1000 (SV39_PTE_R OR SV39_PTE_W OR SV39_PTE_U) demo_vm)"

definition demo_io :: "u8 \<Rightarrow> kst" where
  "demo_io b = (demo_kst (\<lambda>_. (demo_task 1 0 5 5)\<lparr>t_pgd := root_a, t_files := 0x5000\<rparr>))
     \<lparr>kvm := demo_rw_vm\<lparr>vmem := set_byte (va_of 2) b (vmem demo_rw_vm)\<rparr>, fat := demo_fat, files_at := (\<lambda>_. replicate 16 demo_file)\<rparr>"

lemma demo_io_state:
  "task_at (demo_io b) p = (demo_task 1 0 5 5)\<lparr>t_pgd := root_a, t_files := 0x5000\<rparr>" "fat (demo_io b) = demo_fat"
  "kvm (demo_io b) = demo_rw_vm\<lparr>vmem := set_byte (va_of 2) b (vmem demo_rw_vm)\<rparr>" "files_at (demo_io b) a = replicate 16 demo_file"
  by (simp_all add: demo_io_def demo_kst_def)

lemma demo_io_file: "holds_file 3 demo_file (demo_io b)"
proof -
  have "page_aligned 0x5000" by code_simp
  then show ?thesis by (simp add: holds_file_def Let_def demo_io_state MAX_FILE_NUMBER_def) (simp add: demo_file_def)
qed

lemma demo_io_page:
  assumes "j < 4096" "need = READ \<or> need = WRITE"
  shows "tables_wf (demo_io b)" "user_page need (0x10000 + of_nat j) (demo_io b)" "user_addr (0x10000 + of_nat j) (demo_io b) = va_of 2 + of_nat j"
proof -
  define s where "s = (demo_io b)\<lparr>kvm := demo_rw_vm\<rparr>"
  have st: "cur s = (demo_task 1 0 5 5)\<lparr>t_pgd := root_a, t_files := 0x5000\<rparr>" "kvm s = demo_rw_vm" by (simp_all add: s_def demo_io_state)
  have "create_mapping root_a 0x10000 0x80002000 0x1000 (SV39_PTE_R OR SV39_PTE_W OR SV39_PTE_U) demo_vm \<noteq> None" by code_simp
  then have maps: "create_mapping root_a 0x10000 0x80002000 0x1000 (SV39_PTE_R OR SV39_PTE_W OR SV39_PTE_U) demo_vm = Some demo_rw_vm"
    by (auto simp: demo_rw_vm_def)
  note C = create_mapping_ok [OF demo_roots(1) _ maps, unfolded demo_vpns, OF order_refl]
  define pte where "pte = SV39_PTE (drop_bit 12 0x80002000 + of_nat 0) (mapping_perm (SV39_PTE_R OR SV39_PTE_W OR SV39_PTE_U))"
  have leaf: "leaf_pte (vmem demo_rw_vm) root_a 16 = pte" using C(3) [of 16] by (simp add: pte_def)
  have pte: "PTE_HAS_V pte" "pte AND READ = READ" "pte AND WRITE = WRITE" "pte_table pte = va_of 2" unfolding pte_def by code_simp+
  have own: "va_of 2 \<in> owned_pages (vbuddy demo_vm)" using frames.get_pages_fresh [OF demo_inv demo_pages] by simp
  have nt: "va_of 2 \<notin> tables (vmem demo_rw_vm) root_a"
  proof
    assume "va_of 2 \<in> tables (vmem demo_rw_vm) root_a"
    then have "va_of 2 \<in> {root_a}" using own C(2) demo_roots(3) by (auto simp: grows_def)
    moreover have "va_of 2 \<noteq> root_a" by code_simp
    ultimately show False by simp
  qed
  have va: "(0x10000 :: u64) = PGROUNDDOWN 0x10000" by code_simp
  note R = in_round [OF assms(1), of "0x10000", folded va]
  have vp: "vpn_of (0x10000 + of_nat j) = 16" using R(1) demo_vpns(1) by simp
  have jj: "unat (of_nat j :: u64) = j" using assms(1) by (intro unat_of_nat_small) simp
  have "(0x10000 :: u64) + of_nat j < USER_END"
    using assms(1) jj by (simp add: word_less_nat_alt unat_add_small USER_END_def)
  then have up: "user_page need (0x10000 + of_nat j) s" using assms(2) pte nt
    by (auto simp: user_page_def Let_def st vp leaf va_of_aligned)
  have wf: "tables_wf s" by (rule tables_wfI) (use C(1) in \<open>simp add: st\<close>)
  have ua: "user_addr (0x10000 + of_nat j) s = va_of 2 + of_nat j"
    using user_page_addr(1) [OF wf up] R(2) by (simp add: user_addr_def st vp leaf pte)
  have k: "kvm (demo_io b) = (kvm s)\<lparr>vmem := set_byte (va_of 2) b (vmem (kvm s))\<rparr>" "t_pgd (cur (demo_io b)) = t_pgd (cur s)"
    by (simp_all add: st demo_io_state)
  have "PGROUNDDOWN (va_of 2 AND NOT 7) = va_of 2" by code_simp
  then have off: "PGROUNDDOWN (va_of 2 AND NOT 7) \<notin> tables (vmem (kvm s)) (t_pgd (cur s))" using nt by (simp add: st)
  note K = store_keeps [OF wf off k]
  show "tables_wf (demo_io b)" by (rule K(1))
  show "user_page need (0x10000 + of_nat j) (demo_io b)" using up by (simp add: K(2))
  show "user_addr (0x10000 + of_nat j) (demo_io b) = va_of 2 + of_nat j" using K(3) [OF up] ua by simp
qed

lemma demo_io_buf: "k + n \<le> 4096 \<Longrightarrow> need = READ \<or> need = WRITE \<Longrightarrow> user_buf need (0x10000 + of_nat k) n (demo_io b)"
  unfolding user_buf_def
proof (intro allI impI)
  fix j assume "k + n \<le> 4096" "need = READ \<or> need = WRITE" "j < n"
  then show "user_page need (0x10000 + of_nat k + of_nat j) (demo_io b)"
    using demo_io_page(2) [of "k + j" need b] by (simp add: add.assoc)
qed

subsection \<open>read, write and lseek\<close>

text \<open>
  C35. \<open>read\<close> on a file brings the file into the memory of the task. For a descriptor that holds an open, readable file of the volume and a
  buffer in writable pages of the task, the call returns the number of bytes between the offset and the end of the file, at most as
  many as asked for; the task reads exactly these bytes of the file in its buffer; every other byte of memory is unchanged; the
  offset moves behind the bytes and the disk does not change.
\<close>

theorem sys_read_file:
  assumes "tables_wf st" "holds_file fd fil st" "perms fil AND FILE_READABLE \<noteq> 0" "read_fn fil = Some Fat32_read"
      "opened_file (fat st) fil cs sz" "unat (cfo fil) \<le> unat sz" "unat (cfo fil) + unat count < 2 ^ 64"
    and "n = min (unat count) (unat sz - unat (cfo fil))"
    and "user_buf (SV39_PTE_V OR SV39_PTE_W) buf n st" "inj_on (\<lambda>j. user_addr (buf + of_nat j) st) {..<n}"
  shows "\<exists>st'. sys_read fd buf count st = Some (int n, st') \<and>
    user_bytes buf n st' = take n (drop (unat (cfo fil)) (fat_content (fat32_volume (fat st)) (fat_disk (fat st)) cs)) \<and>
    holds_file fd (fil\<lparr>cfo := cfo fil + of_nat n\<rparr>) st' \<and> same_fs (fat st) (fat st') \<and>
    (\<forall>c. (\<forall>j<n. c \<noteq> user_addr (buf + of_nat j) st) \<longrightarrow> get_byte (vmem (kvm st')) c = get_byte (vmem (kvm st)) c)"
  using sys_read_ok [OF assms] by blast

theorem sys_read_file_witness:
  "\<exists>st'. sys_read 3 0x10000 100 (demo_io 0) = Some (4, st') \<and> user_bytes 0x10000 4 st' = bytes ''ello''"
proof -
  have n: "(4 :: nat) = min (unat (100 :: u64)) (unat (5 :: u32) - unat (cfo demo_file))" by (simp add: demo_file_def)
  have f: "perms demo_file AND FILE_READABLE \<noteq> 0" "read_fn demo_file = Some Fat32_read" "unat (cfo demo_file) \<le> unat (5 :: u32)"
    "unat (cfo demo_file) + unat (100 :: u64) < 2 ^ 64" by (simp_all add: demo_file_def FILE_READABLE_def)
  have "inj_on (\<lambda>j. user_addr (0x10000 + of_nat j) (demo_io 0)) {..<4}"
  proof (rule inj_onI)
    fix i j assume "i \<in> {..<4 :: nat}" "j \<in> {..<4 :: nat}" "user_addr (0x10000 + of_nat i) (demo_io 0) = user_addr (0x10000 + of_nat j) (demo_io 0)"
    then have "i < 4" "j < 4" "(of_nat i :: u64) = of_nat j" using demo_io_page(3) [of _ READ 0] by simp_all
    then have "unat (of_nat i :: u64) = unat (of_nat j :: u64)" by simp
    then show "i = j" using \<open>i < 4\<close> \<open>j < 4\<close> by (simp add: unat_of_nat_small)
  qed
  moreover have "user_buf (SV39_PTE_V OR SV39_PTE_W) 0x10000 4 (demo_io 0)" using demo_io_buf [of 0 4 WRITE 0] by simp
  moreover have "take 4 (drop 1 (fat_content (fat32_volume demo_fat) (fat_disk demo_fat) [5])) = bytes ''ello''" by code_simp
  moreover have "unat (cfo demo_file) = 1" by (simp add: demo_file_def)
  moreover have "tables_wf (demo_io 0)" by (rule demo_io_page(1) [of 0 READ]) simp_all
  ultimately show ?thesis
    using sys_read_file [OF _ demo_io_file f(1,2) _ f(3,4) n, of 0 "[5]" "0x10000"] demo_opened by (auto simp: demo_io_state)
qed

lemma sys_write_ok:
  assumes wf: "tables_wf st" and h: "holds_file fd fil st" and f: "perms fil AND FILE_WRITABLE \<noteq> 0" "write_fn fil = Some Fat32_write"
      "opened_file (fat st) fil cs sz" "chain_ok (fat32_volume (fat st)) cs" "unat (cfo fil) + unat n \<le> unat sz" "n \<noteq> 0"
    and dir: "\<forall>c\<in>set cs. phys (sector_of (fat32_volume (fat st)) (dir_cluster (f_dir (fat32_file fil)))) \<noteq>
      phys (sector_of (fat32_volume (fat st)) c)"
    and b: "user_buf READ buf (unat n) st"
  shows "\<exists>ft. sys_write fd buf n st = Some (0, st\<lparr>fat := ft,
        files_at := (files_at st)(t_files (cur st) := (files_at st (t_files (cur st)))[unat fd := fil\<lparr>cfo := cfo fil + n\<rparr>])\<rparr>) \<and>
    opened_file ft fil cs sz \<and> fat32_volume ft = fat32_volume (fat st) \<and>
    fat_content (fat32_volume (fat st)) (fat_disk ft) cs = splice (file_content (fat st) cs) (unat (cfo fil)) (user_bytes buf (unat n) st)"
proof -
  let ?bs = "user_bytes buf (unat n) st"
  note H = holds_fileD [OF h]
  have l: "length ?bs = unat n" by (simp add: user_bytes_def)
  have ne: "?bs \<noteq> []" using l f(6) by (metis list.size(3) unat_eq_0)
  have fit: "unat (cfo fil) + length ?bs \<le> unat sz" and n: "of_nat (length ?bs) = n" using f(5) by (simp_all add: l)
  obtain ft where ft: "fat32_write fil ?bs n (fat st) = Some (0, fil\<lparr>cfo := cfo fil + n\<rparr>, ft)" "fat_ok ft"
    "fat32_volume ft = fat32_volume (fat st)"
    "fat_content (fat32_volume (fat st)) (fat_disk ft) cs = splice (file_content (fat st) cs) (unat (cfo fil)) ?bs"
    "only_file (fat32_volume (fat st)) cs (fat_disk (fat st)) (fat_disk ft)"
    using fat32_write_ok [OF f(3,4) fit ne] unfolding n by blast
  note o = opened_after_write [OF f(3,4) dir ft(2,3,5)]
  have "sys_write fd buf n st = Some (0, st\<lparr>fat := ft,
        files_at := (files_at st)(t_files (cur st) := (files_at st (t_files (cur st)))[unat fd := fil\<lparr>cfo := cfo fil + n\<rparr>])\<rparr>)"
    using H(4,5,6) f(1) by (simp add: sys_write_def H(1) load_users_mapped [OF wf b] file_write_def H(2,3) f(2) ft(1) not_le [symmetric])
  then show ?thesis using o ft(3,4) by blast
qed

text \<open>
  C34. What a task writes to a file it reads back. For an open file of the volume that may be read and written, a range inside the file and a
  readable buffer of the task, \<open>write\<close> stores the bytes of the buffer (and returns 0, not their number); after \<open>lseek\<close> to the old
  offset, \<open>read\<close> into a writable buffer of the task, which may overlap the first, returns the number of bytes, and the task finds there the bytes
  it has written. Outside the range the content of the file is unchanged.
\<close>

theorem user_file_roundtrip:
  assumes "tables_wf st" "holds_file fd fil st" "perms fil AND FILE_READABLE \<noteq> 0" "perms fil AND FILE_WRITABLE \<noteq> 0"
      "read_fn fil = Some Fat32_read" "write_fn fil = Some Fat32_write" "lseek_fn fil = Some Fat32_lseek"
      "opened_file (fat st) fil cs sz" "chain_ok (fat32_volume (fat st)) cs" "unat (cfo fil) + unat n \<le> unat sz" "n \<noteq> 0"
      "\<forall>c\<in>set cs. phys (sector_of (fat32_volume (fat st)) (dir_cluster (f_dir (fat32_file fil)))) \<noteq>
         phys (sector_of (fat32_volume (fat st)) c)"
    and "user_buf (SV39_PTE_V OR SV39_PTE_R) src (unat n) st" "user_buf (SV39_PTE_V OR SV39_PTE_W) dst (unat n) st"
      "inj_on (\<lambda>j. user_addr (dst + of_nat j) st) {..<unat n}"
  shows "\<exists>st1 st2 st3. sys_write fd src n st = Some (0, st1) \<and> sys_lseek (int (unat fd)) (cfo fil) 0 st1 = Some (sint (cfo fil), st2) \<and>
    sys_read fd dst n st2 = Some (int (unat n), st3) \<and> user_bytes dst (unat n) st3 = user_bytes src (unat n) st \<and>
    fat_content (fat32_volume (fat st)) (fat_disk (fat st3)) cs =
      splice (fat_content (fat32_volume (fat st)) (fat_disk (fat st)) cs) (unat (cfo fil)) (user_bytes src (unat n) st)"
proof -
  let ?t = "t_files (cur st)" and ?bs = "user_bytes src (unat n) st"
  note wf = assms(1)
  obtain ft where W: "sys_write fd src n st = Some (0, st\<lparr>fat := ft,
        files_at := (files_at st)(?t := (files_at st ?t)[unat fd := fil\<lparr>cfo := cfo fil + n\<rparr>])\<rparr>)"
    "opened_file ft fil cs sz" "fat32_volume ft = fat32_volume (fat st)"
    "fat_content (fat32_volume (fat st)) (fat_disk ft) cs = splice (file_content (fat st) cs) (unat (cfo fil)) ?bs"
    using sys_write_ok [OF wf assms(2,4,6,8,9,10,11,12,13)] by blast
  define st1 where "st1 = st\<lparr>fat := ft, files_at := (files_at st)(?t := (files_at st ?t)[unat fd := fil\<lparr>cfo := cfo fil + n\<rparr>])\<rparr>"
  have o: "opened fil \<noteq> 0" by (rule holds_fileD(6) [OF assms(2)])
  have h1: "holds_file fd (fil\<lparr>cfo := cfo fil + n\<rparr>) st1" by (rule holds_file_set [OF assms(2)]) (use o in \<open>simp_all add: st1_def\<close>)
  define st2 where "st2 = st1\<lparr>files_at := (files_at st1)(t_files (cur st1) := (files_at st1 (t_files (cur st1)))[unat fd := fil])\<rparr>"
  have h2: "holds_file fd fil st2" by (rule holds_file_set [OF h1]) (use o in \<open>simp_all add: st2_def\<close>)
  note H1 = holds_fileD [OF h1]
  have not_bad: "\<not> bad_fd (int (unat fd))" unfolding bad_fd_def using H1(4) by linarith
  have L: "sys_lseek (int (unat fd)) (cfo fil) 0 st1 = Some (sint (cfo fil), st2)"
    using o assms(7) not_bad
    by (simp add: sys_lseek_def nat_int H1(1) file_lseek_def H1(2,3) fat32_lseek_def SEEK_SET_def st2_def del: of_nat_unat)
  have s2: "kvm st2 = kvm st" "task_at st2 = task_at st" "current st2 = current st" "fat st2 = ft" by (simp_all add: st2_def st1_def)
  have up: "user_page need a st2 = user_page need a st" "user_addr a st2 = user_addr a st" "tables_wf st2 = tables_wf st" for need a
    by (simp_all add: user_page_def user_addr_def user_pte_def tables_wf_def s2 Let_def)
  have nn: "unat n = min (unat n) (unat sz - unat (cfo fil))" using assms(10) by simp
  have lim: "unat (cfo fil) \<le> unat sz" "unat (cfo fil) + unat n < 2 ^ 64" using assms(10) unat_u32_less [of sz] by simp_all
  have b2: "user_buf WRITE dst (unat n) st2" "inj_on (\<lambda>j. user_addr (dst + of_nat j) st2) {..<unat n}"
    using assms(14,15) by (simp_all add: user_buf_def up)
  have "tables_wf st2" "opened_file (fat st2) fil cs sz" using wf W(2) by (simp_all add: up s2)
  from sys_read_ok [OF this(1) h2 assms(3,5) this(2) lim nn b2] obtain st3 where R: "sys_read fd dst n st2 = Some (int (unat n), st3)"
    "user_bytes dst (unat n) st3 = take (unat n) (drop (unat (cfo fil)) (file_content ft cs))" "same_fs ft (fat st3)"
    unfolding s2 by blast
  have l: "length ?bs = unat n" by (simp add: user_bytes_def)
  have "unat (cfo fil) \<le> length (file_content (fat st) cs)"
    using assms(8,10) content_length [of "fat st" "fat32_volume (fat st)" cs] by (auto simp: opened_file_def)
  then have "take (unat n) (drop (unat (cfo fil)) (file_content ft cs)) = ?bs" by (simp add: W(3,4) splice_def l)
  then show ?thesis
    using W L R by (intro exI [of _ st1] exI [of _ st2] exI [of _ st3]) (simp add: st1_def same_fs_def)
qed

theorem user_file_roundtrip_witness:
  "\<exists>st1 st2 st3. sys_write 3 0x10000 1 (demo_io 0x69) = Some (0, st1) \<and> sys_lseek 3 1 0 st1 = Some (1, st2) \<and>
    sys_read 3 0x10010 1 st2 = Some (1, st3) \<and> user_bytes 0x10010 1 st3 = [0x69]"
proof -
  let ?st = "demo_io 0x69"
  have f: "perms demo_file AND FILE_READABLE \<noteq> 0" "perms demo_file AND FILE_WRITABLE \<noteq> 0" "read_fn demo_file = Some Fat32_read"
    "write_fn demo_file = Some Fat32_write" "lseek_fn demo_file = Some Fat32_lseek" "cfo demo_file = 1"
    "unat (cfo demo_file) + unat (1 :: u64) \<le> unat (5 :: u32)" by (simp_all add: demo_file_def FILE_READABLE_def FILE_WRITABLE_def)
  have d: "\<forall>c\<in>set [5]. phys (sector_of (fat32_volume demo_fat) (dir_cluster (f_dir (fat32_file demo_file)))) \<noteq> phys (sector_of (fat32_volume demo_fat) c)"
    by code_simp
  have t: "tables_wf ?st" by (rule demo_io_page(1) [of 0 READ]) simp_all
  have b: "user_buf (SV39_PTE_V OR SV39_PTE_R) 0x10000 (unat (1 :: u64)) ?st" "user_buf (SV39_PTE_V OR SV39_PTE_W) 0x10010 (unat (1 :: u64)) ?st"
    using demo_io_buf [of 0 1 READ "0x69"] demo_io_buf [of 16 1 WRITE "0x69"] by simp_all
  have "user_addr 0x10000 ?st = va_of 2" using demo_io_page(3) [of 0 READ "0x69"] by simp
  then have u: "user_bytes 0x10000 1 ?st = [0x69]" by (simp add: user_bytes_def demo_io_state get_set_byte)
  have o: "opened_file (fat ?st) demo_file [5] 5" "chain_ok (fat32_volume (fat ?st)) [5]" using demo_opened demo_chain by (simp_all add: demo_io_state)
  have i: "inj_on (\<lambda>j. user_addr (0x10010 + of_nat j) ?st) {..<unat (1 :: u64)}" by (simp add: inj_on_def)
  show ?thesis
    using user_file_roundtrip [OF t demo_io_file f(1-5) o f(7) _ d [folded demo_io_state(2) [of "0x69"]] b i] u f(6) by simp blast
qed

end
