(* ===== verification/Spec2Isabelle.thy ===== *)
theory Spec2Isabelle
  imports PageTable_Claims Vma_Claims Text_Claims Fat32_Claims Proc_Claims Fork_Claims Malloc_Claims Shell_Claims
    Usys_Claims Fork_Task File_Fault Exec_Claims Kernel_Types User_Io
begin

text \<open>
  A RISC-V teaching kernel and its user library, as Isabelle functions, with the properties that make its parts correct. File names are
  relative to \<open>src/\<close>; the kernel proper is in \<open>arch/riscv/kernel\<close> with its headers in \<open>arch/riscv/include\<close>.

  The program. The buddy allocator hands out page frames and counts references to them. Sv39 page tables are built from its frames. A task
  has a page table and a list of memory areas; a page fault inside an area maps a frame, zeroed, read from a file, or copied from a
  frame that another task shares since a fork. The scheduler picks the runnable task with the largest time slice at every timer tick and
  whenever a task blocks. A trap is dispatched to the timer, a system call or the fault handler, and before it returns to the user the
  pending signals are handled; exit, wait and the signal that reaps children work together through the task table and the wait
  queue. Files are the console and the files of a FAT32 partition, read and written by sector through a virtio device. Kernel and user
  programs share a formatter, a scanner and string functions; user programs have a slab allocator over the system call \<open>mmap\<close>.

  Theories and sources.
  \<^item> \<open>Prelude\<close>: machine words, arrays with bounds, counted loops, chains of pointers, and their lemmas.
  \<^item> \<open>Kdefs\<close>: \<open>private_kdefs.h\<close>, \<open>mm.h\<close>, the constants and address conversions.
  \<^item> \<open>Clib\<close>: \<open>lib/string.c\<close>, \<open>lib/rand.c\<close>, \<open>include/ctype.h\<close>, \<open>include/math.h\<close>.
  \<^item> \<open>Buddy\<close>, \<open>Buddy_Inv\<close>, \<open>Buddy_Ops\<close>, \<open>Buddy_Props\<close>, \<open>Buddy_Boot\<close>, \<open>Buddy_Claims\<close>: \<open>mm.c\<close>. The record \<open>buddy\<close> is the static
    structure of that name. The tree invariant says which aligned run every node stands for; the operations are functions on the set of
    allocated blocks; the relation \<open>buddy_run\<close> is any sequence of calls. The locale \<open>page_source\<close> is what the page tables need of it.
  \<^item> \<open>PageTable\<close>, \<open>PageTable_Inv\<close>, \<open>PageTable_Map\<close>, \<open>PageTable_Unmap\<close>, \<open>PageTable_Claims\<close>: \<open>vm.c\<close>, \<open>vm.h\<close>. The state \<open>vmem\<close> is the
    memory with the allocator; a table is abstracted to the leaf entry of every page number, and mapping and unmapping are updates
    of that function, for one address space and for several side by side.
  \<^item> \<open>Vma\<close>, \<open>Vma_Inv\<close>, \<open>Vma_Ops\<close>, \<open>Vma_Claims\<close>: the memory areas (\<open>proc.h\<close> and lines 238 to 392 and 469 to 484 of \<open>proc.c\<close>). The slots
    of an \<open>mm_struct\<close> form a sorted doubly linked list and a free list; \<open>mm_wf\<close> reads them as lists, and the operations are list functions.
  \<^item> \<open>Printf\<close>, \<open>Printf_Props\<close>, \<open>Scanf\<close>, \<open>Text_Claims\<close>: \<open>lib/vfprintf.c\<close>, \<open>lib/vfscanf.c\<close>.
  \<^item> \<open>Virtio\<close>: \<open>fs/virtio.c\<close>; the device is a function on the state the driver and the device share; \<open>obeys\<close> says that it answers a well-formed
    request as the specification of virtio demands.
  \<^item> \<open>Fs\<close>, \<open>Fat32\<close>, \<open>Fat32_Props\<close>, \<open>Fat32_Dirs\<close>, \<open>Fat32_Claims\<close>: \<open>include/fs.h\<close>, \<open>fat32.h\<close>, \<open>mbr.h\<close>, \<open>fs/fat32.c\<close>, \<open>fs/mbr.c\<close>. A
    file is abstracted to the bytes of the sectors its chain of clusters leads through, a directory to the list of its entries.
  \<^item> \<open>Kernel\<close>: the kernel state \<open>kst\<close>, the structures of \<open>proc.h\<close>, \<open>reg.h\<close>, \<open>signal.h\<close>, and \<open>csr.h\<close>.
  \<^item> \<open>Sched\<close>, \<open>Sched_Claims\<close>: the scheduler of \<open>proc.c\<close> and its timer.
  \<^item> \<open>Files\<close>, \<open>Sysfile\<close>: \<open>fs/fs.c\<close>, \<open>fs/vfs.c\<close>, \<open>printk.c\<close>, \<open>scank.c\<close>, \<open>ksyscalls.c\<close>.
  \<^item> \<open>Fault\<close>, \<open>Fault_Props\<close>: \<open>do_page_fault\<close> of \<open>trap.c\<close>, and the accesses of the kernel to user memory.
  \<^item> \<open>Proc\<close>, \<open>Trap\<close>, \<open>Proc_Props\<close>, \<open>Proc_Claims\<close>: the rest of \<open>proc.c\<close>, \<open>signal.c\<close> and \<open>trap.c\<close>.
  \<^item> \<open>Fork_Props\<close>, \<open>Fork_Claims\<close>: the page loops of \<open>do_fork\<close>, as a relation \<open>forked\<close> between the page tables of parent and child
    that composes over pages and areas. \<open>Fork_Task\<close>: the record of the child.
  \<^item> \<open>Bytes\<close>, \<open>File_Fault\<close>, \<open>Exec_Claims\<close>: the bytes of the word memory, and what a process reads in a page of a mapped file and in the
    image that \<open>execve\<close> gives it. \<open>User_Io\<close>: what it reads and writes with the system calls on files.
  \<^item> \<open>Kernel_Types\<close>: what C's types do not say of the kernel's data, as an invariant of every sequence of traps; \<open>task_init\<close> establishes it.
  \<^item> \<open>Sys_Props\<close>: what the system calls on files and memory keep. \<open>Usys\<close>, \<open>Usys_Claims\<close>: the stubs of \<open>user/src/syscalls.c\<close> run on
    the trap path of \<open>entry.S\<close> and the modelled kernel, with the standard files of \<open>user/src/printf.c\<close>.
  \<^item> \<open>Malloc\<close>, \<open>Malloc_Inv\<close>, \<open>Malloc_Ops\<close>, \<open>Malloc_Steps\<close>, \<open>Malloc_Claims\<close>: \<open>user/src/malloc.c\<close>. The heap is abstracted to the set of
    blocks in the hands of the program; the locale \<open>block_store\<close> is the contract of an allocator, and \<open>malloc\<close> and \<open>free\<close> are its instance.
  \<^item> \<open>Dirent\<close>, \<open>Shell\<close>, \<open>Shell_Claims\<close>: \<open>user/src/dirent.c\<close> and the shell of \<open>user/src/main.c\<close>. The system calls are the fields of \<open>uenv\<close>,
    functions of a world outside the program; the line editor is a fold over the keys, and a directory the list of its entries.

  Conventions. A C structure is a record, a pointer to it is its address in a typed heap, and memory that is read as words or bytes is a
  function of the address. \<open>None\<close> is every way out of the defined behaviour: an access outside an array, a null pointer, a shutdown, a
  loop that never ends; so a theorem that gives \<open>Some\<close> also says that the code returns and stays within bounds. A function that may
  give up the processor for good (exit, a stopped task) returns an \<open>outcome\<close>. Error codes are values. Words have the width of the C types;
  sizes of arrays and indices the code keeps in range are naturals. Loops are recursive; the unbounded ones are partial functions,
  and their termination is part of the theorems about them. No fuel is used except for the loop that waits for the console, whose
  bound is the length of the list of answers.

  Parameters. The virtio device, the answers of the console (\<open>con_in\<close>, \<open>con_takes\<close>), the answers of \<open>mmap\<close> to the user heap (\<open>mmap_ans\<close>), the
  contents of uninitialised local arrays (\<open>junk\<close>), the symbols of the linker (\<open>ksyms\<close>), and the
  system calls of the shell (\<open>uenv\<close>). A theorem that relies on the behaviour of one
  of them says so in its hypotheses, and its witness gives an instance.

  Bounds. The buddy tree has at most \<open>2 ^ 24\<close> frames, more than the 128 MiB of the machine; page-table theorems speak of ranges that
  do not cross a multiple of 512 GiB; the user heap ends below \<open>USER_END\<close>, \<open>2 ^ 38\<close>, and serves requests up to \<open>2 ^ 19 - 56\<close> bytes, the largest its tables
  give a size for. The file theorems need a file offset and length whose sum does not wrap.

  Not modelled. Assembly (boot, \<open>__switch_to\<close>, division; of the trap entry only traps from user mode are), inline assembly (firmware
  calls, control registers, the clock), fences and progress messages: they have no state in the model, except that \<open>__switch_to\<close> is a new
  current task. Interrupts inside the kernel do not happen in it. A nested fault of the kernel that changes the sector buffer in the
  middle of a copy is undefined in the model. No code installs a user signal handler, so the branch that runs one is undefined. The
  declarations of \<open>include/elf.h\<close> other than the two headers and constants the loader reads are used by no code. In the
  shell a call of \<open>printf\<close> is one write of its text. The other programs of \<open>user/src/main.c\<close> print in endless loops.
\<close>

end
